(* ===== verification/Prelude.thy ===== *)
theory Prelude
  imports Main "HOL-Library.Word" "HOL-Library.List_Lexorder"
begin

text \<open>
  What every component of the model shares: the machine integers of the C++ code, its
  strong identifier types, its exceptions as values, its \<^verbatim>\<open>std::map\<close> as a list of
  entries sorted by key, its \<^verbatim>\<open>std::sort\<close> by a key, and the interface locales for
  maps and for machines that keep an invariant.
\<close>

section \<open>Machine integers, time, bytes\<close>

type_synonym u8 = "8 word"
type_synonym u16 = "16 word"
type_synonym u32 = "32 word"
type_synonym u64 = "64 word"

text \<open>\<^verbatim>\<open>std::byte\<close>, and the element type of every buffer.\<close>

type_synonym byte = "8 word"

text \<open>
  A \<^verbatim>\<open>std::chrono::steady_clock::time_point\<close> is a count of nanoseconds since the
  clock's epoch. The code never wraps it around (signed overflow would be undefined), so it
  is an unbounded integer here.
\<close>

type_synonym time_point = int
type_synonym duration = int

definition nanoseconds_per_second :: int where
  "nanoseconds_per_second = 1000000000"

definition nanoseconds_per_millisecond :: int where
  "nanoseconds_per_millisecond = 1000000"

text \<open>C++ integer division and \<^verbatim>\<open>duration_cast\<close> truncate towards zero.\<close>

definition trunc_div :: "int \<Rightarrow> int \<Rightarrow> int" where
  "trunc_div a b = (if (0 \<le> a) = (0 \<le> b) then \<bar>a\<bar> div \<bar>b\<bar> else - (\<bar>a\<bar> div \<bar>b\<bar>))"

lemma trunc_div_nonneg: "0 \<le> a \<Longrightarrow> 0 < b \<Longrightarrow> trunc_div a b = a div b"
  by (simp add: trunc_div_def)

lemma trunc_div_pos_iff:
  assumes "0 < b"
  shows "1 \<le> trunc_div a b \<longleftrightarrow> b \<le> a"
proof (cases "0 \<le> a")
  case True
  with assms have "trunc_div a b = a div b" by (simp add: trunc_div_nonneg)
  moreover have "1 \<le> a div b \<longleftrightarrow> b \<le> a"
    using assms zle_iff_zadd [of b a] pos_imp_zdiv_pos_iff [of b a] by linarith
  ultimately show ?thesis by simp
next
  case False
  then have "0 \<le> \<bar>a\<bar> div \<bar>b\<bar>" by (simp add: div_int_pos_iff)
  with False assms show ?thesis by (simp add: trunc_div_def)
qed

text \<open>Reading a word's size without its type: the largest value, and the successor's value.\<close>

lemma unat_Suc_word: "(x::'a::len word) \<noteq> - 1 \<Longrightarrow> unat (x + 1) = Suc (unat x)"
  by (metis add.commute add_eq_0_iff2 unatSuc)

lemma word_less_Suc: "(x::'a::len word) \<noteq> - 1 \<Longrightarrow> x < x + 1"
  by (simp add: word_less_nat_alt unat_Suc_word)

lemma word_less_Suc_trans: "(x::'a::len word) < y \<Longrightarrow> y \<noteq> - 1 \<Longrightarrow> x < y + 1"
  by (metis less_trans word_less_Suc)

section \<open>Exceptions as values\<close>

text \<open>
  The standard exceptions the modelled code throws. A function that can throw returns
  \<open>cpp_exn + 'a\<close>; functions the code declares \<^verbatim>\<open>noexcept\<close> return \<open>'a\<close>.
\<close>

datatype cpp_exn =
    Logic_error
  | Invalid_argument
  | Length_error
  | Out_of_range
  | Overflow_error

type_synonym 'a throws = "cpp_exn + 'a"

fun bind_throws :: "'a throws \<Rightarrow> ('a \<Rightarrow> 'b throws) \<Rightarrow> 'b throws" where
  "bind_throws (Inl e) f = Inl e"
| "bind_throws (Inr x) f = f x"

lemma bind_throws_Inr_iff [simp]:
  "bind_throws x f = Inr y \<longleftrightarrow> (\<exists>a. x = Inr a \<and> f a = Inr y)"
  by (cases x) auto

lemma bind_throws_assoc:
  "bind_throws (bind_throws x f) g = bind_throws x (\<lambda>a. bind_throws (f a) g)"
  by (cases x) auto

text \<open>The call returns, and what it returns satisfies the predicate.\<close>

definition returns :: "'a throws \<Rightarrow> ('a \<Rightarrow> bool) \<Rightarrow> bool" where
  "returns x Q \<longleftrightarrow> (case x of Inl _ \<Rightarrow> False | Inr a \<Rightarrow> Q a)"

lemma returns_Inr [simp]: "returns (Inr a) Q \<longleftrightarrow> Q a"
  by (simp add: returns_def)

lemma returns_Inl [simp]: "\<not> returns (Inl e) Q"
  by (simp add: returns_def)

lemma returns_bind [simp]:
  "returns (bind_throws x f) Q \<longleftrightarrow> returns x (\<lambda>a. returns (f a) Q)"
  by (cases x) auto

lemma returns_mono: "returns x Q \<Longrightarrow> (\<And>a. Q a \<Longrightarrow> R a) \<Longrightarrow> returns x R"
  by (cases x) auto

lemma returns_iff: "returns x Q \<longleftrightarrow> (\<exists>a. x = Inr a \<and> Q a)"
  by (cases x) auto

text \<open>A loop that pushes what a call returns for each value, and throws with the first that throws.\<close>

fun map_throws :: "('a \<Rightarrow> 'b throws) \<Rightarrow> 'a list \<Rightarrow> 'b list throws" where
  "map_throws f [] = Inr []"
| "map_throws f (x # xs) = bind_throws (f x) (\<lambda>y. bind_throws (map_throws f xs) (\<lambda>ys. Inr (y # ys)))"

lemma map_throws_Inr_iff: "map_throws f xs = Inr ys \<longleftrightarrow> list_all2 (\<lambda>x y. f x = Inr y) xs ys"
  by (induction xs arbitrary: ys) (auto simp: list_all2_Cons1)

lemma map_throws_total: "(\<And>x. x \<in> set xs \<Longrightarrow> f x = Inr (g x)) \<Longrightarrow> map_throws f xs = Inr (map g xs)"
  by (induction xs) simp_all

lemma map_throws_InlD: "map_throws f xs = Inl e \<Longrightarrow> \<exists>x \<in> set xs. f x = Inl e"
proof (induction xs)
  case (Cons x xs)
  then show ?case by (cases "f x"; cases "map_throws f xs") auto
qed simp

section \<open>Filtering maps over lists\<close>

lemma set_map_filter: "set (List.map_filter f xs) = {y. \<exists>x \<in> set xs. f x = Some y}"
  by (force simp: List.map_filter_def)

lemma map_filter_Nil [simp]: "List.map_filter f [] = []"
  by (simp add: List.map_filter_def)

lemma map_filter_Cons:
  "List.map_filter f (x # xs) =
     (case f x of None \<Rightarrow> List.map_filter f xs | Some y \<Rightarrow> y # List.map_filter f xs)"
  by (simp add: List.map_filter_def split: option.split)

section \<open>Identifiers\<close>

text \<open>
  \<^verbatim>\<open>PlayerId\<close>, \<^verbatim>\<open>RoomId\<close> and the other identifier structs of
  protocol/include/dxa/protocol/Ids.hpp each hold one integer and compare by it
  (\<^verbatim>\<open>operator<=> = default\<close>), but are different types. One datatype with a phantom
  tag gives all of them, with one order.
\<close>

datatype ('tag, 'a) ident = Ident (idval: 'a)

instantiation ident :: (type, linorder) linorder
begin

definition less_eq_ident :: "('a, 'b) ident \<Rightarrow> ('a, 'b) ident \<Rightarrow> bool" where
  "less_eq_ident x y \<longleftrightarrow> idval x \<le> idval y"

definition less_ident :: "('a, 'b) ident \<Rightarrow> ('a, 'b) ident \<Rightarrow> bool" where
  "less_ident x y \<longleftrightarrow> idval x < idval y"

instance
  by standard (auto simp: less_eq_ident_def less_ident_def intro: ident.expand)

end

lemma less_Ident [simp]: "Ident a < (Ident b :: ('t, 'a::linorder) ident) \<longleftrightarrow> a < b"
  by (simp add: less_ident_def)

lemma less_eq_Ident [simp]: "Ident a \<le> (Ident b :: ('t, 'a::linorder) ident) \<longleftrightarrow> a \<le> b"
  by (simp add: less_eq_ident_def)

datatype player_tag = Player_tag
datatype room_tag = Room_tag
datatype match_tag = Match_tag
datatype entity_tag = Entity_tag
datatype worker_tag = Worker_tag
datatype reservation_tag = Reservation_tag

type_synonym player_id = "(player_tag, u32) ident"
type_synonym room_id = "(room_tag, u32) ident"
type_synonym match_id = "(match_tag, u64) ident"
type_synonym entity_id = "(entity_tag, u32) ident"
type_synonym worker_id = "(worker_tag, u32) ident"
type_synonym reservation_id = "(reservation_tag, u64) ident"

abbreviation PlayerId :: "u32 \<Rightarrow> player_id" where "PlayerId \<equiv> Ident"
abbreviation RoomId :: "u32 \<Rightarrow> room_id" where "RoomId \<equiv> Ident"
abbreviation MatchId :: "u64 \<Rightarrow> match_id" where "MatchId \<equiv> Ident"
abbreviation EntityId :: "u32 \<Rightarrow> entity_id" where "EntityId \<equiv> Ident"
abbreviation WorkerId :: "u32 \<Rightarrow> worker_id" where "WorkerId \<equiv> Ident"
abbreviation ReservationId :: "u64 \<Rightarrow> reservation_id" where "ReservationId \<equiv> Ident"

section \<open>\<^verbatim>\<open>std::map\<close>\<close>

text \<open>
  A \<^verbatim>\<open>std::map\<close> is the list of its entries in increasing key order, which is the
  order in which the code iterates over it. \<^verbatim>\<open>find\<close> is \<^const>\<open>map_of\<close>;
  \<open>om_set\<close> stores under a key (replacing), as writing through an iterator does;
  \<^verbatim>\<open>emplace\<close> keeps an entry that exists.
\<close>

type_synonym ('k, 'v) omap = "('k \<times> 'v) list"

fun om_set :: "'k::linorder \<Rightarrow> 'v \<Rightarrow> ('k, 'v) omap \<Rightarrow> ('k, 'v) omap" where
  "om_set k v [] = [(k, v)]"
| "om_set k v ((k', v') # m) =
     (if k < k' then (k, v) # (k', v') # m
      else if k = k' then (k, v) # m
      else (k', v') # om_set k v m)"

definition om_erase :: "'k \<Rightarrow> ('k, 'v) omap \<Rightarrow> ('k, 'v) omap" where
  "om_erase k m = filter (\<lambda>e. fst e \<noteq> k) m"

definition om_contains :: "('k, 'v) omap \<Rightarrow> 'k \<Rightarrow> bool" where
  "om_contains m k \<longleftrightarrow> map_of m k \<noteq> None"

definition om_emplace :: "'k::linorder \<Rightarrow> 'v \<Rightarrow> ('k, 'v) omap \<Rightarrow> ('k, 'v) omap" where
  "om_emplace k v m = (if om_contains m k then m else om_set k v m)"

abbreviation om_keys :: "('k, 'v) omap \<Rightarrow> 'k list" where
  "om_keys m \<equiv> map fst m"

definition om_wf :: "('k::linorder, 'v) omap \<Rightarrow> bool" where
  "om_wf m \<longleftrightarrow> sorted_wrt (<) (om_keys m)"

lemma map_of_om_set [simp]: "map_of (om_set k v m) = (map_of m)(k \<mapsto> v)"
  by (induction k v m rule: om_set.induct) auto

lemma map_of_om_erase [simp]: "map_of (om_erase k m) = (map_of m)(k := None)"
  by (induction m) (auto simp: om_erase_def)

lemma om_contains_iff: "om_contains m k \<longleftrightarrow> k \<in> dom (map_of m)"
  by (auto simp: om_contains_def)

lemma om_emplace_new: "\<not> om_contains m k \<Longrightarrow> om_emplace k v m = om_set k v m"
  by (simp add: om_emplace_def)

lemma set_keys_om_set [simp]: "fst ` set (om_set k v m) = insert k (fst ` set m)"
  by (induction k v m rule: om_set.induct) auto

lemma om_wf_Nil [simp]: "om_wf []"
  by (simp add: om_wf_def)

lemma om_wf_Cons [simp]: "om_wf (e # m) \<longleftrightarrow> (\<forall>k \<in> fst ` set m. fst e < k) \<and> om_wf m"
  by (auto simp: om_wf_def)

lemma om_wf_set [simp]: "om_wf m \<Longrightarrow> om_wf (om_set k v m)"
  by (induction k v m rule: om_set.induct) (auto simp: dest: less_trans)

lemma om_wf_erase [simp]: "om_wf m \<Longrightarrow> om_wf (om_erase k m)"
  by (induction m) (auto simp: om_erase_def)

lemma om_wf_emplace [simp]: "om_wf m \<Longrightarrow> om_wf (om_emplace k v m)"
  by (simp add: om_emplace_def)

lemma om_wf_distinct: "om_wf m \<Longrightarrow> distinct (om_keys m)"
  by (simp add: om_wf_def strict_sorted_iff)

lemma om_wf_sorted: "om_wf m \<Longrightarrow> sorted (om_keys m)"
  by (simp add: om_wf_def strict_sorted_iff)

lemma om_wf_map_of_iff: "om_wf m \<Longrightarrow> map_of m k = Some v \<longleftrightarrow> (k, v) \<in> set m"
  by (simp add: map_of_eq_Some_iff om_wf_distinct)

lemma map_of_less_None: "\<forall>e \<in> set m. k < fst e \<Longrightarrow> map_of m (k::'k::order) = None"
  by (auto simp: map_of_eq_None_iff)

lemma length_om_set [simp]:
  "om_wf m \<Longrightarrow> length (om_set k v m) = (if om_contains m k then length m else Suc (length m))"
proof (induction k v m rule: om_set.induct)
  case (2 k v k' v' m)
  then show ?case
    using map_of_less_None [of m k] by (force simp: om_contains_def)
qed (simp add: om_contains_def)

lemma length_om_erase_le: "length (om_erase k m) \<le> length m"
  by (simp add: om_erase_def)

lemma om_erase_eq_Nil_iff: "om_erase k m = [] \<longleftrightarrow> fst ` set m \<subseteq> {k}"
  by (auto simp: om_erase_def filter_empty_conv)

lemma dom_om: "dom (map_of m) = fst ` set m"
  by (rule dom_map_of_conv_image_fst)

text \<open>Erasing while iterating keeps the entries that do not match.\<close>

lemma om_wf_filter [simp]: "om_wf m \<Longrightarrow> om_wf (filter P m)"
  by (induction m) auto

lemma map_of_filter_wf:
  "om_wf m \<Longrightarrow> map_of (filter P m) k =
     (case map_of m k of None \<Rightarrow> None | Some v \<Rightarrow> if P (k, v) then Some v else None)"
proof (induction m)
  case (Cons e m)
  then show ?case
    using map_of_less_None [of "filter P m" "fst e"] by (cases e) (auto split: option.split)
qed simp

subsection \<open>The map interface\<close>

text \<open>
  What the clients of a map rely on. The lemmas about erasing a whole list of keys are
  proved once from these laws.
\<close>

locale map_store =
  fixes lookup :: "'m \<Rightarrow> 'k \<Rightarrow> 'v option"
    and update :: "'k \<Rightarrow> 'v \<Rightarrow> 'm \<Rightarrow> 'm"
    and remove :: "'k \<Rightarrow> 'm \<Rightarrow> 'm"
    and wf :: "'m \<Rightarrow> bool"
  assumes lookup_update: "lookup (update k v m) = (lookup m)(k \<mapsto> v)"
    and lookup_remove: "lookup (remove k m) = (lookup m)(k := None)"
    and wf_update: "wf m \<Longrightarrow> wf (update k v m)"
    and wf_remove: "wf m \<Longrightarrow> wf (remove k m)"
begin

lemma lookup_remove_all:
  "lookup (fold remove ks m) k = (if k \<in> set ks then None else lookup m k)"
  by (induction ks arbitrary: m) (auto simp: lookup_remove)

lemma wf_remove_all: "wf m \<Longrightarrow> wf (fold remove ks m)"
  by (induction ks arbitrary: m) (auto simp: wf_remove)

lemma remove_all_submap: "lookup (fold remove ks m) k = Some v \<Longrightarrow> lookup m k = Some v"
  by (simp add: lookup_remove_all split: if_splits)

lemma update_then_remove: "lookup m k = None \<Longrightarrow> lookup (remove k (update k v m)) = lookup m"
  by (auto simp: lookup_update lookup_remove)

end

interpretation om: map_store map_of om_set om_erase om_wf
  by unfold_locales auto

section \<open>Machines that keep an invariant\<close>

text \<open>
  A component whose operations are the events of a machine: an initial state that satisfies
  the invariant and steps that keep it. A step that throws ends the run.
\<close>

fun run_steps :: "('s \<Rightarrow> 'e \<Rightarrow> 's throws) \<Rightarrow> 's \<Rightarrow> 'e list \<Rightarrow> 's throws" where
  "run_steps step s [] = Inr s"
| "run_steps step s (e # es) = bind_throws (step s e) (\<lambda>s'. run_steps step s' es)"

locale invariant_machine =
  fixes step :: "'s \<Rightarrow> 'e \<Rightarrow> 's throws"
    and inv :: "'s \<Rightarrow> bool"
    and allowed :: "'s \<Rightarrow> 'e \<Rightarrow> bool"
  assumes step_total: "inv s \<Longrightarrow> allowed s e \<Longrightarrow> \<exists>s'. step s e = Inr s' \<and> inv s'"
begin

fun allowed_run :: "'s \<Rightarrow> 'e list \<Rightarrow> bool" where
  "allowed_run s [] = True"
| "allowed_run s (e # es) =
     (allowed s e \<and> (case step s e of Inl _ \<Rightarrow> False | Inr s' \<Rightarrow> allowed_run s' es))"

lemma step_inv: "inv s \<Longrightarrow> allowed s e \<Longrightarrow> step s e = Inr s' \<Longrightarrow> inv s'"
  using step_total by fastforce

lemma run_total: "inv s \<Longrightarrow> allowed_run s es \<Longrightarrow> \<exists>s'. run_steps step s es = Inr s' \<and> inv s'"
proof (induction es arbitrary: s)
  case Nil
  then show ?case by simp
next
  case (Cons e es)
  then obtain s' where "step s e = Inr s'" "inv s'"
    using step_total by fastforce
  with Cons show ?case by auto
qed

lemma run_inv: "inv s \<Longrightarrow> allowed_run s es \<Longrightarrow> run_steps step s es = Inr s' \<Longrightarrow> inv s'"
  using run_total by fastforce

lemma run_total_when:
  assumes "\<And>s e. e \<in> set es \<Longrightarrow> allowed s e" and "inv s"
  shows "\<exists>s'. run_steps step s es = Inr s' \<and> inv s'"
  using assms
proof (induction es arbitrary: s)
  case Nil
  then show ?case by simp
next
  case (Cons e es)
  have "allowed s e" by (rule Cons.prems(1)) simp
  with Cons.prems(2) obtain s' where s': "step s e = Inr s'" "inv s'"
    using step_total by blast
  have "\<exists>s''. run_steps step s' es = Inr s'' \<and> inv s''"
    by (rule Cons.IH) (use Cons.prems(1) s'(2) in simp_all)
  with s'(1) show ?case by simp
qed

lemma run_total_unrestricted:
  assumes "\<And>s e. allowed s e" and "inv s"
  shows "\<exists>s'. run_steps step s es = Inr s' \<and> inv s'"
  by (rule run_total_when) (use assms in blast)+

end

section \<open>Ledgers of one-shot keys\<close>

text \<open>
  A ledger accepts a key at most once: what its two implementations (the lobby's and the game
  server's ticket stores) promise. \<open>accepted_keys\<close> runs a sequence of attempts
  (\<open>Inl\<close>) and other operations (\<open>Inr\<close>) and lists the keys that were accepted.
\<close>

fun accepted_keys ::
    "('k \<Rightarrow> 'q \<Rightarrow> 's \<Rightarrow> bool \<times> 's) \<Rightarrow> ('o \<Rightarrow> 's \<Rightarrow> 's) \<Rightarrow> ('k \<times> 'q + 'o) list \<Rightarrow> 's \<Rightarrow> 'k list" where
  "accepted_keys consume other [] s = []"
| "accepted_keys consume other (Inl (k, q) # ops) s =
     (let (accepted, s') = consume k q s
      in (if accepted then [k] else []) @ accepted_keys consume other ops s')"
| "accepted_keys consume other (Inr x # ops) s = accepted_keys consume other ops (other x s)"

text \<open>The same run, with the keys that its other operations put into the ledger.\<close>

fun issued_keys ::
    "('k \<Rightarrow> 'q \<Rightarrow> 's \<Rightarrow> bool \<times> 's) \<Rightarrow> ('o \<Rightarrow> 's \<Rightarrow> 's) \<Rightarrow> ('o \<Rightarrow> 's \<Rightarrow> 'k option)
      \<Rightarrow> ('k \<times> 'q + 'o) list \<Rightarrow> 's \<Rightarrow> 'k list" where
  "issued_keys consume other issues [] s = []"
| "issued_keys consume other issues (Inl (k, q) # ops) s =
     issued_keys consume other issues ops (snd (consume k q s))"
| "issued_keys consume other issues (Inr x # ops) s =
     (case issues x s of None \<Rightarrow> [] | Some k \<Rightarrow> [k]) @ issued_keys consume other issues ops (other x s)"

lemma distinct_count_list: "distinct xs \<longleftrightarrow> (\<forall>x. count_list xs x \<le> 1)"
proof (induction xs)
  case (Cons y xs)
  have "count_list xs y = 0 \<longleftrightarrow> y \<notin> set xs" by (simp add: count_list_0_iff)
  then show ?case using Cons by (auto simp: le_Suc_eq)
qed simp

text \<open>An acceptance spends a key, and only issuing it again can bring it back: no key is accepted
  more often than it was issued.\<close>

locale counted_ledger =
  fixes consume :: "'k \<Rightarrow> 'q \<Rightarrow> 's \<Rightarrow> bool \<times> 's"
    and other :: "'o \<Rightarrow> 's \<Rightarrow> 's"
    and issues :: "'o \<Rightarrow> 's \<Rightarrow> 'k option"
    and spent :: "'s \<Rightarrow> 'k \<Rightarrow> bool"
    and wf :: "'s \<Rightarrow> bool"
  assumes accept_spends: "wf s \<Longrightarrow> consume k q s = (True, s') \<Longrightarrow> spent s' k"
    and spent_refused: "wf s \<Longrightarrow> spent s k \<Longrightarrow> \<not> fst (consume k q s)"
    and consume_keeps: "wf s \<Longrightarrow> spent s k \<Longrightarrow> spent (snd (consume k' q s)) k"
    and unissued_keeps: "wf s \<Longrightarrow> spent s k \<Longrightarrow> issues x s \<noteq> Some k \<Longrightarrow> spent (other x s) k"
    and consume_wf: "wf s \<Longrightarrow> wf (snd (consume k q s))"
    and other_wf: "wf s \<Longrightarrow> wf (other x s)"
begin

lemma accepted_le_issued:
  "wf s \<Longrightarrow> count_list (accepted_keys consume other ops s) k
     \<le> count_list (issued_keys consume other issues ops s) k + (if spent s k then 0 else 1)"
proof (induction ops arbitrary: s)
  case (Cons x ops)
  show ?case
  proof (cases x)
    case (Inl kq)
    then obtain k' q where kq: "x = Inl (k', q)" by (cases kq) auto
    obtain acc s' where c: "consume k' q s = (acc, s')" by (cases "consume k' q s")
    have "wf s'" "spent s k \<Longrightarrow> spent s' k"
      using consume_wf [of s k' q] consume_keeps [of s k k' q] Cons.prems by (simp_all add: c)
    moreover have "acc \<Longrightarrow> spent s' k' \<and> \<not> spent s k'"
      using accept_spends [OF Cons.prems] spent_refused [OF Cons.prems, of k' q] c by auto
    ultimately show ?thesis using Cons.IH [of s'] by (auto simp: kq c split: if_splits)
  next
    case (Inr y)
    then show ?thesis
      using Cons.IH [OF other_wf [OF Cons.prems], of y] unissued_keeps [OF Cons.prems, of k y]
      by (auto split: option.split if_splits)
  qed
qed simp

end

text \<open>A ledger that issues nothing.\<close>

locale one_shot_ledger = counted_ledger consume other "\<lambda>_ _. None" spent wf
  for consume :: "'k \<Rightarrow> 'q \<Rightarrow> 's \<Rightarrow> bool \<times> 's"
    and other :: "'o \<Rightarrow> 's \<Rightarrow> 's"
    and spent :: "'s \<Rightarrow> 'k \<Rightarrow> bool"
    and wf :: "'s \<Rightarrow> bool"
begin

lemma nothing_issued: "issued_keys consume other (\<lambda>_ _. None) ops s = []"
proof (induction ops arbitrary: s)
  case (Cons x ops)
  then show ?case by (cases x) auto
qed simp

lemma accepted_at_most_once:
  assumes "wf s"
  shows "distinct (accepted_keys consume other ops s)"
proof -
  have "count_list (accepted_keys consume other ops s) k \<le> 1" for k
    using accepted_le_issued [OF assms, of ops k] by (simp add: nothing_issued split: if_splits)
  then show ?thesis by (simp add: distinct_count_list)
qed

end

section \<open>Smallest element\<close>

text \<open>\<^verbatim>\<open>std::min_element\<close>: the first element that no other one is less than.\<close>

fun min_element :: "('a \<Rightarrow> 'a \<Rightarrow> bool) \<Rightarrow> 'a list \<Rightarrow> 'a option" where
  "min_element lt [] = None"
| "min_element lt (x # xs) = Some (foldl (\<lambda>best y. if lt y best then y else best) x xs)"

lemma foldl_min_in: "foldl (\<lambda>best y. if lt y best then y else best) x xs \<in> insert x (set xs)"
proof (induction xs arbitrary: x)
  case (Cons y ys)
  then show ?case by (auto dest: Cons.IH [of y, THEN insertE] split: if_splits)
qed simp

lemma min_element_in: "min_element lt xs = Some m \<Longrightarrow> m \<in> set xs"
  using foldl_min_in by (cases xs) fastforce+

lemma min_element_None_iff: "min_element lt xs = None \<longleftrightarrow> xs = []"
  by (cases xs) auto

lemma foldl_min_le:
  fixes f :: "'a \<Rightarrow> 'b::linorder"
  assumes "\<And>x y. lt x y \<longleftrightarrow> f x < f y"
  shows "\<forall>y \<in> insert x (set xs). f (foldl (\<lambda>best y. if lt y best then y else best) x xs) \<le> f y"
proof (induction xs arbitrary: x)
  case (Cons y ys)
  show ?case
    using Cons.IH [of y] Cons.IH [of x] by (auto simp: assms not_less)
qed simp

lemma min_element_le:
  fixes f :: "'a \<Rightarrow> 'b::linorder"
  assumes "min_element lt xs = Some m" and "\<And>x y. lt x y \<longleftrightarrow> f x < f y" and "y \<in> set xs"
  shows "f m \<le> f y"
  using assms foldl_min_le [of lt f] by (cases xs) auto

section \<open>Sorting by a key\<close>

text \<open>
  \<^verbatim>\<open>std::sort\<close> with a comparison of one member. The standard leaves the order of
  equal keys open; insertion in the order of \<^const>\<open>sort_key\<close> keeps them as they
  came, and every property below holds where keys are distinct or speaks of the multiset.
\<close>

definition adjacent_equal :: "('a \<Rightarrow> 'b) \<Rightarrow> 'a list \<Rightarrow> bool" where
  "adjacent_equal f xs \<longleftrightarrow> (\<exists>i < length xs - 1. f (xs ! i) = f (xs ! Suc i))"

lemma adjacent_equal_Nil [simp]: "\<not> adjacent_equal f []"
  by (simp add: adjacent_equal_def)

lemma adjacent_equal_single [simp]: "\<not> adjacent_equal f [x]"
  by (simp add: adjacent_equal_def)

lemma adjacent_equal_Cons [simp]:
  "adjacent_equal f (x # y # xs) \<longleftrightarrow> f x = f y \<or> adjacent_equal f (y # xs)"
  unfolding adjacent_equal_def by (auto simp: less_Suc_eq_0_disj)

lemma sorted_adjacent_distinct:
  fixes f :: "'a \<Rightarrow> 'b::linorder"
  shows "sorted (map f xs) \<Longrightarrow> (\<not> adjacent_equal f xs \<longleftrightarrow> distinct (map f xs))"
proof (induction xs rule: induct_list012)
  case (3 x y zs)
  then show ?case by (auto simp: order.antisym)
qed auto

end
