(* ===== verification/ByteCodec.thy ===== *)
theory ByteCodec
  imports Prelude "HOL-Library.Char_ord"
begin

text \<open>
  protocol/src/ByteCodec.cpp: the little-endian byte writer and the bounds-checked byte
  reader that every message codec is built from, and the helpers the codecs share to finish
  a decode. The lemmas say that reading what was written gives it back and leaves the rest
  of the input (\<open>read_write\<close>), and that a read which succeeds consumed exactly the
  encoding of its result (\<open>Read*_SomeD\<close>).
\<close>

unbundle bit_operations_syntax

named_theorems read_write \<open>reading back what was written\<close>

section \<open>Writer\<close>

type_synonym byte_writer = "byte list"

text \<open>The loop shared by the unsigned writers: low byte first, then shift right by 8.\<close>

fun write_loop :: "nat \<Rightarrow> 'a::len word \<Rightarrow> byte_writer \<Rightarrow> byte_writer" where
  "write_loop 0 v w = w"
| "write_loop (Suc n) v w = write_loop n (drop_bit 8 v) (w @ [ucast (v AND 255)])"

definition WriteU8 :: "u8 \<Rightarrow> byte_writer \<Rightarrow> byte_writer" where
  "WriteU8 v w = w @ [v]"

definition WriteU16 :: "u16 \<Rightarrow> byte_writer \<Rightarrow> byte_writer" where
  "WriteU16 v w = write_loop 2 v w"

definition WriteU32 :: "u32 \<Rightarrow> byte_writer \<Rightarrow> byte_writer" where
  "WriteU32 v w = write_loop 4 v w"

definition WriteU64 :: "u64 \<Rightarrow> byte_writer \<Rightarrow> byte_writer" where
  "WriteU64 v w = write_loop 8 v w"

text \<open>
  A \<^verbatim>\<open>float\<close> is its IEEE-754 bit pattern, which is all that the codec looks at
  (\<^verbatim>\<open>std::bit_cast\<close>). It is finite when its exponent bits are not all ones.
\<close>

type_synonym f32 = "32 word"

definition isfinite :: "f32 \<Rightarrow> bool" where
  "isfinite bits \<longleftrightarrow> bits AND 0x7F800000 \<noteq> 0x7F800000"

definition WriteF32 :: "f32 \<Rightarrow> byte_writer \<Rightarrow> byte_writer" where
  "WriteF32 v w = WriteU32 v w"

definition WriteBytes :: "byte list \<Rightarrow> byte_writer \<Rightarrow> byte_writer" where
  "WriteBytes bs w = w @ bs"

text \<open>\<^verbatim>\<open>std::string\<close> characters as bytes, and back.\<close>

definition byte_of_char :: "char \<Rightarrow> byte" where
  "byte_of_char c = of_nat (of_char c)"

definition char_of_byte :: "byte \<Rightarrow> char" where
  "char_of_byte b = char_of (unat b)"

definition WriteString8 :: "string \<Rightarrow> byte_writer \<Rightarrow> byte_writer throws" where
  "WriteString8 s w =
     (if 255 < length s then Inl Length_error
      else Inr (WriteU8 (of_nat (length s)) w @ map byte_of_char s))"

section \<open>Reader\<close>

datatype decode_error = DecodeNone | Truncated | InvalidValue | CountLimit | TrailingBytes

record byte_reader =
  rbytes :: "byte list"
  roffset :: nat
  rerror :: decode_error

definition ByteReader :: "byte list \<Rightarrow> byte_reader" where
  "ByteReader bs = \<lparr>rbytes = bs, roffset = 0, rerror = DecodeNone\<rparr>"

definition Remaining :: "byte_reader \<Rightarrow> nat" where
  "Remaining r = length (rbytes r) - roffset r"

definition Empty :: "byte_reader \<Rightarrow> bool" where
  "Empty r \<longleftrightarrow> roffset r = length (rbytes r)"

definition SetError :: "decode_error \<Rightarrow> byte_reader \<Rightarrow> byte_reader" where
  "SetError e r = (if rerror r = DecodeNone then r\<lparr>rerror := e\<rparr> else r)"

definition CanRead :: "nat \<Rightarrow> byte_reader \<Rightarrow> bool \<times> byte_reader" where
  "CanRead n r =
     (if rerror r \<noteq> DecodeNone then (False, r)
      else if Remaining r < n then (False, SetError Truncated r)
      else (True, r))"

definition ReadU8 :: "byte_reader \<Rightarrow> u8 option \<times> byte_reader" where
  "ReadU8 r0 =
     (let (ok, r) = CanRead 1 r0
      in if \<not> ok then (None, r)
         else (Some (rbytes r ! roffset r), r\<lparr>roffset := roffset r + 1\<rparr>))"

definition ReadU16 :: "byte_reader \<Rightarrow> u16 option \<times> byte_reader" where
  "ReadU16 r0 =
     (let (ok, r) = CanRead 2 r0
      in if \<not> ok then (None, r)
         else (Some (ucast (rbytes r ! roffset r)
                     OR push_bit 8 (ucast (rbytes r ! (roffset r + 1)))),
               r\<lparr>roffset := roffset r + 2\<rparr>))"

text \<open>\<^verbatim>\<open>result |= byte << (index * 8)\<close> for the first \<open>n\<close> bytes.\<close>

definition read_loop :: "nat \<Rightarrow> byte list \<Rightarrow> nat \<Rightarrow> 'a::len word" where
  "read_loop n bs off =
     fold (\<lambda>i result. result OR push_bit (i * 8) (ucast (bs ! (off + i)))) [0..<n] 0"

definition ReadU32 :: "byte_reader \<Rightarrow> u32 option \<times> byte_reader" where
  "ReadU32 r0 =
     (let (ok, r) = CanRead 4 r0
      in if \<not> ok then (None, r)
         else (Some (read_loop 4 (rbytes r) (roffset r)), r\<lparr>roffset := roffset r + 4\<rparr>))"

definition ReadU64 :: "byte_reader \<Rightarrow> u64 option \<times> byte_reader" where
  "ReadU64 r0 =
     (let (ok, r) = CanRead 8 r0
      in if \<not> ok then (None, r)
         else (Some (read_loop 8 (rbytes r) (roffset r)), r\<lparr>roffset := roffset r + 8\<rparr>))"

definition ReadF32 :: "byte_reader \<Rightarrow> f32 option \<times> byte_reader" where
  "ReadF32 r = ReadU32 r"

definition ReadBytes :: "nat \<Rightarrow> byte_reader \<Rightarrow> byte list option \<times> byte_reader" where
  "ReadBytes n r0 =
     (let (ok, r) = CanRead n r0
      in if \<not> ok then (None, r)
         else (Some (take n (drop (roffset r) (rbytes r))), r\<lparr>roffset := roffset r + n\<rparr>))"

definition ReadString8 :: "nat \<Rightarrow> byte_reader \<Rightarrow> string option \<times> byte_reader" where
  "ReadString8 maximum r0 =
     (case ReadU8 r0 of
        (None, r) \<Rightarrow> (None, r)
      | (Some encodedCount, r) \<Rightarrow>
          let n = unat encodedCount
          in if maximum < n then (None, SetError CountLimit r)
             else let (ok, r) = CanRead n r
                  in if \<not> ok then (None, r)
                     else (Some (map char_of_byte (take n (drop (roffset r) (rbytes r)))),
                           r\<lparr>roffset := roffset r + n\<rparr>))"

section \<open>Little-endian bytes of a word\<close>

definition le_bytes :: "nat \<Rightarrow> 'a::len word \<Rightarrow> byte list" where
  "le_bytes n v = map (\<lambda>i. ucast (drop_bit (8 * i) v)) [0..<n]"

lemma length_le_bytes [simp]: "length (le_bytes n v) = n"
  by (simp add: le_bytes_def)

lemma ucast_and_255: "(ucast (v AND 255) :: byte) = ucast (v :: 'a::len word)"
proof -
  have "v AND 255 = take_bit 8 v" by (simp add: take_bit_eq_mask mask_eq_exp_minus_1)
  moreover have "(ucast (take_bit 8 v) :: byte) = ucast v"
    by (rule bit_word_eqI) (auto simp: bit_simps)
  ultimately show ?thesis by simp
qed

lemma le_bytes_Suc: "le_bytes (Suc n) v = ucast v # le_bytes n (drop_bit 8 v)"
  unfolding le_bytes_def
  by (simp add: upt_conv_Cons map_Suc_upt [symmetric] comp_def drop_bit_drop_bit add.commute
           del: upt_Suc map_Suc_upt)

lemma write_loop_le_bytes: "write_loop n v w = w @ le_bytes n v"
  by (induction n v w rule: write_loop.induct)
     (simp_all add: le_bytes_Suc ucast_and_255, simp add: le_bytes_def)

lemma bit_read_loop:
  "8 * n \<le> LENGTH('a) \<Longrightarrow>
     bit (read_loop n bs off :: 'a::len word) k \<longleftrightarrow> k < 8 * n \<and> bit (bs ! (off + k div 8)) (k mod 8)"
proof (induction n)
  case 0
  then show ?case by (simp add: read_loop_def)
next
  case (Suc n)
  have step: "(read_loop (Suc n) bs off :: 'a word)
      = read_loop n bs off OR push_bit (n * 8) (ucast (bs ! (off + n)))"
    by (simp add: read_loop_def)
  have "bit (push_bit (n * 8) (ucast (bs ! (off + n))) :: 'a word) k
      \<longleftrightarrow> 8 * n \<le> k \<and> k < 8 * Suc n \<and> bit (bs ! (off + n)) (k - 8 * n)"
    using Suc.prems by (auto simp: bit_simps mult.commute [of n] dest: bit_imp_le_length)
  moreover have "8 * n \<le> k \<Longrightarrow> k < 8 * Suc n \<Longrightarrow> k div 8 = n \<and> k mod 8 = k - 8 * n"
    by (auto simp: modulo_nat_def div_nat_eqI)
  ultimately show ?case
    using Suc by (auto simp: step bit_or_iff)
qed

lemma nth_le_bytes: "i < n \<Longrightarrow> le_bytes n v ! i = ucast (drop_bit (8 * i) v)"
  by (simp add: le_bytes_def)

lemma read_loop_le_bytes:
  fixes v :: "'a::len word"
  assumes "8 * n = LENGTH('a)" and "\<And>i. i < n \<Longrightarrow> bs ! (off + i) = le_bytes n v ! i"
  shows "read_loop n bs off = v"
proof (rule bit_word_eqI)
  fix k assume "k < LENGTH('a)"
  then have "k div 8 < n" using assms(1) by auto
  then have "bs ! (off + k div 8) = ucast (drop_bit (8 * (k div 8)) v)"
    using assms(2) by (simp add: nth_le_bytes)
  moreover have "8 * (k div 8) + k mod 8 = k" by simp
  ultimately show "bit (read_loop n bs off :: 'a word) k \<longleftrightarrow> bit v k"
    using assms(1) \<open>k < LENGTH('a)\<close> by (simp add: bit_read_loop bit_simps del: mult_div_mod_eq)
qed

lemma le_bytes_read_loop:
  assumes "8 * n \<le> LENGTH('a::len)" and "off + n \<le> length bs"
  shows "le_bytes n (read_loop n bs off :: 'a word) = take n (drop off bs)"
proof (rule nth_equalityI)
  fix i assume "i < length (le_bytes n (read_loop n bs off :: 'a word))"
  then have i: "i < n" by simp
  have "(ucast (drop_bit (8 * i) (read_loop n bs off :: 'a word)) :: byte) = bs ! (off + i)"
  proof (rule bit_word_eqI)
    fix k assume "k < LENGTH(8)"
    then have "k < 8" by simp
    then show "bit (ucast (drop_bit (8 * i) (read_loop n bs off :: 'a word)) :: byte) k
        \<longleftrightarrow> bit (bs ! (off + i)) k"
      using assms(1) i by (simp add: bit_simps bit_read_loop)
  qed
  with i assms(2) show "le_bytes n (read_loop n bs off :: 'a word) ! i = take n (drop off bs) ! i"
    by (simp add: nth_le_bytes)
qed (use assms(2) in simp)

lemma ReadU16_value_eq_loop:
  "(ucast (bs ! off) OR push_bit 8 (ucast (bs ! (off + 1))) :: u16) = read_loop 2 bs off"
  by (simp add: read_loop_def upt_rec)

lemma char_of_byte_of_char [simp]: "char_of_byte (byte_of_char c) = c"
proof -
  have "(of_char c :: nat) < 256" by simp
  then have "unat (of_nat (of_char c) :: byte) = of_char c"
    by (simp add: unat_of_nat)
  then show ?thesis by (simp add: char_of_byte_def byte_of_char_def)
qed

lemma unat_lt2p_u8: "unat (b :: u8) < 256"
  using unsigned_less [of b, where ?'a = nat] by simp

lemma byte_of_char_of_byte [simp]: "byte_of_char (char_of_byte b) = b"
proof -
  have "unat b < 256" by (rule unat_lt2p_u8)
  then show ?thesis by (simp add: char_of_byte_def byte_of_char_def)
qed

section \<open>A reader between what it has read and what is left\<close>

definition reader_at :: "byte list \<Rightarrow> byte list \<Rightarrow> byte_reader" where
  "reader_at pre suf = \<lparr>rbytes = pre @ suf, roffset = length pre, rerror = DecodeNone\<rparr>"

lemma ByteReader_reader_at: "ByteReader bs = reader_at [] bs"
  by (simp add: ByteReader_def reader_at_def)

lemma reader_at_inject [simp]: "reader_at a b = reader_at c d \<longleftrightarrow> a = c \<and> b = d"
  by (auto simp: reader_at_def)

lemma rerror_reader_at [simp]: "rerror (reader_at pre suf) = DecodeNone"
  by (simp add: reader_at_def)

lemma Empty_reader_at [simp]: "Empty (reader_at pre suf) \<longleftrightarrow> suf = []"
  by (simp add: Empty_def reader_at_def)

lemma Remaining_reader_at [simp]: "Remaining (reader_at pre suf) = length suf"
  by (simp add: Remaining_def reader_at_def)

lemma rbytes_reader_at [simp]: "rbytes (reader_at pre suf) = pre @ suf"
  by (simp add: reader_at_def)

lemma roffset_reader_at [simp]: "roffset (reader_at pre suf) = length pre"
  by (simp add: reader_at_def)

lemma CanRead_reader_at:
  "CanRead n (reader_at pre suf) =
     (if length suf < n then (False, SetError Truncated (reader_at pre suf))
      else (True, reader_at pre suf))"
  unfolding CanRead_def by simp

lemma CanRead_failed: "rerror r \<noteq> DecodeNone \<Longrightarrow> CanRead n r = (False, r)"
  by (simp add: CanRead_def)

lemma CanRead_FalseD: "CanRead n r = (False, r') \<Longrightarrow> rerror r' \<noteq> DecodeNone"
  by (auto simp: CanRead_def SetError_def split: if_splits)

lemma CanRead_TrueD: "CanRead n r = (True, r') \<Longrightarrow> r' = r"
  by (auto simp: CanRead_def split: if_splits)

lemma advance_reader_at:
  "n \<le> length suf \<Longrightarrow>
     (reader_at pre suf)\<lparr>roffset := length pre + n\<rparr> = reader_at (pre @ take n suf) (drop n suf)"
  by (simp add: reader_at_def)

subsection \<open>The interface of a field reader\<close>

text \<open>
  What a decoder relies on when it reads one field: \<open>bytes\<close> is the encoding of a value.
  Reading an encoding gives the value and leaves the rest; a read that succeeds found
  exactly the encoding of its result; once the reader has failed, every read fails and
  changes nothing; and a read that yields nothing has set the reader's error.
\<close>

locale field_codec =
  fixes read :: "byte_reader \<Rightarrow> 'a option \<times> byte_reader"
    and bytes :: "'a \<Rightarrow> byte list"
    and valid :: "'a \<Rightarrow> bool"
  assumes read_bytes:
      "valid v \<Longrightarrow> read (reader_at pre (bytes v @ suf)) = (Some v, reader_at (pre @ bytes v) suf)"
    and read_SomeD:
      "read (reader_at pre suf) = (Some v, r) \<Longrightarrow>
         valid v \<and> (\<exists>suf'. suf = bytes v @ suf' \<and> r = reader_at (pre @ bytes v) suf')"
    and read_failed: "rerror r \<noteq> DecodeNone \<Longrightarrow> read r = (None, r)"
    and read_NoneD: "read r = (None, r') \<Longrightarrow> rerror r' \<noteq> DecodeNone"
begin

lemma read_exact: "valid v \<Longrightarrow> read (reader_at pre (bytes v)) = (Some v, reader_at (pre @ bytes v) [])"
  using read_bytes [of v pre "[]"] by simp

lemma read_SomeE:
  assumes "read (reader_at pre suf) = (Some v, r)"
  obtains suf' where "valid v" "suf = bytes v @ suf'" "r = reader_at (pre @ bytes v) suf'"
  using read_SomeD [OF assms] by blast

lemma bytes_prefix_inj:
  assumes "valid v" "valid w" "bytes v @ s = bytes w @ t"
  shows "v = w \<and> s = t"
proof -
  have "(Some v, reader_at (bytes v) s) = (Some w, reader_at (bytes w) t)"
    using read_bytes [OF assms(1), of "[]" s] read_bytes [OF assms(2), of "[]" t] assms(3)
    by (metis append_Nil)
  then show ?thesis by simp
qed

end

text \<open>The word readers share one proof.\<close>

lemma field_codec_word:
  fixes read :: "byte_reader \<Rightarrow> 'a::len word option \<times> byte_reader"
  assumes n: "8 * n = LENGTH('a)"
    and read: "\<And>r0. read r0 =
     (let (ok, r) = CanRead n r0
      in if \<not> ok then (None, r)
         else (Some (read_loop n (rbytes r) (roffset r)), r\<lparr>roffset := roffset r + n\<rparr>))"
  shows "field_codec read (le_bytes n) (\<lambda>_. True)"
proof
  have at: "read (reader_at pre suf) =
      (if length suf < n then (None, SetError Truncated (reader_at pre suf))
       else (Some (read_loop n (pre @ suf) (length pre)), reader_at (pre @ take n suf) (drop n suf)))"
    for pre suf
    by (simp add: read CanRead_reader_at advance_reader_at)
  fix pre suf and v :: "'a word"
  have "read_loop n (pre @ le_bytes n v @ suf) (length pre) = v"
    using n by (intro read_loop_le_bytes) (simp_all add: nth_append)
  then show "read (reader_at pre (le_bytes n v @ suf)) = (Some v, reader_at (pre @ le_bytes n v) suf)"
    by (simp add: at)
  fix r
  assume "read (reader_at pre suf) = (Some v, r)"
  then have len: "n \<le> length suf" and v: "v = read_loop n (pre @ suf) (length pre)"
    and r: "r = reader_at (pre @ take n suf) (drop n suf)"
    by (simp_all add: at split: if_splits)
  have "le_bytes n v = take n suf"
    using n len v le_bytes_read_loop [of n "length pre" "pre @ suf", where 'a = 'a] by simp
  with len r show "True \<and> (\<exists>suf'. suf = le_bytes n v @ suf' \<and> r = reader_at (pre @ le_bytes n v) suf')"
    by simp
next
  fix r :: byte_reader assume "rerror r \<noteq> DecodeNone"
  then show "read r = (None, r)" by (simp add: read CanRead_failed)
next
  fix r r' assume "read r = (None, r')"
  then show "rerror r' \<noteq> DecodeNone"
    by (auto simp: read split: prod.splits if_splits dest: CanRead_FalseD)
qed

interpretation u8: field_codec ReadU8 "\<lambda>v. [v]" "\<lambda>_. True"
proof -
  have "field_codec ReadU8 (le_bytes 1) (\<lambda>_. True)"
    by (rule field_codec_word) (simp_all add: ReadU8_def read_loop_def split: prod.split)
  moreover have "le_bytes 1 = (\<lambda>v :: u8. [v])"
    by (simp add: le_bytes_def fun_eq_iff)
  ultimately show "field_codec ReadU8 (\<lambda>v. [v]) (\<lambda>_. True)" by simp
qed

interpretation u16: field_codec ReadU16 "le_bytes 2" "\<lambda>_. True"
  by (rule field_codec_word)
     (simp_all only: ReadU16_def ReadU16_value_eq_loop, simp)

interpretation u32: field_codec ReadU32 "le_bytes 4" "\<lambda>_. True"
  by (rule field_codec_word) (simp_all add: ReadU32_def)

interpretation u64: field_codec ReadU64 "le_bytes 8" "\<lambda>_. True"
  by (rule field_codec_word) (simp_all add: ReadU64_def)

interpretation f32: field_codec ReadF32 "le_bytes 4" "\<lambda>_. True"
  by (rule field_codec_word) (simp_all add: ReadF32_def ReadU32_def)

interpretation raw: field_codec "ReadBytes n" "\<lambda>bs. bs" "\<lambda>bs. length bs = n" for n
proof
  have at: "ReadBytes n (reader_at pre suf) =
      (if length suf < n then (None, SetError Truncated (reader_at pre suf))
       else (Some (take n suf), reader_at (pre @ take n suf) (drop n suf)))" for pre suf
    by (simp add: ReadBytes_def CanRead_reader_at advance_reader_at)
  fix pre suf v :: "byte list"
  show "length v = n \<Longrightarrow>
      ReadBytes n (reader_at pre (v @ suf)) = (Some v, reader_at (pre @ v) suf)"
    by (auto simp: at)
  fix r
  assume "ReadBytes n (reader_at pre suf) = (Some v, r)"
  then show "length v = n \<and> (\<exists>suf'. suf = v @ suf' \<and> r = reader_at (pre @ v) suf')"
    by (auto simp: at split: if_splits intro!: exI [of _ "drop n suf"])
next
  fix r :: byte_reader assume "rerror r \<noteq> DecodeNone"
  then show "ReadBytes n r = (None, r)" by (simp add: ReadBytes_def CanRead_failed)
next
  fix r r' assume "ReadBytes n r = (None, r')"
  then show "rerror r' \<noteq> DecodeNone"
    by (auto simp: ReadBytes_def split: prod.splits if_splits dest: CanRead_FalseD)
qed

definition string8_bytes :: "string \<Rightarrow> byte list" where
  "string8_bytes s = of_nat (length s) # map byte_of_char s"

lemma map_char_of_byte_of_char [simp]: "map char_of_byte (map byte_of_char s) = s"
  by (induction s) auto

lemma map_byte_of_char_of_byte [simp]: "map byte_of_char (map char_of_byte bs) = bs"
  by (induction bs) auto

lemma unat_of_nat_u8: "n \<le> 255 \<Longrightarrow> unat (of_nat n :: u8) = n"
  by (simp add: unat_of_nat)

lemma unat_u8_le: "unat (b :: u8) \<le> 255"
  using unat_lt2p_u8 [of b] by simp

lemma ReadString8_reader_at:
  "ReadString8 m (reader_at pre (c # suf)) =
     (if m < unat c then (None, SetError CountLimit (reader_at (pre @ [c]) suf))
      else if length suf < unat c then (None, SetError Truncated (reader_at (pre @ [c]) suf))
      else (Some (map char_of_byte (take (unat c) suf)),
            reader_at (pre @ [c] @ take (unat c) suf) (drop (unat c) suf)))"
  using u8.read_bytes [where v = c and pre = pre and suf = suf] advance_reader_at [of "unat c" suf "pre @ [c]"]
  by (simp add: ReadString8_def CanRead_reader_at Let_def)

interpretation str8: field_codec "ReadString8 m" string8_bytes "\<lambda>s. length s \<le> min m 255" for m
proof
  fix s :: string and pre suf
  assume "length s \<le> min m 255"
  then show "ReadString8 m (reader_at pre (string8_bytes s @ suf))
      = (Some s, reader_at (pre @ string8_bytes s) suf)"
    by (simp add: string8_bytes_def ReadString8_reader_at unat_of_nat_u8 del: map_map)
next
  fix pre suf and s :: string and r
  assume read: "ReadString8 m (reader_at pre suf) = (Some s, r)"
  then obtain c suf' where suf: "suf = c # suf'"
    using u8.read_SomeD [of pre suf]
    by (cases "ReadU8 (reader_at pre suf)") (fastforce simp: ReadString8_def split: option.splits)
  then have le: "unat c \<le> m" "unat c \<le> length suf'"
    and s: "s = map char_of_byte (take (unat c) suf')"
    and r: "r = reader_at (pre @ [c] @ take (unat c) suf') (drop (unat c) suf')"
    using read by (simp_all add: ReadString8_reader_at split: if_splits)
  have "unat c \<le> 255" by (rule unat_u8_le)
  moreover have "string8_bytes s = c # take (unat c) suf'"
    using le by (simp add: string8_bytes_def s del: map_map)
  ultimately show "length s \<le> min m 255 \<and>
      (\<exists>suf'. suf = string8_bytes s @ suf' \<and> r = reader_at (pre @ string8_bytes s) suf')"
    using le s suf r by (auto intro!: exI [of _ "drop (unat c) suf'"])
next
  fix r :: byte_reader assume "rerror r \<noteq> DecodeNone"
  then show "ReadString8 m r = (None, r)" by (simp add: ReadString8_def u8.read_failed)
next
  fix r r' assume "ReadString8 m r = (None, r')"
  then show "rerror r' \<noteq> DecodeNone"
    by (auto simp: ReadString8_def Let_def SetError_def
        split: prod.splits option.splits if_splits dest: CanRead_FalseD u8.read_NoneD)
qed

lemmas read_bytes_laws [read_write] =
  u8.read_bytes [simplified] u16.read_bytes [simplified] u32.read_bytes [simplified]
  u64.read_bytes [simplified] f32.read_bytes [simplified]
  raw.read_bytes str8.read_bytes
  u8.read_exact u16.read_exact u32.read_exact u64.read_exact f32.read_exact
  raw.read_exact str8.read_exact

lemmas read_failed_laws [read_write] =
  u8.read_failed u16.read_failed u32.read_failed u64.read_failed f32.read_failed
  raw.read_failed str8.read_failed

lemma write_bytes_laws [read_write]:
  "WriteU8 a w = w @ [a]"
  "WriteU16 b w = w @ le_bytes 2 b"
  "WriteU32 c w = w @ le_bytes 4 c"
  "WriteU64 d w = w @ le_bytes 8 d"
  "WriteF32 c w = w @ le_bytes 4 c"
  "WriteBytes bs w = w @ bs"
  by (simp_all add: WriteU8_def WriteU16_def WriteU32_def WriteU64_def WriteF32_def
      WriteBytes_def write_loop_le_bytes)

lemma WriteString8_bytes [read_write]:
  "length s \<le> 255 \<Longrightarrow> WriteString8 s w = Inr (w @ string8_bytes s)"
  by (simp add: WriteString8_def string8_bytes_def WriteU8_def)

section \<open>Finishing a decode\<close>

text \<open>
  \<^verbatim>\<open>MessageDecodeResult\<close> (MessageCodec.hpp) holds either a message and the error
  \<^verbatim>\<open>None\<close>, or no message and an error: a sum.
\<close>

type_synonym 'm decode_result = "decode_error + 'm"

definition ReaderFailure :: "byte_reader \<Rightarrow> 'm decode_result" where
  "ReaderFailure r = Inl (if rerror r = DecodeNone then TrailingBytes else rerror r)"

definition InvalidOr :: "byte_reader \<Rightarrow> 'm decode_result" where
  "InvalidOr r = Inl (if rerror r = DecodeNone then InvalidValue else rerror r)"

definition FinishDecode :: "byte_reader \<Rightarrow> 'm \<Rightarrow> 'm decode_result" where
  "FinishDecode r m =
     (if rerror r \<noteq> DecodeNone \<or> \<not> Empty r then ReaderFailure r else Inr m)"

lemma ReaderFailure_neq_Inr [simp]: "ReaderFailure r \<noteq> Inr m"
  by (simp add: ReaderFailure_def)

lemma InvalidOr_neq_Inr [simp]: "InvalidOr r \<noteq> Inr m"
  by (simp add: InvalidOr_def)

lemma FinishDecode_reader_at [simp]:
  "FinishDecode (reader_at pre []) m = Inr m"
  "FinishDecode (reader_at pre suf) m = Inr m' \<longleftrightarrow> suf = [] \<and> m = m'"
  by (auto simp: FinishDecode_def)

text \<open>
  The loop that reads \<open>n\<close> items; an item reader stops the decode with an error.
\<close>

fun read_items ::
    "(byte_reader \<Rightarrow> 'e + 'a \<times> byte_reader) \<Rightarrow> nat \<Rightarrow> byte_reader
      \<Rightarrow> 'e + 'a list \<times> byte_reader" where
  "read_items item 0 r = Inr ([], r)"
| "read_items item (Suc n) r =
     (case item r of
        Inl e \<Rightarrow> Inl e
      | Inr (x, r') \<Rightarrow>
          (case read_items item n r' of
             Inl e \<Rightarrow> Inl e
           | Inr (xs, r'') \<Rightarrow> Inr (x # xs, r'')))"

lemma read_items_bytes:
  assumes "\<And>x pre suf. x \<in> set xs \<Longrightarrow>
      item (reader_at pre (enc x @ suf)) = Inr (x, reader_at (pre @ enc x) suf)"
  shows "read_items item (length xs) (reader_at pre (concat (map enc xs) @ suf))
      = Inr (xs, reader_at (pre @ concat (map enc xs)) suf)"
  using assms by (induction xs arbitrary: pre) simp_all

lemma read_items_InrD:
  assumes "\<And>x pre suf r. item (reader_at pre suf) = Inr (x, r) \<Longrightarrow>
      ok x \<and> (\<exists>suf'. suf = enc x @ suf' \<and> r = reader_at (pre @ enc x) suf')"
  shows "read_items item n (reader_at pre suf) = Inr (xs, r) \<Longrightarrow>
      length xs = n \<and> (\<forall>x \<in> set xs. ok x) \<and>
      (\<exists>suf'. suf = concat (map enc xs) @ suf' \<and> r = reader_at (pre @ concat (map enc xs)) suf')"
proof (induction n arbitrary: pre suf xs)
  case 0
  then show ?case by simp
next
  case (Suc n)
  then obtain x r' xs' where item: "item (reader_at pre suf) = Inr (x, r')"
    and rest: "read_items item n r' = Inr (xs', r)" and xs: "xs = x # xs'"
    by (auto split: sum.splits)
  from assms [OF item] obtain suf' where "ok x" "suf = enc x @ suf'" "r' = reader_at (pre @ enc x) suf'"
    by blast
  with Suc.IH [of "pre @ enc x" suf' xs'] rest xs show ?case by auto
qed

section \<open>Enumerations over the wire\<close>

text \<open>
  An \<^verbatim>\<open>enum class\<close> travels as its underlying integer; the decoders cast the
  integer back and then check that it names an enumerator.
\<close>

definition enum_of :: "('e \<Rightarrow> 'w) \<Rightarrow> 'e list \<Rightarrow> 'w \<Rightarrow> 'e option" where
  "enum_of f es v = find (\<lambda>e. f e = v) es"

lemma enum_of_value: "inj f \<Longrightarrow> e \<in> set es \<Longrightarrow> enum_of f es (f e) = Some e"
  unfolding enum_of_def by (induction es) (auto simp: inj_eq)

lemma enum_of_SomeD: "enum_of f es v = Some e \<Longrightarrow> v = f e"
  unfolding enum_of_def by (auto simp: find_Some_iff)

locale wire_enum =
  fixes to_wire :: "'e \<Rightarrow> 'w" and of_wire :: "'w \<Rightarrow> 'e option"
  assumes of_to: "of_wire (to_wire e) = Some e"
    and of_wire_SomeD: "of_wire v = Some e \<Longrightarrow> v = to_wire e"
begin

lemma of_wire_iff: "of_wire v = Some e \<longleftrightarrow> v = to_wire e"
  using of_to of_wire_SomeD by blast

lemma to_wire_inj: "to_wire a = to_wire b \<Longrightarrow> a = b"
  using of_to by (metis option.inject)

end

lemma wire_enum_enum_of:
  assumes "inj f" and "\<And>e. e \<in> set es"
  shows "wire_enum f (enum_of f es)"
  using assms by unfold_locales (auto simp: enum_of_value dest: enum_of_SomeD)

section \<open>The interface of a message codec\<close>

text \<open>
  What the two ends of a connection rely on: \<open>wf\<close> is what the C++ types of the
  message guarantee (an \<^verbatim>\<open>Opaque128\<close> has sixteen bytes), \<open>canon\<close> is the form
  in which a message arrives (the encoders sort some lists), and an encoder that does not
  throw produced bytes that decode to it.
\<close>

locale message_codec =
  fixes encode :: "'m \<Rightarrow> 'e throws"
    and decode :: "'e \<Rightarrow> 'm decode_result"
    and canon :: "'m \<Rightarrow> 'm"
    and wf :: "'m \<Rightarrow> bool"
  assumes decode_encode: "wf m \<Longrightarrow> encode m = Inr e \<Longrightarrow> decode e = Inr (canon m)"
begin

lemma encode_injective:
  assumes "wf m" "wf m'" "encode m = Inr e" "encode m' = Inr e"
  shows "canon m = canon m'"
  using decode_encode [OF assms(1,3)] decode_encode [OF assms(2,4)] by simp

lemma encode_distinguishes:
  "wf m \<Longrightarrow> wf m' \<Longrightarrow> canon m \<noteq> canon m' \<Longrightarrow> encode m = Inr e \<Longrightarrow> encode m' \<noteq> Inr e"
  using encode_injective by blast

end

text \<open>
  A codec whose decoder accepts nothing but what the encoder writes: every accepted byte
  string is the encoding of the message it decodes to.
\<close>

locale strict_codec = message_codec +
  assumes encode_decode: "decode e = Inr m \<Longrightarrow> wf m \<and> encode m = Inr e"
begin

lemma decode_injective:
  assumes "decode e = Inr m" "decode e' = Inr m"
  shows "e = e'"
  using encode_decode [OF assms(1)] encode_decode [OF assms(2)] by simp

lemma decode_canonical: "decode e = Inr m \<Longrightarrow> canon m = m"
  using encode_decode decode_encode by fastforce

end

end
