(* ===== verification/Framing.thy ===== *)
theory Framing
  imports ByteCodec
begin

text \<open>
  protocol/src/TcpFrame.cpp and protocol/src/Crc32.cpp: the 12-byte header in front of every
  TCP message, and the checksum of snapshot payloads. The lemmas show that a frame the
  encoder builds decodes to its type and size, that the header decoder accepts nothing else,
  and that the checksum of a payload changes whenever one byte of it does.
\<close>

section \<open>Message types\<close>

definition ProtocolVersion :: u16 where "ProtocolVersion = 2"
definition TcpFrameHeaderBytes :: nat where "TcpFrameHeaderBytes = 12"
definition MaxTcpFrameBytes :: nat where "MaxTcpFrameBytes = 65536"
definition MaxTcpPayloadBytes :: nat where "MaxTcpPayloadBytes = MaxTcpFrameBytes - TcpFrameHeaderBytes"

datatype message_type =
    MT_ClientHello | MT_ServerWelcome | MT_ListRoomsRequest | MT_RoomListResponse
  | MT_CreateRoomRequest | MT_JoinRoomRequest | MT_LeaveRoomRequest | MT_SetReadyRequest
  | MT_StartMatchRequest | MT_RoomSnapshot | MT_MatchTicket | MT_ErrorResponse
  | MT_WorkerRegister | MT_WorkerRegistered | MT_ReserveMatch | MT_ReserveMatchReady
  | MT_ReserveMatchRejected | MT_CancelMatchReservation | MT_MatchReservationCancelled
  | MT_MatchFinished | MT_GameClientHello | MT_GameServerWelcome | MT_GameServerError
  | MT_GameMatchResult

fun message_type_value :: "message_type \<Rightarrow> u16" where
  "message_type_value MT_ClientHello = 1"
| "message_type_value MT_ServerWelcome = 2"
| "message_type_value MT_ListRoomsRequest = 3"
| "message_type_value MT_RoomListResponse = 4"
| "message_type_value MT_CreateRoomRequest = 5"
| "message_type_value MT_JoinRoomRequest = 6"
| "message_type_value MT_LeaveRoomRequest = 7"
| "message_type_value MT_SetReadyRequest = 8"
| "message_type_value MT_StartMatchRequest = 9"
| "message_type_value MT_RoomSnapshot = 10"
| "message_type_value MT_MatchTicket = 11"
| "message_type_value MT_ErrorResponse = 12"
| "message_type_value MT_WorkerRegister = 13"
| "message_type_value MT_WorkerRegistered = 14"
| "message_type_value MT_ReserveMatch = 15"
| "message_type_value MT_ReserveMatchReady = 16"
| "message_type_value MT_ReserveMatchRejected = 17"
| "message_type_value MT_CancelMatchReservation = 18"
| "message_type_value MT_MatchReservationCancelled = 19"
| "message_type_value MT_MatchFinished = 20"
| "message_type_value MT_GameClientHello = 21"
| "message_type_value MT_GameServerWelcome = 22"
| "message_type_value MT_GameServerError = 23"
| "message_type_value MT_GameMatchResult = 24"

definition message_types :: "message_type list" where
  "message_types =
     [MT_ClientHello, MT_ServerWelcome, MT_ListRoomsRequest, MT_RoomListResponse,
      MT_CreateRoomRequest, MT_JoinRoomRequest, MT_LeaveRoomRequest, MT_SetReadyRequest,
      MT_StartMatchRequest, MT_RoomSnapshot, MT_MatchTicket, MT_ErrorResponse,
      MT_WorkerRegister, MT_WorkerRegistered, MT_ReserveMatch, MT_ReserveMatchReady,
      MT_ReserveMatchRejected, MT_CancelMatchReservation, MT_MatchReservationCancelled,
      MT_MatchFinished, MT_GameClientHello, MT_GameServerWelcome, MT_GameServerError,
      MT_GameMatchResult]"

text \<open>
  \<^verbatim>\<open>IsKnownMessageType\<close> with the cast it guards: the enumerator of a known value,
  \<open>None\<close> for any other.
\<close>

definition IsKnownMessageType :: "u16 \<Rightarrow> message_type option" where
  "IsKnownMessageType v = enum_of message_type_value message_types v"

lemma inj_message_type_value: "inj message_type_value"
proof (rule injI)
  fix s t assume "message_type_value s = message_type_value t"
  then show "s = t" by (cases s; cases t; simp)
qed

interpretation mtype: wire_enum message_type_value IsKnownMessageType
proof -
  have "t \<in> set message_types" for t
    by (cases t) (simp_all add: message_types_def)
  then have "wire_enum message_type_value (enum_of message_type_value message_types)"
    by (intro wire_enum_enum_of inj_message_type_value)
  then show "wire_enum message_type_value IsKnownMessageType"
    by (simp add: IsKnownMessageType_def [abs_def])
qed

record encoded_message =
  em_type :: message_type
  em_payload :: "byte list"

section \<open>TCP frames\<close>

definition TcpMagic :: "byte list" where
  "TcpMagic = [0x44, 0x58, 0x41, 0x31]"

definition EncodeTcpFrame :: "encoded_message \<Rightarrow> byte list throws" where
  "EncodeTcpFrame m =
     (if IsKnownMessageType (message_type_value (em_type m)) = None then Inl Invalid_argument
      else if MaxTcpPayloadBytes < length (em_payload m)
              \<or> 2 ^ 32 - 1 < length (em_payload m) then Inl Length_error
      else
        let w = WriteBytes TcpMagic [];
            w = WriteU16 ProtocolVersion w;
            w = WriteU16 (message_type_value (em_type m)) w;
            w = WriteU32 (of_nat (length (em_payload m))) w;
            w = WriteBytes (em_payload m) w
        in Inr w)"

record tcp_frame_header =
  th_version :: u16
  th_type :: message_type
  th_payloadBytes :: u32

datatype frame_header_error =
    InvalidHeaderSize | BadMagic | UnsupportedVersion | UnknownMessageType | FrameTooLarge

text \<open>
  \<^verbatim>\<open>FrameHeaderDecodeResult\<close> holds a header or an error. The loop over the magic
  bytes returns at the first that differs.
\<close>

definition magic_matches :: "byte list \<Rightarrow> bool" where
  "magic_matches bytes \<longleftrightarrow> list_all (\<lambda>index. bytes ! index = TcpMagic ! index) [0..<length TcpMagic]"

definition DecodeTcpFrameHeader :: "byte list \<Rightarrow> frame_header_error + tcp_frame_header" where
  "DecodeTcpFrameHeader bytes =
     (if length bytes \<noteq> TcpFrameHeaderBytes then Inl InvalidHeaderSize
      else if \<not> magic_matches bytes then Inl BadMagic
      else
        let r = ByteReader (drop (length TcpMagic) bytes);
            (version, r) = ReadU16 r;
            (mtype, r) = ReadU16 r;
            (payloadBytes, r) = ReadU32 r
        in case (version, mtype, payloadBytes) of
             (Some v, Some t, Some n) \<Rightarrow>
               if v \<noteq> ProtocolVersion then Inl UnsupportedVersion
               else (case IsKnownMessageType t of
                       None \<Rightarrow> Inl UnknownMessageType
                     | Some mt \<Rightarrow>
                         if MaxTcpPayloadBytes < unat n then Inl FrameTooLarge
                         else Inr \<lparr>th_version = v, th_type = mt, th_payloadBytes = n\<rparr>)
           | _ \<Rightarrow> Inl InvalidHeaderSize)"

definition frame_header :: "message_type \<Rightarrow> u32 \<Rightarrow> byte list" where
  "frame_header t n =
     TcpMagic @ le_bytes 2 ProtocolVersion @ le_bytes 2 (message_type_value t) @ le_bytes 4 n"

lemma length_TcpMagic [simp]: "length TcpMagic = 4"
  by (simp add: TcpMagic_def)

lemma length_frame_header [simp]: "length (frame_header t n) = 12"
  by (simp add: frame_header_def)

lemma magic_matches_take: "4 \<le> length bytes \<Longrightarrow> magic_matches bytes \<longleftrightarrow> take 4 bytes = TcpMagic"
proof -
  assume len: "4 \<le> length bytes"
  then obtain a b c d rest where "bytes = a # b # c # d # rest"
    by (auto simp: numeral_eq_Suc Suc_le_length_iff)
  then show ?thesis
    by (auto simp: magic_matches_def TcpMagic_def upt_rec nth_Cons')
qed

lemma EncodeTcpFrame_iff:
  "EncodeTcpFrame m = Inr bs \<longleftrightarrow>
     length (em_payload m) \<le> MaxTcpPayloadBytes \<and>
     bs = frame_header (em_type m) (of_nat (length (em_payload m))) @ em_payload m"
  by (auto simp: EncodeTcpFrame_def Let_def read_write mtype.of_to frame_header_def
      MaxTcpPayloadBytes_def MaxTcpFrameBytes_def TcpFrameHeaderBytes_def)

lemma EncodeTcpFrame_throws:
  "EncodeTcpFrame m = Inl e \<longleftrightarrow> MaxTcpPayloadBytes < length (em_payload m) \<and> e = Length_error"
  by (auto simp: EncodeTcpFrame_def Let_def mtype.of_to
      MaxTcpPayloadBytes_def MaxTcpFrameBytes_def TcpFrameHeaderBytes_def)

lemma DecodeTcpFrameHeader_frame_header:
  assumes "unat n \<le> MaxTcpPayloadBytes"
  shows "DecodeTcpFrameHeader (frame_header t n)
      = Inr \<lparr>th_version = ProtocolVersion, th_type = t, th_payloadBytes = n\<rparr>"
proof -
  have "magic_matches (frame_header t n)"
    by (simp add: magic_matches_take) (simp add: frame_header_def)
  moreover have "drop 4 (frame_header t n)
      = le_bytes 2 ProtocolVersion @ le_bytes 2 (message_type_value t) @ le_bytes 4 n"
    by (simp add: frame_header_def)
  ultimately show ?thesis
    using assms
    by (simp add: DecodeTcpFrameHeader_def TcpFrameHeaderBytes_def ByteReader_reader_at read_write
        mtype.of_to)
qed

lemma DecodeTcpFrameHeader_InrD:
  assumes "DecodeTcpFrameHeader bytes = Inr h"
  shows "th_version h = ProtocolVersion \<and> unat (th_payloadBytes h) \<le> MaxTcpPayloadBytes
    \<and> bytes = frame_header (th_type h) (th_payloadBytes h)"
proof -
  from assms have len: "length bytes = 12" and magic: "take 4 bytes = TcpMagic"
    by (auto simp: DecodeTcpFrameHeader_def TcpFrameHeaderBytes_def magic_matches_take
        split: if_splits)
  from assms len obtain v t n r1 r2 r3 where
      v: "ReadU16 (reader_at [] (drop 4 bytes)) = (Some v, r1)"
    and t: "ReadU16 r1 = (Some t, r2)" and n: "ReadU32 r2 = (Some n, r3)"
    and vv: "v = ProtocolVersion" and tt: "t = message_type_value (th_type h)"
    and nn: "unat n \<le> MaxTcpPayloadBytes" and h: "th_version h = v" "th_payloadBytes h = n"
    by (auto simp: DecodeTcpFrameHeader_def ByteReader_reader_at
        split: prod.splits option.splits if_splits dest: mtype.of_wire_SomeD)
  from v obtain s1 where s1: "drop 4 bytes = le_bytes 2 v @ s1" "r1 = reader_at (le_bytes 2 v) s1"
    by (auto elim: u16.read_SomeE)
  with t obtain s2 where s2: "s1 = le_bytes 2 t @ s2" "r2 = reader_at (le_bytes 2 v @ le_bytes 2 t) s2"
    by (auto elim: u16.read_SomeE)
  with n obtain s3 where s3: "s2 = le_bytes 4 n @ s3"
    by (auto elim: u32.read_SomeE)
  have "length (drop 4 bytes) = 8" using len by simp
  with s1 s2 s3 have "s3 = []" by simp
  with s1 s2 s3 have "drop 4 bytes = le_bytes 2 v @ le_bytes 2 t @ le_bytes 4 n" by simp
  with magic have "bytes = TcpMagic @ le_bytes 2 v @ le_bytes 2 t @ le_bytes 4 n"
    by (metis append_take_drop_id)
  with vv tt nn h show ?thesis by (simp add: frame_header_def)
qed

section \<open>CRC-32\<close>

definition crc_polynomial :: u32 where "crc_polynomial = 0xEDB88320"

definition crc_bit :: "u32 \<Rightarrow> u32" where
  "crc_bit crc = (let mask = 0 - (crc AND 1) in (drop_bit 1 crc) XOR (crc_polynomial AND mask))"

definition crc_byte :: "byte \<Rightarrow> u32 \<Rightarrow> u32" where
  "crc_byte b crc = (crc_bit ^^ 8) (crc XOR ucast b)"

definition Crc32 :: "byte list \<Rightarrow> u32" where
  "Crc32 bytes = fold crc_byte bytes 0xFFFFFFFF XOR 0xFFFFFFFF"

lemma crc_bit_cases:
  "crc_bit c = (if bit c 0 then drop_bit 1 c XOR crc_polynomial else drop_bit 1 c)"
proof -
  have "c AND 1 = of_bool (odd c)"
    by (simp add: and_one_eq mod_2_eq_odd)
  moreover have "crc_polynomial AND (- 1) = crc_polynomial" by simp
  ultimately show ?thesis by (simp add: crc_bit_def bit_0)
qed

lemma xor_right_cancel: "a XOR c = b XOR c \<longleftrightarrow> a = (b :: 'a::len word)"
  by (metis xor.assoc xor.right_neutral xor_self_eq)

lemma xor_left_cancel: "c XOR a = c XOR b \<longleftrightarrow> a = (b :: 'a::len word)"
  by (metis xor_right_cancel xor.commute)

text \<open>The top bit of the result tells which branch was taken, so no two states meet.\<close>

lemma bit_31_crc_bit: "bit (crc_bit c) 31 \<longleftrightarrow> bit c 0"
proof -
  have top: "\<not> bit (drop_bit 1 c) 31"
    by (auto simp: bit_drop_bit_eq dest: bit_imp_le_length)
  moreover have "bit crc_polynomial 31" by (simp add: crc_polynomial_def)
  ultimately show ?thesis by (simp add: crc_bit_cases bit_xor_iff)
qed

lemma inj_crc_bit: "inj crc_bit"
proof (rule injI)
  fix c d assume eq: "crc_bit c = crc_bit d"
  then have low: "bit c 0 \<longleftrightarrow> bit d 0" by (metis bit_31_crc_bit)
  with eq have high: "drop_bit 1 c = drop_bit 1 d"
    by (cases "bit c 0") (simp_all only: crc_bit_cases xor_right_cancel if_True if_False)
  show "c = d"
  proof (rule bit_word_eqI)
    fix i assume "i < LENGTH(32)"
    show "bit c i \<longleftrightarrow> bit d i"
    proof (cases i)
      case 0
      with low show ?thesis by simp
    next
      case (Suc j)
      then show ?thesis using high by (metis bit_drop_bit_eq comp_apply plus_1_eq_Suc)
    qed
  qed
qed

lemma crc_bits_cancel: "(crc_bit ^^ n) x = (crc_bit ^^ n) y \<Longrightarrow> x = y"
  by (rule injD [OF inj_fn [OF inj_crc_bit]])

lemma inj_crc_byte: "inj (crc_byte b)"
  unfolding crc_byte_def
  by (rule injI, drule crc_bits_cancel, simp only: xor_right_cancel)

lemma crc_byte_inj_byte:
  assumes "crc_byte a c = crc_byte b c"
  shows "a = b"
proof -
  from assms have "c XOR ucast a = c XOR ucast b"
    unfolding crc_byte_def by (rule crc_bits_cancel)
  then have "(ucast a :: u32) = ucast b" by (simp only: xor_left_cancel)
  then have "(ucast (ucast a :: u32) :: byte) = ucast (ucast b :: u32)" by simp
  then show ?thesis by (simp add: ucast_up_ucast_id is_up)
qed

lemma fold_crc_byte_inj: "fold crc_byte bs c = fold crc_byte bs d \<Longrightarrow> c = d"
  by (induction bs arbitrary: c d) (auto dest: injD [OF inj_crc_byte])

lemma Crc32_single_byte:
  assumes "Crc32 (xs @ a # ys) = Crc32 (xs @ b # ys)"
  shows "a = b"
proof -
  from assms have "fold crc_byte ys (crc_byte a (fold crc_byte xs 0xFFFFFFFF))
      = fold crc_byte ys (crc_byte b (fold crc_byte xs 0xFFFFFFFF))"
    unfolding Crc32_def by (simp only: xor_right_cancel fold_append fold_Cons comp_apply)
  then show ?thesis by (blast dest: fold_crc_byte_inj crc_byte_inj_byte)
qed

end
