(* ===== verification/Messages.thy ===== *)
theory Messages
  imports Framing
begin

text \<open>
  The message types of protocol/include/dxa/protocol: LobbyTypes.hpp, GameTypes.hpp,
  LobbyMessages.hpp and WorkerControlMessages.hpp. A \<^verbatim>\<open>std::variant\<close> of structs is a
  datatype with one constructor per alternative; a struct with many fields is a record.
\<close>

section \<open>Constants and enumerations\<close>

definition RoomCapacity :: nat where "RoomCapacity = 24"
definition MaximumRooms :: nat where "MaximumRooms = 1024"
definition MatchTicketBytes :: nat where "MatchTicketBytes = 16"
definition MatchTicketLifetimeSeconds :: nat where "MatchTicketLifetimeSeconds = 60"

lemmas lobby_constants =
  RoomCapacity_def MaximumRooms_def MatchTicketBytes_def MatchTicketLifetimeSeconds_def

text \<open>\<^verbatim>\<open>Opaque128<Tag>\<close>: sixteen bytes, compared lexicographically.\<close>

datatype match_ticket_tag = Match_ticket_tag
datatype udp_token_tag = Udp_token_tag

type_synonym match_ticket_value = "(match_ticket_tag, byte list) ident"
type_synonym udp_session_token = "(udp_token_tag, byte list) ident"

definition opaque_wf :: "('tag, byte list) ident \<Rightarrow> bool" where
  "opaque_wf t \<longleftrightarrow> length (idval t) = MatchTicketBytes"

datatype room_state = Waiting | Starting | InMatch

fun room_state_value :: "room_state \<Rightarrow> u8" where
  "room_state_value Waiting = 1"
| "room_state_value Starting = 2"
| "room_state_value InMatch = 3"

text \<open>The cast to \<^verbatim>\<open>RoomState\<close> with \<^verbatim>\<open>IsValidRoomState\<close>.\<close>

definition room_state_of :: "u8 \<Rightarrow> room_state option" where
  "room_state_of = enum_of room_state_value
     [Waiting, Starting, InMatch]"

interpretation room_state: wire_enum room_state_value room_state_of
  unfolding room_state_of_def
proof (rule wire_enum_enum_of)
  show "inj room_state_value"
  proof (rule injI)
    fix s t assume "room_state_value s = room_state_value t"
    then show "s = t" by (cases s; cases t; simp)
  qed
  show "e \<in> set [Waiting, Starting, InMatch]" for e
    by (cases e) simp_all
qed

datatype lobby_error =
    MalformedPayload | UnsupportedVersionError | UnknownMessageTypeError | FrameTooLargeError
  | RequestOutOfOrder | NotWelcomed | AlreadyWelcomed | AlreadyInRoom | NotInRoom
  | RoomNotFound | RoomNotJoinable | RoomFull | RoomLimitReached | NotHost
  | MinimumPlayersRequired | NotAllReady | WorkerUnavailable | IdSpaceExhausted
  | InternalError | MatchUnavailable

fun lobby_error_value :: "lobby_error \<Rightarrow> u16" where
  "lobby_error_value MalformedPayload = 1"
| "lobby_error_value UnsupportedVersionError = 2"
| "lobby_error_value UnknownMessageTypeError = 3"
| "lobby_error_value FrameTooLargeError = 4"
| "lobby_error_value RequestOutOfOrder = 5"
| "lobby_error_value NotWelcomed = 6"
| "lobby_error_value AlreadyWelcomed = 7"
| "lobby_error_value AlreadyInRoom = 8"
| "lobby_error_value NotInRoom = 9"
| "lobby_error_value RoomNotFound = 10"
| "lobby_error_value RoomNotJoinable = 11"
| "lobby_error_value RoomFull = 12"
| "lobby_error_value RoomLimitReached = 13"
| "lobby_error_value NotHost = 14"
| "lobby_error_value MinimumPlayersRequired = 15"
| "lobby_error_value NotAllReady = 16"
| "lobby_error_value WorkerUnavailable = 17"
| "lobby_error_value IdSpaceExhausted = 18"
| "lobby_error_value InternalError = 19"
| "lobby_error_value MatchUnavailable = 20"

text \<open>The cast to \<^verbatim>\<open>LobbyError\<close> with \<^verbatim>\<open>IsValidLobbyError\<close>, which accepts 1 to 20.\<close>

definition lobby_error_of :: "u16 \<Rightarrow> lobby_error option" where
  "lobby_error_of = enum_of lobby_error_value
     [MalformedPayload, UnsupportedVersionError, UnknownMessageTypeError, FrameTooLargeError, RequestOutOfOrder, NotWelcomed, AlreadyWelcomed, AlreadyInRoom, NotInRoom, RoomNotFound, RoomNotJoinable, RoomFull, RoomLimitReached, NotHost, MinimumPlayersRequired, NotAllReady, WorkerUnavailable, IdSpaceExhausted, InternalError, MatchUnavailable]"

interpretation lobby_error: wire_enum lobby_error_value lobby_error_of
  unfolding lobby_error_of_def
proof (rule wire_enum_enum_of)
  show "inj lobby_error_value"
  proof (rule injI)
    fix s t assume "lobby_error_value s = lobby_error_value t"
    then show "s = t" by (cases s; cases t; simp)
  qed
  show "e \<in> set [MalformedPayload, UnsupportedVersionError, UnknownMessageTypeError, FrameTooLargeError, RequestOutOfOrder, NotWelcomed, AlreadyWelcomed, AlreadyInRoom, NotInRoom, RoomNotFound, RoomNotJoinable, RoomFull, RoomLimitReached, NotHost, MinimumPlayersRequired, NotAllReady, WorkerUnavailable, IdSpaceExhausted, InternalError, MatchUnavailable]" for e
    by (cases e) simp_all
qed

datatype worker_reservation_reject =
  Busy | InvalidReservation | SimulationInitializationFailed | RejectInternalError

fun worker_reject_value :: "worker_reservation_reject \<Rightarrow> u8" where
  "worker_reject_value Busy = 1"
| "worker_reject_value InvalidReservation = 2"
| "worker_reject_value SimulationInitializationFailed = 3"
| "worker_reject_value RejectInternalError = 4"

text \<open>The cast to \<^verbatim>\<open>WorkerReservationReject\<close> with \<^verbatim>\<open>IsValidRejectReason\<close>.\<close>

definition worker_reject_of :: "u8 \<Rightarrow> worker_reservation_reject option" where
  "worker_reject_of = enum_of worker_reject_value
     [Busy, InvalidReservation, SimulationInitializationFailed, RejectInternalError]"

interpretation worker_reject: wire_enum worker_reject_value worker_reject_of
  unfolding worker_reject_of_def
proof (rule wire_enum_enum_of)
  show "inj worker_reject_value"
  proof (rule injI)
    fix s t assume "worker_reject_value s = worker_reject_value t"
    then show "s = t" by (cases s; cases t; simp)
  qed
  show "e \<in> set [Busy, InvalidReservation, SimulationInitializationFailed, RejectInternalError]" for e
    by (cases e) simp_all
qed

datatype match_completion_reason =
  LastSurvivor | TimeLimit | NoAuthenticatedPlayers | NoConnectedPlayers

fun completion_reason_value :: "match_completion_reason \<Rightarrow> u8" where
  "completion_reason_value LastSurvivor = 1"
| "completion_reason_value TimeLimit = 2"
| "completion_reason_value NoAuthenticatedPlayers = 3"
| "completion_reason_value NoConnectedPlayers = 4"

text \<open>The cast to \<^verbatim>\<open>MatchCompletionReason\<close> with \<^verbatim>\<open>IsValidCompletionReason\<close>.\<close>

definition completion_reason_of :: "u8 \<Rightarrow> match_completion_reason option" where
  "completion_reason_of = enum_of completion_reason_value
     [LastSurvivor, TimeLimit, NoAuthenticatedPlayers, NoConnectedPlayers]"

interpretation completion_reason: wire_enum completion_reason_value completion_reason_of
  unfolding completion_reason_of_def
proof (rule wire_enum_enum_of)
  show "inj completion_reason_value"
  proof (rule injI)
    fix s t assume "completion_reason_value s = completion_reason_value t"
    then show "s = t" by (cases s; cases t; simp)
  qed
  show "e \<in> set [LastSurvivor, TimeLimit, NoAuthenticatedPlayers, NoConnectedPlayers]" for e
    by (cases e) simp_all
qed

record game_endpoint =
  ep_host :: string
  ep_tcpPort :: u16
  ep_udpPort :: u16

section \<open>Lobby messages\<close>

datatype client_message =
    ClientHello u32
  | ListRoomsRequest u32
  | CreateRoomRequest u32
  | JoinRoomRequest u32 room_id
  | LeaveRoomRequest u32
  | SetReadyRequest u32 bool
  | StartMatchRequest u32

record room_summary =
  rs_room :: room_id
  rs_players :: u8
  rs_capacity :: u8

record room_member_view =
  mv_player :: player_id
  mv_ready :: bool

record room_snapshot =
  sn_requestId :: u32
  sn_room :: room_id
  sn_state :: room_state
  sn_host :: player_id
  sn_members :: "room_member_view list"

record match_ticket =
  mt_requestId :: u32
  mt_match :: match_id
  mt_ticket :: match_ticket_value
  mt_host :: string
  mt_tcpPort :: u16
  mt_udpPort :: u16
  mt_expiresInSeconds :: u16

datatype server_message =
    ServerWelcome u32 player_id
  | RoomListResponse u32 "room_summary list"
  | RoomSnapshot room_snapshot
  | MatchTicket match_ticket
  | ErrorResponse u32 lobby_error

text \<open>\<^verbatim>\<open>RequestId\<close> of LobbyMessageCodec.cpp, for both variants.\<close>

fun client_RequestId :: "client_message \<Rightarrow> u32" where
  "client_RequestId (ClientHello q) = q"
| "client_RequestId (ListRoomsRequest q) = q"
| "client_RequestId (CreateRoomRequest q) = q"
| "client_RequestId (JoinRoomRequest q r) = q"
| "client_RequestId (LeaveRoomRequest q) = q"
| "client_RequestId (SetReadyRequest q b) = q"
| "client_RequestId (StartMatchRequest q) = q"

fun server_RequestId :: "server_message \<Rightarrow> u32" where
  "server_RequestId (ServerWelcome q p) = q"
| "server_RequestId (RoomListResponse q rs) = q"
| "server_RequestId (RoomSnapshot s) = sn_requestId s"
| "server_RequestId (MatchTicket t) = mt_requestId t"
| "server_RequestId (ErrorResponse q e) = q"

section \<open>Worker control messages\<close>

record reserved_participant =
  rp_player :: player_id
  rp_ticket :: match_ticket_value

record worker_register =
  wr_worker :: worker_id
  wr_advertisedHost :: string
  wr_gameTcpPort :: u16
  wr_gameUdpPort :: u16
  wr_capacity :: u8

record reserve_match =
  rm_reservation :: reservation_id
  rm_match :: match_id
  rm_seed :: u32
  rm_ticketLifetimeMilliseconds :: u32
  rm_participants :: "reserved_participant list"

record match_finished =
  mf_match :: match_id
  mf_winner :: entity_id
  mf_hasWinner :: bool
  mf_reason :: match_completion_reason
  mf_finishedTick :: u32

datatype worker_to_lobby_message =
    WorkerRegister worker_register
  | ReserveMatchReady reservation_id match_id
  | ReserveMatchRejected reservation_id match_id worker_reservation_reject
  | MatchReservationCancelled reservation_id match_id
  | MatchFinished match_finished

datatype lobby_to_worker_message =
    WorkerRegistered worker_id
  | ReserveMatch reserve_match
  | CancelMatchReservation reservation_id match_id

section \<open>Checks that several translation units repeat\<close>

text \<open>
  A host name of 1 to 255 visible ASCII characters: \<^verbatim>\<open>IsValidHost\<close> of
  LobbyMessageCodec.cpp, \<^verbatim>\<open>IsVisibleAsciiHost\<close> of WorkerControlMessageCodec.cpp and
  WorkerRegistry.cpp, and the host part of \<^verbatim>\<open>IsValidEndpoint\<close> of LobbyService.cpp.
\<close>

definition IsVisibleAsciiHost :: "string \<Rightarrow> bool" where
  "IsVisibleAsciiHost host \<longleftrightarrow>
     \<not> (host = [] \<or> 255 < length host) \<and>
     list_all (\<lambda>c. 0x21 \<le> byte_of_char c \<and> byte_of_char c \<le> 0x7E) host"

definition CompletionNeedsWinner :: "match_completion_reason \<Rightarrow> bool" where
  "CompletionNeedsWinner reason \<longleftrightarrow> reason = LastSurvivor \<or> reason = TimeLimit"

text \<open>\<^verbatim>\<open>EncodePayload\<close> of WorkerControlMessageCodec.cpp and GameTcpMessageCodec.cpp.\<close>

definition EncodePayload :: "message_type \<Rightarrow> (byte_writer \<Rightarrow> byte_writer) \<Rightarrow> encoded_message" where
  "EncodePayload t write = \<lparr>em_type = t, em_payload = write []\<rparr>"

lemma IsVisibleAsciiHost_length: "IsVisibleAsciiHost host \<Longrightarrow> length host \<le> 255"
  by (simp add: IsVisibleAsciiHost_def)

end
