(* ===== verification/LobbyRuntime.thy ===== *)
theory LobbyRuntime
  imports Messages
begin

text \<open>
  The types through which the lobby and its worker registry talk:
  apps/lobby_server/include/dxa/lobby/LobbyRuntimeTypes.hpp and ConnectionId.hpp.
\<close>

datatype connection_tag = Connection_tag
datatype worker_connection_tag = Worker_connection_tag

type_synonym connection_id = "(connection_tag, u64) ident"
type_synonym worker_connection_id = "(worker_connection_tag, u64) ident"

abbreviation ConnectionId :: "u64 \<Rightarrow> connection_id" where "ConnectionId \<equiv> Ident"
abbreviation WorkerConnectionId :: "u64 \<Rightarrow> worker_connection_id" where "WorkerConnectionId \<equiv> Ident"

record reserve_match_action =
  ra_reservation :: reservation_id
  ra_room :: room_id
  ra_match :: match_id
  ra_requester :: player_id
  ra_requestId :: u32
  ra_seed :: u32
  ra_issuedAt :: time_point
  ra_participants :: "reserved_participant list"

datatype runtime_action =
    ReserveMatchAction reserve_match_action
  | CancelReservationAction reservation_id match_id

datatype worker_event =
    ReservationReadyEvent reservation_id match_id worker_id game_endpoint
  | ReservationFailedEvent reservation_id match_id
  | MatchFinishedEvent worker_id match_id
  | MatchUnavailableEvent worker_id match_id

end
