(* ===== verification/Room.thy ===== *)
theory Room
  imports Messages "HOL-Library.Product_Lexorder"
begin

text \<open>
  apps/lobby_server/src/Room.cpp: one lobby room, its members in player order, its host and
  its state. The lemmas give the room's invariant and every operation's effect: who can
  join, who becomes host when the host leaves, and when a match may start.
\<close>

record room_member =
  rmm_player :: player_id
  rmm_ready :: bool
  rmm_joinOrdinal :: u64

record room =
  r_id :: room_id
  r_state :: room_state
  r_host :: player_id
  r_members :: "(player_id, room_member) omap"

section \<open>Operations\<close>

definition Room_Create :: "room_id \<Rightarrow> player_id \<Rightarrow> u64 \<Rightarrow> room" where
  "Room_Create room host joinOrdinal =
     \<lparr>r_id = room, r_state = Waiting, r_host = host,
      r_members = om_emplace host
        \<lparr>rmm_player = host, rmm_ready = False, rmm_joinOrdinal = joinOrdinal\<rparr> []\<rparr>"

definition Room_Contains :: "room \<Rightarrow> player_id \<Rightarrow> bool" where
  "Room_Contains r player \<longleftrightarrow> om_contains (r_members r) player"

definition Room_Empty :: "room \<Rightarrow> bool" where
  "Room_Empty r \<longleftrightarrow> r_members r = []"

definition Room_Join :: "player_id \<Rightarrow> u64 \<Rightarrow> room \<Rightarrow> lobby_error option \<times> room" where
  "Room_Join player joinOrdinal r =
     (if r_state r \<noteq> Waiting then (Some RoomNotJoinable, r)
      else if Room_Contains r player then (Some AlreadyInRoom, r)
      else if RoomCapacity \<le> length (r_members r) then (Some RoomFull, r)
      else (None, r\<lparr>r_members := om_emplace player
              \<lparr>rmm_player = player, rmm_ready = False, rmm_joinOrdinal = joinOrdinal\<rparr>
              (r_members r)\<rparr>))"

text \<open>The comparison that picks the next host: who joined first, then the smaller player id.\<close>

definition successor_less ::
    "player_id \<times> room_member \<Rightarrow> player_id \<times> room_member \<Rightarrow> bool" where
  "successor_less left right \<longleftrightarrow>
     (if rmm_joinOrdinal (snd left) \<noteq> rmm_joinOrdinal (snd right)
      then rmm_joinOrdinal (snd left) < rmm_joinOrdinal (snd right)
      else fst left < fst right)"

definition Room_Leave :: "player_id \<Rightarrow> room \<Rightarrow> lobby_error option \<times> room" where
  "Room_Leave player r =
     (if r_state r \<noteq> Waiting then (Some RoomNotJoinable, r)
      else if \<not> om_contains (r_members r) player then (Some NotInRoom, r)
      else
        let leavingHost = (player = r_host r);
            r = r\<lparr>r_members := om_erase player (r_members r)\<rparr>
        in if leavingHost \<and> r_members r \<noteq> []
           then (case min_element successor_less (r_members r) of
                   None \<Rightarrow> (None, r)
                 | Some successor \<Rightarrow> (None, r\<lparr>r_host := fst successor\<rparr>))
           else (None, r))"

definition Room_SetReady :: "player_id \<Rightarrow> bool \<Rightarrow> room \<Rightarrow> lobby_error option \<times> room" where
  "Room_SetReady player ready r =
     (if r_state r \<noteq> Waiting then (Some RoomNotJoinable, r)
      else case map_of (r_members r) player of
             None \<Rightarrow> (Some NotInRoom, r)
           | Some member \<Rightarrow>
               (None, r\<lparr>r_members := om_set player (member\<lparr>rmm_ready := ready\<rparr>) (r_members r)\<rparr>))"

definition Room_ValidateStart :: "player_id \<Rightarrow> room \<Rightarrow> lobby_error option" where
  "Room_ValidateStart requester r =
     (if r_state r \<noteq> Waiting then Some RoomNotJoinable
      else if r_members r = [] \<or> requester \<noteq> r_host r then Some NotHost
      else if length (r_members r) < 2 then Some MinimumPlayersRequired
      else if list_all (\<lambda>member. rmm_ready (snd member)) (r_members r) then None
      else Some NotAllReady)"

definition Room_BeginStarting :: "room \<Rightarrow> room throws" where
  "Room_BeginStarting r =
     (if Room_ValidateStart (r_host r) r \<noteq> None then Inl Logic_error
      else Inr (r\<lparr>r_state := Starting\<rparr>))"

definition Room_ReturnToWaiting :: "room \<Rightarrow> room throws" where
  "Room_ReturnToWaiting r =
     (if r_state r \<noteq> Starting then Inl Logic_error else Inr (r\<lparr>r_state := Waiting\<rparr>))"

definition Room_MarkInMatch :: "room \<Rightarrow> room throws" where
  "Room_MarkInMatch r =
     (if r_state r \<noteq> Starting then Inl Logic_error else Inr (r\<lparr>r_state := InMatch\<rparr>))"

definition Room_Host :: "room \<Rightarrow> player_id throws" where
  "Room_Host r = (if r_members r = [] then Inl Logic_error else Inr (r_host r))"

definition Room_Players :: "room \<Rightarrow> player_id list" where
  "Room_Players r = map fst (r_members r)"

definition Room_Snapshot :: "u32 \<Rightarrow> room \<Rightarrow> room_snapshot throws" where
  "Room_Snapshot requestId r =
     (if r_members r = [] then Inl Logic_error
      else Inr \<lparr>sn_requestId = requestId, sn_room = r_id r, sn_state = r_state r,
                sn_host = r_host r,
                sn_members = map (\<lambda>(player, member). \<lparr>mv_player = player, mv_ready = rmm_ready member\<rparr>)
                  (r_members r)\<rparr>)"

section \<open>Invariant\<close>

text \<open>
  A room that is still listed: its members are a map of at most 24 entries, each under its
  own player's key, and its host is one of them.
\<close>

definition room_wf :: "room \<Rightarrow> bool" where
  "room_wf r \<longleftrightarrow>
     om_wf (r_members r) \<and> length (r_members r) \<le> RoomCapacity
     \<and> r_host r \<in> fst ` set (r_members r)
     \<and> (\<forall>(p, m) \<in> set (r_members r). rmm_player m = p)"

definition room_players :: "room \<Rightarrow> player_id set" where
  "room_players r = fst ` set (r_members r)"

lemma Room_Contains_iff: "Room_Contains r p \<longleftrightarrow> p \<in> room_players r"
  by (simp add: Room_Contains_def om_contains_iff room_players_def dom_om)

lemma set_Room_Players [simp]: "set (Room_Players r) = room_players r"
  by (simp add: Room_Players_def room_players_def)

lemma distinct_Room_Players: "room_wf r \<Longrightarrow> distinct (Room_Players r)"
  by (simp add: room_wf_def Room_Players_def om_wf_distinct)

lemma sorted_Room_Players: "room_wf r \<Longrightarrow> sorted (Room_Players r)"
  by (simp add: room_wf_def Room_Players_def om_wf_sorted)

lemma length_Room_Players [simp]: "length (Room_Players r) = length (r_members r)"
  by (simp add: Room_Players_def)

lemma room_wf_nonempty: "room_wf r \<Longrightarrow> r_members r \<noteq> []"
  by (auto simp: room_wf_def)

lemma room_wf_host: "room_wf r \<Longrightarrow> r_host r \<in> room_players r"
  by (simp add: room_wf_def room_players_def)

lemma room_wf_size: "room_wf r \<Longrightarrow> length (r_members r) \<le> RoomCapacity"
  by (simp add: room_wf_def)

lemma Room_Host_wf: "room_wf r \<Longrightarrow> Room_Host r = Inr (r_host r)"
  by (simp add: Room_Host_def room_wf_nonempty)

lemma Room_Snapshot_wf:
  "room_wf r \<Longrightarrow> \<exists>s. Room_Snapshot q r = Inr s \<and> sn_state s = r_state r \<and> sn_requestId s = q
     \<and> length (sn_members s) = length (r_members r)"
  by (simp add: Room_Snapshot_def room_wf_nonempty)

lemma room_wf_state [simp]: "room_wf (r\<lparr>r_state := s\<rparr>) = room_wf r"
  by (simp add: room_wf_def)

lemma room_players_state [simp]: "room_players (r\<lparr>r_state := s\<rparr>) = room_players r"
  by (simp add: room_players_def)

lemma Room_Create_wf [simp]: "room_wf (Room_Create room host q)"
  by (simp add: room_wf_def Room_Create_def om_emplace_def om_contains_def RoomCapacity_def)

lemma Room_Create_fields [simp]:
  "r_id (Room_Create room host q) = room"
  "r_state (Room_Create room host q) = Waiting"
  "r_host (Room_Create room host q) = host"
  "room_players (Room_Create room host q) = {host}"
  by (simp_all add: Room_Create_def om_emplace_def om_contains_def room_players_def)

lemma set_om_set_subset: "set (om_set k v m) \<subseteq> insert (k, v) (set m)"
  by (induction k v m rule: om_set.induct) auto

section \<open>What each operation does\<close>

lemma Room_Join_None_iff:
  "fst (Room_Join p q r) = None \<longleftrightarrow>
     r_state r = Waiting \<and> p \<notin> room_players r \<and> length (r_members r) < RoomCapacity"
  by (auto simp: Room_Join_def Room_Contains_iff)

lemma Room_Join_error: "Room_Join p q r = (Some e, r') \<Longrightarrow> r' = r"
  by (auto simp: Room_Join_def split: if_splits)

lemma Room_Join_ok:
  assumes "Room_Join p q r = (None, r')" and "room_wf r"
  shows "room_wf r' \<and> room_players r' = insert p (room_players r) \<and> p \<notin> room_players r
    \<and> r_host r' = r_host r \<and> r_id r' = r_id r \<and> r_state r' = Waiting"
proof -
  let ?m = "\<lparr>rmm_player = p, rmm_ready = False, rmm_joinOrdinal = q\<rparr>"
  from assms(1) have r': "r' = r\<lparr>r_members := om_set p ?m (r_members r)\<rparr>"
    and new: "\<not> om_contains (r_members r) p" and room: "length (r_members r) < RoomCapacity"
    and st: "r_state r = Waiting"
    by (auto simp: Room_Join_def Room_Contains_def om_emplace_new split: if_splits)
  have "\<forall>(p, m) \<in> set (om_set p ?m (r_members r)). rmm_player m = p"
    using assms(2) set_om_set_subset [of p ?m "r_members r"] by (auto simp: room_wf_def)
  moreover have "p \<notin> room_players r"
    using new by (simp add: room_players_def om_contains_iff dom_om)
  ultimately show ?thesis
    using assms(2) room new st by (simp add: r' room_wf_def room_players_def)
qed

lemma Room_SetReady_None_iff:
  "fst (Room_SetReady p b r) = None \<longleftrightarrow> r_state r = Waiting \<and> p \<in> room_players r"
  by (auto simp: Room_SetReady_def room_players_def dom_om [symmetric] split: option.split)

lemma Room_SetReady_error: "Room_SetReady p b r = (Some e, r') \<Longrightarrow> r' = r"
  by (auto simp: Room_SetReady_def split: if_splits option.splits)

lemma Room_SetReady_ok:
  assumes "Room_SetReady p b r = (None, r')" and "room_wf r"
  shows "room_wf r' \<and> room_players r' = room_players r \<and> r_host r' = r_host r
    \<and> r_id r' = r_id r \<and> r_state r' = Waiting
    \<and> (\<exists>m. map_of (r_members r') p = Some m \<and> rmm_ready m = b)"
proof -
  from assms(1) obtain m where m: "map_of (r_members r) p = Some m"
    and r': "r' = r\<lparr>r_members := om_set p (m\<lparr>rmm_ready := b\<rparr>) (r_members r)\<rparr>"
    and st: "r_state r = Waiting"
    by (auto simp: Room_SetReady_def split: if_splits option.splits)
  have pm: "(p, m) \<in> set (r_members r)" using m by (rule map_of_SomeD)
  have "\<forall>(q, x) \<in> set (om_set p (m\<lparr>rmm_ready := b\<rparr>) (r_members r)). rmm_player x = q"
    using assms(2) pm set_om_set_subset [of p "m\<lparr>rmm_ready := b\<rparr>" "r_members r"]
    by (fastforce simp: room_wf_def)
  moreover have "p \<in> fst ` set (r_members r)" using pm by force
  ultimately show ?thesis
    using assms(2) m st by (auto simp: r' room_wf_def room_players_def om_contains_def)
qed

lemma Room_Leave_None_iff:
  "fst (Room_Leave p r) = None \<longleftrightarrow> r_state r = Waiting \<and> p \<in> room_players r"
  by (auto simp: Room_Leave_def Let_def om_contains_iff dom_om room_players_def split: option.split)

lemma Room_Leave_error: "Room_Leave p r = (Some e, r') \<Longrightarrow> r' = r"
  by (auto simp: Room_Leave_def Let_def split: if_splits option.splits)

lemma Room_Leave_members:
  assumes "Room_Leave p r = (None, r')"
  shows "r_members r' = om_erase p (r_members r) \<and> r_id r' = r_id r \<and> r_state r' = Waiting"
  using assms by (auto simp: Room_Leave_def Let_def split: if_splits option.splits)

lemma room_players_erase: "r_members r' = om_erase p (r_members r) \<Longrightarrow> room_players r' = room_players r - {p}"
  by (auto simp: room_players_def om_erase_def)

lemma successor_less_key:
  "successor_less x y \<longleftrightarrow>
     (rmm_joinOrdinal (snd x), fst x) < (rmm_joinOrdinal (snd y), fst y)"
  by (auto simp: successor_less_def less_prod_def)

lemma Room_Leave_host:
  assumes "Room_Leave p r = (None, r')" and "room_wf r" and "r_members r' \<noteq> []"
  shows "r_host r' \<in> room_players r' \<and> (p \<noteq> r_host r \<longrightarrow> r_host r' = r_host r)"
proof (cases "p = r_host r")
  case True
  with assms obtain s where s: "min_element successor_less (r_members r') = Some s"
    and host: "r_host r' = fst s"
    by (auto simp: Room_Leave_def Let_def min_element_None_iff split: if_splits option.splits)
  from s have "s \<in> set (r_members r')" by (rule min_element_in)
  with host True show ?thesis by (simp add: room_players_def)
next
  case False
  with assms(1) have "r_host r' = r_host r"
    by (auto simp: Room_Leave_def Let_def split: if_splits)
  moreover have "room_players r' = room_players r - {p}"
    using Room_Leave_members [OF assms(1)] by (simp add: room_players_erase)
  ultimately show ?thesis using False room_wf_host [OF assms(2)] by simp
qed

lemma Room_Leave_ok:
  assumes "Room_Leave p r = (None, r')" and "room_wf r" and "r_members r' \<noteq> []"
  shows "room_wf r'"
proof -
  have mem: "r_members r' = om_erase p (r_members r)"
    using Room_Leave_members [OF assms(1)] by simp
  have "length (om_erase p (r_members r)) \<le> RoomCapacity"
    using length_om_erase_le [of p "r_members r"] room_wf_size [OF assms(2)] by linarith
  moreover have "\<forall>(q, m) \<in> set (om_erase p (r_members r)). rmm_player m = q"
    using assms(2) by (auto simp: room_wf_def om_erase_def)
  moreover have "r_host r' \<in> fst ` set (r_members r')"
    using Room_Leave_host [OF assms] by (simp add: room_players_def)
  ultimately show ?thesis using assms(2) mem by (simp add: room_wf_def)
qed

text \<open>The new host joined no later than any member that is left.\<close>

lemma Room_Leave_least:
  assumes "Room_Leave p r = (None, r')" and "p = r_host r"
    and "map_of (r_members r') h = Some mh" and "h = r_host r'" and "room_wf r"
    and "map_of (r_members r') q = Some mq"
  shows "rmm_joinOrdinal mh < rmm_joinOrdinal mq \<or> rmm_joinOrdinal mh = rmm_joinOrdinal mq \<and> h \<le> q"
proof -
  from assms(6) have q: "(q, mq) \<in> set (r_members r')" by (rule map_of_SomeD)
  then have "r_members r' \<noteq> []" by auto
  with assms(1,2) obtain s where s: "min_element successor_less (r_members r') = Some s"
    and host: "r_host r' = fst s"
    by (auto simp: Room_Leave_def Let_def min_element_None_iff split: if_splits option.splits)
  have "om_wf (r_members r')"
    using Room_Leave_members [OF assms(1)] assms(5) by (simp add: room_wf_def)
  then have "snd s = mh"
    using min_element_in [OF s] assms(3,4) host
    by (metis om_wf_map_of_iff option.inject prod.collapse)
  moreover have "(rmm_joinOrdinal (snd s), fst s) \<le> (rmm_joinOrdinal mq, q)"
    using min_element_le [OF s successor_less_key q] by simp
  ultimately show ?thesis using host assms(4) by (auto simp: less_eq_prod_def)
qed

lemma Room_ValidateStart_None_iff:
  "Room_ValidateStart p r = None \<longleftrightarrow>
     r_state r = Waiting \<and> r_members r \<noteq> [] \<and> p = r_host r \<and> 2 \<le> length (r_members r)
     \<and> (\<forall>(q, m) \<in> set (r_members r). rmm_ready m)"
  by (auto simp: Room_ValidateStart_def list_all_iff)

lemma Room_BeginStarting_ok:
  "Room_ValidateStart p r = None \<Longrightarrow> Room_BeginStarting r = Inr (r\<lparr>r_state := Starting\<rparr>)"
  by (simp add: Room_BeginStarting_def Room_ValidateStart_None_iff)

end
