(* ===== verification/MatchTicketRegistry.thy ===== *)
theory MatchTicketRegistry
  imports Messages
begin

text \<open>
  apps/lobby_server/src/MatchTicketRegistry.cpp: the lobby's one-use tickets. The source of
  random bytes (\<^verbatim>\<open>ITicketSource\<close>, in production the operating system's generator)
  is a parameter of the state: the sequence of results its \<^verbatim>\<open>Fill\<close> will give, and how
  many were taken. The lemmas say what \<^verbatim>\<open>Issue\<close> adds, what \<^verbatim>\<open>Revoke\<close> removes, and
  that a ticket is accepted at most once and only for its match, player and lifetime.
\<close>

record ticket_record =
  tr_match :: match_id
  tr_player :: player_id
  tr_expiresAt :: time_point

record ticket_registry =
  tg_source :: "nat \<Rightarrow> match_ticket_value option"
  tg_fills :: nat
  tg_tickets :: "(match_ticket_value, ticket_record) omap"

definition MaximumTicketAttempts :: nat where
  "MaximumTicketAttempts = 8"

definition ticket_lifetime :: duration where
  "ticket_lifetime = int MatchTicketLifetimeSeconds * nanoseconds_per_second"

definition MatchTicketRegistry :: "(nat \<Rightarrow> match_ticket_value option) \<Rightarrow> ticket_registry" where
  "MatchTicketRegistry source = \<lparr>tg_source = source, tg_fills = 0, tg_tickets = []\<rparr>"

definition Fill :: "ticket_registry \<Rightarrow> match_ticket_value option \<times> ticket_registry" where
  "Fill reg = (tg_source reg (tg_fills reg), reg\<lparr>tg_fills := Suc (tg_fills reg)\<rparr>)"

definition registry_PurgeExpired :: "time_point \<Rightarrow> ticket_registry \<Rightarrow> ticket_registry" where
  "registry_PurgeExpired now reg =
     reg\<lparr>tg_tickets := filter (\<lambda>e. \<not> tr_expiresAt (snd e) \<le> now) (tg_tickets reg)\<rparr>"

fun issue_attempts ::
    "nat \<Rightarrow> match_id \<Rightarrow> player_id \<Rightarrow> time_point \<Rightarrow> ticket_registry
      \<Rightarrow> match_ticket_value option \<times> ticket_registry" where
  "issue_attempts 0 match player now reg = (None, reg)"
| "issue_attempts (Suc n) match player now reg =
     (case Fill reg of
        (None, reg) \<Rightarrow> (None, reg)
      | (Some ticket, reg) \<Rightarrow>
          let inserted = \<not> om_contains (tg_tickets reg) ticket;
              reg = reg\<lparr>tg_tickets := om_emplace ticket
                      \<lparr>tr_match = match, tr_player = player, tr_expiresAt = now + ticket_lifetime\<rparr>
                      (tg_tickets reg)\<rparr>
          in if inserted then (Some ticket, reg)
             else issue_attempts n match player now reg)"

definition registry_Issue ::
    "match_id \<Rightarrow> player_id \<Rightarrow> time_point \<Rightarrow> ticket_registry
      \<Rightarrow> match_ticket_value option \<times> ticket_registry" where
  "registry_Issue match player now reg =
     issue_attempts MaximumTicketAttempts match player now (registry_PurgeExpired now reg)"

datatype ticket_consume_result = TC_Accepted | TC_NotFound | TC_Expired | TC_Mismatch

definition registry_Consume ::
    "match_ticket_value \<Rightarrow> match_id \<Rightarrow> player_id \<Rightarrow> time_point \<Rightarrow> ticket_registry
      \<Rightarrow> ticket_consume_result \<times> ticket_registry" where
  "registry_Consume ticket match player now reg =
     (case map_of (tg_tickets reg) ticket of
        None \<Rightarrow> (TC_NotFound, reg)
      | Some found \<Rightarrow>
          if tr_expiresAt found \<le> now
          then (TC_Expired, reg\<lparr>tg_tickets := om_erase ticket (tg_tickets reg)\<rparr>)
          else if tr_match found \<noteq> match \<or> tr_player found \<noteq> player then (TC_Mismatch, reg)
          else (TC_Accepted, reg\<lparr>tg_tickets := om_erase ticket (tg_tickets reg)\<rparr>))"

definition registry_Revoke :: "match_ticket_value list \<Rightarrow> ticket_registry \<Rightarrow> ticket_registry" where
  "registry_Revoke tickets reg =
     reg\<lparr>tg_tickets := fold om_erase tickets (tg_tickets reg)\<rparr>"

section \<open>What each operation does\<close>

definition registry_wf :: "ticket_registry \<Rightarrow> bool" where
  "registry_wf reg \<longleftrightarrow> om_wf (tg_tickets reg)"

abbreviation live :: "ticket_registry \<Rightarrow> match_ticket_value \<Rightarrow> ticket_record option" where
  "live reg \<equiv> map_of (tg_tickets reg)"

lemma registry_wf_Purge [simp]: "registry_wf reg \<Longrightarrow> registry_wf (registry_PurgeExpired now reg)"
  by (simp add: registry_wf_def registry_PurgeExpired_def)

lemma live_Purge:
  "registry_wf reg \<Longrightarrow> live (registry_PurgeExpired now reg) t =
     (case live reg t of None \<Rightarrow> None | Some r \<Rightarrow> if now < tr_expiresAt r then Some r else None)"
  by (auto simp: registry_wf_def registry_PurgeExpired_def map_of_filter_wf split: option.split)

lemma registry_wf_Revoke [simp]: "registry_wf reg \<Longrightarrow> registry_wf (registry_Revoke ts reg)"
  by (simp add: registry_wf_def registry_Revoke_def om.wf_remove_all)

lemma live_Revoke: "live (registry_Revoke ts reg) t = (if t \<in> set ts then None else live reg t)"
  by (simp add: registry_Revoke_def om.lookup_remove_all)

lemma registry_wf_Consume [simp]:
  "registry_wf reg \<Longrightarrow> registry_wf (snd (registry_Consume t m p now reg))"
  by (auto simp: registry_wf_def registry_Consume_def split: option.split)

lemma registry_Consume_accepted_iff:
  "fst (registry_Consume t m p now reg) = TC_Accepted \<longleftrightarrow>
     (\<exists>r. live reg t = Some r \<and> now < tr_expiresAt r \<and> tr_match r = m \<and> tr_player r = p)"
  by (auto simp: registry_Consume_def split: option.split)

lemma live_Consume:
  "live (snd (registry_Consume t m p now reg)) =
     (if fst (registry_Consume t m p now reg) \<in> {TC_Accepted, TC_Expired}
      then (live reg)(t := None) else live reg)"
  by (auto simp: registry_Consume_def split: option.split)

lemma issue_attempts_Suc:
  "issue_attempts (Suc n) m p now reg =
     (let reg1 = reg\<lparr>tg_fills := Suc (tg_fills reg)\<rparr>
      in case tg_source reg (tg_fills reg) of
           None \<Rightarrow> (None, reg1)
         | Some t \<Rightarrow>
             if live reg t = None
             then (Some t, reg1\<lparr>tg_tickets := om_set t
                     \<lparr>tr_match = m, tr_player = p, tr_expiresAt = now + ticket_lifetime\<rparr>
                     (tg_tickets reg)\<rparr>)
             else issue_attempts n m p now reg1)"
  by (auto simp: Fill_def Let_def om_emplace_def om_contains_def split: option.split)

declare issue_attempts.simps(2) [simp del]

lemma issue_attempts_wf: "registry_wf reg \<Longrightarrow> registry_wf (snd (issue_attempts n m p now reg))"
  by (induction n arbitrary: reg)
     (auto simp: issue_attempts_Suc registry_wf_def Let_def split: option.split)

lemma issue_attempts_Some:
  "issue_attempts n m p now reg = (Some t, reg') \<Longrightarrow>
     live reg t = None
     \<and> live reg' = (live reg)(t \<mapsto> \<lparr>tr_match = m, tr_player = p, tr_expiresAt = now + ticket_lifetime\<rparr>)"
proof (induction n arbitrary: reg)
  case (Suc n)
  then show ?case
    using Suc.IH [of "reg\<lparr>tg_fills := Suc (tg_fills reg)\<rparr>"]
    by (auto simp: issue_attempts_Suc Let_def split: option.splits if_splits)
qed simp

lemma issue_attempts_None:
  "issue_attempts n m p now reg = (None, reg') \<Longrightarrow> tg_tickets reg' = tg_tickets reg"
proof (induction n arbitrary: reg)
  case (Suc n)
  then show ?case
    using Suc.IH [of "reg\<lparr>tg_fills := Suc (tg_fills reg)\<rparr>"]
    by (auto simp: issue_attempts_Suc Let_def split: option.splits if_splits)
qed simp

lemma issue_attempts_fills:
  "tg_fills (snd (issue_attempts n m p now reg)) \<le> tg_fills reg + n
   \<and> tg_source (snd (issue_attempts n m p now reg)) = tg_source reg"
proof (induction n arbitrary: reg)
  case (Suc n)
  then show ?case
    using Suc.IH [of "reg\<lparr>tg_fills := Suc (tg_fills reg)\<rparr>"]
    by (auto simp: issue_attempts_Suc Let_def split: option.split)
qed simp

lemma issue_attempts_fills_le: "tg_fills reg \<le> tg_fills (snd (issue_attempts n m p now reg))"
proof (induction n arbitrary: reg)
  case (Suc n)
  then show ?case
    using Suc.IH [of "reg\<lparr>tg_fills := Suc (tg_fills reg)\<rparr>"]
    by (auto simp: issue_attempts_Suc Let_def split: option.split)
qed simp

text \<open>A ticket comes from the source, as one of the fills that were made.\<close>

lemma issue_attempts_source:
  "issue_attempts n m p now reg = (Some t, reg') \<Longrightarrow>
     \<exists>i \<ge> tg_fills reg. i < tg_fills reg' \<and> tg_source reg i = Some t"
proof (induction n arbitrary: reg)
  case (Suc n)
  let ?reg = "reg\<lparr>tg_fills := Suc (tg_fills reg)\<rparr>"
  from Suc.prems consider
      (new) "tg_source reg (tg_fills reg) = Some t" "tg_fills reg' = Suc (tg_fills reg)"
    | (again) "issue_attempts n m p now ?reg = (Some t, reg')"
    by (auto simp: issue_attempts_Suc Let_def split: option.splits if_splits)
  then show ?case
  proof cases
    case new
    then show ?thesis by (intro exI [of _ "tg_fills reg"]) simp
  next
    case again
    from Suc.IH [OF this] obtain i where "Suc (tg_fills reg) \<le> i" "i < tg_fills reg'"
      "tg_source reg i = Some t" by auto
    then show ?thesis by (intro exI [of _ i]) simp
  qed
qed simp

lemma registry_Issue_wf [simp]: "registry_wf reg \<Longrightarrow> registry_wf (snd (registry_Issue m p now reg))"
  by (simp add: registry_Issue_def issue_attempts_wf)

lemma registry_Issue_Some:
  assumes "registry_Issue m p now reg = (Some t, reg')" and "registry_wf reg"
  shows "live reg' = (live (registry_PurgeExpired now reg))
      (t \<mapsto> \<lparr>tr_match = m, tr_player = p, tr_expiresAt = now + ticket_lifetime\<rparr>)
    \<and> live (registry_PurgeExpired now reg) t = None"
  using issue_attempts_Some assms(1) unfolding registry_Issue_def by blast

lemma registry_Issue_None:
  assumes "registry_Issue m p now reg = (None, reg')"
  shows "tg_tickets reg' = tg_tickets (registry_PurgeExpired now reg)"
  using issue_attempts_None assms unfolding registry_Issue_def by blast

lemma live_Issue_other:
  assumes "registry_Issue m p now reg = (res, reg')" and "registry_wf reg" and "res \<noteq> Some t"
  shows "live reg' t = live (registry_PurgeExpired now reg) t"
  using assms registry_Issue_Some [of m p now reg] registry_Issue_None [of m p now reg]
  by (cases res) auto

section \<open>Tickets are one-shot\<close>

text \<open>Every operation of the registry but \<^verbatim>\<open>Consume\<close>, and the ticket that it issues, with the match
  and the player it is for.\<close>

datatype registry_op =
    IssueOp match_id player_id time_point
  | RevokeOp "match_ticket_value list"
  | PurgeOp time_point

fun registry_other :: "registry_op \<Rightarrow> ticket_registry \<Rightarrow> ticket_registry" where
  "registry_other (IssueOp match player now) reg = snd (registry_Issue match player now reg)"
| "registry_other (RevokeOp ts) reg = registry_Revoke ts reg"
| "registry_other (PurgeOp now) reg = registry_PurgeExpired now reg"

type_synonym ticket_key = "match_ticket_value \<times> match_id \<times> player_id"

fun registry_issues :: "registry_op \<Rightarrow> ticket_registry \<Rightarrow> ticket_key option" where
  "registry_issues (IssueOp match player now) reg =
     map_option (\<lambda>t. (t, match, player)) (fst (registry_Issue match player now reg))"
| "registry_issues (RevokeOp ts) reg = None"
| "registry_issues (PurgeOp now) reg = None"

definition registry_accepts :: "ticket_key \<Rightarrow> time_point \<Rightarrow> ticket_registry \<Rightarrow> bool \<times> ticket_registry" where
  "registry_accepts k now reg =
     (let (result, reg') = registry_Consume (fst k) (fst (snd k)) (snd (snd k)) now reg
      in (result = TC_Accepted, reg'))"

text \<open>A key is live while its ticket is in the registry for its match and player.\<close>

definition key_spent :: "ticket_registry \<Rightarrow> ticket_key \<Rightarrow> bool" where
  "key_spent reg k \<longleftrightarrow>
     (\<forall>r. live reg (fst k) = Some r \<longrightarrow> (tr_match r, tr_player r) \<noteq> snd k)"

lemma MatchTicketRegistry_new [simp]: "registry_wf (MatchTicketRegistry source)" "key_spent (MatchTicketRegistry source) k"
  "tg_source (MatchTicketRegistry source) = source"
  by (simp_all add: MatchTicketRegistry_def registry_wf_def key_spent_def)

lemma key_spent_Issue:
  assumes "registry_wf reg" and "key_spent reg k" and "registry_issues (IssueOp m p now) reg \<noteq> Some k"
  shows "key_spent (snd (registry_Issue m p now reg)) k"
proof -
  obtain res reg' where issue: "registry_Issue m p now reg = (res, reg')" by (cases "registry_Issue m p now reg")
  show ?thesis
  proof (cases "res = Some (fst k)")
    case True
    then show ?thesis
      using registry_Issue_Some [of m p now reg "fst k"] issue assms by (cases k) (simp add: key_spent_def)
  next
    case False
    then show ?thesis
      using live_Issue_other [OF issue assms(1) False] assms(2)
      by (simp add: issue key_spent_def live_Purge [OF assms(1)] split: option.split)
  qed
qed

lemma registry_accepts_eq:
  "registry_accepts k now reg =
     (fst (registry_Consume (fst k) (fst (snd k)) (snd (snd k)) now reg) = TC_Accepted,
      snd (registry_Consume (fst k) (fst (snd k)) (snd (snd k)) now reg))"
  by (simp add: registry_accepts_def case_prod_beta)

lemma key_spent_Consume:
  "key_spent reg k \<Longrightarrow> key_spent (snd (registry_Consume t m p now reg)) k"
  by (simp add: key_spent_def live_Consume)

lemma key_spent_accepted:
  assumes "fst (registry_Consume (fst k) m p now reg) = TC_Accepted"
  shows "key_spent (snd (registry_Consume (fst k) m p now reg)) k"
  using assms by (simp add: key_spent_def live_Consume)

interpretation lobby_ledger: counted_ledger registry_accepts registry_other registry_issues key_spent registry_wf
proof
  fix s k q s' assume "registry_wf s" "registry_accepts k q s = (True, s')"
  then show "key_spent s' k" using key_spent_accepted [of k] by (auto simp: registry_accepts_eq simp del: split_paired_All)
next
  fix s k q assume "registry_wf s" "key_spent s k"
  then show "\<not> fst (registry_accepts k q s)"
    by (cases k) (auto simp: registry_accepts_eq registry_Consume_accepted_iff key_spent_def)
next
  fix s k k' q assume "registry_wf s" "key_spent s k"
  then show "key_spent (snd (registry_accepts k' q s)) k" by (simp add: registry_accepts_eq key_spent_Consume)
next
  fix s k x assume "registry_wf s" "key_spent s k" "registry_issues x s \<noteq> Some k"
  then show "key_spent (registry_other x s) k"
  proof (cases x)
    case (IssueOp m p now)
    then show ?thesis
      using key_spent_Issue [of s k m p now] \<open>registry_wf s\<close> \<open>key_spent s k\<close> \<open>registry_issues x s \<noteq> Some k\<close>
      by simp
  next
    case (RevokeOp ts)
    then show ?thesis using \<open>key_spent s k\<close> by (simp add: key_spent_def live_Revoke)
  next
    case (PurgeOp now)
    then show ?thesis
      using \<open>key_spent s k\<close> live_Purge [OF \<open>registry_wf s\<close>, of now "fst k"]
      by (auto simp: key_spent_def split: option.splits if_splits)
  qed
next
  fix s k q assume "registry_wf s"
  then show "registry_wf (snd (registry_accepts k q s))" by (simp add: registry_accepts_eq)
next
  fix s x assume "registry_wf s"
  then show "registry_wf (registry_other x s)" by (cases x) simp_all
qed

text \<open>Issued tickets are fills of the source, each taken later than the one before.\<close>

definition fill_indices :: "(nat \<Rightarrow> match_ticket_value option) \<Rightarrow> nat \<Rightarrow> match_ticket_value list \<Rightarrow> bool" where
  "fill_indices source start tickets \<longleftrightarrow>
     (\<exists>is. sorted_wrt (<) is \<and> (\<forall>i \<in> set is. start \<le> i) \<and> map source is = map Some tickets)"

lemma fill_indices_Cons:
  assumes "source i = Some t" and "start \<le> i" and "fill_indices source (Suc i) ts"
  shows "fill_indices source start (t # ts)"
proof -
  obtain js where "sorted_wrt (<) js" "\<forall>j \<in> set js. Suc i \<le> j" "map source js = map Some ts"
    using assms(3) by (auto simp: fill_indices_def)
  then show ?thesis
    using assms(1,2) unfolding fill_indices_def by (intro exI [of _ "i # js"]) auto
qed

lemma fill_indices_mono: "start \<le> start' \<Longrightarrow> fill_indices source start' ts \<Longrightarrow> fill_indices source start ts"
  unfolding fill_indices_def by (meson order.trans)

lemma fill_indices_distinct:
  assumes "fill_indices source start ts" and "\<And>i j. source i = source j \<Longrightarrow> source i \<noteq> None \<Longrightarrow> i = j"
  shows "distinct ts"
proof -
  obtain js where js: "sorted_wrt (<) js" "map source js = map Some ts"
    using assms(1) by (auto simp: fill_indices_def)
  have "inj_on source (set js)"
  proof (rule inj_onI)
    fix i j assume "i \<in> set js" "source i = source j"
    moreover have "source i \<in> set (map Some ts)" using \<open>i \<in> set js\<close> unfolding js(2) [symmetric] by simp
    ultimately show "i = j" using assms(2) [of i j] by auto
  qed
  moreover have "distinct js" using js(1) by (simp add: strict_sorted_iff)
  ultimately have "distinct (map Some ts)" unfolding js(2) [symmetric] by (simp add: distinct_map)
  then show ?thesis by (simp add: distinct_map)
qed

lemma registry_accepts_source [simp]:
  "tg_source (snd (registry_accepts k q reg)) = tg_source reg"
  "tg_fills (snd (registry_accepts k q reg)) = tg_fills reg"
  by (auto simp: registry_accepts_def registry_Consume_def split: option.split)

lemma registry_other_source: "tg_source (registry_other x reg) = tg_source reg \<and> tg_fills reg \<le> tg_fills (registry_other x reg)"
proof (cases x)
  case (IssueOp m p now)
  show ?thesis
    using issue_attempts_fills [of MaximumTicketAttempts m p now "registry_PurgeExpired now reg"]
      issue_attempts_fills_le [of "registry_PurgeExpired now reg" MaximumTicketAttempts m p now]
    by (simp add: IssueOp registry_Issue_def registry_PurgeExpired_def)
qed (simp_all add: registry_Revoke_def registry_PurgeExpired_def)

lemma issued_fill_indices:
  "fill_indices (tg_source reg) (tg_fills reg)
     (map fst (issued_keys registry_accepts registry_other registry_issues ops reg))"
proof (induction ops arbitrary: reg)
  case Nil
  show ?case by (simp add: fill_indices_def)
next
  case (Cons x ops)
  show ?case
  proof (cases x)
    case (Inl kq)
    then show ?thesis using Cons.IH [of "snd (registry_accepts (fst kq) (snd kq) reg)"] by (cases kq) simp
  next
    case (Inr y)
    let ?ts = "map fst (issued_keys registry_accepts registry_other registry_issues ops (registry_other y reg))"
    have rest: "fill_indices (tg_source reg) (tg_fills (registry_other y reg)) ?ts"
      using Cons.IH [of "registry_other y reg"] registry_other_source [of y reg] by simp
    show ?thesis
    proof (cases "registry_issues y reg")
      case None
      then show ?thesis using Inr rest registry_other_source [of y reg] fill_indices_mono by simp blast
    next
      case (Some k)
      then obtain m p now t where y: "y = IssueOp m p now" "fst (registry_Issue m p now reg) = Some t" "k = (t, m, p)"
        by (cases y) auto
      let ?purged = "registry_PurgeExpired now reg"
      obtain reg' where reg': "issue_attempts MaximumTicketAttempts m p now ?purged = (Some t, reg')"
        using y(2) by (cases "issue_attempts MaximumTicketAttempts m p now ?purged") (simp add: registry_Issue_def)
      obtain i where "tg_fills reg \<le> i" "i < tg_fills reg'" "tg_source reg i = Some t"
        using issue_attempts_source [OF reg'] by (auto simp: registry_PurgeExpired_def)
      moreover have "registry_other y reg = reg'" using reg' by (simp add: y(1) registry_Issue_def)
      ultimately show ?thesis
        using Inr Some y(3) fill_indices_Cons fill_indices_mono [OF _ rest, of "Suc i"] by simp
    qed
  qed
qed

end
