(* ===== verification/LobbyService.thy ===== *)
theory LobbyService
  imports LobbyRuntime Room MatchTicketRegistry
begin

text \<open>
  apps/lobby_server/src/LobbyService.cpp: connections, players, rooms, and the reservations
  and matches that rooms start. Every handler takes the service's state and returns the new
  state with the messages, audit events and runtime actions it produced, or the exception
  that escapes from it (the state is then of no interest: LobbyInvariant shows that none
  escapes).
\<close>

unbundle bit_operations_syntax

record outbound =
  ob_recipient :: connection_id
  ob_message :: server_message

datatype audit_type =
  PlayerAssigned | RoomCreated | RoomDeleted | HostTransferred | MatchStarted | StartFailed

record audit_event =
  au_type :: audit_type
  au_connection :: "connection_id option"
  au_player :: "player_id option"
  au_room :: "room_id option"
  au_match :: "match_id option"
  au_error :: "lobby_error option"
  au_endpoint :: "game_endpoint option"

record service_result =
  sr_outbound :: "outbound list"
  sr_audit :: "audit_event list"
  sr_actions :: "runtime_action list"

definition no_result :: service_result where
  "no_result = \<lparr>sr_outbound = [], sr_audit = [], sr_actions = []\<rparr>"

record service_config =
  cf_nextConnection :: u64
  cf_nextPlayer :: u32
  cf_nextRoom :: u32
  cf_nextMatch :: u64
  cf_nextReservation :: u64
  cf_nextJoinOrdinal :: u64
  cf_matchSeedBase :: u32
  cf_maximumRooms :: u32

record connection_state =
  cs_player :: "player_id option"
  cs_lastRequestId :: u32

record active_match =
  am_room :: room_id
  am_worker :: worker_id
  am_tickets :: "match_ticket_value list"

record lobby =
  lb_tickets :: ticket_registry
  lb_nextConnection :: "u64 option"
  lb_nextPlayer :: "u32 option"
  lb_nextRoom :: "u32 option"
  lb_nextMatch :: "u64 option"
  lb_nextReservation :: "u64 option"
  lb_nextJoinOrdinal :: "u64 option"
  lb_matchSeedBase :: u32
  lb_maximumRooms :: nat
  lb_connections :: "(connection_id, connection_state) omap"
  lb_playerToConnection :: "(player_id, connection_id) omap"
  lb_playerToRoom :: "(player_id, room_id) omap"
  lb_rooms :: "(room_id, room) omap"
  lb_pending :: "(reservation_id, reserve_match_action) omap"
  lb_roomToReservation :: "(room_id, reservation_id) omap"
  lb_activeMatches :: "(match_id, active_match) omap"

type_synonym handled = "(lobby \<times> service_result) throws"

section \<open>Helpers\<close>

definition InitialCounter :: "'a::len word \<Rightarrow> 'a word option" where
  "InitialCounter v = (if v = 0 then None else Some v)"

text \<open>The value taken and the counter that is left.\<close>

definition TakeNext :: "'a::len word option \<Rightarrow> 'a word option \<times> 'a word option" where
  "TakeNext counter =
     (case counter of
        None \<Rightarrow> (None, None)
      | Some v \<Rightarrow> (Some v, if v = - 1 then None else Some (v + 1)))"

definition Audit ::
    "audit_type \<Rightarrow> connection_id option \<Rightarrow> player_id option \<Rightarrow> room_id option \<Rightarrow> audit_event" where
  "Audit t connection player room =
     \<lparr>au_type = t, au_connection = connection, au_player = player, au_room = room,
      au_match = None, au_error = None, au_endpoint = None\<rparr>"

definition IsValidEndpoint :: "game_endpoint \<Rightarrow> bool" where
  "IsValidEndpoint endpoint \<longleftrightarrow>
     \<not> (ep_host endpoint = [] \<or> 255 < length (ep_host endpoint)
        \<or> ep_tcpPort endpoint = 0 \<or> ep_udpPort endpoint = 0)
     \<and> list_all (\<lambda>c. 0x21 \<le> byte_of_char c \<and> byte_of_char c \<le> 0x7E) (ep_host endpoint)"

definition LobbyService :: "ticket_registry \<Rightarrow> service_config \<Rightarrow> lobby" where
  "LobbyService tickets config =
     \<lparr>lb_tickets = tickets,
      lb_nextConnection = InitialCounter (cf_nextConnection config),
      lb_nextPlayer = InitialCounter (cf_nextPlayer config),
      lb_nextRoom = InitialCounter (cf_nextRoom config),
      lb_nextMatch = InitialCounter (cf_nextMatch config),
      lb_nextReservation = InitialCounter (cf_nextReservation config),
      lb_nextJoinOrdinal = InitialCounter (cf_nextJoinOrdinal config),
      lb_matchSeedBase = cf_matchSeedBase config,
      lb_maximumRooms = min (unat (cf_maximumRooms config)) MaximumRooms,
      lb_connections = [], lb_playerToConnection = [], lb_playerToRoom = [], lb_rooms = [],
      lb_pending = [], lb_roomToReservation = [], lb_activeMatches = []\<rparr>"

definition OpenConnection :: "lobby \<Rightarrow> connection_id option \<times> lobby" where
  "OpenConnection s =
     (case TakeNext (lb_nextConnection s) of
        (None, _) \<Rightarrow> (None, s)
      | (Some v, next) \<Rightarrow>
          (Some (ConnectionId v),
           s\<lparr>lb_nextConnection := next,
             lb_connections := om_emplace (ConnectionId v)
               \<lparr>cs_player = None, cs_lastRequestId = 0\<rparr> (lb_connections s)\<rparr>))"

definition ErrorResult :: "connection_id \<Rightarrow> u32 \<Rightarrow> lobby_error \<Rightarrow> service_result" where
  "ErrorResult connection requestId error =
     no_result\<lparr>sr_outbound :=
       [\<lparr>ob_recipient = connection, ob_message = ErrorResponse requestId error\<rparr>]\<rparr>"

text \<open>\<^verbatim>\<open>RoomList\<close>: the waiting rooms, in room order.\<close>

fun list_rooms :: "(room_id \<times> room) list \<Rightarrow> room_summary list throws" where
  "list_rooms [] = Inr []"
| "list_rooms ((roomId, room) # rooms) =
     bind_throws (Room_Snapshot 0 room) (\<lambda>snapshot.
     bind_throws (list_rooms rooms) (\<lambda>rest.
       if sn_state snapshot \<noteq> Waiting then Inr rest
       else Inr (\<lparr>rs_room = roomId, rs_players = of_nat (length (sn_members snapshot)),
                  rs_capacity = of_nat RoomCapacity\<rparr> # rest)))"

definition RoomList :: "u32 \<Rightarrow> lobby \<Rightarrow> server_message throws" where
  "RoomList requestId s =
     bind_throws (list_rooms (lb_rooms s)) (\<lambda>rooms. Inr (RoomListResponse requestId rooms))"

text \<open>\<^verbatim>\<open>BroadcastSnapshot\<close>: a snapshot to every member who is connected.\<close>

fun broadcast_to ::
    "player_id list \<Rightarrow> room \<Rightarrow> connection_id option \<Rightarrow> u32 \<Rightarrow> lobby \<Rightarrow> outbound list throws" where
  "broadcast_to [] room requester requestId s = Inr []"
| "broadcast_to (player # players) room requester requestId s =
     (case map_of (lb_playerToConnection s) player of
        None \<Rightarrow> broadcast_to players room requester requestId s
      | Some connection \<Rightarrow>
          let outboundRequestId = (if requester = Some connection then requestId else 0)
          in bind_throws (Room_Snapshot outboundRequestId room) (\<lambda>snapshot.
             bind_throws (broadcast_to players room requester requestId s) (\<lambda>rest.
               Inr (\<lparr>ob_recipient = connection, ob_message = RoomSnapshot snapshot\<rparr> # rest))))"

definition BroadcastSnapshot ::
    "service_result \<Rightarrow> room \<Rightarrow> connection_id option \<Rightarrow> u32 \<Rightarrow> lobby \<Rightarrow> service_result throws" where
  "BroadcastSnapshot result room requester requestId s =
     bind_throws (broadcast_to (Room_Players room) room requester requestId s) (\<lambda>messages.
       Inr (result\<lparr>sr_outbound := sr_outbound result @ messages\<rparr>))"

section \<open>Requests\<close>

definition HandleHello :: "connection_id \<Rightarrow> connection_state \<Rightarrow> u32 \<Rightarrow> lobby \<Rightarrow> handled" where
  "HandleHello connection state requestId s =
     (if cs_player state \<noteq> None then Inr (s, ErrorResult connection requestId AlreadyWelcomed)
      else case TakeNext (lb_nextPlayer s) of
             (None, next) \<Rightarrow>
               Inr (s\<lparr>lb_nextPlayer := next\<rparr>, ErrorResult connection requestId IdSpaceExhausted)
           | (Some v, next) \<Rightarrow>
               let player = PlayerId v;
                   s = s\<lparr>lb_nextPlayer := next,
                         lb_connections := om_set connection
                           (state\<lparr>cs_player := Some player\<rparr>) (lb_connections s),
                         lb_playerToConnection := om_emplace player connection
                           (lb_playerToConnection s)\<rparr>
               in Inr (s, no_result
                    \<lparr>sr_outbound := [\<lparr>ob_recipient = connection,
                                      ob_message = ServerWelcome requestId player\<rparr>],
                     sr_audit := [Audit PlayerAssigned (Some connection) (Some player) None]\<rparr>))"

definition HandleListRooms :: "connection_id \<Rightarrow> u32 \<Rightarrow> lobby \<Rightarrow> handled" where
  "HandleListRooms connection requestId s =
     bind_throws (RoomList requestId s) (\<lambda>message.
       Inr (s, no_result\<lparr>sr_outbound :=
         [\<lparr>ob_recipient = connection, ob_message = message\<rparr>]\<rparr>))"

definition HandleCreateRoom :: "connection_id \<Rightarrow> player_id \<Rightarrow> u32 \<Rightarrow> lobby \<Rightarrow> handled" where
  "HandleCreateRoom connection player requestId s =
     (if om_contains (lb_playerToRoom s) player
      then Inr (s, ErrorResult connection requestId AlreadyInRoom)
      else if lb_maximumRooms s \<le> length (lb_rooms s)
      then Inr (s, ErrorResult connection requestId RoomLimitReached)
      else case (lb_nextRoom s, lb_nextJoinOrdinal s) of
             (Some roomValue, Some joinOrdinal) \<Rightarrow>
               let roomId = RoomId roomValue;
                   room = Room_Create roomId player joinOrdinal;
                   inserted = \<not> om_contains (lb_rooms s) roomId;
                   s = s\<lparr>lb_nextRoom := snd (TakeNext (lb_nextRoom s)),
                         lb_nextJoinOrdinal := snd (TakeNext (lb_nextJoinOrdinal s)),
                         lb_rooms := om_emplace roomId room (lb_rooms s)\<rparr>
               in if \<not> inserted then Inr (s, ErrorResult connection requestId InternalError)
                  else
                    let s = s\<lparr>lb_playerToRoom := om_emplace player roomId (lb_playerToRoom s)\<rparr>
                    in bind_throws
                         (BroadcastSnapshot no_result room (Some connection) requestId s)
                         (\<lambda>result. Inr (s, result\<lparr>sr_audit := sr_audit result @
                            [Audit RoomCreated (Some connection) (Some player) (Some roomId)]\<rparr>))
           | _ \<Rightarrow> Inr (s, ErrorResult connection requestId IdSpaceExhausted))"

definition HandleJoinRoom :: "connection_id \<Rightarrow> player_id \<Rightarrow> u32 \<Rightarrow> room_id \<Rightarrow> lobby \<Rightarrow> handled" where
  "HandleJoinRoom connection player requestId roomId s =
     (if om_contains (lb_playerToRoom s) player
      then Inr (s, ErrorResult connection requestId AlreadyInRoom)
      else case map_of (lb_rooms s) roomId of
             None \<Rightarrow> Inr (s, ErrorResult connection requestId RoomNotFound)
           | Some room \<Rightarrow>
               bind_throws (Room_Snapshot 0 room) (\<lambda>before.
                 if sn_state before \<noteq> Waiting
                 then Inr (s, ErrorResult connection requestId RoomNotJoinable)
                 else if RoomCapacity \<le> length (sn_members before)
                 then Inr (s, ErrorResult connection requestId RoomFull)
                 else case TakeNext (lb_nextJoinOrdinal s) of
                        (None, next) \<Rightarrow>
                          Inr (s\<lparr>lb_nextJoinOrdinal := next\<rparr>,
                               ErrorResult connection requestId IdSpaceExhausted)
                      | (Some ordinal, next) \<Rightarrow>
                          let (joinError, room) = Room_Join player ordinal room;
                              s = s\<lparr>lb_nextJoinOrdinal := next,
                                    lb_rooms := om_set roomId room (lb_rooms s)\<rparr>
                          in case joinError of
                               Some error \<Rightarrow> Inr (s, ErrorResult connection requestId error)
                             | None \<Rightarrow>
                                 let s = s\<lparr>lb_playerToRoom :=
                                           om_emplace player roomId (lb_playerToRoom s)\<rparr>
                                 in bind_throws
                                      (BroadcastSnapshot no_result room (Some connection) requestId s)
                                      (\<lambda>result. Inr (s, result))))"

definition LeaveWaitingRoom :: "player_id \<Rightarrow> connection_id option \<Rightarrow> u32 \<Rightarrow> lobby \<Rightarrow> handled" where
  "LeaveWaitingRoom player requester requestId s =
     (case map_of (lb_playerToRoom s) player of
        None \<Rightarrow> Inr (s, no_result)
      | Some roomId \<Rightarrow>
          (case map_of (lb_rooms s) roomId of
             None \<Rightarrow> Inr (s\<lparr>lb_playerToRoom := om_erase player (lb_playerToRoom s)\<rparr>, no_result)
           | Some room \<Rightarrow>
               bind_throws (Room_Host room) (\<lambda>oldHost.
               let (leaveError, room) = Room_Leave player room
               in case leaveError of
                    Some error \<Rightarrow>
                      Inr (s, (case requester of
                                 Some c \<Rightarrow> ErrorResult c requestId error
                               | None \<Rightarrow> no_result))
                  | None \<Rightarrow>
                      let s = s\<lparr>lb_rooms := om_set roomId room (lb_rooms s),
                                lb_playerToRoom := om_erase player (lb_playerToRoom s)\<rparr>
                      in bind_throws
                        (if Room_Empty room
                         then Inr (s\<lparr>lb_rooms := om_erase roomId (lb_rooms s)\<rparr>,
                                   no_result\<lparr>sr_audit :=
                                     [Audit RoomDeleted requester (Some player) (Some roomId)]\<rparr>)
                         else
                           bind_throws (Room_Host room) (\<lambda>newHost.
                           bind_throws (BroadcastSnapshot no_result room None 0 s) (\<lambda>result.
                             Inr (s, if newHost \<noteq> oldHost
                                     then result\<lparr>sr_audit := sr_audit result @
                                       [Audit HostTransferred
                                         (map_of (lb_playerToConnection s) newHost)
                                         (Some newHost) (Some roomId)]\<rparr>
                                     else result))))
                        (\<lambda>(s, result).
                          case requester of
                            None \<Rightarrow> Inr (s, result)
                          | Some c \<Rightarrow>
                              bind_throws (RoomList requestId s) (\<lambda>message.
                                Inr (s, result\<lparr>sr_outbound := sr_outbound result @
                                  [\<lparr>ob_recipient = c, ob_message = message\<rparr>]\<rparr>))))))"

definition HandleLeaveRoom :: "connection_id \<Rightarrow> player_id \<Rightarrow> u32 \<Rightarrow> lobby \<Rightarrow> handled" where
  "HandleLeaveRoom connection player requestId s =
     (if \<not> om_contains (lb_playerToRoom s) player
      then Inr (s, ErrorResult connection requestId NotInRoom)
      else LeaveWaitingRoom player (Some connection) requestId s)"

definition HandleSetReady :: "connection_id \<Rightarrow> player_id \<Rightarrow> u32 \<Rightarrow> bool \<Rightarrow> lobby \<Rightarrow> handled" where
  "HandleSetReady connection player requestId ready s =
     (case map_of (lb_playerToRoom s) player of
        None \<Rightarrow> Inr (s, ErrorResult connection requestId NotInRoom)
      | Some roomId \<Rightarrow>
          (case map_of (lb_rooms s) roomId of
             None \<Rightarrow> Inr (s, ErrorResult connection requestId InternalError)
           | Some room \<Rightarrow>
               let (readyError, room) = Room_SetReady player ready room;
                   s = s\<lparr>lb_rooms := om_set roomId room (lb_rooms s)\<rparr>
               in case readyError of
                    Some error \<Rightarrow> Inr (s, ErrorResult connection requestId error)
                  | None \<Rightarrow>
                      bind_throws (BroadcastSnapshot no_result room (Some connection) requestId s)
                        (\<lambda>result. Inr (s, result))))"

section \<open>Starting a match\<close>

text \<open>
  The loop that issues one ticket per participant: whether it got through, the tickets so
  far, and the registry.
\<close>

fun issue_tickets ::
    "match_id \<Rightarrow> time_point \<Rightarrow> player_id list \<Rightarrow> match_ticket_value list \<Rightarrow> ticket_registry
      \<Rightarrow> bool \<times> match_ticket_value list \<times> ticket_registry" where
  "issue_tickets match now [] temporary reg = (True, temporary, reg)"
| "issue_tickets match now (participant # players) temporary reg =
     (case registry_Issue match participant now reg of
        (None, reg) \<Rightarrow> (False, temporary, reg)
      | (Some ticket, reg) \<Rightarrow> issue_tickets match now players (temporary @ [ticket]) reg)"

text \<open>The \<^verbatim>\<open>rollback\<close> lambda of \<^verbatim>\<open>HandleStartMatch\<close>.\<close>

definition start_rollback ::
    "connection_id \<Rightarrow> player_id \<Rightarrow> u32 \<Rightarrow> room_id \<Rightarrow> room \<Rightarrow> match_id \<Rightarrow> match_ticket_value list
      \<Rightarrow> lobby_error \<Rightarrow> lobby \<Rightarrow> handled" where
  "start_rollback connection player requestId roomId room match temporary error s =
     (let s = s\<lparr>lb_tickets := registry_Revoke temporary (lb_tickets s)\<rparr>
      in bind_throws (Room_ReturnToWaiting room) (\<lambda>room.
         let s = s\<lparr>lb_rooms := om_set roomId room (lb_rooms s)\<rparr>
         in bind_throws (BroadcastSnapshot no_result room None 0 s) (\<lambda>result.
              Inr (s, result
                \<lparr>sr_outbound := sr_outbound result @
                   [\<lparr>ob_recipient = connection, ob_message = ErrorResponse requestId error\<rparr>],
                 sr_audit := sr_audit result @
                   [(Audit StartFailed (Some connection) (Some player) (Some roomId))
                      \<lparr>au_match := Some match, au_error := Some error\<rparr>]\<rparr>))))"

definition match_seed :: "u32 \<Rightarrow> match_id \<Rightarrow> u32" where
  "match_seed base match =
     (base XOR ucast (idval match)) XOR ucast (drop_bit 32 (idval match))"

definition HandleStartMatch ::
    "connection_id \<Rightarrow> player_id \<Rightarrow> u32 \<Rightarrow> time_point \<Rightarrow> lobby \<Rightarrow> handled" where
  "HandleStartMatch connection player requestId now s =
     (case map_of (lb_playerToRoom s) player of
        None \<Rightarrow> Inr (s, ErrorResult connection requestId NotInRoom)
      | Some roomId \<Rightarrow>
        (case map_of (lb_rooms s) roomId of
           None \<Rightarrow> Inr (s, ErrorResult connection requestId InternalError)
         | Some room \<Rightarrow>
           (case Room_ValidateStart player room of
              Some error \<Rightarrow> Inr (s, ErrorResult connection requestId error)
            | None \<Rightarrow>
              (case (lb_nextMatch s, lb_nextReservation s) of
                 (Some matchValue, Some reservationValue) \<Rightarrow>
                   let match = MatchId matchValue;
                       reservation = ReservationId reservationValue;
                       players = Room_Players room
                   in bind_throws (Room_BeginStarting room) (\<lambda>room.
                      let s = s\<lparr>lb_nextMatch := snd (TakeNext (lb_nextMatch s)),
                                lb_nextReservation := snd (TakeNext (lb_nextReservation s)),
                                lb_rooms := om_set roomId room (lb_rooms s)\<rparr>;
                          (issued, temporary, reg) =
                            issue_tickets match now players [] (lb_tickets s);
                          s = s\<lparr>lb_tickets := reg\<rparr>
                      in if \<not> issued
                         then start_rollback connection player requestId roomId room match
                                temporary InternalError s
                         else
                           let participants = map2 (\<lambda>p t. \<lparr>rp_player = p, rp_ticket = t\<rparr>)
                                 players temporary;
                               action =
                                 \<lparr>ra_reservation = reservation, ra_room = roomId,
                                  ra_match = match, ra_requester = player,
                                  ra_requestId = requestId,
                                  ra_seed = match_seed (lb_matchSeedBase s) match,
                                  ra_issuedAt = now, ra_participants = participants\<rparr>;
                               inserted = \<not> om_contains (lb_pending s) reservation;
                               roomInserted = \<not> om_contains (lb_roomToReservation s) roomId;
                               s = s\<lparr>lb_pending := om_emplace reservation action (lb_pending s),
                                     lb_roomToReservation :=
                                       om_emplace roomId reservation (lb_roomToReservation s)\<rparr>
                           in if \<not> inserted \<or> \<not> roomInserted
                              then start_rollback connection player requestId roomId room match
                                     temporary InternalError
                                     (s\<lparr>lb_pending := om_erase reservation (lb_pending s),
                                        lb_roomToReservation :=
                                          om_erase roomId (lb_roomToReservation s)\<rparr>)
                              else
                                bind_throws
                                  (BroadcastSnapshot no_result room (Some connection) requestId s)
                                  (\<lambda>result. Inr (s, result\<lparr>sr_actions :=
                                     sr_actions result @ [ReserveMatchAction action]\<rparr>)))
               | _ \<Rightarrow> Inr (s, ErrorResult connection requestId IdSpaceExhausted)))))"

section \<open>Reservations and matches\<close>

definition participant_tickets :: "reserve_match_action \<Rightarrow> match_ticket_value list" where
  "participant_tickets action = map rp_ticket (ra_participants action)"

definition start_failed_audit ::
    "connection_id option \<Rightarrow> reserve_match_action \<Rightarrow> lobby_error \<Rightarrow> audit_event" where
  "start_failed_audit requesterConnection action error =
     (Audit StartFailed requesterConnection (Some (ra_requester action)) (Some (ra_room action)))
       \<lparr>au_match := Some (ra_match action), au_error := Some error\<rparr>"

definition FailPendingReservation :: "reservation_id \<Rightarrow> lobby_error \<Rightarrow> lobby \<Rightarrow> handled" where
  "FailPendingReservation reservation error s =
     (case map_of (lb_pending s) reservation of
        None \<Rightarrow> Inr (s, no_result)
      | Some action \<Rightarrow>
          let s = s\<lparr>lb_pending := om_erase reservation (lb_pending s),
                    lb_roomToReservation := om_erase (ra_room action) (lb_roomToReservation s),
                    lb_tickets := registry_Revoke (participant_tickets action) (lb_tickets s)\<rparr>
          in bind_throws
            (case map_of (lb_rooms s) (ra_room action) of
               None \<Rightarrow> Inr (s, no_result)
             | Some room \<Rightarrow>
                 bind_throws (Room_Snapshot 0 room) (\<lambda>snapshot.
                   if sn_state snapshot = Starting
                   then bind_throws (Room_ReturnToWaiting room) (\<lambda>room.
                          let s = s\<lparr>lb_rooms := om_set (ra_room action) room (lb_rooms s)\<rparr>
                          in bind_throws (BroadcastSnapshot no_result room None 0 s) (\<lambda>result.
                               Inr (s, result)))
                   else Inr (s, no_result)))
            (\<lambda>(s, result).
              let requesterConnection = map_of (lb_playerToConnection s) (ra_requester action);
                  result = (case requesterConnection of
                              None \<Rightarrow> result
                            | Some c \<Rightarrow> result\<lparr>sr_outbound := sr_outbound result @
                                [\<lparr>ob_recipient = c,
                                  ob_message = ErrorResponse (ra_requestId action) error\<rparr>]\<rparr>)
              in Inr (s, result\<lparr>sr_audit := sr_audit result @
                   [start_failed_audit requesterConnection action error]\<rparr>)))"

text \<open>The players' connections in \<^verbatim>\<open>FinishActiveMatch\<close>; the loop also drops their rooms.\<close>

definition match_recipients :: "player_id list \<Rightarrow> lobby \<Rightarrow> connection_id list" where
  "match_recipients players s = List.map_filter (map_of (lb_playerToConnection s)) players"

fun match_over_messages ::
    "connection_id list \<Rightarrow> bool \<Rightarrow> lobby \<Rightarrow> outbound list throws" where
  "match_over_messages [] unavailable s = Inr []"
| "match_over_messages (recipient # recipients) unavailable s =
     bind_throws (RoomList 0 s) (\<lambda>message.
     bind_throws (match_over_messages recipients unavailable s) (\<lambda>rest.
       Inr ((if unavailable
             then [\<lparr>ob_recipient = recipient, ob_message = ErrorResponse 0 MatchUnavailable\<rparr>]
             else [])
            @ [\<lparr>ob_recipient = recipient, ob_message = message\<rparr>] @ rest)))"

definition FinishActiveMatch :: "worker_id \<Rightarrow> match_id \<Rightarrow> bool \<Rightarrow> lobby \<Rightarrow> handled" where
  "FinishActiveMatch worker match unavailable s =
     (case map_of (lb_activeMatches s) match of
        None \<Rightarrow> Inr (s, no_result)
      | Some record \<Rightarrow>
          if am_worker record \<noteq> worker then Inr (s, no_result)
          else
            let s = s\<lparr>lb_activeMatches := om_erase match (lb_activeMatches s),
                      lb_tickets := registry_Revoke (am_tickets record) (lb_tickets s)\<rparr>
            in case map_of (lb_rooms s) (am_room record) of
                 None \<Rightarrow> Inr (s, no_result)
               | Some room \<Rightarrow>
                   let players = Room_Players room;
                       recipients = match_recipients players s;
                       s = s\<lparr>lb_playerToRoom := fold om_erase players (lb_playerToRoom s),
                             lb_rooms := om_erase (am_room record) (lb_rooms s)\<rparr>
                   in bind_throws (match_over_messages recipients unavailable s) (\<lambda>messages.
                        Inr (s, no_result\<lparr>sr_outbound := messages,
                          sr_audit := [Audit RoomDeleted None None (Some (am_room record))]\<rparr>)))"

definition DisconnectStartingPlayer :: "player_id \<Rightarrow> room_id \<Rightarrow> lobby \<Rightarrow> handled" where
  "DisconnectStartingPlayer player roomId s =
     (case map_of (lb_roomToReservation s) roomId of
        None \<Rightarrow> Inr (s, no_result)
      | Some reservation \<Rightarrow>
        (case map_of (lb_pending s) reservation of
           None \<Rightarrow> Inr (s\<lparr>lb_roomToReservation := om_erase roomId (lb_roomToReservation s)\<rparr>, no_result)
         | Some action \<Rightarrow>
             let s = s\<lparr>lb_pending := om_erase reservation (lb_pending s),
                       lb_roomToReservation := om_erase roomId (lb_roomToReservation s),
                       lb_tickets := registry_Revoke (participant_tickets action) (lb_tickets s)\<rparr>
             in case map_of (lb_rooms s) roomId of
                  None \<Rightarrow> Inr (s, no_result)
                | Some room \<Rightarrow>
                    bind_throws (Room_ReturnToWaiting room) (\<lambda>room.
                    let s = s\<lparr>lb_rooms := om_set roomId room (lb_rooms s)\<rparr>
                    in bind_throws (LeaveWaitingRoom player None 0 s) (\<lambda>(s, result).
                       let result = result\<lparr>sr_actions := sr_actions result @
                             [CancelReservationAction (ra_reservation action) (ra_match action)]\<rparr>;
                           requesterConnection =
                             (if ra_requester action \<noteq> player
                              then map_of (lb_playerToConnection s) (ra_requester action)
                              else None);
                           result = (case requesterConnection of
                               None \<Rightarrow> result
                             | Some c \<Rightarrow> result\<lparr>sr_outbound := sr_outbound result @
                                 [\<lparr>ob_recipient = c, ob_message =
                                   ErrorResponse (ra_requestId action) WorkerUnavailable\<rparr>]\<rparr>)
                       in Inr (s, result\<lparr>sr_audit := sr_audit result @
                            [start_failed_audit requesterConnection action WorkerUnavailable]\<rparr>)))))"

section \<open>Dispatch\<close>

definition Handle :: "connection_id \<Rightarrow> client_message \<Rightarrow> time_point \<Rightarrow> lobby \<Rightarrow> handled" where
  "Handle connection message now s =
     (case map_of (lb_connections s) connection of
        None \<Rightarrow> Inr (s, no_result)
      | Some state \<Rightarrow>
          let requestId = client_RequestId message
          in if requestId = 0 \<or> requestId \<le> cs_lastRequestId state
             then Inr (s, ErrorResult connection requestId RequestOutOfOrder)
             else
               let state = state\<lparr>cs_lastRequestId := requestId\<rparr>;
                   s = s\<lparr>lb_connections := om_set connection state (lb_connections s)\<rparr>
               in case message of
                    ClientHello _ \<Rightarrow> HandleHello connection state requestId s
                  | _ \<Rightarrow>
                    (case cs_player state of
                       None \<Rightarrow> Inr (s, ErrorResult connection requestId NotWelcomed)
                     | Some player \<Rightarrow>
                       (case message of
                          ClientHello _ \<Rightarrow>
                            Inr (s, ErrorResult connection requestId AlreadyWelcomed)
                        | ListRoomsRequest _ \<Rightarrow> HandleListRooms connection requestId s
                        | CreateRoomRequest _ \<Rightarrow> HandleCreateRoom connection player requestId s
                        | JoinRoomRequest _ room \<Rightarrow>
                            HandleJoinRoom connection player requestId room s
                        | LeaveRoomRequest _ \<Rightarrow> HandleLeaveRoom connection player requestId s
                        | SetReadyRequest _ ready \<Rightarrow>
                            HandleSetReady connection player requestId ready s
                        | StartMatchRequest _ \<Rightarrow>
                            HandleStartMatch connection player requestId now s)))"

definition Disconnect :: "connection_id \<Rightarrow> lobby \<Rightarrow> handled" where
  "Disconnect connection s =
     (case map_of (lb_connections s) connection of
        None \<Rightarrow> Inr (s, no_result)
      | Some state \<Rightarrow>
          bind_throws
            (case cs_player state of
               None \<Rightarrow> Inr (s, no_result)
             | Some player \<Rightarrow>
                 bind_throws
                   (case map_of (lb_playerToRoom s) player of
                      None \<Rightarrow> Inr (s, no_result)
                    | Some roomId \<Rightarrow>
                      (case map_of (lb_rooms s) roomId of
                         None \<Rightarrow> Inr (s, no_result)
                       | Some room \<Rightarrow>
                           bind_throws (Room_Snapshot 0 room) (\<lambda>snapshot.
                             if sn_state snapshot = Starting
                             then DisconnectStartingPlayer player roomId s
                             else if sn_state snapshot = Waiting
                             then LeaveWaitingRoom player None 0 s
                             else Inr (s, no_result))))
                   (\<lambda>(s, result).
                     Inr (s\<lparr>lb_playerToConnection :=
                            om_erase player (lb_playerToConnection s)\<rparr>, result)))
            (\<lambda>(s, result).
              Inr (s\<lparr>lb_connections := om_erase connection (lb_connections s)\<rparr>, result)))"

definition ticket_messages ::
    "connection_id option \<Rightarrow> reserve_match_action \<Rightarrow> game_endpoint \<Rightarrow> u16 \<Rightarrow> lobby \<Rightarrow> outbound list" where
  "ticket_messages requesterConnection action endpoint expiresInSeconds s =
     List.map_filter
       (\<lambda>participant.
          case map_of (lb_playerToConnection s) (rp_player participant) of
            None \<Rightarrow> None
          | Some c \<Rightarrow>
              Some \<lparr>ob_recipient = c, ob_message = MatchTicket
                \<lparr>mt_requestId = (if requesterConnection = Some c then ra_requestId action else 0),
                 mt_match = ra_match action, mt_ticket = rp_ticket participant,
                 mt_host = ep_host endpoint, mt_tcpPort = ep_tcpPort endpoint,
                 mt_udpPort = ep_udpPort endpoint, mt_expiresInSeconds = expiresInSeconds\<rparr>\<rparr>)
       (ra_participants action)"

definition HandleReservationReady ::
    "reservation_id \<Rightarrow> match_id \<Rightarrow> worker_id \<Rightarrow> game_endpoint \<Rightarrow> time_point \<Rightarrow> lobby \<Rightarrow> handled" where
  "HandleReservationReady reservation match worker endpoint now s =
     (case map_of (lb_pending s) reservation of
        None \<Rightarrow> Inr (s, no_result)
      | Some action \<Rightarrow>
          if ra_match action \<noteq> match then Inr (s, no_result)
          else
            let expiresAt = ra_issuedAt action + ticket_lifetime;
                remaining = trunc_div (expiresAt - now) nanoseconds_per_second
            in if idval worker = 0 \<or> \<not> IsValidEndpoint endpoint \<or> remaining < 1
               then FailPendingReservation reservation WorkerUnavailable s
               else
                 let s = s\<lparr>lb_pending := om_erase reservation (lb_pending s),
                           lb_roomToReservation :=
                             om_erase (ra_room action) (lb_roomToReservation s)\<rparr>;
                     revoked = Inr (s\<lparr>lb_tickets :=
                       registry_Revoke (participant_tickets action) (lb_tickets s)\<rparr>, no_result)
                 in case map_of (lb_rooms s) (ra_room action) of
                      None \<Rightarrow> revoked
                    | Some room \<Rightarrow>
                        bind_throws (Room_Snapshot 0 room) (\<lambda>snapshot.
                          if sn_state snapshot \<noteq> Starting then revoked
                          else bind_throws (Room_MarkInMatch room) (\<lambda>room.
                            let s = s\<lparr>lb_rooms := om_set (ra_room action) room (lb_rooms s),
                                      lb_activeMatches := om_emplace (ra_match action)
                                        \<lparr>am_room = ra_room action, am_worker = worker,
                                         am_tickets = participant_tickets action\<rparr>
                                        (lb_activeMatches s)\<rparr>;
                                requesterConnection =
                                  map_of (lb_playerToConnection s) (ra_requester action)
                            in bind_throws
                              (BroadcastSnapshot no_result room requesterConnection
                                (ra_requestId action) s)
                              (\<lambda>result.
                                let expiresInSeconds = of_int
                                      (min remaining (int MatchTicketLifetimeSeconds));
                                    audit = (Audit MatchStarted requesterConnection
                                        (Some (ra_requester action)) (Some (ra_room action)))
                                        \<lparr>au_match := Some (ra_match action),
                                         au_endpoint := Some endpoint\<rparr>
                                in Inr (s, result
                                  \<lparr>sr_outbound := sr_outbound result @
                                     ticket_messages requesterConnection action endpoint
                                       expiresInSeconds s,
                                   sr_audit := sr_audit result @ [audit]\<rparr>)))))"

definition HandleWorkerEvent :: "worker_event \<Rightarrow> time_point \<Rightarrow> lobby \<Rightarrow> handled" where
  "HandleWorkerEvent event now s =
     (case event of
        ReservationFailedEvent reservation match \<Rightarrow>
          (case map_of (lb_pending s) reservation of
             None \<Rightarrow> Inr (s, no_result)
           | Some action \<Rightarrow>
               if ra_match action \<noteq> match then Inr (s, no_result)
               else FailPendingReservation reservation WorkerUnavailable s)
      | ReservationReadyEvent reservation match worker endpoint \<Rightarrow>
          HandleReservationReady reservation match worker endpoint now s
      | MatchFinishedEvent worker match \<Rightarrow> FinishActiveMatch worker match False s
      | MatchUnavailableEvent worker match \<Rightarrow> FinishActiveMatch worker match True s)"

end
