(* ===== verification/LobbyCodec.thy ===== *)
theory LobbyCodec
  imports Messages
begin

text \<open>
  protocol/src/LobbyMessageCodec.cpp: the payloads of the lobby's TCP messages. Every
  decoder reads its fields in order and checks them as the code does; the lemmas show that
  an encoded message decodes to itself (lists of rooms and members arrive sorted), and that
  a payload accepted from a client is byte for byte the encoding of its message.
\<close>

section \<open>Encoders\<close>

definition EncodeRequestPayload ::
    "message_type \<Rightarrow> u32 \<Rightarrow> (byte_writer \<Rightarrow> byte_writer) \<Rightarrow> encoded_message" where
  "EncodeRequestPayload t requestId writeBody =
     \<lparr>em_type = t, em_payload = writeBody (WriteU32 requestId [])\<rparr>"

definition bool_u8 :: "bool \<Rightarrow> u8" where
  "bool_u8 b = (if b then 1 else 0)"

fun EncodeClientMessage :: "client_message \<Rightarrow> encoded_message throws" where
  "EncodeClientMessage message =
     (let requestId = client_RequestId message
      in if requestId = 0 then Inl Invalid_argument
         else Inr (case message of
             ClientHello _ \<Rightarrow> EncodeRequestPayload MT_ClientHello requestId (\<lambda>w. w)
           | ListRoomsRequest _ \<Rightarrow> EncodeRequestPayload MT_ListRoomsRequest requestId (\<lambda>w. w)
           | CreateRoomRequest _ \<Rightarrow> EncodeRequestPayload MT_CreateRoomRequest requestId (\<lambda>w. w)
           | JoinRoomRequest _ room \<Rightarrow>
               EncodeRequestPayload MT_JoinRoomRequest requestId (WriteU32 (idval room))
           | LeaveRoomRequest _ \<Rightarrow> EncodeRequestPayload MT_LeaveRoomRequest requestId (\<lambda>w. w)
           | SetReadyRequest _ ready \<Rightarrow>
               EncodeRequestPayload MT_SetReadyRequest requestId (WriteU8 (bool_u8 ready))
           | StartMatchRequest _ \<Rightarrow> EncodeRequestPayload MT_StartMatchRequest requestId (\<lambda>w. w)))"

definition IsValidTicket :: "match_ticket \<Rightarrow> bool" where
  "IsValidTicket ticket \<longleftrightarrow>
     IsVisibleAsciiHost (mt_host ticket)
     \<and> mt_tcpPort ticket \<noteq> 0
     \<and> mt_udpPort ticket \<noteq> 0
     \<and> 0 < mt_expiresInSeconds ticket
     \<and> unat (mt_expiresInSeconds ticket) \<le> MatchTicketLifetimeSeconds"

definition valid_summary :: "room_summary \<Rightarrow> bool" where
  "valid_summary room \<longleftrightarrow>
     \<not> (unat (rs_capacity room) \<noteq> RoomCapacity \<or> rs_capacity room < rs_players room)"

definition WriteSummary :: "room_summary \<Rightarrow> byte_writer \<Rightarrow> byte_writer" where
  "WriteSummary room w =
     WriteU8 (rs_capacity room) (WriteU8 (rs_players room) (WriteU32 (idval (rs_room room)) w))"

definition WriteMember :: "room_member_view \<Rightarrow> byte_writer \<Rightarrow> byte_writer" where
  "WriteMember member w =
     WriteU8 (bool_u8 (mv_ready member)) (WriteU32 (idval (mv_player member)) w)"

definition EncodeRoomList :: "u32 \<Rightarrow> room_summary list \<Rightarrow> encoded_message throws" where
  "EncodeRoomList requestId value =
     (if MaximumRooms < length value then Inl Invalid_argument
      else if \<not> list_all valid_summary value then Inl Invalid_argument
      else let rooms = sort_key rs_room value
           in Inr (EncodeRequestPayload MT_RoomListResponse requestId
                (\<lambda>w. fold WriteSummary rooms (WriteU16 (of_nat (length rooms)) w))))"

definition EncodeRoomSnapshot :: "room_snapshot \<Rightarrow> encoded_message throws" where
  "EncodeRoomSnapshot value =
     (if room_state_of (room_state_value (sn_state value)) = None
         \<or> RoomCapacity < length (sn_members value) then Inl Invalid_argument
      else let members = sort_key mv_player (sn_members value)
           in Inr (EncodeRequestPayload MT_RoomSnapshot (sn_requestId value)
                (\<lambda>w. let w = WriteU32 (idval (sn_room value)) w;
                         w = WriteU8 (room_state_value (sn_state value)) w;
                         w = WriteU32 (idval (sn_host value)) w;
                         w = WriteU8 (of_nat (length members)) w
                     in fold WriteMember members w)))"

definition EncodeMatchTicket :: "match_ticket \<Rightarrow> encoded_message throws" where
  "EncodeMatchTicket value =
     (if \<not> IsValidTicket value then Inl Invalid_argument
      else
        let w = WriteU32 (mt_requestId value) [];
            w = WriteU64 (idval (mt_match value)) w;
            w = WriteBytes (idval (mt_ticket value)) w
        in bind_throws (WriteString8 (mt_host value) w) (\<lambda>w.
             let w = WriteU16 (mt_tcpPort value) w;
                 w = WriteU16 (mt_udpPort value) w;
                 w = WriteU16 (mt_expiresInSeconds value) w
             in Inr \<lparr>em_type = MT_MatchTicket, em_payload = w\<rparr>))"

fun EncodeServerMessage :: "server_message \<Rightarrow> encoded_message throws" where
  "EncodeServerMessage (ServerWelcome requestId player) =
     Inr (EncodeRequestPayload MT_ServerWelcome requestId (WriteU32 (idval player)))"
| "EncodeServerMessage (RoomListResponse requestId rooms) = EncodeRoomList requestId rooms"
| "EncodeServerMessage (RoomSnapshot snapshot) = EncodeRoomSnapshot snapshot"
| "EncodeServerMessage (MatchTicket ticket) = EncodeMatchTicket ticket"
| "EncodeServerMessage (ErrorResponse requestId error) =
     (if lobby_error_of (lobby_error_value error) = None then Inl Invalid_argument
      else Inr (EncodeRequestPayload MT_ErrorResponse requestId
                 (WriteU16 (lobby_error_value error))))"

section \<open>Decoders\<close>

definition ReadClientRequestId :: "byte_reader \<Rightarrow> u32 option \<times> byte_reader" where
  "ReadClientRequestId r0 =
     (let (requestId, r) = ReadU32 r0
      in (if requestId = None \<or> requestId = Some 0 then None else requestId, r))"

definition DecodeRequestOnly :: "(u32 \<Rightarrow> client_message) \<Rightarrow> byte list \<Rightarrow> client_message decode_result" where
  "DecodeRequestOnly message payload =
     (let (requestId, r) = ReadClientRequestId (ByteReader payload)
      in case requestId of
           None \<Rightarrow> InvalidOr r
         | Some q \<Rightarrow> FinishDecode r (message q))"

definition DecodeJoinRoom :: "byte list \<Rightarrow> client_message decode_result" where
  "DecodeJoinRoom payload =
     (let (requestId, r) = ReadClientRequestId (ByteReader payload);
          (room, r) = ReadU32 r
      in case (requestId, room) of
           (Some q, Some v) \<Rightarrow> FinishDecode r (JoinRoomRequest q (RoomId v))
         | _ \<Rightarrow> InvalidOr r)"

definition DecodeSetReady :: "byte list \<Rightarrow> client_message decode_result" where
  "DecodeSetReady payload =
     (let (requestId, r) = ReadClientRequestId (ByteReader payload);
          (ready, r) = ReadU8 r
      in case (requestId, ready) of
           (Some q, Some v) \<Rightarrow>
             if 1 < v then Inl InvalidValue
             else FinishDecode r (SetReadyRequest q (v = 1))
         | _ \<Rightarrow> InvalidOr r)"

fun DecodeClientMessage :: "message_type \<Rightarrow> byte list \<Rightarrow> client_message decode_result" where
  "DecodeClientMessage MT_ClientHello payload = DecodeRequestOnly ClientHello payload"
| "DecodeClientMessage MT_ListRoomsRequest payload = DecodeRequestOnly ListRoomsRequest payload"
| "DecodeClientMessage MT_CreateRoomRequest payload = DecodeRequestOnly CreateRoomRequest payload"
| "DecodeClientMessage MT_JoinRoomRequest payload = DecodeJoinRoom payload"
| "DecodeClientMessage MT_LeaveRoomRequest payload = DecodeRequestOnly LeaveRoomRequest payload"
| "DecodeClientMessage MT_SetReadyRequest payload = DecodeSetReady payload"
| "DecodeClientMessage MT_StartMatchRequest payload = DecodeRequestOnly StartMatchRequest payload"
| "DecodeClientMessage _ payload = Inl InvalidValue"

definition DecodeWelcome :: "byte list \<Rightarrow> server_message decode_result" where
  "DecodeWelcome payload =
     (let r = ByteReader payload;
          (requestId, r) = ReadU32 r;
          (player, r) = ReadU32 r
      in case (requestId, player) of
           (Some q, Some p) \<Rightarrow> FinishDecode r (ServerWelcome q (PlayerId p))
         | _ \<Rightarrow> ReaderFailure r)"

definition ReadSummary :: "byte_reader \<Rightarrow> decode_error + room_summary \<times> byte_reader" where
  "ReadSummary r =
     (let (room, r) = ReadU32 r;
          (players, r) = ReadU8 r;
          (capacity, r) = ReadU8 r
      in case (room, players, capacity) of
           (Some v, Some p, Some c) \<Rightarrow>
             if unat c \<noteq> RoomCapacity \<or> c < p then Inl InvalidValue
             else Inr (\<lparr>rs_room = RoomId v, rs_players = p, rs_capacity = c\<rparr>, r)
         | _ \<Rightarrow> ReaderFailure r)"

definition DecodeRoomList :: "byte list \<Rightarrow> server_message decode_result" where
  "DecodeRoomList payload =
     (let r = ByteReader payload;
          (requestId, r) = ReadU32 r;
          (count, r) = ReadU16 r
      in case (requestId, count) of
           (Some q, Some n) \<Rightarrow>
             if MaximumRooms < unat n then Inl CountLimit
             else (case read_items ReadSummary (unat n) r of
                     Inl e \<Rightarrow> Inl e
                   | Inr (rooms, r) \<Rightarrow>
                       FinishDecode r (RoomListResponse q (sort_key rs_room rooms)))
         | _ \<Rightarrow> ReaderFailure r)"

definition ReadMember :: "byte_reader \<Rightarrow> decode_error + room_member_view \<times> byte_reader" where
  "ReadMember r =
     (let (player, r) = ReadU32 r;
          (ready, r) = ReadU8 r
      in case (player, ready) of
           (Some p, Some b) \<Rightarrow>
             if 1 < b then Inl InvalidValue
             else Inr (\<lparr>mv_player = PlayerId p, mv_ready = (b = 1)\<rparr>, r)
         | _ \<Rightarrow> ReaderFailure r)"

definition DecodeRoomSnapshot :: "byte list \<Rightarrow> server_message decode_result" where
  "DecodeRoomSnapshot payload =
     (let r = ByteReader payload;
          (requestId, r) = ReadU32 r;
          (room, r) = ReadU32 r;
          (stateValue, r) = ReadU8 r;
          (host, r) = ReadU32 r;
          (count, r) = ReadU8 r
      in case (requestId, room, stateValue, host, count) of
           (Some q, Some v, Some sv, Some h, Some n) \<Rightarrow>
             (case room_state_of sv of
                None \<Rightarrow> Inl InvalidValue
              | Some state \<Rightarrow>
                  if RoomCapacity < unat n then Inl CountLimit
                  else (case read_items ReadMember (unat n) r of
                          Inl e \<Rightarrow> Inl e
                        | Inr (members, r) \<Rightarrow>
                            FinishDecode r (RoomSnapshot
                              \<lparr>sn_requestId = q, sn_room = RoomId v, sn_state = state,
                               sn_host = PlayerId h, sn_members = sort_key mv_player members\<rparr>)))
         | _ \<Rightarrow> ReaderFailure r)"

definition DecodeMatchTicket :: "byte list \<Rightarrow> server_message decode_result" where
  "DecodeMatchTicket payload =
     (let r = ByteReader payload;
          (requestId, r) = ReadU32 r;
          (match, r) = ReadU64 r;
          (ticketBytes, r) = ReadBytes MatchTicketBytes r;
          (host, r) = ReadString8 255 r;
          (tcpPort, r) = ReadU16 r;
          (udpPort, r) = ReadU16 r;
          (expires, r) = ReadU16 r
      in case (requestId, match, ticketBytes, host, tcpPort, udpPort, expires) of
           (Some q, Some m, Some t, Some h, Some tp, Some up, Some ex) \<Rightarrow>
             let ticket = \<lparr>mt_requestId = q, mt_match = MatchId m, mt_ticket = Ident t,
                           mt_host = h, mt_tcpPort = tp, mt_udpPort = up,
                           mt_expiresInSeconds = ex\<rparr>
             in if \<not> IsValidTicket ticket then Inl InvalidValue
                else FinishDecode r (MatchTicket ticket)
         | _ \<Rightarrow> ReaderFailure r)"

definition DecodeErrorResponse :: "byte list \<Rightarrow> server_message decode_result" where
  "DecodeErrorResponse payload =
     (let r = ByteReader payload;
          (requestId, r) = ReadU32 r;
          (errorValue, r) = ReadU16 r
      in case (requestId, errorValue) of
           (Some q, Some v) \<Rightarrow>
             (case lobby_error_of v of
                None \<Rightarrow> Inl InvalidValue
              | Some error \<Rightarrow> FinishDecode r (ErrorResponse q error))
         | _ \<Rightarrow> ReaderFailure r)"

fun DecodeServerMessage :: "message_type \<Rightarrow> byte list \<Rightarrow> server_message decode_result" where
  "DecodeServerMessage MT_ServerWelcome payload = DecodeWelcome payload"
| "DecodeServerMessage MT_RoomListResponse payload = DecodeRoomList payload"
| "DecodeServerMessage MT_RoomSnapshot payload = DecodeRoomSnapshot payload"
| "DecodeServerMessage MT_MatchTicket payload = DecodeMatchTicket payload"
| "DecodeServerMessage MT_ErrorResponse payload = DecodeErrorResponse payload"
| "DecodeServerMessage _ payload = Inl InvalidValue"

declare EncodeClientMessage.simps [simp del]

section \<open>Client messages\<close>

lemma bool_u8_simps [simp]: "\<not> 1 < bool_u8 b" "bool_u8 b = 1 \<longleftrightarrow> b"
  by (auto simp: bool_u8_def)

lemma not_1_less_u8: "\<not> 1 < (v :: u8) \<longleftrightarrow> v = 0 \<or> v = 1"
proof
  assume "\<not> 1 < v"
  then have "unat v \<le> 1" by (simp add: word_less_nat_alt)
  then have "unat v = unat (0 :: u8) \<or> unat v = unat (1 :: u8)" by (simp add: le_Suc_eq)
  then show "v = 0 \<or> v = 1" by (metis unsigned_word_eqI)
qed auto

lemma bool_u8_values [simp]: "bool_u8 False = 0" "bool_u8 True = 1"
  by (simp_all add: bool_u8_def)

lemma ReadClientRequestId_bytes [read_write]:
  "q \<noteq> 0 \<Longrightarrow> ReadClientRequestId (reader_at pre (le_bytes 4 q @ suf))
     = (Some q, reader_at (pre @ le_bytes 4 q) suf)"
  "q \<noteq> 0 \<Longrightarrow> ReadClientRequestId (reader_at pre (le_bytes 4 q))
     = (Some q, reader_at (pre @ le_bytes 4 q) [])"
  by (simp_all add: ReadClientRequestId_def read_write)

lemma ReadClientRequestId_SomeD:
  assumes "ReadClientRequestId (reader_at pre suf) = (Some q, r)"
  shows "q \<noteq> 0 \<and> (\<exists>suf'. suf = le_bytes 4 q @ suf' \<and> r = reader_at (pre @ le_bytes 4 q) suf')"
  using assms u32.read_SomeD [of pre suf q r]
  by (auto simp: ReadClientRequestId_def split: prod.splits if_splits)

lemma DecodeClientMessage_Encode:
  "EncodeClientMessage m = Inr e \<Longrightarrow> DecodeClientMessage (em_type e) (em_payload e) = Inr m"
  by (cases m)
     (auto simp: EncodeClientMessage.simps Let_def EncodeRequestPayload_def DecodeRequestOnly_def
        DecodeJoinRoom_def DecodeSetReady_def ByteReader_reader_at read_write split: if_splits)

lemma DecodeRequestOnly_InrD:
  assumes "DecodeRequestOnly f payload = Inr m"
  shows "\<exists>q. q \<noteq> 0 \<and> m = f q \<and> payload = le_bytes 4 q"
  using assms ReadClientRequestId_SomeD [of "[]" payload]
  by (fastforce simp: DecodeRequestOnly_def ByteReader_reader_at
      split: prod.splits option.splits)

lemma DecodeJoinRoom_InrD:
  assumes "DecodeJoinRoom payload = Inr m"
  shows "\<exists>q v. q \<noteq> 0 \<and> m = JoinRoomRequest q (RoomId v) \<and> payload = le_bytes 4 q @ le_bytes 4 v"
  using assms
  by (auto simp: DecodeJoinRoom_def ByteReader_reader_at
      split: prod.splits option.splits dest!: ReadClientRequestId_SomeD u32.read_SomeD)

lemma DecodeSetReady_InrD:
  assumes "DecodeSetReady payload = Inr m"
  shows "\<exists>q b. q \<noteq> 0 \<and> m = SetReadyRequest q b \<and> payload = le_bytes 4 q @ [bool_u8 b]"
  using assms
  by (auto simp: DecodeSetReady_def ByteReader_reader_at not_1_less_u8 ex_bool_eq
      split: prod.splits option.splits if_splits
      dest!: ReadClientRequestId_SomeD u8.read_SomeD)

lemmas client_decode_InrD = DecodeRequestOnly_InrD DecodeJoinRoom_InrD DecodeSetReady_InrD

lemma EncodeClientMessage_Decode:
  "DecodeClientMessage t payload = Inr m \<Longrightarrow>
     EncodeClientMessage m = Inr \<lparr>em_type = t, em_payload = payload\<rparr>"
  by (cases t)
     (auto simp: EncodeClientMessage.simps EncodeRequestPayload_def read_write
        dest!: client_decode_InrD)

interpretation client_codec: strict_codec EncodeClientMessage
    "\<lambda>e. DecodeClientMessage (em_type e) (em_payload e)" "\<lambda>m. m" "\<lambda>_. True"
  by unfold_locales (simp_all add: DecodeClientMessage_Encode EncodeClientMessage_Decode)

section \<open>Server messages\<close>

text \<open>What arrives: the lists that the encoder sorts come sorted.\<close>

fun canon_server :: "server_message \<Rightarrow> server_message" where
  "canon_server (RoomListResponse q rooms) = RoomListResponse q (sort_key rs_room rooms)"
| "canon_server (RoomSnapshot s) = RoomSnapshot (s\<lparr>sn_members := sort_key mv_player (sn_members s)\<rparr>)"
| "canon_server m = m"

fun server_wf :: "server_message \<Rightarrow> bool" where
  "server_wf (MatchTicket t) = opaque_wf (mt_ticket t)"
| "server_wf _ = True"

definition summary_bytes :: "room_summary \<Rightarrow> byte list" where
  "summary_bytes room = le_bytes 4 (idval (rs_room room)) @ [rs_players room, rs_capacity room]"

definition member_bytes :: "room_member_view \<Rightarrow> byte list" where
  "member_bytes m = le_bytes 4 (idval (mv_player m)) @ [bool_u8 (mv_ready m)]"

lemma fold_write_items:
  assumes "\<And>x w. write x w = w @ enc x"
  shows "fold write xs w = w @ concat (map enc xs)"
  by (induction xs arbitrary: w) (simp_all add: assms)

lemma fold_WriteSummary [read_write]: "fold WriteSummary rooms w = w @ concat (map summary_bytes rooms)"
  by (rule fold_write_items) (simp add: WriteSummary_def summary_bytes_def read_write)

lemma fold_WriteMember [read_write]: "fold WriteMember members w = w @ concat (map member_bytes members)"
  by (rule fold_write_items) (simp add: WriteMember_def member_bytes_def read_write)

lemma ReadSummary_bytes:
  "valid_summary x \<Longrightarrow>
     ReadSummary (reader_at pre (summary_bytes x @ suf)) = Inr (x, reader_at (pre @ summary_bytes x) suf)"
  by (cases x, cases "rs_room x")
     (simp add: ReadSummary_def summary_bytes_def valid_summary_def read_write)

lemma ReadMember_bytes:
  "ReadMember (reader_at pre (member_bytes x @ suf)) = Inr (x, reader_at (pre @ member_bytes x) suf)"
  by (cases x, cases "mv_player x") (simp add: ReadMember_def member_bytes_def read_write)

lemma read_summaries:
  "list_all valid_summary rooms \<Longrightarrow>
     read_items ReadSummary (length rooms) (reader_at pre (concat (map summary_bytes rooms)))
       = Inr (rooms, reader_at (pre @ concat (map summary_bytes rooms)) [])"
  using read_items_bytes [of rooms ReadSummary summary_bytes pre "[]"]
  by (simp add: ReadSummary_bytes list_all_iff)

lemma read_members:
  "read_items ReadMember (length ms) (reader_at pre (concat (map member_bytes ms)))
       = Inr (ms, reader_at (pre @ concat (map member_bytes ms)) [])"
  using read_items_bytes [of ms ReadMember member_bytes pre "[]"]
  by (simp add: ReadMember_bytes)

lemma sort_key_sort_key: "sort_key f (sort_key f xs) = sort_key f xs"
  by (simp add: sort_key_id_if_sorted)

lemma decode_RoomList:
  assumes "EncodeRoomList q rooms = Inr e"
  shows "DecodeServerMessage (em_type e) (em_payload e)
      = Inr (RoomListResponse q (sort_key rs_room rooms))"
proof -
  let ?rooms = "sort_key rs_room rooms"
  from assms have len: "length rooms \<le> MaximumRooms" and ok: "list_all valid_summary ?rooms"
    and e: "e = \<lparr>em_type = MT_RoomListResponse, em_payload =
      le_bytes 4 q @ le_bytes 2 (of_nat (length ?rooms) :: u16) @ concat (map summary_bytes ?rooms)\<rparr>"
    by (auto simp: EncodeRoomList_def EncodeRequestPayload_def Let_def read_write list_all_iff
        split: if_splits)
  have "unat (of_nat (length rooms) :: u16) = length rooms"
    using len by (simp add: unat_of_nat lobby_constants)
  then show ?thesis
    using len ok read_summaries [of ?rooms]
    by (simp add: e DecodeRoomList_def ByteReader_reader_at read_write sort_key_sort_key)
qed

lemma decode_RoomSnapshot:
  assumes "EncodeRoomSnapshot s = Inr e"
  shows "DecodeServerMessage (em_type e) (em_payload e) = Inr (canon_server (RoomSnapshot s))"
proof -
  let ?ms = "sort_key mv_player (sn_members s)"
  from assms have len: "length (sn_members s) \<le> RoomCapacity"
    and e: "e = \<lparr>em_type = MT_RoomSnapshot, em_payload =
      le_bytes 4 (sn_requestId s) @ le_bytes 4 (idval (sn_room s))
      @ [room_state_value (sn_state s)] @ le_bytes 4 (idval (sn_host s))
      @ [of_nat (length ?ms)] @ concat (map member_bytes ?ms)\<rparr>"
    by (auto simp: EncodeRoomSnapshot_def EncodeRequestPayload_def Let_def read_write
        split: if_splits)
  have "unat (of_nat (length (sn_members s)) :: u8) = length (sn_members s)"
    using len by (simp add: unat_of_nat lobby_constants)
  then show ?thesis
    using len read_members [of ?ms]
    by (cases s, cases "sn_room s", cases "sn_host s")
       (simp add: e DecodeRoomSnapshot_def ByteReader_reader_at read_write
          room_state.of_to sort_key_sort_key)
qed

lemma decode_MatchTicket:
  assumes "EncodeMatchTicket t = Inr e" and "opaque_wf (mt_ticket t)"
  shows "DecodeServerMessage (em_type e) (em_payload e) = Inr (MatchTicket t)"
proof -
  from assms(1) have ok: "IsValidTicket t"
    by (simp add: EncodeMatchTicket_def split: if_splits)
  then have host: "length (mt_host t) \<le> 255"
    by (simp add: IsValidTicket_def IsVisibleAsciiHost_length)
  with assms(1) ok have e: "e = \<lparr>em_type = MT_MatchTicket, em_payload =
      le_bytes 4 (mt_requestId t) @ le_bytes 8 (idval (mt_match t)) @ idval (mt_ticket t)
      @ string8_bytes (mt_host t) @ le_bytes 2 (mt_tcpPort t) @ le_bytes 2 (mt_udpPort t)
      @ le_bytes 2 (mt_expiresInSeconds t)\<rparr>"
    by (simp add: EncodeMatchTicket_def Let_def read_write)
  have "length (idval (mt_ticket t)) = MatchTicketBytes"
    using assms(2) by (simp add: opaque_wf_def)
  then show ?thesis
    using host ok
    by (cases t, cases "mt_match t")
       (simp add: e DecodeMatchTicket_def ByteReader_reader_at read_write)
qed

lemma DecodeServerMessage_Encode:
  assumes "server_wf m" and "EncodeServerMessage m = Inr e"
  shows "DecodeServerMessage (em_type e) (em_payload e) = Inr (canon_server m)"
proof (cases m)
  case (ServerWelcome q p)
  with assms show ?thesis
    by (cases p) (auto simp: EncodeRequestPayload_def DecodeWelcome_def ByteReader_reader_at read_write)
next
  case (ErrorResponse q err)
  with assms show ?thesis
    by (auto simp: EncodeRequestPayload_def DecodeErrorResponse_def ByteReader_reader_at
        read_write lobby_error.of_to)
qed (use assms decode_RoomList decode_RoomSnapshot decode_MatchTicket in auto)

interpretation server_codec: message_codec EncodeServerMessage
    "\<lambda>e. DecodeServerMessage (em_type e) (em_payload e)" canon_server server_wf
  by unfold_locales (rule DecodeServerMessage_Encode)

text \<open>When the server's encoder throws.\<close>

fun encodable :: "server_message \<Rightarrow> bool" where
  "encodable (RoomListResponse q rooms) =
     (length rooms \<le> MaximumRooms \<and> list_all valid_summary rooms)"
| "encodable (RoomSnapshot s) = (length (sn_members s) \<le> RoomCapacity)"
| "encodable (MatchTicket t) = IsValidTicket t"
| "encodable _ = True"

lemma EncodeServerMessage_total_iff: "(\<exists>e. EncodeServerMessage m = Inr e) \<longleftrightarrow> encodable m"
proof (cases m)
  case (MatchTicket t)
  then show ?thesis
    by (auto simp: EncodeMatchTicket_def Let_def read_write IsValidTicket_def IsVisibleAsciiHost_length)
qed (auto simp: EncodeRoomList_def EncodeRoomSnapshot_def Let_def
       room_state.of_to lobby_error.of_to)

lemma EncodeServerMessage_throws: "EncodeServerMessage m = Inl x \<Longrightarrow> x = Invalid_argument"
proof (cases m)
  case (MatchTicket t)
  moreover assume "EncodeServerMessage m = Inl x"
  ultimately show ?thesis
    by (auto simp: EncodeMatchTicket_def Let_def read_write IsValidTicket_def
        IsVisibleAsciiHost_length split: if_splits)
qed (auto simp: EncodeRoomList_def EncodeRoomSnapshot_def Let_def split: if_splits)

text \<open>The bytes of any encodable message fit in a TCP frame.\<close>

lemma length_concat_const: "(\<And>x. length (enc x) = k) \<Longrightarrow> length (concat (map enc xs)) = k * length xs"
  by (induction xs) auto

lemma EncodeServerMessage_fits:
  assumes "server_wf m" and "EncodeServerMessage m = Inr e"
  shows "length (em_payload e) \<le> MaxTcpPayloadBytes"
proof (cases m)
  case (RoomListResponse q rooms)
  with assms show ?thesis
    by (auto simp: EncodeRoomList_def EncodeRequestPayload_def Let_def read_write
        length_concat_const [of summary_bytes 6] summary_bytes_def lobby_constants
        MaxTcpPayloadBytes_def MaxTcpFrameBytes_def TcpFrameHeaderBytes_def split: if_splits)
next
  case (RoomSnapshot s)
  with assms show ?thesis
    by (auto simp: EncodeRoomSnapshot_def EncodeRequestPayload_def Let_def read_write
        length_concat_const [of member_bytes 5] member_bytes_def lobby_constants
        MaxTcpPayloadBytes_def MaxTcpFrameBytes_def TcpFrameHeaderBytes_def split: if_splits)
next
  case (MatchTicket t)
  with assms have "length (mt_host t) \<le> 255"
    by (auto simp: EncodeMatchTicket_def IsValidTicket_def IsVisibleAsciiHost_length split: if_splits)
  with MatchTicket assms show ?thesis
    by (auto simp: EncodeMatchTicket_def Let_def read_write string8_bytes_def opaque_wf_def
        lobby_constants MaxTcpPayloadBytes_def MaxTcpFrameBytes_def TcpFrameHeaderBytes_def
        split: if_splits)
qed (use assms in \<open>auto simp: EncodeRequestPayload_def read_write
       MaxTcpPayloadBytes_def MaxTcpFrameBytes_def TcpFrameHeaderBytes_def split: if_splits\<close>)

end
