(* ===== verification/LobbyInvariant.thy ===== *)
theory LobbyInvariant
  imports LobbyService LobbyCodec
begin

text \<open>
  What is true of the lobby between two events: its seven maps agree with each other, its
  counters are ahead of every identifier in use, and a live ticket belongs to a reservation
  or a match that exists. The lemmas of this theory are about the kinds of change the
  handlers make to the maps; LobbyHandlers applies them to the handlers.
\<close>

section \<open>Counters\<close>

text \<open>An identifier that was taken from the counter: not zero, and smaller than the next.\<close>

definition below :: "'a::len word option \<Rightarrow> 'a word \<Rightarrow> bool" where
  "below counter v \<longleftrightarrow> v \<noteq> 0 \<and> (case counter of None \<Rightarrow> True | Some n \<Rightarrow> v < n)"

definition counter_ok :: "'a::len word option \<Rightarrow> bool" where
  "counter_ok counter \<longleftrightarrow> counter \<noteq> Some 0"

lemma counter_ok_Initial [simp]: "counter_ok (InitialCounter v)"
  by (simp add: counter_ok_def InitialCounter_def)

lemma TakeNext_None: "TakeNext counter = (None, next) \<Longrightarrow> counter = None \<and> next = None"
  by (auto simp: TakeNext_def split: option.splits)

lemma TakeNext_Some: "TakeNext counter = (Some v, next) \<Longrightarrow> counter = Some v"
  by (auto simp: TakeNext_def split: option.splits)

lemma counter_ok_Take: "counter_ok counter \<Longrightarrow> counter_ok (snd (TakeNext counter))"
  by (cases counter) (auto simp: counter_ok_def TakeNext_def eq_neg_iff_add_eq_0)

lemma below_mono: "below counter v \<Longrightarrow> below (snd (TakeNext counter)) v"
  by (auto simp: below_def TakeNext_def word_less_Suc_trans split: option.splits)

lemma below_taken: "counter_ok (Some v) \<Longrightarrow> below (snd (TakeNext (Some v))) v"
  by (auto simp: below_def counter_ok_def TakeNext_def word_less_Suc)

lemma not_below_next: "\<not> below (Some v) v"
  by (simp add: below_def)

lemma below_Take_cases: "below (Some n) v \<Longrightarrow> v \<noteq> n"
  by (auto simp: below_def)

section \<open>The invariant\<close>

text \<open>Who is connected: the two directions of the players' connections.\<close>

definition conn_inv ::
    "(connection_id \<rightharpoonup> connection_state) \<Rightarrow> (player_id \<rightharpoonup> connection_id)
      \<Rightarrow> u64 option \<Rightarrow> u32 option \<Rightarrow> bool" where
  "conn_inv conns ptoc nextC nextP \<longleftrightarrow>
     (\<forall>p c. ptoc p = Some c \<longleftrightarrow> (\<exists>st. conns c = Some st \<and> cs_player st = Some p))
     \<and> (\<forall>c \<in> dom conns. below nextC (idval c)) \<and> (\<forall>p \<in> dom ptoc. below nextP (idval p))
     \<and> counter_ok nextC \<and> counter_ok nextP"

text \<open>Who is in which room: the rooms' members and the players' rooms.\<close>

definition room_inv ::
    "(room_id \<rightharpoonup> room) \<Rightarrow> (player_id \<rightharpoonup> room_id) \<Rightarrow> u32 option \<Rightarrow> u32 option \<Rightarrow> bool" where
  "room_inv rooms ptor nextR nextP \<longleftrightarrow>
     (\<forall>rid r. rooms rid = Some r \<longrightarrow> room_wf r \<and> r_id r = rid \<and> below nextR (idval rid))
     \<and> (\<forall>p rid. ptor p = Some rid \<longleftrightarrow> (\<exists>r. rooms rid = Some r \<and> p \<in> room_players r))
     \<and> (\<forall>p \<in> dom ptor. below nextP (idval p)) \<and> counter_ok nextR"

text \<open>
  What a room waits for or plays: a reservation for each room that is starting, a match for
  each room that is in one, and match identifiers that are not shared.
\<close>

definition pending_inv ::
    "(room_id \<rightharpoonup> room) \<Rightarrow> (reservation_id \<rightharpoonup> reserve_match_action)
      \<Rightarrow> (room_id \<rightharpoonup> reservation_id) \<Rightarrow> u64 option \<Rightarrow> u64 option \<Rightarrow> bool" where
  "pending_inv rooms pending rtor nextM nextV \<longleftrightarrow>
     (\<forall>rid v. rtor rid = Some v \<longleftrightarrow> (\<exists>a. pending v = Some a \<and> ra_room a = rid))
     \<and> (\<forall>v a. pending v = Some a \<longrightarrow>
          ra_reservation a = v \<and> below nextV (idval v) \<and> below nextM (idval (ra_match a))
          \<and> list_all opaque_wf (participant_tickets a)
          \<and> (\<exists>r. rooms (ra_room a) = Some r \<and> r_state r = Starting
               \<and> map rp_player (ra_participants a) = Room_Players r \<and> ra_requester a = r_host r))
     \<and> (\<forall>rid r. rooms rid = Some r \<and> r_state r = Starting \<longrightarrow> rid \<in> dom rtor)
     \<and> (\<forall>v v' a a'. pending v = Some a \<and> pending v' = Some a' \<and> ra_match a = ra_match a' \<longrightarrow> v = v')
     \<and> counter_ok nextM \<and> counter_ok nextV"

definition active_inv ::
    "(room_id \<rightharpoonup> room) \<Rightarrow> (reservation_id \<rightharpoonup> reserve_match_action)
      \<Rightarrow> (match_id \<rightharpoonup> active_match) \<Rightarrow> u64 option \<Rightarrow> bool" where
  "active_inv rooms pending active nextM \<longleftrightarrow>
     (\<forall>m am. active m = Some am \<longrightarrow>
        below nextM (idval m) \<and> idval (am_worker am) \<noteq> 0
        \<and> (\<exists>r. rooms (am_room am) = Some r \<and> r_state r = InMatch))
     \<and> (\<forall>rid r. rooms rid = Some r \<and> r_state r = InMatch \<longrightarrow>
          (\<exists>m am. active m = Some am \<and> am_room am = rid))
     \<and> (\<forall>m m' am am'. active m = Some am \<and> active m' = Some am' \<and> am_room am = am_room am' \<longrightarrow> m = m')
     \<and> (\<forall>v a. pending v = Some a \<longrightarrow> ra_match a \<notin> dom active)"

text \<open>A ticket is live only for a participant of a pending reservation or an active match.\<close>

definition ticket_inv ::
    "(match_ticket_value \<rightharpoonup> ticket_record) \<Rightarrow> (reservation_id \<rightharpoonup> reserve_match_action)
      \<Rightarrow> (match_id \<rightharpoonup> active_match) \<Rightarrow> bool" where
  "ticket_inv tickets pending active \<longleftrightarrow>
     (\<forall>t r. tickets t = Some r \<longrightarrow>
        (\<exists>v a. pending v = Some a \<and> ra_match a = tr_match r \<and> t \<in> set (participant_tickets a))
        \<or> (\<exists>am. active (tr_match r) = Some am \<and> t \<in> set (am_tickets am)))"

definition maps_wf :: "lobby \<Rightarrow> bool" where
  "maps_wf s \<longleftrightarrow>
     om_wf (lb_connections s) \<and> om_wf (lb_playerToConnection s) \<and> om_wf (lb_playerToRoom s)
     \<and> om_wf (lb_rooms s) \<and> om_wf (lb_pending s) \<and> om_wf (lb_roomToReservation s)
     \<and> om_wf (lb_activeMatches s) \<and> registry_wf (lb_tickets s)
     \<and> length (lb_rooms s) \<le> lb_maximumRooms s \<and> lb_maximumRooms s \<le> MaximumRooms
     \<and> counter_ok (lb_nextJoinOrdinal s)
     \<and> (\<forall>i t. tg_source (lb_tickets s) i = Some t \<longrightarrow> opaque_wf t)"

definition lobby_inv :: "lobby \<Rightarrow> bool" where
  "lobby_inv s \<longleftrightarrow>
     maps_wf s
     \<and> conn_inv (map_of (lb_connections s)) (map_of (lb_playerToConnection s))
         (lb_nextConnection s) (lb_nextPlayer s)
     \<and> room_inv (map_of (lb_rooms s)) (map_of (lb_playerToRoom s)) (lb_nextRoom s) (lb_nextPlayer s)
     \<and> pending_inv (map_of (lb_rooms s)) (map_of (lb_pending s)) (map_of (lb_roomToReservation s))
         (lb_nextMatch s) (lb_nextReservation s)
     \<and> active_inv (map_of (lb_rooms s)) (map_of (lb_pending s)) (map_of (lb_activeMatches s))
         (lb_nextMatch s)
     \<and> ticket_inv (live (lb_tickets s)) (map_of (lb_pending s)) (map_of (lb_activeMatches s))"

section \<open>Changes to the connections\<close>

lemma conn_inv_open:
  assumes "conn_inv conns ptoc (Some v) nextP"
  shows "conn_inv (conns(Ident v \<mapsto> \<lparr>cs_player = None, cs_lastRequestId = q\<rparr>)) ptoc
    (snd (TakeNext (Some v))) nextP"
proof -
  have "Ident v \<notin> dom conns"
    using assms not_below_next [of v] by (force simp: conn_inv_def)
  then have "\<And>p. ptoc p \<noteq> Some (Ident v)"
    using assms by (auto simp: conn_inv_def)
  then show ?thesis
    using assms below_taken [of v] counter_ok_Take [of "Some v"] below_mono [of "Some v"]
    by (auto simp: conn_inv_def)
qed

lemma conn_inv_request:
  assumes "conn_inv conns ptoc nextC nextP" and "conns c = Some st" and "cs_player st' = cs_player st"
  shows "conn_inv (conns(c \<mapsto> st')) ptoc nextC nextP"
  using assms by (auto simp: conn_inv_def)

lemma conn_inv_hello:
  assumes "conn_inv conns ptoc nextC (Some v)" and "conns c = Some st" and "cs_player st = None"
  shows "conn_inv (conns(c \<mapsto> st\<lparr>cs_player := Some (Ident v)\<rparr>)) (ptoc(Ident v \<mapsto> c)) nextC
    (snd (TakeNext (Some v))) \<and> Ident v \<notin> dom ptoc"
proof -
  have new: "Ident v \<notin> dom ptoc"
    using assms not_below_next [of v] by (force simp: conn_inv_def)
  then have "\<And>c st. conns c = Some st \<Longrightarrow> cs_player st \<noteq> Some (Ident v)"
    using assms by (fastforce simp: conn_inv_def)
  moreover have "\<And>p. ptoc p \<noteq> Some c"
    using assms by (auto simp: conn_inv_def)
  ultimately show ?thesis
    using assms new below_taken [of v] counter_ok_Take [of "Some v"] below_mono [of "Some v"]
    by (auto simp: conn_inv_def)
qed

lemma conn_inv_player: "conn_inv conns ptoc nextC nextP \<Longrightarrow> conns c = Some st \<Longrightarrow>
    cs_player st = Some p \<Longrightarrow> ptoc p = Some c"
  by (auto simp: conn_inv_def)

lemma conn_inv_close:
  assumes inv: "conn_inv conns ptoc nextC nextP" and "conns c = Some st" and "cs_player st = Some p"
  shows "conn_inv (conns(c := None)) (ptoc(p := None)) nextC nextP"
proof -
  have "cs_player st' \<noteq> Some p" if "conns c' = Some st'" "c' \<noteq> c" for c' st'
    using conn_inv_player [OF inv that(1)] conn_inv_player [OF assms] that(2) by auto
  then show ?thesis using assms by (auto simp: conn_inv_def)
qed

lemma conn_inv_close_stranger:
  assumes "conn_inv conns ptoc nextC nextP" and "conns c = Some st" and "cs_player st = None"
  shows "conn_inv (conns(c := None)) ptoc nextC nextP"
  using assms by (auto simp: conn_inv_def)

lemma conn_inv_open_player: "conn_inv conns ptoc nextC nextP \<Longrightarrow> ptoc p = Some c \<Longrightarrow> c \<in> dom conns"
  by (auto simp: conn_inv_def)

lemma conn_inv_inj: "conn_inv conns ptoc nextC nextP \<Longrightarrow> ptoc p = Some c \<Longrightarrow> ptoc p' = Some c \<Longrightarrow> p = p'"
  unfolding conn_inv_def by (metis option.inject)

section \<open>Changes to the rooms\<close>

lemma room_inv_update:
  assumes "room_inv rooms ptor nextR nextP" and "rooms rid = Some r"
    and "room_wf r'" and "r_id r' = r_id r" and "room_players r' = room_players r"
  shows "room_inv (rooms(rid \<mapsto> r')) ptor nextR nextP"
  using assms by (auto simp: room_inv_def)

lemma room_inv_player: "room_inv rooms ptor nextR nextP \<Longrightarrow> ptor p = Some rid \<Longrightarrow>
    \<exists>r. rooms rid = Some r \<and> p \<in> room_players r"
  by (simp add: room_inv_def)

lemma room_inv_wf: "room_inv rooms ptor nextR nextP \<Longrightarrow> rooms rid = Some r \<Longrightarrow> room_wf r"
  by (simp add: room_inv_def)

lemma room_inv_unique:
  assumes "room_inv rooms ptor nextR nextP" and "rooms rid = Some r" and "p \<in> room_players r"
  shows "ptor p = Some rid"
  using assms by (auto simp: room_inv_def)

lemma room_inv_member_below:
  assumes "room_inv rooms ptor nextR nextP" and "rooms rid = Some r" and "p \<in> room_players r"
  shows "below nextP (idval p)"
proof -
  have "p \<in> dom ptor" using room_inv_unique [OF assms] by blast
  then show ?thesis using assms(1) unfolding room_inv_def by blast
qed

lemma room_inv_no_room:
  assumes "room_inv rooms ptor nextR nextP" and "ptor p = None" and "rooms rid = Some r"
  shows "p \<notin> room_players r"
  using room_inv_unique [OF assms(1,3)] assms(2) by auto

lemma room_inv_create:
  assumes "room_inv rooms ptor (Some v) nextP" and "ptor p = None" and "below nextP (idval p)"
  shows "room_inv (rooms(Ident v \<mapsto> Room_Create (Ident v) p q)) (ptor(p \<mapsto> Ident v))
      (snd (TakeNext (Some v))) nextP \<and> Ident v \<notin> dom rooms"
proof -
  have "Ident v \<notin> dom rooms"
    using assms not_below_next [of v] by (fastforce simp: room_inv_def)
  moreover have "\<And>p'. ptor p' \<noteq> Some (Ident v)"
    using calculation assms by (auto simp: room_inv_def)
  moreover have "\<And>rid r. rooms rid = Some r \<Longrightarrow> p \<notin> room_players r"
    using room_inv_no_room [OF assms(1,2)] .
  ultimately show ?thesis
    using assms below_taken [of v] counter_ok_Take [of "Some v"] below_mono [of "Some v"]
    by (auto simp: room_inv_def)
qed

lemma room_inv_join:
  assumes "room_inv rooms ptor nextR nextP" and "rooms rid = Some r" and "ptor p = None"
    and "room_wf r'" and "r_id r' = r_id r" and "room_players r' = insert p (room_players r)"
    and "below nextP (idval p)"
  shows "room_inv (rooms(rid \<mapsto> r')) (ptor(p \<mapsto> rid)) nextR nextP"
proof -
  have "\<And>rid r. rooms rid = Some r \<Longrightarrow> p \<notin> room_players r"
    using room_inv_no_room [OF assms(1,3)] .
  then show ?thesis using assms by (auto simp: room_inv_def)
qed

lemma room_inv_leave:
  assumes inv: "room_inv rooms ptor nextR nextP" and "rooms rid = Some r" and "ptor p = Some rid"
    and "room_wf r'" and "r_id r' = r_id r" and "room_players r' = room_players r - {p}"
  shows "room_inv (rooms(rid \<mapsto> r')) (ptor(p := None)) nextR nextP"
proof -
  have "p \<notin> room_players r'" if "rooms x = Some r'" "x \<noteq> rid" for x r'
    using room_inv_unique [OF inv that(1), of p] that(2) assms(3) by auto
  then show ?thesis using assms by (auto simp: room_inv_def)
qed

lemma room_inv_drop:
  assumes inv: "room_inv rooms ptor nextR nextP" and r: "rooms rid = Some r"
    and ptor': "\<And>p. ptor' p = (if p \<in> room_players r then None else ptor p)"
  shows "room_inv (rooms(rid := None)) ptor' nextR nextP"
proof -
  have "ptor' p = Some x \<longleftrightarrow> (\<exists>r'. (rooms(rid := None)) x = Some r' \<and> p \<in> room_players r')" for p x
    using room_inv_unique [OF inv r, of p] room_inv_unique [OF inv, of x _ p]
      room_inv_player [OF inv, of p x] r
    by (auto simp: ptor')
  moreover have "below nextP (idval p)" if "p \<in> dom ptor'" for p
  proof -
    have "p \<in> dom ptor" using that by (auto simp: ptor' split: if_splits)
    then show ?thesis using inv unfolding room_inv_def by blast
  qed
  ultimately show ?thesis using inv by (simp add: room_inv_def)
qed

section \<open>Changes to reservations and matches\<close>

text \<open>Only starting rooms matter to reservations, and only rooms in a match to matches.\<close>

definition same_in_state :: "room_state \<Rightarrow> (room_id \<rightharpoonup> room) \<Rightarrow> (room_id \<rightharpoonup> room) \<Rightarrow> bool" where
  "same_in_state st rooms rooms' \<longleftrightarrow>
     (\<forall>x r. r_state r = st \<longrightarrow> (rooms x = Some r \<longleftrightarrow> rooms' x = Some r))"

lemma pending_inv_cong:
  "same_in_state Starting rooms rooms' \<Longrightarrow>
     pending_inv rooms pending rtor m v = pending_inv rooms' pending rtor m v"
  unfolding pending_inv_def same_in_state_def by blast

lemma active_inv_cong:
  "same_in_state InMatch rooms rooms' \<Longrightarrow>
     active_inv rooms pending active m = active_inv rooms' pending active m"
  unfolding active_inv_def same_in_state_def by blast

lemma same_in_state_update:
  assumes "\<And>r. rooms x = Some r \<Longrightarrow> r_state r \<noteq> st" and "r_state r' \<noteq> st"
  shows "same_in_state st rooms (rooms(x \<mapsto> r'))"
  using assms by (auto simp: same_in_state_def)

lemma same_in_state_remove:
  assumes "\<And>r. rooms x = Some r \<Longrightarrow> r_state r \<noteq> st"
  shows "same_in_state st rooms (rooms(x := None))"
  using assms by (auto simp: same_in_state_def)

lemma pending_inv_take:
  assumes "pending_inv rooms pending rtor m v"
  shows "pending_inv rooms pending rtor (snd (TakeNext m)) (snd (TakeNext v))"
  using assms below_mono [of m] below_mono [of v] counter_ok_Take [of m] counter_ok_Take [of v]
  by (simp add: pending_inv_def)

lemma active_inv_take:
  assumes "active_inv rooms pending active m"
  shows "active_inv rooms pending active (snd (TakeNext m))"
  using assms below_mono [of m] by (simp add: active_inv_def)

lemma pending_inv_action:
  assumes "pending_inv rooms pending rtor m v" and "pending w = Some a"
  shows "ra_reservation a = w" and "rtor (ra_room a) = Some w"
    and "list_all opaque_wf (participant_tickets a)"
    and "\<exists>r. rooms (ra_room a) = Some r \<and> r_state r = Starting
      \<and> map rp_player (ra_participants a) = Room_Players r \<and> ra_requester a = r_host r"
  using assms by (auto simp: pending_inv_def)

lemma pending_inv_rtor:
  assumes "pending_inv rooms pending rtor m v" and "rtor rid = Some w"
  shows "\<exists>a. pending w = Some a \<and> ra_room a = rid"
  using assms by (auto simp: pending_inv_def)

lemma pending_inv_start:
  assumes inv: "pending_inv rooms pending rtor (Some m) (Some v)"
    and room: "rooms rid = Some r" "r_state r = Waiting"
    and a: "ra_reservation a = Ident v" "ra_room a = rid" "ra_match a = Ident m"
      "list_all opaque_wf (participant_tickets a)"
      "map rp_player (ra_participants a) = Room_Players r" "ra_requester a = r_host r"
  shows "pending_inv (rooms(rid \<mapsto> r\<lparr>r_state := Starting\<rparr>)) (pending(Ident v \<mapsto> a))
      (rtor(rid \<mapsto> Ident v)) (snd (TakeNext (Some m))) (snd (TakeNext (Some v)))"
    and "Ident v \<notin> dom pending" and "rid \<notin> dom rtor"
proof -
  show new: "Ident v \<notin> dom pending"
    using inv not_below_next [of v] by (force simp: pending_inv_def)
  have other: "ra_room a' \<noteq> rid" "ra_match a' \<noteq> Ident m" if "pending w = Some a'" for w a'
    using inv room that not_below_next [of m] by (force simp: pending_inv_def)+
  show norid: "rid \<notin> dom rtor"
  proof
    assume "rid \<in> dom rtor"
    then obtain w where "rtor rid = Some w" by blast
    from pending_inv_rtor [OF inv this] show False using other(1) by blast
  qed
  let ?m = "snd (TakeNext (Some m))" and ?v = "snd (TakeNext (Some v))"
  have ok: "counter_ok (Some m)" "counter_ok (Some v)" using inv by (auto simp: pending_inv_def)
  have players: "Room_Players (r\<lparr>r_state := Starting\<rparr>) = Room_Players r"
    by (simp add: Room_Players_def)
  have rt: "(rtor(rid \<mapsto> Ident v)) x = Some w \<longleftrightarrow>
      (\<exists>b. (pending(Ident v \<mapsto> a)) w = Some b \<and> ra_room b = x)" for x w
  proof (cases "w = Ident v")
    case True
    then show ?thesis using inv new a(2) by (auto simp: pending_inv_def)
  next
    case False
    then show ?thesis using inv other(1) by (auto simp: pending_inv_def)
  qed
  have acts: "ra_reservation b = w \<and> below ?v (idval w) \<and> below ?m (idval (ra_match b))
      \<and> list_all opaque_wf (participant_tickets b)
      \<and> (\<exists>x. (rooms(rid \<mapsto> r\<lparr>r_state := Starting\<rparr>)) (ra_room b) = Some x \<and> r_state x = Starting
           \<and> map rp_player (ra_participants b) = Room_Players x \<and> ra_requester b = r_host x)"
    if "(pending(Ident v \<mapsto> a)) w = Some b" for w b
  proof (cases "w = Ident v")
    case True
    with that a players below_taken [OF ok(1)] below_taken [OF ok(2)] show ?thesis by simp
  next
    case False
    with that have "pending w = Some b" by simp
    with inv other(1) [OF this] below_mono [of "Some m"] below_mono [of "Some v"] show ?thesis
      by (auto simp: pending_inv_def)
  qed
  have starts: "x \<in> dom (rtor(rid \<mapsto> Ident v))"
    if "(rooms(rid \<mapsto> r\<lparr>r_state := Starting\<rparr>)) x = Some y \<and> r_state y = Starting" for x y
    using inv that by (auto simp: pending_inv_def split: if_splits)
  have matches: "w = w'" if "(pending(Ident v \<mapsto> a)) w = Some b"
      "(pending(Ident v \<mapsto> a)) w' = Some b'" "ra_match b = ra_match b'" for w w' b b'
    using inv that other(2) a(3) unfolding pending_inv_def
    by (metis fun_upd_apply option.inject)
  show "pending_inv (rooms(rid \<mapsto> r\<lparr>r_state := Starting\<rparr>)) (pending(Ident v \<mapsto> a))
      (rtor(rid \<mapsto> Ident v)) ?m ?v"
    unfolding pending_inv_def
    using rt acts starts matches counter_ok_Take [OF ok(1)] counter_ok_Take [OF ok(2)] by blast
qed

text \<open>The reservation ends and its room is no longer starting.\<close>

lemma pending_inv_end:
  assumes inv: "pending_inv rooms pending rtor m v" and w: "pending w = Some a"
    and st: "r_state r' \<noteq> Starting"
  shows "pending_inv (rooms(ra_room a \<mapsto> r')) (pending(w := None)) (rtor(ra_room a := None)) m v"
proof -
  have other: "ra_room b \<noteq> ra_room a" if "pending x = Some b" "x \<noteq> w" for x b
    using pending_inv_action(2) [OF inv w] pending_inv_action(2) [OF inv that(1)] that(2) by auto
  have "(rtor(ra_room a := None)) x = Some y \<longleftrightarrow>
      (\<exists>b. (pending(w := None)) y = Some b \<and> ra_room b = x)" for x y
    using inv w other by (cases "y = w") (auto simp: pending_inv_def)
  moreover have "x \<in> dom (rtor(ra_room a := None))"
    if "(rooms(ra_room a \<mapsto> r')) x = Some y \<and> r_state y = Starting" for x y
    using inv that st by (auto simp: pending_inv_def split: if_splits)
  moreover have "ra_reservation b = y \<and> below v (idval y) \<and> below m (idval (ra_match b))
      \<and> list_all opaque_wf (participant_tickets b)
      \<and> (\<exists>x. (rooms(ra_room a \<mapsto> r')) (ra_room b) = Some x \<and> r_state x = Starting
           \<and> map rp_player (ra_participants b) = Room_Players x \<and> ra_requester b = r_host x)"
    if "(pending(w := None)) y = Some b" for y b
    using that inv other [of y b] by (auto simp: pending_inv_def split: if_splits)
  moreover have "y = z" if "(pending(w := None)) y = Some b" "(pending(w := None)) z = Some b'"
      "ra_match b = ra_match b'" for y z b b'
    using inv that unfolding pending_inv_def by (metis fun_upd_apply option.distinct(1))
  moreover have "counter_ok m" "counter_ok v" using inv by (simp_all add: pending_inv_def)
  ultimately show ?thesis unfolding pending_inv_def by blast
qed

lemma active_inv_start:
  assumes inv: "active_inv rooms pending active (Some m)"
    and room: "rooms rid = Some r" "r_state r = Waiting" and "ra_match a = Ident m"
  shows "active_inv (rooms(rid \<mapsto> r\<lparr>r_state := Starting\<rparr>)) (pending(w \<mapsto> a)) active
    (snd (TakeNext (Some m)))"
proof -
  have "Ident m \<notin> dom active"
    using inv not_below_next [of m] by (force simp: active_inv_def)
  moreover have "same_in_state InMatch rooms (rooms(rid \<mapsto> r\<lparr>r_state := Starting\<rparr>))"
    by (rule same_in_state_update) (use room in auto)
  from active_inv_cong [OF this] have
    "active_inv (rooms(rid \<mapsto> r\<lparr>r_state := Starting\<rparr>)) pending active (snd (TakeNext (Some m)))"
    using active_inv_take [OF inv] by simp
  ultimately show ?thesis using assms(4) by (auto simp: active_inv_def)
qed

lemma active_inv_less_pending:
  assumes "active_inv rooms pending active m"
  shows "active_inv rooms (pending(w := None)) active m"
  using assms by (auto simp: active_inv_def)

lemma active_inv_match:
  assumes "active_inv rooms pending active m" and "rooms x = Some z" and "r_state z = InMatch"
  shows "\<exists>k y. active k = Some y \<and> am_room y = x"
  using assms unfolding active_inv_def by blast

lemma active_inv_mark:
  assumes inv: "active_inv rooms pending active m" and p: "pending_inv rooms pending rtor m v"
    and w: "pending w = Some a" and am: "am_room am = ra_room a" "idval (am_worker am) \<noteq> 0"
    and r': "r_state r' = InMatch"
  shows "active_inv (rooms(ra_room a \<mapsto> r')) (pending(w := None)) (active(ra_match a \<mapsto> am)) m"
    and "ra_match a \<notin> dom active"
proof -
  show new: "ra_match a \<notin> dom active" using inv w by (auto simp: active_inv_def)
  obtain r where r: "rooms (ra_room a) = Some r" "r_state r = Starting"
    using pending_inv_action(4) [OF p w] by blast
  have other: "am_room x \<noteq> ra_room a" if "active k = Some x" for k x
    using inv that r by (fastforce simp: active_inv_def)
  have "below m (idval k) \<and> idval (am_worker x) \<noteq> 0
      \<and> (\<exists>y. (rooms(ra_room a \<mapsto> r')) (am_room x) = Some y \<and> r_state y = InMatch)"
    if "(active(ra_match a \<mapsto> am)) k = Some x" for k x
    using that inv p w other [of k x] am r' by (auto simp: active_inv_def pending_inv_def split: if_splits)
  moreover have "\<exists>k y. (active(ra_match a \<mapsto> am)) k = Some y \<and> am_room y = x"
    if "(rooms(ra_room a \<mapsto> r')) x = Some z \<and> r_state z = InMatch" for x z
  proof (cases "x = ra_room a")
    case True
    then show ?thesis using am by (intro exI [of _ "ra_match a"] exI [of _ am]) simp
  next
    case False
    with that have "rooms x = Some z" "r_state z = InMatch" by simp_all
    then obtain k y where "active k = Some y" "am_room y = x"
      using active_inv_match [OF inv, of x z] by blast
    then show ?thesis using new by (intro exI [of _ k] exI [of _ y]) auto
  qed
  moreover have "k = k'" if "(active(ra_match a \<mapsto> am)) k = Some x"
      "(active(ra_match a \<mapsto> am)) k' = Some x'" "am_room x = am_room x'" for k k' x x'
    using that inv other am unfolding active_inv_def by (metis fun_upd_apply option.inject)
  moreover have "ra_match b \<notin> dom (active(ra_match a \<mapsto> am))"
    if "(pending(w := None)) y = Some b" for y b
    using that inv p w unfolding active_inv_def pending_inv_def
    by (metis domIff fun_upd_apply option.distinct(1))
  ultimately show "active_inv (rooms(ra_room a \<mapsto> r')) (pending(w := None))
      (active(ra_match a \<mapsto> am)) m"
    unfolding active_inv_def by blast
qed

lemma active_inv_finish:
  assumes inv: "active_inv rooms pending active m" and "active k = Some am"
  shows "active_inv (rooms(am_room am := None)) pending (active(k := None)) m"
proof -
  have other: "am_room x \<noteq> am_room am" if "active k' = Some x" "k' \<noteq> k" for k' x
    using inv that assms(2) unfolding active_inv_def by metis
  have "\<exists>k' y. (active(k := None)) k' = Some y \<and> am_room y = x"
    if "(rooms(am_room am := None)) x = Some z \<and> r_state z = InMatch" for x z
  proof -
    from that have x: "x \<noteq> am_room am" "rooms x = Some z" "r_state z = InMatch"
      by (auto split: if_splits)
    then obtain k' y where "active k' = Some y" "am_room y = x"
      using active_inv_match [OF inv, of x z] by blast
    with x assms(2) show ?thesis by (intro exI [of _ k'] exI [of _ y]) auto
  qed
  moreover have "below m (idval k') \<and> idval (am_worker x) \<noteq> 0
      \<and> (\<exists>r. (rooms(am_room am := None)) (am_room x) = Some r \<and> r_state r = InMatch)"
    if "(active(k := None)) k' = Some x" for k' x
    using that inv other [of k' x] by (auto simp: active_inv_def split: if_splits)
  moreover have "k1 = k2" if "(active(k := None)) k1 = Some x" "(active(k := None)) k2 = Some y"
      "am_room x = am_room y" for k1 k2 x y
    using that inv unfolding active_inv_def by (metis fun_upd_apply option.distinct(1))
  moreover have "ra_match b \<notin> dom (active(k := None))" if "pending v = Some b" for v b
    using that inv by (auto simp: active_inv_def)
  ultimately show ?thesis unfolding active_inv_def by blast
qed

lemma active_inv_room:
  assumes "active_inv rooms pending active m" and "active k = Some am"
  shows "\<exists>r. rooms (am_room am) = Some r \<and> r_state r = InMatch"
  using assms by (auto simp: active_inv_def)

section \<open>Changes to the tickets\<close>

lemma ticket_inv_less:
  assumes "ticket_inv tickets pending active" and "\<And>t r. tickets' t = Some r \<Longrightarrow> tickets t = Some r"
  shows "ticket_inv tickets' pending active"
  using assms by (auto simp: ticket_inv_def)

lemma ticket_inv_cancel:
  assumes "ticket_inv tickets pending active" and "pending w = Some a"
    and "\<And>t. tickets' t = (if t \<in> set (participant_tickets a) then None else tickets t)"
  shows "ticket_inv tickets' (pending(w := None)) active"
  unfolding ticket_inv_def
proof (intro allI impI)
  fix t r assume "tickets' t = Some r"
  then have t: "tickets t = Some r" "t \<notin> set (participant_tickets a)"
    using assms(3) [of t] by (auto split: if_splits)
  from assms(1) t(1) consider
      x b where "pending x = Some b" "ra_match b = tr_match r" "t \<in> set (participant_tickets b)"
    | am where "active (tr_match r) = Some am" "t \<in> set (am_tickets am)"
    unfolding ticket_inv_def by blast
  then show "(\<exists>v a. (pending(w := None)) v = Some a \<and> ra_match a = tr_match r
        \<and> t \<in> set (participant_tickets a))
      \<or> (\<exists>am. active (tr_match r) = Some am \<and> t \<in> set (am_tickets am))"
  proof cases
    case 1
    then have "x \<noteq> w" using t(2) assms(2) by auto
    with 1 show ?thesis by (intro disjI1 exI [of _ x] exI [of _ b]) simp
  next
    case 2
    then show ?thesis by blast
  qed
qed

lemma ticket_inv_mark:
  assumes "ticket_inv tickets pending active" and "pending w = Some a"
    and "ra_match a \<notin> dom active" and "am_tickets am = participant_tickets a"
  shows "ticket_inv tickets (pending(w := None)) (active(ra_match a \<mapsto> am))"
  unfolding ticket_inv_def
proof (intro allI impI)
  fix t r assume t: "tickets t = Some r"
  from assms(1) t consider
      x b where "pending x = Some b" "ra_match b = tr_match r" "t \<in> set (participant_tickets b)"
    | am' where "active (tr_match r) = Some am'" "t \<in> set (am_tickets am')"
    unfolding ticket_inv_def by blast
  then show "(\<exists>v a. (pending(w := None)) v = Some a \<and> ra_match a = tr_match r
        \<and> t \<in> set (participant_tickets a))
      \<or> (\<exists>am'. (active(ra_match a \<mapsto> am)) (tr_match r) = Some am' \<and> t \<in> set (am_tickets am'))"
  proof cases
    case 1
    show ?thesis
    proof (cases "x = w")
      case True
      with 1 assms(2,4) show ?thesis by (intro disjI2 exI [of _ am]) simp
    next
      case False
      with 1 show ?thesis by (intro disjI1 exI [of _ x] exI [of _ b]) simp
    qed
  next
    case 2
    with assms(3) have "tr_match r \<noteq> ra_match a" by auto
    with 2 show ?thesis by (intro disjI2 exI [of _ am']) simp
  qed
qed

lemma ticket_inv_finish:
  assumes "ticket_inv tickets pending active" and "active k = Some am"
    and "\<And>t. tickets' t = (if t \<in> set (am_tickets am) then None else tickets t)"
  shows "ticket_inv tickets' pending (active(k := None))"
  using assms unfolding ticket_inv_def by (metis fun_upd_apply option.distinct(1) option.inject)

lemma ticket_inv_start:
  assumes "ticket_inv tickets pending active" and "w \<notin> dom pending"
    and "\<And>t r. tickets' t = Some r \<Longrightarrow>
      tickets t = Some r \<or> t \<in> set (participant_tickets a) \<and> tr_match r = ra_match a"
  shows "ticket_inv tickets' (pending(w \<mapsto> a)) active"
  unfolding ticket_inv_def
proof (intro allI impI)
  fix t r assume "tickets' t = Some r"
  then consider "tickets t = Some r" | "t \<in> set (participant_tickets a)" "tr_match r = ra_match a"
    using assms(3) by blast
  then show "(\<exists>v b. (pending(w \<mapsto> a)) v = Some b \<and> ra_match b = tr_match r \<and> t \<in> set (participant_tickets b))
      \<or> (\<exists>am. active (tr_match r) = Some am \<and> t \<in> set (am_tickets am))"
  proof cases
    case 1
    have "(pending(w \<mapsto> a)) v = pending v" if "pending v = Some b" for v b using that assms(2) by auto
    then show ?thesis using 1 assms(1) unfolding ticket_inv_def by metis
  next
    case 2
    then show ?thesis by (intro disjI1 exI [of _ w] exI [of _ a]) simp
  qed
qed

end
