(* ===== verification/LobbyReplies.thy ===== *)
theory LobbyReplies
  imports LobbyInvariant
begin

text \<open>
  The messages the handlers build. On rooms that satisfy the invariant the code that can
  throw does not: \<^verbatim>\<open>Room::Snapshot\<close>, \<^verbatim>\<open>RoomList\<close> and
  \<^verbatim>\<open>BroadcastSnapshot\<close> have closed forms. Every message goes to an open connection
  and can be encoded, and a broadcast answers at most the request of its requester.
\<close>

section \<open>Closed forms\<close>

definition snapshot_view :: "u32 \<Rightarrow> room \<Rightarrow> room_snapshot" where
  "snapshot_view q room =
     \<lparr>sn_requestId = q, sn_room = r_id room, sn_state = r_state room, sn_host = r_host room,
      sn_members = map (\<lambda>(p, m). \<lparr>mv_player = p, mv_ready = rmm_ready m\<rparr>) (r_members room)\<rparr>"

lemma snapshot_view_fields [simp]:
  "sn_requestId (snapshot_view q room) = q"
  "sn_state (snapshot_view q room) = r_state room"
  "length (sn_members (snapshot_view q room)) = length (r_members room)"
  by (simp_all add: snapshot_view_def)

lemma Room_Snapshot_eq [simp]: "room_wf r \<Longrightarrow> Room_Snapshot q r = Inr (snapshot_view q r)"
  by (simp add: Room_Snapshot_def snapshot_view_def room_wf_nonempty)

definition waiting_list :: "(room_id, room) omap \<Rightarrow> room_summary list" where
  "waiting_list rooms =
     map (\<lambda>(rid, r). \<lparr>rs_room = rid, rs_players = of_nat (length (r_members r)),
                      rs_capacity = of_nat RoomCapacity\<rparr>)
       (filter (\<lambda>(rid, r). r_state r = Waiting) rooms)"

lemma list_rooms_eq:
  "\<forall>(rid, r) \<in> set rooms. room_wf r \<Longrightarrow> list_rooms rooms = Inr (waiting_list rooms)"
  by (induction rooms rule: list_rooms.induct) (auto simp: waiting_list_def)

definition snapshot_messages ::
    "(player_id \<rightharpoonup> connection_id) \<Rightarrow> room \<Rightarrow> connection_id option \<Rightarrow> u32 \<Rightarrow> player_id list
      \<Rightarrow> outbound list" where
  "snapshot_messages ptoc room requester q players =
     List.map_filter
       (\<lambda>p. map_option (\<lambda>c. \<lparr>ob_recipient = c, ob_message =
              RoomSnapshot (snapshot_view (if requester = Some c then q else 0) room)\<rparr>) (ptoc p))
       players"

lemma broadcast_to_eq:
  "room_wf room \<Longrightarrow> broadcast_to players room requester q s =
     Inr (snapshot_messages (map_of (lb_playerToConnection s)) room requester q players)"
  by (induction players)
     (auto simp: snapshot_messages_def map_filter_Cons Let_def split: option.split)

lemma BroadcastSnapshot_eq [simp]:
  "room_wf room \<Longrightarrow> BroadcastSnapshot result room requester q s =
     Inr (result\<lparr>sr_outbound := sr_outbound result @
       snapshot_messages (map_of (lb_playerToConnection s)) room requester q (Room_Players room)\<rparr>)"
  by (simp add: BroadcastSnapshot_def broadcast_to_eq)

section \<open>Messages that can be sent\<close>

definition message_ok :: "lobby \<Rightarrow> outbound \<Rightarrow> bool" where
  "message_ok s message \<longleftrightarrow>
     ob_recipient message \<in> dom (map_of (lb_connections s))
     \<and> server_wf (ob_message message) \<and> encodable (ob_message message)"

definition result_ok :: "lobby \<Rightarrow> service_result \<Rightarrow> bool" where
  "result_ok s result \<longleftrightarrow> (\<forall>message \<in> set (sr_outbound result). message_ok s message)"

lemma lobby_inv_rooms: "lobby_inv s \<Longrightarrow> (rid, r) \<in> set (lb_rooms s) \<Longrightarrow> room_wf r"
  unfolding lobby_inv_def maps_wf_def room_inv_def by (metis om_wf_map_of_iff)

lemma RoomList_eq:
  "lobby_inv s \<Longrightarrow> RoomList q s = Inr (RoomListResponse q (waiting_list (lb_rooms s)))"
  by (subst RoomList_def, subst list_rooms_eq) (use lobby_inv_rooms in blast, simp)

lemma encodable_RoomList:
  assumes "lobby_inv s"
  shows "encodable (RoomListResponse q (waiting_list (lb_rooms s)))"
proof -
  have "length (waiting_list (lb_rooms s)) \<le> length (lb_rooms s)"
    by (simp add: waiting_list_def)
  then have "length (waiting_list (lb_rooms s)) \<le> MaximumRooms"
    using assms by (simp add: lobby_inv_def maps_wf_def)
  moreover have "valid_summary \<lparr>rs_room = rid, rs_players = of_nat (length (r_members r)),
      rs_capacity = of_nat RoomCapacity\<rparr>" if "(rid, r) \<in> set (lb_rooms s)" for rid r
  proof -
    have "length (r_members r) \<le> 24"
      using room_wf_size [OF lobby_inv_rooms [OF assms that]] by (simp add: RoomCapacity_def)
    then show ?thesis
      by (simp add: valid_summary_def RoomCapacity_def word_less_nat_alt unat_of_nat)
  qed
  then have "list_all valid_summary (waiting_list (lb_rooms s))"
    by (auto simp: waiting_list_def list_all_iff)
  ultimately show ?thesis by simp
qed

lemma message_ok_RoomList:
  "lobby_inv s \<Longrightarrow> message_ok s \<lparr>ob_recipient = c, ob_message =
      RoomListResponse q (waiting_list (lb_rooms s))\<rparr> \<longleftrightarrow> c \<in> dom (map_of (lb_connections s))"
  using encodable_RoomList [of s q] by (simp add: message_ok_def)

lemma message_ok_Error [simp]:
  "message_ok s \<lparr>ob_recipient = c, ob_message = ErrorResponse q e\<rparr> \<longleftrightarrow>
     c \<in> dom (map_of (lb_connections s))"
  by (simp add: message_ok_def)

lemma lobby_inv_connected:
  "lobby_inv s \<Longrightarrow> map_of (lb_playerToConnection s) p = Some c \<Longrightarrow> c \<in> dom (map_of (lb_connections s))"
  using conn_inv_open_player unfolding lobby_inv_def by blast

lemma snapshot_messages_ok:
  assumes "lobby_inv s" and "room_wf room" and "ptoc = map_of (lb_playerToConnection s)"
    and "message \<in> set (snapshot_messages ptoc room requester q players)"
  shows "message_ok s message"
  using assms lobby_inv_connected room_wf_size
  by (fastforce simp: snapshot_messages_def set_map_filter message_ok_def)

lemma result_ok_ErrorResult [simp]:
  "result_ok s (ErrorResult c q e) \<longleftrightarrow> c \<in> dom (map_of (lb_connections s))"
  by (simp add: result_ok_def ErrorResult_def)

lemma result_ok_no_result [simp]: "result_ok s no_result"
  by (simp add: result_ok_def no_result_def)

section \<open>Answers\<close>

text \<open>
  The messages with a request identifier are one: to the requester, with its identifier. All
  others carry identifier 0, which no accepted request has.
\<close>

definition solicited :: "service_result \<Rightarrow> outbound list" where
  "solicited result = filter (\<lambda>m. server_RequestId (ob_message m) \<noteq> 0) (sr_outbound result)"

definition answered :: "connection_id \<Rightarrow> u32 \<Rightarrow> service_result \<Rightarrow> bool" where
  "answered c q result \<longleftrightarrow>
     (\<exists>m. solicited result = [m] \<and> ob_recipient m = c \<and> server_RequestId (ob_message m) = q)"

lemma answered_ErrorResult [simp]: "q \<noteq> 0 \<Longrightarrow> answered c q (ErrorResult c q e)"
  by (simp add: answered_def solicited_def ErrorResult_def)

lemma solicited_broadcast_None [simp]:
  "filter (\<lambda>m. server_RequestId (ob_message m) \<noteq> 0) (snapshot_messages ptoc room None q players) = []"
  by (auto simp: filter_empty_conv snapshot_messages_def set_map_filter)

lemma solicited_broadcast:
  assumes "ptoc p = Some c" and "\<And>p'. p' \<noteq> p \<Longrightarrow> ptoc p' \<noteq> Some c" and "q \<noteq> 0" and "distinct players"
  shows "filter (\<lambda>m. server_RequestId (ob_message m) \<noteq> 0)
      (snapshot_messages ptoc room (Some c) q players) =
    (if p \<in> set players
     then [\<lparr>ob_recipient = c, ob_message = RoomSnapshot (snapshot_view q room)\<rparr>] else [])"
  using assms(4)
proof (induction players)
  case Nil
  then show ?case by (simp add: snapshot_messages_def)
next
  case (Cons x players)
  let ?nz = "filter (\<lambda>m. server_RequestId (ob_message m) \<noteq> 0)"
  from Cons have IH: "?nz (snapshot_messages ptoc room (Some c) q players) =
      (if p \<in> set players
       then [\<lparr>ob_recipient = c, ob_message = RoomSnapshot (snapshot_view q room)\<rparr>] else [])"
    by simp
  consider (none) "ptoc x = None" | (self) "ptoc x = Some c" "x = p"
    | (other) c' where "ptoc x = Some c'" "c' \<noteq> c" "x \<noteq> p"
    using assms(1,2) by (metis option.exhaust)
  then show ?case
  proof cases
    case none
    with IH assms(1) show ?thesis by (auto simp: snapshot_messages_def map_filter_Cons)
  next
    case self
    with IH Cons.prems assms(3) show ?thesis by (simp add: snapshot_messages_def map_filter_Cons)
  next
    case other
    with IH show ?thesis by (simp add: snapshot_messages_def map_filter_Cons)
  qed
qed

lemma broadcast_answers:
  assumes inv: "conn_inv conns ptoc nextC nextP" and "ptoc p = Some c" and "q \<noteq> 0"
    and room: "room_wf room" "p \<in> room_players room"
  shows "filter (\<lambda>m. server_RequestId (ob_message m) \<noteq> 0)
      (snapshot_messages ptoc room (Some c) q (Room_Players room)) =
    [\<lparr>ob_recipient = c, ob_message = RoomSnapshot (snapshot_view q room)\<rparr>]"
proof -
  have "ptoc p' \<noteq> Some c" if "p' \<noteq> p" for p'
    using conn_inv_inj [OF inv assms(2)] that by auto
  then show ?thesis
    using solicited_broadcast [of ptoc p c q "Room_Players room" room] assms(2,3) room
      distinct_Room_Players [OF room(1)] by simp
qed

end
