(* ===== verification/LobbyHandlers.thy ===== *)
theory LobbyHandlers
  imports LobbyReplies
begin

text \<open>
  Every handler of LobbyService.cpp on a state that satisfies the invariant: it returns, the
  new state satisfies the invariant, every message goes to an open connection and can be
  encoded, and a request is answered once.
\<close>

text \<open>What a request handler promises.\<close>

definition answers :: "connection_id \<Rightarrow> u32 \<Rightarrow> handled \<Rightarrow> bool" where
  "answers c q h \<longleftrightarrow>
     returns h (\<lambda>(s', result). lobby_inv s' \<and> result_ok s' result \<and> answered c q result)"

text \<open>What an event that is not a request promises.\<close>

definition keeps :: "handled \<Rightarrow> bool" where
  "keeps h \<longleftrightarrow> returns h (\<lambda>(s', result). lobby_inv s' \<and> result_ok s' result)"

lemma answers_Inr [simp]:
  "answers c q (Inr (s', result)) \<longleftrightarrow> lobby_inv s' \<and> result_ok s' result \<and> answered c q result"
  by (simp add: answers_def)

lemma keeps_Inr [simp]: "keeps (Inr (s', result)) \<longleftrightarrow> lobby_inv s' \<and> result_ok s' result"
  by (simp add: keeps_def)

section \<open>Parts of the invariant\<close>

lemma lobby_invD:
  assumes "lobby_inv s"
  shows "maps_wf s"
    and "conn_inv (map_of (lb_connections s)) (map_of (lb_playerToConnection s))
         (lb_nextConnection s) (lb_nextPlayer s)"
    and "room_inv (map_of (lb_rooms s)) (map_of (lb_playerToRoom s)) (lb_nextRoom s) (lb_nextPlayer s)"
    and "pending_inv (map_of (lb_rooms s)) (map_of (lb_pending s)) (map_of (lb_roomToReservation s))
         (lb_nextMatch s) (lb_nextReservation s)"
    and "active_inv (map_of (lb_rooms s)) (map_of (lb_pending s)) (map_of (lb_activeMatches s))
         (lb_nextMatch s)"
    and "ticket_inv (live (lb_tickets s)) (map_of (lb_pending s)) (map_of (lb_activeMatches s))"
  using assms by (simp_all add: lobby_inv_def)

lemma room_inv_take:
  "room_inv rooms ptor r p \<Longrightarrow> room_inv rooms ptor r (snd (TakeNext p))"
  using below_mono [of p] by (auto simp: room_inv_def)

lemma conn_inv_player_below:
  "conn_inv conns ptoc c n \<Longrightarrow> ptoc p = Some x \<Longrightarrow> below n (idval p)"
  unfolding conn_inv_def by blast

lemma lobby_member:
  assumes "lobby_inv s" and "map_of (lb_playerToRoom s) p = Some rid"
  shows "\<exists>r. map_of (lb_rooms s) rid = Some r \<and> p \<in> room_players r \<and> room_wf r \<and> r_id r = rid"
  using room_inv_player [OF lobby_invD(3) [OF assms(1)] assms(2)] lobby_invD(3) [OF assms(1)]
  by (auto simp: room_inv_def)

section \<open>Requests that change no room\<close>

lemma lobby_inv_request:
  assumes "lobby_inv s" and "map_of (lb_connections s) c = Some st"
    and "cs_player st' = cs_player st"
  shows "lobby_inv (s\<lparr>lb_connections := om_set c st' (lb_connections s)\<rparr>)"
  using assms conn_inv_request [OF lobby_invD(2) [OF assms(1)] assms(2,3)]
  by (simp add: lobby_inv_def maps_wf_def)

lemma HandleHello_answers:
  assumes inv: "lobby_inv s" and c: "map_of (lb_connections s) c = Some st" and "q \<noteq> 0"
  shows "answers c q (HandleHello c st q s)"
proof (cases "cs_player st")
  case (Some p)
  then show ?thesis using assms by (auto simp: HandleHello_def)
next
  case None
  show ?thesis
  proof (cases "lb_nextPlayer s")
    case None
    with \<open>cs_player st = None\<close> show ?thesis
      using assms by (auto simp: HandleHello_def TakeNext_def lobby_inv_def maps_wf_def)
  next
    case (Some v)
    have conn: "conn_inv (map_of (lb_connections s)) (map_of (lb_playerToConnection s))
         (lb_nextConnection s) (Some v)"
      using lobby_invD(2) [OF inv] Some by simp
    note hello = conn_inv_hello [OF conn c None]
    have "fst (TakeNext (Some v)) = Some v" by (simp add: TakeNext_def)
    then obtain next' where t: "TakeNext (Some v) = (Some v, next')"
      by (cases "TakeNext (Some v)") simp
    have "om_emplace (Ident v) c (lb_playerToConnection s) = om_set (Ident v) c (lb_playerToConnection s)"
      by (rule om_emplace_new) (use hello in \<open>simp add: om_contains_iff\<close>)
    then show ?thesis
      using inv hello None Some t \<open>q \<noteq> 0\<close> room_inv_take [OF lobby_invD(3) [OF inv]]
      by (simp add: HandleHello_def Let_def lobby_inv_def maps_wf_def result_ok_def no_result_def
          message_ok_def answered_def solicited_def)
  qed
qed

lemma HandleListRooms_answers:
  assumes inv: "lobby_inv s" and c: "map_of (lb_connections s) c = Some st" and "q \<noteq> 0"
  shows "answers c q (HandleListRooms c q s)"
  using assms
  by (auto simp: HandleListRooms_def RoomList_eq result_ok_def message_ok_RoomList answered_def
      solicited_def no_result_def)

section \<open>Requests on waiting rooms\<close>

text \<open>A room that is waiting, before and after, is no concern of reservations and matches.\<close>

lemma waiting_update:
  assumes "\<And>r. rooms x = Some r \<Longrightarrow> r_state r = Waiting" and "r_state r' = Waiting"
  shows "pending_inv (rooms(x \<mapsto> r')) pending rtor m v = pending_inv rooms pending rtor m v"
    and "active_inv (rooms(x \<mapsto> r')) pending active m = active_inv rooms pending active m"
proof -
  have "same_in_state Starting rooms (rooms(x \<mapsto> r'))" "same_in_state InMatch rooms (rooms(x \<mapsto> r'))"
    by (rule same_in_state_update; use assms in force)+
  then show "pending_inv (rooms(x \<mapsto> r')) pending rtor m v = pending_inv rooms pending rtor m v"
    "active_inv (rooms(x \<mapsto> r')) pending active m = active_inv rooms pending active m"
    by (simp_all add: pending_inv_cong active_inv_cong)
qed

lemma waiting_remove:
  assumes "\<And>r. rooms x = Some r \<Longrightarrow> r_state r = Waiting"
  shows "pending_inv (rooms(x := None)) pending rtor m v = pending_inv rooms pending rtor m v"
    and "active_inv (rooms(x := None)) pending active m = active_inv rooms pending active m"
proof -
  have "same_in_state Starting rooms (rooms(x := None))" "same_in_state InMatch rooms (rooms(x := None))"
    by (rule same_in_state_remove; use assms in force)+
  then show "pending_inv (rooms(x := None)) pending rtor m v = pending_inv rooms pending rtor m v"
    "active_inv (rooms(x := None)) pending active m = active_inv rooms pending active m"
    by (simp_all add: pending_inv_cong active_inv_cong)
qed

text \<open>The broadcast of a changed room to its members, with one answer.\<close>

lemma broadcast_answered:
  assumes inv: "lobby_inv s" and p: "map_of (lb_playerToConnection s) p = Some c" and "q \<noteq> 0"
    and room: "room_wf room" "p \<in> room_players room"
    and messages: "sr_outbound result =
      snapshot_messages (map_of (lb_playerToConnection s)) room (Some c) q (Room_Players room)"
  shows "result_ok s result \<and> answered c q result"
  using snapshot_messages_ok [OF inv room(1) refl]
    broadcast_answers [OF lobby_invD(2) [OF inv] p \<open>q \<noteq> 0\<close> room]
  by (auto simp: result_ok_def answered_def solicited_def messages)

lemma HandleCreateRoom_answers:
  assumes inv: "lobby_inv s" and p: "map_of (lb_playerToConnection s) p = Some c" and "q \<noteq> 0"
  shows "answers c q (HandleCreateRoom c p q s)"
proof -
  have c: "c \<in> dom (map_of (lb_connections s))" by (rule lobby_inv_connected [OF inv p])
  show ?thesis
  proof (cases "map_of (lb_playerToRoom s) p = None \<and> length (lb_rooms s) < lb_maximumRooms s
      \<and> lb_nextRoom s \<noteq> None \<and> lb_nextJoinOrdinal s \<noteq> None")
    case False
    then show ?thesis using inv c \<open>q \<noteq> 0\<close>
      by (auto simp: HandleCreateRoom_def om_contains_def split: option.split)
  next
    case True
    then obtain v w where new: "map_of (lb_playerToRoom s) p = None"
      "length (lb_rooms s) < lb_maximumRooms s"
      "lb_nextRoom s = Some v" "lb_nextJoinOrdinal s = Some w" by auto
    let ?rid = "RoomId v" and ?room = "Room_Create (RoomId v) p w"
    have "room_inv (map_of (lb_rooms s)) (map_of (lb_playerToRoom s)) (Some v) (lb_nextPlayer s)"
      using lobby_invD(3) [OF inv] new by simp
    note create = room_inv_create [OF this new(1) conn_inv_player_below [OF lobby_invD(2) [OF inv] p], of w]
    then have fresh: "\<not> om_contains (lb_rooms s) ?rid" by (simp add: om_contains_iff)
    then have emp: "om_emplace ?rid ?room (lb_rooms s) = om_set ?rid ?room (lb_rooms s)"
      "om_emplace p ?rid (lb_playerToRoom s) = om_set p ?rid (lb_playerToRoom s)"
      using new(1) by (simp_all add: om_emplace_new om_contains_def)
    let ?s = "s\<lparr>lb_nextRoom := snd (TakeNext (Some v)), lb_nextJoinOrdinal := snd (TakeNext (Some w)),
      lb_rooms := om_set ?rid ?room (lb_rooms s), lb_playerToRoom := om_set p ?rid (lb_playerToRoom s)\<rparr>"
    have no: "map_of (lb_rooms s) ?rid = None" using create by auto
    have w: "counter_ok (Some w)" using lobby_invD(1) [OF inv] new by (simp add: maps_wf_def)
    have "lobby_inv ?s"
      using inv create new fresh counter_ok_Take [OF w]
        waiting_update [of "map_of (lb_rooms s)" ?rid ?room]
      by (simp add: lobby_inv_def maps_wf_def no)
    moreover from this have "result_ok ?s r \<and> answered c q r" if "sr_outbound r = snapshot_messages
        (map_of (lb_playerToConnection s)) ?room (Some c) q (Room_Players ?room)" for r
      by (rule broadcast_answered [where p = p]) (use p \<open>q \<noteq> 0\<close> that in simp_all)
    ultimately show ?thesis
      using new fresh by (simp add: HandleCreateRoom_def om_contains_def emp Let_def no_result_def)
  qed
qed

lemma HandleJoinRoom_answers:
  assumes inv: "lobby_inv s" and p: "map_of (lb_playerToConnection s) p = Some c" and "q \<noteq> 0"
  shows "answers c q (HandleJoinRoom c p q rid s)"
proof -
  have c: "c \<in> dom (map_of (lb_connections s))" by (rule lobby_inv_connected [OF inv p])
  show ?thesis
  proof (cases "map_of (lb_playerToRoom s) p = None \<and> map_of (lb_rooms s) rid \<noteq> None")
    case False
    then show ?thesis using inv c \<open>q \<noteq> 0\<close>
      by (auto simp: HandleJoinRoom_def om_contains_def split: option.split)
  next
    case True
    then obtain r where none: "map_of (lb_playerToRoom s) p = None"
      and r: "map_of (lb_rooms s) rid = Some r" by auto
    have wf: "room_wf r" using room_inv_wf [OF lobby_invD(3) [OF inv] r] .
    show ?thesis
    proof (cases "r_state r = Waiting \<and> length (r_members r) < RoomCapacity
        \<and> lb_nextJoinOrdinal s \<noteq> None")
      case False
      then show ?thesis using inv c none r wf \<open>q \<noteq> 0\<close>
        by (auto simp: HandleJoinRoom_def om_contains_def TakeNext_def lobby_inv_def maps_wf_def
            counter_ok_def split: option.split)
    next
      case True
      then obtain w where w: "lb_nextJoinOrdinal s = Some w" by auto
      have notin: "p \<notin> room_players r"
        using room_inv_no_room [OF lobby_invD(3) [OF inv] none r] .
      obtain r' where join: "Room_Join p w r = (None, r')"
        using Room_Join_None_iff [of p w r] True notin by (cases "Room_Join p w r") auto
      note ok = Room_Join_ok [OF join wf]
      let ?s = "s\<lparr>lb_nextJoinOrdinal := snd (TakeNext (Some w)),
        lb_rooms := om_set rid r' (lb_rooms s), lb_playerToRoom := om_set p rid (lb_playerToRoom s)\<rparr>"
      have "counter_ok (Some w)" using lobby_invD(1) [OF inv] w by (simp add: maps_wf_def)
      then have "lobby_inv ?s"
        using inv ok r True counter_ok_Take [of "Some w"] none
          waiting_update [of "map_of (lb_rooms s)" rid r']
          room_inv_join [OF lobby_invD(3) [OF inv] r none, of r']
          conn_inv_player_below [OF lobby_invD(2) [OF inv] p]
        by (simp add: lobby_inv_def maps_wf_def om_contains_def)
      moreover from this have "result_ok ?s x \<and> answered c q x" if "sr_outbound x = snapshot_messages
          (map_of (lb_playerToConnection s)) r' (Some c) q (Room_Players r')" for x
        by (rule broadcast_answered [where p = p and room = r'])
           (use p \<open>q \<noteq> 0\<close> that ok in simp_all)
      moreover have "TakeNext (Some w) = (Some w, snd (TakeNext (Some w)))" by (simp add: TakeNext_def)
      ultimately show ?thesis
        using none r True wf w join ok
        by (auto simp: HandleJoinRoom_def om_contains_def om_emplace_def Let_def no_result_def
            split: prod.split)
    qed
  qed
qed

lemma HandleSetReady_answers:
  assumes inv: "lobby_inv s" and p: "map_of (lb_playerToConnection s) p = Some c" and "q \<noteq> 0"
  shows "answers c q (HandleSetReady c p q b s)"
proof -
  have c: "c \<in> dom (map_of (lb_connections s))" by (rule lobby_inv_connected [OF inv p])
  show ?thesis
  proof (cases "map_of (lb_playerToRoom s) p")
    case None
    then show ?thesis using inv c \<open>q \<noteq> 0\<close> by (simp add: HandleSetReady_def)
  next
    case (Some rid)
    then obtain r where r: "map_of (lb_rooms s) rid = Some r" "p \<in> room_players r" "room_wf r"
      using lobby_member [OF inv] by blast
    obtain e r' where set: "Room_SetReady p b r = (e, r')" by (cases "Room_SetReady p b r")
    show ?thesis
    proof (cases e)
      case None
      with set have ok: "room_wf r'" "room_players r' = room_players r" "r_id r' = r_id r"
        "r_state r' = Waiting" "r_state r = Waiting"
        using Room_SetReady_ok [of p b r r'] Room_SetReady_None_iff [of p b r] r by auto
      let ?s = "s\<lparr>lb_rooms := om_set rid r' (lb_rooms s)\<rparr>"
      have "lobby_inv ?s"
        using inv ok r waiting_update [of "map_of (lb_rooms s)" rid r']
          room_inv_update [OF lobby_invD(3) [OF inv] r(1), of r']
        by (simp add: lobby_inv_def maps_wf_def om_contains_def)
      moreover from this have "result_ok ?s x \<and> answered c q x" if "sr_outbound x = snapshot_messages
          (map_of (lb_playerToConnection s)) r' (Some c) q (Room_Players r')" for x
        by (rule broadcast_answered [where p = p and room = r'])
           (use p \<open>q \<noteq> 0\<close> that ok r in simp_all)
      ultimately show ?thesis
        using Some r set None ok by (simp add: HandleSetReady_def Let_def no_result_def)
    next
      case (Some e')
      with set have "r' = r" using Room_SetReady_error by blast
      have "room_inv ((map_of (lb_rooms s))(rid \<mapsto> r)) (map_of (lb_playerToRoom s))
          (lb_nextRoom s) (lb_nextPlayer s)"
        using room_inv_update [OF lobby_invD(3) [OF inv] r(1) r(3)] by simp
      moreover have "(map_of (lb_rooms s))(rid \<mapsto> r) = map_of (lb_rooms s)"
        using r(1) by auto
      ultimately have "lobby_inv (s\<lparr>lb_rooms := om_set rid r (lb_rooms s)\<rparr>)"
        using inv r by (simp add: lobby_inv_def maps_wf_def om_contains_def)
      then show ?thesis
        using \<open>map_of (lb_playerToRoom s) p = Some rid\<close> r set Some \<open>r' = r\<close> c \<open>q \<noteq> 0\<close>
        by (simp add: HandleSetReady_def Let_def)
    qed
  qed
qed

section \<open>Leaving\<close>

text \<open>The state after a member left, and what was sent.\<close>

definition left_state :: "player_id \<Rightarrow> room_id \<Rightarrow> room \<Rightarrow> lobby \<Rightarrow> lobby" where
  "left_state p rid r' s =
     s\<lparr>lb_rooms := (if Room_Empty r' then om_erase rid (om_set rid r' (lb_rooms s))
                    else om_set rid r' (lb_rooms s)),
       lb_playerToRoom := om_erase p (lb_playerToRoom s)\<rparr>"

lemma left_state_fields [simp]:
  "lb_connections (left_state p rid r' s) = lb_connections s"
  "lb_playerToConnection (left_state p rid r' s) = lb_playerToConnection s"
  by (simp_all add: left_state_def)

definition left_messages ::
    "connection_id option \<Rightarrow> u32 \<Rightarrow> room \<Rightarrow> lobby \<Rightarrow> outbound list" where
  "left_messages requester q r' s =
     (if Room_Empty r' then []
      else snapshot_messages (map_of (lb_playerToConnection s)) r' None 0 (Room_Players r'))
     @ (case requester of
          None \<Rightarrow> []
        | Some c \<Rightarrow> [\<lparr>ob_recipient = c, ob_message =
            RoomListResponse q (waiting_list (lb_rooms s))\<rparr>])"

lemma Room_Leave_players:
  assumes "Room_Leave p r = (None, r')"
  shows "room_players r' = room_players r - {p}" and "p \<in> room_players r"
proof -
  show "room_players r' = room_players r - {p}"
    using Room_Leave_members [OF assms] by (simp add: room_players_erase)
  show "p \<in> room_players r" using Room_Leave_None_iff [of p r] assms by simp
qed

lemma lobby_inv_left:
  assumes inv: "lobby_inv s" and p: "map_of (lb_playerToRoom s) p = Some rid"
    and r: "map_of (lb_rooms s) rid = Some r" and leave: "Room_Leave p r = (None, r')"
  shows "lobby_inv (left_state p rid r' s)"
proof -
  have wf: "room_wf r" using room_inv_wf [OF lobby_invD(3) [OF inv] r] .
  have waiting: "r_state r = Waiting" using Room_Leave_None_iff [of p r] leave by simp
  note left = Room_Leave_members [OF leave] Room_Leave_players [OF leave]
  show ?thesis
  proof (cases "Room_Empty r'")
    case True
    then have "room_players r = {p}" using left by (auto simp: Room_Empty_def room_players_def)
    then have "room_inv ((map_of (lb_rooms s))(rid := None)) ((map_of (lb_playerToRoom s))(p := None))
        (lb_nextRoom s) (lb_nextPlayer s)"
      by (intro room_inv_drop [OF lobby_invD(3) [OF inv] r]) auto
    moreover have "length (om_erase rid (om_set rid r' (lb_rooms s))) \<le> length (lb_rooms s)"
      using length_om_erase_le [of rid "om_set rid r' (lb_rooms s)"] lobby_invD(1) [OF inv] r
      by (simp add: maps_wf_def om_contains_def)
    ultimately show ?thesis
      using inv True r waiting waiting_remove [of "map_of (lb_rooms s)" rid]
      by (simp add: left_state_def lobby_inv_def maps_wf_def)
  next
    case False
    then have "room_wf r'" using Room_Leave_ok [OF leave wf] by (simp add: Room_Empty_def)
    then have "room_inv ((map_of (lb_rooms s))(rid \<mapsto> r')) ((map_of (lb_playerToRoom s))(p := None))
        (lb_nextRoom s) (lb_nextPlayer s)"
      using room_inv_leave [OF lobby_invD(3) [OF inv] r p] left by simp
    then show ?thesis
      using inv False r waiting left waiting_update [of "map_of (lb_rooms s)" rid r']
      by (simp add: left_state_def lobby_inv_def maps_wf_def om_contains_def)
  qed
qed

lemma LeaveWaitingRoom_refused:
  assumes inv: "lobby_inv s" and p: "map_of (lb_playerToRoom s) p = Some rid"
    and r: "map_of (lb_rooms s) rid = Some r" and "r_state r \<noteq> Waiting"
  shows "LeaveWaitingRoom p requester q s =
    Inr (s, case requester of Some c \<Rightarrow> ErrorResult c q RoomNotJoinable | None \<Rightarrow> no_result)"
  using assms room_inv_wf [OF lobby_invD(3) [OF inv] r]
  by (simp add: LeaveWaitingRoom_def Room_Host_wf Room_Leave_def split: option.split)

lemma LeaveWaitingRoom_left:
  assumes inv: "lobby_inv s" and p: "map_of (lb_playerToRoom s) p = Some rid"
    and r: "map_of (lb_rooms s) rid = Some r" and waiting: "r_state r = Waiting"
  shows "\<exists>r' audit. Room_Leave p r = (None, r')
    \<and> LeaveWaitingRoom p requester q s =
        Inr (left_state p rid r' s,
             \<lparr>sr_outbound = left_messages requester q r' (left_state p rid r' s),
              sr_audit = audit, sr_actions = []\<rparr>)"
proof -
  have wf: "room_wf r" using room_inv_wf [OF lobby_invD(3) [OF inv] r] .
  have "p \<in> room_players r" using lobby_member [OF inv p] r by auto
  then obtain r' where leave: "Room_Leave p r = (None, r')"
    using Room_Leave_None_iff [of p r] waiting by (cases "Room_Leave p r") auto
  have inv': "lobby_inv (left_state p rid r' s)" by (rule lobby_inv_left [OF inv p r leave])
  have "\<exists>audit. LeaveWaitingRoom p requester q s =
        Inr (left_state p rid r' s,
             \<lparr>sr_outbound = left_messages requester q r' (left_state p rid r' s),
              sr_audit = audit, sr_actions = []\<rparr>)"
  proof (cases "Room_Empty r'")
    case True
    then have "left_state p rid r' s = s\<lparr>lb_playerToRoom := om_erase p (lb_playerToRoom s),
        lb_rooms := om_erase rid (om_set rid r' (lb_rooms s))\<rparr>"
      by (cases s) (simp add: left_state_def)
    with True leave p r wf RoomList_eq [OF inv', of q] show ?thesis
      by (cases requester)
         (simp_all add: LeaveWaitingRoom_def Room_Host_wf Let_def left_messages_def no_result_def)
  next
    case False
    then have wf': "room_wf r'" using Room_Leave_ok [OF leave wf] by (simp add: Room_Empty_def)
    from False have "left_state p rid r' s = s\<lparr>lb_rooms := om_set rid r' (lb_rooms s),
        lb_playerToRoom := om_erase p (lb_playerToRoom s)\<rparr>"
      by (simp add: left_state_def)
    with False leave p r wf wf' RoomList_eq [OF inv', of q] show ?thesis
      by (cases requester)
         (simp_all add: LeaveWaitingRoom_def Room_Host_wf Let_def left_messages_def no_result_def)
  qed
  with leave show ?thesis by blast
qed

lemma left_messages_ok:
  assumes inv: "lobby_inv s" and wf: "room_wf r" and leave: "Room_Leave p r = (None, r')"
    and req: "\<And>c. requester = Some c \<Longrightarrow> c \<in> dom (map_of (lb_connections s))"
    and m: "m \<in> set (left_messages requester q r' s)"
  shows "message_ok s m"
proof -
  from m consider (snapshot) "\<not> Room_Empty r'" "m \<in> set (snapshot_messages
        (map_of (lb_playerToConnection s)) r' None 0 (Room_Players r'))"
    | (rooms) c where "requester = Some c"
        "m = \<lparr>ob_recipient = c, ob_message = RoomListResponse q (waiting_list (lb_rooms s))\<rparr>"
    by (auto simp: left_messages_def split: if_splits option.splits)
  then show ?thesis
  proof cases
    case snapshot
    then have "room_wf r'" using Room_Leave_ok [OF leave wf] by (simp add: Room_Empty_def)
    from snapshot_messages_ok [OF inv this refl snapshot(2)] show ?thesis .
  next
    case rooms
    with req message_ok_RoomList [OF inv] show ?thesis by simp
  qed
qed

text \<open>A player who disconnects is not among the recipients.\<close>

lemma left_messages_others:
  assumes inv: "lobby_inv s" and leave: "Room_Leave p r = (None, r')"
    and c: "map_of (lb_playerToConnection s) p = Some c"
    and m: "m \<in> set (left_messages None q r' s)"
  shows "ob_recipient m \<noteq> c"
proof -
  from m obtain p' where "p' \<in> room_players r'"
    "map_of (lb_playerToConnection s) p' = Some (ob_recipient m)"
    by (auto simp: left_messages_def snapshot_messages_def set_map_filter split: if_splits)
  then show ?thesis
    using Room_Leave_players [OF leave] conn_inv_inj [OF lobby_invD(2) [OF inv] c, of p'] by auto
qed

lemma HandleLeaveRoom_answers:
  assumes inv: "lobby_inv s" and p: "map_of (lb_playerToConnection s) p = Some c" and "q \<noteq> 0"
  shows "answers c q (HandleLeaveRoom c p q s)"
proof (cases "map_of (lb_playerToRoom s) p")
  case None
  then show ?thesis
    using assms lobby_inv_connected [OF inv p] by (simp add: HandleLeaveRoom_def om_contains_def)
next
  case (Some rid)
  then obtain r where r: "map_of (lb_rooms s) rid = Some r" and wf: "room_wf r"
    using lobby_member [OF inv] by blast
  have handle: "HandleLeaveRoom c p q s = LeaveWaitingRoom p (Some c) q s"
    using Some by (simp add: HandleLeaveRoom_def om_contains_def)
  show ?thesis
  proof (cases "r_state r = Waiting")
    case False
    then show ?thesis
      using LeaveWaitingRoom_refused [OF inv Some r False, of "Some c" q] handle inv \<open>q \<noteq> 0\<close>
        lobby_inv_connected [OF inv p] by simp
  next
    case True
    obtain r' audit where leave: "Room_Leave p r = (None, r')"
      and eq: "LeaveWaitingRoom p (Some c) q s = Inr (left_state p rid r' s,
             \<lparr>sr_outbound = left_messages (Some c) q r' (left_state p rid r' s),
              sr_audit = audit, sr_actions = []\<rparr>)"
      using LeaveWaitingRoom_left [OF inv Some r True] by blast
    have inv': "lobby_inv (left_state p rid r' s)" by (rule lobby_inv_left [OF inv Some r leave])
    have "result_ok (left_state p rid r' s)
        \<lparr>sr_outbound = left_messages (Some c) q r' (left_state p rid r' s), sr_audit = audit, sr_actions = []\<rparr>"
      using left_messages_ok [OF inv' wf leave, of "Some c" _ q] lobby_inv_connected [OF inv p]
      by (simp add: result_ok_def)
    with inv' \<open>q \<noteq> 0\<close> show ?thesis
      by (simp add: handle eq answered_def solicited_def left_messages_def)
  qed
qed

end
