(* ===== verification/LobbyMatches.thy ===== *)
theory LobbyMatches
  imports LobbyHandlers
begin

text \<open>
  Starting a match, and how reservations and matches end: the tickets that
  \<^verbatim>\<open>HandleStartMatch\<close> issues, its rollback, the reservation it leaves pending, and
  the handlers of worker events and disconnections.
\<close>

section \<open>Issuing the tickets\<close>

lemma registry_Issue_source:
  assumes "registry_Issue m p now reg = (res, reg')"
  shows "tg_source reg' = tg_source reg" and "res = Some t \<Longrightarrow> \<exists>i. tg_source reg i = Some t"
proof -
  have purge: "tg_source (registry_PurgeExpired now reg) = tg_source reg"
    by (simp add: registry_PurgeExpired_def)
  show "tg_source reg' = tg_source reg"
    using issue_attempts_fills [of MaximumTicketAttempts m p now "registry_PurgeExpired now reg"]
      assms purge by (simp add: registry_Issue_def)
  show "\<exists>i. tg_source reg i = Some t" if "res = Some t"
    using issue_attempts_source [of MaximumTicketAttempts m p now "registry_PurgeExpired now reg" t reg']
      assms purge that by (auto simp: registry_Issue_def)
qed

lemma registry_Issue_keeps:
  assumes "registry_Issue m p now reg = (res, reg')" and "registry_wf reg"
  shows "live reg' t = Some r \<Longrightarrow> res \<noteq> Some t \<Longrightarrow> live reg t = Some r"
    and "live reg t = Some r \<Longrightarrow> now < tr_expiresAt r \<Longrightarrow> live reg' t = Some r \<and> res \<noteq> Some t"
proof -
  show "live reg t = Some r" if "live reg' t = Some r" "res \<noteq> Some t"
    using live_Issue_other [OF assms that(2)] live_Purge [OF assms(2), of now t] that(1)
    by (auto split: option.splits if_splits)
  show "live reg' t = Some r \<and> res \<noteq> Some t" if "live reg t = Some r" "now < tr_expiresAt r"
  proof -
    have purged: "live (registry_PurgeExpired now reg) t = Some r"
      using live_Purge [OF assms(2), of now t] that by simp
    then have "res \<noteq> Some t" using registry_Issue_Some [of m p now reg t reg'] assms by auto
    with purged live_Issue_other [OF assms this] show ?thesis by simp
  qed
qed

definition issued_record :: "match_id \<Rightarrow> player_id \<Rightarrow> time_point \<Rightarrow> ticket_record" where
  "issued_record m p now = \<lparr>tr_match = m, tr_player = p, tr_expiresAt = now + ticket_lifetime\<rparr>"

lemma issued_record_live: "now < tr_expiresAt (issued_record m p now)"
  by (simp add: issued_record_def ticket_lifetime_def MatchTicketLifetimeSeconds_def
      nanoseconds_per_second_def)

text \<open>
  The tickets \<open>new\<close> of a run of the loop: distinct, each live for its own participant, and
  nothing else became live.
\<close>

definition tickets_issued ::
    "match_id \<Rightarrow> time_point \<Rightarrow> player_id list \<Rightarrow> match_ticket_value list \<Rightarrow> ticket_registry
      \<Rightarrow> ticket_registry \<Rightarrow> bool" where
  "tickets_issued m now ps new reg reg' \<longleftrightarrow>
     registry_wf reg' \<and> tg_source reg' = tg_source reg \<and> length new \<le> length ps \<and> distinct new
     \<and> (\<forall>t \<in> set new. \<exists>i. tg_source reg i = Some t)
     \<and> (\<forall>t \<in> set new. \<forall>r. live reg t = Some r \<longrightarrow> tr_expiresAt r \<le> now)
     \<and> (\<forall>i < length new. live reg' (new ! i) = Some (issued_record m (ps ! i) now))
     \<and> (\<forall>t r. live reg' t = Some r \<longrightarrow> t \<notin> set new \<longrightarrow> live reg t = Some r)
     \<and> (\<forall>t r. live reg t = Some r \<longrightarrow> now < tr_expiresAt r \<longrightarrow> live reg' t = Some r)"

lemma tickets_issuedD:
  assumes "tickets_issued m now ps new reg reg'"
  shows "registry_wf reg'" and "tg_source reg' = tg_source reg" and "length new \<le> length ps"
    and "distinct new"
    and "t \<in> set new \<Longrightarrow> \<exists>i. tg_source reg i = Some t"
    and "t \<in> set new \<Longrightarrow> live reg t = Some r \<Longrightarrow> tr_expiresAt r \<le> now"
    and "i < length new \<Longrightarrow> live reg' (new ! i) = Some (issued_record m (ps ! i) now)"
    and "live reg' t = Some r \<Longrightarrow> t \<notin> set new \<Longrightarrow> live reg t = Some r"
    and "live reg t = Some r \<Longrightarrow> now < tr_expiresAt r \<Longrightarrow> live reg' t = Some r"
  using assms unfolding tickets_issued_def by blast+

lemma tickets_issuedI:
  assumes "registry_wf reg'" and "tg_source reg' = tg_source reg" and "length new \<le> length ps"
    and "distinct new"
    and "\<And>t. t \<in> set new \<Longrightarrow> \<exists>i. tg_source reg i = Some t"
    and "\<And>t r. t \<in> set new \<Longrightarrow> live reg t = Some r \<Longrightarrow> tr_expiresAt r \<le> now"
    and "\<And>i. i < length new \<Longrightarrow> live reg' (new ! i) = Some (issued_record m (ps ! i) now)"
    and "\<And>t r. live reg' t = Some r \<Longrightarrow> t \<notin> set new \<Longrightarrow> live reg t = Some r"
    and "\<And>t r. live reg t = Some r \<Longrightarrow> now < tr_expiresAt r \<Longrightarrow> live reg' t = Some r"
  shows "tickets_issued m now ps new reg reg'"
  using assms unfolding tickets_issued_def by blast

lemma tickets_issued_Cons:
  assumes wf: "registry_wf reg" and issue: "registry_Issue m p now reg = (Some t, reg1)"
    and rest: "tickets_issued m now ps new reg1 reg'"
  shows "tickets_issued m now (p # ps) (t # new) reg reg'"
proof (rule tickets_issuedI)
  note keeps = registry_Issue_keeps [OF issue wf]
  have t1: "live reg1 t = Some (issued_record m p now)"
    using registry_Issue_Some [OF issue wf] by (simp add: issued_record_def)
  have notin: "t \<notin> set new"
    using tickets_issuedD(6) [OF rest _ t1] issued_record_live [of now m p] by force
  show "registry_wf reg'" "length (t # new) \<le> length (p # ps)" "distinct (t # new)"
    using tickets_issuedD(1,3,4) [OF rest] notin by simp_all
  show "tg_source reg' = tg_source reg"
    using tickets_issuedD(2) [OF rest] registry_Issue_source(1) [OF issue] by simp
  show "\<exists>i. tg_source reg i = Some x" if "x \<in> set (t # new)" for x
    using that tickets_issuedD(5) [OF rest, of x] registry_Issue_source [OF issue] by auto
  show "tr_expiresAt r \<le> now" if "x \<in> set (t # new)" "live reg x = Some r" for x r
  proof (rule ccontr)
    assume "\<not> tr_expiresAt r \<le> now"
    then have "live reg1 x = Some r" "x \<noteq> t" using keeps(2) [OF that(2)] by auto
    then show False
      using tickets_issuedD(6) [OF rest, of x r] that(1) \<open>\<not> tr_expiresAt r \<le> now\<close> by simp
  qed
  show "live reg' ((t # new) ! i) = Some (issued_record m ((p # ps) ! i) now)"
    if "i < length (t # new)" for i
    using that tickets_issuedD(7) [OF rest] tickets_issuedD(9) [OF rest t1 issued_record_live]
    by (cases i) auto
  show "live reg x = Some r" if "live reg' x = Some r" "x \<notin> set (t # new)" for x r
    using keeps(1) [of x r] tickets_issuedD(8) [OF rest that(1)] that(2) by auto
  show "live reg' x = Some r" if "live reg x = Some r" "now < tr_expiresAt r" for x r
    using keeps(2) [OF that] tickets_issuedD(9) [OF rest _ that(2), of x] by blast
qed

lemma issue_tickets_spec:
  assumes "registry_wf reg" and "issue_tickets m now ps tmp reg = (ok, tmp', reg')"
  shows "\<exists>new. tmp' = tmp @ new \<and> tickets_issued m now ps new reg reg' \<and> (ok \<longleftrightarrow> length new = length ps)"
  using assms
proof (induction ps arbitrary: tmp reg)
  case Nil
  then show ?case by (auto simp: tickets_issued_def)
next
  case (Cons p ps)
  obtain res reg1 where issue: "registry_Issue m p now reg = (res, reg1)"
    by (cases "registry_Issue m p now reg")
  have wf1: "registry_wf reg1" using registry_Issue_wf [OF Cons.prems(1), of m p now] issue by simp
  show ?case
  proof (cases res)
    case None
    then have "tickets_issued m now (p # ps) [] reg reg1"
    proof (intro tickets_issuedI)
      show "live reg t = Some r" if "live reg1 t = Some r" for t r
        using registry_Issue_keeps(1) [OF issue Cons.prems(1) that] None by simp
      show "live reg1 t = Some r" if "live reg t = Some r" "now < tr_expiresAt r" for t r
        using registry_Issue_keeps(2) [OF issue Cons.prems(1) that] by simp
    qed (use registry_Issue_source(1) [OF issue] wf1 in simp_all)
    with None issue Cons.prems(2) show ?thesis by auto
  next
    case (Some t)
    with issue Cons.prems(2) have "issue_tickets m now ps (tmp @ [t]) reg1 = (ok, tmp', reg')"
      by simp
    from Cons.IH [OF wf1 this] obtain new where "tmp' = tmp @ t # new"
      "tickets_issued m now ps new reg1 reg'" "ok \<longleftrightarrow> length new = length ps" by auto
    then show ?thesis
      using tickets_issued_Cons [OF Cons.prems(1) issue [unfolded Some]] by auto
  qed
qed

section \<open>Starting a match\<close>

text \<open>The reservation that a start creates, and the state that holds it.\<close>

definition start_action ::
    "lobby \<Rightarrow> player_id \<Rightarrow> u32 \<Rightarrow> time_point \<Rightarrow> room_id \<Rightarrow> player_id list \<Rightarrow> u64 \<Rightarrow> u64
      \<Rightarrow> match_ticket_value list \<Rightarrow> reserve_match_action" where
  "start_action s p q now rid players m v tickets =
     \<lparr>ra_reservation = ReservationId v, ra_room = rid, ra_match = MatchId m, ra_requester = p,
      ra_requestId = q, ra_seed = match_seed (lb_matchSeedBase s) (MatchId m), ra_issuedAt = now,
      ra_participants = map2 (\<lambda>p t. \<lparr>rp_player = p, rp_ticket = t\<rparr>) players tickets\<rparr>"

lemma start_action_fields [simp]:
  "ra_reservation (start_action s p q now rid ps m v ts) = ReservationId v"
  "ra_room (start_action s p q now rid ps m v ts) = rid"
  "ra_match (start_action s p q now rid ps m v ts) = MatchId m"
  "ra_requester (start_action s p q now rid ps m v ts) = p"
  by (simp_all add: start_action_def)

lemma map_participants:
  "length ts = length ps \<Longrightarrow> map rp_player (map2 (\<lambda>p t. \<lparr>rp_player = p, rp_ticket = t\<rparr>) ps ts) = ps"
  "length ts = length ps \<Longrightarrow> map rp_ticket (map2 (\<lambda>p t. \<lparr>rp_player = p, rp_ticket = t\<rparr>) ps ts) = ts"
  by (induction ts ps rule: list_induct2) simp_all

lemma start_action_participants:
  assumes "length ts = length ps"
  shows "map rp_player (ra_participants (start_action s p q now rid ps m v ts)) = ps"
    and "participant_tickets (start_action s p q now rid ps m v ts) = ts"
  using map_participants [OF assms] by (simp_all add: start_action_def participant_tickets_def)

definition started ::
    "lobby \<Rightarrow> room_id \<Rightarrow> room \<Rightarrow> u64 \<Rightarrow> u64 \<Rightarrow> ticket_registry \<Rightarrow> reserve_match_action \<Rightarrow> lobby" where
  "started s rid r m v reg a =
     s\<lparr>lb_nextMatch := snd (TakeNext (Some m)), lb_nextReservation := snd (TakeNext (Some v)),
       lb_rooms := om_set rid (r\<lparr>r_state := Starting\<rparr>) (lb_rooms s), lb_tickets := reg,
       lb_pending := om_set (ReservationId v) a (lb_pending s),
       lb_roomToReservation := om_set rid (ReservationId v) (lb_roomToReservation s)\<rparr>"

definition rolled_back ::
    "lobby \<Rightarrow> room_id \<Rightarrow> room \<Rightarrow> u64 \<Rightarrow> u64 \<Rightarrow> ticket_registry \<Rightarrow> match_ticket_value list \<Rightarrow> lobby" where
  "rolled_back s rid r m v reg issued =
     s\<lparr>lb_nextMatch := snd (TakeNext (Some m)), lb_nextReservation := snd (TakeNext (Some v)),
       lb_rooms := om_set rid (r\<lparr>r_state := Waiting\<rparr>) (om_set rid (r\<lparr>r_state := Starting\<rparr>) (lb_rooms s)),
       lb_tickets := registry_Revoke issued reg\<rparr>"

text \<open>The situation in which a start gets as far as issuing tickets.\<close>

definition can_start ::
    "lobby \<Rightarrow> player_id \<Rightarrow> time_point \<Rightarrow> room_id \<Rightarrow> room \<Rightarrow> u64 \<Rightarrow> u64 \<Rightarrow> bool
      \<Rightarrow> match_ticket_value list \<Rightarrow> ticket_registry \<Rightarrow> bool" where
  "can_start s p now rid r m v ok issued reg \<longleftrightarrow>
     map_of (lb_playerToRoom s) p = Some rid \<and> map_of (lb_rooms s) rid = Some r
     \<and> Room_ValidateStart p r = None \<and> lb_nextMatch s = Some m \<and> lb_nextReservation s = Some v
     \<and> issue_tickets (MatchId m) now (Room_Players r) [] (lb_tickets s) = (ok, issued, reg)"

lemma can_startD:
  assumes "lobby_inv s" and "can_start s p now rid r m v ok issued reg"
  shows "map_of (lb_rooms s) rid = Some r" and "r_state r = Waiting" and "room_wf r"
    and "p = r_host r" and "p \<in> room_players r"
    and "tickets_issued (MatchId m) now (Room_Players r) issued (lb_tickets s) reg"
    and "ok \<longleftrightarrow> length issued = length (Room_Players r)"
    and "pending_inv (map_of (lb_rooms s)) (map_of (lb_pending s)) (map_of (lb_roomToReservation s))
         (Some m) (Some v)"
    and "active_inv (map_of (lb_rooms s)) (map_of (lb_pending s)) (map_of (lb_activeMatches s)) (Some m)"
proof -
  show r: "map_of (lb_rooms s) rid = Some r" and "r_state r = Waiting" and "p = r_host r"
    using assms(2) by (simp_all add: can_start_def Room_ValidateStart_None_iff)
  show wf: "room_wf r" using room_inv_wf [OF lobby_invD(3) [OF assms(1)] r] .
  show "p \<in> room_players r" using room_wf_host [OF wf] \<open>p = r_host r\<close> by simp
  have "registry_wf (lb_tickets s)" using lobby_invD(1) [OF assms(1)] by (simp add: maps_wf_def)
  from issue_tickets_spec [OF this, of "MatchId m" now "Room_Players r" "[]"] assms(2)
  show "tickets_issued (MatchId m) now (Room_Players r) issued (lb_tickets s) reg"
    and "ok \<longleftrightarrow> length issued = length (Room_Players r)"
    by (auto simp: can_start_def)
  show "pending_inv (map_of (lb_rooms s)) (map_of (lb_pending s)) (map_of (lb_roomToReservation s))
         (Some m) (Some v)"
    "active_inv (map_of (lb_rooms s)) (map_of (lb_pending s)) (map_of (lb_activeMatches s)) (Some m)"
    using lobby_invD(4,5) [OF assms(1)] assms(2) by (simp_all add: can_start_def)
qed

lemma set_back: "m x = Some r \<Longrightarrow> r_state r = Waiting \<Longrightarrow> m(x \<mapsto> r\<lparr>r_state := Waiting\<rparr>) = m"
  by (rule ext) (cases r, simp)

lemma lobby_inv_rolled_back:
  assumes inv: "lobby_inv s" and start: "can_start s p now rid r m v ok issued reg"
  shows "lobby_inv (rolled_back s rid r m v reg issued)"
proof -
  note D = can_startD [OF inv start]
  have "ticket_inv (live (registry_Revoke issued reg)) (map_of (lb_pending s)) (map_of (lb_activeMatches s))"
    by (rule ticket_inv_less [OF lobby_invD(6) [OF inv]])
       (use tickets_issuedD(8) [OF D(6)] in \<open>auto simp: live_Revoke split: if_splits\<close>)
  moreover have "om_contains (om_set rid (r\<lparr>r_state := Starting\<rparr>) (lb_rooms s)) rid"
    "om_contains (lb_rooms s) rid" using D(1) by (simp_all add: om_contains_def)
  moreover have "tg_source (registry_Revoke issued reg) = tg_source (lb_tickets s)"
    using tickets_issuedD(2) [OF D(6)] by (simp add: registry_Revoke_def)
  ultimately show ?thesis
    using inv tickets_issuedD(1) [OF D(6)] pending_inv_take [OF D(8)] active_inv_take [OF D(9)]
      set_back [of "map_of (lb_rooms s)", OF D(1,2)]
    by (simp add: rolled_back_def lobby_inv_def maps_wf_def)
qed

lemma lobby_inv_started:
  assumes inv: "lobby_inv s" and start: "can_start s p now rid r m v True issued reg"
  shows "lobby_inv (started s rid r m v reg (start_action s p q now rid (Room_Players r) m v issued))"
    (is "lobby_inv (started s rid r m v reg ?a)")
    and "ReservationId v \<notin> dom (map_of (lb_pending s))"
    and "rid \<notin> dom (map_of (lb_roomToReservation s))"
proof -
  note D = can_startD [OF inv start]
  from D(7) have len: "length issued = length (Room_Players r)" by simp
  have opaq: "list_all opaque_wf (participant_tickets ?a)"
    using tickets_issuedD(5) [OF D(6)] lobby_invD(1) [OF inv]
    by (auto simp: start_action_participants [OF len] list_all_iff maps_wf_def)
  note pend = pending_inv_start [OF D(8,1,2), of ?a]
  have p: "pending_inv ((map_of (lb_rooms s))(rid \<mapsto> r\<lparr>r_state := Starting\<rparr>))
      ((map_of (lb_pending s))(ReservationId v \<mapsto> ?a)) ((map_of (lb_roomToReservation s))(rid \<mapsto> ReservationId v))
      (snd (TakeNext (Some m))) (snd (TakeNext (Some v)))"
    "ReservationId v \<notin> dom (map_of (lb_pending s))" "rid \<notin> dom (map_of (lb_roomToReservation s))"
    using pend opaq start_action_participants(1) [OF len] D(4) by simp_all
  show "ReservationId v \<notin> dom (map_of (lb_pending s))"
    and "rid \<notin> dom (map_of (lb_roomToReservation s))" by (rule p)+
  have rec: "tr_match x = MatchId m" if "live reg t = Some x" "t \<in> set issued" for t x
    using that tickets_issuedD(7) [OF D(6)] by (auto simp: in_set_conv_nth issued_record_def)
  have "ticket_inv (live reg) ((map_of (lb_pending s))(ReservationId v \<mapsto> ?a)) (map_of (lb_activeMatches s))"
    by (rule ticket_inv_start [OF lobby_invD(6) [OF inv] p(2)])
       (use tickets_issuedD(8) [OF D(6)] rec in \<open>auto simp: start_action_participants [OF len]\<close>)
  moreover have "room_inv ((map_of (lb_rooms s))(rid \<mapsto> r\<lparr>r_state := Starting\<rparr>))
      (map_of (lb_playerToRoom s)) (lb_nextRoom s) (lb_nextPlayer s)"
    using room_inv_update [OF lobby_invD(3) [OF inv] D(1)] D(3) by simp
  moreover have "active_inv ((map_of (lb_rooms s))(rid \<mapsto> r\<lparr>r_state := Starting\<rparr>))
      ((map_of (lb_pending s))(ReservationId v \<mapsto> ?a)) (map_of (lb_activeMatches s))
      (snd (TakeNext (Some m)))"
    using active_inv_start [OF D(9,1,2), of ?a] by simp
  moreover have "om_contains (lb_rooms s) rid" using D(1) by (simp add: om_contains_def)
  ultimately show "lobby_inv (started s rid r m v reg ?a)"
    using inv p(1) tickets_issuedD(1,2) [OF D(6)]
    by (simp add: started_def lobby_inv_def maps_wf_def)
qed

lemma Room_Players_state [simp]: "Room_Players (r\<lparr>r_state := x\<rparr>) = Room_Players r"
  by (simp add: Room_Players_def)

lemma HandleStartMatch_started:
  assumes inv: "lobby_inv s" and start: "can_start s p now rid r m v True issued reg"
  shows "HandleStartMatch c p q now s =
    (let a = start_action s p q now rid (Room_Players r) m v issued
     in Inr (started s rid r m v reg a,
         \<lparr>sr_outbound = snapshot_messages (map_of (lb_playerToConnection s)) (r\<lparr>r_state := Starting\<rparr>)
            (Some c) q (Room_Players r), sr_audit = [], sr_actions = [ReserveMatchAction a]\<rparr>))"
proof -
  have st: "Room_BeginStarting r = Inr (r\<lparr>r_state := Starting\<rparr>)"
    using start Room_BeginStarting_ok by (auto simp: can_start_def)
  have new: "map_of (lb_pending s) (ReservationId v) = None" "map_of (lb_roomToReservation s) rid = None"
    using lobby_inv_started(2,3) [OF inv start] by auto
  show ?thesis
    using start st new can_startD(3) [OF inv start]
    by (simp add: HandleStartMatch_def can_start_def Let_def om_contains_def om_emplace_def
        start_action_def started_def no_result_def)
qed

lemma HandleStartMatch_rolled_back:
  assumes inv: "lobby_inv s" and start: "can_start s p now rid r m v False issued reg"
  shows "HandleStartMatch c p q now s =
     Inr (rolled_back s rid r m v reg issued,
         \<lparr>sr_outbound = snapshot_messages (map_of (lb_playerToConnection s)) (r\<lparr>r_state := Waiting\<rparr>)
            None 0 (Room_Players r) @ [\<lparr>ob_recipient = c, ob_message = ErrorResponse q InternalError\<rparr>],
          sr_audit = [(Audit StartFailed (Some c) (Some p) (Some rid))
            \<lparr>au_match := Some (MatchId m), au_error := Some InternalError\<rparr>],
          sr_actions = []\<rparr>)"
proof -
  have st: "Room_BeginStarting r = Inr (r\<lparr>r_state := Starting\<rparr>)"
    using start Room_BeginStarting_ok by (auto simp: can_start_def)
  show ?thesis
    using start st can_startD(3) [OF inv start]
    by (simp add: HandleStartMatch_def can_start_def Let_def start_rollback_def
        Room_ReturnToWaiting_def rolled_back_def no_result_def)
qed

lemma rolled_back_fields [simp]:
  "lb_connections (rolled_back s rid r m v reg ts) = lb_connections s"
  "lb_playerToConnection (rolled_back s rid r m v reg ts) = lb_playerToConnection s"
  by (simp_all add: rolled_back_def)

lemma started_fields [simp]:
  "lb_connections (started s rid r m v reg a) = lb_connections s"
  "lb_playerToConnection (started s rid r m v reg a) = lb_playerToConnection s"
  by (simp_all add: started_def)

text \<open>Either a start is refused, with nothing changed, or it gets to the tickets.\<close>

lemma HandleStartMatch_cases:
  assumes inv: "lobby_inv s"
  obtains (refused) e where "HandleStartMatch c p q now s = Inr (s, ErrorResult c q e)"
  | (begun) rid r m v ok issued reg where "can_start s p now rid r m v ok issued reg"
proof (cases "map_of (lb_playerToRoom s) p")
  case None
  then show ?thesis using refused by (simp add: HandleStartMatch_def)
next
  case (Some rid)
  then obtain r where r: "map_of (lb_rooms s) rid = Some r"
    using lobby_member [OF inv] by blast
  consider (error) e where "Room_ValidateStart p r = Some e"
    | (ids) "Room_ValidateStart p r = None" "lb_nextMatch s = None \<or> lb_nextReservation s = None"
    | (go) m v where "Room_ValidateStart p r = None" "lb_nextMatch s = Some m"
        "lb_nextReservation s = Some v"
    by (cases "Room_ValidateStart p r"; cases "lb_nextMatch s"; cases "lb_nextReservation s") auto
  then show ?thesis
  proof cases
    case error
    with Some r show ?thesis using refused by (simp add: HandleStartMatch_def)
  next
    case ids
    with Some r have "HandleStartMatch c p q now s = Inr (s, ErrorResult c q IdSpaceExhausted)"
      by (auto simp: HandleStartMatch_def split: option.split)
    then show ?thesis by (rule refused)
  next
    case go
    with Some r show ?thesis
      using begun [of rid r m v]
      by (cases "issue_tickets (MatchId m) now (Room_Players r) [] (lb_tickets s)")
         (simp add: can_start_def)
  qed
qed

lemma HandleStartMatch_answers:
  assumes inv: "lobby_inv s" and p: "map_of (lb_playerToConnection s) p = Some c" and "q \<noteq> 0"
  shows "answers c q (HandleStartMatch c p q now s)"
proof (cases rule: HandleStartMatch_cases [OF inv, of c p q now])
  case (1 e)
  then show ?thesis using inv \<open>q \<noteq> 0\<close> lobby_inv_connected [OF inv p] by simp
next
  case (2 rid r m v ok issued reg)
  show ?thesis
  proof (cases ok)
    case True
    with 2 have start: "can_start s p now rid r m v True issued reg" by simp
    let ?a = "start_action s p q now rid (Room_Players r) m v issued"
    have inv': "lobby_inv (started s rid r m v reg ?a)" by (rule lobby_inv_started(1) [OF inv start])
    have "result_ok (started s rid r m v reg ?a) x \<and> answered c q x"
      if "sr_outbound x = snapshot_messages (map_of (lb_playerToConnection s))
            (r\<lparr>r_state := Starting\<rparr>) (Some c) q (Room_Players r)" for x
      by (rule broadcast_answered [OF inv' _ \<open>q \<noteq> 0\<close>, where p = p and room = "r\<lparr>r_state := Starting\<rparr>"])
         (use p that can_startD(3,5) [OF inv start] in simp_all)
    with inv' show ?thesis
      by (simp add: HandleStartMatch_started [OF inv start] Let_def)
  next
    case False
    with 2 have start: "can_start s p now rid r m v False issued reg" by simp
    let ?s = "rolled_back s rid r m v reg issued"
    have inv': "lobby_inv ?s" by (rule lobby_inv_rolled_back [OF inv start])
    have "message_ok ?s x" if "x \<in> set (snapshot_messages (map_of (lb_playerToConnection s))
        (r\<lparr>r_state := Waiting\<rparr>) None 0 (Room_Players r))" for x
      by (rule snapshot_messages_ok [OF inv' _ _ that]) (use can_startD(3) [OF inv start] in simp_all)
    with inv' \<open>q \<noteq> 0\<close> lobby_inv_connected [OF inv p] show ?thesis
      by (auto simp: HandleStartMatch_rolled_back [OF inv start] result_ok_def answered_def solicited_def)
  qed
qed

section \<open>The end of a reservation\<close>

text \<open>The state after a reservation is given up: its room waits again, its tickets are gone.\<close>

definition given_up :: "lobby \<Rightarrow> reservation_id \<Rightarrow> reserve_match_action \<Rightarrow> room \<Rightarrow> lobby" where
  "given_up s w a r =
     s\<lparr>lb_pending := om_erase w (lb_pending s),
       lb_roomToReservation := om_erase (ra_room a) (lb_roomToReservation s),
       lb_tickets := registry_Revoke (participant_tickets a) (lb_tickets s),
       lb_rooms := om_set (ra_room a) (r\<lparr>r_state := Waiting\<rparr>) (lb_rooms s)\<rparr>"

lemma given_up_fields [simp]:
  "lb_connections (given_up s w a r) = lb_connections s"
  "lb_playerToConnection (given_up s w a r) = lb_playerToConnection s"
  "lb_playerToRoom (given_up s w a r) = lb_playerToRoom s"
  "lb_rooms (given_up s w a r) = om_set (ra_room a) (r\<lparr>r_state := Waiting\<rparr>) (lb_rooms s)"
  by (simp_all add: given_up_def)

lemma pending_room:
  assumes "lobby_inv s" and "map_of (lb_pending s) w = Some a"
  obtains r where "map_of (lb_rooms s) (ra_room a) = Some r" "r_state r = Starting" "room_wf r"
    "map rp_player (ra_participants a) = Room_Players r" "ra_requester a = r_host r"
  using pending_inv_action(4) [OF lobby_invD(4) [OF assms(1)] assms(2)]
    room_inv_wf [OF lobby_invD(3) [OF assms(1)]] by blast

lemma lobby_inv_given_up:
  assumes inv: "lobby_inv s" and w: "map_of (lb_pending s) w = Some a"
    and r: "map_of (lb_rooms s) (ra_room a) = Some r" "r_state r = Starting"
  shows "lobby_inv (given_up s w a r)"
proof -
  have wf: "room_wf r" by (rule room_inv_wf [OF lobby_invD(3) [OF inv] r(1)])
  have "pending_inv ((map_of (lb_rooms s))(ra_room a \<mapsto> r\<lparr>r_state := Waiting\<rparr>))
      ((map_of (lb_pending s))(w := None)) ((map_of (lb_roomToReservation s))(ra_room a := None))
      (lb_nextMatch s) (lb_nextReservation s)"
    by (rule pending_inv_end [OF lobby_invD(4) [OF inv] w]) simp
  moreover have "same_in_state InMatch (map_of (lb_rooms s))
      ((map_of (lb_rooms s))(ra_room a \<mapsto> r\<lparr>r_state := Waiting\<rparr>))"
    by (rule same_in_state_update) (use r in auto)
  then have "active_inv ((map_of (lb_rooms s))(ra_room a \<mapsto> r\<lparr>r_state := Waiting\<rparr>))
      ((map_of (lb_pending s))(w := None)) (map_of (lb_activeMatches s)) (lb_nextMatch s)"
    using active_inv_cong active_inv_less_pending lobby_invD(5) [OF inv] by blast
  moreover have "room_inv ((map_of (lb_rooms s))(ra_room a \<mapsto> r\<lparr>r_state := Waiting\<rparr>))
      (map_of (lb_playerToRoom s)) (lb_nextRoom s) (lb_nextPlayer s)"
    using room_inv_update [OF lobby_invD(3) [OF inv] r(1)] wf by simp
  moreover have "ticket_inv (live (registry_Revoke (participant_tickets a) (lb_tickets s)))
      ((map_of (lb_pending s))(w := None)) (map_of (lb_activeMatches s))"
    by (rule ticket_inv_cancel [where a = a, OF lobby_invD(6) [OF inv] w]) (simp add: live_Revoke)
  moreover have "om_contains (lb_rooms s) (ra_room a)" using r by (simp add: om_contains_def)
  moreover have "tg_source (registry_Revoke (participant_tickets a) (lb_tickets s)) = tg_source (lb_tickets s)"
    by (simp add: registry_Revoke_def)
  ultimately show ?thesis
    using inv by (simp add: given_up_def lobby_inv_def maps_wf_def)
qed

end
