(* ===== verification/LobbyEvents.thy ===== *)
theory LobbyEvents
  imports LobbyMatches
begin

text \<open>
  Worker events, disconnections and the dispatch of requests: every event of the lobby
  returns and keeps the invariant, so a lobby that was built on an empty ticket registry
  never throws, whatever its clients and workers send. The lobby is an
  \<open>invariant_machine\<close>.
\<close>

section \<open>Giving up a reservation\<close>

definition failure_messages ::
    "lobby \<Rightarrow> reserve_match_action \<Rightarrow> room \<Rightarrow> lobby_error \<Rightarrow> outbound list" where
  "failure_messages s a r error =
     snapshot_messages (map_of (lb_playerToConnection s)) (r\<lparr>r_state := Waiting\<rparr>) None 0 (Room_Players r)
     @ (case map_of (lb_playerToConnection s) (ra_requester a) of
          None \<Rightarrow> []
        | Some c \<Rightarrow> [\<lparr>ob_recipient = c, ob_message = ErrorResponse (ra_requestId a) error\<rparr>])"

lemma FailPendingReservation_eq:
  assumes inv: "lobby_inv s" and w: "map_of (lb_pending s) w = Some a"
    and r: "map_of (lb_rooms s) (ra_room a) = Some r" "r_state r = Starting"
  shows "FailPendingReservation w error s =
    Inr (given_up s w a r, \<lparr>sr_outbound = failure_messages s a r error,
      sr_audit = [start_failed_audit (map_of (lb_playerToConnection s) (ra_requester a)) a error],
      sr_actions = []\<rparr>)"
  using w r room_inv_wf [OF lobby_invD(3) [OF inv] r(1)]
  by (simp add: FailPendingReservation_def Let_def Room_ReturnToWaiting_def given_up_def
      failure_messages_def no_result_def split: option.split)

lemma FailPendingReservation_keeps:
  assumes inv: "lobby_inv s"
  shows "keeps (FailPendingReservation w error s)"
proof (cases "map_of (lb_pending s) w")
  case None
  then show ?thesis using inv by (simp add: FailPendingReservation_def)
next
  case (Some a)
  obtain r where r: "map_of (lb_rooms s) (ra_room a) = Some r" "r_state r = Starting" "room_wf r"
    using pending_room [OF inv Some] .
  have inv': "lobby_inv (given_up s w a r)" by (rule lobby_inv_given_up [OF inv Some r(1,2)])
  have "message_ok (given_up s w a r) x" if "x \<in> set (snapshot_messages
      (map_of (lb_playerToConnection s)) (r\<lparr>r_state := Waiting\<rparr>) None 0 (Room_Players r))" for x
    by (rule snapshot_messages_ok [OF inv' _ _ that]) (use r in simp_all)
  moreover have "c \<in> dom (map_of (lb_connections s))"
    if "map_of (lb_playerToConnection s) (ra_requester a) = Some c" for c
    by (rule lobby_inv_connected [OF inv that])
  ultimately have "message_ok (given_up s w a r) x" if "x \<in> set (failure_messages s a r error)" for x
    using that by (auto simp: failure_messages_def split: option.splits)
  with inv' show ?thesis
    by (simp add: FailPendingReservation_eq [OF inv Some r(1,2)] result_ok_def)
qed

section \<open>A match begins\<close>

definition marked ::
    "lobby \<Rightarrow> reservation_id \<Rightarrow> reserve_match_action \<Rightarrow> worker_id \<Rightarrow> room \<Rightarrow> lobby" where
  "marked s w a worker r =
     s\<lparr>lb_pending := om_erase w (lb_pending s),
       lb_roomToReservation := om_erase (ra_room a) (lb_roomToReservation s),
       lb_rooms := om_set (ra_room a) (r\<lparr>r_state := InMatch\<rparr>) (lb_rooms s),
       lb_activeMatches := om_set (ra_match a)
         \<lparr>am_room = ra_room a, am_worker = worker, am_tickets = participant_tickets a\<rparr>
         (lb_activeMatches s)\<rparr>"

lemma marked_fields [simp]:
  "lb_connections (marked s w a worker r) = lb_connections s"
  "lb_playerToConnection (marked s w a worker r) = lb_playerToConnection s"
  "lb_tickets (marked s w a worker r) = lb_tickets s"
  by (simp_all add: marked_def)

lemma lobby_inv_marked:
  assumes inv: "lobby_inv s" and w: "map_of (lb_pending s) w = Some a"
    and r: "map_of (lb_rooms s) (ra_room a) = Some r" and worker: "idval worker \<noteq> 0"
  shows "lobby_inv (marked s w a worker r)" and "ra_match a \<notin> dom (map_of (lb_activeMatches s))"
proof -
  let ?am = "\<lparr>am_room = ra_room a, am_worker = worker, am_tickets = participant_tickets a\<rparr>"
  have wf: "room_wf r" by (rule room_inv_wf [OF lobby_invD(3) [OF inv] r(1)])
  have "pending_inv ((map_of (lb_rooms s))(ra_room a \<mapsto> r\<lparr>r_state := InMatch\<rparr>))
      ((map_of (lb_pending s))(w := None)) ((map_of (lb_roomToReservation s))(ra_room a := None))
      (lb_nextMatch s) (lb_nextReservation s)"
    by (rule pending_inv_end [OF lobby_invD(4) [OF inv] w]) simp
  moreover note active_inv_mark [OF lobby_invD(5) [OF inv] lobby_invD(4) [OF inv] w,
      of ?am "r\<lparr>r_state := InMatch\<rparr>"]
  then have act: "active_inv ((map_of (lb_rooms s))(ra_room a \<mapsto> r\<lparr>r_state := InMatch\<rparr>))
      ((map_of (lb_pending s))(w := None)) ((map_of (lb_activeMatches s))(ra_match a \<mapsto> ?am)) (lb_nextMatch s)"
    "ra_match a \<notin> dom (map_of (lb_activeMatches s))"
    using worker by simp_all
  moreover have "room_inv ((map_of (lb_rooms s))(ra_room a \<mapsto> r\<lparr>r_state := InMatch\<rparr>))
      (map_of (lb_playerToRoom s)) (lb_nextRoom s) (lb_nextPlayer s)"
    using room_inv_update [OF lobby_invD(3) [OF inv] r(1)] wf by simp
  moreover have "ticket_inv (live (lb_tickets s))
      ((map_of (lb_pending s))(w := None)) ((map_of (lb_activeMatches s))(ra_match a \<mapsto> ?am))"
    by (rule ticket_inv_mark [OF lobby_invD(6) [OF inv] w act(2)]) simp
  moreover have "om_contains (lb_rooms s) (ra_room a)" using r by (simp add: om_contains_def)
  ultimately show "lobby_inv (marked s w a worker r)"
    using inv by (simp add: marked_def lobby_inv_def maps_wf_def)
  show "ra_match a \<notin> dom (map_of (lb_activeMatches s))" by (rule act(2))
qed

text \<open>Whether a worker's acceptance is good: its identity, its endpoint, and time left.\<close>

definition acceptable ::
    "reserve_match_action \<Rightarrow> match_id \<Rightarrow> worker_id \<Rightarrow> game_endpoint \<Rightarrow> time_point \<Rightarrow> bool" where
  "acceptable a match worker endpoint now \<longleftrightarrow>
     ra_match a = match \<and> idval worker \<noteq> 0 \<and> IsValidEndpoint endpoint
     \<and> now + nanoseconds_per_second \<le> ra_issuedAt a + ticket_lifetime"

definition remaining_seconds :: "reserve_match_action \<Rightarrow> time_point \<Rightarrow> int" where
  "remaining_seconds a now =
     trunc_div (ra_issuedAt a + ticket_lifetime - now) nanoseconds_per_second"

lemma remaining_seconds_iff:
  "1 \<le> remaining_seconds a now \<longleftrightarrow> now + nanoseconds_per_second \<le> ra_issuedAt a + ticket_lifetime"
  using trunc_div_pos_iff [of nanoseconds_per_second "ra_issuedAt a + ticket_lifetime - now"]
  by (auto simp: remaining_seconds_def nanoseconds_per_second_def)

definition advertised_seconds :: "reserve_match_action \<Rightarrow> time_point \<Rightarrow> u16" where
  "advertised_seconds a now = of_int (min (remaining_seconds a now) (int MatchTicketLifetimeSeconds))"

lemma advertised_seconds:
  assumes "1 \<le> remaining_seconds a now"
  shows "0 < advertised_seconds a now" and "unat (advertised_seconds a now) \<le> MatchTicketLifetimeSeconds"
    and "int (unat (advertised_seconds a now)) \<le> remaining_seconds a now"
proof -
  let ?n = "min (remaining_seconds a now) (int MatchTicketLifetimeSeconds)"
  have n: "1 \<le> ?n" "?n \<le> 60" using assms by (auto simp: MatchTicketLifetimeSeconds_def)
  have "uint (of_int ?n :: u16) = ?n"
    using n by (simp add: uint_word_of_int) 
  then have u: "int (unat (advertised_seconds a now)) = ?n"
    by (simp add: advertised_seconds_def)
  then show "int (unat (advertised_seconds a now)) \<le> remaining_seconds a now" by simp
  have "0 < unat (advertised_seconds a now)" using u n(1) by linarith
  then show "0 < advertised_seconds a now" by (simp add: word_less_nat_alt)
  show "unat (advertised_seconds a now) \<le> MatchTicketLifetimeSeconds" using u by linarith
qed

text \<open>\<^verbatim>\<open>IsValidEndpoint\<close> is the encoder's condition on host and ports.\<close>

lemma IsValidEndpoint_iff:
  "IsValidEndpoint e \<longleftrightarrow> IsVisibleAsciiHost (ep_host e) \<and> ep_tcpPort e \<noteq> 0 \<and> ep_udpPort e \<noteq> 0"
  by (auto simp: IsValidEndpoint_def IsVisibleAsciiHost_def)

lemma HandleReservationReady_refused:
  assumes "map_of (lb_pending s) w = Some a" and "ra_match a = m" and "\<not> acceptable a m worker endpoint now"
  shows "HandleReservationReady w m worker endpoint now s = FailPendingReservation w WorkerUnavailable s"
  using assms remaining_seconds_iff [of a now]
  by (auto simp: HandleReservationReady_def acceptable_def remaining_seconds_def Let_def)

lemma ticket_messages_state:
  "lb_playerToConnection s' = lb_playerToConnection s \<Longrightarrow>
     ticket_messages requester a endpoint n s' = ticket_messages requester a endpoint n s"
  by (simp add: ticket_messages_def)

lemma HandleReservationReady_accepted:
  assumes inv: "lobby_inv s" and w: "map_of (lb_pending s) w = Some a"
    and r: "map_of (lb_rooms s) (ra_room a) = Some r" "r_state r = Starting"
    and ok: "acceptable a m worker endpoint now"
  shows "HandleReservationReady w m worker endpoint now s =
    (let requester = map_of (lb_playerToConnection s) (ra_requester a)
     in Inr (marked s w a worker r,
         \<lparr>sr_outbound =
            snapshot_messages (map_of (lb_playerToConnection s)) (r\<lparr>r_state := InMatch\<rparr>)
              requester (ra_requestId a) (Room_Players r)
            @ ticket_messages requester a endpoint (advertised_seconds a now) (marked s w a worker r),
          sr_audit = [(Audit MatchStarted requester (Some (ra_requester a)) (Some (ra_room a)))
            \<lparr>au_match := Some (ra_match a), au_endpoint := Some endpoint\<rparr>],
          sr_actions = []\<rparr>))"
proof -
  have rem: "1 \<le> remaining_seconds a now" and match: "ra_match a = m"
    and valid: "idval worker \<noteq> 0" "IsValidEndpoint endpoint"
    using ok remaining_seconds_iff [of a now] by (simp_all add: acceptable_def)
  have new: "map_of (lb_activeMatches s) m = None"
    using lobby_inv_marked(2) [OF inv w r(1) valid(1)] match by auto
  have messages: "ticket_messages requester a endpoint n (marked s w a worker r) =
      ticket_messages requester a endpoint n s" for requester n
    by (rule ticket_messages_state) simp
  have messages': "ticket_messages requester a endpoint n (s\<lparr>lb_pending := x, lb_roomToReservation := y,
      lb_rooms := z, lb_activeMatches := u\<rparr>) = ticket_messages requester a endpoint n s"
    for requester n x y z u
    by (rule ticket_messages_state) simp
  show ?thesis
    unfolding messages
    using w r match valid rem new room_inv_wf [OF lobby_invD(3) [OF inv] r(1)]
    by (simp add: HandleReservationReady_def Let_def Room_MarkInMatch_def marked_def
        remaining_seconds_def advertised_seconds_def om_emplace_def om_contains_def no_result_def
        messages')
qed

lemma ticket_messages_ok:
  assumes inv: "lobby_inv s" and "IsValidEndpoint endpoint" and "1 \<le> remaining_seconds a now"
    and opaq: "list_all opaque_wf (participant_tickets a)"
    and m: "m \<in> set (ticket_messages requester a endpoint (advertised_seconds a now) s)"
  shows "message_ok s m"
proof -
  from m obtain x where x: "x \<in> set (ra_participants a)"
    "map_of (lb_playerToConnection s) (rp_player x) = Some (ob_recipient m)"
    and msg: "\<exists>q. ob_message m = MatchTicket
                \<lparr>mt_requestId = q, mt_match = ra_match a, mt_ticket = rp_ticket x,
                 mt_host = ep_host endpoint, mt_tcpPort = ep_tcpPort endpoint,
                 mt_udpPort = ep_udpPort endpoint, mt_expiresInSeconds = advertised_seconds a now\<rparr>"
    by (auto simp: ticket_messages_def set_map_filter split: option.splits)
  have "opaque_wf (rp_ticket x)"
    using opaq x(1) by (auto simp: list_all_iff participant_tickets_def)
  then show ?thesis
    using msg lobby_inv_connected [OF inv x(2)] assms(2) advertised_seconds [OF assms(3)]
    by (auto simp: message_ok_def IsValidTicket_def IsValidEndpoint_iff)
qed

lemma HandleReservationReady_keeps:
  assumes inv: "lobby_inv s"
  shows "keeps (HandleReservationReady w m worker endpoint now s)"
proof (cases "map_of (lb_pending s) w")
  case None
  then show ?thesis using inv by (simp add: HandleReservationReady_def)
next
  case (Some a)
  show ?thesis
  proof (cases "acceptable a m worker endpoint now")
    case False
    show ?thesis
    proof (cases "ra_match a = m")
      case True
      show ?thesis
        using HandleReservationReady_refused [OF Some True False] FailPendingReservation_keeps [OF inv]
        by simp
    next
      case False
      then show ?thesis using inv Some by (simp add: HandleReservationReady_def)
    qed
  next
    case True
    obtain r where r: "map_of (lb_rooms s) (ra_room a) = Some r" "r_state r = Starting" "room_wf r"
      using pending_room [OF inv Some] .
    have valid: "idval worker \<noteq> 0" "IsValidEndpoint endpoint" "1 \<le> remaining_seconds a now"
      using True remaining_seconds_iff [of a now] by (simp_all add: acceptable_def)
    let ?s = "marked s w a worker r"
    have inv': "lobby_inv ?s" by (rule lobby_inv_marked(1) [OF inv Some r(1) valid(1)])
    have "message_ok ?s x" if "x \<in> set (snapshot_messages (map_of (lb_playerToConnection s))
        (r\<lparr>r_state := InMatch\<rparr>) requester q (Room_Players r))" for x requester q
      by (rule snapshot_messages_ok [OF inv' _ _ that]) (use r in simp_all)
    moreover note ticket_messages_ok [OF inv' valid(2,3)
        pending_inv_action(3) [OF lobby_invD(4) [OF inv] Some]]
    ultimately show ?thesis
      using inv' by (auto simp: HandleReservationReady_accepted [OF inv Some r(1,2) True] Let_def result_ok_def)
  qed
qed

section \<open>A match ends\<close>

definition finished :: "lobby \<Rightarrow> match_id \<Rightarrow> active_match \<Rightarrow> room \<Rightarrow> lobby" where
  "finished s m am r =
     s\<lparr>lb_activeMatches := om_erase m (lb_activeMatches s),
       lb_tickets := registry_Revoke (am_tickets am) (lb_tickets s),
       lb_playerToRoom := fold om_erase (Room_Players r) (lb_playerToRoom s),
       lb_rooms := om_erase (am_room am) (lb_rooms s)\<rparr>"

lemma finished_fields [simp]:
  "lb_connections (finished s m am r) = lb_connections s"
  "lb_playerToConnection (finished s m am r) = lb_playerToConnection s"
  by (simp_all add: finished_def)

definition over_messages :: "connection_id list \<Rightarrow> bool \<Rightarrow> lobby \<Rightarrow> outbound list" where
  "over_messages recipients unavailable s =
     concat (map (\<lambda>c.
       (if unavailable then [\<lparr>ob_recipient = c, ob_message = ErrorResponse 0 MatchUnavailable\<rparr>] else [])
       @ [\<lparr>ob_recipient = c, ob_message = RoomListResponse 0 (waiting_list (lb_rooms s))\<rparr>]) recipients)"

lemma match_over_messages_eq:
  "lobby_inv s \<Longrightarrow> match_over_messages recipients unavailable s = Inr (over_messages recipients unavailable s)"
  by (induction recipients) (auto simp: RoomList_eq over_messages_def)

lemma lobby_inv_finished:
  assumes inv: "lobby_inv s" and m: "map_of (lb_activeMatches s) m = Some am"
    and r: "map_of (lb_rooms s) (am_room am) = Some r" "r_state r = InMatch"
  shows "lobby_inv (finished s m am r)"
proof -
  have "room_inv ((map_of (lb_rooms s))(am_room am := None))
      (map_of (fold om_erase (Room_Players r) (lb_playerToRoom s))) (lb_nextRoom s) (lb_nextPlayer s)"
    by (rule room_inv_drop [OF lobby_invD(3) [OF inv] r(1)]) (simp add: om.lookup_remove_all)
  moreover have "same_in_state Starting (map_of (lb_rooms s)) ((map_of (lb_rooms s))(am_room am := None))"
    by (rule same_in_state_remove) (use r in auto)
  then have "pending_inv ((map_of (lb_rooms s))(am_room am := None)) (map_of (lb_pending s))
      (map_of (lb_roomToReservation s)) (lb_nextMatch s) (lb_nextReservation s)"
    using pending_inv_cong lobby_invD(4) [OF inv] by blast
  moreover have "ticket_inv (live (registry_Revoke (am_tickets am) (lb_tickets s)))
      (map_of (lb_pending s)) ((map_of (lb_activeMatches s))(m := None))"
    by (rule ticket_inv_finish [where am = am, OF lobby_invD(6) [OF inv] m]) (simp add: live_Revoke)
  moreover have "tg_source (registry_Revoke (am_tickets am) (lb_tickets s)) = tg_source (lb_tickets s)"
    by (simp add: registry_Revoke_def)
  moreover have "length (om_erase (am_room am) (lb_rooms s)) \<le> lb_maximumRooms s"
    using length_om_erase_le [of "am_room am" "lb_rooms s"] lobby_invD(1) [OF inv]
    by (simp add: maps_wf_def)
  ultimately show ?thesis
    using inv active_inv_finish [OF lobby_invD(5) [OF inv] m]
    by (simp add: finished_def lobby_inv_def maps_wf_def om.wf_remove_all)
qed

lemma FinishActiveMatch_eq:
  assumes inv: "lobby_inv s" and m: "map_of (lb_activeMatches s) m = Some am"
    and r: "map_of (lb_rooms s) (am_room am) = Some r" "r_state r = InMatch"
  shows "FinishActiveMatch (am_worker am) m unavailable s =
    Inr (finished s m am r, \<lparr>sr_outbound =
        over_messages (match_recipients (Room_Players r) s) unavailable (finished s m am r),
      sr_audit = [Audit RoomDeleted None None (Some (am_room am))], sr_actions = []\<rparr>)"
proof -
  have "match_recipients (Room_Players r)
      (s\<lparr>lb_activeMatches := x, lb_tickets := y\<rparr>) = match_recipients (Room_Players r) s" for x y
    by (simp add: match_recipients_def)
  then show ?thesis
    using m r match_over_messages_eq [OF lobby_inv_finished [OF inv m r]]
    by (simp add: FinishActiveMatch_def Let_def finished_def no_result_def)
qed

lemma FinishActiveMatch_keeps:
  assumes inv: "lobby_inv s"
  shows "keeps (FinishActiveMatch worker m unavailable s)"
proof (cases "\<exists>am. map_of (lb_activeMatches s) m = Some am \<and> am_worker am = worker")
  case False
  then show ?thesis using inv by (auto simp: FinishActiveMatch_def split: option.split)
next
  case True
  then obtain am where am: "map_of (lb_activeMatches s) m = Some am" "am_worker am = worker" by blast
  obtain r where r: "map_of (lb_rooms s) (am_room am) = Some r" "r_state r = InMatch"
    using active_inv_room [OF lobby_invD(5) [OF inv] am(1)] by blast
  let ?s = "finished s m am r"
  have inv': "lobby_inv ?s" by (rule lobby_inv_finished [OF inv am(1) r])
  have "message_ok ?s x" if "x \<in> set (over_messages (match_recipients (Room_Players r) s) unavailable ?s)" for x
    using that lobby_inv_connected [OF inv] message_ok_RoomList [OF inv']
    by (fastforce simp: over_messages_def match_recipients_def set_map_filter split: if_splits)
  with inv' show ?thesis
    using FinishActiveMatch_eq [OF inv am(1) r, of unavailable] am(2) by (simp add: result_ok_def)
qed

section \<open>Disconnections\<close>

text \<open>What the two ways of leaving promise: the connections are as before, and no message goes to
  the connection that is about to close.\<close>

definition leaves :: "connection_id \<Rightarrow> lobby \<Rightarrow> handled \<Rightarrow> bool" where
  "leaves c s h \<longleftrightarrow> returns h (\<lambda>(s', result).
     lobby_inv s' \<and> lb_connections s' = lb_connections s
     \<and> lb_playerToConnection s' = lb_playerToConnection s
     \<and> (\<forall>m \<in> set (sr_outbound result). message_ok s' m \<and> ob_recipient m \<noteq> c))"

lemma leaves_Inr [simp]:
  "leaves c s (Inr (s', result)) \<longleftrightarrow>
     lobby_inv s' \<and> lb_connections s' = lb_connections s
     \<and> lb_playerToConnection s' = lb_playerToConnection s
     \<and> (\<forall>m \<in> set (sr_outbound result). message_ok s' m \<and> ob_recipient m \<noteq> c)"
  by (simp add: leaves_def)

lemma LeaveWaitingRoom_leaves:
  assumes inv: "lobby_inv s" and c: "map_of (lb_playerToConnection s) p = Some c"
    and p: "map_of (lb_playerToRoom s) p = Some rid"
    and r: "map_of (lb_rooms s) rid = Some r" "r_state r = Waiting"
  shows "leaves c s (LeaveWaitingRoom p None 0 s)"
proof -
  obtain r' audit where leave: "Room_Leave p r = (None, r')"
    and eq: "LeaveWaitingRoom p None 0 s = Inr (left_state p rid r' s,
             \<lparr>sr_outbound = left_messages None 0 r' (left_state p rid r' s),
              sr_audit = audit, sr_actions = []\<rparr>)"
    using LeaveWaitingRoom_left [OF inv p r] by blast
  let ?s = "left_state p rid r' s"
  have inv': "lobby_inv ?s" by (rule lobby_inv_left [OF inv p r(1) leave])
  have "message_ok ?s m \<and> ob_recipient m \<noteq> c" if "m \<in> set (left_messages None 0 r' ?s)" for m
    using left_messages_ok [OF inv' room_inv_wf [OF lobby_invD(3) [OF inv] r(1)] leave _ that]
      left_messages_others [OF inv' leave _ that] c by simp
  with inv' show ?thesis by (simp add: eq)
qed

lemma DisconnectStartingPlayer_eq:
  assumes inv: "lobby_inv s" and p: "map_of (lb_playerToRoom s) p = Some rid"
    and r: "map_of (lb_rooms s) rid = Some r" "r_state r = Starting"
  shows "\<exists>w a r' audit. map_of (lb_pending s) w = Some a \<and> ra_room a = rid \<and> ra_reservation a = w
    \<and> Room_Leave p (r\<lparr>r_state := Waiting\<rparr>) = (None, r')
    \<and> DisconnectStartingPlayer p rid s =
        Inr (left_state p rid r' (given_up s w a r),
          \<lparr>sr_outbound = left_messages None 0 r' (left_state p rid r' (given_up s w a r))
             @ (if ra_requester a = p then [] else
                  case map_of (lb_playerToConnection s) (ra_requester a) of
                    None \<Rightarrow> []
                  | Some c \<Rightarrow> [\<lparr>ob_recipient = c, ob_message = ErrorResponse (ra_requestId a) WorkerUnavailable\<rparr>]),
           sr_audit = audit, sr_actions = [CancelReservationAction w (ra_match a)]\<rparr>)"
proof -
  obtain w where w: "map_of (lb_roomToReservation s) rid = Some w"
    using lobby_invD(4) [OF inv] r unfolding pending_inv_def by blast
  then obtain a where a: "map_of (lb_pending s) w = Some a" "ra_room a = rid"
    using pending_inv_rtor [OF lobby_invD(4) [OF inv]] by blast
  have res: "ra_reservation a = w" using pending_inv_action(1) [OF lobby_invD(4) [OF inv] a(1)] .
  let ?s = "given_up s w a r"
  have inv': "lobby_inv ?s" by (rule lobby_inv_given_up [OF inv a(1)]) (use r a in simp_all)
  have "\<exists>r' audit. Room_Leave p (r\<lparr>r_state := Waiting\<rparr>) = (None, r')
    \<and> LeaveWaitingRoom p None 0 ?s =
        Inr (left_state p rid r' ?s,
             \<lparr>sr_outbound = left_messages None 0 r' (left_state p rid r' ?s),
              sr_audit = audit, sr_actions = []\<rparr>)"
    by (rule LeaveWaitingRoom_left [OF inv']) (use p a in simp_all)
  then obtain r' audit where leave: "Room_Leave p (r\<lparr>r_state := Waiting\<rparr>) = (None, r')"
    and eq: "LeaveWaitingRoom p None 0 ?s =
        Inr (left_state p rid r' ?s,
             \<lparr>sr_outbound = left_messages None 0 r' (left_state p rid r' ?s),
              sr_audit = audit, sr_actions = []\<rparr>)" by blast
  have st: "s\<lparr>lb_pending := om_erase w (lb_pending s),
          lb_roomToReservation := om_erase rid (lb_roomToReservation s),
          lb_tickets := registry_Revoke (participant_tickets a) (lb_tickets s),
          lb_rooms := om_set rid (r\<lparr>r_state := Waiting\<rparr>) (lb_rooms s)\<rparr> = ?s"
    using a(2) by (simp add: given_up_def)
  have "\<exists>audit. DisconnectStartingPlayer p rid s =
        Inr (left_state p rid r' ?s,
          \<lparr>sr_outbound = left_messages None 0 r' (left_state p rid r' ?s)
             @ (if ra_requester a = p then [] else
                  case map_of (lb_playerToConnection s) (ra_requester a) of
                    None \<Rightarrow> []
                  | Some c \<Rightarrow> [\<lparr>ob_recipient = c, ob_message = ErrorResponse (ra_requestId a) WorkerUnavailable\<rparr>]),
           sr_audit = audit, sr_actions = [CancelReservationAction w (ra_match a)]\<rparr>)"
    using w a r res
    by (simp add: DisconnectStartingPlayer_def Let_def Room_ReturnToWaiting_def st eq split: option.split)
  with a res leave show ?thesis by blast
qed

lemma DisconnectStartingPlayer_leaves:
  assumes inv: "lobby_inv s" and c: "map_of (lb_playerToConnection s) p = Some c"
    and p: "map_of (lb_playerToRoom s) p = Some rid"
    and r: "map_of (lb_rooms s) rid = Some r" "r_state r = Starting"
  shows "leaves c s (DisconnectStartingPlayer p rid s)"
proof -
  obtain w a r' audit where a: "map_of (lb_pending s) w = Some a" "ra_room a = rid"
    and leave: "Room_Leave p (r\<lparr>r_state := Waiting\<rparr>) = (None, r')"
    and eq: "DisconnectStartingPlayer p rid s =
        Inr (left_state p rid r' (given_up s w a r),
          \<lparr>sr_outbound = left_messages None 0 r' (left_state p rid r' (given_up s w a r))
             @ (if ra_requester a = p then [] else
                  case map_of (lb_playerToConnection s) (ra_requester a) of
                    None \<Rightarrow> []
                  | Some c \<Rightarrow> [\<lparr>ob_recipient = c, ob_message = ErrorResponse (ra_requestId a) WorkerUnavailable\<rparr>]),
           sr_audit = audit, sr_actions = [CancelReservationAction w (ra_match a)]\<rparr>)"
    using DisconnectStartingPlayer_eq [OF inv p r] by blast
  let ?s = "left_state p rid r' (given_up s w a r)"
  have "lobby_inv (given_up s w a r)" by (rule lobby_inv_given_up [OF inv a(1)]) (use r a in simp_all)
  then have inv': "lobby_inv ?s"
    by (rule lobby_inv_left [OF _ _ _ leave]) (use p a in simp_all)
  have wf: "room_wf (r\<lparr>r_state := Waiting\<rparr>)"
    using room_inv_wf [OF lobby_invD(3) [OF inv] r(1)] by simp
  have "message_ok ?s m \<and> ob_recipient m \<noteq> c" if "m \<in> set (left_messages None 0 r' ?s)" for m
    using left_messages_ok [OF inv' wf leave _ that] left_messages_others [OF inv' leave _ that] c
    by simp
  moreover have "c' \<in> dom (map_of (lb_connections s)) \<and> c' \<noteq> c"
    if "map_of (lb_playerToConnection s) (ra_requester a) = Some c'" "ra_requester a \<noteq> p" for c'
    using that lobby_inv_connected [OF inv that(1)] conn_inv_inj [OF lobby_invD(2) [OF inv] c] by auto
  ultimately show ?thesis using inv'
    by (cases "ra_requester a = p"; cases "map_of (lb_playerToConnection s) (ra_requester a)")
       (auto simp: eq)
qed

lemma lobby_inv_close:
  assumes inv: "lobby_inv s" and "map_of (lb_connections s) c = Some st" and "cs_player st = Some p"
  shows "lobby_inv (s\<lparr>lb_playerToConnection := om_erase p (lb_playerToConnection s),
    lb_connections := om_erase c (lb_connections s)\<rparr>)"
  using inv conn_inv_close [OF lobby_invD(2) [OF inv] assms(2,3)]
  by (simp add: lobby_inv_def maps_wf_def)

lemma lobby_inv_close_stranger:
  assumes inv: "lobby_inv s" and "map_of (lb_connections s) c = Some st" and "cs_player st = None"
  shows "lobby_inv (s\<lparr>lb_connections := om_erase c (lb_connections s)\<rparr>)"
  using inv conn_inv_close_stranger [OF lobby_invD(2) [OF inv] assms(2,3)]
  by (simp add: lobby_inv_def maps_wf_def)

text \<open>The part of \<^verbatim>\<open>Disconnect\<close> before the connection is erased.\<close>

definition depart :: "player_id \<Rightarrow> lobby \<Rightarrow> handled" where
  "depart p s =
     (case map_of (lb_playerToRoom s) p of
        None \<Rightarrow> Inr (s, no_result)
      | Some roomId \<Rightarrow>
        (case map_of (lb_rooms s) roomId of
           None \<Rightarrow> Inr (s, no_result)
         | Some room \<Rightarrow>
             bind_throws (Room_Snapshot 0 room) (\<lambda>snapshot.
               if sn_state snapshot = Starting then DisconnectStartingPlayer p roomId s
               else if sn_state snapshot = Waiting then LeaveWaitingRoom p None 0 s
               else Inr (s, no_result))))"

lemma no_result_outbound [simp]: "sr_outbound no_result = []"
  by (simp add: no_result_def)

lemma depart_leaves:
  assumes inv: "lobby_inv s" and c: "map_of (lb_playerToConnection s) p = Some c"
  shows "leaves c s (depart p s)"
proof (cases "map_of (lb_playerToRoom s) p")
  case None
  then show ?thesis using inv by (simp add: depart_def)
next
  case (Some rid)
  then obtain r where r: "map_of (lb_rooms s) rid = Some r" "room_wf r"
    using lobby_member [OF inv] by blast
  then have "depart p s =
      (if r_state r = Starting then DisconnectStartingPlayer p rid s
       else if r_state r = Waiting then LeaveWaitingRoom p None 0 s else Inr (s, no_result))"
    using Some by (simp add: depart_def)
  then show ?thesis
    using DisconnectStartingPlayer_leaves [OF inv c Some r(1)]
      LeaveWaitingRoom_leaves [OF inv c Some r(1)] inv by simp
qed

lemma Disconnect_eq:
  assumes "map_of (lb_connections s) c = Some st" and "cs_player st = Some p"
  shows "Disconnect c s = bind_throws (depart p s) (\<lambda>(s, result).
    Inr (s\<lparr>lb_playerToConnection := om_erase p (lb_playerToConnection s),
           lb_connections := om_erase c (lb_connections s)\<rparr>, result))"
proof -
  have "Disconnect c s = bind_throws (bind_throws (depart p s) (\<lambda>(s, result).
      Inr (s\<lparr>lb_playerToConnection := om_erase p (lb_playerToConnection s)\<rparr>, result)))
    (\<lambda>(s, result). Inr (s\<lparr>lb_connections := om_erase c (lb_connections s)\<rparr>, result))"
    using assms by (simp add: Disconnect_def depart_def)
  then show ?thesis by (cases "depart p s") auto
qed

lemma Disconnect_keeps:
  assumes inv: "lobby_inv s"
  shows "keeps (Disconnect c s)"
proof (cases "map_of (lb_connections s) c")
  case None
  then show ?thesis using inv by (simp add: Disconnect_def)
next
  case (Some st)
  show ?thesis
  proof (cases "cs_player st")
    case None
    then show ?thesis
      using Some lobby_inv_close_stranger [OF inv Some None] by (simp add: Disconnect_def)
  next
    case (Some p)
    note st = \<open>map_of (lb_connections s) c = Some st\<close>
    have c: "map_of (lb_playerToConnection s) p = Some c"
      by (rule conn_inv_player [OF lobby_invD(2) [OF inv] st Some])
    obtain s' result where eq: "depart p s = Inr (s', result)" and inv': "lobby_inv s'"
      and same: "lb_connections s' = lb_connections s"
      and messages: "\<And>m. m \<in> set (sr_outbound result) \<Longrightarrow> message_ok s' m \<and> ob_recipient m \<noteq> c"
      using depart_leaves [OF inv c] by (auto simp: leaves_def returns_iff)
    show ?thesis
      using lobby_inv_close [OF inv' _ Some, of c] st same messages
      by (auto simp: Disconnect_eq [OF st Some] eq result_ok_def message_ok_def)
  qed
qed

section \<open>Events\<close>

lemma HandleWorkerEvent_keeps:
  assumes inv: "lobby_inv s"
  shows "keeps (HandleWorkerEvent event now s)"
proof (cases event)
  case (ReservationFailedEvent w m)
  then show ?thesis using inv FailPendingReservation_keeps [OF inv]
    by (auto simp: HandleWorkerEvent_def split: option.split)
qed (use HandleReservationReady_keeps [OF inv] FinishActiveMatch_keeps [OF inv]
     in \<open>simp_all add: HandleWorkerEvent_def\<close>)

lemma OpenConnection_inv:
  assumes inv: "lobby_inv s"
  shows "lobby_inv (snd (OpenConnection s))"
proof (cases "lb_nextConnection s")
  case None
  then show ?thesis using inv by (simp add: OpenConnection_def TakeNext_def)
next
  case (Some v)
  let ?st = "\<lparr>cs_player = None, cs_lastRequestId = 0\<rparr>"
  have conn: "conn_inv (map_of (lb_connections s)) (map_of (lb_playerToConnection s)) (Some v) (lb_nextPlayer s)"
    using lobby_invD(2) [OF inv] Some by simp
  have "\<not> om_contains (lb_connections s) (ConnectionId v)"
  proof
    assume "om_contains (lb_connections s) (ConnectionId v)"
    then have "ConnectionId v \<in> dom (map_of (lb_connections s))" by (simp add: om_contains_iff)
    then have "below (Some v) (idval (ConnectionId v))" using conn unfolding conn_inv_def by blast
    then show False by (simp add: below_def)
  qed
  then have "snd (OpenConnection s) = s\<lparr>lb_nextConnection := snd (TakeNext (Some v)),
      lb_connections := om_set (ConnectionId v) ?st (lb_connections s)\<rparr>"
    using Some by (simp add: OpenConnection_def TakeNext_def om_emplace_new)
  then show ?thesis
    using inv conn_inv_open [OF conn, of 0] by (simp add: lobby_inv_def maps_wf_def)
qed

text \<open>The request is accepted: its identifier is above the connection's last one.\<close>

definition in_order :: "client_message \<Rightarrow> connection_state \<Rightarrow> bool" where
  "in_order message st \<longleftrightarrow> cs_lastRequestId st < client_RequestId message"

lemma in_order_iff:
  "in_order message st \<longleftrightarrow>
     \<not> (client_RequestId message = 0 \<or> client_RequestId message \<le> cs_lastRequestId st)"
  by (auto simp: in_order_def)

definition accept_request :: "connection_id \<Rightarrow> connection_state \<Rightarrow> u32 \<Rightarrow> lobby \<Rightarrow> lobby" where
  "accept_request c st q s =
     s\<lparr>lb_connections := om_set c (st\<lparr>cs_lastRequestId := q\<rparr>) (lb_connections s)\<rparr>"

lemma lobby_inv_accept:
  "lobby_inv s \<Longrightarrow> map_of (lb_connections s) c = Some st \<Longrightarrow> lobby_inv (accept_request c st q s)"
  unfolding accept_request_def by (rule lobby_inv_request) simp_all

lemma Handle_out_of_order:
  "map_of (lb_connections s) c = Some st \<Longrightarrow> \<not> in_order message st \<Longrightarrow>
     Handle c message now s = Inr (s, ErrorResult c (client_RequestId message) RequestOutOfOrder)"
  by (auto simp: Handle_def in_order_iff Let_def)

lemma Handle_answers:
  assumes inv: "lobby_inv s" and c: "map_of (lb_connections s) c = Some st"
    and order: "in_order message st"
  shows "answers c (client_RequestId message) (Handle c message now s)"
proof -
  let ?q = "client_RequestId message" and ?st = "st\<lparr>cs_lastRequestId := client_RequestId message\<rparr>"
  let ?s = "accept_request c st ?q s"
  have q: "?q \<noteq> 0" and go: "\<not> (?q = 0 \<or> ?q \<le> cs_lastRequestId st)"
    using order in_order_iff by blast+
  have inv': "lobby_inv ?s" by (rule lobby_inv_accept [OF inv c])
  have c': "map_of (lb_connections ?s) c = Some ?st" by (simp add: accept_request_def)
  show ?thesis
  proof (cases "cs_player st")
    case None
    then show ?thesis
      using c go inv' q HandleHello_answers [OF inv' c' q] c'
      by (cases message) (auto simp: Handle_def Let_def accept_request_def)
  next
    case (Some p)
    have p: "map_of (lb_playerToConnection ?s) p = Some c"
      by (rule conn_inv_player [OF lobby_invD(2) [OF inv'] c']) (simp add: Some)
    show ?thesis
      using c go Some HandleHello_answers [OF inv' c' q] HandleListRooms_answers [OF inv' c' q]
        HandleCreateRoom_answers [OF inv' p q] HandleJoinRoom_answers [OF inv' p q]
        HandleLeaveRoom_answers [OF inv' p q] HandleSetReady_answers [OF inv' p q]
        HandleStartMatch_answers [OF inv' p q]
      by (cases message) (simp_all add: Handle_def Let_def accept_request_def)
  qed
qed

lemma answers_keeps: "answers c q h \<Longrightarrow> keeps h"
  by (cases h) (auto simp: answers_def keeps_def)

lemma Handle_keeps:
  assumes inv: "lobby_inv s"
  shows "keeps (Handle c message now s)"
proof (cases "map_of (lb_connections s) c")
  case None
  then show ?thesis using inv by (simp add: Handle_def)
next
  case (Some st)
  show ?thesis
  proof (cases "in_order message st")
    case True
    then show ?thesis using Handle_answers [OF inv Some] answers_keeps by blast
  next
    case False
    show ?thesis using Handle_out_of_order [OF Some False, of now] inv Some by auto
  qed
qed

section \<open>The lobby as a machine\<close>

datatype lobby_event =
    Opened
  | Received connection_id client_message time_point
  | Disconnected connection_id
  | Worker worker_event time_point

text \<open>What an event leads to, with its messages.\<close>

fun lobby_handle :: "lobby \<Rightarrow> lobby_event \<Rightarrow> handled" where
  "lobby_handle s Opened = Inr (snd (OpenConnection s), no_result)"
| "lobby_handle s (Received c message now) = Handle c message now s"
| "lobby_handle s (Disconnected c) = Disconnect c s"
| "lobby_handle s (Worker event now) = HandleWorkerEvent event now s"

definition lobby_step :: "lobby \<Rightarrow> lobby_event \<Rightarrow> lobby throws" where
  "lobby_step s event = bind_throws (lobby_handle s event) (\<lambda>(s', result). Inr s')"

lemma lobby_handle_keeps: "lobby_inv s \<Longrightarrow> keeps (lobby_handle s event)"
  by (cases event) (simp_all add: OpenConnection_inv Handle_keeps Disconnect_keeps HandleWorkerEvent_keeps)

interpretation lobby_machine: invariant_machine lobby_step lobby_inv "\<lambda>_ _. True"
proof
  fix s event assume "lobby_inv s"
  then show "\<exists>s'. lobby_step s event = Inr s' \<and> lobby_inv s'"
    using lobby_handle_keeps [of s event] by (auto simp: keeps_def returns_iff lobby_step_def)
qed

lemma lobby_inv_initial:
  assumes "tg_tickets tickets = []" and "\<And>i t. tg_source tickets i = Some t \<Longrightarrow> opaque_wf t"
  shows "lobby_inv (LobbyService tickets config)"
  using assms
  by (simp add: lobby_inv_def LobbyService_def maps_wf_def conn_inv_def room_inv_def pending_inv_def
      active_inv_def ticket_inv_def registry_wf_def)

section \<open>Reachable states\<close>

inductive lobby_reachable :: "lobby \<Rightarrow> bool" where
  initial: "tg_tickets tickets = [] \<Longrightarrow> \<forall>i t. tg_source tickets i = Some t \<longrightarrow> opaque_wf t \<Longrightarrow>
    lobby_reachable (LobbyService tickets config)"
| event: "lobby_reachable s \<Longrightarrow> lobby_handle s e = Inr (s', result) \<Longrightarrow> lobby_reachable s'"

lemma lobby_reachable_inv: "lobby_reachable s \<Longrightarrow> lobby_inv s"
proof (induction rule: lobby_reachable.induct)
  case (initial tickets config)
  then show ?case by (intro lobby_inv_initial) simp_all
next
  case (event s e s' result)
  then show ?case using lobby_handle_keeps [of s e] by (simp add: keeps_def)
qed

section \<open>Request identifiers\<close>

text \<open>No request handler but the one for a hello touches the connections, and that one only
  assigns a player.\<close>

lemma HandleHello_connections:
  assumes "HandleHello c st q s = Inr (s', result)" and "map_of (lb_connections s) c = Some st"
  shows "\<exists>st'. map_of (lb_connections s') c = Some st' \<and> cs_lastRequestId st' = cs_lastRequestId st"
  using assms by (auto simp: HandleHello_def Let_def split: if_splits option.splits prod.splits)

lemma HandleListRooms_connections:
  "HandleListRooms c q s = Inr (s', result) \<Longrightarrow> lb_connections s' = lb_connections s"
  by (auto simp: HandleListRooms_def)

lemma HandleCreateRoom_connections:
  "HandleCreateRoom c p q s = Inr (s', result) \<Longrightarrow> lb_connections s' = lb_connections s"
  by (auto simp: HandleCreateRoom_def Let_def split: if_splits option.splits)

lemma HandleJoinRoom_connections:
  "HandleJoinRoom c p q rid s = Inr (s', result) \<Longrightarrow> lb_connections s' = lb_connections s"
  by (auto simp: HandleJoinRoom_def Let_def split: if_splits option.splits prod.splits)

lemma LeaveWaitingRoom_connections:
  assumes "LeaveWaitingRoom p requester q s = Inr (s', result)" and inv: "lobby_inv s"
  shows "lb_connections s' = lb_connections s"
proof (cases "map_of (lb_playerToRoom s) p")
  case None
  with assms(1) show ?thesis by (simp add: LeaveWaitingRoom_def)
next
  case (Some rid)
  then obtain r where r: "map_of (lb_rooms s) rid = Some r" using lobby_member [OF inv] by blast
  then show ?thesis
    using LeaveWaitingRoom_refused [OF inv Some r, of requester q]
      LeaveWaitingRoom_left [OF inv Some r, of requester q] assms(1)
    by (cases "r_state r = Waiting") auto
qed

lemma HandleSetReady_connections:
  "HandleSetReady c p q b s = Inr (s', result) \<Longrightarrow> lb_connections s' = lb_connections s"
  by (auto simp: HandleSetReady_def Let_def split: if_splits option.splits prod.splits)

lemma HandleStartMatch_connections:
  assumes "HandleStartMatch c p q now s = Inr (s', result)" and inv: "lobby_inv s"
  shows "lb_connections s' = lb_connections s"
proof (cases rule: HandleStartMatch_cases [OF inv, of c p q now])
  case (1 e)
  then show ?thesis using assms by simp
next
  case (2 rid r m v ok issued reg)
  then show ?thesis
    using assms HandleStartMatch_started [OF inv, of p now rid r m v issued reg c q]
      HandleStartMatch_rolled_back [OF inv, of p now rid r m v issued reg c q]
    by (cases ok) (auto simp: Let_def)
qed

text \<open>The dispatch of an accepted request.\<close>

definition dispatch ::
    "connection_id \<Rightarrow> connection_state \<Rightarrow> client_message \<Rightarrow> time_point \<Rightarrow> lobby \<Rightarrow> handled" where
  "dispatch c st message now s =
     (let q = client_RequestId message
      in case (message, cs_player st) of
           (ClientHello _, _) \<Rightarrow> HandleHello c st q s
         | (_, None) \<Rightarrow> Inr (s, ErrorResult c q NotWelcomed)
         | (ListRoomsRequest _, Some p) \<Rightarrow> HandleListRooms c q s
         | (CreateRoomRequest _, Some p) \<Rightarrow> HandleCreateRoom c p q s
         | (JoinRoomRequest _ rid, Some p) \<Rightarrow> HandleJoinRoom c p q rid s
         | (LeaveRoomRequest _, Some p) \<Rightarrow> HandleLeaveRoom c p q s
         | (SetReadyRequest _ ready, Some p) \<Rightarrow> HandleSetReady c p q ready s
         | (StartMatchRequest _, Some p) \<Rightarrow> HandleStartMatch c p q now s)"

lemma Handle_dispatch:
  assumes "map_of (lb_connections s) c = Some st" and "in_order message st"
  shows "Handle c message now s =
    dispatch c (st\<lparr>cs_lastRequestId := client_RequestId message\<rparr>) message now
      (accept_request c st (client_RequestId message) s)"
proof -
  have "\<not> (client_RequestId message = 0 \<or> client_RequestId message \<le> cs_lastRequestId st)"
    using assms(2) in_order_iff by blast
  with assms(1) show ?thesis
    by (cases message) (simp_all add: Handle_def dispatch_def accept_request_def Let_def split: option.split)
qed

lemma dispatch_connections:
  assumes h: "dispatch c st message now s = Inr (s', result)" and inv: "lobby_inv s"
    and no: "\<nexists>q. message = ClientHello q"
  shows "lb_connections s' = lb_connections s"
proof (cases "cs_player st")
  case None
  then show ?thesis using h no by (cases message) (simp_all add: dispatch_def)
next
  case (Some p)
  show ?thesis
  proof (cases message)
    case (ClientHello q)
    then show ?thesis using no by simp
  next
    case (ListRoomsRequest q)
    then show ?thesis using h Some HandleListRooms_connections by (simp add: dispatch_def)
  next
    case (CreateRoomRequest q)
    then show ?thesis using h Some HandleCreateRoom_connections by (simp add: dispatch_def)
  next
    case (JoinRoomRequest q rid)
    then show ?thesis using h Some HandleJoinRoom_connections by (simp add: dispatch_def)
  next
    case (LeaveRoomRequest q)
    then have "HandleLeaveRoom c p q s = Inr (s', result)" using h Some by (simp add: dispatch_def)
    then show ?thesis
      using LeaveWaitingRoom_connections [OF _ inv] by (auto simp: HandleLeaveRoom_def split: if_splits)
  next
    case (SetReadyRequest q ready)
    then show ?thesis using h Some HandleSetReady_connections by (simp add: dispatch_def)
  next
    case (StartMatchRequest q)
    then have "HandleStartMatch c p q now s = Inr (s', result)" using h Some by (simp add: dispatch_def)
    then show ?thesis by (rule HandleStartMatch_connections [OF _ inv])
  qed
qed

lemma Handle_lastRequestId:
  assumes "Handle c message now s = Inr (s', result)" and c: "map_of (lb_connections s) c = Some st"
    and order: "in_order message st" and inv: "lobby_inv s"
  shows "\<exists>st'. map_of (lb_connections s') c = Some st' \<and> cs_lastRequestId st' = client_RequestId message"
proof -
  let ?q = "client_RequestId message" and ?st = "st\<lparr>cs_lastRequestId := client_RequestId message\<rparr>"
  let ?s = "accept_request c st ?q s"
  have c': "map_of (lb_connections ?s) c = Some ?st" by (simp add: accept_request_def)
  have inv': "lobby_inv ?s" by (rule lobby_inv_accept [OF inv c])
  have h: "dispatch c ?st message now ?s = Inr (s', result)"
    using assms(1) Handle_dispatch [OF c order] by simp
  show ?thesis
  proof (cases "\<exists>q. message = ClientHello q")
    case True
    then have "HandleHello c ?st ?q ?s = Inr (s', result)"
      using h by (auto simp: dispatch_def)
    from HandleHello_connections [OF this c'] show ?thesis by auto
  next
    case False
    then have "lb_connections s' = lb_connections ?s"
      by (rule dispatch_connections [OF h inv'])
    with c' show ?thesis by simp
  qed
qed

section \<open>Request identifiers over time\<close>

text \<open>A connection that is not closed keeps at least the request identifier it has reached, whatever
  else happens in the lobby.\<close>

definition has_reached :: "connection_id \<Rightarrow> u32 \<Rightarrow> lobby \<Rightarrow> bool" where
  "has_reached c q s \<longleftrightarrow> (\<exists>st. map_of (lb_connections s) c = Some st \<and> q \<le> cs_lastRequestId st)"

lemma HandleHello_others:
  assumes "HandleHello c st q s = Inr (s', result)" and "c' \<noteq> c"
  shows "map_of (lb_connections s') c' = map_of (lb_connections s) c'"
  using assms by (auto simp: HandleHello_def Let_def split: if_splits option.splits prod.splits)

lemma Handle_others:
  assumes h: "Handle c message now s = Inr (s', result)" and "c' \<noteq> c" and inv: "lobby_inv s"
  shows "map_of (lb_connections s') c' = map_of (lb_connections s) c'"
proof (cases "map_of (lb_connections s) c")
  case None
  then show ?thesis using h by (simp add: Handle_def)
next
  case (Some st)
  let ?q = "client_RequestId message" and ?st = "st\<lparr>cs_lastRequestId := client_RequestId message\<rparr>"
  let ?s = "accept_request c st ?q s"
  have same: "map_of (lb_connections ?s) c' = map_of (lb_connections s) c'"
    using assms(2) by (simp add: accept_request_def)
  show ?thesis
  proof (cases "in_order message st")
    case False
    then show ?thesis using Handle_out_of_order [OF Some False, of now] h by simp
  next
    case True
    have d: "dispatch c ?st message now ?s = Inr (s', result)" using h Handle_dispatch [OF Some True] by simp
    show ?thesis
    proof (cases "\<exists>q. message = ClientHello q")
      case True
      then have "HandleHello c ?st ?q ?s = Inr (s', result)" using d by (auto simp: dispatch_def)
      from HandleHello_others [OF this assms(2)] same show ?thesis by simp
    next
      case False
      from dispatch_connections [OF d lobby_inv_accept [OF inv Some] False] same show ?thesis by simp
    qed
  qed
qed

lemma Handle_reached:
  assumes "Handle c message now s = Inr (s', result)" and "has_reached c q s" and inv: "lobby_inv s"
  shows "has_reached c q s'"
proof -
  obtain st where st: "map_of (lb_connections s) c = Some st" "q \<le> cs_lastRequestId st"
    using assms(2) by (auto simp: has_reached_def)
  show ?thesis
  proof (cases "in_order message st")
    case True
    then have "q \<le> client_RequestId message" using st(2) unfolding in_order_def by (meson order.trans less_imp_le)
    then show ?thesis using Handle_lastRequestId [OF assms(1) st(1) True inv] by (auto simp: has_reached_def)
  next
    case False
    then show ?thesis using Handle_out_of_order [OF st(1) False, of now] assms(1,2) by simp
  qed
qed

lemma Disconnect_others:
  assumes h: "Disconnect c s = Inr (s', result)" and "c' \<noteq> c" and inv: "lobby_inv s"
  shows "map_of (lb_connections s') c' = map_of (lb_connections s) c'"
proof (cases "map_of (lb_connections s) c")
  case None
  then show ?thesis using h by (simp add: Disconnect_def)
next
  case st: (Some st)
  show ?thesis
  proof (cases "cs_player st")
    case None
    then show ?thesis using h st assms(2) by (auto simp: Disconnect_def)
  next
    case (Some p)
    have c: "map_of (lb_playerToConnection s) p = Some c"
      by (rule conn_inv_player [OF lobby_invD(2) [OF inv] st Some])
    obtain s1 r1 where "depart p s = Inr (s1, r1)" "lb_connections s1 = lb_connections s"
      using depart_leaves [OF inv c] by (auto simp: leaves_def returns_iff)
    then show ?thesis using h assms(2) by (auto simp: Disconnect_eq [OF st Some])
  qed
qed

lemma FailPendingReservation_connections:
  assumes "FailPendingReservation w error s = Inr (s', result)" and inv: "lobby_inv s"
  shows "lb_connections s' = lb_connections s"
proof (cases "map_of (lb_pending s) w")
  case None
  then show ?thesis using assms(1) by (simp add: FailPendingReservation_def)
next
  case (Some a)
  obtain r where r: "map_of (lb_rooms s) (ra_room a) = Some r" "r_state r = Starting"
    using pending_room [OF inv Some] by blast
  then show ?thesis using assms(1) FailPendingReservation_eq [OF inv Some r] by (auto simp: given_up_def)
qed

lemma HandleReservationReady_connections:
  assumes "HandleReservationReady w m worker endpoint now s = Inr (s', result)" and inv: "lobby_inv s"
  shows "lb_connections s' = lb_connections s"
proof (cases "map_of (lb_pending s) w")
  case None
  then show ?thesis using assms(1) by (simp add: HandleReservationReady_def)
next
  case (Some a)
  show ?thesis
  proof (cases "acceptable a m worker endpoint now")
    case False
    show ?thesis
    proof (cases "ra_match a = m")
      case True
      show ?thesis
        using assms FailPendingReservation_connections HandleReservationReady_refused [OF Some True False]
        by simp
    next
      case False
      then show ?thesis using assms(1) Some by (simp add: HandleReservationReady_def)
    qed
  next
    case True
    obtain r where r: "map_of (lb_rooms s) (ra_room a) = Some r" "r_state r = Starting"
      using pending_room [OF inv Some] by blast
    then show ?thesis using assms(1) HandleReservationReady_accepted [OF inv Some r True] by (auto simp: Let_def)
  qed
qed

lemma FinishActiveMatch_connections:
  assumes "FinishActiveMatch worker m unavailable s = Inr (s', result)" and inv: "lobby_inv s"
  shows "lb_connections s' = lb_connections s"
proof (cases "\<exists>am. map_of (lb_activeMatches s) m = Some am \<and> am_worker am = worker")
  case False
  then show ?thesis using assms(1) by (auto simp: FinishActiveMatch_def split: option.splits)
next
  case True
  then obtain am where am: "map_of (lb_activeMatches s) m = Some am" "am_worker am = worker" by blast
  obtain r where r: "map_of (lb_rooms s) (am_room am) = Some r" "r_state r = InMatch"
    using active_inv_room [OF lobby_invD(5) [OF inv] am(1)] by blast
  then show ?thesis using assms(1) FinishActiveMatch_eq [OF inv am(1) r, of unavailable] am(2) by auto
qed

lemma HandleWorkerEvent_connections:
  assumes "HandleWorkerEvent event now s = Inr (s', result)" and "lobby_inv s"
  shows "lb_connections s' = lb_connections s"
  using assms HandleReservationReady_connections FinishActiveMatch_connections FailPendingReservation_connections
  by (cases event) (auto simp: HandleWorkerEvent_def split: option.splits if_splits)

lemma lobby_handle_reached:
  assumes h: "lobby_handle s e = Inr (s', result)" and "has_reached c q s" and inv: "lobby_inv s"
    and "e \<noteq> Disconnected c"
  shows "has_reached c q s'"
proof (cases e)
  case Opened
  then show ?thesis
    using h assms(2)
    by (auto simp: has_reached_def OpenConnection_def om_emplace_def om_contains_def split: option.splits prod.splits)
next
  case (Received c' message now)
  then show ?thesis
    using h assms(2) Handle_reached [of c message now s s' result q] Handle_others [of c' message now s s' result c] inv
    by (cases "c' = c") (auto simp: has_reached_def)
next
  case (Disconnected c')
  then show ?thesis
    using h assms(2,4) Disconnect_others [of c' s s' result c] inv by (auto simp: has_reached_def)
next
  case (Worker event now)
  then show ?thesis
    using h assms(2) HandleWorkerEvent_connections [of event now s s' result] inv by (simp add: has_reached_def)
qed

lemma run_reached:
  assumes "run_steps lobby_step s events = Inr s'" and "has_reached c q s" and "lobby_inv s"
    and "Disconnected c \<notin> set events"
  shows "has_reached c q s'"
  using assms
proof (induction events arbitrary: s)
  case (Cons e events)
  obtain s1 where s1: "lobby_step s e = Inr s1" "run_steps lobby_step s1 events = Inr s'"
    using Cons.prems(1) by (cases "lobby_step s e") auto
  then obtain result where h: "lobby_handle s e = Inr (s1, result)"
    by (cases "lobby_handle s e") (auto simp: lobby_step_def)
  have "lobby_inv s1" using lobby_handle_keeps [OF Cons.prems(3), of e] h by (simp add: keeps_def)
  moreover have "has_reached c q s1"
    by (rule lobby_handle_reached [OF h Cons.prems(2,3)]) (use Cons.prems(4) in auto)
  ultimately show ?case using Cons.IH [OF s1(2)] Cons.prems(4) by simp
qed simp

end
