(* ===== verification/LobbyContracts.thy ===== *)
theory LobbyContracts
  imports LobbyEvents
begin

text \<open>
  What the lobby's clients and workers can rely on, derived from the handlers' closed forms:
  the reservation that a start creates, what is left after one that fails, who receives the
  tickets of a match, and what a finished match or a closed connection leaves behind.
\<close>

section \<open>Starting\<close>

lemma start_reserves_lemma:
  assumes inv: "lobby_inv s" and h: "HandleStartMatch c p q now s = Inr (s', result)"
    and a: "ReserveMatchAction a \<in> set (sr_actions result)"
  shows "\<exists>r. map_of (lb_playerToRoom s) p = Some (ra_room a) \<and> map_of (lb_rooms s) (ra_room a) = Some r
    \<and> Room_ValidateStart p r = None
    \<and> map_of (lb_rooms s') (ra_room a) = Some (r\<lparr>r_state := Starting\<rparr>)
    \<and> map_of (lb_pending s') (ra_reservation a) = Some a
    \<and> map_of (lb_roomToReservation s') (ra_room a) = Some (ra_reservation a)
    \<and> ra_requester a = p \<and> ra_requestId a = q
    \<and> map rp_player (ra_participants a) = Room_Players r
    \<and> distinct (participant_tickets a)
    \<and> (\<forall>x \<in> set (ra_participants a).
         live (lb_tickets s') (rp_ticket x) = Some (issued_record (ra_match a) (rp_player x) now))"
proof (cases rule: HandleStartMatch_cases [OF inv, of c p q now])
  case (1 e)
  then show ?thesis using h a by (auto simp: ErrorResult_def no_result_def)
next
  case (2 rid r m v ok issued reg)
  show ?thesis
  proof (cases ok)
    case False
    with 2 have "can_start s p now rid r m v False issued reg" by simp
    from HandleStartMatch_rolled_back [OF inv this] h a show ?thesis by auto
  next
    case True
    with 2 have start: "can_start s p now rid r m v True issued reg" by simp
    note D = can_startD [OF inv start]
    from D(7) have len: "length issued = length (Room_Players r)" by simp
    let ?a = "start_action s p q now rid (Room_Players r) m v issued"
    have s': "s' = started s rid r m v reg ?a" and a: "a = ?a"
      using HandleStartMatch_started [OF inv start, of c q] h a by (auto simp: Let_def)
    note parts = start_action_participants [OF len, of s p q now rid m v]
    have "live reg (rp_ticket x) = Some (issued_record (MatchId m) (rp_player x) now)"
      if "x \<in> set (ra_participants ?a)" for x
    proof -
      have n: "length (ra_participants ?a) = length issued"
        using arg_cong [OF parts(2), of length] by (simp add: participant_tickets_def)
      from that obtain i where i: "i < length issued" "ra_participants ?a ! i = x"
        unfolding in_set_conv_nth n by blast
      have "rp_ticket x = issued ! i" "rp_player x = Room_Players r ! i"
        using arg_cong [OF parts(2), of "\<lambda>l. l ! i"] arg_cong [OF parts(1), of "\<lambda>l. l ! i"] i n
        by (simp_all add: participant_tickets_def)
      then show ?thesis using tickets_issuedD(7) [OF D(6) i(1)] by simp
    qed
    then have "\<forall>x \<in> set (ra_participants ?a).
        live (lb_tickets s') (rp_ticket x) = Some (issued_record (ra_match ?a) (rp_player x) now)"
      by (simp add: s' started_def)
    moreover have "ra_requestId ?a = q" by (simp add: start_action_def)
    ultimately show ?thesis
      using start parts tickets_issuedD(4) [OF D(6)]
      by (simp add: a s' started_def can_start_def)
  qed
qed

text \<open>A start that creates no reservation leaves no trace but used-up identifiers.\<close>

lemma start_without_trace:
  assumes inv: "lobby_inv s" and h: "HandleStartMatch c p q now s = Inr (s', result)"
    and none: "sr_actions result = []"
  shows "map_of (lb_rooms s') = map_of (lb_rooms s) \<and> lb_playerToRoom s' = lb_playerToRoom s
    \<and> lb_pending s' = lb_pending s \<and> lb_roomToReservation s' = lb_roomToReservation s
    \<and> lb_activeMatches s' = lb_activeMatches s
    \<and> (\<forall>t r. live (lb_tickets s') t = Some r \<longrightarrow> live (lb_tickets s) t = Some r)"
proof (cases rule: HandleStartMatch_cases [OF inv, of c p q now])
  case (1 e)
  then show ?thesis using h by simp
next
  case (2 rid r m v ok issued reg)
  show ?thesis
  proof (cases ok)
    case True
    with 2 have "can_start s p now rid r m v True issued reg" by simp
    from HandleStartMatch_started [OF inv this] h none show ?thesis by (auto simp: Let_def)
  next
    case False
    with 2 have start: "can_start s p now rid r m v False issued reg" by simp
    note D = can_startD [OF inv start]
    have s': "s' = rolled_back s rid r m v reg issued"
      using HandleStartMatch_rolled_back [OF inv start, of c q] h by auto
    have "live (lb_tickets s) t = Some x" if "live (lb_tickets s') t = Some x" for t x
      using that tickets_issuedD(8) [OF D(6), of t x]
      by (simp add: s' rolled_back_def live_Revoke split: if_splits)
    then show ?thesis
      using set_back [of "map_of (lb_rooms s)", OF D(1,2)] by (simp add: s' rolled_back_def)
  qed
qed

section \<open>Tickets of a match\<close>

lemma no_tickets_of_ended_match:
  assumes "lobby_inv s" and "m \<notin> dom (map_of (lb_activeMatches s))"
    and "\<And>v a. map_of (lb_pending s) v = Some a \<Longrightarrow> ra_match a \<noteq> m"
    and "live (lb_tickets s) t = Some r"
  shows "tr_match r \<noteq> m"
  using lobby_invD(6) [OF assms(1)] assms unfolding ticket_inv_def by blast

lemma given_up_no_tickets:
  assumes inv: "lobby_inv s" and w: "map_of (lb_pending s) w = Some a"
    and r: "map_of (lb_rooms s) (ra_room a) = Some r" "r_state r = Starting"
    and t: "live (lb_tickets (given_up s w a r)) t = Some x"
  shows "tr_match x \<noteq> ra_match a"
proof (rule no_tickets_of_ended_match [OF lobby_inv_given_up [OF inv w r] _ _ t])
  show "ra_match a \<notin> dom (map_of (lb_activeMatches (given_up s w a r)))"
    using lobby_invD(5) [OF inv] w by (auto simp: active_inv_def given_up_def)
  fix v b assume "map_of (lb_pending (given_up s w a r)) v = Some b"
  then have "map_of (lb_pending s) v = Some b" "v \<noteq> w"
    by (auto simp: given_up_def split: if_splits)
  then show "ra_match b \<noteq> ra_match a"
    using lobby_invD(4) [OF inv] w unfolding pending_inv_def by blast
qed

lemma finished_no_tickets:
  assumes inv: "lobby_inv s" and m: "map_of (lb_activeMatches s) m = Some am"
    and r: "map_of (lb_rooms s) (am_room am) = Some r" "r_state r = InMatch"
    and t: "live (lb_tickets (finished s m am r)) t = Some x"
  shows "tr_match x \<noteq> m"
proof (rule no_tickets_of_ended_match [OF lobby_inv_finished [OF inv m r] _ _ t])
  show "m \<notin> dom (map_of (lb_activeMatches (finished s m am r)))" by (simp add: finished_def)
  fix v b assume "map_of (lb_pending (finished s m am r)) v = Some b"
  then have "map_of (lb_pending s) v = Some b" by (simp add: finished_def)
  then show "ra_match b \<noteq> m"
    using lobby_invD(5) [OF inv] m unfolding active_inv_def by blast
qed

text \<open>A reservation that fails, for whichever of the reasons the lobby knows.\<close>

definition reservation_fails :: "reserve_match_action \<Rightarrow> reservation_id \<Rightarrow> worker_event \<Rightarrow> time_point \<Rightarrow> bool" where
  "reservation_fails a w event now \<longleftrightarrow>
     (case event of
        ReservationFailedEvent w' m \<Rightarrow> w' = w \<and> m = ra_match a
      | ReservationReadyEvent w' m worker endpoint \<Rightarrow>
          w' = w \<and> m = ra_match a \<and> \<not> acceptable a m worker endpoint now
      | _ \<Rightarrow> False)"

lemma reservation_fails_eq:
  assumes "map_of (lb_pending s) w = Some a" and "reservation_fails a w event now"
  shows "HandleWorkerEvent event now s = FailPendingReservation w WorkerUnavailable s"
  using assms HandleReservationReady_refused [of s w a "ra_match a"]
  by (cases event) (auto simp: reservation_fails_def HandleWorkerEvent_def)

lemma failed_reservation_lemma:
  assumes inv: "lobby_inv s" and w: "map_of (lb_pending s) w = Some a"
    and fails: "reservation_fails a w event now"
    and h: "HandleWorkerEvent event now s = Inr (s', result)"
  shows "\<exists>r. map_of (lb_rooms s) (ra_room a) = Some r
    \<and> map_of (lb_rooms s') = (map_of (lb_rooms s))(ra_room a \<mapsto> r\<lparr>r_state := Waiting\<rparr>)
    \<and> lb_playerToRoom s' = lb_playerToRoom s
    \<and> w \<notin> dom (map_of (lb_pending s')) \<and> ra_room a \<notin> dom (map_of (lb_roomToReservation s'))
    \<and> (\<forall>t x. live (lb_tickets s') t = Some x \<longrightarrow> tr_match x \<noteq> ra_match a)
    \<and> (\<forall>c. map_of (lb_playerToConnection s) (ra_requester a) = Some c \<longrightarrow>
         \<lparr>ob_recipient = c, ob_message = ErrorResponse (ra_requestId a) WorkerUnavailable\<rparr>
           \<in> set (sr_outbound result))"
proof -
  obtain r where r: "map_of (lb_rooms s) (ra_room a) = Some r" "r_state r = Starting"
    using pending_room [OF inv w] .
  have s': "s' = given_up s w a r" and out: "sr_outbound result = failure_messages s a r WorkerUnavailable"
    using h reservation_fails_eq [OF w fails] FailPendingReservation_eq [OF inv w r, of WorkerUnavailable]
    by auto
  show ?thesis
    using r given_up_no_tickets [OF inv w r]
    by (intro exI [of _ r]) (auto simp: s' out failure_messages_def, auto simp: given_up_def)
qed

section \<open>A match begins\<close>

lemma match_begins_lemma:
  assumes inv: "lobby_inv s" and w: "map_of (lb_pending s) w = Some a"
    and ok: "acceptable a m worker endpoint now"
    and h: "HandleWorkerEvent (ReservationReadyEvent w m worker endpoint) now s = Inr (s', result)"
  shows "map_of (lb_activeMatches s') m =
        Some \<lparr>am_room = ra_room a, am_worker = worker, am_tickets = participant_tickets a\<rparr>
    \<and> (\<exists>r. map_of (lb_rooms s') (ra_room a) = Some r \<and> r_state r = InMatch
         \<and> Room_Players r = map rp_player (ra_participants a))
    \<and> w \<notin> dom (map_of (lb_pending s')) \<and> lb_tickets s' = lb_tickets s
    \<and> (\<forall>x \<in> set (ra_participants a). \<forall>c. map_of (lb_playerToConnection s) (rp_player x) = Some c \<longrightarrow>
         (\<exists>t. \<lparr>ob_recipient = c, ob_message = MatchTicket t\<rparr> \<in> set (sr_outbound result)
           \<and> mt_ticket t = rp_ticket x \<and> mt_match t = m
           \<and> 1 \<le> unat (mt_expiresInSeconds t)
           \<and> now + int (unat (mt_expiresInSeconds t)) * nanoseconds_per_second
               \<le> ra_issuedAt a + ticket_lifetime))
    \<and> (\<forall>c t. \<lparr>ob_recipient = c, ob_message = MatchTicket t\<rparr> \<in> set (sr_outbound result) \<longrightarrow>
         (\<exists>x \<in> set (ra_participants a). mt_ticket t = rp_ticket x
           \<and> map_of (lb_playerToConnection s) (rp_player x) = Some c))"
proof -
  obtain r where r: "map_of (lb_rooms s) (ra_room a) = Some r" "r_state r = Starting"
    and players: "map rp_player (ra_participants a) = Room_Players r"
    using pending_room [OF inv w] .
  have rem: "1 \<le> remaining_seconds a now" and m: "ra_match a = m"
    using ok remaining_seconds_iff [of a now] by (simp_all add: acceptable_def)
  let ?s = "marked s w a worker r" and ?req = "map_of (lb_playerToConnection s) (ra_requester a)"
  let ?n = "advertised_seconds a now"
  have s': "s' = ?s" and out: "sr_outbound result =
      snapshot_messages (map_of (lb_playerToConnection s)) (r\<lparr>r_state := InMatch\<rparr>) ?req
        (ra_requestId a) (Room_Players r) @ ticket_messages ?req a endpoint ?n ?s"
    using h HandleReservationReady_accepted [OF inv w r ok] by (auto simp: HandleWorkerEvent_def Let_def)
  have "0 < unat ?n" using advertised_seconds(1) [OF rem] by (simp add: word_less_nat_alt)
  moreover have "now + int (unat ?n) * nanoseconds_per_second \<le> ra_issuedAt a + ticket_lifetime"
  proof -
    have "int (unat ?n) * nanoseconds_per_second \<le> remaining_seconds a now * nanoseconds_per_second"
      using advertised_seconds(3) [OF rem] by (simp add: nanoseconds_per_second_def)
    also have "\<dots> \<le> ra_issuedAt a + ticket_lifetime - now"
    proof (cases "0 \<le> ra_issuedAt a + ticket_lifetime - now")
      case True
      then show ?thesis
        by (simp add: remaining_seconds_def trunc_div_nonneg nanoseconds_per_second_def)
    next
      case False
      with rem remaining_seconds_iff [of a now] show ?thesis by (simp add: nanoseconds_per_second_def)
    qed
    finally show ?thesis by simp
  qed
  ultimately have tickets: "\<exists>t. \<lparr>ob_recipient = c, ob_message = MatchTicket t\<rparr> \<in> set (sr_outbound result)
           \<and> mt_ticket t = rp_ticket x \<and> mt_match t = m
           \<and> 1 \<le> unat (mt_expiresInSeconds t)
           \<and> now + int (unat (mt_expiresInSeconds t)) * nanoseconds_per_second
               \<le> ra_issuedAt a + ticket_lifetime"
    if "x \<in> set (ra_participants a)" "map_of (lb_playerToConnection s) (rp_player x) = Some c" for x c
    using that m
    by (intro exI [of _ "\<lparr>mt_requestId = (if ?req = Some c then ra_requestId a else 0),
                 mt_match = ra_match a, mt_ticket = rp_ticket x,
                 mt_host = ep_host endpoint, mt_tcpPort = ep_tcpPort endpoint,
                 mt_udpPort = ep_udpPort endpoint, mt_expiresInSeconds = ?n\<rparr>"])
       (auto simp: out ticket_messages_def set_map_filter intro!: bexI [of _ x])
  have owners: "\<exists>x \<in> set (ra_participants a). mt_ticket t = rp_ticket x
      \<and> map_of (lb_playerToConnection s) (rp_player x) = Some c"
    if "\<lparr>ob_recipient = c, ob_message = MatchTicket t\<rparr> \<in> set (sr_outbound result)" for c t
    using that by (auto simp: out ticket_messages_def snapshot_messages_def set_map_filter
        split: option.splits) blast
  show ?thesis
    using tickets owners r players m by (auto simp: s' marked_def)
qed

section \<open>A match ends\<close>

lemma match_ends_lemma:
  assumes inv: "lobby_inv s" and m: "map_of (lb_activeMatches s) m = Some am"
    and h: "FinishActiveMatch (am_worker am) m unavailable s = Inr (s', result)"
  shows "m \<notin> dom (map_of (lb_activeMatches s')) \<and> am_room am \<notin> dom (map_of (lb_rooms s'))
    \<and> (\<forall>p. map_of (lb_playerToRoom s) p = Some (am_room am) \<longrightarrow>
         p \<notin> dom (map_of (lb_playerToRoom s'))
         \<and> (\<forall>c. map_of (lb_playerToConnection s) p = Some c \<longrightarrow>
              \<lparr>ob_recipient = c, ob_message = RoomListResponse 0 (waiting_list (lb_rooms s'))\<rparr>
                \<in> set (sr_outbound result)))
    \<and> (\<forall>t x. live (lb_tickets s') t = Some x \<longrightarrow> tr_match x \<noteq> m)"
proof -
  obtain r where r: "map_of (lb_rooms s) (am_room am) = Some r" "r_state r = InMatch"
    using active_inv_room [OF lobby_invD(5) [OF inv] m] by blast
  have s': "s' = finished s m am r" and out: "sr_outbound result =
      over_messages (match_recipients (Room_Players r) s) unavailable (finished s m am r)"
    using h FinishActiveMatch_eq [OF inv m r, of unavailable] by auto
  have mem: "p \<in> room_players r" if "map_of (lb_playerToRoom s) p = Some (am_room am)" for p
    using lobby_member [OF inv that] r by auto
  have "\<lparr>ob_recipient = c, ob_message = RoomListResponse 0 (waiting_list (lb_rooms s'))\<rparr>
      \<in> set (sr_outbound result)"
    if "p \<in> room_players r" "map_of (lb_playerToConnection s) p = Some c" for p c
    using that by (auto simp: out s' over_messages_def match_recipients_def set_map_filter
        intro!: bexI [of _ p])
  moreover have "map_of (lb_playerToRoom s') p = None" if "p \<in> room_players r" for p
    using that by (simp add: s' finished_def om.lookup_remove_all)
  ultimately show ?thesis
    using mem finished_no_tickets [OF inv m r] unfolding s'
    by (auto simp: domIff) (auto simp: finished_def)
qed

lemma FinishActiveMatch_other_worker:
  "map_of (lb_activeMatches s) m = Some am \<Longrightarrow> worker \<noteq> am_worker am \<Longrightarrow>
     FinishActiveMatch worker m unavailable s = Inr (s, no_result)"
  by (simp add: FinishActiveMatch_def)

section \<open>A connection closes\<close>

text \<open>The room after a member left, if it still exists.\<close>

definition left_room :: "player_id \<Rightarrow> room \<Rightarrow> room \<Rightarrow> bool" where
  "left_room p r r' \<longleftrightarrow>
     r_state r' = Waiting \<and> room_players r' = room_players r - {p}
     \<and> (p \<noteq> r_host r \<longrightarrow> r_host r' = r_host r)"

lemma left_state_room:
  assumes leave: "Room_Leave p r = (None, r')" and wf: "room_wf r"
    and x: "map_of (lb_rooms (left_state p rid r' s)) rid = Some x"
  shows "left_room p r x"
proof -
  have ne: "\<not> Room_Empty r'" and x: "x = r'"
    using x by (simp_all add: left_state_def split: if_splits)
  then show ?thesis
    using Room_Leave_members [OF leave] Room_Leave_players [OF leave] Room_Leave_host [OF leave wf]
    by (auto simp: left_room_def Room_Empty_def)
qed

lemma disconnect_lemma:
  assumes inv: "lobby_inv s" and st: "map_of (lb_connections s) c = Some st" "cs_player st = Some p"
    and room: "map_of (lb_playerToRoom s) p = Some rid" "map_of (lb_rooms s) rid = Some r"
    and h: "Disconnect c s = Inr (s', result)"
  shows "(r_state r = InMatch \<longrightarrow> lb_rooms s' = lb_rooms s \<and> lb_playerToRoom s' = lb_playerToRoom s)
    \<and> (r_state r \<noteq> InMatch \<longrightarrow> p \<notin> dom (map_of (lb_playerToRoom s'))
         \<and> (\<forall>r'. map_of (lb_rooms s') rid = Some r' \<longrightarrow> left_room p r r'))
    \<and> (r_state r = Starting \<longrightarrow> (\<exists>w a. map_of (lb_pending s) w = Some a \<and> ra_room a = rid
         \<and> w \<notin> dom (map_of (lb_pending s'))
         \<and> CancelReservationAction w (ra_match a) \<in> set (sr_actions result)
         \<and> (\<forall>t x. live (lb_tickets s') t = Some x \<longrightarrow> tr_match x \<noteq> ra_match a)))"
proof -
  have wf: "room_wf r" by (rule room_inv_wf [OF lobby_invD(3) [OF inv] room(2)])
  obtain s1 where d: "depart p s = Inr (s1, result)"
    and s': "s' = s1\<lparr>lb_playerToConnection := om_erase p (lb_playerToConnection s1),
           lb_connections := om_erase c (lb_connections s1)\<rparr>"
    using h Disconnect_eq [OF st] by auto
  show ?thesis
  proof (cases "r_state r")
    case InMatch
    then show ?thesis using d room wf by (simp add: depart_def s')
  next
    case Waiting
    then obtain r' audit where leave: "Room_Leave p r = (None, r')"
      and eq: "LeaveWaitingRoom p None 0 s = Inr (left_state p rid r' s,
             \<lparr>sr_outbound = left_messages None 0 r' (left_state p rid r' s),
              sr_audit = audit, sr_actions = []\<rparr>)"
      using LeaveWaitingRoom_left [OF inv room] by blast
    have "s1 = left_state p rid r' s" using d room wf Waiting eq by (simp add: depart_def)
    then show ?thesis
      using Waiting left_state_room [OF leave wf] by (simp add: s') (simp add: left_state_def)
  next
    case Starting
    then obtain w a r' audit where a: "map_of (lb_pending s) w = Some a" "ra_room a = rid"
      and leave: "Room_Leave p (r\<lparr>r_state := Waiting\<rparr>) = (None, r')"
      and eq: "DisconnectStartingPlayer p rid s = Inr (left_state p rid r' (given_up s w a r),
          \<lparr>sr_outbound = left_messages None 0 r' (left_state p rid r' (given_up s w a r))
             @ (if ra_requester a = p then [] else
                  case map_of (lb_playerToConnection s) (ra_requester a) of
                    None \<Rightarrow> []
                  | Some c \<Rightarrow> [\<lparr>ob_recipient = c, ob_message = ErrorResponse (ra_requestId a) WorkerUnavailable\<rparr>]),
           sr_audit = audit, sr_actions = [CancelReservationAction w (ra_match a)]\<rparr>)"
      using DisconnectStartingPlayer_eq [OF inv room] by blast
    have s1: "s1 = left_state p rid r' (given_up s w a r)"
      and act: "sr_actions result = [CancelReservationAction w (ra_match a)]"
      using d room wf Starting eq by (auto simp: depart_def)
    have tickets: "lb_tickets s' = lb_tickets (given_up s w a r)"
      and pending: "lb_pending s' = om_erase w (lb_pending s)"
      by (simp_all add: s' s1 left_state_def given_up_def)
    have "left_room p r x" if "map_of (lb_rooms s') rid = Some x" for x
      using that left_state_room [OF leave, of rid "given_up s w a r" x] wf
      by (simp add: s' s1 left_room_def)
    moreover have "p \<notin> dom (map_of (lb_playerToRoom s'))"
      by (simp add: s' s1 left_state_def)
    ultimately show ?thesis
      using Starting a given_up_no_tickets [OF inv a(1), of r] room(2)
      by (auto simp: tickets pending act)
  qed
qed

lemma disconnect_closes:
  assumes inv: "lobby_inv s" and st: "map_of (lb_connections s) c = Some st"
    and h: "Disconnect c s = Inr (s', result)"
  shows "map_of (lb_connections s') = (map_of (lb_connections s))(c := None)
    \<and> (\<forall>p. cs_player st = Some p \<longrightarrow> p \<notin> dom (map_of (lb_playerToConnection s')))
    \<and> (\<forall>m \<in> set (sr_outbound result). ob_recipient m \<noteq> c)"
proof (cases "cs_player st")
  case None
  then show ?thesis using st h by (auto simp: Disconnect_def)
next
  case (Some p)
  have c: "map_of (lb_playerToConnection s) p = Some c"
    by (rule conn_inv_player [OF lobby_invD(2) [OF inv] st Some])
  obtain s1 where "depart p s = Inr (s1, result)"
    and "s' = s1\<lparr>lb_playerToConnection := om_erase p (lb_playerToConnection s1),
           lb_connections := om_erase c (lb_connections s1)\<rparr>"
    using h Disconnect_eq [OF st Some] by auto
  then show ?thesis using depart_leaves [OF inv c] Some by (auto simp: leaves_def returns_iff)
qed

end
