(* ===== verification/Samples.thy ===== *)
theory Samples
  imports LobbyContracts
begin

text \<open>
  A concrete run of the lobby on which the root theory's theorems are applied: two clients
  connect, make a room, get ready and start a match that a worker accepts.
\<close>

definition sample_ticket :: "nat \<Rightarrow> match_ticket_value" where
  "sample_ticket i = Ident (of_nat i # replicate 15 7)"

definition sample_registry :: ticket_registry where
  "sample_registry = \<lparr>tg_source = (\<lambda>i. if i < 10 then Some (sample_ticket i) else None),
     tg_fills = 0, tg_tickets = []\<rparr>"

definition sample_config :: service_config where
  "sample_config = \<lparr>cf_nextConnection = 1, cf_nextPlayer = 1, cf_nextRoom = 1, cf_nextMatch = 1,
     cf_nextReservation = 1, cf_nextJoinOrdinal = 1, cf_matchSeedBase = 42, cf_maximumRooms = 1024\<rparr>"

definition sample_endpoint :: game_endpoint where
  "sample_endpoint = \<lparr>ep_host = ''10.0.0.1'', ep_tcpPort = 7000, ep_udpPort = 7001\<rparr>"

definition sample_events :: "lobby_event list" where
  "sample_events = [Opened, Opened,
     Received (ConnectionId 1) (ClientHello 1) 0, Received (ConnectionId 2) (ClientHello 1) 0,
     Received (ConnectionId 1) (CreateRoomRequest 2) 0,
     Received (ConnectionId 2) (JoinRoomRequest 2 (RoomId 1)) 0,
     Received (ConnectionId 1) (SetReadyRequest 3 True) 0,
     Received (ConnectionId 2) (SetReadyRequest 3 True) 0,
     Received (ConnectionId 1) (StartMatchRequest 4) 1000,
     Worker (ReservationReadyEvent (ReservationId 1) (MatchId 1) (WorkerId 5) sample_endpoint) 2000]"

definition lobby_start :: lobby where
  "lobby_start = LobbyService sample_registry sample_config"

text \<open>The state after the first \<open>n\<close> events.\<close>

definition lobby_after :: "nat \<Rightarrow> lobby" where
  "lobby_after n =
     (case run_steps lobby_step lobby_start (take n sample_events) of Inr s \<Rightarrow> s | Inl _ \<Rightarrow> lobby_start)"

lemma sample_registry_source: "tg_source sample_registry i = Some t \<Longrightarrow> opaque_wf t"
  by (auto simp: sample_registry_def sample_ticket_def opaque_wf_def MatchTicketBytes_def
      split: if_splits)

lemma lobby_start_reachable: "lobby_reachable lobby_start"
  unfolding lobby_start_def
  by (rule lobby_reachable.initial) (auto simp: sample_registry_source, simp add: sample_registry_def)

lemma run_reachable:
  "lobby_reachable s \<Longrightarrow> run_steps lobby_step s es = Inr s' \<Longrightarrow> lobby_reachable s'"
  by (induction es arbitrary: s) (auto simp: lobby_step_def intro: lobby_reachable.event)

lemma lobby_after_reachable: "lobby_reachable (lobby_after n)"
  using run_reachable [OF lobby_start_reachable] lobby_start_reachable
  by (auto simp: lobby_after_def split: sum.split)

text \<open>The reservation that the ninth event creates.\<close>

definition sample_action :: reserve_match_action where
  "sample_action = the (map_of (lb_pending (lobby_after 9)) (ReservationId 1))"

lemma sample_action: "map_of (lb_pending (lobby_after 9)) (ReservationId 1) = Some sample_action"
proof -
  have "map_of (lb_pending (lobby_after 9)) (ReservationId 1) \<noteq> None" by code_simp
  then show ?thesis by (auto simp: sample_action_def)
qed

text \<open>The result of an event, for events that return.\<close>

lemma handled_result: "lobby_reachable s \<Longrightarrow> \<exists>s' result. lobby_handle s e = Inr (s', result)"
  using lobby_handle_keeps [OF lobby_reachable_inv, of s e] by (auto simp: keeps_def returns_iff)

end
