(* ===== verification/WorkerRegistry.thy ===== *)
theory WorkerRegistry
  imports LobbyRuntime "HOL-Library.Char_ord" "HOL-Library.Product_Lexorder"
begin

text \<open>
  apps/lobby_server/src/WorkerRegistry.cpp: the lobby's workers, one match each. A worker is
  idle, reserved, cancelling or active; the registry turns the lobby's actions and the
  workers' messages into messages, timers, events for the lobby and connections to close.
  Every operation takes the registry and returns its result with the new registry.
\<close>

datatype worker_state = Idle | Reserved | Cancelling | Active

record control_outbound =
  co_recipient :: worker_connection_id
  co_message :: lobby_to_worker_message

datatype timer_kind = StartTimer | CancelTimer

record timer_directive =
  td_kind :: timer_kind
  td_reservation :: reservation_id
  td_duration :: duration

record registry_result =
  gr_accepted :: bool
  gr_outbound :: "control_outbound list"
  gr_events :: "worker_event list"
  gr_timers :: "timer_directive list"
  gr_closeConnections :: "worker_connection_id list"

definition empty_result :: registry_result where
  "empty_result = \<lparr>gr_accepted = False, gr_outbound = [], gr_events = [], gr_timers = [],
     gr_closeConnections = []\<rparr>"

text \<open>\<^verbatim>\<open>EndpointKey\<close>: host and ports, compared lexicographically.\<close>

type_synonym endpoint_key = "string \<times> u16 \<times> u16"

record worker_record =
  wk_connection :: worker_connection_id
  wk_registration :: worker_register
  wk_state :: worker_state
  wk_reservation :: "reservation_id option"
  wk_match :: "match_id option"

record worker_registry =
  wg_workers :: "(worker_id, worker_record) omap"
  wg_connections :: "(worker_connection_id, worker_id) omap"
  wg_reservations :: "(reservation_id, worker_id) omap"
  wg_endpoints :: "(endpoint_key, worker_id) omap"

definition WorkerRegistry :: worker_registry where
  "WorkerRegistry = \<lparr>wg_workers = [], wg_connections = [], wg_reservations = [], wg_endpoints = []\<rparr>"

type_synonym registered = "registry_result \<times> worker_registry"

section \<open>Operations\<close>

definition IsValidRegistration :: "worker_connection_id \<Rightarrow> worker_register \<Rightarrow> bool" where
  "IsValidRegistration connection registration \<longleftrightarrow>
     idval connection \<noteq> 0 \<and> idval (wr_worker registration) \<noteq> 0
     \<and> IsVisibleAsciiHost (wr_advertisedHost registration)
     \<and> wr_gameTcpPort registration \<noteq> 0 \<and> wr_gameUdpPort registration \<noteq> 0
     \<and> wr_capacity registration = 1"

definition endpoint_of :: "worker_register \<Rightarrow> endpoint_key" where
  "endpoint_of registration =
     (wr_advertisedHost registration, wr_gameTcpPort registration, wr_gameUdpPort registration)"

definition close_result :: "worker_connection_id \<Rightarrow> registry_result" where
  "close_result connection = empty_result\<lparr>gr_closeConnections := [connection]\<rparr>"

definition accepted_result :: registry_result where
  "accepted_result = empty_result\<lparr>gr_accepted := True\<rparr>"

definition ClearReservation :: "worker_id \<Rightarrow> worker_record \<Rightarrow> worker_registry \<Rightarrow> worker_registry" where
  "ClearReservation worker rec s =
     s\<lparr>wg_reservations := (case wk_reservation rec of
                             None \<Rightarrow> wg_reservations s
                           | Some r \<Rightarrow> om_erase r (wg_reservations s)),
       wg_workers := om_set worker
         (rec\<lparr>wk_state := Idle, wk_reservation := None, wk_match := None\<rparr>) (wg_workers s)\<rparr>"

text \<open>What a worker's disappearance means for the lobby.\<close>

definition disconnect_events :: "worker_record \<Rightarrow> worker_event list" where
  "disconnect_events rec =
     (case (wk_state rec, wk_reservation rec, wk_match rec) of
        (Reserved, Some r, Some m) \<Rightarrow> [ReservationFailedEvent r m]
      | (Active, _, Some m) \<Rightarrow> [MatchUnavailableEvent (wr_worker (wk_registration rec)) m]
      | _ \<Rightarrow> [])"

definition registry_Disconnect :: "worker_connection_id \<Rightarrow> worker_registry \<Rightarrow> registered" where
  "registry_Disconnect connection s =
     (case map_of (wg_connections s) connection of
        None \<Rightarrow> (empty_result, s)
      | Some worker \<Rightarrow>
          (case map_of (wg_workers s) worker of
             None \<Rightarrow> (empty_result, s\<lparr>wg_connections := om_erase connection (wg_connections s)\<rparr>)
           | Some rec \<Rightarrow>
               (accepted_result\<lparr>gr_events := disconnect_events rec\<rparr>,
                s\<lparr>wg_reservations := (case wk_reservation rec of
                                        None \<Rightarrow> wg_reservations s
                                      | Some r \<Rightarrow> om_erase r (wg_reservations s)),
                  wg_endpoints := om_erase (endpoint_of (wk_registration rec)) (wg_endpoints s),
                  wg_workers := om_erase worker (wg_workers s),
                  wg_connections := om_erase connection (wg_connections s)\<rparr>)))"

definition CloseForProtocolViolation :: "worker_connection_id \<Rightarrow> worker_registry \<Rightarrow> registered" where
  "CloseForProtocolViolation connection s =
     (let (result, s) = registry_Disconnect connection s
      in (result\<lparr>gr_accepted := False,
                 gr_closeConnections := gr_closeConnections result @ [connection]\<rparr>, s))"

definition registry_Register ::
    "worker_connection_id \<Rightarrow> worker_register \<Rightarrow> worker_registry \<Rightarrow> registered" where
  "registry_Register connection registration s =
     (if \<not> IsValidRegistration connection registration
      then (if idval connection \<noteq> 0 then close_result connection else empty_result, s)
      else if om_contains (wg_connections s) connection then CloseForProtocolViolation connection s
      else
        let endpoint = endpoint_of registration;
            worker = wr_worker registration
        in if om_contains (wg_workers s) worker \<or> om_contains (wg_endpoints s) endpoint
           then (close_result connection, s)
           else
             let workerInserted = \<not> om_contains (wg_workers s) worker;
                 connectionInserted = \<not> om_contains (wg_connections s) connection;
                 endpointInserted = \<not> om_contains (wg_endpoints s) endpoint
             in if \<not> workerInserted then (close_result connection, s)
                else
                  let s = s\<lparr>wg_workers := om_emplace worker
                            \<lparr>wk_connection = connection, wk_registration = registration,
                             wk_state = Idle, wk_reservation = None, wk_match = None\<rparr> (wg_workers s),
                            wg_connections := om_emplace connection worker (wg_connections s),
                            wg_endpoints := om_emplace endpoint worker (wg_endpoints s)\<rparr>
                  in if \<not> connectionInserted \<or> \<not> endpointInserted
                     then (close_result connection,
                           s\<lparr>wg_connections := om_erase connection (wg_connections s),
                             wg_endpoints := om_erase endpoint (wg_endpoints s),
                             wg_workers := om_erase worker (wg_workers s)\<rparr>)
                     else (accepted_result\<lparr>gr_outbound :=
                             [\<lparr>co_recipient = connection, co_message = WorkerRegistered worker\<rparr>]\<rparr>, s))"

definition reservation_timer :: "timer_kind \<Rightarrow> reservation_id \<Rightarrow> timer_directive" where
  "reservation_timer kind reservation =
     \<lparr>td_kind = kind, td_reservation = reservation, td_duration = 2 * nanoseconds_per_second\<rparr>"

definition execute_reserve ::
    "reserve_match_action \<Rightarrow> time_point \<Rightarrow> worker_registry \<Rightarrow> registered" where
  "execute_reserve a now s =
     (let fail = empty_result\<lparr>gr_events := [ReservationFailedEvent (ra_reservation a) (ra_match a)]\<rparr>
      in if idval (ra_reservation a) = 0
            \<or> om_contains (wg_reservations s) (ra_reservation a)
            \<or> length (ra_participants a) < 2
            \<or> RoomCapacity < length (ra_participants a)
         then (fail, s)
         else case find (\<lambda>entry. wk_state (snd entry) = Idle) (wg_workers s) of
                None \<Rightarrow> (fail, s)
              | Some (worker, rec) \<Rightarrow>
                  let ticketLifetime = int MatchTicketLifetimeSeconds * nanoseconds_per_second;
                      remaining = ra_issuedAt a + ticketLifetime - now
                  in if remaining \<le> 0 then (fail, s)
                     else
                       let remainingMilliseconds =
                             trunc_div (min remaining ticketLifetime) nanoseconds_per_millisecond
                       in if remainingMilliseconds \<le> 0 then (fail, s)
                          else
                            let rec = rec\<lparr>wk_state := Reserved,
                                          wk_reservation := Some (ra_reservation a),
                                          wk_match := Some (ra_match a)\<rparr>;
                                inserted = \<not> om_contains (wg_reservations s) (ra_reservation a);
                                s = s\<lparr>wg_workers := om_set worker rec (wg_workers s),
                                      wg_reservations := om_emplace (ra_reservation a) worker
                                        (wg_reservations s)\<rparr>
                            in if \<not> inserted then (fail, ClearReservation worker rec s)
                               else (accepted_result
                                 \<lparr>gr_outbound := [\<lparr>co_recipient = wk_connection rec,
                                    co_message = ReserveMatch
                                      \<lparr>rm_reservation = ra_reservation a, rm_match = ra_match a,
                                       rm_seed = ra_seed a,
                                       rm_ticketLifetimeMilliseconds = of_int remainingMilliseconds,
                                       rm_participants = ra_participants a\<rparr>\<rparr>],
                                  gr_timers := [reservation_timer StartTimer (ra_reservation a)]\<rparr>, s))"

definition execute_cancel ::
    "reservation_id \<Rightarrow> match_id \<Rightarrow> worker_registry \<Rightarrow> registered" where
  "execute_cancel reservation match s =
     (case map_of (wg_reservations s) reservation of
        None \<Rightarrow> (empty_result, s)
      | Some worker \<Rightarrow>
          (case map_of (wg_workers s) worker of
             None \<Rightarrow> (empty_result, s\<lparr>wg_reservations := om_erase reservation (wg_reservations s)\<rparr>)
           | Some rec \<Rightarrow>
               if wk_state rec \<noteq> Reserved \<or> wk_reservation rec \<noteq> Some reservation
                  \<or> wk_match rec \<noteq> Some match
               then (empty_result, s)
               else (accepted_result
                       \<lparr>gr_outbound := [\<lparr>co_recipient = wk_connection rec,
                          co_message = CancelMatchReservation reservation match\<rparr>],
                        gr_timers := [reservation_timer CancelTimer reservation]\<rparr>,
                     s\<lparr>wg_workers := om_set worker (rec\<lparr>wk_state := Cancelling\<rparr>) (wg_workers s)\<rparr>)))"

fun registry_Execute :: "runtime_action \<Rightarrow> time_point \<Rightarrow> worker_registry \<Rightarrow> registered" where
  "registry_Execute (ReserveMatchAction a) now s = execute_reserve a now s"
| "registry_Execute (CancelReservationAction reservation match) now s =
     execute_cancel reservation match s"

text \<open>The visitor of \<^verbatim>\<open>Receive\<close>, for a message from a worker with a record.\<close>

fun receive_message ::
    "worker_connection_id \<Rightarrow> worker_id \<Rightarrow> worker_record \<Rightarrow> worker_to_lobby_message
      \<Rightarrow> worker_registry \<Rightarrow> registered" where
  "receive_message connection worker rec (WorkerRegister _) s = CloseForProtocolViolation connection s"
| "receive_message connection worker rec (ReserveMatchReady reservation match) s =
     (if wk_state rec = Reserved
      then if wk_reservation rec \<noteq> Some reservation \<or> wk_match rec \<noteq> Some match
           then CloseForProtocolViolation connection s
           else (accepted_result\<lparr>gr_events := [ReservationReadyEvent reservation match
                   (wr_worker (wk_registration rec))
                   \<lparr>ep_host = wr_advertisedHost (wk_registration rec),
                    ep_tcpPort = wr_gameTcpPort (wk_registration rec),
                    ep_udpPort = wr_gameUdpPort (wk_registration rec)\<rparr>]\<rparr>,
                 s\<lparr>wg_reservations := om_erase reservation (wg_reservations s),
                   wg_workers := om_set worker (rec\<lparr>wk_state := Active\<rparr>) (wg_workers s)\<rparr>)
      else if (wk_state rec = Cancelling \<or> wk_state rec = Active)
              \<and> wk_reservation rec = Some reservation \<and> wk_match rec = Some match
      then (accepted_result, s)
      else if wk_state rec = Idle then (accepted_result, s)
      else CloseForProtocolViolation connection s)"
| "receive_message connection worker rec (ReserveMatchRejected reservation match reason) s =
     (if wk_state rec = Reserved
      then if wk_reservation rec \<noteq> Some reservation \<or> wk_match rec \<noteq> Some match
           then CloseForProtocolViolation connection s
           else (accepted_result\<lparr>gr_events := [ReservationFailedEvent reservation match]\<rparr>,
                 ClearReservation worker rec s)
      else if (wk_state rec = Cancelling \<or> wk_state rec = Active)
              \<and> wk_reservation rec = Some reservation \<and> wk_match rec = Some match
      then (accepted_result, s)
      else if wk_state rec = Idle then (accepted_result, s)
      else CloseForProtocolViolation connection s)"
| "receive_message connection worker rec (MatchReservationCancelled reservation match) s =
     (if wk_state rec = Cancelling
      then if wk_reservation rec \<noteq> Some reservation \<or> wk_match rec \<noteq> Some match
           then CloseForProtocolViolation connection s
           else (accepted_result, ClearReservation worker rec s)
      else if wk_state rec = Idle \<or> wk_state rec = Active then (accepted_result, s)
      else CloseForProtocolViolation connection s)"
| "receive_message connection worker rec (MatchFinished finished) s =
     (if wk_state rec = Active
      then if wk_match rec \<noteq> Some (mf_match finished) then CloseForProtocolViolation connection s
           else (accepted_result\<lparr>gr_events :=
                   [MatchFinishedEvent (wr_worker (wk_registration rec)) (mf_match finished)]\<rparr>,
                 ClearReservation worker rec s)
      else if wk_state rec = Idle then (accepted_result, s)
      else CloseForProtocolViolation connection s)"

definition registry_Receive ::
    "worker_connection_id \<Rightarrow> worker_to_lobby_message \<Rightarrow> worker_registry \<Rightarrow> registered" where
  "registry_Receive connection message s =
     (case map_of (wg_connections s) connection of
        None \<Rightarrow> (if idval connection \<noteq> 0 then close_result connection else empty_result, s)
      | Some worker \<Rightarrow>
          (case map_of (wg_workers s) worker of
             None \<Rightarrow> (close_result connection,
                      s\<lparr>wg_connections := om_erase connection (wg_connections s)\<rparr>)
           | Some rec \<Rightarrow> receive_message connection worker rec message s))"

definition registry_Timeout :: "reservation_id \<Rightarrow> worker_registry \<Rightarrow> registered" where
  "registry_Timeout reservation s =
     (case map_of (wg_reservations s) reservation of
        None \<Rightarrow> (empty_result, s)
      | Some worker \<Rightarrow>
          (case map_of (wg_workers s) worker of
             None \<Rightarrow> (empty_result, s\<lparr>wg_reservations := om_erase reservation (wg_reservations s)\<rparr>)
           | Some rec \<Rightarrow>
               (let (result, s) = registry_Disconnect (wk_connection rec) s
                in (result\<lparr>gr_closeConnections :=
                      gr_closeConnections result @ [wk_connection rec]\<rparr>, s))))"

definition WorkerCount :: "worker_registry \<Rightarrow> nat" where
  "WorkerCount s = length (wg_workers s)"

definition IdleCount :: "worker_registry \<Rightarrow> nat" where
  "IdleCount s = length (filter (\<lambda>entry. wk_state (snd entry) = Idle) (wg_workers s))"

end
