(* ===== verification/WorkerInvariant.thy ===== *)
theory WorkerInvariant
  imports WorkerRegistry
begin

text \<open>
  The invariant of the worker registry: its four maps describe the same workers, and the
  reservations it tracks are those of the workers that are reserved or cancelling. Every
  operation keeps it, provided the lobby does not reuse the identifier of a reservation that
  a worker still holds. The registry is an \<open>invariant_machine\<close>, and every reservation
  has at most one outcome.
\<close>

section \<open>The invariant\<close>

text \<open>The reservation a worker's record keeps tracked.\<close>

definition pending_of :: "worker_record \<Rightarrow> reservation_id option" where
  "pending_of rec =
     (if wk_state rec = Reserved \<or> wk_state rec = Cancelling then wk_reservation rec else None)"

definition record_ok :: "worker_record \<Rightarrow> bool" where
  "record_ok rec \<longleftrightarrow>
     IsValidRegistration (wk_connection rec) (wk_registration rec)
     \<and> (wk_state rec = Idle \<longleftrightarrow> wk_reservation rec = None)
     \<and> (wk_state rec = Idle \<longleftrightarrow> wk_match rec = None)"

definition reg_inv ::
    "(worker_id \<rightharpoonup> worker_record) \<Rightarrow> (worker_connection_id \<rightharpoonup> worker_id)
      \<Rightarrow> (reservation_id \<rightharpoonup> worker_id) \<Rightarrow> (endpoint_key \<rightharpoonup> worker_id) \<Rightarrow> bool" where
  "reg_inv workers conns resv ends \<longleftrightarrow>
     (\<forall>w rec. workers w = Some rec \<longrightarrow>
        record_ok rec \<and> wr_worker (wk_registration rec) = w
        \<and> conns (wk_connection rec) = Some w \<and> ends (endpoint_of (wk_registration rec)) = Some w)
     \<and> (\<forall>c w. conns c = Some w \<longrightarrow> (\<exists>rec. workers w = Some rec \<and> wk_connection rec = c))
     \<and> (\<forall>e w. ends e = Some w \<longrightarrow> (\<exists>rec. workers w = Some rec \<and> endpoint_of (wk_registration rec) = e))
     \<and> (\<forall>r w. resv r = Some w \<longleftrightarrow> (\<exists>rec. workers w = Some rec \<and> pending_of rec = Some r))
     \<and> (\<forall>w w' rec rec' r. workers w = Some rec \<and> workers w' = Some rec'
          \<and> wk_reservation rec = Some r \<and> wk_reservation rec' = Some r \<longrightarrow> w = w')"

definition registry_inv :: "worker_registry \<Rightarrow> bool" where
  "registry_inv s \<longleftrightarrow>
     om_wf (wg_workers s) \<and> om_wf (wg_connections s) \<and> om_wf (wg_reservations s)
     \<and> om_wf (wg_endpoints s)
     \<and> reg_inv (map_of (wg_workers s)) (map_of (wg_connections s)) (map_of (wg_reservations s))
         (map_of (wg_endpoints s))"

lemma pending_of_reservation: "pending_of rec = Some r \<Longrightarrow> wk_reservation rec = Some r"
  by (simp add: pending_of_def split: if_splits)

lemma pending_of_Idle: "wk_state rec = Idle \<Longrightarrow> pending_of rec = None"
  by (simp add: pending_of_def)

lemma reg_invD:
  assumes "reg_inv workers conns resv ends"
  shows "workers w = Some rec \<Longrightarrow> record_ok rec"
    and "workers w = Some rec \<Longrightarrow> wr_worker (wk_registration rec) = w"
    and "workers w = Some rec \<Longrightarrow> conns (wk_connection rec) = Some w"
    and "workers w = Some rec \<Longrightarrow> ends (endpoint_of (wk_registration rec)) = Some w"
    and "conns c = Some w \<Longrightarrow> \<exists>rec. workers w = Some rec \<and> wk_connection rec = c"
    and "ends e = Some w \<Longrightarrow> \<exists>rec. workers w = Some rec \<and> endpoint_of (wk_registration rec) = e"
    and "resv r = Some w \<longleftrightarrow> (\<exists>rec. workers w = Some rec \<and> pending_of rec = Some r)"
    and "workers w = Some rec \<Longrightarrow> workers w' = Some rec' \<Longrightarrow> wk_reservation rec = Some r
      \<Longrightarrow> wk_reservation rec' = Some r \<Longrightarrow> w = w'"
  using assms unfolding reg_inv_def by blast+

lemma reg_invI:
  assumes "\<And>w rec. workers w = Some rec \<Longrightarrow> record_ok rec"
    and "\<And>w rec. workers w = Some rec \<Longrightarrow> wr_worker (wk_registration rec) = w"
    and "\<And>w rec. workers w = Some rec \<Longrightarrow> conns (wk_connection rec) = Some w"
    and "\<And>w rec. workers w = Some rec \<Longrightarrow> ends (endpoint_of (wk_registration rec)) = Some w"
    and "\<And>c w. conns c = Some w \<Longrightarrow> \<exists>rec. workers w = Some rec \<and> wk_connection rec = c"
    and "\<And>e w. ends e = Some w \<Longrightarrow> \<exists>rec. workers w = Some rec \<and> endpoint_of (wk_registration rec) = e"
    and "\<And>r w. resv r = Some w \<longleftrightarrow> (\<exists>rec. workers w = Some rec \<and> pending_of rec = Some r)"
    and "\<And>w rec w' rec' r. workers w = Some rec \<Longrightarrow> workers w' = Some rec'
      \<Longrightarrow> wk_reservation rec = Some r \<Longrightarrow> wk_reservation rec' = Some r \<Longrightarrow> w = w'"
  shows "reg_inv workers conns resv ends"
  unfolding reg_inv_def using assms by blast

section \<open>Changes\<close>

text \<open>A worker's record changes state: the tracked reservations follow.\<close>

lemma reg_inv_update:
  assumes inv: "reg_inv W C R E" and w: "W w = Some rec"
    and same: "wk_connection rec' = wk_connection rec" "wk_registration rec' = wk_registration rec"
    and ok: "record_ok rec'"
    and R': "\<And>r. R' r = (if pending_of rec' = Some r then Some w
                         else if R r = Some w then None else R r)"
    and fresh: "\<And>x rc r. W x = Some rc \<Longrightarrow> x \<noteq> w \<Longrightarrow> wk_reservation rc = Some r
      \<Longrightarrow> wk_reservation rec' \<noteq> Some r"
  shows "reg_inv (W(w \<mapsto> rec')) C R' E"
proof (rule reg_invI)
  note D = reg_invD [OF inv]
  fix x rc assume x: "(W(w \<mapsto> rec')) x = Some rc"
  show "record_ok rc" "wr_worker (wk_registration rc) = x" "C (wk_connection rc) = Some x"
    "E (endpoint_of (wk_registration rc)) = Some x"
    using x D(1-4) [of x rc] D(2-4) [OF w] ok same by (auto split: if_splits)
next
  fix c x assume "C c = Some x"
  from reg_invD(5) [OF inv this] show "\<exists>rc. (W(w \<mapsto> rec')) x = Some rc \<and> wk_connection rc = c"
    using w same by (cases "x = w") auto
next
  fix e x assume "E e = Some x"
  from reg_invD(6) [OF inv this]
  show "\<exists>rc. (W(w \<mapsto> rec')) x = Some rc \<and> endpoint_of (wk_registration rc) = e"
    using w same by (cases "x = w") auto
next
  fix r x
  have no: "R r \<noteq> Some x" if "pending_of rec' = Some r" "x \<noteq> w"
  proof
    assume "R r = Some x"
    then obtain rc where "W x = Some rc" "pending_of rc = Some r"
      using reg_invD(7) [OF inv] by blast
    then show False
      using fresh [of x rc r] that pending_of_reservation by blast
  qed
  show "R' r = Some x \<longleftrightarrow> (\<exists>rc. (W(w \<mapsto> rec')) x = Some rc \<and> pending_of rc = Some r)"
  proof (cases "x = w")
    case True
    then show ?thesis by (simp add: R')
  next
    case False
    then show ?thesis using no reg_invD(7) [OF inv, of r x] by (auto simp: R')
  qed
next
  fix x rc x' rc' r
  assume "(W(w \<mapsto> rec')) x = Some rc" "(W(w \<mapsto> rec')) x' = Some rc'"
    "wk_reservation rc = Some r" "wk_reservation rc' = Some r"
  then show "x = x'"
    using fresh [of x rc r] fresh [of x' rc' r] reg_invD(8) [OF inv, of x rc x' rc' r]
    by (auto split: if_splits)
qed

text \<open>The worker that holds a tracked reservation is the only one that holds it.\<close>

lemma reg_inv_holder:
  assumes inv: "reg_inv W C R E" and "W w = Some rec" and "wk_reservation rec = Some r"
  shows "R r = (if pending_of rec = Some r then Some w else None)"
proof (cases "R r")
  case None
  then show ?thesis using reg_invD(7) [OF inv, of r w] assms(2) by auto
next
  case (Some x)
  then obtain rc where rc: "W x = Some rc" "pending_of rc = Some r"
    using reg_invD(7) [OF inv] by blast
  then have "x = w"
    using reg_invD(8) [OF inv rc(1) assms(2) pending_of_reservation assms(3)] by blast
  with rc Some assms(2) show ?thesis by simp
qed

lemma reg_inv_erase_reservation:
  assumes inv: "reg_inv W C R E" and w: "W w = Some rec"
  shows "(case wk_reservation rec of None \<Rightarrow> R | Some r \<Rightarrow> R(r := None)) =
    (\<lambda>r. if R r = Some w then None else R r)"
proof (cases "wk_reservation rec")
  case None
  then have "pending_of rec = None" by (simp add: pending_of_def)
  then have "R r \<noteq> Some w" for r using reg_invD(7) [OF inv, of r w] w by simp
  with None show ?thesis by (simp add: fun_eq_iff)
next
  case (Some r)
  have "R x \<noteq> Some w" if "x \<noteq> r" for x
    using reg_invD(7) [OF inv, of x w] w Some that pending_of_reservation [of rec x] by auto
  with Some reg_inv_holder [OF inv w Some] show ?thesis by (auto simp: fun_eq_iff)
qed

lemma reg_inv_clear:
  assumes inv: "reg_inv W C R E" and w: "W w = Some rec"
  shows "reg_inv (W(w \<mapsto> rec\<lparr>wk_state := Idle, wk_reservation := None, wk_match := None\<rparr>)) C
    (case wk_reservation rec of None \<Rightarrow> R | Some r \<Rightarrow> R(r := None)) E"
  unfolding reg_inv_erase_reservation [OF inv w]
  by (rule reg_inv_update [OF inv w])
     (use reg_invD(1) [OF inv w] in \<open>simp_all add: record_ok_def pending_of_def\<close>)

lemma reg_inv_remove:
  assumes inv: "reg_inv W C R E" and w: "W w = Some rec"
  shows "reg_inv (W(w := None)) (C(wk_connection rec := None))
    (case wk_reservation rec of None \<Rightarrow> R | Some r \<Rightarrow> R(r := None))
    (E(endpoint_of (wk_registration rec) := None))"
  unfolding reg_inv_erase_reservation [OF inv w]
proof (rule reg_invI)
  note D = reg_invD [OF inv]
  fix x rc assume x: "(W(w := None)) x = Some rc"
  then have x': "W x = Some rc" "x \<noteq> w" by (auto split: if_splits)
  show "record_ok rc" "wr_worker (wk_registration rc) = x" using D(1,2) [OF x'(1)] by simp_all
  show "(C(wk_connection rec := None)) (wk_connection rc) = Some x"
    using D(3) [OF x'(1)] D(3) [OF w] x'(2) by auto
  show "(E(endpoint_of (wk_registration rec) := None)) (endpoint_of (wk_registration rc)) = Some x"
    using D(4) [OF x'(1)] D(4) [OF w] x'(2) by auto
next
  fix c x assume "(C(wk_connection rec := None)) c = Some x"
  then have c: "C c = Some x" "c \<noteq> wk_connection rec" by (auto split: if_splits)
  from reg_invD(5) [OF inv c(1)] c(2) w
  show "\<exists>rc. (W(w := None)) x = Some rc \<and> wk_connection rc = c" by auto
next
  fix e x assume "(E(endpoint_of (wk_registration rec) := None)) e = Some x"
  then have e: "E e = Some x" "e \<noteq> endpoint_of (wk_registration rec)" by (auto split: if_splits)
  from reg_invD(6) [OF inv e(1)] e(2) w
  show "\<exists>rc. (W(w := None)) x = Some rc \<and> endpoint_of (wk_registration rc) = e" by auto
next
  fix r x
  show "(if R r = Some w then None else R r) = Some x \<longleftrightarrow>
      (\<exists>rc. (W(w := None)) x = Some rc \<and> pending_of rc = Some r)"
    using reg_invD(7) [OF inv, of r x] by (cases "x = w") auto
next
  fix x rc x' rc' r
  assume "(W(w := None)) x = Some rc" "(W(w := None)) x' = Some rc'"
    "wk_reservation rc = Some r" "wk_reservation rc' = Some r"
  then show "x = x'" using reg_invD(8) [OF inv, of x rc x' rc' r] by (auto split: if_splits)
qed

lemma reg_inv_add:
  assumes inv: "reg_inv W C R E" and new: "W w = None" "C c = None" "E (endpoint_of g) = None"
    and valid: "IsValidRegistration c g" "wr_worker g = w"
  shows "reg_inv (W(w \<mapsto> \<lparr>wk_connection = c, wk_registration = g, wk_state = Idle,
      wk_reservation = None, wk_match = None\<rparr>)) (C(c \<mapsto> w)) R (E(endpoint_of g \<mapsto> w))"
    (is "reg_inv (W(w \<mapsto> ?rec)) _ _ _")
proof (rule reg_invI)
  note D = reg_invD [OF inv]
  fix x rc assume x: "(W(w \<mapsto> ?rec)) x = Some rc"
  show "record_ok rc" "wr_worker (wk_registration rc) = x" "(C(c \<mapsto> w)) (wk_connection rc) = Some x"
    "(E(endpoint_of g \<mapsto> w)) (endpoint_of (wk_registration rc)) = Some x"
    using x D(1-4) [of x rc] valid new by (auto simp: record_ok_def split: if_splits)
next
  fix c' x assume "(C(c \<mapsto> w)) c' = Some x"
  then show "\<exists>rc. (W(w \<mapsto> ?rec)) x = Some rc \<and> wk_connection rc = c'"
    using reg_invD(5) [OF inv, of c' x] new by (auto split: if_splits)
next
  fix e x assume "(E(endpoint_of g \<mapsto> w)) e = Some x"
  then show "\<exists>rc. (W(w \<mapsto> ?rec)) x = Some rc \<and> endpoint_of (wk_registration rc) = e"
    using reg_invD(6) [OF inv, of e x] new by (auto split: if_splits)
next
  fix r x
  have "R r \<noteq> Some w" using reg_invD(7) [OF inv, of r w] new by auto
  then show "R r = Some x \<longleftrightarrow> (\<exists>rc. (W(w \<mapsto> ?rec)) x = Some rc \<and> pending_of rc = Some r)"
    using reg_invD(7) [OF inv, of r x] new by (cases "x = w") (auto simp: pending_of_def)
next
  fix x rc x' rc' r
  assume "(W(w \<mapsto> ?rec)) x = Some rc" "(W(w \<mapsto> ?rec)) x' = Some rc'"
    "wk_reservation rc = Some r" "wk_reservation rc' = Some r"
  then show "x = x'" using reg_invD(8) [OF inv, of x rc x' rc' r] by (auto split: if_splits)
qed

section \<open>Events and outcomes\<close>

datatype registry_event =
    Registering worker_connection_id worker_register
  | Executing runtime_action time_point
  | Receiving worker_connection_id worker_to_lobby_message
  | Disconnecting worker_connection_id
  | TimingOut reservation_id

fun registry_handle :: "worker_registry \<Rightarrow> registry_event \<Rightarrow> registered" where
  "registry_handle s (Registering c g) = registry_Register c g s"
| "registry_handle s (Executing action now) = registry_Execute action now s"
| "registry_handle s (Receiving c message) = registry_Receive c message s"
| "registry_handle s (Disconnecting c) = registry_Disconnect c s"
| "registry_handle s (TimingOut r) = registry_Timeout r s"

text \<open>The reservations an event asks for, and those it calls off.\<close>

fun asked :: "registry_event \<Rightarrow> reservation_id list" where
  "asked (Executing (ReserveMatchAction a) now) = [ra_reservation a]"
| "asked _ = []"

fun called_off :: "registry_event \<Rightarrow> reservation_id list" where
  "called_off (Executing (CancelReservationAction r m) now) = [r]"
| "called_off _ = []"

text \<open>The outcome of a reservation that the lobby is told.\<close>

fun outcome_of :: "worker_event \<Rightarrow> reservation_id list" where
  "outcome_of (ReservationReadyEvent r m w e) = [r]"
| "outcome_of (ReservationFailedEvent r m) = [r]"
| "outcome_of _ = []"

definition outcomes :: "registry_result \<Rightarrow> reservation_id list" where
  "outcomes result = concat (map outcome_of (gr_events result))"

text \<open>The reservation that a worker has been asked for and not answered.\<close>

definition waits_for :: "worker_record \<Rightarrow> reservation_id \<Rightarrow> bool" where
  "waits_for rec r \<longleftrightarrow> wk_state rec = Reserved \<and> wk_reservation rec = Some r"

definition awaiting :: "(worker_id \<rightharpoonup> worker_record) \<Rightarrow> reservation_id set" where
  "awaiting W = {r. \<exists>w rec. W w = Some rec \<and> waits_for rec r}"

lemma awaitingI: "W w = Some rec \<Longrightarrow> waits_for rec r \<Longrightarrow> r \<in> awaiting W"
  by (auto simp: awaiting_def)

definition held :: "(worker_id \<rightharpoonup> worker_record) \<Rightarrow> reservation_id set" where
  "held W = {r. \<exists>w rec. W w = Some rec \<and> wk_reservation rec = Some r}"

lemma awaiting_held: "awaiting W \<subseteq> held W"
  by (auto simp: awaiting_def held_def waits_for_def)

lemma awaiting_other:
  assumes inv: "reg_inv W C R E" and w: "W w = Some rec" and x: "W x = Some rc" "waits_for rc r"
  shows "waits_for rec r \<longleftrightarrow> x = w"
proof
  assume "waits_for rec r"
  then show "x = w" using reg_invD(8) [OF inv x(1) w, of r] x(2) by (simp add: waits_for_def)
qed (use w x in simp)

lemma awaiting_remove:
  assumes inv: "reg_inv W C R E" and w: "W w = Some rec"
  shows "awaiting (W(w := None)) = awaiting W - {r. waits_for rec r}"
proof (rule set_eqI)
  fix r
  have "r \<in> awaiting (W(w := None)) \<longleftrightarrow> (\<exists>x rc. W x = Some rc \<and> waits_for rc r \<and> x \<noteq> w)"
    by (auto simp: awaiting_def)
  also have "\<dots> \<longleftrightarrow> r \<in> awaiting W \<and> \<not> waits_for rec r"
    using awaiting_other [OF inv w] unfolding awaiting_def by blast
  finally show "r \<in> awaiting (W(w := None)) \<longleftrightarrow> r \<in> awaiting W - {r. waits_for rec r}" by simp
qed

lemma awaiting_add: "awaiting (W(w \<mapsto> rec')) = awaiting (W(w := None)) \<union> {r. waits_for rec' r}"
proof (rule set_eqI)
  fix r
  show "r \<in> awaiting (W(w \<mapsto> rec')) \<longleftrightarrow> r \<in> awaiting (W(w := None)) \<union> {r. waits_for rec' r}"
    unfolding awaiting_def by (auto split: if_splits)
qed

lemma awaiting_update:
  assumes "reg_inv W C R E" and "W w = Some rec"
  shows "awaiting (W(w \<mapsto> rec')) =
    (awaiting W - {r. waits_for rec r}) \<union> {r. waits_for rec' r}"
  by (simp add: awaiting_add [of W] awaiting_remove [OF assms])

lemma held_update:
  "W w = Some rec \<Longrightarrow> held (W(w \<mapsto> rec')) \<subseteq> held W \<union> {r. wk_reservation rec' = Some r}"
  by (auto simp: held_def split: if_splits)

lemma held_remove: "held (W(w := None)) \<subseteq> held W"
  by (auto simp: held_def split: if_splits)

text \<open>What an operation promises about reservations: \<open>ids\<close> were asked for, \<open>off\<close>
  called off.\<close>

definition sound_step ::
    "worker_registry \<Rightarrow> reservation_id list \<Rightarrow> reservation_id list \<Rightarrow> registered \<Rightarrow> bool" where
  "sound_step s ids off h \<longleftrightarrow>
     (let W = map_of (wg_workers s); W' = map_of (wg_workers (snd h)); out = outcomes (fst h)
      in registry_inv (snd h) \<and> held W' \<subseteq> held W \<union> set ids \<and> distinct out
         \<and> set out \<subseteq> awaiting W \<union> set ids \<and> set out \<inter> awaiting W' = {}
         \<and> awaiting W' \<subseteq> awaiting W \<union> set ids
         \<and> awaiting W \<union> set ids \<subseteq> awaiting W' \<union> set out \<union> set off)"

lemma outcomes_results [simp]:
  "outcomes empty_result = []" "outcomes accepted_result = []" "outcomes (close_result c) = []"
  "outcomes (res\<lparr>gr_closeConnections := cs\<rparr>) = outcomes res"
  "outcomes (res\<lparr>gr_accepted := b\<rparr>) = outcomes res"
  "outcomes (res\<lparr>gr_outbound := ms\<rparr>) = outcomes res"
  "outcomes (res\<lparr>gr_timers := ts\<rparr>) = outcomes res"
  "outcomes (res\<lparr>gr_events := es\<rparr>) = concat (map outcome_of es)"
  by (simp_all add: outcomes_def empty_result_def accepted_result_def close_result_def)

text \<open>Nothing changed.\<close>

lemma sound_step_same: "registry_inv s \<Longrightarrow> outcomes result = [] \<Longrightarrow> sound_step s [] off (result, s)"
  by (simp add: sound_step_def)

text \<open>A worker's record changed, without a new reservation: the outcome is told exactly if it
  stops waiting for one that is not called off.\<close>

lemma sound_step_update:
  assumes inv: "registry_inv s" and w: "map_of (wg_workers s) w = Some rec"
    and inv': "registry_inv s'" and s': "map_of (wg_workers s') = (map_of (wg_workers s))(w \<mapsto> rec')"
    and old: "\<And>r. wk_reservation rec' = Some r \<Longrightarrow> wk_reservation rec = Some r"
    and idle: "\<And>r. \<not> waits_for rec' r" and d: "distinct (outcomes result)"
    and out: "\<And>r. r \<in> set (outcomes result) \<Longrightarrow> waits_for rec r"
    and all: "\<And>r. waits_for rec r \<Longrightarrow> r \<in> set (outcomes result) \<union> set off"
  shows "sound_step s [] off (result, s')"
proof -
  have reg: "reg_inv (map_of (wg_workers s)) (map_of (wg_connections s)) (map_of (wg_reservations s))
      (map_of (wg_endpoints s))" using inv by (simp add: registry_inv_def)
  have "held (map_of (wg_workers s')) \<subseteq> held (map_of (wg_workers s))"
    using held_update [of "map_of (wg_workers s)", OF w, of rec'] old w by (auto simp: s' held_def)
  moreover have "awaiting (map_of (wg_workers s')) = awaiting (map_of (wg_workers s)) - {r. waits_for rec r}"
    using awaiting_update [OF reg w, of rec'] idle by (simp add: s')
  moreover have "set (outcomes result) \<subseteq> awaiting (map_of (wg_workers s))"
    using out w by (auto simp: awaiting_def)
  moreover have "{r. waits_for rec r} \<subseteq> set (outcomes result) \<union> set off"
    "set (outcomes result) \<subseteq> {r. waits_for rec r}"
    using all out by blast+
  ultimately show ?thesis
    using inv' d by (simp add: sound_step_def Let_def) blast
qed

lemma sound_step_remove:
  assumes inv: "registry_inv s" and w: "map_of (wg_workers s) w = Some rec"
    and inv': "registry_inv s'" and s': "map_of (wg_workers s') = (map_of (wg_workers s))(w := None)"
    and d: "distinct (outcomes result)"
    and out: "\<And>r. r \<in> set (outcomes result) \<longleftrightarrow> waits_for rec r"
  shows "sound_step s [] off (result, s')"
proof -
  have reg: "reg_inv (map_of (wg_workers s)) (map_of (wg_connections s)) (map_of (wg_reservations s))
      (map_of (wg_endpoints s))" using inv by (simp add: registry_inv_def)
  have "awaiting (map_of (wg_workers s')) = awaiting (map_of (wg_workers s)) - {r. waits_for rec r}"
    using awaiting_remove [OF reg w] by (simp add: s')
  moreover have "set (outcomes result) \<subseteq> awaiting (map_of (wg_workers s))"
    using out w by (auto simp: awaiting_def)
  ultimately show ?thesis
    using inv' d out held_remove [of "map_of (wg_workers s)" w] by (auto simp: sound_step_def Let_def s')
qed

section \<open>The operations\<close>

lemma registry_invD: "registry_inv s \<Longrightarrow>
    reg_inv (map_of (wg_workers s)) (map_of (wg_connections s)) (map_of (wg_reservations s))
      (map_of (wg_endpoints s))"
  by (simp add: registry_inv_def)

lemma connected_worker:
  assumes "registry_inv s" and "map_of (wg_connections s) c = Some w"
  obtains rec where "map_of (wg_workers s) w = Some rec" "wk_connection rec = c"
  using reg_invD(5) [OF registry_invD [OF assms(1)] assms(2)] by blast

lemma map_of_erase_reservation:
  "map_of (case x of None \<Rightarrow> m | Some r \<Rightarrow> om_erase r m) =
     (case x of None \<Rightarrow> map_of m | Some r \<Rightarrow> (map_of m)(r := None))"
  by (simp split: option.split)

lemma om_wf_erase_reservation:
  "om_wf m \<Longrightarrow> om_wf (case x of None \<Rightarrow> m | Some r \<Rightarrow> om_erase r m)"
  by (simp split: option.split)

lemma disconnect_events_outcomes:
  assumes "record_ok rec"
  shows "concat (map outcome_of (disconnect_events rec)) =
    (if wk_state rec = Reserved then [the (wk_reservation rec)] else [])"
  using assms
  by (cases "wk_state rec"; cases "wk_reservation rec"; cases "wk_match rec")
     (simp_all add: disconnect_events_def record_ok_def)

lemma registry_Disconnect_sound:
  assumes inv: "registry_inv s"
  shows "sound_step s [] off (registry_Disconnect c s)"
proof (cases "map_of (wg_connections s) c")
  case None
  then show ?thesis using inv by (simp add: registry_Disconnect_def sound_step_same)
next
  case (Some w)
  then obtain rec where w: "map_of (wg_workers s) w = Some rec" and c: "wk_connection rec = c"
    using connected_worker [OF inv] by blast
  let ?s = "snd (registry_Disconnect c s)" and ?res = "fst (registry_Disconnect c s)"
  have eq: "registry_Disconnect c s = (accepted_result\<lparr>gr_events := disconnect_events rec\<rparr>, ?s)"
    and s': "map_of (wg_workers ?s) = (map_of (wg_workers s))(w := None)"
    using Some w by (simp_all add: registry_Disconnect_def)
  have "registry_inv ?s"
    using inv reg_inv_remove [OF registry_invD [OF inv] w] Some w c
    by (simp add: registry_inv_def registry_Disconnect_def map_of_erase_reservation om_wf_erase_reservation)
  moreover have ok: "record_ok rec" by (rule reg_invD(1) [OF registry_invD [OF inv] w])
  have out: "outcomes (accepted_result\<lparr>gr_events := disconnect_events rec\<rparr>) =
      (if wk_state rec = Reserved then [the (wk_reservation rec)] else [])"
    unfolding outcomes_results by (rule disconnect_events_outcomes [OF ok])
  have "r \<in> set (outcomes (accepted_result\<lparr>gr_events := disconnect_events rec\<rparr>)) \<longleftrightarrow> waits_for rec r" for r
    using ok unfolding out by (auto simp: waits_for_def record_ok_def)
  moreover have "distinct (outcomes (accepted_result\<lparr>gr_events := disconnect_events rec\<rparr>))"
    unfolding out by simp
  ultimately show ?thesis
    by (subst eq) (rule sound_step_remove [OF inv w _ s'])
qed

lemma sound_step_result:
  "outcomes result' = outcomes (fst h) \<Longrightarrow> sound_step s ids off (result', snd h) = sound_step s ids off h"
  by (simp add: sound_step_def)

lemma CloseForProtocolViolation_sound:
  assumes inv: "registry_inv s"
  shows "sound_step s [] off (CloseForProtocolViolation c s)"
proof -
  obtain res s' where d: "registry_Disconnect c s = (res, s')" by (cases "registry_Disconnect c s")
  then show ?thesis
    using registry_Disconnect_sound [OF inv, of off c]
      sound_step_result [of "res\<lparr>gr_accepted := False, gr_closeConnections := gr_closeConnections res @ [c]\<rparr>" "(res, s')"]
    by (simp add: CloseForProtocolViolation_def)
qed

lemma registry_Timeout_sound:
  assumes inv: "registry_inv s"
  shows "sound_step s [] off (registry_Timeout r s)"
proof (cases "map_of (wg_reservations s) r")
  case None
  then show ?thesis using inv by (simp add: registry_Timeout_def sound_step_same)
next
  case (Some w)
  then obtain rec where w: "map_of (wg_workers s) w = Some rec"
    using reg_invD(7) [OF registry_invD [OF inv]] by blast
  obtain res s' where d: "registry_Disconnect (wk_connection rec) s = (res, s')"
    by (cases "registry_Disconnect (wk_connection rec) s")
  then show ?thesis
    using Some w registry_Disconnect_sound [OF inv, of off "wk_connection rec"]
      sound_step_result [of "res\<lparr>gr_closeConnections := gr_closeConnections res @ [wk_connection rec]\<rparr>" "(res, s')"]
    by (simp add: registry_Timeout_def)
qed

lemma registry_Register_sound:
  assumes inv: "registry_inv s"
  shows "sound_step s [] off (registry_Register c g s)"
proof (cases "IsValidRegistration c g \<and> map_of (wg_connections s) c = None
    \<and> map_of (wg_workers s) (wr_worker g) = None \<and> map_of (wg_endpoints s) (endpoint_of g) = None")
  case False
  then show ?thesis
    using inv CloseForProtocolViolation_sound [OF inv, of off c]
    by (auto simp: registry_Register_def om_contains_def Let_def sound_step_same)
next
  case True
  let ?rec = "\<lparr>wk_connection = c, wk_registration = g, wk_state = Idle, wk_reservation = None,
    wk_match = None\<rparr>"
  let ?s = "s\<lparr>wg_workers := om_set (wr_worker g) ?rec (wg_workers s),
    wg_connections := om_set c (wr_worker g) (wg_connections s),
    wg_endpoints := om_set (endpoint_of g) (wr_worker g) (wg_endpoints s)\<rparr>"
  have eq: "registry_Register c g s = (accepted_result\<lparr>gr_outbound :=
      [\<lparr>co_recipient = c, co_message = WorkerRegistered (wr_worker g)\<rparr>]\<rparr>, ?s)"
    using True by (simp add: registry_Register_def om_contains_def om_emplace_def Let_def)
  have "registry_inv ?s"
    using inv True reg_inv_add [OF registry_invD [OF inv], of "wr_worker g" c g]
    by (simp add: registry_inv_def)
  moreover have "awaiting ((map_of (wg_workers s))(wr_worker g \<mapsto> ?rec)) = awaiting (map_of (wg_workers s))"
    using True by (simp add: awaiting_add [of "map_of (wg_workers s)"] waits_for_def fun_upd_idem)
  moreover have "held ((map_of (wg_workers s))(wr_worker g \<mapsto> ?rec)) \<subseteq> held (map_of (wg_workers s))"
    by (auto simp: held_def split: if_splits)
  ultimately show ?thesis by (simp add: eq sound_step_def Let_def)
qed

lemma registry_inv_clear:
  assumes inv: "registry_inv s" and w: "map_of (wg_workers s) w = Some rec"
  shows "registry_inv (ClearReservation w rec s)"
    and "map_of (wg_workers (ClearReservation w rec s)) =
      (map_of (wg_workers s))(w \<mapsto> rec\<lparr>wk_state := Idle, wk_reservation := None, wk_match := None\<rparr>)"
  using inv reg_inv_clear [OF registry_invD [OF inv] w]
  by (simp_all add: registry_inv_def ClearReservation_def map_of_erase_reservation om_wf_erase_reservation)

lemma ClearReservation_sound:
  assumes inv: "registry_inv s" and w: "map_of (wg_workers s) w = Some rec"
    and "distinct (outcomes result)" and "\<And>r. r \<in> set (outcomes result) \<longleftrightarrow> waits_for rec r"
  shows "sound_step s [] off (result, ClearReservation w rec s)"
  by (rule sound_step_update [OF inv w registry_inv_clear [OF inv w]])
     (use assms(3,4) in \<open>simp_all add: waits_for_def\<close>)

lemma ready_sound:
  assumes inv: "registry_inv s" and w: "map_of (wg_workers s) w = Some rec"
    and st: "wk_state rec = Reserved" "wk_reservation rec = Some r"
    and out: "outcomes result = [r]"
  shows "sound_step s [] off (result, s\<lparr>wg_reservations := om_erase r (wg_reservations s),
    wg_workers := om_set w (rec\<lparr>wk_state := Active\<rparr>) (wg_workers s)\<rparr>)" (is "sound_step s [] off (result, ?s)")
proof (rule sound_step_update [OF inv w])
  have "(map_of (wg_reservations s))(r := None) =
      (\<lambda>x. if map_of (wg_reservations s) x = Some w then None else map_of (wg_reservations s) x)"
    using reg_inv_erase_reservation [OF registry_invD [OF inv] w] st by simp
  then have "reg_inv ((map_of (wg_workers s))(w \<mapsto> rec\<lparr>wk_state := Active\<rparr>)) (map_of (wg_connections s))
      ((map_of (wg_reservations s))(r := None)) (map_of (wg_endpoints s))"
    using reg_invD(1,8) [OF registry_invD [OF inv] w] st
    by (intro reg_inv_update [OF registry_invD [OF inv] w])
       (auto simp: record_ok_def pending_of_def)
  then show "registry_inv ?s" using inv by (simp add: registry_inv_def)
  show "map_of (wg_workers ?s) = (map_of (wg_workers s))(w \<mapsto> rec\<lparr>wk_state := Active\<rparr>)" by simp
qed (use st out in \<open>auto simp: waits_for_def\<close>)

lemma execute_cancel_sound:
  assumes inv: "registry_inv s"
  shows "sound_step s [] [r] (execute_cancel r m s)"
proof (cases "map_of (wg_reservations s) r")
  case None
  then show ?thesis using inv by (simp add: execute_cancel_def sound_step_same)
next
  case (Some w)
  then obtain rec where w: "map_of (wg_workers s) w = Some rec" and pend: "pending_of rec = Some r"
    using reg_invD(7) [OF registry_invD [OF inv]] by blast
  show ?thesis
  proof (cases "wk_state rec = Reserved \<and> wk_match rec = Some m")
    case False
    then show ?thesis using Some w inv by (auto simp: execute_cancel_def sound_step_same)
  next
    case True
    let ?s = "s\<lparr>wg_workers := om_set w (rec\<lparr>wk_state := Cancelling\<rparr>) (wg_workers s)\<rparr>"
    have r: "wk_reservation rec = Some r" by (rule pending_of_reservation [OF pend])
    have R: "map_of (wg_reservations s) x = (if pending_of (rec\<lparr>wk_state := Cancelling\<rparr>) = Some x then Some w
        else if map_of (wg_reservations s) x = Some w then None else map_of (wg_reservations s) x)" for x
      using reg_invD(7) [OF registry_invD [OF inv], of x w] w pend r Some
      by (auto simp: pending_of_def)
    have "reg_inv ((map_of (wg_workers s))(w \<mapsto> rec\<lparr>wk_state := Cancelling\<rparr>)) (map_of (wg_connections s))
        (map_of (wg_reservations s)) (map_of (wg_endpoints s))"
      using reg_invD(1,8) [OF registry_invD [OF inv] w] True
      by (intro reg_inv_update [OF registry_invD [OF inv] w _ _ _ R]) (auto simp: record_ok_def)
    then have "registry_inv ?s" using inv by (simp add: registry_inv_def)
    then have "sound_step s [] [r] (accepted_result
        \<lparr>gr_outbound := [\<lparr>co_recipient = wk_connection rec, co_message = CancelMatchReservation r m\<rparr>],
         gr_timers := [reservation_timer CancelTimer r]\<rparr>, ?s)"
      using r by (intro sound_step_update [OF inv w, of _ "rec\<lparr>wk_state := Cancelling\<rparr>"])
        (simp_all add: waits_for_def)
    then show ?thesis using Some w True r by (simp add: execute_cancel_def)
  qed
qed

text \<open>A reservation is placed with the idle worker of the smallest identifier.\<close>

definition remaining_lifetime :: "reserve_match_action \<Rightarrow> time_point \<Rightarrow> int" where
  "remaining_lifetime a now =
     trunc_div (min (ra_issuedAt a + int MatchTicketLifetimeSeconds * nanoseconds_per_second - now)
       (int MatchTicketLifetimeSeconds * nanoseconds_per_second)) nanoseconds_per_millisecond"

definition can_reserve :: "reserve_match_action \<Rightarrow> time_point \<Rightarrow> worker_registry \<Rightarrow> bool" where
  "can_reserve a now s \<longleftrightarrow>
     idval (ra_reservation a) \<noteq> 0 \<and> map_of (wg_reservations s) (ra_reservation a) = None
     \<and> 2 \<le> length (ra_participants a) \<and> length (ra_participants a) \<le> RoomCapacity
     \<and> 0 < remaining_lifetime a now"

definition reserve_message :: "reserve_match_action \<Rightarrow> time_point \<Rightarrow> lobby_to_worker_message" where
  "reserve_message a now = ReserveMatch
     \<lparr>rm_reservation = ra_reservation a, rm_match = ra_match a, rm_seed = ra_seed a,
      rm_ticketLifetimeMilliseconds = of_int (remaining_lifetime a now),
      rm_participants = ra_participants a\<rparr>"

lemma remaining_lifetime_le: "remaining_lifetime a now \<le> 60000"
  by (auto simp: remaining_lifetime_def trunc_div_def MatchTicketLifetimeSeconds_def
    nanoseconds_per_second_def nanoseconds_per_millisecond_def min_def)

lemma remaining_lifetime_pos:
  "0 < remaining_lifetime a now \<longleftrightarrow> now + 1000000 \<le> ra_issuedAt a + 60000000000"
  using trunc_div_pos_iff [of nanoseconds_per_millisecond
      "min (ra_issuedAt a + int MatchTicketLifetimeSeconds * nanoseconds_per_second - now)
       (int MatchTicketLifetimeSeconds * nanoseconds_per_second)"]
  by (auto simp: remaining_lifetime_def MatchTicketLifetimeSeconds_def
    nanoseconds_per_second_def nanoseconds_per_millisecond_def)

lemma execute_reserve_eq:
  "execute_reserve a now s =
     (case (if can_reserve a now s then find (\<lambda>e. wk_state (snd e) = Idle) (wg_workers s) else None) of
        None \<Rightarrow> (empty_result\<lparr>gr_events := [ReservationFailedEvent (ra_reservation a) (ra_match a)]\<rparr>, s)
      | Some (w, rec) \<Rightarrow>
          (accepted_result
             \<lparr>gr_outbound := [\<lparr>co_recipient = wk_connection rec, co_message = reserve_message a now\<rparr>],
              gr_timers := [reservation_timer StartTimer (ra_reservation a)]\<rparr>,
           s\<lparr>wg_workers := om_set w (rec\<lparr>wk_state := Reserved,
                wk_reservation := Some (ra_reservation a), wk_match := Some (ra_match a)\<rparr>) (wg_workers s),
             wg_reservations := om_set (ra_reservation a) w (wg_reservations s)\<rparr>))"
proof -
  let ?left = "ra_issuedAt a + int MatchTicketLifetimeSeconds * nanoseconds_per_second - now"
  have le: "?left \<le> 0 \<Longrightarrow> \<not> 0 < remaining_lifetime a now"
    by (simp add: remaining_lifetime_pos MatchTicketLifetimeSeconds_def nanoseconds_per_second_def)
  show ?thesis
  proof (cases "can_reserve a now s")
    case True
    then show ?thesis
      using le
      by (auto simp: execute_reserve_def can_reserve_def om_contains_def om_emplace_def Let_def
        remaining_lifetime_def reserve_message_def split: option.split)
  next
    case False
    then show ?thesis
      unfolding execute_reserve_def can_reserve_def om_contains_def remaining_lifetime_def [symmetric] Let_def
      by (auto split: option.split)
  qed
qed

lemma find_idle:
  assumes "om_wf m" and "find (\<lambda>e. wk_state (snd e) = Idle) m = Some (w, rec)"
  shows "map_of m w = Some rec" and "wk_state rec = Idle"
    and "map_of m x = Some rc \<Longrightarrow> wk_state rc = Idle \<Longrightarrow> w \<le> x"
proof -
  from assms(2) obtain i where at: "i < length m" "wk_state (snd (m ! i)) = Idle" "(w, rec) = m ! i"
    and before: "\<forall>j<i. wk_state (snd (m ! j)) \<noteq> Idle"
    unfolding find_Some_iff by blast
  from at have i: "i < length m" "wk_state rec = Idle" "m ! i = (w, rec)" by (auto dest: sym)
  show "map_of m w = Some rec" using i assms(1) by (metis nth_mem om_wf_map_of_iff)
  show "wk_state rec = Idle" by (rule i(2))
  assume x: "map_of m x = Some rc" "wk_state rc = Idle"
  then obtain j where j: "j < length m" "m ! j = (x, rc)"
    using assms(1) by (metis in_set_conv_nth om_wf_map_of_iff)
  then have "i \<le> j" using before [rule_format, of j] x(2) by (metis not_le_imp_less snd_conv)
  then have "fst (m ! i) \<le> fst (m ! j)"
    using sorted_nth_mono [OF om_wf_sorted [OF assms(1)] \<open>i \<le> j\<close>] i(1) j(1) by simp
  then show "w \<le> x" using i(3) j(2) by simp
qed

lemma execute_reserve_sound:
  assumes inv: "registry_inv s" and fresh: "ra_reservation a \<notin> held (map_of (wg_workers s))"
  shows "sound_step s [ra_reservation a] [] (execute_reserve a now s)"
proof (cases "if can_reserve a now s then find (\<lambda>e. wk_state (snd e) = Idle) (wg_workers s) else None")
  case None
  then show ?thesis
    using inv fresh awaiting_held [of "map_of (wg_workers s)"]
    by (auto simp: execute_reserve_eq sound_step_def Let_def)
next
  case (Some e)
  obtain w rec where e: "e = (w, rec)" by (cases e)
  let ?r = "ra_reservation a" and ?W = "map_of (wg_workers s)"
  let ?rec = "rec\<lparr>wk_state := Reserved, wk_reservation := Some ?r, wk_match := Some (ra_match a)\<rparr>"
  let ?s = "s\<lparr>wg_workers := om_set w ?rec (wg_workers s), wg_reservations := om_set ?r w (wg_reservations s)\<rparr>"
  have w: "?W w = Some rec" and idle: "wk_state rec = Idle"
    using Some find_idle [of "wg_workers s" w rec] inv by (auto simp: e registry_inv_def split: if_splits)
  note reg = registry_invD [OF inv]
  have R: "((map_of (wg_reservations s))(?r \<mapsto> w)) x = (if pending_of ?rec = Some x then Some w
      else if map_of (wg_reservations s) x = Some w then None else map_of (wg_reservations s) x)" for x
    using reg_invD(7) [OF reg, of x w] w idle by (auto simp: pending_of_def)
  have "reg_inv (?W(w \<mapsto> ?rec)) (map_of (wg_connections s)) ((map_of (wg_reservations s))(?r \<mapsto> w))
      (map_of (wg_endpoints s))"
    using reg_invD(1) [OF reg w] fresh
    by (intro reg_inv_update [OF reg w _ _ _ R]) (auto simp: record_ok_def held_def)
  then have "registry_inv ?s" using inv by (simp add: registry_inv_def)
  moreover have "awaiting (?W(w \<mapsto> ?rec)) = insert ?r (awaiting ?W)"
    using awaiting_update [OF reg w, of ?rec] idle by (auto simp: waits_for_def)
  moreover have "held (?W(w \<mapsto> ?rec)) \<subseteq> insert ?r (held ?W)"
    using held_update [of ?W, OF w, of ?rec] by auto
  ultimately show ?thesis
    unfolding execute_reserve_eq Some e by (auto simp: sound_step_def Let_def)
qed

lemma receive_message_sound:
  assumes inv: "registry_inv s" and w: "map_of (wg_workers s) w = Some rec"
  shows "sound_step s [] [] (receive_message c w rec msg s)"
proof -
  note same = sound_step_same [OF inv] and close = CloseForProtocolViolation_sound [OF inv]
    and clear = ClearReservation_sound [OF inv w]
  show ?thesis
  proof (cases msg)
    case (ReserveMatchReady r m)
    then show ?thesis
      using same close ready_sound [OF inv w]
      by simp
  next
    case (ReserveMatchRejected r m reason)
    then show ?thesis
      using same close by (auto intro!: clear simp: waits_for_def)
  next
    case (MatchReservationCancelled r m)
    then show ?thesis
      using same close by (auto intro!: clear simp: waits_for_def)
  next
    case (MatchFinished f)
    then show ?thesis
      using same close by (auto intro!: clear simp: waits_for_def)
  qed (use close in simp)
qed

lemma registry_Receive_sound:
  assumes inv: "registry_inv s"
  shows "sound_step s [] [] (registry_Receive c msg s)"
proof (cases "map_of (wg_connections s) c")
  case None
  then show ?thesis using inv by (simp add: registry_Receive_def sound_step_same)
next
  case (Some w)
  then obtain rec where w: "map_of (wg_workers s) w = Some rec"
    using connected_worker [OF inv] by blast
  with Some show ?thesis
    using receive_message_sound [OF inv w] by (simp add: registry_Receive_def)
qed

lemma registry_handle_sound:
  assumes inv: "registry_inv s" and fresh: "set (asked e) \<inter> held (map_of (wg_workers s)) = {}"
  shows "sound_step s (asked e) (called_off e) (registry_handle s e)"
proof (cases e)
  case (Executing action now)
  then show ?thesis
    using fresh execute_reserve_sound [OF inv] execute_cancel_sound [OF inv] by (cases action) simp_all
qed (use inv registry_Register_sound registry_Receive_sound registry_Disconnect_sound
      registry_Timeout_sound in simp_all)

section \<open>Runs\<close>

text \<open>
  The registry with the account of what it was asked and what it told: the reservations asked
  for so far, those called off, and the outcomes reported. Events are allowed as long as the
  lobby does not ask for an identifier a second time.
\<close>

record audited =
  au_registry :: worker_registry
  au_asked :: "reservation_id set"
  au_off :: "reservation_id set"
  au_told :: "reservation_id list"

definition audited_step :: "audited \<Rightarrow> registry_event \<Rightarrow> audited throws" where
  "audited_step t e =
     (let (result, s) = registry_handle (au_registry t) e
      in Inr \<lparr>au_registry = s, au_asked = au_asked t \<union> set (asked e),
              au_off = au_off t \<union> set (called_off e), au_told = au_told t @ outcomes result\<rparr>)"

definition asks_afresh :: "audited \<Rightarrow> registry_event \<Rightarrow> bool" where
  "asks_afresh t e \<longleftrightarrow> set (asked e) \<inter> au_asked t = {}"

definition audited_inv :: "audited \<Rightarrow> bool" where
  "audited_inv t \<longleftrightarrow>
     registry_inv (au_registry t)
     \<and> held (map_of (wg_workers (au_registry t))) \<subseteq> au_asked t
     \<and> distinct (au_told t) \<and> set (au_told t) \<subseteq> au_asked t
     \<and> set (au_told t) \<inter> awaiting (map_of (wg_workers (au_registry t))) = {}
     \<and> au_asked t \<subseteq> set (au_told t) \<union> au_off t \<union> awaiting (map_of (wg_workers (au_registry t)))"

lemma audited_step_inv:
  assumes inv: "audited_inv t" and fresh: "asks_afresh t e"
  shows "\<exists>t'. audited_step t e = Inr t' \<and> audited_inv t'"
proof -
  obtain result s where h: "registry_handle (au_registry t) e = (result, s)"
    by (cases "registry_handle (au_registry t) e")
  have reg: "registry_inv (au_registry t)" using inv by (simp add: audited_inv_def)
  have "set (asked e) \<inter> held (map_of (wg_workers (au_registry t))) = {}"
    using inv fresh by (auto simp: audited_inv_def asks_afresh_def)
  from registry_handle_sound [OF reg this]
  have S: "sound_step (au_registry t) (asked e) (called_off e) (result, s)" by (simp add: h)
  note sound = S [unfolded sound_step_def Let_def fst_conv snd_conv]
  note old = inv [unfolded audited_inv_def]
  have "set (au_told t) \<inter> set (outcomes result) = {}"
    using sound old fresh unfolding asks_afresh_def by blast
  moreover have "set (au_told t) \<inter> awaiting (map_of (wg_workers s)) = {}"
    using sound old fresh unfolding asks_afresh_def by blast
  moreover have "set (outcomes result) \<subseteq> au_asked t \<union> set (asked e)"
    using sound old awaiting_held by blast
  moreover have "au_asked t \<union> set (asked e) \<subseteq> set (au_told t) \<union> set (outcomes result)
      \<union> (au_off t \<union> set (called_off e)) \<union> awaiting (map_of (wg_workers s))"
    using sound old by blast
  moreover have "held (map_of (wg_workers s)) \<subseteq> au_asked t \<union> set (asked e)"
    using sound old by blast
  ultimately show ?thesis
    using sound old by (simp add: audited_step_def h audited_inv_def) blast
qed

interpretation registry_machine: invariant_machine audited_step audited_inv asks_afresh
  by unfold_locales (rule audited_step_inv)

text \<open>The results of a sequence of events, with the registry they leave.\<close>

fun registry_run :: "worker_registry \<Rightarrow> registry_event list \<Rightarrow> registry_result list \<times> worker_registry" where
  "registry_run s [] = ([], s)"
| "registry_run s (e # es) =
     (let (result, s') = registry_handle s e; (results, s'') = registry_run s' es
      in (result # results, s''))"

definition audit_of :: "worker_registry \<Rightarrow> audited" where
  "audit_of s = \<lparr>au_registry = s, au_asked = {}, au_off = {}, au_told = []\<rparr>"

lemma registry_inv_initial: "registry_inv WorkerRegistry"
  by (simp add: registry_inv_def WorkerRegistry_def reg_inv_def)

lemma audited_inv_initial: "audited_inv (audit_of WorkerRegistry)"
  using registry_inv_initial
  by (simp add: audited_inv_def audit_of_def held_def WorkerRegistry_def)

lemma audited_run:
  assumes "registry_run (au_registry t) es = (results, s)"
    and "distinct (concat (map asked es))" and "set (concat (map asked es)) \<inter> au_asked t = {}"
  shows "registry_machine.allowed_run t es"
    and "run_steps audited_step t es = Inr \<lparr>au_registry = s,
      au_asked = au_asked t \<union> set (concat (map asked es)),
      au_off = au_off t \<union> set (concat (map called_off es)),
      au_told = au_told t @ concat (map outcomes results)\<rparr>"
  using assms
proof (atomize (full), induction es arbitrary: t results)
  case Nil
  then show ?case by simp
next
  case (Cons e es)
  obtain result s1 where h: "registry_handle (au_registry t) e = (result, s1)"
    by (cases "registry_handle (au_registry t) e")
  obtain rest s2 where r: "registry_run s1 es = (rest, s2)" by (cases "registry_run s1 es")
  let ?t = "\<lparr>au_registry = s1, au_asked = au_asked t \<union> set (asked e),
    au_off = au_off t \<union> set (called_off e), au_told = au_told t @ outcomes result\<rparr>"
  have step: "audited_step t e = Inr ?t" by (simp add: audited_step_def h)
  have "asks_afresh t e" using Cons.prems by (auto simp: asks_afresh_def)
  moreover have "results = result # rest" "s2 = s" using Cons.prems h r by auto
  moreover have "registry_run (au_registry ?t) es = (rest, s)" using r \<open>s2 = s\<close> by simp
  moreover have "distinct (concat (map asked es))" "set (concat (map asked es)) \<inter> au_asked ?t = {}"
    using Cons.prems by auto
  ultimately show ?case
    using Cons.IH [of ?t rest] by (simp add: step Un_assoc)
qed

lemma registry_run_audited:
  assumes "registry_run WorkerRegistry es = (results, s)" and "distinct (concat (map asked es))"
  shows "audited_inv \<lparr>au_registry = s, au_asked = set (concat (map asked es)),
    au_off = set (concat (map called_off es)), au_told = concat (map outcomes results)\<rparr>"
  using registry_machine.run_inv [OF audited_inv_initial]
    audited_run [of "audit_of WorkerRegistry" es results s] assms
  by (simp add: audit_of_def)

text \<open>When the timer of a reservation that is still awaited fires, its worker is closed and
  the lobby is told.\<close>

lemma registry_Timeout_awaiting:
  assumes inv: "registry_inv s" and r: "r \<in> awaiting (map_of (wg_workers s))"
  shows "\<exists>c m. fst (registry_Timeout r s) =
      \<lparr>gr_accepted = True, gr_outbound = [], gr_events = [ReservationFailedEvent r m],
       gr_timers = [], gr_closeConnections = [c]\<rparr>
    \<and> r \<notin> awaiting (map_of (wg_workers (snd (registry_Timeout r s))))"
proof -
  obtain w rec where w: "map_of (wg_workers s) w = Some rec" and st: "wk_state rec = Reserved"
    and res: "wk_reservation rec = Some r"
    using r by (auto simp: awaiting_def waits_for_def)
  note reg = registry_invD [OF inv]
  have R: "map_of (wg_reservations s) r = Some w" and C: "map_of (wg_connections s) (wk_connection rec) = Some w"
    using reg_invD(7) [OF reg, of r w] reg_invD(3) [OF reg w] w st res by (auto simp: pending_of_def)
  obtain m where m: "wk_match rec = Some m"
    using reg_invD(1) [OF reg w] st by (auto simp: record_ok_def)
  have out: "fst (registry_Timeout r s) = \<lparr>gr_accepted = True, gr_outbound = [],
      gr_events = [ReservationFailedEvent r m], gr_timers = [], gr_closeConnections = [wk_connection rec]\<rparr>"
    using R w C st res m
    by (simp add: registry_Timeout_def registry_Disconnect_def disconnect_events_def
      accepted_result_def empty_result_def)
  then have "r \<in> set (outcomes (fst (registry_Timeout r s)))" by (simp add: outcomes_def)
  then have "r \<notin> awaiting (map_of (wg_workers (snd (registry_Timeout r s))))"
    using registry_Timeout_sound [OF inv, of "[]" r] by (auto simp: sound_step_def Let_def)
  with out show ?thesis by blast
qed

end
