(* ===== verification/WorkerCodec.thy ===== *)
theory WorkerCodec
  imports LobbyCodec
begin

text \<open>
  protocol/src/WorkerControlMessageCodec.cpp: the payloads between the lobby and its workers.
  A payload accepted from a worker is byte for byte the encoding of its message; what the
  lobby sends to a worker arrives with the participants of a reservation sorted by player.
\<close>

section \<open>Checks\<close>

definition MaximumTicketLifetimeMilliseconds :: nat where
  "MaximumTicketLifetimeMilliseconds = MatchTicketLifetimeSeconds * 1000"

definition ValidRegistration :: "worker_register \<Rightarrow> bool" where
  "ValidRegistration value \<longleftrightarrow>
     idval (wr_worker value) \<noteq> 0 \<and> IsVisibleAsciiHost (wr_advertisedHost value)
     \<and> wr_gameTcpPort value \<noteq> 0 \<and> wr_gameUdpPort value \<noteq> 0 \<and> wr_capacity value = 1"

definition IsValidReservationId :: "reservation_id \<Rightarrow> bool" where
  "IsValidReservationId value \<longleftrightarrow> idval value \<noteq> 0"

text \<open>\<^verbatim>\<open>IsValidRejectReason\<close> and \<^verbatim>\<open>IsValidCompletionReason\<close> hold of every
  enumerator; of a byte from the wire they are \<^const>\<open>worker_reject_of\<close> and
  \<^const>\<open>completion_reason_of\<close>.\<close>

definition IsValidCompletion :: "match_finished \<Rightarrow> bool" where
  "IsValidCompletion value \<longleftrightarrow> mf_hasWinner value = CompletionNeedsWinner (mf_reason value)"

text \<open>The check sorts the participants it is given.\<close>

definition CanonicalizeParticipants ::
    "reserved_participant list \<Rightarrow> bool \<times> reserved_participant list" where
  "CanonicalizeParticipants participants =
     (if length participants < 2 \<or> RoomCapacity < length participants then (False, participants)
      else let participants = sort_key rp_player participants
           in (\<not> adjacent_equal rp_player participants, participants))"

definition IsValidReservation :: "reserve_match \<Rightarrow> bool \<times> reserve_match" where
  "IsValidReservation value =
     (if \<not> (IsValidReservationId (rm_reservation value)
             \<and> 0 < rm_ticketLifetimeMilliseconds value
             \<and> unat (rm_ticketLifetimeMilliseconds value) \<le> MaximumTicketLifetimeMilliseconds)
      then (False, value)
      else let (ok, participants) = CanonicalizeParticipants (rm_participants value)
           in (ok, value\<lparr>rm_participants := participants\<rparr>))"

section \<open>Encoders\<close>

definition WriteReservationIdentity :: "reservation_id \<Rightarrow> match_id \<Rightarrow> byte_writer \<Rightarrow> byte_writer" where
  "WriteReservationIdentity reservation match w =
     WriteU64 (idval match) (WriteU64 (idval reservation) w)"

fun EncodeWorkerToLobbyMessage :: "worker_to_lobby_message \<Rightarrow> encoded_message throws" where
  "EncodeWorkerToLobbyMessage (WorkerRegister value) =
     (if \<not> ValidRegistration value then Inl Invalid_argument
      else bind_throws (WriteString8 (wr_advertisedHost value) (WriteU32 (idval (wr_worker value)) []))
        (\<lambda>w. Inr (EncodePayload MT_WorkerRegister (\<lambda>_.
           WriteU8 (wr_capacity value) (WriteU16 (wr_gameUdpPort value)
             (WriteU16 (wr_gameTcpPort value) w))))))"
| "EncodeWorkerToLobbyMessage (ReserveMatchReady reservation match) =
     (if \<not> IsValidReservationId reservation then Inl Invalid_argument
      else Inr (EncodePayload MT_ReserveMatchReady (WriteReservationIdentity reservation match)))"
| "EncodeWorkerToLobbyMessage (ReserveMatchRejected reservation match reason) =
     (if \<not> IsValidReservationId reservation then Inl Invalid_argument
      else Inr (EncodePayload MT_ReserveMatchRejected
        (\<lambda>w. WriteU8 (worker_reject_value reason) (WriteReservationIdentity reservation match w))))"
| "EncodeWorkerToLobbyMessage (MatchReservationCancelled reservation match) =
     (if \<not> IsValidReservationId reservation then Inl Invalid_argument
      else Inr (EncodePayload MT_MatchReservationCancelled
        (WriteReservationIdentity reservation match)))"
| "EncodeWorkerToLobbyMessage (MatchFinished value) =
     (if \<not> IsValidCompletion value then Inl Invalid_argument
      else Inr (EncodePayload MT_MatchFinished
        (\<lambda>w. let w = WriteU64 (idval (mf_match value)) w;
                 w = WriteU8 (if mf_hasWinner value then 1 else 0) w;
                 w = (if mf_hasWinner value then WriteU32 (idval (mf_winner value)) w else w);
                 w = WriteU8 (completion_reason_value (mf_reason value)) w
             in WriteU32 (mf_finishedTick value) w)))"

definition WriteParticipant :: "reserved_participant \<Rightarrow> byte_writer \<Rightarrow> byte_writer" where
  "WriteParticipant participant w =
     WriteBytes (idval (rp_ticket participant)) (WriteU32 (idval (rp_player participant)) w)"

fun EncodeLobbyToWorkerMessage :: "lobby_to_worker_message \<Rightarrow> encoded_message throws" where
  "EncodeLobbyToWorkerMessage (WorkerRegistered worker) =
     (if idval worker = 0 then Inl Invalid_argument
      else Inr (EncodePayload MT_WorkerRegistered (WriteU32 (idval worker))))"
| "EncodeLobbyToWorkerMessage (ReserveMatch value) =
     (let (ok, value) = IsValidReservation value
      in if \<not> ok then Inl Invalid_argument
         else Inr (EncodePayload MT_ReserveMatch
           (\<lambda>w. let w = WriteReservationIdentity (rm_reservation value) (rm_match value) w;
                    w = WriteU32 (rm_seed value) w;
                    w = WriteU32 (rm_ticketLifetimeMilliseconds value) w;
                    w = WriteU8 (of_nat (length (rm_participants value))) w
                in fold WriteParticipant (rm_participants value) w)))"
| "EncodeLobbyToWorkerMessage (CancelMatchReservation reservation match) =
     (if \<not> IsValidReservationId reservation then Inl Invalid_argument
      else Inr (EncodePayload MT_CancelMatchReservation (WriteReservationIdentity reservation match)))"

section \<open>Decoders\<close>

definition DecodeRegistration :: "byte list \<Rightarrow> worker_to_lobby_message decode_result" where
  "DecodeRegistration payload =
     (let r = ByteReader payload;
          (worker, r) = ReadU32 r;
          (host, r) = ReadString8 255 r;
          (tcpPort, r) = ReadU16 r;
          (udpPort, r) = ReadU16 r;
          (capacity, r) = ReadU8 r
      in case (worker, host, tcpPort, udpPort, capacity) of
           (Some w, Some h, Some tp, Some up, Some c) \<Rightarrow>
             let message = \<lparr>wr_worker = WorkerId w, wr_advertisedHost = h, wr_gameTcpPort = tp,
                            wr_gameUdpPort = up, wr_capacity = c\<rparr>
             in if \<not> ValidRegistration message then Inl InvalidValue
                else FinishDecode r (WorkerRegister message)
         | _ \<Rightarrow> ReaderFailure r)"

text \<open>The template \<^verbatim>\<open>DecodeWorkerReservationIdentity<Message>\<close>, and the same body in
  \<^verbatim>\<open>DecodeCancelReservation\<close>.\<close>

definition DecodeReservationIdentity ::
    "(reservation_id \<Rightarrow> match_id \<Rightarrow> 'm) \<Rightarrow> byte list \<Rightarrow> 'm decode_result" where
  "DecodeReservationIdentity message payload =
     (let r = ByteReader payload;
          (reservation, r) = ReadU64 r;
          (match, r) = ReadU64 r
      in case (reservation, match) of
           (Some v, Some m) \<Rightarrow>
             if v = 0 then Inl InvalidValue
             else FinishDecode r (message (ReservationId v) (MatchId m))
         | _ \<Rightarrow> ReaderFailure r)"

definition DecodeReservationReject :: "byte list \<Rightarrow> worker_to_lobby_message decode_result" where
  "DecodeReservationReject payload =
     (let r = ByteReader payload;
          (reservation, r) = ReadU64 r;
          (match, r) = ReadU64 r;
          (reasonValue, r) = ReadU8 r
      in case (reservation, match, reasonValue) of
           (Some v, Some m, Some rv) \<Rightarrow>
             (case worker_reject_of rv of
                None \<Rightarrow> Inl InvalidValue
              | Some reason \<Rightarrow>
                  if v = 0 then Inl InvalidValue
                  else FinishDecode r (ReserveMatchRejected (ReservationId v) (MatchId m) reason))
         | _ \<Rightarrow> ReaderFailure r)"

definition DecodeMatchFinished :: "byte list \<Rightarrow> worker_to_lobby_message decode_result" where
  "DecodeMatchFinished payload =
     (let r = ByteReader payload;
          (match, r) = ReadU64 r;
          (hasWinner, r) = ReadU8 r
      in case (match, hasWinner) of
           (Some m, Some hw) \<Rightarrow>
             if 1 < hw then Inl InvalidValue
             else
               let (winner, r) = (if hw = 1 then ReadU32 r else (Some 0, r))
               in (case winner of
                     None \<Rightarrow> ReaderFailure r
                   | Some w \<Rightarrow>
                       let (reasonValue, r) = ReadU8 r;
                           (finishedTick, r) = ReadU32 r
                       in (case (reasonValue, finishedTick) of
                             (Some rv, Some tick) \<Rightarrow>
                               (case completion_reason_of rv of
                                  None \<Rightarrow> Inl InvalidValue
                                | Some reason \<Rightarrow>
                                    let message = \<lparr>mf_match = MatchId m, mf_winner = EntityId w,
                                          mf_hasWinner = (hw = 1), mf_reason = reason,
                                          mf_finishedTick = tick\<rparr>
                                    in if \<not> IsValidCompletion message then Inl InvalidValue
                                       else FinishDecode r (MatchFinished message))
                           | _ \<Rightarrow> ReaderFailure r))
         | _ \<Rightarrow> ReaderFailure r)"

definition DecodeWorkerRegistered :: "byte list \<Rightarrow> lobby_to_worker_message decode_result" where
  "DecodeWorkerRegistered payload =
     (let (worker, r) = ReadU32 (ByteReader payload)
      in case worker of
           None \<Rightarrow> ReaderFailure r
         | Some w \<Rightarrow> if w = 0 then Inl InvalidValue
                     else FinishDecode r (WorkerRegistered (WorkerId w)))"

definition ReadParticipant ::
    "byte_reader \<Rightarrow> decode_error + reserved_participant \<times> byte_reader" where
  "ReadParticipant r =
     (let (player, r) = ReadU32 r;
          (ticketBytes, r) = ReadBytes MatchTicketBytes r
      in case (player, ticketBytes) of
           (Some p, Some t) \<Rightarrow> Inr (\<lparr>rp_player = PlayerId p, rp_ticket = Ident t\<rparr>, r)
         | _ \<Rightarrow> ReaderFailure r)"

definition DecodeReservation :: "byte list \<Rightarrow> lobby_to_worker_message decode_result" where
  "DecodeReservation payload =
     (let r = ByteReader payload;
          (reservation, r) = ReadU64 r;
          (match, r) = ReadU64 r;
          (seed, r) = ReadU32 r;
          (lifetime, r) = ReadU32 r;
          (count, r) = ReadU8 r
      in case (reservation, match, seed, lifetime, count) of
           (Some v, Some m, Some sd, Some lt, Some n) \<Rightarrow>
             if RoomCapacity < unat n then Inl CountLimit
             else if n < 2 then Inl InvalidValue
             else (case read_items ReadParticipant (unat n) r of
                     Inl e \<Rightarrow> Inl e
                   | Inr (participants, r) \<Rightarrow>
                       (let (ok, message) = IsValidReservation
                              \<lparr>rm_reservation = ReservationId v, rm_match = MatchId m, rm_seed = sd,
                               rm_ticketLifetimeMilliseconds = lt, rm_participants = participants\<rparr>
                        in if \<not> ok then Inl InvalidValue
                           else FinishDecode r (ReserveMatch message)))
         | _ \<Rightarrow> ReaderFailure r)"

fun DecodeWorkerToLobbyMessage ::
    "message_type \<Rightarrow> byte list \<Rightarrow> worker_to_lobby_message decode_result" where
  "DecodeWorkerToLobbyMessage MT_WorkerRegister payload = DecodeRegistration payload"
| "DecodeWorkerToLobbyMessage MT_ReserveMatchReady payload =
     DecodeReservationIdentity ReserveMatchReady payload"
| "DecodeWorkerToLobbyMessage MT_ReserveMatchRejected payload = DecodeReservationReject payload"
| "DecodeWorkerToLobbyMessage MT_MatchReservationCancelled payload =
     DecodeReservationIdentity MatchReservationCancelled payload"
| "DecodeWorkerToLobbyMessage MT_MatchFinished payload = DecodeMatchFinished payload"
| "DecodeWorkerToLobbyMessage _ payload = Inl InvalidValue"

fun DecodeLobbyToWorkerMessage ::
    "message_type \<Rightarrow> byte list \<Rightarrow> lobby_to_worker_message decode_result" where
  "DecodeLobbyToWorkerMessage MT_WorkerRegistered payload = DecodeWorkerRegistered payload"
| "DecodeLobbyToWorkerMessage MT_ReserveMatch payload = DecodeReservation payload"
| "DecodeLobbyToWorkerMessage MT_CancelMatchReservation payload =
     DecodeReservationIdentity CancelMatchReservation payload"
| "DecodeLobbyToWorkerMessage _ payload = Inl InvalidValue"

section \<open>Messages from a worker\<close>

text \<open>A completion without a winner arrives with the default entity.\<close>

fun canon_worker :: "worker_to_lobby_message \<Rightarrow> worker_to_lobby_message" where
  "canon_worker (MatchFinished f) =
     MatchFinished (if mf_hasWinner f then f else f\<lparr>mf_winner := EntityId 0\<rparr>)"
| "canon_worker m = m"

lemma DecodeWorkerToLobbyMessage_Encode:
  assumes "EncodeWorkerToLobbyMessage m = Inr e"
  shows "DecodeWorkerToLobbyMessage (em_type e) (em_payload e) = Inr (canon_worker m)"
proof (cases m)
  case (WorkerRegister g)
  with assms have "length (wr_advertisedHost g) \<le> 255"
    by (simp add: ValidRegistration_def IsVisibleAsciiHost_length split: if_splits)
  with WorkerRegister assms show ?thesis
    by (cases g, cases "wr_worker g")
       (auto simp: EncodePayload_def DecodeRegistration_def ByteReader_reader_at read_write
         split: if_splits)
next
  case (ReserveMatchRejected r m reason)
  with assms show ?thesis
    by (cases r; cases m)
       (auto simp: EncodePayload_def WriteReservationIdentity_def DecodeReservationReject_def
         ByteReader_reader_at IsValidReservationId_def read_write worker_reject.of_to split: if_splits)
next
  case (MatchFinished f)
  with assms show ?thesis
    by (cases f, cases "mf_match f", cases "mf_winner f")
       (auto simp: EncodePayload_def DecodeMatchFinished_def ByteReader_reader_at read_write
         completion_reason.of_to Let_def IsValidCompletion_def split: if_splits)
next
  case (ReserveMatchReady r m)
  with assms show ?thesis
    by (cases r; cases m)
       (auto simp: EncodePayload_def WriteReservationIdentity_def DecodeReservationIdentity_def
         ByteReader_reader_at IsValidReservationId_def read_write split: if_splits)
next
  case (MatchReservationCancelled r m)
  with assms show ?thesis
    by (cases r; cases m)
       (auto simp: EncodePayload_def WriteReservationIdentity_def DecodeReservationIdentity_def
         ByteReader_reader_at IsValidReservationId_def read_write split: if_splits)
qed

lemma DecodeRegistration_InrD:
  assumes "DecodeRegistration payload = Inr m"
  shows "\<exists>g. m = WorkerRegister g \<and> ValidRegistration g \<and> payload =
    le_bytes 4 (idval (wr_worker g)) @ string8_bytes (wr_advertisedHost g)
    @ le_bytes 2 (wr_gameTcpPort g) @ le_bytes 2 (wr_gameUdpPort g) @ [wr_capacity g]"
  using assms
  by (auto simp: DecodeRegistration_def ByteReader_reader_at Let_def
      split: prod.splits option.splits if_splits
      dest!: u32.read_SomeD str8.read_SomeD u16.read_SomeD u8.read_SomeD)

lemma DecodeReservationIdentity_InrD:
  assumes "DecodeReservationIdentity f payload = Inr m"
  shows "\<exists>v n. v \<noteq> 0 \<and> m = f (ReservationId v) (MatchId n) \<and> payload = le_bytes 8 v @ le_bytes 8 n"
  using assms
  by (auto simp: DecodeReservationIdentity_def ByteReader_reader_at Let_def
      split: prod.splits option.splits if_splits dest!: u64.read_SomeD) blast

lemma DecodeReservationReject_InrD:
  assumes "DecodeReservationReject payload = Inr m"
  shows "\<exists>v n reason. v \<noteq> 0 \<and> m = ReserveMatchRejected (ReservationId v) (MatchId n) reason
    \<and> payload = le_bytes 8 v @ le_bytes 8 n @ [worker_reject_value reason]"
  using assms
  by (auto simp: DecodeReservationReject_def ByteReader_reader_at Let_def worker_reject.of_wire_iff
      split: prod.splits option.splits if_splits dest!: u64.read_SomeD u8.read_SomeD)

definition finished_bytes :: "match_finished \<Rightarrow> byte list" where
  "finished_bytes f = le_bytes 8 (idval (mf_match f))
     @ (if mf_hasWinner f then 1 # le_bytes 4 (idval (mf_winner f)) else [0])
     @ [completion_reason_value (mf_reason f)] @ le_bytes 4 (mf_finishedTick f)"

lemma finished_bytes_record:
  "finished_bytes \<lparr>mf_match = m, mf_winner = w, mf_hasWinner = b, mf_reason = reason,
      mf_finishedTick = tick\<rparr> =
     le_bytes 8 (idval m) @ (if b then 1 # le_bytes 4 (idval w) else [0])
     @ [completion_reason_value reason] @ le_bytes 4 tick"
  by (simp add: finished_bytes_def)

lemma DecodeMatchFinished_InrD:
  assumes "DecodeMatchFinished payload = Inr m"
  shows "\<exists>f. m = MatchFinished f \<and> IsValidCompletion f \<and> payload = finished_bytes f"
proof -
  obtain n r1 where n: "ReadU64 (reader_at [] payload) = (Some n, r1)"
    using assms by (auto simp: DecodeMatchFinished_def ByteReader_reader_at Let_def
      split: prod.splits option.splits)
  then obtain suf1 where p1: "payload = le_bytes 8 n @ suf1" "r1 = reader_at (le_bytes 8 n) suf1"
    using u64.read_SomeD by fastforce
  obtain hw r2 where hw: "ReadU8 r1 = (Some hw, r2)"
    using assms n by (auto simp: DecodeMatchFinished_def ByteReader_reader_at Let_def
      split: prod.splits option.splits)
  then obtain suf2 where p2: "suf1 = hw # suf2" "r2 = reader_at (le_bytes 8 n @ [hw]) suf2"
    using u8.read_SomeD [of "le_bytes 8 n" suf1 hw r2] p1 by auto
  have "\<not> 1 < hw" using assms n hw by (auto simp: DecodeMatchFinished_def ByteReader_reader_at)
  then consider "hw = 0" | "hw = 1" by (auto simp: not_1_less_u8)
  then show ?thesis
  proof cases
    case 1
    then show ?thesis using assms n hw p1 p2
      by (auto simp: DecodeMatchFinished_def ByteReader_reader_at Let_def finished_bytes_record
          completion_reason.of_wire_iff
        split: prod.splits option.splits if_splits dest!: u8.read_SomeD u32.read_SomeD)
  next
    case 2
    then show ?thesis using assms n hw p1 p2
      by (auto simp: DecodeMatchFinished_def ByteReader_reader_at Let_def finished_bytes_record
          completion_reason.of_wire_iff
        split: prod.splits option.splits if_splits dest!: u8.read_SomeD u32.read_SomeD)
  qed
qed

lemmas worker_decode_InrD = DecodeRegistration_InrD DecodeReservationIdentity_InrD
  DecodeReservationReject_InrD DecodeMatchFinished_InrD

lemma EncodeWorkerToLobbyMessage_Decode:
  "DecodeWorkerToLobbyMessage t payload = Inr m \<Longrightarrow>
     EncodeWorkerToLobbyMessage m = Inr \<lparr>em_type = t, em_payload = payload\<rparr>"
  by (cases t)
     (auto simp: EncodePayload_def WriteReservationIdentity_def IsValidReservationId_def read_write
        ValidRegistration_def IsVisibleAsciiHost_length finished_bytes_def Let_def
        dest!: worker_decode_InrD)

interpretation worker_codec: strict_codec EncodeWorkerToLobbyMessage
    "\<lambda>e. DecodeWorkerToLobbyMessage (em_type e) (em_payload e)" canon_worker "\<lambda>_. True"
  by unfold_locales
     (simp_all add: DecodeWorkerToLobbyMessage_Encode EncodeWorkerToLobbyMessage_Decode)

section \<open>Messages to a worker\<close>

fun canon_to_worker :: "lobby_to_worker_message \<Rightarrow> lobby_to_worker_message" where
  "canon_to_worker (ReserveMatch v) =
     ReserveMatch (v\<lparr>rm_participants := sort_key rp_player (rm_participants v)\<rparr>)"
| "canon_to_worker m = m"

fun to_worker_wf :: "lobby_to_worker_message \<Rightarrow> bool" where
  "to_worker_wf (ReserveMatch v) = list_all (\<lambda>p. opaque_wf (rp_ticket p)) (rm_participants v)"
| "to_worker_wf _ = True"

text \<open>When the lobby's encoder does not throw.\<close>

definition reservation_ok :: "reserve_match \<Rightarrow> bool" where
  "reservation_ok v \<longleftrightarrow>
     idval (rm_reservation v) \<noteq> 0 \<and> 0 < rm_ticketLifetimeMilliseconds v
     \<and> unat (rm_ticketLifetimeMilliseconds v) \<le> 60000
     \<and> 2 \<le> length (rm_participants v) \<and> length (rm_participants v) \<le> RoomCapacity
     \<and> distinct (map rp_player (rm_participants v))"

fun to_worker_encodable :: "lobby_to_worker_message \<Rightarrow> bool" where
  "to_worker_encodable (WorkerRegistered w) = (idval w \<noteq> 0)"
| "to_worker_encodable (ReserveMatch v) = reservation_ok v"
| "to_worker_encodable (CancelMatchReservation r m) = (idval r \<noteq> 0)"

lemma distinct_map_sort_key: "distinct (map f (sort_key g xs)) \<longleftrightarrow> distinct (map f xs)"
  by (simp add: distinct_map)

lemma IsValidReservation_iff: "fst (IsValidReservation v) \<longleftrightarrow> reservation_ok v"
  using sorted_adjacent_distinct [of rp_player "sort_key rp_player (rm_participants v)"]
  by (auto simp: IsValidReservation_def CanonicalizeParticipants_def reservation_ok_def Let_def
      IsValidReservationId_def MaximumTicketLifetimeMilliseconds_def MatchTicketLifetimeSeconds_def
      distinct_map_sort_key)

lemma IsValidReservation_ok:
  assumes "reservation_ok v"
  shows "IsValidReservation v = (True, v\<lparr>rm_participants := sort_key rp_player (rm_participants v)\<rparr>)"
proof -
  have "fst (IsValidReservation v)" using assms by (simp add: IsValidReservation_iff)
  then show ?thesis
    by (auto simp: IsValidReservation_def CanonicalizeParticipants_def Let_def split: if_splits)
qed

lemma EncodeLobbyToWorkerMessage_total_iff:
  "(\<exists>e. EncodeLobbyToWorkerMessage m = Inr e) \<longleftrightarrow> to_worker_encodable m"
  by (cases m)
     (auto simp: IsValidReservation_iff [symmetric] IsValidReservationId_def split: prod.splits)

definition participant_bytes :: "reserved_participant \<Rightarrow> byte list" where
  "participant_bytes p = le_bytes 4 (idval (rp_player p)) @ idval (rp_ticket p)"

lemma fold_WriteParticipant [read_write]:
  "fold WriteParticipant ps w = w @ concat (map participant_bytes ps)"
  by (rule fold_write_items) (simp add: WriteParticipant_def participant_bytes_def read_write)

lemma read_participants:
  assumes "\<forall>p \<in> set ps. opaque_wf (rp_ticket p)"
  shows "read_items ReadParticipant (length ps) (reader_at pre (concat (map participant_bytes ps)))
    = Inr (ps, reader_at (pre @ concat (map participant_bytes ps)) [])"
proof -
  have "ReadParticipant (reader_at q (participant_bytes p @ suf)) = Inr (p, reader_at (q @ participant_bytes p) suf)"
    if "p \<in> set ps" for p q suf
    using assms that
    by (cases p, cases "rp_player p", cases "rp_ticket p")
       (force simp: ReadParticipant_def participant_bytes_def opaque_wf_def read_write)
  from read_items_bytes [of ps ReadParticipant participant_bytes pre "[]", OF this] show ?thesis
    by simp
qed

lemma reservation_ok_sorted:
  "reservation_ok (v\<lparr>rm_participants := sort_key rp_player (rm_participants v)\<rparr>) = reservation_ok v"
  by (simp add: reservation_ok_def distinct_map_sort_key)

lemma decode_Reservation:
  assumes wf: "\<forall>p \<in> set (rm_participants v). opaque_wf (rp_ticket p)"
    and enc: "EncodeLobbyToWorkerMessage (ReserveMatch v) = Inr e"
  shows "DecodeLobbyToWorkerMessage (em_type e) (em_payload e) = Inr (canon_to_worker (ReserveMatch v))"
proof -
  let ?ps = "sort_key rp_player (rm_participants v)" and ?v = "v\<lparr>rm_participants := sort_key rp_player (rm_participants v)\<rparr>"
  have ok: "reservation_ok v" using enc EncodeLobbyToWorkerMessage_total_iff [of "ReserveMatch v"] by auto
  then have len: "2 \<le> length ?ps" "length ?ps \<le> 24" by (simp_all add: reservation_ok_def RoomCapacity_def)
  have e: "e = \<lparr>em_type = MT_ReserveMatch, em_payload =
      le_bytes 8 (idval (rm_reservation v)) @ le_bytes 8 (idval (rm_match v)) @ le_bytes 4 (rm_seed v)
      @ le_bytes 4 (rm_ticketLifetimeMilliseconds v) @ [of_nat (length ?ps)]
      @ concat (map participant_bytes ?ps)\<rparr>"
    using enc by (simp add: IsValidReservation_ok [OF ok] EncodePayload_def WriteReservationIdentity_def
        Let_def read_write)
  have n: "unat (of_nat (length ?ps) :: u8) = length ?ps" using len by (simp add: unat_of_nat)
  then have two: "\<not> (of_nat (length ?ps) :: u8) < 2" using len by (simp add: word_less_nat_alt)
  have "IsValidReservation ?v = (True, ?v)"
    using IsValidReservation_ok [of ?v] ok by (simp add: reservation_ok_sorted sort_key_sort_key)
  then show ?thesis
    using n two len read_participants [of ?ps] wf
    by (cases v, cases "rm_reservation v", cases "rm_match v")
       (simp add: e DecodeReservation_def ByteReader_reader_at read_write RoomCapacity_def)
qed

lemma DecodeLobbyToWorkerMessage_Encode:
  assumes "to_worker_wf m" and "EncodeLobbyToWorkerMessage m = Inr e"
  shows "DecodeLobbyToWorkerMessage (em_type e) (em_payload e) = Inr (canon_to_worker m)"
proof (cases m)
  case (WorkerRegistered w)
  with assms show ?thesis
    by (cases w) (auto simp: EncodePayload_def DecodeWorkerRegistered_def ByteReader_reader_at read_write
      split: if_splits)
next
  case (ReserveMatch v)
  with assms decode_Reservation [of v e] show ?thesis by (simp add: list_all_iff)
next
  case (CancelMatchReservation r n)
  with assms show ?thesis
    by (cases r; cases n)
       (auto simp: EncodePayload_def WriteReservationIdentity_def DecodeReservationIdentity_def
         ByteReader_reader_at IsValidReservationId_def read_write split: if_splits)
qed

interpretation to_worker_codec: message_codec EncodeLobbyToWorkerMessage
    "\<lambda>e. DecodeLobbyToWorkerMessage (em_type e) (em_payload e)" canon_to_worker to_worker_wf
  by unfold_locales (rule DecodeLobbyToWorkerMessage_Encode)

end
