(* ===== verification/GameTicketStore.thy ===== *)
theory GameTicketStore
  imports MatchTicketRegistry
begin

text \<open>
  apps/game_server/src/GameTicketStore.cpp: the tickets a worker holds for the one match it
  runs. They are loaded once, each is accepted at most once, and a used ticket is told apart
  from an unknown one.
\<close>

record store_record =
  sr_match :: match_id
  sr_player :: player_id
  sr_expiresAt :: time_point

record ticket_store =
  ts_tickets :: "(match_ticket_value, store_record) omap"
  ts_usedTickets :: "match_ticket_value set"
  ts_loaded :: bool

definition GameTicketStore :: ticket_store where
  "GameTicketStore = \<lparr>ts_tickets = [], ts_usedTickets = {}, ts_loaded = False\<rparr>"

datatype store_consume_result = Accepted | NotFound | Expired | Mismatch | Used

text \<open>The loop over the participants that inserts into two sets and throws on a repetition.\<close>

fun unique_participants ::
    "reserved_participant list \<Rightarrow> player_id set \<Rightarrow> match_ticket_value set \<Rightarrow> bool" where
  "unique_participants [] players tickets = True"
| "unique_participants (participant # participants) players tickets =
     (if rp_player participant \<in> players \<or> rp_ticket participant \<in> tickets then False
      else unique_participants participants
        (insert (rp_player participant) players) (insert (rp_ticket participant) tickets))"

definition load_ticket ::
    "match_id \<Rightarrow> time_point \<Rightarrow> reserved_participant \<Rightarrow> (match_ticket_value, store_record) omap
      \<Rightarrow> (match_ticket_value, store_record) omap" where
  "load_ticket match expiresAt participant tickets =
     om_emplace (rp_ticket participant)
       \<lparr>sr_match = match, sr_player = rp_player participant, sr_expiresAt = expiresAt\<rparr> tickets"

text \<open>\<open>lifetime\<close> is in milliseconds.\<close>

definition store_Load ::
    "match_id \<Rightarrow> reserved_participant list \<Rightarrow> time_point \<Rightarrow> int \<Rightarrow> ticket_store
      \<Rightarrow> ticket_store throws" where
  "store_Load match participants now lifetime s =
     (if ts_loaded s then Inl Logic_error
      else if length participants < 2 \<or> RoomCapacity < length participants \<or> lifetime \<le> 0
      then Inl Invalid_argument
      else if \<not> unique_participants participants {} {} then Inl Invalid_argument
      else
        let expiresAt = now + lifetime * nanoseconds_per_millisecond
        in Inr (s\<lparr>ts_tickets := fold (load_ticket match expiresAt) participants (ts_tickets s),
                  ts_loaded := True\<rparr>))"

definition store_Consume ::
    "match_ticket_value \<Rightarrow> match_id \<Rightarrow> player_id \<Rightarrow> time_point \<Rightarrow> ticket_store
      \<Rightarrow> store_consume_result \<times> ticket_store" where
  "store_Consume ticket match player now s =
     (if ticket \<in> ts_usedTickets s then (Used, s)
      else case map_of (ts_tickets s) ticket of
             None \<Rightarrow> (NotFound, s)
           | Some found \<Rightarrow>
               if sr_expiresAt found \<le> now
               then (Expired, s\<lparr>ts_tickets := om_erase ticket (ts_tickets s)\<rparr>)
               else if sr_match found \<noteq> match \<or> sr_player found \<noteq> player then (Mismatch, s)
               else (Accepted, s\<lparr>ts_usedTickets := insert ticket (ts_usedTickets s),
                                 ts_tickets := om_erase ticket (ts_tickets s)\<rparr>))"

definition store_PurgeExpired :: "time_point \<Rightarrow> ticket_store \<Rightarrow> player_id list \<times> ticket_store" where
  "store_PurgeExpired now s =
     (sort (map (sr_player \<circ> snd) (filter (\<lambda>e. \<not> now < sr_expiresAt (snd e)) (ts_tickets s))),
      s\<lparr>ts_tickets := filter (\<lambda>e. now < sr_expiresAt (snd e)) (ts_tickets s)\<rparr>)"

section \<open>Loading\<close>

lemma unique_participants_iff:
  "unique_participants ps players tickets \<longleftrightarrow>
     distinct (map rp_player ps) \<and> distinct (map rp_ticket ps)
     \<and> rp_player ` set ps \<inter> players = {} \<and> rp_ticket ` set ps \<inter> tickets = {}"
  by (induction ps arbitrary: players tickets) auto

definition loadable :: "reserved_participant list \<Rightarrow> bool" where
  "loadable ps \<longleftrightarrow> 2 \<le> length ps \<and> length ps \<le> RoomCapacity
     \<and> distinct (map rp_player ps) \<and> distinct (map rp_ticket ps)"

lemma store_Load_Inr_iff:
  "(\<exists>s'. store_Load m ps now lifetime s = Inr s') \<longleftrightarrow> \<not> ts_loaded s \<and> loadable ps \<and> 0 < lifetime"
  by (auto simp: store_Load_def loadable_def unique_participants_iff Let_def)

lemma om_wf_load: "om_wf tickets \<Longrightarrow> om_wf (fold (load_ticket m x) ps tickets)"
  by (induction ps arbitrary: tickets) (simp_all add: load_ticket_def)

lemma map_of_load:
  assumes "distinct (map rp_ticket ps)" and "rp_ticket ` set ps \<inter> dom (map_of tickets) = {}"
  shows "map_of (fold (load_ticket m x) ps tickets) t = Some r \<longleftrightarrow>
     map_of tickets t = Some r
     \<or> (\<exists>p \<in> set ps. t = rp_ticket p \<and> r = \<lparr>sr_match = m, sr_player = rp_player p, sr_expiresAt = x\<rparr>)"
  using assms
proof (induction ps arbitrary: tickets)
  case (Cons p ps)
  have new: "\<not> om_contains tickets (rp_ticket p)"
    using Cons.prems by (auto simp: om_contains_iff)
  then have load: "load_ticket m x p tickets = om_set (rp_ticket p)
      \<lparr>sr_match = m, sr_player = rp_player p, sr_expiresAt = x\<rparr> tickets"
    by (simp add: load_ticket_def om_emplace_new)
  have "rp_ticket ` set ps \<inter> dom (map_of (load_ticket m x p tickets)) = {}"
    using Cons.prems by (auto simp: load)
  then have "map_of (fold (load_ticket m x) (p # ps) tickets) t = Some r \<longleftrightarrow>
      map_of (load_ticket m x p tickets) t = Some r
      \<or> (\<exists>p \<in> set ps. t = rp_ticket p \<and> r = \<lparr>sr_match = m, sr_player = rp_player p, sr_expiresAt = x\<rparr>)"
    using Cons.IH [of "load_ticket m x p tickets"] Cons.prems by simp
  also have "map_of (load_ticket m x p tickets) t = Some r \<longleftrightarrow> map_of tickets t = Some r
      \<or> t = rp_ticket p \<and> r = \<lparr>sr_match = m, sr_player = rp_player p, sr_expiresAt = x\<rparr>"
    using new by (auto simp: load om_contains_def)
  finally show ?case by auto
qed auto

lemma store_Load_lookup:
  assumes "store_Load m ps now lifetime GameTicketStore = Inr s"
  shows "map_of (ts_tickets s) t = Some r \<longleftrightarrow>
    (\<exists>p \<in> set ps. t = rp_ticket p \<and> r = \<lparr>sr_match = m, sr_player = rp_player p,
       sr_expiresAt = now + lifetime * nanoseconds_per_millisecond\<rparr>)"
  using assms map_of_load [of ps "[]" m "now + lifetime * nanoseconds_per_millisecond" t r]
  by (auto simp: store_Load_def GameTicketStore_def unique_participants_iff Let_def split: if_splits)

section \<open>One use\<close>

definition store_wf :: "ticket_store \<Rightarrow> bool" where
  "store_wf s \<longleftrightarrow> om_wf (ts_tickets s) \<and> ts_usedTickets s \<inter> dom (map_of (ts_tickets s)) = {}"

lemma store_Consume_Accepted_iff:
  "fst (store_Consume t m p now s) = Accepted \<longleftrightarrow>
     t \<notin> ts_usedTickets s
     \<and> (\<exists>r. map_of (ts_tickets s) t = Some r \<and> now < sr_expiresAt r \<and> sr_match r = m \<and> sr_player r = p)"
  by (auto simp: store_Consume_def split: option.split)

lemma store_Consume_used:
  "ts_usedTickets (snd (store_Consume t m p now s)) =
     (if fst (store_Consume t m p now s) = Accepted then insert t (ts_usedTickets s) else ts_usedTickets s)"
  by (auto simp: store_Consume_def split: option.split)

lemma store_Consume_wf: "store_wf s \<Longrightarrow> store_wf (snd (store_Consume t m p now s))"
  by (auto simp: store_Consume_def store_wf_def split: option.split)

lemma store_Purge_wf: "store_wf s \<Longrightarrow> store_wf (snd (store_PurgeExpired now s))"
  by (auto simp: store_PurgeExpired_def store_wf_def map_of_filter_wf split: option.splits if_splits)

text \<open>A ticket that is in use, expired or for somebody else does not change hands.\<close>

lemma store_Consume_other:
  "t' \<noteq> t \<Longrightarrow> map_of (ts_tickets (snd (store_Consume t m p now s))) t' = map_of (ts_tickets s) t'"
  by (auto simp: store_Consume_def split: option.split)

definition store_accepts ::
    "match_ticket_value \<Rightarrow> match_id \<times> player_id \<times> time_point \<Rightarrow> ticket_store \<Rightarrow> bool \<times> ticket_store" where
  "store_accepts t q s =
     (let (result, s') = store_Consume t (fst q) (fst (snd q)) (snd (snd q)) s
      in (result = Accepted, s'))"

definition store_purged :: "time_point \<Rightarrow> ticket_store \<Rightarrow> ticket_store" where
  "store_purged now s = snd (store_PurgeExpired now s)"

interpretation game_ledger: one_shot_ledger store_accepts store_purged
    "\<lambda>s t. t \<in> ts_usedTickets s" store_wf
proof
  fix s t q s' assume "store_wf s" "store_accepts t q s = (True, s')"
  then show "t \<in> ts_usedTickets s'"
    using store_Consume_used [of t "fst q" "fst (snd q)" "snd (snd q)" s]
    by (auto simp: store_accepts_def split: prod.splits)
next
  fix s t t' q assume "store_wf s" "t \<in> ts_usedTickets s"
  then show "t \<in> ts_usedTickets (snd (store_accepts t' q s))"
    using store_Consume_used [of t' "fst q" "fst (snd q)" "snd (snd q)" s]
    by (auto simp: store_accepts_def split: prod.splits if_splits)
next
  fix s t q assume "store_wf s" "t \<in> ts_usedTickets s"
  then show "\<not> fst (store_accepts t q s)"
    by (simp add: store_accepts_def store_Consume_def)
next
  fix s t x assume "store_wf s" "t \<in> ts_usedTickets s"
  then show "t \<in> ts_usedTickets (store_purged x s)"
    by (simp add: store_purged_def store_PurgeExpired_def)
qed (simp_all add: store_accepts_def store_purged_def store_Consume_wf store_Purge_wf Let_def
      case_prod_beta)

lemma store_Load_wf:
  assumes "store_Load m ps now lifetime GameTicketStore = Inr s"
  shows "store_wf s" and "ts_usedTickets s = {}"
  using assms om_wf_load [of "[]"]
  by (auto simp: store_Load_def GameTicketStore_def store_wf_def Let_def split: if_splits)

end
