(* ===== verification/ParticipantRoster.thy ===== *)
theory ParticipantRoster
  imports Messages
begin

text \<open>
  apps/game_server/src/ParticipantRoster.cpp: the players of a match and the actors they
  control. A slot is pending until its player authenticates or becomes unavailable; the
  actor of a player is the player's position in the sorted roster.
\<close>

datatype slot_state = Pending | Authenticated | Unavailable

datatype game_connection_tag = Game_connection_tag

type_synonym game_connection_id = "(game_connection_tag, u64) ident"

record participant_slot =
  ps_player :: player_id
  ps_actor :: entity_id
  ps_state :: slot_state
  ps_connection :: "game_connection_id option"
  ps_udpToken :: "udp_session_token option"

type_synonym roster = "participant_slot list"

definition new_slot :: "nat \<times> player_id \<Rightarrow> participant_slot" where
  "new_slot e = \<lparr>ps_player = snd e, ps_actor = EntityId (of_nat (fst e)), ps_state = Pending,
     ps_connection = None, ps_udpToken = None\<rparr>"

definition ParticipantRoster :: "player_id list \<Rightarrow> roster throws" where
  "ParticipantRoster players =
     (if length players < 2 \<or> RoomCapacity < length players then Inl Invalid_argument
      else let players = sort players
           in if adjacent_equal (\<lambda>p. p) players then Inl Invalid_argument
              else Inr (map new_slot (enumerate 0 players)))"

text \<open>\<^verbatim>\<open>std::lower_bound\<close> by halving, and \<^verbatim>\<open>Find\<close>, the index of a player's slot.\<close>

function lower_bound :: "roster \<Rightarrow> player_id \<Rightarrow> nat \<Rightarrow> nat \<Rightarrow> nat" where
  "lower_bound slots player first count =
     (if count = 0 then first
      else let half = count div 2
           in if ps_player (slots ! (first + half)) < player
              then lower_bound slots player (first + half + 1) (count - half - 1)
              else lower_bound slots player first half)"
  by pat_completeness auto
termination
  by (relation "measure (\<lambda>(slots, player, first, count). count)") auto

declare lower_bound.simps [simp del]

definition roster_Find :: "roster \<Rightarrow> player_id \<Rightarrow> nat option" where
  "roster_Find slots player =
     (let i = lower_bound slots player 0 (length slots)
      in if i = length slots \<or> ps_player (slots ! i) \<noteq> player then None else Some i)"

definition Authenticate ::
    "player_id \<Rightarrow> game_connection_id \<Rightarrow> udp_session_token \<Rightarrow> roster \<Rightarrow> bool \<times> roster" where
  "Authenticate player connection token slots =
     (case roster_Find slots player of
        None \<Rightarrow> (False, slots)
      | Some i \<Rightarrow>
          if ps_state (slots ! i) \<noteq> Pending \<or> idval connection = 0 then (False, slots)
          else if list_ex (\<lambda>candidate. ps_connection candidate = Some connection) slots
          then (False, slots)
          else (True, slots[i := (slots ! i)\<lparr>ps_state := Authenticated,
                  ps_connection := Some connection, ps_udpToken := Some token\<rparr>]))"

definition MarkUnavailable :: "player_id \<Rightarrow> roster \<Rightarrow> bool \<times> roster" where
  "MarkUnavailable player slots =
     (case roster_Find slots player of
        None \<Rightarrow> (False, slots)
      | Some i \<Rightarrow>
          if ps_state (slots ! i) = Unavailable then (False, slots)
          else (True, slots[i := (slots ! i)\<lparr>ps_state := Unavailable,
                  ps_connection := None, ps_udpToken := None\<rparr>]))"

definition ActorFor :: "roster \<Rightarrow> player_id \<Rightarrow> entity_id throws" where
  "ActorFor slots player =
     (case roster_Find slots player of None \<Rightarrow> Inl Out_of_range | Some i \<Rightarrow> Inr (ps_actor (slots ! i)))"

definition PlayerFor :: "roster \<Rightarrow> entity_id \<Rightarrow> player_id throws" where
  "PlayerFor slots actor =
     (let index = unat (idval actor)
      in if length slots \<le> index \<or> ps_actor (slots ! index) \<noteq> actor then Inl Out_of_range
         else Inr (ps_player (slots ! index)))"

definition ConnectionFor :: "roster \<Rightarrow> player_id \<Rightarrow> game_connection_id option" where
  "ConnectionFor slots player =
     (case roster_Find slots player of None \<Rightarrow> None | Some i \<Rightarrow> ps_connection (slots ! i))"

definition ReadyToStart :: "roster \<Rightarrow> bool" where
  "ReadyToStart slots \<longleftrightarrow> list_all (\<lambda>slot. ps_state slot \<noteq> Pending) slots"

definition AuthenticatedCount :: "roster \<Rightarrow> nat" where
  "AuthenticatedCount slots = length (filter (\<lambda>slot. ps_state slot = Authenticated) slots)"

definition UnavailablePlayers :: "roster \<Rightarrow> player_id list" where
  "UnavailablePlayers slots = map ps_player (filter (\<lambda>slot. ps_state slot = Unavailable) slots)"

section \<open>Binary search\<close>

lemma lower_bound_spec:
  assumes "sorted (map ps_player slots)" and "first + count \<le> length slots"
    and "\<forall>i < first. ps_player (slots ! i) < player"
    and "\<forall>i. first + count \<le> i \<longrightarrow> i < length slots \<longrightarrow> player \<le> ps_player (slots ! i)"
  shows "lower_bound slots player first count \<le> length slots
    \<and> (\<forall>i < lower_bound slots player first count. ps_player (slots ! i) < player)
    \<and> (\<forall>i. lower_bound slots player first count \<le> i \<longrightarrow> i < length slots \<longrightarrow> player \<le> ps_player (slots ! i))"
  using assms
proof (induction slots player first count rule: lower_bound.induct)
  case (1 slots player first count)
  have mono: "ps_player (slots ! i) \<le> ps_player (slots ! j)" if "i \<le> j" "j < length slots" for i j
    using sorted_nth_mono [OF 1(3), of i j] that by simp
  let ?h = "count div 2"
  consider "count = 0"
    | "count \<noteq> 0" "ps_player (slots ! (first + ?h)) < player"
    | "count \<noteq> 0" "\<not> ps_player (slots ! (first + ?h)) < player" by blast
  then show ?case
  proof cases
    case 1
    then show ?thesis using "1.prems" by (simp add: lower_bound.simps)
  next
    case 2
    have "first + ?h < length slots" using 2(1) "1.prems"(2) by linarith
    then have "\<forall>i < first + ?h + 1. ps_player (slots ! i) < player"
      using le_less_trans [OF mono 2(2)] by (simp add: less_Suc_eq_le)
    moreover have "first + ?h + 1 + (count - ?h - 1) = first + count"
      using 2(1) by presburger
    moreover have "lower_bound slots player first count =
        lower_bound slots player (first + ?h + 1) (count - ?h - 1)"
      using 2 by (subst lower_bound.simps) (simp add: Let_def)
    ultimately show ?thesis
      using "1.IH"(1) [OF 2(1) refl 2(2) "1.prems"(1)] "1.prems"(2-4) by presburger
  next
    case 3
    have "\<forall>i. first + ?h \<le> i \<longrightarrow> i < length slots \<longrightarrow> player \<le> ps_player (slots ! i)"
      using order.trans [OF leI [OF 3(2)] mono] by simp
    moreover have "lower_bound slots player first count = lower_bound slots player first ?h"
      using 3 by (subst lower_bound.simps) (simp add: Let_def)
    moreover have "first + ?h \<le> length slots" using "1.prems"(2) by linarith
    ultimately show ?thesis
      using "1.IH"(2) [OF 3(1) refl 3(2) "1.prems"(1)] "1.prems"(3) by presburger
  qed
qed

definition roster_wf :: "roster \<Rightarrow> bool" where
  "roster_wf slots \<longleftrightarrow>
     sorted_wrt (<) (map ps_player slots) \<and> length slots \<le> RoomCapacity
     \<and> (\<forall>i < length slots. ps_actor (slots ! i) = EntityId (of_nat i))
     \<and> (\<forall>slot \<in> set slots. (ps_state slot = Authenticated) = (ps_connection slot \<noteq> None)
          \<and> (ps_state slot = Authenticated) = (ps_udpToken slot \<noteq> None))
     \<and> (\<forall>i < length slots. \<forall>j < length slots. ps_connection (slots ! i) \<noteq> None
          \<longrightarrow> ps_connection (slots ! i) = ps_connection (slots ! j) \<longrightarrow> i = j)"

text \<open>The search finds exactly the player's slot.\<close>

lemma roster_Find_Some_iff:
  assumes "sorted_wrt (<) (map ps_player slots)"
  shows "roster_Find slots player = Some i \<longleftrightarrow> i < length slots \<and> ps_player (slots ! i) = player"
proof -
  have s: "sorted (map ps_player slots)" and d: "distinct (map ps_player slots)"
    using assms by (simp_all add: strict_sorted_iff)
  let ?b = "lower_bound slots player 0 (length slots)"
  have b: "?b \<le> length slots" "\<And>i. i < ?b \<Longrightarrow> ps_player (slots ! i) < player"
    "\<And>i. ?b \<le> i \<Longrightarrow> i < length slots \<Longrightarrow> player \<le> ps_player (slots ! i)"
    using lower_bound_spec [OF s, of 0 "length slots" player] by auto
  show ?thesis
  proof
    assume "roster_Find slots player = Some i"
    then show "i < length slots \<and> ps_player (slots ! i) = player"
      using b(1) by (auto simp: roster_Find_def Let_def split: if_splits)
  next
    assume i: "i < length slots \<and> ps_player (slots ! i) = player"
    then have "?b \<le> i" using b(2) [of i] by (meson less_irrefl not_le)
    moreover have "\<not> ?b < i"
    proof
      assume "?b < i"
      with i have "ps_player (slots ! ?b) < ps_player (slots ! i)"
        using sorted_wrt_nth_less [OF assms, of ?b i] by simp
      then show False using b(3) [of ?b] i \<open>?b < i\<close> by simp
    qed
    ultimately have "?b = i" by simp
    then show "roster_Find slots player = Some i" using i by (simp add: roster_Find_def Let_def)
  qed
qed

lemma roster_Find_wf:
  "roster_wf slots \<Longrightarrow>
     roster_Find slots player = Some i \<longleftrightarrow> i < length slots \<and> ps_player (slots ! i) = player"
  by (rule roster_Find_Some_iff) (simp add: roster_wf_def)

section \<open>The invariant\<close>

lemma roster_wf_new:
  assumes "ParticipantRoster players = Inr slots"
  shows "roster_wf slots" and "map ps_player slots = sort players"
    and "distinct players" and "\<forall>slot \<in> set slots. ps_state slot = Pending"
proof -
  have len: "length players \<le> RoomCapacity" and d: "\<not> adjacent_equal (\<lambda>p. p) (sort players)"
    and slots: "slots = map new_slot (enumerate 0 (sort players))"
    using assms by (auto simp: ParticipantRoster_def Let_def split: if_splits)
  show players: "map ps_player slots = sort players"
    by (simp add: slots new_slot_def comp_def)
  have "distinct (map (\<lambda>p. p) (sort players))"
    using sorted_adjacent_distinct [of "\<lambda>p. p" "sort players"] d by simp
  then show "distinct players" by simp
  have pending: "\<forall>slot \<in> set slots. ps_state slot = Pending \<and> ps_connection slot = None \<and> ps_udpToken slot = None"
    by (auto simp: slots new_slot_def)
  then show "\<forall>slot \<in> set slots. ps_state slot = Pending" by blast
  have "ps_actor (slots ! i) = EntityId (of_nat i)" if "i < length slots" for i
    using that by (simp add: slots new_slot_def nth_enumerate_eq)
  moreover have "length slots \<le> RoomCapacity" using len by (simp add: slots)
  moreover have "sorted_wrt (<) (map ps_player slots)"
    using \<open>distinct players\<close> by (simp add: players strict_sorted_iff)
  ultimately show "roster_wf slots"
    using pending by (auto simp: roster_wf_def)
qed

text \<open>A slot's state changes; its player and actor stay.\<close>

lemma roster_wf_update:
  assumes wf: "roster_wf slots" and i: "i < length slots"
    and slot: "slot = (slots ! i)\<lparr>ps_state := st, ps_connection := c, ps_udpToken := tok\<rparr>"
    and st: "(st = Authenticated) = (c \<noteq> None)" "(st = Authenticated) = (tok \<noteq> None)"
    and new: "\<And>s. s \<in> set slots \<Longrightarrow> c \<noteq> None \<Longrightarrow> ps_connection s \<noteq> c"
  shows "roster_wf (slots[i := slot])"
proof -
  have "map ps_player (slots[i := slot]) = map ps_player slots"
    using i by (simp add: map_update slot) (metis list_update_id map_update nth_map length_map)
  then have sorted: "sorted_wrt (<) (map ps_player (slots[i := slot]))"
    using wf by (simp add: roster_wf_def)
  have actor: "\<forall>j < length (slots[i := slot]). ps_actor (slots[i := slot] ! j) = EntityId (of_nat j)"
    using wf i by (auto simp: roster_wf_def nth_list_update slot)
  have state: "\<forall>s \<in> set (slots[i := slot]). (ps_state s = Authenticated) = (ps_connection s \<noteq> None)
      \<and> (ps_state s = Authenticated) = (ps_udpToken s \<noteq> None)"
    using wf st set_update_subset_insert [of slots i slot] by (fastforce simp: roster_wf_def slot)
  have "\<forall>j < length slots. \<forall>k < length slots. ps_connection (slots[i := slot] ! j) \<noteq> None
      \<longrightarrow> ps_connection (slots[i := slot] ! j) = ps_connection (slots[i := slot] ! k) \<longrightarrow> j = k"
  proof (intro allI impI)
    fix j k assume jk: "j < length slots" "k < length slots"
      and c: "ps_connection (slots[i := slot] ! j) \<noteq> None"
        "ps_connection (slots[i := slot] ! j) = ps_connection (slots[i := slot] ! k)"
    show "j = k"
      using wf new [of "slots ! j"] new [of "slots ! k"] jk c
      by (cases "j = i"; cases "k = i") (auto simp: roster_wf_def slot)
  qed
  with sorted actor state wf show ?thesis unfolding roster_wf_def length_list_update by blast
qed

lemma Authenticate_wf:
  assumes "roster_wf slots"
  shows "roster_wf (snd (Authenticate player connection token slots))"
  using assms roster_wf_update [OF assms, where st = Authenticated and c = "Some connection" and tok = "Some token"]
  by (auto simp: Authenticate_def roster_Find_wf list_ex_iff split: option.split)

lemma MarkUnavailable_wf:
  assumes "roster_wf slots"
  shows "roster_wf (snd (MarkUnavailable player slots))"
  using assms roster_wf_update [OF assms, where st = Unavailable and c = None and tok = None]
  by (auto simp: MarkUnavailable_def roster_Find_wf split: option.split)

section \<open>Players and actors\<close>

lemma ActorFor_Inr_iff:
  assumes "roster_wf slots"
  shows "ActorFor slots player = Inr actor \<longleftrightarrow>
    (\<exists>i < length slots. ps_player (slots ! i) = player \<and> actor = EntityId (of_nat i))"
proof -
  have "ActorFor slots player = Inr actor \<longleftrightarrow>
      (\<exists>i. roster_Find slots player = Some i \<and> actor = ps_actor (slots ! i))"
    by (auto simp: ActorFor_def split: option.split)
  also have "\<dots> \<longleftrightarrow> (\<exists>i < length slots. ps_player (slots ! i) = player \<and> actor = EntityId (of_nat i))"
    using assms [unfolded roster_wf_def] by (auto simp: roster_Find_wf [OF assms])
  finally show ?thesis .
qed

lemma PlayerFor_Inr_iff:
  assumes "roster_wf slots"
  shows "PlayerFor slots actor = Inr player \<longleftrightarrow>
    (\<exists>i < length slots. ps_player (slots ! i) = player \<and> actor = EntityId (of_nat i))"
proof -
  have small: "unat (of_nat i :: u32) = i" if "i < length slots" for i
    using that assms by (simp add: roster_wf_def RoomCapacity_def unat_of_nat)
  show ?thesis
  proof
    assume "PlayerFor slots actor = Inr player"
    then show "\<exists>i < length slots. ps_player (slots ! i) = player \<and> actor = EntityId (of_nat i)"
      by (cases actor) (auto simp: PlayerFor_def Let_def split: if_splits intro!: exI [of _ "unat (idval actor)"])
  next
    assume "\<exists>i < length slots. ps_player (slots ! i) = player \<and> actor = EntityId (of_nat i)"
    then show "PlayerFor slots actor = Inr player"
      using assms small by (auto simp: PlayerFor_def Let_def roster_wf_def)
  qed
qed

lemma ActorFor_PlayerFor:
  "roster_wf slots \<Longrightarrow> ActorFor slots player = Inr actor \<longleftrightarrow> PlayerFor slots actor = Inr player"
  by (simp add: ActorFor_Inr_iff PlayerFor_Inr_iff)

section \<open>Authentication\<close>

lemma Authenticate_accepts:
  assumes "roster_wf slots" and "Authenticate player connection token slots = (True, slots')"
  shows "ConnectionFor slots' player = Some connection"
    and "idval connection \<noteq> 0" and "\<forall>slot \<in> set slots. ps_connection slot \<noteq> Some connection"
    and "\<forall>other. other \<noteq> player \<longrightarrow> ConnectionFor slots' other = ConnectionFor slots other"
    and "AuthenticatedCount slots' = Suc (AuthenticatedCount slots)"
proof -
  obtain i where i: "roster_Find slots player = Some i" and st: "ps_state (slots ! i) = Pending"
    and c: "idval connection \<noteq> 0" and fresh: "\<forall>slot \<in> set slots. ps_connection slot \<noteq> Some connection"
    and slots': "slots' = slots[i := (slots ! i)\<lparr>ps_state := Authenticated,
      ps_connection := Some connection, ps_udpToken := Some token\<rparr>]"
    using assms(2) by (auto simp: Authenticate_def list_ex_iff split: option.splits if_splits)
  have wf': "roster_wf slots'" using Authenticate_wf [OF assms(1), of player connection token] assms(2) by simp
  have len: "i < length slots" "ps_player (slots ! i) = player"
    using i assms(1) by (simp_all add: roster_Find_wf)
  have find: "roster_Find slots' p = roster_Find slots p" for p
  proof -
    have "roster_Find slots' p = Some j \<longleftrightarrow> roster_Find slots p = Some j" for j
      using assms(1) wf' len by (auto simp: roster_Find_wf slots' nth_list_update)
    then show ?thesis by (metis not_Some_eq)
  qed
  show "ConnectionFor slots' player = Some connection"
    unfolding ConnectionFor_def find i using len by (simp add: slots')
  show "idval connection \<noteq> 0" by (rule c)
  show "\<forall>slot \<in> set slots. ps_connection slot \<noteq> Some connection" by (rule fresh)
  show "\<forall>other. other \<noteq> player \<longrightarrow> ConnectionFor slots' other = ConnectionFor slots other"
  proof (intro allI impI)
    fix other assume "other \<noteq> player"
    then have "roster_Find slots other \<noteq> Some i" using len assms(1) by (simp add: roster_Find_wf)
    then show "ConnectionFor slots' other = ConnectionFor slots other"
      unfolding ConnectionFor_def find by (auto simp: slots' split: option.split)
  qed
  have "slots = take i slots @ slots ! i # drop (Suc i) slots" by (rule id_take_nth_drop [OF len(1)])
  then have "AuthenticatedCount slots = AuthenticatedCount (take i slots @ slots ! i # drop (Suc i) slots)"
    by simp
  then show "AuthenticatedCount slots' = Suc (AuthenticatedCount slots)"
    using st len(1) by (simp add: AuthenticatedCount_def slots' upd_conv_take_nth_drop)
qed

section \<open>Sequences of operations\<close>

datatype roster_op =
    Authenticating player_id game_connection_id udp_session_token
  | Dropping player_id

fun roster_step :: "roster_op \<Rightarrow> roster \<Rightarrow> roster" where
  "roster_step (Authenticating player connection token) slots =
     snd (Authenticate player connection token slots)"
| "roster_step (Dropping player) slots = snd (MarkUnavailable player slots)"

lemma map_update_same:
  assumes "i < length xs" and "f x = f (xs ! i)"
  shows "map f (xs[i := x]) = map f xs"
  using assms by (metis list_update_id map_update nth_map length_map)

lemma roster_step_cases:
  assumes wf: "roster_wf slots"
  obtains "roster_step op slots = slots"
  | i st c tok where "i < length slots" and "roster_step op slots = slots[i := (slots ! i)
      \<lparr>ps_state := st, ps_connection := c, ps_udpToken := tok\<rparr>]"
proof -
  have "roster_step op slots = slots \<or> (\<exists>player i st c tok. roster_Find slots player = Some i
      \<and> roster_step op slots = slots[i := (slots ! i)
          \<lparr>ps_state := st, ps_connection := c, ps_udpToken := tok\<rparr>])"
  proof (cases op)
    case (Authenticating player connection token)
    then show ?thesis by (simp add: Authenticate_def split: option.split) blast
  next
    case (Dropping player)
    then show ?thesis by (simp add: MarkUnavailable_def split: option.split) blast
  qed
  with that show ?thesis by (auto simp: roster_Find_wf [OF wf])
qed

lemma roster_step_wf:
  assumes "roster_wf slots"
  shows "roster_wf (roster_step op slots)"
    and "map ps_player (roster_step op slots) = map ps_player slots"
    and "map ps_actor (roster_step op slots) = map ps_actor slots"
proof -
  show "roster_wf (roster_step op slots)"
    using assms by (cases op) (simp_all add: Authenticate_wf MarkUnavailable_wf)
  show "map ps_player (roster_step op slots) = map ps_player slots"
    by (rule roster_step_cases [OF assms, of op]) (simp_all add: map_update_same)
  show "map ps_actor (roster_step op slots) = map ps_actor slots"
    by (rule roster_step_cases [OF assms, of op]) (simp_all add: map_update_same)
qed

lemma roster_steps_wf:
  assumes "roster_wf slots"
  shows "roster_wf (fold roster_step ops slots)
    \<and> map ps_player (fold roster_step ops slots) = map ps_player slots
    \<and> map ps_actor (fold roster_step ops slots) = map ps_actor slots"
  using assms by (induction ops arbitrary: slots) (simp_all add: roster_step_wf)

text \<open>A player that is no longer pending stays so: it cannot authenticate again.\<close>

lemma Authenticate_not_pending:
  "roster_Find slots player = Some i \<Longrightarrow> ps_state (slots ! i) \<noteq> Pending
    \<Longrightarrow> Authenticate player connection token slots = (False, slots)"
  by (simp add: Authenticate_def)

end
