(* ===== verification/WorkerHandover.thy ===== *)
theory WorkerHandover
  imports LobbyContracts WorkerInvariant WorkerCodec GameTicketStore ParticipantRoster
begin

text \<open>
  How a match gets from the lobby to a worker: the lobby's action goes through the worker
  registry, over the wire and into the worker's ticket store and roster. Each stage accepts
  what the stage before it produces, and the tickets that players hold are good there.
\<close>

text \<open>What the lobby guarantees of the reservation it asks for.\<close>

definition handover_ok :: "reserve_match_action \<Rightarrow> bool" where
  "handover_ok a \<longleftrightarrow>
     idval (ra_reservation a) \<noteq> 0 \<and> distinct (map rp_player (ra_participants a))
     \<and> distinct (participant_tickets a) \<and> list_all opaque_wf (participant_tickets a)
     \<and> 2 \<le> length (ra_participants a) \<and> length (ra_participants a) \<le> RoomCapacity"

lemma HandleStartMatch_inv:
  assumes inv: "lobby_inv s" and h: "HandleStartMatch c p q now s = Inr (s', result)"
  shows "lobby_inv s'"
proof (cases rule: HandleStartMatch_cases [OF inv, of c p q now])
  case (1 e)
  then show ?thesis using inv h by simp
next
  case (2 rid r m v ok issued reg)
  then show ?thesis
    using h HandleStartMatch_started [OF inv] lobby_inv_started(1) [OF inv]
      HandleStartMatch_rolled_back [OF inv] lobby_inv_rolled_back [OF inv]
    by (cases ok) (auto simp: Let_def)
qed

lemma started_handover_ok:
  assumes inv: "lobby_inv s" and h: "HandleStartMatch c p q now s = Inr (s', result)"
    and a: "ReserveMatchAction a \<in> set (sr_actions result)"
  shows "handover_ok a"
proof -
  from start_reserves_lemma [OF assms] obtain r where room: "map_of (lb_rooms s) (ra_room a) = Some r"
    and start: "Room_ValidateStart p r = None" and pending: "map_of (lb_pending s') (ra_reservation a) = Some a"
    and players: "map rp_player (ra_participants a) = Room_Players r"
    and tickets: "distinct (participant_tickets a)" by blast
  have wf: "room_wf r" using inv room by (auto simp: lobby_inv_def room_inv_def)
  have "lobby_inv s'" by (rule HandleStartMatch_inv [OF inv h])
  then have pend: "pending_inv (map_of (lb_rooms s')) (map_of (lb_pending s')) (map_of (lb_roomToReservation s'))
      (lb_nextMatch s') (lb_nextReservation s')" by (simp add: lobby_inv_def)
  have "list_all opaque_wf (participant_tickets a)" by (rule pending_inv_action(3) [OF pend pending])
  moreover have "below (lb_nextReservation s') (idval (ra_reservation a))"
    using pend pending unfolding pending_inv_def by blast
  then have "idval (ra_reservation a) \<noteq> 0" by (simp add: below_def)
  moreover have "length (ra_participants a) = length (r_members r)"
    using arg_cong [OF players, of length] by (simp add: Room_Players_def)
  moreover have "distinct (map rp_player (ra_participants a))"
    unfolding players by (rule distinct_Room_Players [OF wf])
  moreover have "2 \<le> length (r_members r)" using start by (simp add: Room_ValidateStart_None_iff)
  moreover have "length (r_members r) \<le> RoomCapacity" by (rule room_wf_size [OF wf])
  ultimately show ?thesis using tickets by (simp add: handover_ok_def)
qed

lemma execute_reserve_accepted:
  assumes "gr_accepted (fst (execute_reserve a now g))"
  shows "can_reserve a now g \<and> (\<exists>c. gr_outbound (fst (execute_reserve a now g)) =
    [\<lparr>co_recipient = c, co_message = reserve_message a now\<rparr>])"
  using assms
  by (auto simp: execute_reserve_eq empty_result_def split: option.splits if_splits)

lemma execute_reserve_awaits:
  assumes "gr_accepted (fst (execute_reserve a now g))"
  shows "gr_timers (fst (execute_reserve a now g)) = [reservation_timer StartTimer (ra_reservation a)]
    \<and> ra_reservation a \<in> awaiting (map_of (wg_workers (snd (execute_reserve a now g))))"
proof -
  from assms obtain w rec where "execute_reserve a now g =
      (accepted_result
         \<lparr>gr_outbound := [\<lparr>co_recipient = wk_connection rec, co_message = reserve_message a now\<rparr>],
          gr_timers := [reservation_timer StartTimer (ra_reservation a)]\<rparr>,
       g\<lparr>wg_workers := om_set w (rec\<lparr>wk_state := Reserved,
            wk_reservation := Some (ra_reservation a), wk_match := Some (ra_match a)\<rparr>) (wg_workers g),
         wg_reservations := om_set (ra_reservation a) w (wg_reservations g)\<rparr>)"
    by (auto simp: execute_reserve_eq empty_result_def split: option.splits if_splits)
  then show ?thesis by (force simp: awaiting_def waits_for_def)
qed

definition handed_over :: "reserve_match_action \<Rightarrow> time_point \<Rightarrow> reserve_match" where
  "handed_over a now =
     \<lparr>rm_reservation = ra_reservation a, rm_match = ra_match a, rm_seed = ra_seed a,
      rm_ticketLifetimeMilliseconds = of_int (remaining_lifetime a now),
      rm_participants = sort_key rp_player (ra_participants a)\<rparr>"

lemma handed_over_lifetime:
  assumes "can_reserve a now g"
  shows "uint (rm_ticketLifetimeMilliseconds (handed_over a now)) = remaining_lifetime a now"
proof -
  have "uint (of_int z :: u32) = z" if "0 \<le> z" "z < 2 ^ 32" for z
    using that by (simp add: unsigned_of_int take_bit_int_eq_self)
  then show ?thesis
    using assms remaining_lifetime_le [of a now] by (simp add: handed_over_def can_reserve_def)
qed

lemma remaining_lifetime_bound:
  assumes "0 < remaining_lifetime a now"
  shows "now + remaining_lifetime a now * nanoseconds_per_millisecond
    \<le> ra_issuedAt a + int MatchTicketLifetimeSeconds * nanoseconds_per_second"
proof -
  let ?m = "min (ra_issuedAt a + int MatchTicketLifetimeSeconds * nanoseconds_per_second - now)
    (int MatchTicketLifetimeSeconds * nanoseconds_per_second)"
  have "1000000 \<le> ?m"
    using assms remaining_lifetime_pos [of a now]
    by (simp add: MatchTicketLifetimeSeconds_def nanoseconds_per_second_def)
  then have "remaining_lifetime a now = ?m div 1000000"
    unfolding remaining_lifetime_def nanoseconds_per_millisecond_def by (intro trunc_div_nonneg) simp_all
  moreover have "x div 1000000 * 1000000 \<le> x" for x :: int by presburger
  then have "?m div 1000000 * 1000000 \<le> ?m" .
  ultimately show ?thesis by (simp add: nanoseconds_per_millisecond_def)
qed

text \<open>The message encodes, and the worker decodes it with its participants in order.\<close>

lemma reserve_message_arrives:
  assumes ok: "handover_ok a" and can: "can_reserve a now g"
  shows "\<exists>e. EncodeLobbyToWorkerMessage (reserve_message a now) = Inr e
    \<and> DecodeLobbyToWorkerMessage (em_type e) (em_payload e) = Inr (ReserveMatch (handed_over a now))"
proof -
  have life: "uint (rm_ticketLifetimeMilliseconds (handed_over a now)) = remaining_lifetime a now"
    by (rule handed_over_lifetime [OF can])
  have "0 < remaining_lifetime a now" using can by (simp add: can_reserve_def)
  then have "0 < (of_int (remaining_lifetime a now) :: u32)"
      "unat (of_int (remaining_lifetime a now) :: u32) \<le> 60000"
    using life remaining_lifetime_le [of a now]
    by (simp_all add: handed_over_def word_less_def nat_le_iff flip: nat_uint_eq)
  then have "to_worker_encodable (reserve_message a now)"
    using ok by (simp add: reserve_message_def reservation_ok_def handover_ok_def)
  then obtain e where e: "EncodeLobbyToWorkerMessage (reserve_message a now) = Inr e"
    using EncodeLobbyToWorkerMessage_total_iff by blast
  moreover have "to_worker_wf (reserve_message a now)"
    using ok by (simp add: reserve_message_def handover_ok_def participant_tickets_def list_all_iff)
  ultimately show ?thesis
    using to_worker_codec.decode_encode [of "reserve_message a now" e]
    by (simp add: reserve_message_def handed_over_def)
qed

text \<open>The worker's store and roster take what arrives, and every player's ticket is good for
  as long as the reservation says.\<close>

lemma handed_over_loads:
  assumes ok: "handover_ok a" and life: "0 < lifetime"
  shows "\<exists>st. store_Load (ra_match a) (rm_participants (handed_over a now)) t lifetime GameTicketStore = Inr st
    \<and> (\<forall>x \<in> set (ra_participants a). \<forall>m p t'.
         fst (store_Consume (rp_ticket x) m p t' st) = Accepted \<longleftrightarrow>
           m = ra_match a \<and> p = rp_player x \<and> t' < t + lifetime * nanoseconds_per_millisecond)"
proof -
  let ?ps = "rm_participants (handed_over a now)"
  have set_ps: "set ?ps = set (ra_participants a)" by (simp add: handed_over_def)
  have "loadable ?ps"
    using ok by (simp add: loadable_def handover_ok_def handed_over_def distinct_map_sort_key
      participant_tickets_def)
  then obtain st where st: "store_Load (ra_match a) ?ps t lifetime GameTicketStore = Inr st"
    using store_Load_Inr_iff [of "ra_match a" ?ps t lifetime GameTicketStore] life
    by (auto simp: GameTicketStore_def)
  have one: "x = y" if "x \<in> set (ra_participants a)" "y \<in> set (ra_participants a)" "rp_ticket x = rp_ticket y" for x y
    using ok that by (auto simp: handover_ok_def participant_tickets_def distinct_map inj_on_def)
  have "fst (store_Consume (rp_ticket x) m p t' st) = Accepted \<longleftrightarrow>
      m = ra_match a \<and> p = rp_player x \<and> t' < t + lifetime * nanoseconds_per_millisecond"
    if x: "x \<in> set (ra_participants a)" for x m p t'
  proof -
    have "map_of (ts_tickets st) (rp_ticket x) = Some r \<longleftrightarrow>
        r = \<lparr>sr_match = ra_match a, sr_player = rp_player x,
             sr_expiresAt = t + lifetime * nanoseconds_per_millisecond\<rparr>" for r
      unfolding store_Load_lookup [OF st] set_ps using x one by auto
    then show ?thesis
      using store_Load_wf(2) [OF st] by (auto simp: store_Consume_Accepted_iff)
  qed
  with st show ?thesis by blast
qed

lemma handed_over_roster:
  assumes "handover_ok a"
  shows "\<exists>slots. ParticipantRoster (map rp_player (rm_participants (handed_over a now))) = Inr slots
    \<and> map ps_player slots = sort (map rp_player (ra_participants a))"
proof -
  let ?ps = "map rp_player (rm_participants (handed_over a now))"
  have d: "distinct ?ps" using assms by (simp add: handover_ok_def handed_over_def distinct_map_sort_key)
  then have "\<not> adjacent_equal (\<lambda>p. p) (sort ?ps)"
    using sorted_adjacent_distinct [of "\<lambda>p. p" "sort ?ps"] by simp
  moreover have "length ?ps = length (ra_participants a)" by (simp add: handed_over_def)
  ultimately obtain slots where slots: "ParticipantRoster ?ps = Inr slots"
    using assms by (auto simp: ParticipantRoster_def handover_ok_def Let_def)
  moreover have "sort ?ps = sort (map rp_player (ra_participants a))"
    using d by (intro sorted_distinct_set_unique) (auto simp: handed_over_def distinct_map_sort_key)
  ultimately show ?thesis using roster_wf_new(2) [OF slots] by auto
qed

end
