(* ===== verification/FixedTickScheduler.thy ===== *)
theory FixedTickScheduler
  imports Prelude
begin

text \<open>
  apps/game_server/src/FixedTickScheduler.cpp: how many ticks of the simulation are due at a
  time. Deadlines are computed from the ordinal of a tick, not by adding up periods, so they
  do not drift; after too long a pause the scheduler starts over at the present. A call that
  throws leaves no result here: the server gives up the match then. Times and durations are
  integers here and signed 64-bit counts of nanoseconds in the code; the theorems on deadlines
  are about the offsets that fit.
\<close>

record tick_scheduler =
  fs_tickRate :: u32
  fs_maximumCatchUpTicks :: u32
  fs_epoch :: "time_point option"
  fs_nextOrdinal :: u64

record tick_advance_result =
  ta_ticksDue :: u32
  ta_rebased :: bool
  ta_lateness :: duration

definition NanosecondsPerSecond :: u64 where
  "NanosecondsPerSecond = 1000000000"

definition FixedTickScheduler :: "u32 \<Rightarrow> u32 \<Rightarrow> tick_scheduler throws" where
  "FixedTickScheduler tickRate maximumCatchUpTicks =
     (if tickRate = 0 \<or> maximumCatchUpTicks = 0 then Inl Invalid_argument
      else Inr \<lparr>fs_tickRate = tickRate, fs_maximumCatchUpTicks = maximumCatchUpTicks,
                fs_epoch = None, fs_nextOrdinal = 1\<rparr>)"

definition scheduler_Start :: "time_point \<Rightarrow> tick_scheduler \<Rightarrow> tick_scheduler throws" where
  "scheduler_Start now s =
     (if fs_epoch s \<noteq> None then Inl Logic_error
      else Inr (s\<lparr>fs_epoch := Some now, fs_nextOrdinal := 1\<rparr>))"

definition OffsetFor :: "tick_scheduler \<Rightarrow> u64 \<Rightarrow> duration throws" where
  "OffsetFor s ordinal =
     (let wholeSeconds = ordinal div ucast (fs_tickRate s)
      in if 0x7FFFFFFFFFFFFFFF < wholeSeconds then Inl Overflow_error
         else
           let remainder = ordinal mod ucast (fs_tickRate s);
               fractionalNanoseconds = (NanosecondsPerSecond * remainder) div ucast (fs_tickRate s)
           in Inr (uint wholeSeconds * nanoseconds_per_second + uint fractionalNanoseconds))"

definition NextDeadline :: "tick_scheduler \<Rightarrow> time_point throws" where
  "NextDeadline s =
     (case fs_epoch s of
        None \<Rightarrow> Inl Logic_error
      | Some epoch \<Rightarrow> bind_throws (OffsetFor s (fs_nextOrdinal s)) (\<lambda>offset. Inr (epoch + offset)))"

lemma less_imp_not_max: "(x::'a::len word) < y \<Longrightarrow> x \<noteq> - 1"
  by (metis not_less word_order.extremum)

lemma unat_Suc_less: "(x::'a::len word) < y \<Longrightarrow> unat (x + 1) = Suc (unat x)"
  by (rule unat_Suc_word) (rule less_imp_not_max)

text \<open>The catch-up loop of \<^verbatim>\<open>Advance\<close>, with \<open>ticksDue\<close> counted so far.\<close>

function advance_loop ::
    "time_point \<Rightarrow> u32 \<Rightarrow> tick_scheduler \<Rightarrow> (u32 \<times> tick_scheduler) throws" where
  "advance_loop now ticksDue s =
     (if \<not> ticksDue < fs_maximumCatchUpTicks s then Inr (ticksDue, s)
      else case NextDeadline s of
             Inl e \<Rightarrow> Inl e
           | Inr deadline \<Rightarrow>
               if \<not> deadline \<le> now then Inr (ticksDue, s)
               else if fs_nextOrdinal s = - 1 then Inl Overflow_error
               else advance_loop now (ticksDue + 1) (s\<lparr>fs_nextOrdinal := fs_nextOrdinal s + 1\<rparr>))"
  by pat_completeness auto

termination
  by (relation "measure (\<lambda>(now, ticksDue, s). unat (fs_maximumCatchUpTicks s) - unat ticksDue)")
     (auto simp: unat_Suc_less word_less_nat_alt)

declare advance_loop.simps [simp del]

definition scheduler_Advance ::
    "time_point \<Rightarrow> tick_scheduler \<Rightarrow> (tick_advance_result \<times> tick_scheduler) throws" where
  "scheduler_Advance now s =
     (if fs_epoch s = None then Inl Logic_error
      else bind_throws (advance_loop now 0 s) (\<lambda>(ticksDue, s).
        bind_throws (NextDeadline s) (\<lambda>firstUnprocessedDeadline.
          if ticksDue = fs_maximumCatchUpTicks s \<and> firstUnprocessedDeadline \<le> now
          then Inr (\<lparr>ta_ticksDue = ticksDue, ta_rebased = True,
                     ta_lateness = now - firstUnprocessedDeadline\<rparr>,
                    s\<lparr>fs_epoch := Some now, fs_nextOrdinal := 1\<rparr>)
          else Inr (\<lparr>ta_ticksDue = ticksDue, ta_rebased = False, ta_lateness = 0\<rparr>, s))))"

section \<open>Deadlines\<close>

text \<open>Tick \<open>n\<close> is due \<open>n / tickRate\<close> seconds after the epoch, rounded down to
  nanoseconds.\<close>

definition tick_offset :: "u32 \<Rightarrow> nat \<Rightarrow> int" where
  "tick_offset rate n = (int n * 1000000000) div uint rate"

lemma OffsetFor_total:
  assumes rate: "0 < fs_tickRate s"
  shows "OffsetFor s n =
    (if 2 ^ 63 \<le> unat n div unat (fs_tickRate s) then Inl Overflow_error
     else Inr (tick_offset (fs_tickRate s) (unat n)))"
proof -
  let ?k = "fs_tickRate s"
  define k q r where "k = uint ?k" and "q = uint n div k" and "r = uint n mod k"
  have k: "0 < k" "k < 2 ^ 32"
    using rate uint_lt2p [of ?k] by (simp_all add: k_def word_less_def)
  have cast: "uint (ucast ?k :: u64) = k"
    unfolding k_def by (rule uint_up_ucast) (simp add: is_up)
  have r: "0 \<le> r" "r < k" using k by (simp_all add: r_def)
  have small: "1000000000 * r < 2 ^ 64" using r k by simp
  have whole: "uint (n div ucast ?k) = q" and rem: "uint (n mod ucast ?k) = r"
    by (simp_all add: uint_div uint_mod cast q_def r_def)
  have "uint (NanosecondsPerSecond * (n mod ucast ?k)) = 1000000000 * r"
    using small r by (simp add: NanosecondsPerSecond_def uint_word_ariths rem)
  then have frac: "uint (NanosecondsPerSecond * (n mod ucast ?k) div ucast ?k) = (1000000000 * r) div k"
    by (simp add: uint_div cast)
  have "uint n = q * k + r" by (simp add: q_def r_def)
  then have "uint n * 1000000000 = 1000000000 * r + (q * 1000000000) * k" by algebra
  then have "(uint n * 1000000000) div k = q * 1000000000 + (1000000000 * r) div k"
    using k by simp
  moreover have "int (unat n div unat ?k) = q"
    by (simp add: zdiv_int q_def k_def)
  then have "2 ^ 63 \<le> unat n div unat ?k \<longleftrightarrow> 2 ^ 63 \<le> q"
    using of_nat_le_iff [of "2 ^ 63" "unat n div unat ?k", where 'a = int] by simp
  moreover have "0x7FFFFFFFFFFFFFFF < n div ucast ?k \<longleftrightarrow> 2 ^ 63 \<le> q"
    unfolding word_less_def whole by auto
  ultimately show ?thesis
    by (simp add: OffsetFor_def Let_def whole frac tick_offset_def k_def nanoseconds_per_second_def)
qed

text \<open>Offsets of whole seconds below 9223372036 fit a signed 64-bit count of nanoseconds.\<close>

lemma tick_offset_fits:
  assumes rate: "0 < rate" and n: "n div unat rate < 9223372036"
  shows "0 \<le> tick_offset rate n \<and> tick_offset rate n < 2 ^ 63"
proof -
  define k where "k = uint rate"
  have k: "0 < k" using rate by (simp add: k_def word_less_def)
  have "int (n div unat rate) = int n div k" by (simp add: zdiv_int k_def)
  then have "int n div k < 9223372036" using n by linarith
  moreover have "int n = int n div k * k + int n mod k" by simp
  moreover have "int n mod k < k" using k by simp
  moreover have "int n div k * k \<le> 9223372035 * k"
    using \<open>int n div k < 9223372036\<close> k by (intro mult_right_mono) simp_all
  ultimately have "int n * 1000000000 < (9223372036 * 1000000000) * k" by linarith
  moreover have "(int n * 1000000000) div k * k \<le> int n * 1000000000"
    using div_mult_mod_eq [of "int n * 1000000000" k] pos_mod_sign [OF k, of "int n * 1000000000"]
    by linarith
  ultimately have "(int n * 1000000000) div k * k < (9223372036 * 1000000000) * k" by linarith
  then have "(int n * 1000000000) div k < 9223372036 * 1000000000"
    by (rule mult_right_less_imp_less) (use k in simp)
  then show ?thesis using k by (simp add: tick_offset_def pos_imp_zdiv_nonneg_iff flip: k_def)
qed

text \<open>The code's own limit, in whole seconds, admits offsets that do not fit.\<close>

lemma OffsetFor_exceeds_int64:
  "\<exists>offset. OffsetFor \<lparr>fs_tickRate = 30, fs_maximumCatchUpTicks = 5, fs_epoch = Some 0,
     fs_nextOrdinal = 1\<rparr> 276701161110 = Inr offset \<and> 2 ^ 63 \<le> offset"
  by (simp add: OffsetFor_total tick_offset_def)

lemma tick_offset_seconds:
  assumes "0 < rate"
  shows "int (n div unat rate) \<le> tick_offset rate n"
proof -
  have k: "0 < uint rate" using assms by (simp add: word_less_def)
  then have "int n div uint rate \<le> tick_offset rate n" unfolding tick_offset_def by (intro zdiv_mono1) simp_all
  then show ?thesis by (simp add: zdiv_int)
qed

lemma tick_offset_mono:
  assumes "m \<le> n"
  shows "tick_offset rate m \<le> tick_offset rate n"
proof (cases "uint rate = 0")
  case False
  then have "0 < uint rate" using uint_ge_0 [of rate] by linarith
  then show ?thesis using assms unfolding tick_offset_def by (intro zdiv_mono1) simp_all
qed (simp add: tick_offset_def)

lemma NextDeadline_started:
  assumes "fs_epoch s = Some epoch" and "0 < fs_tickRate s"
    and "unat (fs_nextOrdinal s) div unat (fs_tickRate s) < 2 ^ 63"
  shows "NextDeadline s = Inr (epoch + tick_offset (fs_tickRate s) (unat (fs_nextOrdinal s)))"
  using assms by (simp add: NextDeadline_def OffsetFor_total)

text \<open>The next \<open>n\<close> ordinals have deadlines, and do not reach the largest 64-bit number.\<close>

definition deadlines_exist :: "tick_scheduler \<Rightarrow> nat \<Rightarrow> bool" where
  "deadlines_exist s n \<longleftrightarrow>
     unat (fs_nextOrdinal s) + n < 2 ^ 64 - 1 \<and> (unat (fs_nextOrdinal s) + n) div unat (fs_tickRate s) < 2 ^ 63"

lemma deadlines_exist_le:
  assumes "deadlines_exist s n" and "m \<le> n"
  shows "(unat (fs_nextOrdinal s) + m) div unat (fs_tickRate s) < 2 ^ 63"
proof -
  have "(unat (fs_nextOrdinal s) + m) div unat (fs_tickRate s) \<le> (unat (fs_nextOrdinal s) + n) div unat (fs_tickRate s)"
    using assms(2) by (intro div_le_mono) simp
  then show ?thesis using assms(1) by (simp add: deadlines_exist_def)
qed

section \<open>The loop\<close>

text \<open>The loop counts the deadlines that have passed, up to the catch-up limit.\<close>

definition counts_due :: "tick_scheduler \<Rightarrow> time_point \<Rightarrow> time_point \<Rightarrow> nat \<Rightarrow> nat \<Rightarrow> bool" where
  "counts_due s epoch now limit j \<longleftrightarrow>
     j \<le> limit
     \<and> (\<forall>i < j. epoch + tick_offset (fs_tickRate s) (unat (fs_nextOrdinal s) + i) \<le> now)
     \<and> (j = limit \<or> now < epoch + tick_offset (fs_tickRate s) (unat (fs_nextOrdinal s) + j))"

lemma advance_loop_spec:
  assumes "fs_epoch s = Some epoch" and "0 < fs_tickRate s"
    and "due \<le> fs_maximumCatchUpTicks s"
    and "deadlines_exist s (unat (fs_maximumCatchUpTicks s) - unat due)"
  shows "\<exists>j due' s'. advance_loop now due s = Inr (due', s') \<and> unat due' = unat due + j
    \<and> unat (fs_nextOrdinal s') = unat (fs_nextOrdinal s) + j
    \<and> s' = s\<lparr>fs_nextOrdinal := fs_nextOrdinal s'\<rparr>
    \<and> counts_due s epoch now (unat (fs_maximumCatchUpTicks s) - unat due) j"
  using assms
proof (induction now due s rule: advance_loop.induct)
  case (1 now due s)
  let ?d = "epoch + tick_offset (fs_tickRate s) (unat (fs_nextOrdinal s))"
  have next_d: "NextDeadline s = Inr ?d"
    using "1.prems" deadlines_exist_le [OF "1.prems"(4), of 0] by (simp add: NextDeadline_started)
  show ?case
  proof (cases "due < fs_maximumCatchUpTicks s \<and> ?d \<le> now")
    case False
    then have "advance_loop now due s = Inr (due, s)"
      by (auto simp: advance_loop.simps [of now due s] next_d)
    moreover have "counts_due s epoch now (unat (fs_maximumCatchUpTicks s) - unat due) 0"
      using False "1.prems"(3) by (auto simp: counts_due_def word_less_nat_alt not_less)
    ultimately show ?thesis by (intro exI [of _ 0] exI [of _ due] exI [of _ s]) simp
  next
    case True
    let ?s = "s\<lparr>fs_nextOrdinal := fs_nextOrdinal s + 1\<rparr>"
    have lt: "unat due < unat (fs_maximumCatchUpTicks s)" using True by (simp add: word_less_nat_alt)
    have "unat (fs_nextOrdinal s) \<noteq> unat (- 1 :: u64)"
      using conjunct1 [OF "1.prems"(4) [unfolded deadlines_exist_def]] lt
      by (simp add: unsigned_minus_1_eq_mask mask_eq_exp_minus_1)
    then have ne: "fs_nextOrdinal s \<noteq> - 1" by metis
    have next': "unat (fs_nextOrdinal ?s) = Suc (unat (fs_nextOrdinal s))"
      using unat_Suc_word [OF ne] by simp
    have due': "unat (due + 1) = Suc (unat due)" using True by (blast intro: unat_Suc_less)
    have step: "advance_loop now due s = advance_loop now (due + 1) ?s"
      using True ne by (simp add: advance_loop.simps [of now due s] next_d)
    have same_rate: "fs_tickRate ?s = fs_tickRate s" by simp
    have "unat (fs_nextOrdinal ?s) + (unat (fs_maximumCatchUpTicks ?s) - unat (due + 1))
        = unat (fs_nextOrdinal s) + (unat (fs_maximumCatchUpTicks s) - unat due)"
      unfolding next' due' using lt by simp
    then have "deadlines_exist ?s (unat (fs_maximumCatchUpTicks ?s) - unat (due + 1))"
      using "1.prems"(4) unfolding deadlines_exist_def same_rate by (simp only: simp_thms)
    moreover have "due + 1 \<le> fs_maximumCatchUpTicks ?s"
      using lt due' by (simp add: word_le_nat_alt)
    ultimately obtain j dd s' where j: "advance_loop now (due + 1) ?s = Inr (dd, s')"
      "unat dd = unat (due + 1) + j" "unat (fs_nextOrdinal s') = unat (fs_nextOrdinal ?s) + j"
      "s' = ?s\<lparr>fs_nextOrdinal := fs_nextOrdinal s'\<rparr>"
      "counts_due ?s epoch now (unat (fs_maximumCatchUpTicks ?s) - unat (due + 1)) j"
      using "1.IH" [OF _ next_d _ ne] True "1.prems"(1,2) by auto
    have "counts_due s epoch now (unat (fs_maximumCatchUpTicks s) - unat due) (Suc j)"
      using j(5) lt True next' due' by (auto simp: counts_due_def less_Suc_eq_0_disj)
    with j step next' due' show ?thesis
      by (intro exI [of _ "Suc j"] exI [of _ dd] exI [of _ s']) simp
  qed
qed

section \<open>Advancing\<close>

definition scheduler_ok :: "tick_scheduler \<Rightarrow> bool" where
  "scheduler_ok s \<longleftrightarrow> 0 < fs_tickRate s \<and> 0 < fs_maximumCatchUpTicks s"

lemma Advance_spec:
  assumes ok: "scheduler_ok s" and epoch: "fs_epoch s = Some epoch"
    and room: "deadlines_exist s (unat (fs_maximumCatchUpTicks s))"
  shows "\<exists>result s'. scheduler_Advance now s = Inr (result, s')
    \<and> counts_due s epoch now (unat (fs_maximumCatchUpTicks s)) (unat (ta_ticksDue result))
    \<and> (if unat (ta_ticksDue result) = unat (fs_maximumCatchUpTicks s)
          \<and> epoch + tick_offset (fs_tickRate s)
              (unat (fs_nextOrdinal s) + unat (ta_ticksDue result)) \<le> now
       then ta_rebased result \<and> s' = s\<lparr>fs_epoch := Some now, fs_nextOrdinal := 1\<rparr>
         \<and> ta_lateness result = now - (epoch + tick_offset (fs_tickRate s)
              (unat (fs_nextOrdinal s) + unat (ta_ticksDue result)))
       else \<not> ta_rebased result \<and> ta_lateness result = 0
         \<and> s' = s\<lparr>fs_nextOrdinal := fs_nextOrdinal s'\<rparr>
         \<and> unat (fs_nextOrdinal s') = unat (fs_nextOrdinal s) + unat (ta_ticksDue result))"
proof -
  have rate: "0 < fs_tickRate s" using ok by (simp add: scheduler_ok_def)
  obtain due s' where loop: "advance_loop now 0 s = Inr (due, s')"
    and n: "unat (fs_nextOrdinal s') = unat (fs_nextOrdinal s) + unat due"
    and s': "s' = s\<lparr>fs_nextOrdinal := fs_nextOrdinal s'\<rparr>"
    and c: "counts_due s epoch now (unat (fs_maximumCatchUpTicks s)) (unat due)"
    using advance_loop_spec [OF epoch rate, of 0 now] room by auto
  have same: "fs_epoch s' = Some epoch" "fs_tickRate s' = fs_tickRate s"
    "fs_maximumCatchUpTicks s' = fs_maximumCatchUpTicks s"
    by (subst s', simp add: epoch)+
  have "NextDeadline s' = Inr (epoch + tick_offset (fs_tickRate s) (unat (fs_nextOrdinal s) + unat due))"
    using NextDeadline_started [of s' epoch] same rate deadlines_exist_le [OF room, of "unat due"] c
    by (simp add: n counts_due_def)
  then show ?thesis
    using loop c s' n same epoch
    by (auto simp: scheduler_Advance_def word_unat_eq_iff)
qed

text \<open>The next deadline afterwards: it lies in the future, or one period after the present if the
  scheduler starts over; a period of less than a nanosecond is none.\<close>

lemma Advance_next_deadline:
  assumes ok: "scheduler_ok s" and epoch: "fs_epoch s = Some epoch"
    and room: "deadlines_exist s (unat (fs_maximumCatchUpTicks s))"
    and adv: "scheduler_Advance now s = Inr (result, s')"
  shows "NextDeadline s' = Inr (if ta_rebased result then now + tick_offset (fs_tickRate s) 1
      else epoch + tick_offset (fs_tickRate s) (unat (fs_nextOrdinal s) + unat (ta_ticksDue result)))
    \<and> (\<not> ta_rebased result \<longrightarrow>
        now < epoch + tick_offset (fs_tickRate s) (unat (fs_nextOrdinal s) + unat (ta_ticksDue result)))
    \<and> scheduler_ok s'"
proof -
  let ?rate = "fs_tickRate s"
  let ?d = "epoch + tick_offset ?rate (unat (fs_nextOrdinal s) + unat (ta_ticksDue result))"
  let ?late = "unat (ta_ticksDue result) = unat (fs_maximumCatchUpTicks s) \<and> ?d \<le> now"
  have c: "counts_due s epoch now (unat (fs_maximumCatchUpTicks s)) (unat (ta_ticksDue result))"
    and cases: "if ?late then ta_rebased result \<and> s' = s\<lparr>fs_epoch := Some now, fs_nextOrdinal := 1\<rparr>
         \<and> ta_lateness result = now - ?d
       else \<not> ta_rebased result \<and> ta_lateness result = 0
         \<and> s' = s\<lparr>fs_nextOrdinal := fs_nextOrdinal s'\<rparr>
         \<and> unat (fs_nextOrdinal s') = unat (fs_nextOrdinal s) + unat (ta_ticksDue result)"
    using Advance_spec [OF ok epoch room, of now] adv by auto
  have rate: "0 < ?rate" "0 < fs_maximumCatchUpTicks s" using ok by (simp_all add: scheduler_ok_def)
  show ?thesis
  proof (cases ?late)
    case True
    then have s': "s' = s\<lparr>fs_epoch := Some now, fs_nextOrdinal := 1\<rparr>" and r: "ta_rebased result"
      using cases unfolding if_P [OF True] by blast+
    have "Suc 0 div unat ?rate \<le> Suc 0" by (rule div_le_dividend)
    then have "Suc 0 div unat ?rate < 9223372036854775808" by linarith
    then show ?thesis using NextDeadline_started [of s' now] rate r by (simp add: s' scheduler_ok_def)
  next
    case False
    then have s': "s' = s\<lparr>fs_nextOrdinal := fs_nextOrdinal s'\<rparr>" and r: "\<not> ta_rebased result"
      and n: "unat (fs_nextOrdinal s') = unat (fs_nextOrdinal s) + unat (ta_ticksDue result)"
      using cases unfolding if_not_P [OF False] by blast+
    have same: "fs_epoch s' = Some epoch" "fs_tickRate s' = ?rate"
      "fs_maximumCatchUpTicks s' = fs_maximumCatchUpTicks s"
      by (subst s', simp add: epoch)+
    have "NextDeadline s' = Inr ?d"
      using NextDeadline_started [OF same(1)] same(2) rate deadlines_exist_le [OF room, of "unat (ta_ticksDue result)"] c
      by (simp add: n counts_due_def)
    moreover have "now < ?d" using False c by (auto simp: counts_due_def)
    ultimately show ?thesis using r rate same by (simp add: scheduler_ok_def)
  qed
qed

lemma tick_offset_one:
  assumes "0 < rate"
  shows "0 \<le> tick_offset rate 1" and "0 < tick_offset rate 1 \<longleftrightarrow> rate \<le> 1000000000"
proof -
  have k: "0 < uint rate" using assms by (simp add: word_less_def)
  then show "0 \<le> tick_offset rate 1" by (simp add: tick_offset_def pos_imp_zdiv_nonneg_iff)
  show "0 < tick_offset rate 1 \<longleftrightarrow> rate \<le> 1000000000"
    using k by (simp add: tick_offset_def pos_imp_zdiv_pos_iff word_le_def)
qed

text \<open>The constructor accepts rates above one tick in a nanosecond; a scheduler of such a rate that starts
  over is at once due again.\<close>

lemma Advance_rebase_above_nanosecond:
  "\<exists>s. FixedTickScheduler 2000000000 5 = Inr s
    \<and> bind_throws (scheduler_Start 0 s) (scheduler_Advance 10) =
      Inr (\<lparr>ta_ticksDue = 5, ta_rebased = True, ta_lateness = 7\<rparr>, s\<lparr>fs_epoch := Some 10\<rparr>)
    \<and> NextDeadline (s\<lparr>fs_epoch := Some 10\<rparr>) = Inr 10"
proof -
  let ?s = "\<lparr>fs_tickRate = 2000000000, fs_maximumCatchUpTicks = 5, fs_epoch = None, fs_nextOrdinal = 1\<rparr>"
  have "FixedTickScheduler 2000000000 5 = Inr ?s"
    "bind_throws (scheduler_Start 0 ?s) (scheduler_Advance 10) =
      Inr (\<lparr>ta_ticksDue = 5, ta_rebased = True, ta_lateness = 7\<rparr>, ?s\<lparr>fs_epoch := Some 10\<rparr>)"
    "NextDeadline (?s\<lparr>fs_epoch := Some 10\<rparr>) = Inr 10" by code_simp+
  then show ?thesis by blast
qed

section \<open>Within the range of the clock\<close>

lemma deadlines_exist_fits:
  assumes "0 < fs_tickRate s" and "epoch + tick_offset (fs_tickRate s) (unat (fs_nextOrdinal s) + n) < 2 ^ 63"
    and "0 \<le> epoch" and "unat (fs_nextOrdinal s) + n < 2 ^ 64 - 1"
  shows "deadlines_exist s n"
proof -
  have "int ((unat (fs_nextOrdinal s) + n) div unat (fs_tickRate s)) < 2 ^ 63"
    using tick_offset_seconds [OF assms(1), of "unat (fs_nextOrdinal s) + n"] assms(2,3) by linarith
  moreover have "m < 2 ^ 63" if "int m < 2 ^ 63" for m
    using that by simp
  ultimately show ?thesis using assms(4) by (simp only: deadlines_exist_def simp_thms)
qed

end
