(* ===== verification/GameTcpCodec.thy ===== *)
theory GameTcpCodec
  imports WorkerCodec
begin

text \<open>
  protocol/src/GameTcpMessageCodec.cpp with GameTcpMessages.hpp: how a client presents its
  ticket to the game server and learns its session and the match's result. Both decoders
  accept nothing but what the encoders write.
\<close>

section \<open>Messages\<close>

definition GameTickRate :: u16 where "GameTickRate = 30"
definition SnapshotRate :: u16 where "SnapshotRate = 15"

datatype replication_mode = FullState | InterestFullPrecision | InterestQuantized | InterestDelta

fun replication_mode_value :: "replication_mode \<Rightarrow> u8" where
  "replication_mode_value FullState = 1"
| "replication_mode_value InterestFullPrecision = 2"
| "replication_mode_value InterestQuantized = 3"
| "replication_mode_value InterestDelta = 4"

text \<open>The cast to \<^verbatim>\<open>ReplicationMode\<close> with \<^verbatim>\<open>IsValidReplicationMode\<close>.\<close>

definition replication_mode_of :: "u8 \<Rightarrow> replication_mode option" where
  "replication_mode_of = enum_of replication_mode_value
     [FullState, InterestFullPrecision, InterestQuantized, InterestDelta]"

interpretation replication_mode: wire_enum replication_mode_value replication_mode_of
  unfolding replication_mode_of_def
proof (rule wire_enum_enum_of)
  show "inj replication_mode_value"
  proof (rule injI)
    fix s t assume "replication_mode_value s = replication_mode_value t"
    then show "s = t" by (cases s; cases t; simp)
  qed
  show "e \<in> set [FullState, InterestFullPrecision, InterestQuantized, InterestDelta]" for e
    by (cases e) simp_all
qed

datatype game_server_error = AuthenticationFailed | ServerNotReady | ProtocolViolation | ServerInternalError

fun server_error_value :: "game_server_error \<Rightarrow> u8" where
  "server_error_value AuthenticationFailed = 1"
| "server_error_value ServerNotReady = 2"
| "server_error_value ProtocolViolation = 3"
| "server_error_value ServerInternalError = 4"

text \<open>The cast to \<^verbatim>\<open>GameServerErrorCode\<close> with \<^verbatim>\<open>IsValidErrorCode\<close>.\<close>

definition server_error_of :: "u8 \<Rightarrow> game_server_error option" where
  "server_error_of = enum_of server_error_value
     [AuthenticationFailed, ServerNotReady, ProtocolViolation, ServerInternalError]"

interpretation server_error: wire_enum server_error_value server_error_of
  unfolding server_error_of_def
proof (rule wire_enum_enum_of)
  show "inj server_error_value"
  proof (rule injI)
    fix s t assume "server_error_value s = server_error_value t"
    then show "s = t" by (cases s; cases t; simp)
  qed
  show "e \<in> set [AuthenticationFailed, ServerNotReady, ProtocolViolation, ServerInternalError]" for e
    by (cases e) simp_all
qed

record game_server_welcome =
  gw_match :: match_id
  gw_player :: player_id
  gw_actor :: entity_id
  gw_tickRate :: u16
  gw_snapshotRate :: u16
  gw_mapId :: u32
  gw_navMeshCrc32 :: u32
  gw_replicationMode :: replication_mode
  gw_udpToken :: udp_session_token

record game_match_result =
  gm_match :: match_id
  gm_winner :: entity_id
  gm_hasWinner :: bool
  gm_reason :: match_completion_reason
  gm_finishedTick :: u32

datatype game_client_message = GameClientHello match_id player_id match_ticket_value

datatype game_server_message =
    GameServerWelcome game_server_welcome
  | GameServerErrorMessage game_server_error
  | GameMatchResult game_match_result

section \<open>Checks and encoders\<close>

definition IsValidResult :: "game_match_result \<Rightarrow> bool" where
  "IsValidResult value \<longleftrightarrow> gm_hasWinner value = CompletionNeedsWinner (gm_reason value)"

definition IsValidWelcome :: "game_server_welcome \<Rightarrow> bool" where
  "IsValidWelcome value \<longleftrightarrow>
     gw_tickRate value = GameTickRate \<and> gw_snapshotRate value = SnapshotRate \<and> gw_mapId value \<noteq> 0"

fun EncodeGameClientMessage :: "game_client_message \<Rightarrow> encoded_message" where
  "EncodeGameClientMessage (GameClientHello match player ticket) =
     EncodePayload MT_GameClientHello
       (\<lambda>w. WriteBytes (idval ticket) (WriteU32 (idval player) (WriteU64 (idval match) w)))"

definition WriteWelcome :: "game_server_welcome \<Rightarrow> byte_writer \<Rightarrow> byte_writer" where
  "WriteWelcome value w =
     (let w = WriteU64 (idval (gw_match value)) w;
          w = WriteU32 (idval (gw_player value)) w;
          w = WriteU32 (idval (gw_actor value)) w;
          w = WriteU16 (gw_tickRate value) w;
          w = WriteU16 (gw_snapshotRate value) w;
          w = WriteU32 (gw_mapId value) w;
          w = WriteU32 (gw_navMeshCrc32 value) w;
          w = WriteU8 (replication_mode_value (gw_replicationMode value)) w
      in WriteBytes (idval (gw_udpToken value)) w)"

definition WriteResult :: "game_match_result \<Rightarrow> byte_writer \<Rightarrow> byte_writer" where
  "WriteResult value w =
     (let w = WriteU64 (idval (gm_match value)) w;
          w = WriteU8 (if gm_hasWinner value then 1 else 0) w;
          w = (if gm_hasWinner value then WriteU32 (idval (gm_winner value)) w else w);
          w = WriteU8 (completion_reason_value (gm_reason value)) w
      in WriteU32 (gm_finishedTick value) w)"

fun EncodeGameServerMessage :: "game_server_message \<Rightarrow> encoded_message throws" where
  "EncodeGameServerMessage (GameServerWelcome value) =
     (if \<not> IsValidWelcome value then Inl Invalid_argument
      else Inr (EncodePayload MT_GameServerWelcome (WriteWelcome value)))"
| "EncodeGameServerMessage (GameServerErrorMessage error) =
     Inr (EncodePayload MT_GameServerError (WriteU8 (server_error_value error)))"
| "EncodeGameServerMessage (GameMatchResult value) =
     (if \<not> IsValidResult value then Inl Invalid_argument
      else Inr (EncodePayload MT_GameMatchResult (WriteResult value)))"

section \<open>Decoders\<close>

definition DecodeHello :: "byte list \<Rightarrow> game_client_message decode_result" where
  "DecodeHello payload =
     (let r = ByteReader payload;
          (match, r) = ReadU64 r;
          (player, r) = ReadU32 r;
          (ticket, r) = ReadBytes MatchTicketBytes r
      in case (match, player, ticket) of
           (Some m, Some p, Some t) \<Rightarrow> FinishDecode r (GameClientHello (MatchId m) (PlayerId p) (Ident t))
         | _ \<Rightarrow> ReaderFailure r)"

definition DecodeGameWelcome :: "byte list \<Rightarrow> game_server_message decode_result" where
  "DecodeGameWelcome payload =
     (let r = ByteReader payload;
          (match, r) = ReadU64 r;
          (player, r) = ReadU32 r;
          (actor, r) = ReadU32 r;
          (tickRate, r) = ReadU16 r;
          (snapshotRate, r) = ReadU16 r;
          (mapId, r) = ReadU32 r;
          (navMeshCrc32, r) = ReadU32 r;
          (replicationMode, r) = ReadU8 r;
          (tokenBytes, r) = ReadBytes MatchTicketBytes r
      in case (match, player, actor, tickRate, snapshotRate, mapId, navMeshCrc32, replicationMode,
               tokenBytes) of
           (Some m, Some p, Some a, Some tr, Some sr, Some arena, Some crc, Some rm, Some t) \<Rightarrow>
             (case replication_mode_of rm of
                None \<Rightarrow> Inl InvalidValue
              | Some mode \<Rightarrow>
                  let message = \<lparr>gw_match = MatchId m, gw_player = PlayerId p, gw_actor = EntityId a,
                        gw_tickRate = tr, gw_snapshotRate = sr, gw_mapId = arena,
                        gw_navMeshCrc32 = crc, gw_replicationMode = mode, gw_udpToken = Ident t\<rparr>
                  in if \<not> IsValidWelcome message then Inl InvalidValue
                     else FinishDecode r (GameServerWelcome message))
         | _ \<Rightarrow> ReaderFailure r)"

definition DecodeErrorMessage :: "byte list \<Rightarrow> game_server_message decode_result" where
  "DecodeErrorMessage payload =
     (let (errorValue, r) = ReadU8 (ByteReader payload)
      in case errorValue of
           None \<Rightarrow> ReaderFailure r
         | Some v \<Rightarrow>
             (case server_error_of v of
                None \<Rightarrow> Inl InvalidValue
              | Some error \<Rightarrow> FinishDecode r (GameServerErrorMessage error)))"

definition DecodeResult :: "byte list \<Rightarrow> game_server_message decode_result" where
  "DecodeResult payload =
     (let r = ByteReader payload;
          (match, r) = ReadU64 r;
          (hasWinner, r) = ReadU8 r
      in case (match, hasWinner) of
           (Some m, Some hw) \<Rightarrow>
             if 1 < hw then Inl InvalidValue
             else
               let (winner, r) = (if hw = 1 then ReadU32 r else (Some 0, r))
               in (case winner of
                     None \<Rightarrow> ReaderFailure r
                   | Some w \<Rightarrow>
                       let (reasonValue, r) = ReadU8 r;
                           (finishedTick, r) = ReadU32 r
                       in (case (reasonValue, finishedTick) of
                             (Some rv, Some tick) \<Rightarrow>
                               (case completion_reason_of rv of
                                  None \<Rightarrow> Inl InvalidValue
                                | Some reason \<Rightarrow>
                                    let message = \<lparr>gm_match = MatchId m, gm_winner = EntityId w,
                                          gm_hasWinner = (hw = 1), gm_reason = reason,
                                          gm_finishedTick = tick\<rparr>
                                    in if \<not> IsValidResult message then Inl InvalidValue
                                       else FinishDecode r (GameMatchResult message))
                           | _ \<Rightarrow> ReaderFailure r))
         | _ \<Rightarrow> ReaderFailure r)"

definition DecodeGameClientMessage ::
    "message_type \<Rightarrow> byte list \<Rightarrow> game_client_message decode_result" where
  "DecodeGameClientMessage type payload =
     (if type \<noteq> MT_GameClientHello then Inl InvalidValue else DecodeHello payload)"

fun DecodeGameServerMessage ::
    "message_type \<Rightarrow> byte list \<Rightarrow> game_server_message decode_result" where
  "DecodeGameServerMessage MT_GameServerWelcome payload = DecodeGameWelcome payload"
| "DecodeGameServerMessage MT_GameServerError payload = DecodeErrorMessage payload"
| "DecodeGameServerMessage MT_GameMatchResult payload = DecodeResult payload"
| "DecodeGameServerMessage _ payload = Inl InvalidValue"

section \<open>The client's hello\<close>

fun hello_wf :: "game_client_message \<Rightarrow> bool" where
  "hello_wf (GameClientHello m p t) = opaque_wf t"

lemma DecodeGameClientMessage_Encode:
  "hello_wf m \<Longrightarrow> DecodeGameClientMessage (em_type (EncodeGameClientMessage m))
     (em_payload (EncodeGameClientMessage m)) = Inr m"
proof (cases m)
  case (GameClientHello n p t)
  assume "hello_wf m"
  then show ?thesis
    by (cases n; cases p; cases t)
       (simp add: GameClientHello DecodeGameClientMessage_def DecodeHello_def EncodePayload_def
         opaque_wf_def ByteReader_reader_at read_write)
qed

lemma EncodeGameClientMessage_Decode:
  assumes "DecodeGameClientMessage type payload = Inr m"
  shows "hello_wf m \<and> EncodeGameClientMessage m = \<lparr>em_type = type, em_payload = payload\<rparr>"
  using assms
  by (auto simp: DecodeGameClientMessage_def DecodeHello_def EncodePayload_def opaque_wf_def
    ByteReader_reader_at read_write split: if_splits prod.splits option.splits
    dest!: u64.read_SomeD u32.read_SomeD raw.read_SomeD)

interpretation hello_codec: strict_codec "\<lambda>m. Inr (EncodeGameClientMessage m)"
    "\<lambda>e. DecodeGameClientMessage (em_type e) (em_payload e)" "\<lambda>m. m" hello_wf
proof
  fix m and e :: encoded_message
  assume "hello_wf m" "Inr (EncodeGameClientMessage m) = (Inr e :: encoded_message throws)"
  then show "DecodeGameClientMessage (em_type e) (em_payload e) = Inr m"
    using DecodeGameClientMessage_Encode [of m] by simp
next
  fix e :: encoded_message and m assume "DecodeGameClientMessage (em_type e) (em_payload e) = Inr m"
  from EncodeGameClientMessage_Decode [OF this]
  show "hello_wf m \<and> Inr (EncodeGameClientMessage m) = (Inr e :: encoded_message throws)" by simp
qed

section \<open>The server's messages\<close>

text \<open>A match result has the fields and the encoding of the worker's completion message.\<close>

definition completion_of :: "game_match_result \<Rightarrow> match_finished" where
  "completion_of g = \<lparr>mf_match = gm_match g, mf_winner = gm_winner g, mf_hasWinner = gm_hasWinner g,
     mf_reason = gm_reason g, mf_finishedTick = gm_finishedTick g\<rparr>"

definition result_of :: "match_finished \<Rightarrow> game_match_result" where
  "result_of f = \<lparr>gm_match = mf_match f, gm_winner = mf_winner f, gm_hasWinner = mf_hasWinner f,
     gm_reason = mf_reason f, gm_finishedTick = mf_finishedTick f\<rparr>"

lemma result_completion [simp]: "result_of (completion_of g) = g" "completion_of (result_of f) = f"
  by (simp_all add: result_of_def completion_of_def)

lemma IsValidResult_completion: "IsValidResult g \<longleftrightarrow> IsValidCompletion (completion_of g)"
  by (simp add: IsValidResult_def IsValidCompletion_def completion_of_def)

lemma WriteResult_bytes: "WriteResult g w = w @ finished_bytes (completion_of g)"
  by (simp add: WriteResult_def finished_bytes_def completion_of_def Let_def read_write)

lemma DecodeResult_completion:
  assumes "DecodeResult payload = Inr m"
  shows "\<exists>f. DecodeMatchFinished payload = Inr (MatchFinished f) \<and> m = GameMatchResult (result_of f)"
  using assms
  by (auto simp: DecodeResult_def DecodeMatchFinished_def Let_def FinishDecode_def result_of_def
    IsValidResult_def IsValidCompletion_def split: prod.splits option.splits if_splits)

lemma DecodeResult_InrD:
  assumes "DecodeResult payload = Inr m"
  shows "\<exists>g. m = GameMatchResult g \<and> IsValidResult g \<and> payload = finished_bytes (completion_of g)"
proof -
  obtain f where f: "DecodeMatchFinished payload = Inr (MatchFinished f)" "m = GameMatchResult (result_of f)"
    using DecodeResult_completion [OF assms] by blast
  then have "IsValidCompletion f" "payload = finished_bytes f"
    using DecodeMatchFinished_InrD [OF f(1)] by auto
  with f(2) show ?thesis by (auto simp: IsValidResult_completion)
qed

lemma DecodeErrorMessage_iff:
  "DecodeErrorMessage payload = Inr m \<longleftrightarrow>
     (\<exists>error. m = GameServerErrorMessage error \<and> payload = [server_error_value error])"
proof
  assume "DecodeErrorMessage payload = Inr m"
  then show "\<exists>error. m = GameServerErrorMessage error \<and> payload = [server_error_value error]"
    by (auto simp: DecodeErrorMessage_def ByteReader_reader_at server_error.of_wire_iff
      split: prod.splits option.splits dest!: u8.read_SomeD)
qed (auto simp: DecodeErrorMessage_def ByteReader_reader_at read_write server_error.of_to)

definition welcome_bytes :: "game_server_welcome \<Rightarrow> byte list" where
  "welcome_bytes v = le_bytes 8 (idval (gw_match v)) @ le_bytes 4 (idval (gw_player v))
     @ le_bytes 4 (idval (gw_actor v)) @ le_bytes 2 (gw_tickRate v) @ le_bytes 2 (gw_snapshotRate v)
     @ le_bytes 4 (gw_mapId v) @ le_bytes 4 (gw_navMeshCrc32 v)
     @ [replication_mode_value (gw_replicationMode v)] @ idval (gw_udpToken v)"

lemma WriteWelcome_bytes: "WriteWelcome v w = w @ welcome_bytes v"
  by (simp add: WriteWelcome_def welcome_bytes_def Let_def read_write)

lemma DecodeGameWelcome_bytes:
  assumes "IsValidWelcome v" and "opaque_wf (gw_udpToken v)"
  shows "DecodeGameWelcome (welcome_bytes v) = Inr (GameServerWelcome v)"
  using assms
  by (cases v, cases "gw_match v", cases "gw_player v", cases "gw_actor v", cases "gw_udpToken v")
     (simp add: DecodeGameWelcome_def welcome_bytes_def ByteReader_reader_at opaque_wf_def read_write
       replication_mode.of_to)

lemma DecodeGameWelcome_InrD:
  assumes "DecodeGameWelcome payload = Inr m"
  shows "\<exists>v. m = GameServerWelcome v \<and> IsValidWelcome v \<and> opaque_wf (gw_udpToken v)
    \<and> payload = welcome_bytes v"
  using assms
  by (auto simp: DecodeGameWelcome_def welcome_bytes_def ByteReader_reader_at Let_def opaque_wf_def
      replication_mode.of_wire_iff
    split: prod.splits option.splits if_splits
    dest!: u64.read_SomeD u32.read_SomeD u16.read_SomeD u8.read_SomeD raw.read_SomeD)

fun canon_game :: "game_server_message \<Rightarrow> game_server_message" where
  "canon_game (GameMatchResult g) =
     GameMatchResult (if gm_hasWinner g then g else g\<lparr>gm_winner := EntityId 0\<rparr>)"
| "canon_game m = m"

fun game_wf :: "game_server_message \<Rightarrow> bool" where
  "game_wf (GameServerWelcome v) = opaque_wf (gw_udpToken v)"
| "game_wf _ = True"

lemma DecodeResult_bytes:
  "IsValidResult g \<Longrightarrow> DecodeResult (finished_bytes (completion_of g)) = Inr (canon_game (GameMatchResult g))"
  by (cases g, cases "gm_match g", cases "gm_winner g")
     (auto simp: completion_of_def finished_bytes_record DecodeResult_def ByteReader_reader_at
       read_write completion_reason.of_to Let_def IsValidResult_def)

lemma DecodeGameServerMessage_Encode:
  assumes "game_wf m" and "EncodeGameServerMessage m = Inr e"
  shows "DecodeGameServerMessage (em_type e) (em_payload e) = Inr (canon_game m)"
  using assms
  by (cases m)
     (auto simp: EncodePayload_def WriteWelcome_bytes DecodeGameWelcome_bytes WriteResult_bytes
       DecodeResult_bytes DecodeErrorMessage_iff read_write split: if_splits)

lemma EncodeGameServerMessage_Decode:
  "DecodeGameServerMessage t payload = Inr m \<Longrightarrow>
     game_wf m \<and> EncodeGameServerMessage m = Inr \<lparr>em_type = t, em_payload = payload\<rparr>"
  by (cases t)
     (auto simp: EncodePayload_def WriteWelcome_bytes WriteResult_bytes DecodeErrorMessage_iff read_write
       dest!: DecodeGameWelcome_InrD DecodeResult_InrD)

interpretation game_codec: strict_codec EncodeGameServerMessage
    "\<lambda>e. DecodeGameServerMessage (em_type e) (em_payload e)" canon_game game_wf
proof
  fix m e assume "game_wf m" "EncodeGameServerMessage m = Inr e"
  then show "DecodeGameServerMessage (em_type e) (em_payload e) = Inr (canon_game m)"
    by (rule DecodeGameServerMessage_Encode)
next
  fix e :: encoded_message and m assume "DecodeGameServerMessage (em_type e) (em_payload e) = Inr m"
  from EncodeGameServerMessage_Decode [OF this]
  show "game_wf m \<and> EncodeGameServerMessage m = Inr e" by simp
qed

end
