(* ===== verification/GameUdpCodec.thy ===== *)
theory GameUdpCodec
  imports LobbyCodec
begin

text \<open>
  protocol/src/GameUdpCodec.cpp with GameUdpMessages.hpp: the datagrams between a client and
  its game server, and how a snapshot is cut into fragments. Both decoders accept nothing
  but what the encoders write.
\<close>

section \<open>Constants and messages\<close>

definition UdpHeaderBytes :: nat where "UdpHeaderBytes = 10"
definition MaxUdpDatagramBytes :: nat where "MaxUdpDatagramBytes = 1200"
definition MaxSnapshotFragmentPayloadBytes :: nat where "MaxSnapshotFragmentPayloadBytes = 1158"
definition MaxSnapshotFragments :: nat where "MaxSnapshotFragments = 32"
definition MaxSnapshotPayloadBytes :: nat where "MaxSnapshotPayloadBytes = 37056"

lemmas udp_constants = UdpHeaderBytes_def MaxUdpDatagramBytes_def
  MaxSnapshotFragmentPayloadBytes_def MaxSnapshotFragments_def MaxSnapshotPayloadBytes_def
  ProtocolVersion_def MatchTicketBytes_def

datatype udp_datagram_type = Bind | BindAccepted | ClientInputType | SnapshotFragmentType

fun udp_type_value :: "udp_datagram_type \<Rightarrow> u8" where
  "udp_type_value Bind = 1"
| "udp_type_value BindAccepted = 2"
| "udp_type_value ClientInputType = 3"
| "udp_type_value SnapshotFragmentType = 4"

text \<open>The cast to \<^verbatim>\<open>UdpDatagramType\<close> with \<^verbatim>\<open>IsKnownDatagramType\<close>.\<close>

definition udp_type_of :: "u8 \<Rightarrow> udp_datagram_type option" where
  "udp_type_of = enum_of udp_type_value [Bind, BindAccepted, ClientInputType, SnapshotFragmentType]"

interpretation udp_type: wire_enum udp_type_value udp_type_of
  unfolding udp_type_of_def
proof (rule wire_enum_enum_of)
  show "inj udp_type_value"
  proof (rule injI)
    fix s t assume "udp_type_value s = udp_type_value t"
    then show "s = t" by (cases s; cases t; simp)
  qed
  show "e \<in> set [Bind, BindAccepted, ClientInputType, SnapshotFragmentType]" for e
    by (cases e) simp_all
qed

record network_vec2 =
  nv_x :: f32
  nv_z :: f32

record client_input =
  ci_match :: match_id
  ci_player :: player_id
  ci_token :: udp_session_token
  ci_inputSequence :: u32
  ci_acknowledgedSnapshotId :: u32
  ci_requestKeyframe :: bool
  ci_moveDestination :: network_vec2
  ci_hasMoveDestination :: bool
  ci_attackTarget :: entity_id
  ci_hasAttackTarget :: bool

record snapshot_fragment =
  sf_match :: match_id
  sf_snapshotId :: u32
  sf_serverTick :: u32
  sf_ackInputSequence :: u32
  sf_fragmentIndex :: u16
  sf_fragmentCount :: u16
  sf_fullPayloadBytes :: u32
  sf_fullPayloadCrc32 :: u32
  sf_bytes :: "byte list"

datatype client_datagram =
    UdpBind match_id player_id udp_session_token
  | ClientInput client_input

datatype server_datagram =
    UdpBindAccepted match_id player_id u32
  | SnapshotFragment snapshot_fragment

record encoded_datagram =
  ed_type :: udp_datagram_type
  ed_bytes :: "byte list"

section \<open>Checks\<close>

definition UdpMagic :: "byte list" where
  "UdpMagic = [0x44, 0x58, 0x55, 0x31]"

definition MoveDestinationFlag :: u8 where "MoveDestinationFlag = push_bit 0 1"
definition AttackTargetFlag :: u8 where "AttackTargetFlag = push_bit 1 1"
definition KeyframeRequestFlag :: u8 where "KeyframeRequestFlag = push_bit 2 1"

definition KnownInputFlags :: u8 where
  "KnownInputFlags = MoveDestinationFlag OR AttackTargetFlag OR KeyframeRequestFlag"

definition IsFinite :: "network_vec2 \<Rightarrow> bool" where
  "IsFinite value \<longleftrightarrow> isfinite (nv_x value) \<and> isfinite (nv_z value)"

definition IsValidInput :: "client_input \<Rightarrow> bool" where
  "IsValidInput value \<longleftrightarrow> ci_inputSequence value \<noteq> 0
     \<and> (\<not> ci_hasMoveDestination value \<or> IsFinite (ci_moveDestination value))"

definition ExpectedFragmentCount :: "nat \<Rightarrow> nat" where
  "ExpectedFragmentCount fullPayloadBytes =
     (if fullPayloadBytes = 0 then 0
      else (fullPayloadBytes + MaxSnapshotFragmentPayloadBytes - 1) div MaxSnapshotFragmentPayloadBytes)"

text \<open>\<^verbatim>\<open>IsValidFragment\<close> here and \<^verbatim>\<open>ValidFragment\<close> of SnapshotReassembler.cpp.\<close>

definition IsValidFragment :: "snapshot_fragment \<Rightarrow> bool" where
  "IsValidFragment value =
     (if sf_snapshotId value = 0
         \<or> sf_fullPayloadBytes value = 0
         \<or> MaxSnapshotPayloadBytes < unat (sf_fullPayloadBytes value)
         \<or> sf_fragmentCount value = 0
         \<or> MaxSnapshotFragments < unat (sf_fragmentCount value)
         \<or> sf_fragmentCount value \<le> sf_fragmentIndex value
      then False
      else if unat (sf_fragmentCount value) \<noteq> ExpectedFragmentCount (unat (sf_fullPayloadBytes value))
      then False
      else
        let offset = unat (sf_fragmentIndex value) * MaxSnapshotFragmentPayloadBytes
        in if unat (sf_fullPayloadBytes value) \<le> offset then False
           else length (sf_bytes value)
             = min MaxSnapshotFragmentPayloadBytes (unat (sf_fullPayloadBytes value) - offset))"

section \<open>Frames\<close>

definition EncodeFrame :: "udp_datagram_type \<Rightarrow> byte list \<Rightarrow> encoded_datagram throws" where
  "EncodeFrame type payload =
     (if MaxUdpDatagramBytes - UdpHeaderBytes < length payload \<or> 65535 < length payload
      then Inl Length_error
      else
        let w = WriteBytes UdpMagic [];
            w = WriteU16 ProtocolVersion w;
            w = WriteU8 (udp_type_value type) w;
            w = WriteU8 0 w;
            w = WriteU16 (of_nat (length payload)) w
        in Inr \<lparr>ed_type = type, ed_bytes = WriteBytes payload w\<rparr>)"

definition ParseHeader :: "byte list \<Rightarrow> decode_error + udp_datagram_type \<times> byte list" where
  "ParseHeader bytes =
     (if MaxUdpDatagramBytes < length bytes then Inl CountLimit
      else if length bytes < UdpHeaderBytes then Inl Truncated
      else if take (length UdpMagic) bytes \<noteq> UdpMagic then Inl InvalidValue
      else
        let r = ByteReader (take (UdpHeaderBytes - length UdpMagic) (drop (length UdpMagic) bytes));
            (version, r) = ReadU16 r;
            (typeValue, r) = ReadU8 r;
            (reserved, r) = ReadU8 r;
            (payloadBytes, r) = ReadU16 r
        in case (version, typeValue, reserved, payloadBytes) of
             (Some v, Some t, Some z, Some n) \<Rightarrow>
               (case udp_type_of t of
                  None \<Rightarrow> Inl InvalidValue
                | Some type \<Rightarrow>
                    if v \<noteq> ProtocolVersion \<or> z \<noteq> 0 then Inl InvalidValue
                    else if MaxUdpDatagramBytes - UdpHeaderBytes < unat n then Inl CountLimit
                    else
                      let expectedBytes = UdpHeaderBytes + unat n
                      in if length bytes < expectedBytes then Inl Truncated
                         else if expectedBytes < length bytes then Inl TrailingBytes
                         else Inr (type, take (unat n) (drop UdpHeaderBytes bytes)))
           | _ \<Rightarrow> Inl Truncated)"

section \<open>Encoders\<close>

definition WriteClientIdentity ::
    "match_id \<Rightarrow> player_id \<Rightarrow> udp_session_token \<Rightarrow> byte_writer \<Rightarrow> byte_writer" where
  "WriteClientIdentity match player token w =
     WriteBytes (idval token) (WriteU32 (idval player) (WriteU64 (idval match) w))"

definition input_flags :: "client_input \<Rightarrow> u8" where
  "input_flags value =
     (let flags = 0;
          flags = (if ci_requestKeyframe value then flags OR KeyframeRequestFlag else flags);
          flags = (if ci_hasMoveDestination value then flags OR MoveDestinationFlag else flags)
      in if ci_hasAttackTarget value then flags OR AttackTargetFlag else flags)"

definition WriteClientInput :: "client_input \<Rightarrow> byte_writer \<Rightarrow> byte_writer" where
  "WriteClientInput value w =
     (let w = WriteClientIdentity (ci_match value) (ci_player value) (ci_token value) w;
          w = WriteU32 (ci_inputSequence value) w;
          w = WriteU32 (ci_acknowledgedSnapshotId value) w;
          w = WriteU8 (input_flags value) w;
          w = (if ci_hasMoveDestination value
               then WriteF32 (nv_z (ci_moveDestination value))
                      (WriteF32 (nv_x (ci_moveDestination value)) w)
               else w)
      in if ci_hasAttackTarget value then WriteU32 (idval (ci_attackTarget value)) w else w)"

fun EncodeClientDatagram :: "client_datagram \<Rightarrow> encoded_datagram throws" where
  "EncodeClientDatagram (UdpBind match player token) =
     EncodeFrame Bind (WriteClientIdentity match player token [])"
| "EncodeClientDatagram (ClientInput value) =
     (if \<not> IsValidInput value then Inl Invalid_argument
      else EncodeFrame ClientInputType (WriteClientInput value []))"

definition WriteFragment :: "snapshot_fragment \<Rightarrow> byte_writer \<Rightarrow> byte_writer" where
  "WriteFragment value w =
     (let w = WriteU64 (idval (sf_match value)) w;
          w = WriteU32 (sf_snapshotId value) w;
          w = WriteU32 (sf_serverTick value) w;
          w = WriteU32 (sf_ackInputSequence value) w;
          w = WriteU16 (sf_fragmentIndex value) w;
          w = WriteU16 (sf_fragmentCount value) w;
          w = WriteU32 (sf_fullPayloadBytes value) w;
          w = WriteU32 (sf_fullPayloadCrc32 value) w
      in WriteBytes (sf_bytes value) w)"

fun EncodeServerDatagram :: "server_datagram \<Rightarrow> encoded_datagram throws" where
  "EncodeServerDatagram (UdpBindAccepted match player serverTick) =
     EncodeFrame BindAccepted (WriteU32 serverTick (WriteU32 (idval player) (WriteU64 (idval match) [])))"
| "EncodeServerDatagram (SnapshotFragment value) =
     (if \<not> IsValidFragment value then Inl Invalid_argument
      else EncodeFrame SnapshotFragmentType (WriteFragment value []))"

section \<open>Decoders\<close>

definition ReadClientIdentity ::
    "byte_reader \<Rightarrow> (match_id \<times> player_id \<times> udp_session_token) option \<times> byte_reader" where
  "ReadClientIdentity r =
     (let (match, r) = ReadU64 r;
          (player, r) = ReadU32 r;
          (tokenBytes, r) = ReadBytes MatchTicketBytes r
      in (case (match, player, tokenBytes) of
            (Some m, Some p, Some t) \<Rightarrow> Some (MatchId m, PlayerId p, Ident t)
          | _ \<Rightarrow> None, r))"

definition DecodeBind :: "byte list \<Rightarrow> client_datagram decode_result" where
  "DecodeBind payload =
     (let (identity, r) = ReadClientIdentity (ByteReader payload)
      in case identity of
           None \<Rightarrow> ReaderFailure r
         | Some (match, player, token) \<Rightarrow> FinishDecode r (UdpBind match player token))"

text \<open>The two optional fields of an input; each keeps its default when its flag is off.\<close>

definition ReadMoveDestination :: "bool \<Rightarrow> byte_reader \<Rightarrow> network_vec2 option \<times> byte_reader" where
  "ReadMoveDestination present r =
     (if present
      then let (x, r) = ReadF32 r;
               (z, r) = ReadF32 r
           in (case (x, z) of (Some x, Some z) \<Rightarrow> Some \<lparr>nv_x = x, nv_z = z\<rparr> | _ \<Rightarrow> None, r)
      else (Some \<lparr>nv_x = 0, nv_z = 0\<rparr>, r))"

definition ReadAttackTarget :: "bool \<Rightarrow> byte_reader \<Rightarrow> entity_id option \<times> byte_reader" where
  "ReadAttackTarget present r =
     (if present
      then let (target, r) = ReadU32 r in (map_option EntityId target, r)
      else (Some (EntityId 0), r))"

definition DecodeInput :: "byte list \<Rightarrow> client_datagram decode_result" where
  "DecodeInput payload =
     (let (identity, r) = ReadClientIdentity (ByteReader payload);
          (inputSequence, r) = ReadU32 r;
          (acknowledgedSnapshotId, r) = ReadU32 r;
          (flags, r) = ReadU8 r
      in case (identity, inputSequence, acknowledgedSnapshotId, flags) of
           (Some (match, player, token), Some sequence, Some acknowledged, Some f) \<Rightarrow>
             if f AND NOT KnownInputFlags \<noteq> 0 then Inl InvalidValue
             else
               let hasMove = (f AND MoveDestinationFlag \<noteq> 0);
                   hasAttack = (f AND AttackTargetFlag \<noteq> 0);
                   (moveDestination, r) = ReadMoveDestination hasMove r
               in (case moveDestination of
                     None \<Rightarrow> ReaderFailure r
                   | Some move \<Rightarrow>
                       let (attackTarget, r) = ReadAttackTarget hasAttack r
                       in (case attackTarget of
                             None \<Rightarrow> ReaderFailure r
                           | Some target \<Rightarrow>
                               let input = \<lparr>ci_match = match, ci_player = player, ci_token = token,
                                     ci_inputSequence = sequence,
                                     ci_acknowledgedSnapshotId = acknowledged,
                                     ci_requestKeyframe = (f AND KeyframeRequestFlag \<noteq> 0),
                                     ci_moveDestination = move, ci_hasMoveDestination = hasMove,
                                     ci_attackTarget = target, ci_hasAttackTarget = hasAttack\<rparr>
                               in if \<not> IsValidInput input then Inl InvalidValue
                                  else FinishDecode r (ClientInput input)))
         | _ \<Rightarrow> ReaderFailure r)"

definition DecodeBindAccepted :: "byte list \<Rightarrow> server_datagram decode_result" where
  "DecodeBindAccepted payload =
     (let r = ByteReader payload;
          (match, r) = ReadU64 r;
          (player, r) = ReadU32 r;
          (serverTick, r) = ReadU32 r
      in case (match, player, serverTick) of
           (Some m, Some p, Some tick) \<Rightarrow> FinishDecode r (UdpBindAccepted (MatchId m) (PlayerId p) tick)
         | _ \<Rightarrow> ReaderFailure r)"

definition DecodeFragment :: "byte list \<Rightarrow> server_datagram decode_result" where
  "DecodeFragment payload =
     (let r = ByteReader payload;
          (match, r) = ReadU64 r;
          (snapshotId, r) = ReadU32 r;
          (serverTick, r) = ReadU32 r;
          (ackInputSequence, r) = ReadU32 r;
          (fragmentIndex, r) = ReadU16 r;
          (fragmentCount, r) = ReadU16 r;
          (fullPayloadBytes, r) = ReadU32 r;
          (fullPayloadCrc32, r) = ReadU32 r
      in case (match, snapshotId, serverTick, ackInputSequence, fragmentIndex, fragmentCount,
               fullPayloadBytes, fullPayloadCrc32) of
           (Some m, Some snapshot, Some tick, Some ack, Some index, Some count, Some full, Some crc) \<Rightarrow>
             if MaxSnapshotFragments < unat count \<or> MaxSnapshotPayloadBytes < unat full
             then Inl CountLimit
             else
               let (fragmentBytes, r) = ReadBytes (Remaining r) r
               in (case fragmentBytes of
                     None \<Rightarrow> ReaderFailure r
                   | Some bytes \<Rightarrow>
                       let fragment = \<lparr>sf_match = MatchId m, sf_snapshotId = snapshot, sf_serverTick = tick,
                             sf_ackInputSequence = ack, sf_fragmentIndex = index,
                             sf_fragmentCount = count, sf_fullPayloadBytes = full,
                             sf_fullPayloadCrc32 = crc, sf_bytes = bytes\<rparr>
                       in if \<not> IsValidFragment fragment then Inl InvalidValue
                          else FinishDecode r (SnapshotFragment fragment))
         | _ \<Rightarrow> ReaderFailure r)"

definition DecodeClientDatagram :: "byte list \<Rightarrow> client_datagram decode_result" where
  "DecodeClientDatagram bytes =
     (case ParseHeader bytes of
        Inl e \<Rightarrow> Inl e
      | Inr (type, payload) \<Rightarrow>
          (case type of
             Bind \<Rightarrow> DecodeBind payload
           | ClientInputType \<Rightarrow> DecodeInput payload
           | _ \<Rightarrow> Inl InvalidValue))"

definition DecodeServerDatagram :: "byte list \<Rightarrow> server_datagram decode_result" where
  "DecodeServerDatagram bytes =
     (case ParseHeader bytes of
        Inl e \<Rightarrow> Inl e
      | Inr (type, payload) \<Rightarrow>
          (case type of
             BindAccepted \<Rightarrow> DecodeBindAccepted payload
           | SnapshotFragmentType \<Rightarrow> DecodeFragment payload
           | _ \<Rightarrow> Inl InvalidValue))"

section \<open>Cutting a snapshot\<close>

definition fragment_at ::
    "match_id \<Rightarrow> u32 \<Rightarrow> u32 \<Rightarrow> u32 \<Rightarrow> byte list \<Rightarrow> nat \<Rightarrow> snapshot_fragment" where
  "fragment_at match snapshotId serverTick ackInputSequence fullPayload index =
     (let offset = index * MaxSnapshotFragmentPayloadBytes;
          count = min MaxSnapshotFragmentPayloadBytes (length fullPayload - offset)
      in \<lparr>sf_match = match, sf_snapshotId = snapshotId, sf_serverTick = serverTick,
          sf_ackInputSequence = ackInputSequence, sf_fragmentIndex = of_nat index,
          sf_fragmentCount = of_nat (ExpectedFragmentCount (length fullPayload)),
          sf_fullPayloadBytes = of_nat (length fullPayload), sf_fullPayloadCrc32 = Crc32 fullPayload,
          sf_bytes = take count (drop offset fullPayload)\<rparr>)"

definition FragmentSnapshot ::
    "match_id \<Rightarrow> u32 \<Rightarrow> u32 \<Rightarrow> u32 \<Rightarrow> byte list \<Rightarrow> snapshot_fragment list throws" where
  "FragmentSnapshot match snapshotId serverTick ackInputSequence fullPayload =
     (if snapshotId = 0 \<or> fullPayload = [] then Inl Invalid_argument
      else if MaxSnapshotPayloadBytes < length fullPayload then Inl Length_error
      else Inr (map (fragment_at match snapshotId serverTick ackInputSequence fullPayload)
             [0..<ExpectedFragmentCount (length fullPayload)]))"

section \<open>Frames round trip\<close>

definition frame_bytes :: "udp_datagram_type \<Rightarrow> byte list \<Rightarrow> byte list" where
  "frame_bytes type payload =
     UdpMagic @ le_bytes 2 ProtocolVersion @ [udp_type_value type, 0]
     @ le_bytes 2 (of_nat (length payload) :: u16) @ payload"

lemma length_UdpMagic [simp]: "length UdpMagic = 4"
  by (simp add: UdpMagic_def)

lemma EncodeFrame_bytes:
  "EncodeFrame type payload =
     (if length payload \<le> 1190 then Inr \<lparr>ed_type = type, ed_bytes = frame_bytes type payload\<rparr>
      else Inl Length_error)"
  by (simp add: EncodeFrame_def udp_constants frame_bytes_def Let_def read_write)

lemma ParseHeader_frame:
  assumes "length payload \<le> 1190"
  shows "ParseHeader (frame_bytes type payload) = Inr (type, payload)"
proof -
  have n: "unat (of_nat (length payload) :: u16) = length payload"
    using assms by (simp add: unat_of_nat)
  let ?h = "le_bytes 2 ProtocolVersion @ [udp_type_value type, 0] @ le_bytes 2 (of_nat (length payload) :: u16)"
  have bytes: "frame_bytes type payload = UdpMagic @ ?h @ payload" by (simp add: frame_bytes_def)
  have "take 6 (drop 4 (frame_bytes type payload)) = ?h" "take 4 (frame_bytes type payload) = UdpMagic"
    "drop 10 (frame_bytes type payload) = payload" "length (frame_bytes type payload) = 10 + length payload"
    by (simp_all add: bytes)
  then show ?thesis
    using assms n
    by (simp add: ParseHeader_def udp_constants [unfolded ProtocolVersion_def] ByteReader_reader_at
      read_write udp_type.of_to)
qed

lemma ParseHeader_InrD:
  assumes "ParseHeader bytes = Inr (type, payload)"
  shows "length payload \<le> 1190 \<and> bytes = frame_bytes type payload"
proof -
  let ?h = "take 6 (drop 4 bytes)"
  have len: "10 \<le> length bytes" and magic: "take 4 bytes = UdpMagic"
    using assms by (auto simp: ParseHeader_def udp_constants split: if_splits)
  have "\<exists>t n r. ?h = le_bytes 2 ProtocolVersion @ t # 0 # le_bytes 2 (n :: u16) @ r
      \<and> udp_type_of t = Some type \<and> unat n \<le> 1190 \<and> length bytes = 10 + unat n
      \<and> payload = take (unat n) (drop 10 bytes)"
    using assms len magic
    by (auto simp: ParseHeader_def udp_constants ByteReader_reader_at Let_def not_less
      split: prod.splits option.splits if_splits dest!: u16.read_SomeD u8.read_SomeD)
      (rule exI, rule conjI, rule refl, simp)
  then obtain t n r where h: "?h = le_bytes 2 ProtocolVersion @ t # 0 # le_bytes 2 (n :: u16) @ r"
    and ok: "udp_type_of t = Some type" "unat n \<le> 1190" "length bytes = 10 + unat n"
      "payload = take (unat n) (drop 10 bytes)" by blast
  have "length ?h = 6" using len by simp
  then have r: "r = []" unfolding h by simp
  have payload: "payload = drop 10 bytes" using ok(3,4) by simp
  then have n: "n = of_nat (length payload)" using ok(3) by simp
  have d: "drop 6 (drop 4 bytes) = drop 10 bytes" by simp
  have "UdpMagic @ (le_bytes 2 ProtocolVersion @ t # 0 # le_bytes 2 n @ r) @ drop 10 bytes = bytes"
    unfolding h [symmetric] magic [symmetric] d [symmetric] by (simp only: append_take_drop_id)
  then have "frame_bytes type payload = bytes"
    unfolding frame_bytes_def n [symmetric] using r payload ok(1) udp_type.of_wire_iff by simp
  then show ?thesis using ok payload by simp
qed

section \<open>Fields\<close>

definition identity_bytes :: "match_id \<times> player_id \<times> udp_session_token \<Rightarrow> byte list" where
  "identity_bytes i = le_bytes 8 (idval (fst i)) @ le_bytes 4 (idval (fst (snd i))) @ idval (snd (snd i))"

interpretation identity: field_codec ReadClientIdentity identity_bytes "\<lambda>i. opaque_wf (snd (snd i))"
proof
  fix v :: "match_id \<times> player_id \<times> udp_session_token" and pre suf
  assume "opaque_wf (snd (snd v))"
  then show "ReadClientIdentity (reader_at pre (identity_bytes v @ suf))
      = (Some v, reader_at (pre @ identity_bytes v) suf)"
    by (cases v, cases "fst v", cases "fst (snd v)", cases "snd (snd v)")
       (simp add: ReadClientIdentity_def identity_bytes_def opaque_wf_def read_write)
next
  fix v pre suf r assume "ReadClientIdentity (reader_at pre suf) = (Some v, r)"
  then show "opaque_wf (snd (snd v)) \<and>
      (\<exists>suf'. suf = identity_bytes v @ suf' \<and> r = reader_at (pre @ identity_bytes v) suf')"
    by (auto simp: ReadClientIdentity_def identity_bytes_def opaque_wf_def
      split: prod.splits option.splits dest!: u64.read_SomeD u32.read_SomeD raw.read_SomeD)
next
  fix r :: byte_reader assume "rerror r \<noteq> DecodeNone"
  then show "ReadClientIdentity r = (None, r)"
    by (simp add: ReadClientIdentity_def read_write)
next
  fix r r' assume "ReadClientIdentity r = (None, r')"
  then show "rerror r' \<noteq> DecodeNone"
    by (auto simp: ReadClientIdentity_def read_write u32.read_failed raw.read_failed
      split: prod.splits option.splits dest!: u64.read_NoneD u32.read_NoneD raw.read_NoneD)
qed

lemmas input_flag_defs = KnownInputFlags_def MoveDestinationFlag_def AttackTargetFlag_def
  KeyframeRequestFlag_def

lemma input_flags_read [simp]:
  "input_flags v AND NOT KnownInputFlags = 0"
  "input_flags v AND MoveDestinationFlag \<noteq> 0 \<longleftrightarrow> ci_hasMoveDestination v"
  "input_flags v AND AttackTargetFlag \<noteq> 0 \<longleftrightarrow> ci_hasAttackTarget v"
  "input_flags v AND KeyframeRequestFlag \<noteq> 0 \<longleftrightarrow> ci_requestKeyframe v"
  by (cases "ci_requestKeyframe v"; cases "ci_hasMoveDestination v"; cases "ci_hasAttackTarget v";
      simp add: input_flags_def input_flag_defs Let_def)+

lemma known_flags_cases:
  assumes "f AND NOT KnownInputFlags = 0"
  shows "f \<in> {0, 1, 2, 3, 4, 5, 6, 7}"
proof -
  have "bit f i \<longrightarrow> bit KnownInputFlags i" if "i < 8" for i
    using assms that by (auto simp: bit_eq_iff bit_simps)
  then have "f = f AND 7"
    by (auto simp: bit_eq_iff bit_simps input_flag_defs)
  then have "f = take_bit 3 f" by (simp add: take_bit_eq_mask mask_eq_exp_minus_1)
  then have "unat f = unat f mod 8" by (metis unsigned_take_bit_eq take_bit_eq_mod power3_eq_cube numeral_times_numeral semiring_norm(11,13))
  then have "unat f < 8" by simp
  then have "unat f \<in> {0, 1, 2, 3, 4, 5, 6, 7}" by auto
  then have "(of_nat (unat f) :: u8) \<in> of_nat ` {0, 1, 2, 3, 4, 5, 6, 7}" by (rule imageI)
  then show ?thesis by simp
qed

lemma input_flags_rebuilt:
  assumes "f AND NOT KnownInputFlags = 0"
    and "ci_requestKeyframe v = (f AND KeyframeRequestFlag \<noteq> 0)"
    and "ci_hasMoveDestination v = (f AND MoveDestinationFlag \<noteq> 0)"
    and "ci_hasAttackTarget v = (f AND AttackTargetFlag \<noteq> 0)"
  shows "input_flags v = f"
  using known_flags_cases [OF assms(1)] assms(2-)
  by (auto simp: input_flags_def input_flag_defs Let_def)

section \<open>Client datagrams\<close>

text \<open>An absent field arrives with its default.\<close>

fun canon_client_datagram :: "client_datagram \<Rightarrow> client_datagram" where
  "canon_client_datagram (ClientInput v) = ClientInput (v\<lparr>
     ci_moveDestination := (if ci_hasMoveDestination v then ci_moveDestination v else \<lparr>nv_x = 0, nv_z = 0\<rparr>),
     ci_attackTarget := (if ci_hasAttackTarget v then ci_attackTarget v else EntityId 0)\<rparr>)"
| "canon_client_datagram d = d"

fun client_datagram_wf :: "client_datagram \<Rightarrow> bool" where
  "client_datagram_wf (UdpBind m p t) = opaque_wf t"
| "client_datagram_wf (ClientInput v) = opaque_wf (ci_token v)"

definition input_bytes :: "client_input \<Rightarrow> byte list" where
  "input_bytes v = identity_bytes (ci_match v, ci_player v, ci_token v)
     @ le_bytes 4 (ci_inputSequence v) @ le_bytes 4 (ci_acknowledgedSnapshotId v) @ [input_flags v]
     @ (if ci_hasMoveDestination v
        then le_bytes 4 (nv_x (ci_moveDestination v)) @ le_bytes 4 (nv_z (ci_moveDestination v)) else [])
     @ (if ci_hasAttackTarget v then le_bytes 4 (idval (ci_attackTarget v)) else [])"

lemma WriteClientIdentity_bytes: "WriteClientIdentity m p t w = w @ identity_bytes (m, p, t)"
  by (simp add: WriteClientIdentity_def identity_bytes_def read_write)

lemma WriteClientInput_bytes: "WriteClientInput v w = w @ input_bytes v"
  by (simp add: WriteClientInput_def input_bytes_def WriteClientIdentity_bytes Let_def read_write)

lemma length_input_bytes: "opaque_wf (ci_token v) \<Longrightarrow> length (input_bytes v) \<le> 49"
  by (simp add: input_bytes_def identity_bytes_def opaque_wf_def MatchTicketBytes_def)

lemma DecodeInput_bytes:
  assumes "IsValidInput v" and "opaque_wf (ci_token v)"
  shows "DecodeInput (input_bytes v) = Inr (canon_client_datagram (ClientInput v))"
  using assms
  by (cases v, cases "ci_moveDestination v", cases "ci_attackTarget v")
     (auto simp: DecodeInput_def input_bytes_def ByteReader_reader_at identity.read_bytes Let_def
       ReadMoveDestination_def ReadAttackTarget_def IsValidInput_def read_write)

lemma DecodeInput_InrD:
  assumes "DecodeInput payload = Inr m"
  shows "\<exists>v. m = ClientInput v \<and> IsValidInput v \<and> opaque_wf (ci_token v) \<and> payload = input_bytes v"
proof -
  have "\<exists>match player token (q :: u32) (a :: u32) f r. opaque_wf token
      \<and> payload = identity_bytes (match, player, token) @ le_bytes 4 q @ le_bytes 4 a @ f # r
      \<and> f AND NOT KnownInputFlags = 0"
    using assms
    by (auto simp: DecodeInput_def ByteReader_reader_at Let_def
      split: prod.splits option.splits if_splits
      dest!: identity.read_SomeD u32.read_SomeD u8.read_SomeD)
      blast
  then obtain match player token f r and q a :: u32 where wf: "opaque_wf token"
    and payload: "payload = identity_bytes (match, player, token) @ le_bytes 4 q @ le_bytes 4 a @ f # r"
    and known: "f AND NOT KnownInputFlags = 0"
    by blast
  let ?pre = "identity_bytes (match, player, token) @ le_bytes 4 q @ le_bytes 4 a @ [f]"
  have start: "DecodeInput payload =
     (let hasMove = (f AND MoveDestinationFlag \<noteq> 0);
          hasAttack = (f AND AttackTargetFlag \<noteq> 0);
          (moveDestination, r) = ReadMoveDestination hasMove (reader_at ?pre r)
      in (case moveDestination of
            None \<Rightarrow> ReaderFailure r
          | Some move \<Rightarrow>
              let (attackTarget, r) = ReadAttackTarget hasAttack r
              in (case attackTarget of
                    None \<Rightarrow> ReaderFailure r
                  | Some target \<Rightarrow>
                      let input = \<lparr>ci_match = match, ci_player = player, ci_token = token,
                            ci_inputSequence = q, ci_acknowledgedSnapshotId = a,
                            ci_requestKeyframe = (f AND KeyframeRequestFlag \<noteq> 0),
                            ci_moveDestination = move, ci_hasMoveDestination = hasMove,
                            ci_attackTarget = target, ci_hasAttackTarget = hasAttack\<rparr>
                      in if \<not> IsValidInput input then Inl InvalidValue
                         else FinishDecode r (ClientInput input))))"
    using wf payload known
    by (simp add: DecodeInput_def ByteReader_reader_at identity.read_bytes read_write)
  show ?thesis
    using assms input_flags_rebuilt [OF known] wf unfolding start
    by (cases "f AND MoveDestinationFlag = 0"; cases "f AND AttackTargetFlag = 0")
       (auto simp: ReadMoveDestination_def ReadAttackTarget_def Let_def payload input_bytes_def
         split: prod.splits option.splits if_splits dest!: f32.read_SomeD u32.read_SomeD)
qed

lemma DecodeBind_iff:
  "DecodeBind payload = Inr d \<longleftrightarrow>
     (\<exists>m p t. opaque_wf t \<and> d = UdpBind m p t \<and> payload = identity_bytes (m, p, t))"
proof
  assume "DecodeBind payload = Inr d"
  then show "\<exists>m p t. opaque_wf t \<and> d = UdpBind m p t \<and> payload = identity_bytes (m, p, t)"
    by (auto simp: DecodeBind_def ByteReader_reader_at split: prod.splits option.splits
      dest!: identity.read_SomeD)
qed (auto simp: DecodeBind_def ByteReader_reader_at identity.read_exact)

text \<open>The bytes a client sends, and what the server makes of bytes it receives.\<close>

definition client_datagram_bytes :: "client_datagram \<Rightarrow> byte list throws" where
  "client_datagram_bytes d = bind_throws (EncodeClientDatagram d) (\<lambda>e. Inr (ed_bytes e))"

lemma length_identity_bytes: "opaque_wf t \<Longrightarrow> length (identity_bytes (m, p, t)) = 28"
  by (simp add: identity_bytes_def opaque_wf_def MatchTicketBytes_def)

lemma client_datagram_bytes_eq:
  assumes "client_datagram_wf d"
  shows "client_datagram_bytes d =
    (case d of UdpBind m p t \<Rightarrow> Inr (frame_bytes Bind (identity_bytes (m, p, t)))
     | ClientInput v \<Rightarrow> if IsValidInput v then Inr (frame_bytes ClientInputType (input_bytes v))
         else Inl Invalid_argument)"
  using assms length_input_bytes
  by (cases d)
     (force simp: client_datagram_bytes_def EncodeFrame_bytes WriteClientIdentity_bytes
       WriteClientInput_bytes length_identity_bytes)+

lemma DecodeClientDatagram_Encode:
  assumes "client_datagram_wf d" and "client_datagram_bytes d = Inr bytes"
  shows "DecodeClientDatagram bytes = Inr (canon_client_datagram d)"
proof (cases d)
  case (UdpBind m p t)
  then show ?thesis
    using assms by (auto simp: client_datagram_bytes_eq DecodeClientDatagram_def length_identity_bytes
      ParseHeader_frame DecodeBind_iff)
next
  case (ClientInput v)
  then have v: "IsValidInput v" "opaque_wf (ci_token v)"
    and bytes: "bytes = frame_bytes ClientInputType (input_bytes v)"
    using assms by (auto simp: client_datagram_bytes_eq split: if_splits)
  have "length (input_bytes v) \<le> 1190" using length_input_bytes [OF v(2)] by simp
  then show ?thesis
    using DecodeInput_bytes [OF v] ClientInput
    by (simp add: bytes DecodeClientDatagram_def ParseHeader_frame)
qed

lemma EncodeClientDatagram_Decode:
  assumes "DecodeClientDatagram bytes = Inr d"
  shows "client_datagram_wf d \<and> client_datagram_bytes d = Inr bytes"
proof -
  obtain type payload where h: "ParseHeader bytes = Inr (type, payload)"
    using assms by (auto simp: DecodeClientDatagram_def split: sum.splits)
  have bytes: "bytes = frame_bytes type payload" using ParseHeader_InrD [OF h] by simp
  from assms consider (bind) "type = Bind" "DecodeBind payload = Inr d"
    | (input) "type = ClientInputType" "DecodeInput payload = Inr d"
    by (auto simp: DecodeClientDatagram_def h split: udp_datagram_type.splits)
  then show ?thesis
  proof cases
    case bind
    then show ?thesis by (auto simp: DecodeBind_iff bytes client_datagram_bytes_eq)
  next
    case input
    obtain v where "d = ClientInput v" "IsValidInput v" "opaque_wf (ci_token v)" "payload = input_bytes v"
      using DecodeInput_InrD [OF input(2)] by blast
    then show ?thesis by (simp add: bytes input(1) client_datagram_bytes_eq)
  qed
qed

interpretation client_datagrams: strict_codec client_datagram_bytes DecodeClientDatagram
    canon_client_datagram client_datagram_wf
  by unfold_locales (erule (1) DecodeClientDatagram_Encode, erule EncodeClientDatagram_Decode)

section \<open>Server datagrams\<close>

definition server_datagram_bytes :: "server_datagram \<Rightarrow> byte list throws" where
  "server_datagram_bytes d = bind_throws (EncodeServerDatagram d) (\<lambda>e. Inr (ed_bytes e))"

definition fragment_bytes :: "snapshot_fragment \<Rightarrow> byte list" where
  "fragment_bytes f = le_bytes 8 (idval (sf_match f)) @ le_bytes 4 (sf_snapshotId f)
     @ le_bytes 4 (sf_serverTick f) @ le_bytes 4 (sf_ackInputSequence f)
     @ le_bytes 2 (sf_fragmentIndex f) @ le_bytes 2 (sf_fragmentCount f)
     @ le_bytes 4 (sf_fullPayloadBytes f) @ le_bytes 4 (sf_fullPayloadCrc32 f) @ sf_bytes f"

lemma IsValidFragment_iff:
  "IsValidFragment f \<longleftrightarrow>
     sf_snapshotId f \<noteq> 0 \<and> 0 < unat (sf_fullPayloadBytes f) \<and> unat (sf_fullPayloadBytes f) \<le> 37056
     \<and> unat (sf_fragmentIndex f) < unat (sf_fragmentCount f)
     \<and> unat (sf_fragmentCount f) = ExpectedFragmentCount (unat (sf_fullPayloadBytes f))
     \<and> length (sf_bytes f) = min 1158 (unat (sf_fullPayloadBytes f) - unat (sf_fragmentIndex f) * 1158)"
proof -
  have count: "ExpectedFragmentCount n \<le> 32" if "n \<le> 37056" for n
    using that div_le_mono [of "1157 + n" 38213 1158] by (simp add: ExpectedFragmentCount_def udp_constants)
  have offset: "i * 1158 < n" if "i < ExpectedFragmentCount n" for i n
  proof -
    have "Suc i \<le> (n + 1157) div 1158" using that by (simp add: ExpectedFragmentCount_def udp_constants split: if_splits)
    then have "Suc i * 1158 \<le> n + 1157" by (metis div_times_less_eq_dividend le_trans mult_le_mono1)
    then show ?thesis by simp
  qed
  have zero: "w = 0 \<longleftrightarrow> unat w = 0" for w :: "'a::len word" by (simp add: unat_eq_0)
  show ?thesis
    using count [of "unat (sf_fullPayloadBytes f)"] offset [of "unat (sf_fragmentIndex f)" "unat (sf_fullPayloadBytes f)"]
    unfolding IsValidFragment_def Let_def udp_constants zero [of "sf_fullPayloadBytes f"]
      zero [of "sf_fragmentCount f"] word_le_nat_alt
    by (auto simp: not_le not_less)
qed

lemma length_fragment_bytes: "IsValidFragment f \<Longrightarrow> length (fragment_bytes f) \<le> 1190"
  by (simp add: IsValidFragment_iff fragment_bytes_def)

lemma ReadBytes_rest:
  "ReadBytes (Remaining (reader_at pre suf)) (reader_at pre suf) = (Some suf, reader_at (pre @ suf) [])"
  using raw.read_bytes [of suf "length suf" pre "[]"] by simp

lemma DecodeFragment_bytes:
  assumes "IsValidFragment f"
  shows "DecodeFragment (fragment_bytes f) = Inr (SnapshotFragment f)"
proof -
  have "unat (sf_fragmentCount f) \<le> 32" "unat (sf_fullPayloadBytes f) \<le> 37056"
    using assms by (auto simp: IsValidFragment_def udp_constants split: if_splits)
  then show ?thesis
    using assms
    by (cases f, cases "sf_match f")
       (simp add: DecodeFragment_def fragment_bytes_def ByteReader_reader_at read_write
         ReadBytes_rest udp_constants del: Remaining_reader_at)
qed

lemma DecodeFragment_InrD:
  assumes "DecodeFragment payload = Inr d"
  shows "\<exists>f. d = SnapshotFragment f \<and> IsValidFragment f \<and> payload = fragment_bytes f"
  using assms
  by (auto simp: DecodeFragment_def fragment_bytes_def ByteReader_reader_at Let_def ReadBytes_rest
    simp del: Remaining_reader_at
    split: prod.splits option.splits if_splits
    dest!: u64.read_SomeD u32.read_SomeD u16.read_SomeD)

lemma DecodeBindAccepted_iff:
  "DecodeBindAccepted payload = Inr d \<longleftrightarrow> (\<exists>m p t. d = UdpBindAccepted (MatchId m) (PlayerId p) t
     \<and> payload = le_bytes 8 m @ le_bytes 4 p @ le_bytes 4 t)"
proof
  assume "DecodeBindAccepted payload = Inr d"
  then show "\<exists>m p t. d = UdpBindAccepted (MatchId m) (PlayerId p) t
      \<and> payload = le_bytes 8 m @ le_bytes 4 p @ le_bytes 4 t"
    by (auto simp: DecodeBindAccepted_def ByteReader_reader_at split: prod.splits option.splits
      dest!: u64.read_SomeD u32.read_SomeD)
qed (auto simp: DecodeBindAccepted_def ByteReader_reader_at read_write)

lemma server_datagram_bytes_eq:
  "server_datagram_bytes d =
    (case d of UdpBindAccepted m p t \<Rightarrow>
        Inr (frame_bytes BindAccepted (le_bytes 8 (idval m) @ le_bytes 4 (idval p) @ le_bytes 4 t))
     | SnapshotFragment f \<Rightarrow> if IsValidFragment f then Inr (frame_bytes SnapshotFragmentType (fragment_bytes f))
         else Inl Invalid_argument)"
  using length_fragment_bytes
  by (cases d)
     (simp_all add: server_datagram_bytes_def EncodeFrame_bytes read_write WriteFragment_def
       fragment_bytes_def Let_def)

lemma DecodeServerDatagram_Encode:
  assumes "server_datagram_bytes d = Inr bytes"
  shows "DecodeServerDatagram bytes = Inr d"
proof (cases d)
  case (UdpBindAccepted m p t)
  then show ?thesis
    using assms by (cases m; cases p)
      (auto simp: server_datagram_bytes_eq DecodeServerDatagram_def ParseHeader_frame DecodeBindAccepted_iff)
next
  case (SnapshotFragment f)
  then show ?thesis
    using assms length_fragment_bytes
    by (auto simp: server_datagram_bytes_eq DecodeServerDatagram_def ParseHeader_frame
      DecodeFragment_bytes split: if_splits)
qed

lemma EncodeServerDatagram_Decode:
  assumes "DecodeServerDatagram bytes = Inr d"
  shows "server_datagram_bytes d = Inr bytes"
proof -
  obtain type payload where h: "ParseHeader bytes = Inr (type, payload)"
    using assms by (auto simp: DecodeServerDatagram_def split: sum.splits)
  have bytes: "bytes = frame_bytes type payload" using ParseHeader_InrD [OF h] by simp
  from assms consider (bind) "type = BindAccepted" "DecodeBindAccepted payload = Inr d"
    | (input) "type = SnapshotFragmentType" "DecodeFragment payload = Inr d"
    by (auto simp: DecodeServerDatagram_def h split: udp_datagram_type.splits)
  then show ?thesis
  proof cases
    case bind
    then show ?thesis by (auto simp: DecodeBindAccepted_iff bytes server_datagram_bytes_eq)
  next
    case input
    obtain f where "d = SnapshotFragment f" "IsValidFragment f" "payload = fragment_bytes f"
      using DecodeFragment_InrD [OF input(2)] by blast
    then show ?thesis by (simp add: bytes input(1) server_datagram_bytes_eq)
  qed
qed

interpretation server_datagrams: strict_codec server_datagram_bytes DecodeServerDatagram
    "\<lambda>d. d" "\<lambda>_. True"
  by unfold_locales
     (erule DecodeServerDatagram_Encode, rule conjI [OF TrueI], erule EncodeServerDatagram_Decode)

section \<open>The fragments of a snapshot\<close>

lemma ExpectedFragmentCount_bound: "n \<le> 37056 \<Longrightarrow> ExpectedFragmentCount n \<le> 32"
  using div_le_mono [of "1157 + n" 38213 1158] by (simp add: ExpectedFragmentCount_def udp_constants)

lemma ExpectedFragmentCount_covers: "n \<le> ExpectedFragmentCount n * 1158"
proof -
  have "(1157 + n) mod 1158 < 1158" by simp
  moreover have "(1157 + n) div 1158 * 1158 + (1157 + n) mod 1158 = 1157 + n"
    by (rule div_mult_mod_eq)
  ultimately have "n \<le> (1157 + n) div 1158 * 1158" by linarith
  then show ?thesis by (simp add: ExpectedFragmentCount_def udp_constants)
qed

lemma FragmentSnapshot_Inr:
  "FragmentSnapshot m snapshot tick ack p = Inr fs \<longleftrightarrow>
     snapshot \<noteq> 0 \<and> p \<noteq> [] \<and> length p \<le> 37056
     \<and> fs = map (fragment_at m snapshot tick ack p) [0..<ExpectedFragmentCount (length p)]"
  by (auto simp: FragmentSnapshot_def udp_constants)

lemma fragment_at_fields [simp]:
  "sf_match (fragment_at m snapshot tick ack p i) = m"
  "sf_snapshotId (fragment_at m snapshot tick ack p i) = snapshot"
  "sf_serverTick (fragment_at m snapshot tick ack p i) = tick"
  "sf_ackInputSequence (fragment_at m snapshot tick ack p i) = ack"
  "sf_fragmentIndex (fragment_at m snapshot tick ack p i) = of_nat i"
  "sf_fragmentCount (fragment_at m snapshot tick ack p i) = of_nat (ExpectedFragmentCount (length p))"
  "sf_fullPayloadBytes (fragment_at m snapshot tick ack p i) = of_nat (length p)"
  "sf_fullPayloadCrc32 (fragment_at m snapshot tick ack p i) = Crc32 p"
  "sf_bytes (fragment_at m snapshot tick ack p i) = take 1158 (drop (i * 1158) p)"
  by (simp_all add: fragment_at_def Let_def udp_constants min_def)

lemma fragment_counts:
  assumes "length p \<le> 37056" and "i < ExpectedFragmentCount (length p)"
  shows "unat (of_nat i :: u16) = i"
    and "unat (of_nat (ExpectedFragmentCount (length p)) :: u16) = ExpectedFragmentCount (length p)"
    and "unat (of_nat (length p) :: u32) = length p"
  using assms ExpectedFragmentCount_bound [OF assms(1)] by (simp_all add: unat_of_nat)

lemma fragment_at_valid:
  assumes "snapshot \<noteq> 0" and "length p \<le> 37056" and "i < ExpectedFragmentCount (length p)"
  shows "IsValidFragment (fragment_at m snapshot tick ack p i)"
proof -
  have "p \<noteq> []" using assms(3) by (auto simp: ExpectedFragmentCount_def)
  then show ?thesis
    using assms fragment_counts [OF assms(2,3)] by (simp add: IsValidFragment_iff min.commute)
qed

lemma concat_chunks: "length p \<le> n * k \<Longrightarrow> concat (map (\<lambda>i. take k (drop (i * k) p)) [0..<n]) = p"
proof (induction n arbitrary: p)
  case (Suc n)
  have "map (\<lambda>i. take k (drop (i * k) p)) [0..<Suc n] =
      take k p # map (\<lambda>i. take k (drop (i * k) (drop k p))) [0..<n]"
    by (simp add: upt_conv_Cons map_Suc_upt [symmetric] comp_def add.commute del: upt_Suc)
  then show ?case using Suc.IH [of "drop k p"] Suc.prems by simp
qed simp

lemma fragments_concat:
  "concat (map (\<lambda>i. sf_bytes (fragment_at m snapshot tick ack p i)) [0..<ExpectedFragmentCount (length p)]) = p"
  using concat_chunks [OF ExpectedFragmentCount_covers [of "length p"]] by simp

text \<open>A valid fragment travels in one datagram.\<close>

lemma fragment_datagram:
  assumes "IsValidFragment f"
  shows "\<exists>e. EncodeServerDatagram (SnapshotFragment f) = Inr e
    \<and> length (ed_bytes e) \<le> MaxUdpDatagramBytes
    \<and> DecodeServerDatagram (ed_bytes e) = Inr (SnapshotFragment f)"
proof -
  have b: "server_datagram_bytes (SnapshotFragment f) = Inr (frame_bytes SnapshotFragmentType (fragment_bytes f))"
    using assms by (simp add: server_datagram_bytes_eq)
  then obtain e where e: "EncodeServerDatagram (SnapshotFragment f) = Inr e"
    "ed_bytes e = frame_bytes SnapshotFragmentType (fragment_bytes f)"
    by (cases "EncodeServerDatagram (SnapshotFragment f)") (simp_all add: server_datagram_bytes_def)
  have "length (ed_bytes e) \<le> MaxUdpDatagramBytes"
    using length_fragment_bytes [OF assms] by (simp add: e frame_bytes_def MaxUdpDatagramBytes_def UdpMagic_def)
  with e DecodeServerDatagram_Encode [OF b] show ?thesis by simp
qed

end
