(* ===== verification/SnapshotReassembler.thy ===== *)
theory SnapshotReassembler
  imports GameUdpCodec
begin

text \<open>
  apps/game_client/src/SnapshotReassembler.cpp: a client puts the fragments of a snapshot
  together, in whatever order and however often they arrive, and delivers each snapshot at
  most once and only forward. A reassembler that was moved from is not modelled.
\<close>

record assembly =
  as_match :: match_id
  as_snapshotId :: u32
  as_serverTick :: u32
  as_ackInputSequence :: u32
  as_fragmentCount :: u16
  as_fullPayloadBytes :: u32
  as_fullPayloadCrc32 :: u32
  as_fragments :: "byte list option list"

record reassembler =
  re_highestSnapshotId :: "u32 option"
  re_active :: "assembly option"
  re_recoveryNeeded :: bool

record reassembled_payload =
  rd_snapshotId :: u32
  rd_serverTick :: u32
  rd_ackInputSequence :: u32
  rd_bytes :: "byte list"

definition SnapshotReassembler :: reassembler where
  "SnapshotReassembler =
     \<lparr>re_highestSnapshotId = None, re_active = None, re_recoveryNeeded = False\<rparr>"

definition MetadataMatches :: "snapshot_fragment \<Rightarrow> assembly \<Rightarrow> bool" where
  "MetadataMatches fragment a \<longleftrightarrow>
     as_match a = sf_match fragment \<and> as_snapshotId a = sf_snapshotId fragment
     \<and> as_serverTick a = sf_serverTick fragment
     \<and> as_ackInputSequence a = sf_ackInputSequence fragment
     \<and> as_fragmentCount a = sf_fragmentCount fragment
     \<and> as_fullPayloadBytes a = sf_fullPayloadBytes fragment
     \<and> as_fullPayloadCrc32 a = sf_fullPayloadCrc32 fragment"

definition new_assembly :: "snapshot_fragment \<Rightarrow> assembly" where
  "new_assembly fragment =
     \<lparr>as_match = sf_match fragment, as_snapshotId = sf_snapshotId fragment,
      as_serverTick = sf_serverTick fragment, as_ackInputSequence = sf_ackInputSequence fragment,
      as_fragmentCount = sf_fragmentCount fragment,
      as_fullPayloadBytes = sf_fullPayloadBytes fragment,
      as_fullPayloadCrc32 = sf_fullPayloadCrc32 fragment,
      as_fragments = replicate (unat (sf_fragmentCount fragment)) None\<rparr>"

definition Begin :: "snapshot_fragment \<Rightarrow> reassembler \<Rightarrow> reassembler" where
  "Begin fragment s = s\<lparr>re_active := Some (new_assembly fragment),
     re_highestSnapshotId := Some (sf_snapshotId fragment)\<rparr>"

definition NoteReplacement :: "u32 \<Rightarrow> reassembler \<Rightarrow> reassembler" where
  "NoteReplacement snapshotId s =
     (case re_highestSnapshotId s of
        None \<Rightarrow> s
      | Some highest \<Rightarrow>
          let skippedSnapshot = (highest < snapshotId \<and> 1 < snapshotId - highest)
          in if re_active s \<noteq> None \<or> skippedSnapshot then s\<lparr>re_recoveryNeeded := True\<rparr> else s)"

definition newer :: "u32 \<Rightarrow> reassembler \<Rightarrow> bool" where
  "newer snapshotId s \<longleftrightarrow>
     (case re_highestSnapshotId s of None \<Rightarrow> True | Some highest \<Rightarrow> highest < snapshotId)"

text \<open>The end of \<^verbatim>\<open>PushBytes\<close>: store a fragment of the snapshot being assembled, and
  deliver the snapshot when it is the last one missing.\<close>

definition store_fragment ::
    "snapshot_fragment \<Rightarrow> assembly \<Rightarrow> reassembler \<Rightarrow> reassembled_payload option \<times> reassembler" where
  "store_fragment fragment a s =
     (let index = unat (sf_fragmentIndex fragment)
      in case as_fragments a ! index of
           Some bytes \<Rightarrow>
             if bytes \<noteq> sf_bytes fragment
             then (None, s\<lparr>re_recoveryNeeded := True, re_active := None\<rparr>)
             else (None, s)
         | None \<Rightarrow>
             let a = a\<lparr>as_fragments := (as_fragments a)[index := Some (sf_bytes fragment)]\<rparr>
             in if \<not> list_all (\<lambda>bytes. bytes \<noteq> None) (as_fragments a)
                then (None, s\<lparr>re_active := Some a\<rparr>)
                else
                  let payload = concat (map the (as_fragments a));
                      s = s\<lparr>re_active := None\<rparr>
                  in if length payload \<noteq> unat (as_fullPayloadBytes a)
                        \<or> Crc32 payload \<noteq> as_fullPayloadCrc32 a
                     then (None, s\<lparr>re_recoveryNeeded := True\<rparr>)
                     else (Some \<lparr>rd_snapshotId = as_snapshotId a, rd_serverTick = as_serverTick a,
                             rd_ackInputSequence = as_ackInputSequence a, rd_bytes = payload\<rparr>, s))"

definition PushBytes ::
    "snapshot_fragment \<Rightarrow> reassembler \<Rightarrow> reassembled_payload option \<times> reassembler" where
  "PushBytes fragment s =
     (if \<not> IsValidFragment fragment then
        (if newer (sf_snapshotId fragment) s
         then (None, (NoteReplacement (sf_snapshotId fragment) s)
                 \<lparr>re_highestSnapshotId := Some (sf_snapshotId fragment), re_active := None\<rparr>)
         else (None, s))
      else if re_highestSnapshotId s \<noteq> None
              \<and> sf_snapshotId fragment < the (re_highestSnapshotId s) then (None, s)
      else if newer (sf_snapshotId fragment) s then
        store_fragment fragment (new_assembly fragment)
          (Begin fragment (NoteReplacement (sf_snapshotId fragment) s))
      else
        (case re_active s of
           None \<Rightarrow> (None, s)
         | Some a \<Rightarrow>
             if \<not> MetadataMatches fragment a
             then (None, s\<lparr>re_recoveryNeeded := True, re_active := None\<rparr>)
             else store_fragment fragment a s))"

definition TakeRecoveryNeeded :: "reassembler \<Rightarrow> bool \<times> reassembler" where
  "TakeRecoveryNeeded s = (re_recoveryNeeded s, s\<lparr>re_recoveryNeeded := False\<rparr>)"

definition Reset :: "reassembler \<Rightarrow> reassembler" where
  "Reset s = s\<lparr>re_highestSnapshotId := None, re_active := None, re_recoveryNeeded := False\<rparr>"

text \<open>What a sequence of fragments delivers.\<close>

fun push_all :: "snapshot_fragment list \<Rightarrow> reassembler \<Rightarrow> reassembled_payload list \<times> reassembler" where
  "push_all [] s = ([], s)"
| "push_all (f # fs) s =
     (let (result, s) = PushBytes f s; (results, s) = push_all fs s
      in (case result of None \<Rightarrow> results | Some p \<Rightarrow> p # results, s))"

section \<open>Any order, any repetition\<close>

text \<open>The state while the fragments of one snapshot come in: those in \<open>seen\<close> are stored,
  until all have been seen and the snapshot is delivered.\<close>

definition assembling ::
    "match_id \<Rightarrow> u32 \<Rightarrow> u32 \<Rightarrow> u32 \<Rightarrow> byte list \<Rightarrow> nat set \<Rightarrow> reassembler \<Rightarrow> bool" where
  "assembling m snapshot tick ack p seen s \<longleftrightarrow>
     re_highestSnapshotId s = Some snapshot
     \<and> re_active s =
         (if {0..<ExpectedFragmentCount (length p)} \<subseteq> seen then None
          else Some ((new_assembly (fragment_at m snapshot tick ack p 0))
            \<lparr>as_fragments := map (\<lambda>i. if i \<in> seen then Some (take 1158 (drop (i * 1158) p)) else None)
               [0..<ExpectedFragmentCount (length p)]\<rparr>))"

definition delivery :: "u32 \<Rightarrow> u32 \<Rightarrow> u32 \<Rightarrow> byte list \<Rightarrow> reassembled_payload" where
  "delivery snapshot tick ack p =
     \<lparr>rd_snapshotId = snapshot, rd_serverTick = tick, rd_ackInputSequence = ack, rd_bytes = p\<rparr>"

lemma store_fragment_assembling:
  assumes p: "length p \<le> 37056" and i: "i < ExpectedFragmentCount (length p)" "i \<notin> seen"
    and a: "a = (new_assembly (fragment_at m snapshot tick ack p 0))
      \<lparr>as_fragments := map (\<lambda>i. if i \<in> seen then Some (take 1158 (drop (i * 1158) p)) else None)
         [0..<ExpectedFragmentCount (length p)]\<rparr>"
    and s: "re_highestSnapshotId s = Some snapshot" "re_active s = Some a"
    and r: "store_fragment (fragment_at m snapshot tick ack p i) a s = (result, s')"
  shows "result = (if {0..<ExpectedFragmentCount (length p)} \<subseteq> insert i seen
      then Some (delivery snapshot tick ack p) else None)
    \<and> assembling m snapshot tick ack p (insert i seen) s'"
proof -
  let ?n = "ExpectedFragmentCount (length p)"
  let ?bytes = "\<lambda>i. take 1158 (drop (i * 1158) p)"
  let ?fs = "map (\<lambda>j. if j \<in> insert i seen then Some (?bytes j) else None) [0..<?n]"
  have n: "unat (of_nat i :: u16) = i" "unat (of_nat (length p) :: u32) = length p"
    using fragment_counts [OF p i(1)] by simp_all
  define F where "F = ?fs"
  have upd: "(as_fragments a)[i := Some (?bytes i)] = F"
    using i by (intro nth_equalityI) (auto simp: a F_def nth_list_update)
  have free: "as_fragments a ! i = None" using i by (simp add: a)
  have all: "list_all (\<lambda>b. b \<noteq> None) F \<longleftrightarrow> {0..<?n} \<subseteq> insert i seen"
    by (auto simp: F_def list_all_iff)
  have fields: "as_snapshotId a = snapshot" "as_serverTick a = tick" "as_ackInputSequence a = ack"
    "as_fullPayloadBytes a = of_nat (length p)" "as_fullPayloadCrc32 a = Crc32 p"
    by (simp_all add: a new_assembly_def)
  note step = store_fragment_def [of "fragment_at m snapshot tick ack p i" a s, unfolded Let_def
      fragment_at_fields n(1) free option.case upd]
  show ?thesis
  proof (cases "{0..<?n} \<subseteq> insert i seen")
    case True
    then have "map the F = map ?bytes [0..<?n]" by (auto simp: F_def)
    then have payload: "concat (map the F) = p"
      using concat_chunks [OF ExpectedFragmentCount_covers [of "length p"]] by metis
    have "store_fragment (fragment_at m snapshot tick ack p i) a s =
        (Some (delivery snapshot tick ack p), s\<lparr>re_active := None\<rparr>)"
      unfolding step using True all by (simp add: payload fields n(2) delivery_def)
    then show ?thesis using r True s(1) by (simp add: assembling_def)
  next
    case False
    then have "store_fragment (fragment_at m snapshot tick ack p i) a s =
        (None, s\<lparr>re_active := Some (a\<lparr>as_fragments := F\<rparr>)\<rparr>)"
      unfolding step using all by simp
    then show ?thesis using r False s(1) by (auto simp: assembling_def a F_def)
  qed
qed

lemma new_assembly_fragment_at: "new_assembly (fragment_at m snapshot tick ack p i) =
    new_assembly (fragment_at m snapshot tick ack p 0)"
  by (simp add: new_assembly_def)

text \<open>A fragment of a newer snapshot starts its assembly.\<close>

lemma PushBytes_first:
  assumes snapshot: "snapshot \<noteq> 0" and p: "length p \<le> 37056" and i: "i < ExpectedFragmentCount (length p)"
    and new: "newer snapshot s"
    and r: "PushBytes (fragment_at m snapshot tick ack p i) s = (result, s')"
  shows "result = (if {0..<ExpectedFragmentCount (length p)} \<subseteq> {i} then Some (delivery snapshot tick ack p) else None)
    \<and> assembling m snapshot tick ack p {i} s'"
proof -
  let ?f = "fragment_at m snapshot tick ack p i"
  have valid: "IsValidFragment ?f" by (rule fragment_at_valid [OF snapshot p i])
  have n: "unat (of_nat (ExpectedFragmentCount (length p)) :: u16) = ExpectedFragmentCount (length p)"
    by (rule fragment_counts [OF p i])
  have "\<not> (re_highestSnapshotId s \<noteq> None \<and> snapshot < the (re_highestSnapshotId s))"
    using new by (auto simp: newer_def)
  then have push: "store_fragment ?f (new_assembly ?f) (Begin ?f (NoteReplacement snapshot s)) = (result, s')"
    using r valid new by (auto simp: PushBytes_def split: if_splits)
  have empty: "new_assembly ?f = (new_assembly (fragment_at m snapshot tick ack p 0))
      \<lparr>as_fragments := map (\<lambda>i. if i \<in> {} then Some (take 1158 (drop (i * 1158) p)) else None)
         [0..<ExpectedFragmentCount (length p)]\<rparr>"
    by (simp add: new_assembly_def n map_replicate_const)
  show ?thesis
    by (rule store_fragment_assembling [OF p i _ empty _ _ push, of, simplified]) (simp_all add: Begin_def)
qed

text \<open>A further fragment is stored, a repeated one ignored, and after the delivery all are.\<close>

lemma PushBytes_next:
  assumes snapshot: "snapshot \<noteq> 0" and p: "length p \<le> 37056" and i: "i < ExpectedFragmentCount (length p)"
    and s: "assembling m snapshot tick ack p seen s"
    and r: "PushBytes (fragment_at m snapshot tick ack p i) s = (result, s')"
  shows "result = (if \<not> {0..<ExpectedFragmentCount (length p)} \<subseteq> seen
        \<and> {0..<ExpectedFragmentCount (length p)} \<subseteq> insert i seen
      then Some (delivery snapshot tick ack p) else None)
    \<and> assembling m snapshot tick ack p (insert i seen) s'"
proof -
  let ?f = "fragment_at m snapshot tick ack p i" and ?n = "ExpectedFragmentCount (length p)"
  let ?a = "(new_assembly (fragment_at m snapshot tick ack p 0))
      \<lparr>as_fragments := map (\<lambda>i. if i \<in> seen then Some (take 1158 (drop (i * 1158) p)) else None) [0..<?n]\<rparr>"
  have valid: "IsValidFragment ?f" by (rule fragment_at_valid [OF snapshot p i])
  have h: "re_highestSnapshotId s = Some snapshot" using s by (simp add: assembling_def)
  show ?thesis
  proof (cases "{0..<?n} \<subseteq> seen")
    case True
    then have "re_active s = None" using s by (simp add: assembling_def)
    then have "PushBytes ?f s = (None, s)" using valid h by (simp add: PushBytes_def newer_def)
    moreover have "insert i seen = seen" using True i by auto
    ultimately show ?thesis using r s True by simp
  next
    case False
    then have a: "re_active s = Some ?a" using s by (simp add: assembling_def)
    have "MetadataMatches ?f ?a" by (simp add: MetadataMatches_def new_assembly_def)
    then have push: "store_fragment ?f ?a s = (result, s')"
      using r valid h a by (simp add: PushBytes_def newer_def)
    show ?thesis
    proof (cases "i \<in> seen")
      case True
      then have "store_fragment ?f ?a s = (None, s)"
        using i fragment_counts(1) [OF p i] by (simp add: store_fragment_def)
      moreover have "insert i seen = seen" using True by auto
      ultimately show ?thesis using push s False by auto
    next
      case new: False
      show ?thesis
        using store_fragment_assembling [OF p i new refl h a push] False by simp
    qed
  qed
qed

lemma push_all_next:
  assumes snapshot: "snapshot \<noteq> 0" and p: "length p \<le> 37056"
    and "\<forall>i \<in> set is. i < ExpectedFragmentCount (length p)"
    and "assembling m snapshot tick ack p seen s"
  shows "fst (push_all (map (fragment_at m snapshot tick ack p) is) s) =
    (if \<not> {0..<ExpectedFragmentCount (length p)} \<subseteq> seen
        \<and> {0..<ExpectedFragmentCount (length p)} \<subseteq> set is \<union> seen
     then [delivery snapshot tick ack p] else [])"
  using assms(3,4)
proof (induction "is" arbitrary: seen s)
  case (Cons i "is")
  obtain result s' where r: "PushBytes (fragment_at m snapshot tick ack p i) s = (result, s')"
    by (cases "PushBytes (fragment_at m snapshot tick ack p i) s")
  have i: "i < ExpectedFragmentCount (length p)" using Cons.prems by simp
  from PushBytes_next [OF snapshot p i Cons.prems(2) r]
  have result: "result = (if \<not> {0..<ExpectedFragmentCount (length p)} \<subseteq> seen
        \<and> {0..<ExpectedFragmentCount (length p)} \<subseteq> insert i seen
      then Some (delivery snapshot tick ack p) else None)"
    and s': "assembling m snapshot tick ack p (insert i seen) s'" by simp_all
  have "\<forall>i \<in> set is. i < ExpectedFragmentCount (length p)" using Cons.prems by simp
  from Cons.IH [OF this s'] show ?case
    by (auto simp: r result case_prod_beta)
qed auto

lemma push_all_order:
  assumes snapshot: "snapshot \<noteq> 0" and p: "p \<noteq> []" "length p \<le> 37056"
    and "is": "\<forall>i \<in> set is. i < ExpectedFragmentCount (length p)"
    and new: "newer snapshot s"
  shows "fst (push_all (map (fragment_at m snapshot tick ack p) is) s) =
    (if {0..<ExpectedFragmentCount (length p)} \<subseteq> set is then [delivery snapshot tick ack p] else [])"
proof (cases "is")
  case Nil
  have "0 < ExpectedFragmentCount (length p)"
    using p ExpectedFragmentCount_covers [of "length p"] by (cases "ExpectedFragmentCount (length p)") simp_all
  then show ?thesis using Nil by auto
next
  case (Cons i "is'")
  obtain result s' where r: "PushBytes (fragment_at m snapshot tick ack p i) s = (result, s')"
    by (cases "PushBytes (fragment_at m snapshot tick ack p i) s")
  have i: "i < ExpectedFragmentCount (length p)" and is': "\<forall>i \<in> set is'. i < ExpectedFragmentCount (length p)"
    using "is" Cons by simp_all
  from PushBytes_first [OF snapshot p(2) i new r]
  have result: "result = (if {0..<ExpectedFragmentCount (length p)} \<subseteq> {i}
      then Some (delivery snapshot tick ack p) else None)"
    and s': "assembling m snapshot tick ack p {i} s'" by simp_all
  from push_all_next [OF snapshot p(2) is' s'] show ?thesis
    by (auto simp: Cons r result case_prod_beta)
qed

section \<open>Only forward\<close>

definition reassembler_inv :: "reassembler \<Rightarrow> bool" where
  "reassembler_inv s \<longleftrightarrow>
     (\<forall>a. re_active s = Some a \<longrightarrow> re_highestSnapshotId s = Some (as_snapshotId a))"

text \<open>A snapshot can still be delivered: it is newer than all seen, or the one in assembly.\<close>

definition deliverable :: "u32 \<Rightarrow> reassembler \<Rightarrow> bool" where
  "deliverable snapshot s \<longleftrightarrow>
     newer snapshot s \<or> (re_active s \<noteq> None \<and> re_highestSnapshotId s = Some snapshot)"

lemma store_fragment_forward:
  assumes "store_fragment f a s = (result, s')" and "re_active s = Some a"
    and "re_highestSnapshotId s = Some (as_snapshotId a)"
  shows "reassembler_inv s'" and "re_highestSnapshotId s' = re_highestSnapshotId s"
    and "result = Some d \<Longrightarrow> rd_snapshotId d = as_snapshotId a \<and> re_active s' = None
      \<and> rd_serverTick d = as_serverTick a \<and> rd_ackInputSequence d = as_ackInputSequence a
      \<and> length (rd_bytes d) = unat (as_fullPayloadBytes a) \<and> Crc32 (rd_bytes d) = as_fullPayloadCrc32 a"
  using assms
  by (auto simp: store_fragment_def reassembler_inv_def Let_def split: option.splits if_splits)

lemma NoteReplacement_keeps [simp]:
  "re_highestSnapshotId (NoteReplacement snapshot s) = re_highestSnapshotId s"
  "re_active (NoteReplacement snapshot s) = re_active s"
  by (auto simp: NoteReplacement_def Let_def split: option.split)

lemma PushBytes_cases:
  assumes "PushBytes f s = (result, s')"
  obtains (ignored) "result = None" "re_highestSnapshotId s' = re_highestSnapshotId s"
      "re_active s' = None \<or> re_active s' = re_active s"
    | (skipped) "result = None" "newer (sf_snapshotId f) s"
      "re_highestSnapshotId s' = Some (sf_snapshotId f)" "re_active s' = None"
    | (begun) "newer (sf_snapshotId f) s"
      "store_fragment f (new_assembly f) (Begin f (NoteReplacement (sf_snapshotId f) s)) = (result, s')"
    | (stored) a where "re_active s = Some a" "MetadataMatches f a" "store_fragment f a s = (result, s')"
  using assms ignored skipped begun stored unfolding PushBytes_def
  by (auto split: if_splits option.splits)

lemma newer_trans: "newer x s \<Longrightarrow> x \<le> y \<Longrightarrow> newer y s"
  by (auto simp: newer_def split: option.splits)

text \<open>Whatever arrives: a delivery carries what its last fragment announced, and only newer
  snapshots can be delivered after it.\<close>

lemma PushBytes_forward:
  assumes inv: "reassembler_inv s" and r: "PushBytes f s = (result, s')"
  shows "reassembler_inv s' \<and> (\<forall>x. deliverable x s' \<longrightarrow> deliverable x s)
    \<and> (\<forall>d. result = Some d \<longrightarrow> rd_snapshotId d = sf_snapshotId f
        \<and> deliverable (rd_snapshotId d) s \<and> (\<forall>x. deliverable x s' \<longrightarrow> rd_snapshotId d < x)
        \<and> rd_serverTick d = sf_serverTick f \<and> rd_ackInputSequence d = sf_ackInputSequence f
        \<and> length (rd_bytes d) = unat (sf_fullPayloadBytes f)
        \<and> Crc32 (rd_bytes d) = sf_fullPayloadCrc32 f)"
  using r
proof (cases rule: PushBytes_cases)
  case ignored
  then show ?thesis using inv
    by (cases "re_active s") (auto simp: reassembler_inv_def deliverable_def newer_def)
next
  case skipped
  then show ?thesis
    by (auto simp: reassembler_inv_def deliverable_def newer_def split: option.splits)
next
  case begun
  let ?s = "Begin f (NoteReplacement (sf_snapshotId f) s)"
  have h: "re_active ?s = Some (new_assembly f)" "re_highestSnapshotId ?s = Some (as_snapshotId (new_assembly f))"
    "as_snapshotId (new_assembly f) = sf_snapshotId f"
    by (simp_all add: Begin_def new_assembly_def)
  note forward = store_fragment_forward [OF begun(2) h(1,2)]
  have "deliverable x s" if "deliverable x s'" for x
  proof -
    have "sf_snapshotId f \<le> x" using that forward(2) h by (auto simp: deliverable_def newer_def [of _ s'])
    then show ?thesis using newer_trans [OF begun(1)] by (simp add: deliverable_def)
  qed
  moreover have "rd_snapshotId d < x" if "result = Some d" "deliverable x s'" for d x
    using that forward(2) forward(3) [of d] h by (auto simp: deliverable_def newer_def [of _ s'])
  moreover have "deliverable (sf_snapshotId f) s" using begun(1) by (simp add: deliverable_def)
  ultimately show ?thesis
    using forward(1,3) by (auto simp: new_assembly_def)
next
  case (stored a)
  have h: "re_highestSnapshotId s = Some (as_snapshotId a)" using inv stored(1) by (simp add: reassembler_inv_def)
  note forward = store_fragment_forward [OF stored(3,1) h]
  have "deliverable x s" if "deliverable x s'" for x
    using that forward(2) stored(1) h by (auto simp: deliverable_def newer_def)
  moreover have "rd_snapshotId d < x" if "result = Some d" "deliverable x s'" for d x
    using that forward(2) forward(3) [of d] h by (auto simp: deliverable_def newer_def)
  moreover have "deliverable (as_snapshotId a) s" using stored(1) h by (simp add: deliverable_def)
  ultimately show ?thesis
    using forward(1,3) stored(2) by (auto simp: MetadataMatches_def)
qed

lemma push_all_forward:
  assumes "reassembler_inv s" and "push_all fs s = (ds, s')"
  shows "sorted_wrt (<) (map rd_snapshotId ds) \<and> (\<forall>d \<in> set ds. deliverable (rd_snapshotId d) s
    \<and> (\<exists>f \<in> set fs. sf_snapshotId f = rd_snapshotId d \<and> sf_serverTick f = rd_serverTick d
        \<and> sf_ackInputSequence f = rd_ackInputSequence d
        \<and> unat (sf_fullPayloadBytes f) = length (rd_bytes d) \<and> sf_fullPayloadCrc32 f = Crc32 (rd_bytes d)))"
  using assms
proof (induction fs arbitrary: s ds s')
  case (Cons f fs)
  obtain result s1 where r: "PushBytes f s = (result, s1)" by (cases "PushBytes f s")
  obtain rest s2 where rest: "push_all fs s1 = (rest, s2)" by (cases "push_all fs s1")
  note forward = PushBytes_forward [OF Cons.prems(1) r]
  have ih: "sorted_wrt (<) (map rd_snapshotId rest) \<and> (\<forall>d \<in> set rest. deliverable (rd_snapshotId d) s1
    \<and> (\<exists>f \<in> set fs. sf_snapshotId f = rd_snapshotId d \<and> sf_serverTick f = rd_serverTick d
        \<and> sf_ackInputSequence f = rd_ackInputSequence d
        \<and> unat (sf_fullPayloadBytes f) = length (rd_bytes d) \<and> sf_fullPayloadCrc32 f = Crc32 (rd_bytes d)))"
    using Cons.IH [OF _ rest] forward by blast
  have ds: "ds = (case result of None \<Rightarrow> rest | Some p \<Rightarrow> p # rest)" using Cons.prems(2) r rest by simp
  show ?case
  proof (cases result)
    case None
    then show ?thesis using ih forward ds by auto
  next
    case (Some d)
    then show ?thesis using ih forward ds by auto
  qed
qed auto

text \<open>A snapshot that was cut into fragments, whatever arrives of them and in whatever order.\<close>

lemma push_all_fragments:
  assumes "FragmentSnapshot m snapshot tick ack p = Inr fs" and "set gs \<subseteq> set fs"
    and "case re_highestSnapshotId s of None \<Rightarrow> True | Some highest \<Rightarrow> highest < snapshot"
  shows "fst (push_all gs s) =
    (if set fs \<subseteq> set gs
     then [\<lparr>rd_snapshotId = snapshot, rd_serverTick = tick, rd_ackInputSequence = ack, rd_bytes = p\<rparr>]
     else [])"
proof -
  let ?n = "ExpectedFragmentCount (length p)" and ?f = "fragment_at m snapshot tick ack p"
  have p: "snapshot \<noteq> 0" "p \<noteq> []" "length p \<le> 37056" and fs: "fs = map ?f [0..<?n]"
    using assms(1) by (simp_all add: FragmentSnapshot_Inr)
  define ids where "ids = map (\<lambda>g. unat (sf_fragmentIndex g)) gs"
  have index: "unat (sf_fragmentIndex (?f i)) = i" if "i < ?n" for i
    using that ExpectedFragmentCount_bound [OF p(3)] by (simp add: fragment_at_def Let_def unat_of_nat)
  have "?f (unat (sf_fragmentIndex g)) = g \<and> unat (sf_fragmentIndex g) < ?n" if "g \<in> set gs" for g
    using that assms(2) index by (auto simp: fs)
  then have gs: "gs = map ?f ids" and ids: "\<forall>i \<in> set ids. i < ?n"
    by (simp_all add: ids_def map_idI)
  have "set fs \<subseteq> set gs \<longleftrightarrow> {0..<?n} \<subseteq> set ids"
  proof
    assume all: "set fs \<subseteq> set gs"
    show "{0..<?n} \<subseteq> set ids"
    proof
      fix i assume "i \<in> {0..<?n}"
      then have "?f i \<in> set gs" "unat (sf_fragmentIndex (?f i)) = i" using all index by (auto simp: fs)
      then show "i \<in> set ids" unfolding ids_def by force
    qed
  next
    assume "{0..<?n} \<subseteq> set ids"
    then show "set fs \<subseteq> set gs" unfolding fs gs by auto
  qed
  moreover have "newer snapshot s" using assms(3) by (simp add: newer_def)
  ultimately show ?thesis
    using push_all_order [OF p ids, of s m tick ack] by (simp add: delivery_def gs)
qed

end
