(* ===== verification/DatagramShaper.thy ===== *)
theory DatagramShaper
  imports Framing
begin

text \<open>
  protocol/src/DatagramShaper.cpp: the simulated network. What happens to a datagram is a
  function of the seed, the direction, the peer and the datagram's ordinal alone; durations
  are in milliseconds.
\<close>

datatype datagram_direction = ClientToServer | ServerToClient

fun direction_value :: "datagram_direction \<Rightarrow> u64" where
  "direction_value ClientToServer = 1"
| "direction_value ServerToClient = 2"

record shaper_config =
  sc_oneWayLatency :: int
  sc_jitter :: int
  sc_lossBasisPoints :: u32
  sc_seed :: u32

record shaped_decision =
  sd_drop :: bool
  sd_delay :: int

record datagram_shaper =
  ds_config :: shaper_config
  ds_direction :: datagram_direction
  ds_enabled :: bool

definition SplitMix64 :: "u64 \<Rightarrow> u64" where
  "SplitMix64 value =
     (let mixed = value + 0x9E3779B97F4A7C15;
          mixed = (mixed XOR drop_bit 30 mixed) * 0xBF58476D1CE4E5B9;
          mixed = (mixed XOR drop_bit 27 mixed) * 0x94D049BB133111EB
      in mixed XOR drop_bit 31 mixed)"

definition DatagramShaper :: "shaper_config \<Rightarrow> datagram_direction \<Rightarrow> datagram_shaper throws" where
  "DatagramShaper config direction =
     (if sc_oneWayLatency config < 0 \<or> sc_jitter config < 0
         \<or> 5000 < sc_oneWayLatency config \<or> 5000 < sc_jitter config
         \<or> 10000 < sc_lossBasisPoints config
      then Inl Invalid_argument
      else
        let enabled = (sc_oneWayLatency config \<noteq> 0 \<or> sc_jitter config \<noteq> 0
                       \<or> sc_lossBasisPoints config \<noteq> 0)
        in if enabled \<and> sc_seed config = 0 then Inl Invalid_argument
           else Inr \<lparr>ds_config = config, ds_direction = direction, ds_enabled = enabled\<rparr>)"

definition Decide :: "datagram_shaper \<Rightarrow> u64 \<Rightarrow> u64 \<Rightarrow> shaped_decision" where
  "Decide shaper peerKey ordinal =
     (if \<not> ds_enabled shaper then \<lparr>sd_drop = False, sd_delay = 0\<rparr>
      else
        let config = ds_config shaper;
            input = ucast (sc_seed config);
            input = input XOR direction_value (ds_direction shaper) * 0xD6E8FEB86659FD93;
            input = input XOR peerKey * 0xA0761D6478BD642F;
            input = input XOR ordinal * 0xE7037ED1A0B428DB;
            mixed = SplitMix64 input;
            drop = (mixed mod 10000 < ucast (sc_lossBasisPoints config));
            jitter = sc_jitter config;
            jitterSpan = (of_int (jitter * 2 + 1) :: u64);
            jitterOffset = uint (SplitMix64 mixed mod jitterSpan) - jitter
        in \<lparr>sd_drop = drop, sd_delay = max 0 (sc_oneWayLatency config + jitterOffset)\<rparr>)"

section \<open>Bounds\<close>

definition shaper_ok :: "datagram_shaper \<Rightarrow> bool" where
  "shaper_ok shaper \<longleftrightarrow> DatagramShaper (ds_config shaper) (ds_direction shaper) = Inr shaper"

lemma shaper_ok_new: "DatagramShaper config direction = Inr shaper \<Longrightarrow> shaper_ok shaper"
  by (auto simp: shaper_ok_def DatagramShaper_def Let_def split: if_splits)

lemma shaper_okD:
  assumes "shaper_ok shaper"
  shows "0 \<le> sc_oneWayLatency (ds_config shaper)" "sc_oneWayLatency (ds_config shaper) \<le> 5000"
    "0 \<le> sc_jitter (ds_config shaper)" "sc_jitter (ds_config shaper) \<le> 5000"
    "uint (sc_lossBasisPoints (ds_config shaper)) \<le> 10000"
    "\<not> ds_enabled shaper \<longleftrightarrow> sc_oneWayLatency (ds_config shaper) = 0 \<and> sc_jitter (ds_config shaper) = 0
      \<and> sc_lossBasisPoints (ds_config shaper) = 0"
  using assms
  by (cases shaper; auto simp: shaper_ok_def DatagramShaper_def Let_def word_less_def not_less
    split: if_splits)+

text \<open>A delay differs from the latency by at most the jitter, and is not negative.\<close>

lemma Decide_delay:
  assumes ok: "shaper_ok shaper"
  shows "max 0 (sc_oneWayLatency (ds_config shaper) - sc_jitter (ds_config shaper)) \<le> sd_delay (Decide shaper peer n)
    \<and> sd_delay (Decide shaper peer n) \<le> sc_oneWayLatency (ds_config shaper) + sc_jitter (ds_config shaper)"
proof (cases "ds_enabled shaper")
  case False
  then show ?thesis using shaper_okD [OF ok] by (simp add: Decide_def)
next
  case True
  let ?j = "sc_jitter (ds_config shaper)"
  note j = shaper_okD(3,4) [OF ok]
  have "uint (of_int z :: u64) = z" if "0 \<le> z" "z < 2 ^ 64" for z
    using that by (simp add: unsigned_of_int take_bit_int_eq_self)
  then have span: "uint (of_int (?j * 2 + 1) :: u64) = ?j * 2 + 1"
    by this (use j in simp_all)
  have offset: "0 \<le> uint (w mod (of_int (?j * 2 + 1) :: u64)) \<and> uint (w mod (of_int (?j * 2 + 1) :: u64)) \<le> ?j * 2" for w
    unfolding uint_mod span
    using j pos_mod_bound [of "?j * 2 + 1" "uint w"] pos_mod_sign [of "?j * 2 + 1" "uint w"] by linarith
  have "\<exists>w. sd_delay (Decide shaper peer n) = max 0 (sc_oneWayLatency (ds_config shaper)
      + (uint (w mod (of_int (?j * 2 + 1) :: u64)) - ?j))"
    using True unfolding Decide_def Let_def by auto
  then obtain w where w: "sd_delay (Decide shaper peer n) = max 0 (sc_oneWayLatency (ds_config shaper)
      + (uint (w mod (of_int (?j * 2 + 1) :: u64)) - ?j))" by blast
  show ?thesis unfolding w using offset [of w] shaper_okD(1,3) [OF ok] by linarith
qed

lemma Decide_loss:
  assumes ok: "shaper_ok shaper"
  shows "sc_lossBasisPoints (ds_config shaper) = 0 \<Longrightarrow> \<not> sd_drop (Decide shaper peer n)"
    and "sc_lossBasisPoints (ds_config shaper) = 10000 \<Longrightarrow> sd_drop (Decide shaper peer n)"
proof -
  show "\<not> sd_drop (Decide shaper peer n)" if "sc_lossBasisPoints (ds_config shaper) = 0"
    using that by (simp add: Decide_def Let_def)
  assume all: "sc_lossBasisPoints (ds_config shaper) = 10000"
  then have "ds_enabled shaper" using shaper_okD(6) [OF ok] by auto
  moreover have "w mod 10000 < (10000 :: u64)" for w :: u64
    by (simp add: word_less_def uint_mod)
  ultimately show "sd_drop (Decide shaper peer n)" using all by (simp add: Decide_def Let_def)
qed

section \<open>Different datagrams, different randomness\<close>

lemma xor_shift_inj:
  fixes x y :: "'a::len word"
  assumes "x XOR drop_bit k x = y XOR drop_bit k y" and "0 < k"
  shows "x = y"
proof (rule bit_word_eqI)
  fix n assume "n < LENGTH('a)"
  have "bit x m = bit y m" if "m < LENGTH('a)" "LENGTH('a) - m \<le> d" for d m
    using that
  proof (induction d arbitrary: m)
    case (Suc d)
    have "bit x (m + k) = bit y (m + k)"
    proof (cases "m + k < LENGTH('a)")
      case True
      then show ?thesis using Suc.IH [of "m + k"] Suc.prems assms(2) by simp
    next
      case False
      then show ?thesis using bit_imp_le_length by (metis not_le)
    qed
    moreover have "bit (x XOR drop_bit k x) m = bit (y XOR drop_bit k y) m" by (simp add: assms(1))
    ultimately show ?case by (auto simp: bit_simps add.commute)
  qed simp
  from this [OF \<open>n < LENGTH('a)\<close> order_refl] show "bit x n = bit y n" .
qed

lemma times_inverse_inj:
  fixes a b :: "'a::len word"
  assumes "b * a = 1" and "x * a = y * a"
  shows "x = y"
proof -
  have "x * a * b = y * a * b" by (simp add: assms(2))
  moreover have "z * a * b = z" for z using assms(1) by (simp add: mult.assoc mult.commute [of a b])
  ultimately show ?thesis by simp
qed

text \<open>The mixer is a permutation, and the ordinals of one peer enter it as different words.\<close>

lemma SplitMix64_inj: "SplitMix64 x = SplitMix64 y \<Longrightarrow> x = y"
proof -
  assume eq: "SplitMix64 x = SplitMix64 y"
  have a: "(0x319642B2D24D8EC3 :: u64) * 0x94D049BB133111EB = 1"
    and b: "(0x96DE1B173F119089 :: u64) * 0xBF58476D1CE4E5B9 = 1" by simp_all
  note [dest!] = times_inverse_inj [OF a] times_inverse_inj [OF b]
    xor_shift_inj [of _ 30] xor_shift_inj [of _ 27] xor_shift_inj [of _ 31]
  from eq show "x = y" unfolding SplitMix64_def Let_def by auto
qed

definition mixer_input :: "datagram_shaper \<Rightarrow> u64 \<Rightarrow> u64 \<Rightarrow> u64" where
  "mixer_input shaper peerKey ordinal =
     ((ucast (sc_seed (ds_config shaper)) XOR direction_value (ds_direction shaper) * 0xD6E8FEB86659FD93)
       XOR peerKey * 0xA0761D6478BD642F) XOR ordinal * 0xE7037ED1A0B428DB"

lemma mixer_input_ordinal: "mixer_input shaper peer m = mixer_input shaper peer n \<Longrightarrow> m = n"
proof -
  assume "mixer_input shaper peer m = mixer_input shaper peer n"
  then have "m * 0xE7037ED1A0B428DB = n * 0xE7037ED1A0B428DB"
    unfolding mixer_input_def xor_left_cancel .
  then show "m = n"
    by (rule times_inverse_inj [where b = "0x2E1B9953F3B39353", rotated]) simp
qed

lemma Decide_mixed:
  "ds_enabled shaper \<Longrightarrow> sd_drop (Decide shaper peer n) \<longleftrightarrow>
     SplitMix64 (mixer_input shaper peer n) mod 10000 < ucast (sc_lossBasisPoints (ds_config shaper))"
  by (simp add: Decide_def mixer_input_def Let_def)

end
