(* ===== verification/UdpDatagramQueue.thy ===== *)
theory UdpDatagramQueue
  imports DatagramShaper "HOL-Library.Multiset"
begin

text \<open>
  apps/game_common/src/UdpDatagramQueue.cpp: the queue that holds delayed datagrams, one
  timer per peer. The clock's reading is an argument of every operation that asks for it.
  A delivery callback is a value of type \<open>'d\<close> and calling it is an output of the
  operation. A callback may stop the queue: the parameter \<open>stops\<close> says which ones do; that a
  callback enqueues another datagram before it returns is not modelled. The
  \<^verbatim>\<open>asio\<close> timer is its armed flag, its expiry and its generation; its completion
  handler is \<open>timer_fired\<close>, with the error flag the library passes.
\<close>

record 'd queue_item =
  qi_deliveryTime :: time_point
  qi_ordinal :: u64
  qi_bytes :: "byte list"
  qi_delivery :: 'd

record 'd peer_queue =
  pq_nextOrdinal :: u64
  pq_timerGeneration :: u64
  pq_timerArmed :: bool
  pq_expiry :: time_point
  pq_items :: "'d queue_item list"

record 'd datagram_queue =
  dq_shaper :: datagram_shaper
  dq_maximumQueuedPerPeer :: nat
  dq_peers :: "(u64, 'd peer_queue) omap"
  dq_dropped :: u64
  dq_delayed :: u64
  dq_delivered :: u64
  dq_overflows :: u64
  dq_stopped :: bool

datatype enqueue_result = SentImmediately | Queued | Dropped | Overflow

definition UdpDatagramQueue ::
    "shaper_config \<Rightarrow> datagram_direction \<Rightarrow> nat \<Rightarrow> 'd datagram_queue throws" where
  "UdpDatagramQueue config direction maximum =
     bind_throws (DatagramShaper config direction) (\<lambda>shaper.
       if maximum = 0 then Inl Invalid_argument
       else Inr \<lparr>dq_shaper = shaper, dq_maximumQueuedPerPeer = maximum, dq_peers = [],
                 dq_dropped = 0, dq_delayed = 0, dq_delivered = 0, dq_overflows = 0,
                 dq_stopped = False\<rparr>)"

definition new_peer :: "'d peer_queue" where
  "new_peer = \<lparr>pq_nextOrdinal = 1, pq_timerGeneration = 0, pq_timerArmed = False, pq_expiry = 0,
     pq_items = []\<rparr>"

definition PeerFor :: "u64 \<Rightarrow> 'd datagram_queue \<Rightarrow> 'd peer_queue" where
  "PeerFor peerKey s =
     (case map_of (dq_peers s) peerKey of None \<Rightarrow> new_peer | Some peer \<Rightarrow> peer)"

definition put_peer :: "u64 \<Rightarrow> 'd peer_queue \<Rightarrow> 'd datagram_queue \<Rightarrow> 'd datagram_queue" where
  "put_peer peerKey peer s = s\<lparr>dq_peers := om_set peerKey peer (dq_peers s)\<rparr>"

definition Arm :: "bool \<Rightarrow> 'd peer_queue \<Rightarrow> 'd peer_queue" where
  "Arm stopped peer =
     (if pq_items peer = [] \<or> stopped then peer\<lparr>pq_timerArmed := False\<rparr>
      else peer\<lparr>pq_expiry := qi_deliveryTime (hd (pq_items peer)), pq_timerArmed := True,
                pq_timerGeneration := pq_timerGeneration peer + 1\<rparr>)"

definition item_less :: "'d queue_item \<Rightarrow> 'd queue_item \<Rightarrow> bool" where
  "item_less left right =
     (if qi_deliveryTime left \<noteq> qi_deliveryTime right
      then qi_deliveryTime left < qi_deliveryTime right
      else qi_ordinal left < qi_ordinal right)"

text \<open>\<^verbatim>\<open>std::upper_bound\<close> on the ordered items: the first that \<open>item\<close> is less than.\<close>

definition upper_bound :: "'d queue_item \<Rightarrow> 'd queue_item list \<Rightarrow> nat" where
  "upper_bound item items = length (takeWhile (\<lambda>x. \<not> item_less item x) items)"

definition Stop :: "'d datagram_queue \<Rightarrow> 'd datagram_queue" where
  "Stop s = (if dq_stopped s then s else s\<lparr>dq_stopped := True, dq_peers := []\<rparr>)"

text \<open>Calling a delivery callback.\<close>

definition call_delivery :: "('d \<Rightarrow> bool) \<Rightarrow> 'd \<Rightarrow> 'd datagram_queue \<Rightarrow> 'd datagram_queue" where
  "call_delivery stops delivery s = (if stops delivery then Stop s else s)"

definition queue_Enqueue ::
    "('d \<Rightarrow> bool) \<Rightarrow> time_point \<Rightarrow> u64 \<Rightarrow> byte list option \<Rightarrow> 'd option \<Rightarrow> 'd datagram_queue
      \<Rightarrow> (enqueue_result \<times> ('d \<times> byte list) list \<times> 'd datagram_queue) throws" where
  "queue_Enqueue stops now peerKey bytes delivery s =
     (if dq_stopped s then Inr (Overflow, [], s)
      else case (bytes, delivery) of
             (Some b, Some d) \<Rightarrow>
               if b = [] then Inl Invalid_argument
               else if \<not> ds_enabled (dq_shaper s) then Inr (SentImmediately, [(d, b)], call_delivery stops d s)
               else
                 let peer = PeerFor peerKey s
                 in if pq_nextOrdinal peer = 0
                    then Inr (Overflow, [], (put_peer peerKey peer s)\<lparr>dq_overflows := dq_overflows s + 1\<rparr>)
                    else
                      let ordinal = pq_nextOrdinal peer;
                          peer = peer\<lparr>pq_nextOrdinal := ordinal + 1\<rparr>;
                          s = put_peer peerKey peer s;
                          decision = Decide (dq_shaper s) peerKey ordinal
                      in if sd_drop decision
                         then Inr (Dropped, [], s\<lparr>dq_dropped := dq_dropped s + 1\<rparr>)
                         else if sd_delay decision \<le> 0
                         then Inr (SentImmediately, [(d, b)], call_delivery stops d s)
                         else if dq_maximumQueuedPerPeer s \<le> length (pq_items peer)
                         then Inr (Overflow, [], s\<lparr>dq_overflows := dq_overflows s + 1\<rparr>)
                         else
                           let item = \<lparr>qi_deliveryTime = now + sd_delay decision * nanoseconds_per_millisecond,
                                       qi_ordinal = ordinal, qi_bytes = b, qi_delivery = d\<rparr>;
                               insertion = upper_bound item (pq_items peer);
                               newFront = (insertion = 0);
                               peer = peer\<lparr>pq_items := take insertion (pq_items peer) @ item
                                             # drop insertion (pq_items peer)\<rparr>;
                               peer = (if newFront \<or> \<not> pq_timerArmed peer
                                       then Arm (dq_stopped s) peer else peer)
                           in Inr (Queued, [], (put_peer peerKey peer s)\<lparr>dq_delayed := dq_delayed s + 1\<rparr>)
           | _ \<Rightarrow> Inl Invalid_argument)"

text \<open>The loop of \<^verbatim>\<open>DeliverDue\<close> over the items that are due: once the queue is stopped,
  the rest is not delivered.\<close>

fun deliver_items ::
    "('d \<Rightarrow> bool) \<Rightarrow> 'd queue_item list \<Rightarrow> 'd datagram_queue \<Rightarrow> ('d \<times> byte list) list \<times> 'd datagram_queue" where
  "deliver_items stops [] s = ([], s)"
| "deliver_items stops (item # due) s =
     (if dq_stopped s then ([], s)
      else
        let s = call_delivery stops (qi_delivery item) s;
            s = s\<lparr>dq_delivered := dq_delivered s + 1\<rparr>;
            (out, s) = deliver_items stops due s
        in ((qi_delivery item, qi_bytes item) # out, s))"

definition DeliverDue ::
    "('d \<Rightarrow> bool) \<Rightarrow> time_point \<Rightarrow> u64 \<Rightarrow> 'd peer_queue \<Rightarrow> 'd datagram_queue
      \<Rightarrow> ('d \<times> byte list) list \<times> 'd datagram_queue" where
  "DeliverDue stops now peerKey peer s =
     (let due = takeWhile (\<lambda>item. qi_deliveryTime item \<le> now) (pq_items peer);
          peer = peer\<lparr>pq_items := dropWhile (\<lambda>item. qi_deliveryTime item \<le> now) (pq_items peer)\<rparr>;
          s = put_peer peerKey (Arm (dq_stopped s) peer) s
      in deliver_items stops due s)"

definition timer_fired ::
    "('d \<Rightarrow> bool) \<Rightarrow> time_point \<Rightarrow> u64 \<Rightarrow> u64 \<Rightarrow> bool \<Rightarrow> 'd datagram_queue \<Rightarrow> ('d \<times> byte list) list \<times> 'd datagram_queue" where
  "timer_fired stops now peerKey generation error s =
     (case map_of (dq_peers s) peerKey of
        None \<Rightarrow> ([], s)
      | Some active \<Rightarrow>
          if generation \<noteq> pq_timerGeneration active then ([], s)
          else
            let active = active\<lparr>pq_timerArmed := False\<rparr>;
                s = put_peer peerKey active s
            in if error \<or> dq_stopped s then ([], s) else DeliverDue stops now peerKey active s)"

section \<open>The invariant\<close>

text \<open>Items are ordered, within the limit, and an armed timer expires when the first is due.\<close>

definition peer_ok :: "nat \<Rightarrow> 'd peer_queue \<Rightarrow> bool" where
  "peer_ok maximum peer \<longleftrightarrow>
     sorted_wrt item_less (pq_items peer) \<and> length (pq_items peer) \<le> maximum
     \<and> (\<forall>item \<in> set (pq_items peer). pq_nextOrdinal peer = 0 \<or> qi_ordinal item < pq_nextOrdinal peer)
     \<and> (pq_items peer \<noteq> [] \<longrightarrow>
          pq_timerArmed peer \<and> pq_expiry peer = qi_deliveryTime (hd (pq_items peer)))"

definition queue_inv :: "'d datagram_queue \<Rightarrow> bool" where
  "queue_inv s \<longleftrightarrow> shaper_ok (dq_shaper s) \<and> om_wf (dq_peers s) \<and> 0 < dq_maximumQueuedPerPeer s
     \<and> (dq_stopped s \<longrightarrow> dq_peers s = [])
     \<and> (\<forall>k peer. map_of (dq_peers s) k = Some peer \<longrightarrow> peer_ok (dq_maximumQueuedPerPeer s) peer)"

lemma queue_inv_put:
  "queue_inv s \<Longrightarrow> \<not> dq_stopped s \<Longrightarrow> peer_ok (dq_maximumQueuedPerPeer s) peer \<Longrightarrow> queue_inv (put_peer k peer s)"
  by (auto simp: queue_inv_def put_peer_def)

lemma queue_inv_counters [simp]:
  "queue_inv (s\<lparr>dq_dropped := n\<rparr>) = queue_inv s" "queue_inv (s\<lparr>dq_delayed := n\<rparr>) = queue_inv s"
  "queue_inv (s\<lparr>dq_delivered := n\<rparr>) = queue_inv s" "queue_inv (s\<lparr>dq_overflows := n\<rparr>) = queue_inv s"
  by (simp_all add: queue_inv_def)

lemma queue_inv_new: "UdpDatagramQueue config direction maximum = Inr s \<Longrightarrow> queue_inv s"
  by (auto simp: UdpDatagramQueue_def queue_inv_def shaper_ok_new split: if_splits)

lemma peer_ok_new: "0 < maximum \<Longrightarrow> peer_ok maximum new_peer"
  by (simp add: peer_ok_def new_peer_def)

lemma PeerFor_ok: "queue_inv s \<Longrightarrow> peer_ok (dq_maximumQueuedPerPeer s) (PeerFor k s)"
  by (auto simp: PeerFor_def queue_inv_def peer_ok_new split: option.split)

lemma item_less_trans: "item_less x y \<Longrightarrow> item_less y z \<Longrightarrow> item_less x z"
  by (auto simp: item_less_def split: if_splits)

lemma item_less_total: "qi_ordinal x \<noteq> qi_ordinal y \<Longrightarrow> \<not> item_less x y \<Longrightarrow> item_less y x"
  by (auto simp: item_less_def split: if_splits)

text \<open>Insertion at the upper bound keeps the order.\<close>

lemma sorted_insert_upper_bound:
  assumes "sorted_wrt item_less items" and "\<forall>x \<in> set items. qi_ordinal x \<noteq> qi_ordinal item"
  shows "sorted_wrt item_less (take (upper_bound item items) items @ item # drop (upper_bound item items) items)"
  using assms
proof (induction items)
  case (Cons x items)
  show ?case
  proof (cases "item_less item x")
    case True
    then show ?thesis
      using Cons.prems(1) item_less_trans [OF True] by (simp add: upper_bound_def)
  next
    case False
    then have "item_less x item" using Cons.prems(2) item_less_total [of item x] by auto
    then show ?thesis
      using Cons False by (auto simp: upper_bound_def dest: in_set_takeD in_set_dropD)
  qed
qed (simp add: upper_bound_def)

lemma sorted_item_time: "sorted_wrt item_less items \<Longrightarrow> sorted (map qi_deliveryTime items)"
  by (induction items) (auto simp: item_less_def split: if_splits)

text \<open>In an ordered queue the due items are a prefix.\<close>

lemma sorted_takeWhile_filter:
  assumes "sorted (map f xs)"
  shows "takeWhile (\<lambda>x. f x \<le> c) xs = filter (\<lambda>x. f x \<le> c) xs
    \<and> dropWhile (\<lambda>x. f x \<le> c) xs = filter (\<lambda>x. \<not> f x \<le> c) xs"
  using assms
proof (induction xs)
  case (Cons x xs)
  show ?case
  proof (cases "f x \<le> c")
    case False
    then have "\<forall>y \<in> set xs. \<not> f y \<le> c" using Cons.prems by (auto dest: order.trans)
    then show ?thesis using False by (auto simp: filter_empty_conv intro!: sym [OF filter_True])
  qed (use Cons in simp)
qed simp

lemma Arm_ok:
  assumes "sorted_wrt item_less (pq_items peer)" and "length (pq_items peer) \<le> maximum"
    and "\<forall>item \<in> set (pq_items peer). pq_nextOrdinal peer = 0 \<or> qi_ordinal item < pq_nextOrdinal peer"
  shows "peer_ok maximum (Arm False peer)"
  using assms by (simp add: peer_ok_def Arm_def)

section \<open>What the operations do to the waiting datagrams\<close>

text \<open>The abstract queue: the items that wait for a peer, in no order.\<close>

definition waiting :: "'d datagram_queue \<Rightarrow> u64 \<Rightarrow> 'd queue_item multiset" where
  "waiting s k = mset (pq_items (PeerFor k s))"

lemma PeerFor_put [simp]: "PeerFor j (put_peer k peer s) = (if j = k then peer else PeerFor j s)"
  by (simp add: PeerFor_def put_peer_def)

lemma PeerFor_counters [simp]:
  "PeerFor k (s\<lparr>dq_dropped := n\<rparr>) = PeerFor k s" "PeerFor k (s\<lparr>dq_delayed := n\<rparr>) = PeerFor k s"
  "PeerFor k (s\<lparr>dq_delivered := n\<rparr>) = PeerFor k s" "PeerFor k (s\<lparr>dq_overflows := n\<rparr>) = PeerFor k s"
  by (simp_all add: PeerFor_def)

lemma put_peer_fields [simp]:
  "dq_shaper (put_peer k peer s) = dq_shaper s" "dq_stopped (put_peer k peer s) = dq_stopped s"
  "dq_maximumQueuedPerPeer (put_peer k peer s) = dq_maximumQueuedPerPeer s"
  by (simp_all add: put_peer_def)

lemma Arm_items [simp]: "pq_items (Arm stopped peer) = pq_items peer"
  by (simp add: Arm_def)

text \<open>A peer takes its next ordinal.\<close>

lemma peer_ok_next:
  assumes "peer_ok maximum peer" and "pq_nextOrdinal peer \<noteq> 0"
  shows "peer_ok maximum (peer\<lparr>pq_nextOrdinal := pq_nextOrdinal peer + 1\<rparr>)"
proof -
  have "n < pq_nextOrdinal peer \<Longrightarrow> pq_nextOrdinal peer + 1 = 0 \<or> n < pq_nextOrdinal peer + 1" for n
    by (metis add.commute add_eq_0_iff2 word_less_Suc_trans)
  then show ?thesis using assms by (auto simp: peer_ok_def)
qed

text \<open>A datagram joins the queue of its peer.\<close>

definition inserted :: "'d queue_item \<Rightarrow> 'd peer_queue \<Rightarrow> 'd peer_queue" where
  "inserted item peer =
     (let insertion = upper_bound item (pq_items peer);
          peer = peer\<lparr>pq_items := take insertion (pq_items peer) @ item # drop insertion (pq_items peer)\<rparr>
      in if insertion = 0 \<or> \<not> pq_timerArmed peer then Arm False peer else peer)"

lemma mset_inserted: "mset (pq_items (inserted item peer)) = add_mset item (mset (pq_items peer))"
proof -
  have "mset (xs @ item # ys) = add_mset item (mset (xs @ ys))" for xs ys by simp
  from this [of "take n (pq_items peer)" "drop n (pq_items peer)" for n]
  have "mset (take n (pq_items peer) @ item # drop n (pq_items peer)) = add_mset item (mset (pq_items peer))" for n
    by (simp only: append_take_drop_id)
  then show ?thesis by (simp add: inserted_def Let_def)
qed

lemma inserted_ok:
  assumes ok: "peer_ok maximum peer" and room: "length (pq_items peer) < maximum"
    and fresh: "\<forall>x \<in> set (pq_items peer). qi_ordinal x \<noteq> qi_ordinal item"
    and n: "pq_nextOrdinal peer = 0 \<or> qi_ordinal item < pq_nextOrdinal peer"
  shows "peer_ok maximum (inserted item peer)"
proof -
  let ?i = "upper_bound item (pq_items peer)"
  let ?items = "take ?i (pq_items peer) @ item # drop ?i (pq_items peer)"
  have i: "?i \<le> length (pq_items peer)" by (simp add: upper_bound_def length_takeWhile_le)
  have sorted: "sorted_wrt item_less ?items"
    using ok fresh by (intro sorted_insert_upper_bound) (simp_all add: peer_ok_def)
  have len: "length ?items \<le> maximum" using room i by simp
  have ords: "\<forall>x \<in> set ?items. pq_nextOrdinal peer = 0 \<or> qi_ordinal x < pq_nextOrdinal peer"
    using ok n by (auto simp: peer_ok_def dest: in_set_takeD in_set_dropD)
  show ?thesis
  proof (cases "?i = 0 \<or> \<not> pq_timerArmed peer")
    case True
    then show ?thesis
      using Arm_ok [of "peer\<lparr>pq_items := ?items\<rparr>" maximum] sorted len ords
      by (simp add: inserted_def Let_def)
  next
    case False
    then have "pq_items peer \<noteq> []" by (auto simp: upper_bound_def)
    moreover have "hd ?items = hd (pq_items peer)"
      using False i \<open>pq_items peer \<noteq> []\<close> by (simp add: hd_append hd_take)
    ultimately show ?thesis
      using False ok sorted len ords by (simp add: inserted_def Let_def peer_ok_def)
  qed
qed

lemma queue_Enqueue_eq:
  assumes "\<not> dq_stopped s" and "b \<noteq> []" and "ds_enabled (dq_shaper s)"
  shows "queue_Enqueue stops now k (Some b) (Some d) s =
    (let peer = PeerFor k s; n = pq_nextOrdinal peer; decision = Decide (dq_shaper s) k n;
         peer' = peer\<lparr>pq_nextOrdinal := n + 1\<rparr>; s' = put_peer k peer' s
     in if n = 0 then Inr (Overflow, [], (put_peer k peer s)\<lparr>dq_overflows := dq_overflows s + 1\<rparr>)
        else if sd_drop decision then Inr (Dropped, [], s'\<lparr>dq_dropped := dq_dropped s + 1\<rparr>)
        else if sd_delay decision \<le> 0 then Inr (SentImmediately, [(d, b)], call_delivery stops d s')
        else if dq_maximumQueuedPerPeer s \<le> length (pq_items peer)
        then Inr (Overflow, [], s'\<lparr>dq_overflows := dq_overflows s + 1\<rparr>)
        else Inr (Queued, [], (put_peer k (inserted \<lparr>qi_deliveryTime = now + sd_delay decision * nanoseconds_per_millisecond,
               qi_ordinal = n, qi_bytes = b, qi_delivery = d\<rparr> peer') s')\<lparr>dq_delayed := dq_delayed s + 1\<rparr>))"
  using assms by (simp add: queue_Enqueue_def inserted_def Let_def put_peer_def)

text \<open>One datagram: it waits, or it does not; if it waits, its time lies within the jitter
  of the latency.\<close>

definition due_within :: "datagram_shaper \<Rightarrow> time_point \<Rightarrow> time_point \<Rightarrow> bool" where
  "due_within shaper now t \<longleftrightarrow>
     now + (sc_oneWayLatency (ds_config shaper) - sc_jitter (ds_config shaper)) * nanoseconds_per_millisecond \<le> t
     \<and> t \<le> now + (sc_oneWayLatency (ds_config shaper) + sc_jitter (ds_config shaper)) * nanoseconds_per_millisecond"

text \<open>Stopping, and calling a delivery that may stop the queue.\<close>

lemma Stop_inv: "queue_inv s \<Longrightarrow> queue_inv (Stop s)"
  by (auto simp: Stop_def queue_inv_def)

lemma Stop_stopped [simp]: "dq_stopped (Stop s)"
  by (simp add: Stop_def)

lemma waiting_stopped: "queue_inv s \<Longrightarrow> dq_stopped s \<Longrightarrow> waiting s k = {#}"
  by (simp add: queue_inv_def waiting_def PeerFor_def new_peer_def)

lemma call_delivery_inv: "queue_inv s \<Longrightarrow> queue_inv (call_delivery stops d s)"
  by (simp add: call_delivery_def Stop_inv)

lemma call_delivery_stopped [simp]: "dq_stopped (call_delivery stops d s) \<longleftrightarrow> dq_stopped s \<or> stops d"
  by (simp add: call_delivery_def)

lemma call_delivery_goes_on [simp]: "\<not> stops d \<Longrightarrow> call_delivery stops d s = s"
  by (simp add: call_delivery_def)

lemma queue_Enqueue_refines:
  assumes inv: "queue_inv s" and run: "\<not> dq_stopped s" and b: "b \<noteq> []"
  shows "\<exists>result out s'. queue_Enqueue stops now k (Some b) (Some d) s = Inr (result, out, s') \<and> queue_inv s'
    \<and> out = (if result = SentImmediately then [(d, b)] else [])
    \<and> (dq_stopped s' \<longleftrightarrow> result = SentImmediately \<and> stops d)
    \<and> (\<not> dq_stopped s' \<longrightarrow> (\<forall>j. j \<noteq> k \<longrightarrow> waiting s' j = waiting s j)
       \<and> (if result = Queued
          then \<exists>item. qi_bytes item = b \<and> qi_delivery item = d
              \<and> due_within (dq_shaper s) now (qi_deliveryTime item) \<and> now < qi_deliveryTime item
              \<and> waiting s' k = add_mset item (waiting s k)
          else waiting s' k = waiting s k))"
proof (cases "ds_enabled (dq_shaper s)")
  case False
  then show ?thesis using assms by (simp add: queue_Enqueue_def call_delivery_inv)
next
  case True
  let ?peer = "PeerFor k s" and ?n = "pq_nextOrdinal (PeerFor k s)"
  let ?decision = "Decide (dq_shaper s) k ?n" and ?max = "dq_maximumQueuedPerPeer s"
  let ?peer' = "?peer\<lparr>pq_nextOrdinal := ?n + 1\<rparr>"
  let ?item = "\<lparr>qi_deliveryTime = now + sd_delay ?decision * nanoseconds_per_millisecond,
    qi_ordinal = ?n, qi_bytes = b, qi_delivery = d\<rparr>"
  note eq = queue_Enqueue_eq [OF run b True, of stops now k d, unfolded Let_def]
  have peer: "peer_ok ?max ?peer" by (rule PeerFor_ok [OF inv])
  show ?thesis
  proof (cases "?n = 0")
    case True
    then show ?thesis
      using queue_inv_put [OF inv run peer, of k] run by (simp add: eq waiting_def)
  next
    case n: False
    have peer': "peer_ok ?max ?peer'" by (rule peer_ok_next [OF peer n])
    have inv': "queue_inv (put_peer k ?peer' s)" by (rule queue_inv_put [OF inv run peer'])
    show ?thesis
    proof (cases "sd_drop ?decision \<or> sd_delay ?decision \<le> 0 \<or> ?max \<le> length (pq_items ?peer)")
      case True
      then show ?thesis
        using n run inv' call_delivery_inv [OF inv', of stops d] by (auto simp: eq waiting_def)
    next
      case False
      have fresh: "\<forall>x \<in> set (pq_items ?peer'). qi_ordinal x \<noteq> qi_ordinal ?item"
        using peer n by (auto simp: peer_ok_def)
      have next_n: "pq_nextOrdinal ?peer' = 0 \<or> qi_ordinal ?item < pq_nextOrdinal ?peer'"
        using n by simp (metis add.commute add_eq_0_iff2 word_less_Suc)
      have "peer_ok ?max (inserted ?item ?peer')"
        by (rule inserted_ok [OF peer' _ fresh next_n]) (use False in simp)
      then have "queue_inv (put_peer k (inserted ?item ?peer') (put_peer k ?peer' s))"
        using queue_inv_put [OF inv', of "inserted ?item ?peer'" k] run by simp
      moreover have "due_within (dq_shaper s) now (qi_deliveryTime ?item)"
        using Decide_delay [of "dq_shaper s" k ?n] inv
        by (auto simp: due_within_def queue_inv_def nanoseconds_per_millisecond_def)
      moreover have "now < qi_deliveryTime ?item"
        using False by (simp add: nanoseconds_per_millisecond_def)
      moreover have "waiting ((put_peer k (inserted ?item ?peer') (put_peer k ?peer' s))\<lparr>dq_delayed := m\<rparr>) k
          = add_mset ?item (waiting s k)" for m
        by (simp add: waiting_def mset_inserted)
      moreover have "waiting ((put_peer k (inserted ?item ?peer') (put_peer k ?peer' s))\<lparr>dq_delayed := m\<rparr>) j
          = waiting s j" if "j \<noteq> k" for m j
        using that by (simp add: waiting_def)
      ultimately show ?thesis
        using False n run by (simp add: eq)
    qed
  qed
qed

text \<open>The loop over the due items: all that come before the first that stops the queue, and that one.\<close>

lemma deliver_items_spec:
  assumes "\<not> dq_stopped s" and "deliver_items stops due s = (out, s')"
  shows "\<exists>sent lost n. due = sent @ lost \<and> out = map (\<lambda>item. (qi_delivery item, qi_bytes item)) sent
    \<and> (\<forall>item \<in> set (butlast sent). \<not> stops (qi_delivery item))
    \<and> (dq_stopped s' \<longleftrightarrow> sent \<noteq> [] \<and> stops (qi_delivery (last sent))) \<and> (lost \<noteq> [] \<longrightarrow> dq_stopped s')
    \<and> s' = (if dq_stopped s' then Stop s else s)\<lparr>dq_delivered := n\<rparr>"
  using assms
proof (induction due arbitrary: s out)
  case Nil
  then show ?case by (intro exI [of _ "[]"] exI [of _ "dq_delivered s"]) simp
next
  case (Cons item due)
  let ?s = "(call_delivery stops (qi_delivery item) s)\<lparr>dq_delivered := dq_delivered (call_delivery stops (qi_delivery item) s) + 1\<rparr>"
  obtain out1 where rest: "deliver_items stops due ?s = (out1, s')" and out: "out = (qi_delivery item, qi_bytes item) # out1"
    using Cons.prems by (auto simp: Let_def split: prod.splits)
  show ?case
  proof (cases "stops (qi_delivery item)")
    case True
    then have "out1 = []" "s' = ?s" using rest by (cases due; simp)+
    then show ?thesis
      using True out by (intro exI [of _ "[item]"] exI [of _ due] exI [of _ "dq_delivered ?s"]) (simp add: call_delivery_def)
  next
    case False
    then have "\<not> dq_stopped ?s" using Cons.prems(1) by simp
    from Cons.IH [OF this rest] obtain sent lost n where
        "due = sent @ lost" "out1 = map (\<lambda>item. (qi_delivery item, qi_bytes item)) sent"
        "\<forall>item \<in> set (butlast sent). \<not> stops (qi_delivery item)"
        "dq_stopped s' \<longleftrightarrow> sent \<noteq> [] \<and> stops (qi_delivery (last sent))" "lost \<noteq> [] \<longrightarrow> dq_stopped s'"
      and s': "s' = (if dq_stopped s' then Stop ?s else ?s)\<lparr>dq_delivered := n\<rparr>" by blast
    moreover have "s' = (if dq_stopped s' then Stop s else s)\<lparr>dq_delivered := n\<rparr>"
      by (subst s') (use False in \<open>simp add: Stop_def\<close>)
    ultimately show ?thesis
      using False out by (intro exI [of _ "item # sent"] exI [of _ lost] exI [of _ n]) auto
  qed
qed

text \<open>The timer fires: what is due is delivered, in the order of its time, up to the first delivery
  that stops the queue, and nothing else.\<close>

lemma timer_fired_refines:
  assumes inv: "queue_inv s" and fired: "timer_fired stops now k generation False s = (out, s')"
  shows "queue_inv s'
    \<and> (if (\<exists>peer. map_of (dq_peers s) k = Some peer \<and> pq_timerGeneration peer = generation)
       then \<exists>sent lost. mset (sent @ lost) = filter_mset (\<lambda>item. qi_deliveryTime item \<le> now) (waiting s k)
         \<and> sorted_wrt item_less (sent @ lost) \<and> out = map (\<lambda>item. (qi_delivery item, qi_bytes item)) sent
         \<and> (\<forall>item \<in> set (butlast sent). \<not> stops (qi_delivery item))
         \<and> (dq_stopped s' \<longleftrightarrow> sent \<noteq> [] \<and> stops (qi_delivery (last sent))) \<and> (lost \<noteq> [] \<longrightarrow> dq_stopped s')
         \<and> (\<not> dq_stopped s' \<longrightarrow> (\<forall>j. j \<noteq> k \<longrightarrow> waiting s' j = waiting s j)
              \<and> waiting s' k = filter_mset (\<lambda>item. now < qi_deliveryTime item) (waiting s k))
       else s' = s \<and> out = [])"
proof (cases "\<exists>peer. map_of (dq_peers s) k = Some peer \<and> pq_timerGeneration peer = generation")
  case False
  then have "(out, s') = ([], s)" using fired by (auto simp: timer_fired_def split: option.splits if_splits)
  then show ?thesis using inv False by auto
next
  case True
  then obtain peer where peer: "map_of (dq_peers s) k = Some peer" "pq_timerGeneration peer = generation" by blast
  have run: "\<not> dq_stopped s" using inv peer by (auto simp: queue_inv_def)
  have ok: "peer_ok (dq_maximumQueuedPerPeer s) peer" using inv peer by (auto simp: queue_inv_def)
  have this_peer: "PeerFor k s = peer" by (simp add: PeerFor_def peer)
  have "sorted (map qi_deliveryTime (pq_items peer))"
    using ok by (auto simp: peer_ok_def intro: sorted_item_time)
  note split = sorted_takeWhile_filter [OF this, of now]
  let ?due = "filter (\<lambda>item. qi_deliveryTime item \<le> now) (pq_items peer)"
  let ?rest = "filter (\<lambda>item. \<not> qi_deliveryTime item \<le> now) (pq_items peer)"
  let ?peer = "Arm False (peer\<lparr>pq_timerArmed := False, pq_items := ?rest\<rparr>)"
  let ?s = "put_peer k ?peer (put_peer k (peer\<lparr>pq_timerArmed := False\<rparr>) s)"
  have loop: "deliver_items stops ?due ?s = (out, s')"
    using fired peer run split by (auto simp: timer_fired_def DeliverDue_def Let_def)
  have "\<not> dq_stopped ?s" using run by simp
  from deliver_items_spec [OF this loop] obtain sent lost n where
      sent: "?due = sent @ lost" "out = map (\<lambda>item. (qi_delivery item, qi_bytes item)) sent"
        "\<forall>item \<in> set (butlast sent). \<not> stops (qi_delivery item)"
        "dq_stopped s' \<longleftrightarrow> sent \<noteq> [] \<and> stops (qi_delivery (last sent))" "lost \<noteq> [] \<longrightarrow> dq_stopped s'"
    and s': "s' = (if dq_stopped s' then Stop ?s else ?s)\<lparr>dq_delivered := n\<rparr>" by blast
  have "peer_ok (dq_maximumQueuedPerPeer s) ?peer"
    using ok
    by (intro Arm_ok) (auto simp: peer_ok_def sorted_wrt_filter intro: le_trans [OF length_filter_le])
  then have inv': "queue_inv ?s"
    using inv run by (auto simp: queue_inv_def put_peer_def)
  have "queue_inv s'" by (subst s') (use inv' Stop_inv [OF inv'] in simp)
  moreover have "sorted_wrt item_less (sent @ lost)"
    unfolding sent(1) [symmetric] using ok by (simp add: peer_ok_def sorted_wrt_filter)
  moreover have "mset (sent @ lost) = filter_mset (\<lambda>item. qi_deliveryTime item \<le> now) (waiting s k)"
    unfolding sent(1) [symmetric] by (simp add: waiting_def this_peer)
  moreover have "waiting s' j = (if j = k then filter_mset (\<lambda>item. now < qi_deliveryTime item) (waiting s k)
      else waiting s j)" if "\<not> dq_stopped s'" for j
    by (subst s') (use that in \<open>simp add: waiting_def this_peer not_le\<close>)
  ultimately have "queue_inv s' \<and> (\<exists>sent lost. mset (sent @ lost) = filter_mset (\<lambda>item. qi_deliveryTime item \<le> now) (waiting s k)
         \<and> sorted_wrt item_less (sent @ lost) \<and> out = map (\<lambda>item. (qi_delivery item, qi_bytes item)) sent
         \<and> (\<forall>item \<in> set (butlast sent). \<not> stops (qi_delivery item))
         \<and> (dq_stopped s' \<longleftrightarrow> sent \<noteq> [] \<and> stops (qi_delivery (last sent))) \<and> (lost \<noteq> [] \<longrightarrow> dq_stopped s')
         \<and> (\<not> dq_stopped s' \<longrightarrow> (\<forall>j. j \<noteq> k \<longrightarrow> waiting s' j = waiting s j)
              \<and> waiting s' k = filter_mset (\<lambda>item. now < qi_deliveryTime item) (waiting s k)))"
    using sent(2-5) by (intro conjI exI [of _ sent] exI [of _ lost]) simp_all
  then show ?thesis unfolding if_P [OF True] .
qed

section \<open>Runs\<close>

text \<open>Everything that can happen to a queue, and what has been accepted and delivered for every peer.\<close>

datatype 'd queue_event =
    Enqueuing time_point u64 "byte list" 'd
  | Firing time_point u64 u64
  | Stopping

record 'd queue_ledger =
  lg_queue :: "'d datagram_queue"
  lg_accepted :: "u64 \<Rightarrow> ('d \<times> byte list) multiset"
  lg_delivered :: "u64 \<Rightarrow> ('d \<times> byte list) multiset"

fun ledger_step :: "('d \<Rightarrow> bool) \<Rightarrow> 'd queue_ledger \<Rightarrow> 'd queue_event \<Rightarrow> 'd queue_ledger throws" where
  "ledger_step stops l (Enqueuing now k b d) =
     bind_throws (queue_Enqueue stops now k (Some b) (Some d) (lg_queue l)) (\<lambda>(result, out, s).
       Inr (l\<lparr>lg_queue := s,
              lg_accepted := (lg_accepted l)(k := lg_accepted l k
                + (if result = Queued \<or> result = SentImmediately then {#(d, b)#} else {#})),
              lg_delivered := (lg_delivered l)(k := lg_delivered l k + mset out)\<rparr>))"
| "ledger_step stops l (Firing now k generation) =
     (let (out, s) = timer_fired stops now k generation False (lg_queue l)
      in Inr (l\<lparr>lg_queue := s, lg_delivered := (lg_delivered l)(k := lg_delivered l k + mset out)\<rparr>))"
| "ledger_step stops l Stopping = Inr (l\<lparr>lg_queue := Stop (lg_queue l)\<rparr>)"

fun not_empty :: "'d queue_ledger \<Rightarrow> 'd queue_event \<Rightarrow> bool" where
  "not_empty l (Enqueuing now k b d) = (b \<noteq> [])"
| "not_empty l (Firing now k generation) = True"
| "not_empty l Stopping = True"

definition datagram_of :: "'d queue_item \<Rightarrow> 'd \<times> byte list" where
  "datagram_of item = (qi_delivery item, qi_bytes item)"

abbreviation queued :: "'d queue_ledger \<Rightarrow> u64 \<Rightarrow> ('d \<times> byte list) multiset" where
  "queued l k \<equiv> image_mset datagram_of (waiting (lg_queue l) k)"

definition stop_delivered :: "('d \<Rightarrow> bool) \<Rightarrow> 'd queue_ledger \<Rightarrow> bool" where
  "stop_delivered stops l \<longleftrightarrow> (\<exists>k. \<exists>x \<in># lg_delivered l k. stops (fst x))"

definition ledger_inv :: "('d \<Rightarrow> bool) \<Rightarrow> 'd queue_ledger \<Rightarrow> bool" where
  "ledger_inv stops l \<longleftrightarrow> queue_inv (lg_queue l)
     \<and> (\<forall>k. if dq_stopped (lg_queue l) then lg_delivered l k \<subseteq># lg_accepted l k
            else lg_accepted l k = lg_delivered l k + queued l k)
     \<and> (stop_delivered stops l \<longrightarrow> dq_stopped (lg_queue l))"

lemma ledger_invI:
  assumes "queue_inv (lg_queue l)"
    and "\<And>k. if dq_stopped (lg_queue l) then lg_delivered l k \<subseteq># lg_accepted l k
        else lg_accepted l k = lg_delivered l k + queued l k"
    and "stop_delivered stops l \<Longrightarrow> dq_stopped (lg_queue l)"
  shows "ledger_inv stops l"
  using assms by (simp add: ledger_inv_def)

text \<open>A stopped queue stays as it is.\<close>

lemma ledger_step_stopped:
  assumes "queue_inv (lg_queue l)" and "dq_stopped (lg_queue l)"
  shows "\<exists>l'. ledger_step stops l e = Inr l' \<and> lg_queue l' = lg_queue l \<and> lg_accepted l' = lg_accepted l
    \<and> lg_delivered l' = lg_delivered l"
  using assms
  by (cases e) (auto simp: queue_Enqueue_def timer_fired_def Stop_def queue_inv_def)

text \<open>One event of a running queue.\<close>

lemma ledger_step_running:
  assumes inv: "ledger_inv stops l" and run: "\<not> dq_stopped (lg_queue l)" and e: "not_empty l e"
  shows "\<exists>l'. ledger_step stops l e = Inr l' \<and> ledger_inv stops l' \<and> (\<forall>k. lg_delivered l k \<subseteq># lg_delivered l' k)
    \<and> (dq_stopped (lg_queue l') \<longleftrightarrow> e = Stopping \<or> stop_delivered stops l')"
proof (cases e)
  case (Enqueuing now k b d)
  have q: "queue_inv (lg_queue l)" "b \<noteq> []" using inv e by (auto simp: ledger_inv_def Enqueuing)
  from queue_Enqueue_refines [OF q(1) run q(2), of stops now k d] obtain result out s' where
      eq: "queue_Enqueue stops now k (Some b) (Some d) (lg_queue l) = Inr (result, out, s')"
    and s': "queue_inv s'" and out: "out = (if result = SentImmediately then [(d, b)] else [])"
    and stopped: "dq_stopped s' \<longleftrightarrow> result = SentImmediately \<and> stops d"
    and goes_on: "\<not> dq_stopped s' \<longrightarrow> (\<forall>j. j \<noteq> k \<longrightarrow> waiting s' j = waiting (lg_queue l) j)
       \<and> (if result = Queued
          then \<exists>item. qi_bytes item = b \<and> qi_delivery item = d
              \<and> due_within (dq_shaper (lg_queue l)) now (qi_deliveryTime item) \<and> now < qi_deliveryTime item
              \<and> waiting s' k = add_mset item (waiting (lg_queue l) k)
          else waiting s' k = waiting (lg_queue l) k)"
    by blast
  have before: "lg_accepted l j = lg_delivered l j + queued l j" "\<not> stop_delivered stops l" for j
    using inv run by (simp_all add: ledger_inv_def)
  let ?l = "l\<lparr>lg_queue := s', lg_accepted := (lg_accepted l)(k := lg_accepted l k
                + (if result = Queued \<or> result = SentImmediately then {#(d, b)#} else {#})),
              lg_delivered := (lg_delivered l)(k := lg_delivered l k + mset out)\<rparr>"
  have stop: "stop_delivered stops ?l \<longleftrightarrow> result = SentImmediately \<and> stops d"
    using before(2) out unfolding stop_delivered_def by (auto split: if_splits)
  have "image_mset datagram_of (waiting s' k) + mset out = queued l k
      + (if result = Queued \<or> result = SentImmediately then {#(d, b)#} else {#})" if "\<not> dq_stopped s'"
    using goes_on that out by (auto simp: datagram_of_def split: if_splits)
  then have balance: "if dq_stopped s' then lg_delivered ?l j \<subseteq># lg_accepted ?l j
      else lg_accepted ?l j = lg_delivered ?l j + queued ?l j" for j
    using goes_on stopped before(1) [of j] out by (auto simp: add.assoc add.commute [of "mset out"])
  have "ledger_inv stops ?l"
  proof (rule ledger_invI)
    show "if dq_stopped (lg_queue ?l) then lg_delivered ?l j \<subseteq># lg_accepted ?l j
        else lg_accepted ?l j = lg_delivered ?l j + queued ?l j" for j using balance [of j] by simp
  qed (use s' stop stopped in simp_all)
  then show ?thesis using stop stopped by (simp add: Enqueuing eq)
next
  case (Firing now k generation)
  obtain out s' where eq: "timer_fired stops now k generation False (lg_queue l) = (out, s')"
    by (cases "timer_fired stops now k generation False (lg_queue l)")
  have q: "queue_inv (lg_queue l)" using inv by (simp add: ledger_inv_def)
  have before: "lg_accepted l j = lg_delivered l j + queued l j" "\<not> stop_delivered stops l" for j
    using inv run by (simp_all add: ledger_inv_def)
  note fired = timer_fired_refines [OF q eq]
  let ?l = "l\<lparr>lg_queue := s', lg_delivered := (lg_delivered l)(k := lg_delivered l k + mset out)\<rparr>"
  show ?thesis
  proof (cases "\<exists>peer. map_of (dq_peers (lg_queue l)) k = Some peer \<and> pq_timerGeneration peer = generation")
    case False
    then have "s' = lg_queue l" "out = []" using fired by auto
    then have "?l = l" by simp
    then show ?thesis using inv run before(2) eq \<open>out = []\<close> \<open>s' = lg_queue l\<close>
      by (simp add: Firing stop_delivered_def)
  next
    case True
    let ?w = "waiting (lg_queue l) k"
    obtain sent lost where due: "mset (sent @ lost) = filter_mset (\<lambda>item. qi_deliveryTime item \<le> now) ?w"
        "out = map (\<lambda>item. (qi_delivery item, qi_bytes item)) sent"
        "\<forall>item \<in> set (butlast sent). \<not> stops (qi_delivery item)"
        "dq_stopped s' \<longleftrightarrow> sent \<noteq> [] \<and> stops (qi_delivery (last sent))" "lost \<noteq> [] \<longrightarrow> dq_stopped s'"
      and goes_on: "\<not> dq_stopped s' \<longrightarrow> (\<forall>j. j \<noteq> k \<longrightarrow> waiting s' j = waiting (lg_queue l) j)
              \<and> waiting s' k = filter_mset (\<lambda>item. now < qi_deliveryTime item) ?w"
      and s': "queue_inv s'"
      using fired unfolding if_P [OF True] by blast
    have out: "mset out = image_mset datagram_of (mset sent)" by (simp add: due(2) datagram_of_def [abs_def])
    have parts: "?w = filter_mset (\<lambda>item. now < qi_deliveryTime item) ?w + (mset sent + mset lost)"
      using multiset_partition [of ?w "\<lambda>item. now < qi_deliveryTime item"] due(1) by (simp add: not_less)
    have "mset out \<subseteq># queued l k"
      unfolding out by (rule image_mset_subseteq_mono) (subst parts, simp add: subset_mset.le_iff_add ac_simps)
    moreover have "image_mset datagram_of (waiting s' k) + mset out = queued l k" if "\<not> dq_stopped s'"
      unfolding out by (subst parts) (use goes_on that due(5) in simp)
    ultimately have balance: "if dq_stopped s' then lg_delivered ?l j \<subseteq># lg_accepted ?l j
        else lg_accepted ?l j = lg_delivered ?l j + queued ?l j" for j
      using goes_on before(1) [of j] by (auto simp: add.assoc add.commute [of "mset out"])
    have "set sent = set (butlast sent) \<union> {last sent}" if "sent \<noteq> []"
      using that by (metis append_butlast_last_id list.set(1,2) set_append)
    then have "(\<exists>item \<in> set sent. stops (qi_delivery item)) \<longleftrightarrow> dq_stopped s'"
      using due(3,4) by (cases "sent = []") auto
    moreover have "(\<exists>x \<in># mset out. stops (fst x)) \<longleftrightarrow> (\<exists>item \<in> set sent. stops (qi_delivery item))"
      by (simp add: due(2))
    moreover have "stop_delivered stops ?l \<longleftrightarrow> stop_delivered stops l \<or> (\<exists>x \<in># mset out. stops (fst x))"
      unfolding stop_delivered_def by (auto split: if_splits)
    ultimately have stop: "stop_delivered stops ?l \<longleftrightarrow> dq_stopped s'" using before(2) by blast
    have "ledger_inv stops ?l"
    proof (rule ledger_invI)
      show "if dq_stopped (lg_queue ?l) then lg_delivered ?l j \<subseteq># lg_accepted ?l j
          else lg_accepted ?l j = lg_delivered ?l j + queued ?l j" for j using balance [of j] by simp
    qed (use s' stop in simp_all)
    then show ?thesis using stop by (simp add: Firing eq)
  qed
next
  case Stopping
  have before: "lg_accepted l j = lg_delivered l j + queued l j" "\<not> stop_delivered stops l" "queue_inv (lg_queue l)" for j
    using inv run by (simp_all add: ledger_inv_def)
  then show ?thesis by (simp add: Stopping ledger_inv_def Stop_inv stop_delivered_def)
qed

lemma ledger_step_inv:
  assumes inv: "ledger_inv stops l" and e: "not_empty l e"
  shows "\<exists>l'. ledger_step stops l e = Inr l' \<and> ledger_inv stops l' \<and> (\<forall>k. lg_delivered l k \<subseteq># lg_delivered l' k)
    \<and> (dq_stopped (lg_queue l') \<longleftrightarrow> dq_stopped (lg_queue l) \<or> e = Stopping \<or> stop_delivered stops l')"
proof (cases "dq_stopped (lg_queue l)")
  case True
  moreover have "queue_inv (lg_queue l)" using inv by (simp add: ledger_inv_def)
  ultimately obtain l' where "ledger_step stops l e = Inr l'" "lg_queue l' = lg_queue l" "lg_accepted l' = lg_accepted l"
    "lg_delivered l' = lg_delivered l" using ledger_step_stopped by blast
  with True inv show ?thesis by (simp add: ledger_inv_def stop_delivered_def)
next
  case False
  with ledger_step_running [OF inv False e] show ?thesis by simp
qed

interpretation queue_machine: invariant_machine "ledger_step stops" "ledger_inv stops" not_empty
  for stops :: "'d \<Rightarrow> bool"
  by unfold_locales (use ledger_step_inv in blast)

text \<open>A queue is stopped by \<^verbatim>\<open>Stop\<close> or by one of its deliveries, and by nothing else.\<close>

lemma run_stopped_iff:
  assumes "run_steps (ledger_step stops) l events = Inr l'" and "ledger_inv stops l"
    and "\<And>l e. e \<in> set events \<Longrightarrow> not_empty l e"
  shows "(dq_stopped (lg_queue l') \<longleftrightarrow>
      dq_stopped (lg_queue l) \<or> Stopping \<in> set events \<or> stop_delivered stops l')
    \<and> (\<forall>k. lg_delivered l k \<subseteq># lg_delivered l' k)"
  using assms
proof (induction events arbitrary: l)
  case Nil
  then show ?case by (auto simp: ledger_inv_def)
next
  case (Cons e events)
  have "not_empty l e" using Cons.prems(3) by simp
  with ledger_step_inv [OF Cons.prems(2)] obtain l1 where l1: "ledger_step stops l e = Inr l1" "ledger_inv stops l1"
    "\<forall>k. lg_delivered l k \<subseteq># lg_delivered l1 k"
    "dq_stopped (lg_queue l1) \<longleftrightarrow> dq_stopped (lg_queue l) \<or> e = Stopping \<or> stop_delivered stops l1" by blast
  have "run_steps (ledger_step stops) l1 events = Inr l'" using Cons.prems(1) l1(1) by simp
  note rest = Cons.IH [OF this l1(2)]
  have *: "(dq_stopped (lg_queue l') \<longleftrightarrow> dq_stopped (lg_queue l1) \<or> Stopping \<in> set events \<or> stop_delivered stops l')
      \<and> (\<forall>k. lg_delivered l1 k \<subseteq># lg_delivered l' k)"
    by (rule rest) (use Cons.prems(3) in simp)
  then have "stop_delivered stops l1 \<Longrightarrow> stop_delivered stops l'"
    unfolding stop_delivered_def by (meson mset_subset_eqD)
  with * l1(3,4) show ?case by (auto intro: subset_mset.trans)
qed

definition ledger_of :: "'d datagram_queue \<Rightarrow> 'd queue_ledger" where
  "ledger_of s = \<lparr>lg_queue = s, lg_accepted = (\<lambda>k. image_mset datagram_of (waiting s k)), lg_delivered = (\<lambda>k. {#})\<rparr>"

lemma ledger_inv_start:
  "queue_inv s \<Longrightarrow> \<not> dq_stopped s \<Longrightarrow> ledger_inv stops (ledger_of s)"
  by (simp add: ledger_inv_def ledger_of_def stop_delivered_def)

end
