(* ===== verification/GameSnapshotCodec.thy ===== *)
theory GameSnapshotCodec
  imports GameUdpCodec LobbyCodec
begin

text \<open>
  protocol/src/GameSnapshotCodec.cpp with protocol/include/dxa/protocol/GameSnapshot.hpp: the
  payload of a full snapshot. The enumerations of a snapshot are their underlying bytes here,
  as the decoder casts bytes to them first and checks them, with everything else, in
  \<^verbatim>\<open>Canonicalize\<close> at the end.
\<close>

section \<open>Snapshots\<close>

definition MaxSnapshotActors :: nat where "MaxSnapshotActors = 124"
definition MaxSnapshotLoot :: nat where "MaxSnapshotLoot = 60"

text \<open>Enumerators of \<^verbatim>\<open>NetworkActorRole\<close>,
  \<^verbatim>\<open>NetworkNeutralArchetype\<close> and the other enumerations that the checks name.\<close>

definition RoleContender :: u8 where "RoleContender = 1"
definition RoleNeutral :: u8 where "RoleNeutral = 2"
definition ArchetypeNone :: u8 where "ArchetypeNone = 0"
definition ArchetypeMelee :: u8 where "ArchetypeMelee = 1"
definition ArchetypeRanged :: u8 where "ArchetypeRanged = 2"
definition PhaseFinished :: u8 where "PhaseFinished = 4"
definition EndLastSurvivor :: u8 where "EndLastSurvivor = 1"

text \<open>\<open>na_health\<close> holds the bits of a signed number.\<close>

record network_actor =
  na_id :: entity_id
  na_role :: u8
  na_neutralArchetype :: u8
  na_position :: network_vec2
  na_health :: u32
  na_alive :: bool
  na_weapon :: u8
  na_cooldownTicksRemaining :: u32
  na_eliminations :: u32

record network_loot =
  nl_id :: u32
  nl_type :: u8
  nl_position :: network_vec2
  nl_active :: bool

record network_match_result =
  nr_winner :: entity_id
  nr_reason :: u8
  nr_finishedTick :: u32

record game_snapshot =
  gs_phase :: u8
  gs_safeZoneStage :: u8
  gs_safeZoneCenter :: network_vec2
  gs_safeZoneRadius :: f32
  gs_aliveContenders :: u32
  gs_actors :: "network_actor list"
  gs_loot :: "network_loot list"
  gs_result :: network_match_result
  gs_hasResult :: bool
  gs_eventChecksum :: u64

section \<open>Checks\<close>

text \<open>The order of floats that are not NaN, by sign and magnitude of their bits.\<close>

definition f32_nan :: "f32 \<Rightarrow> bool" where
  "f32_nan bits \<longleftrightarrow> bits AND 0x7F800000 = 0x7F800000 \<and> bits AND 0x007FFFFF \<noteq> 0"

definition f32_rank :: "f32 \<Rightarrow> int" where
  "f32_rank bits = (if bit bits 31 then - uint (bits AND 0x7FFFFFFF) else uint (bits AND 0x7FFFFFFF))"

definition f32_less :: "f32 \<Rightarrow> f32 \<Rightarrow> bool" where
  "f32_less a b \<longleftrightarrow> \<not> f32_nan a \<and> \<not> f32_nan b \<and> f32_rank a < f32_rank b"

definition IsValidRole :: "u8 \<Rightarrow> bool" where
  "IsValidRole role \<longleftrightarrow> role \<in> {RoleContender, RoleNeutral}"

definition IsValidArchetype :: "u8 \<Rightarrow> bool" where
  "IsValidArchetype archetype \<longleftrightarrow> archetype \<in> {ArchetypeNone, ArchetypeMelee, ArchetypeRanged}"

definition IsValidWeapon :: "u8 \<Rightarrow> bool" where
  "IsValidWeapon weapon \<longleftrightarrow> weapon \<in> {1, 2, 3}"

definition IsValidLootType :: "u8 \<Rightarrow> bool" where
  "IsValidLootType type \<longleftrightarrow> type \<in> {1, 2, 3}"

definition IsValidPhase :: "u8 \<Rightarrow> bool" where
  "IsValidPhase phase \<longleftrightarrow> phase \<in> {1, 2, 3, PhaseFinished}"

definition IsValidSafeZoneStage :: "u8 \<Rightarrow> bool" where
  "IsValidSafeZoneStage stage \<longleftrightarrow> stage \<in> {1, 2, 3, 4, 5}"

definition IsValidEndReason :: "u8 \<Rightarrow> bool" where
  "IsValidEndReason reason \<longleftrightarrow> reason \<in> {EndLastSurvivor, 2}"

definition IsValidActor :: "network_actor \<Rightarrow> bool" where
  "IsValidActor actor =
     (if \<not> IsValidRole (na_role actor)
         \<or> \<not> IsValidArchetype (na_neutralArchetype actor)
         \<or> \<not> IsValidWeapon (na_weapon actor)
         \<or> \<not> IsFinite (na_position actor)
         \<or> sint (na_health actor) < 0
         \<or> 100 < sint (na_health actor)
         \<or> na_alive actor \<noteq> (0 < sint (na_health actor))
      then False
      else if na_role actor = RoleContender then na_neutralArchetype actor = ArchetypeNone
      else na_neutralArchetype actor = ArchetypeMelee \<or> na_neutralArchetype actor = ArchetypeRanged)"

definition IsValidLoot :: "network_loot \<Rightarrow> bool" where
  "IsValidLoot loot \<longleftrightarrow> IsValidLootType (nl_type loot) \<and> IsFinite (nl_position loot)"

text \<open>\<^verbatim>\<open>Canonicalize\<close> sorts the lists of the snapshot it checks (entries with the
  same identifier, whose order \<^verbatim>\<open>std::sort\<close> leaves open, are refused); the search for the
  winner is \<^verbatim>\<open>std::lower_bound\<close>: the first actor that is not before.\<close>

definition Canonicalize :: "game_snapshot \<Rightarrow> bool \<times> game_snapshot" where
  "Canonicalize snapshot =
     (if \<not> IsValidPhase (gs_phase snapshot)
         \<or> \<not> IsValidSafeZoneStage (gs_safeZoneStage snapshot)
         \<or> \<not> IsFinite (gs_safeZoneCenter snapshot)
         \<or> \<not> isfinite (gs_safeZoneRadius snapshot)
         \<or> f32_less (gs_safeZoneRadius snapshot) 0
         \<or> MaxSnapshotActors < length (gs_actors snapshot)
         \<or> MaxSnapshotLoot < length (gs_loot snapshot)
      then (False, snapshot)
      else
        let snapshot = snapshot\<lparr>gs_actors := sort_key na_id (gs_actors snapshot)\<rparr>
        in if adjacent_equal na_id (gs_actors snapshot) \<or> \<not> list_all IsValidActor (gs_actors snapshot)
           then (False, snapshot)
           else
             let snapshot = snapshot\<lparr>gs_loot := sort_key nl_id (gs_loot snapshot)\<rparr>
             in if adjacent_equal nl_id (gs_loot snapshot) \<or> \<not> list_all IsValidLoot (gs_loot snapshot)
                then (False, snapshot)
                else
                  let aliveContenders = (of_nat (length (filter
                        (\<lambda>actor. na_role actor = RoleContender \<and> na_alive actor) (gs_actors snapshot))) :: u32);
                      finished = (gs_phase snapshot = PhaseFinished)
                  in if gs_aliveContenders snapshot \<noteq> aliveContenders then (False, snapshot)
                     else if gs_hasResult snapshot \<noteq> finished then (False, snapshot)
                     else if \<not> gs_hasResult snapshot then (True, snapshot)
                     else if \<not> IsValidEndReason (nr_reason (gs_result snapshot))
                             \<or> gs_aliveContenders snapshot \<noteq> 1
                     then (False, snapshot)
                     else
                       (case dropWhile (\<lambda>actor. na_id actor < nr_winner (gs_result snapshot))
                               (gs_actors snapshot) of
                          [] \<Rightarrow> (False, snapshot)
                        | winner # _ \<Rightarrow>
                            (na_id winner = nr_winner (gs_result snapshot)
                             \<and> na_role winner = RoleContender \<and> na_alive winner, snapshot)))"

section \<open>Encoder\<close>

definition WriteActor :: "network_actor \<Rightarrow> byte_writer \<Rightarrow> byte_writer" where
  "WriteActor actor w =
     (let w = WriteU32 (idval (na_id actor)) w;
          w = WriteU8 (na_role actor) w;
          w = WriteU8 (na_neutralArchetype actor) w;
          w = WriteF32 (nv_x (na_position actor)) w;
          w = WriteF32 (nv_z (na_position actor)) w;
          w = WriteU32 (na_health actor) w;
          w = WriteU8 (bool_u8 (na_alive actor)) w;
          w = WriteU8 (na_weapon actor) w;
          w = WriteU32 (na_cooldownTicksRemaining actor) w
      in WriteU32 (na_eliminations actor) w)"

definition WriteLoot :: "network_loot \<Rightarrow> byte_writer \<Rightarrow> byte_writer" where
  "WriteLoot loot w =
     (let w = WriteU32 (nl_id loot) w;
          w = WriteU8 (nl_type loot) w;
          w = WriteF32 (nv_x (nl_position loot)) w;
          w = WriteF32 (nv_z (nl_position loot)) w
      in WriteU8 (bool_u8 (nl_active loot)) w)"

definition EncodeGameSnapshot :: "game_snapshot \<Rightarrow> byte list throws" where
  "EncodeGameSnapshot snapshot =
     (let (ok, canonical) = Canonicalize snapshot
      in if \<not> ok then Inl Invalid_argument
         else
           let w = WriteU8 (gs_phase canonical) [];
               w = WriteU8 (gs_safeZoneStage canonical) w;
               w = WriteF32 (nv_x (gs_safeZoneCenter canonical)) w;
               w = WriteF32 (nv_z (gs_safeZoneCenter canonical)) w;
               w = WriteF32 (gs_safeZoneRadius canonical) w;
               w = WriteU32 (gs_aliveContenders canonical) w;
               w = WriteU16 (of_nat (length (gs_actors canonical))) w;
               w = fold WriteActor (gs_actors canonical) w;
               w = WriteU16 (of_nat (length (gs_loot canonical))) w;
               w = fold WriteLoot (gs_loot canonical) w;
               w = WriteU8 (bool_u8 (gs_hasResult canonical)) w;
               w = (if gs_hasResult canonical
                    then WriteU32 (nr_finishedTick (gs_result canonical))
                      (WriteU8 (nr_reason (gs_result canonical))
                        (WriteU32 (idval (nr_winner (gs_result canonical))) w))
                    else w);
               bytes = WriteU64 (gs_eventChecksum canonical) w
           in if MaxSnapshotPayloadBytes < length bytes then Inl Length_error else Inr bytes)"

section \<open>Decoder\<close>

definition ReadActor :: "byte_reader \<Rightarrow> decode_error + network_actor \<times> byte_reader" where
  "ReadActor r =
     (let (id, r) = ReadU32 r;
          (role, r) = ReadU8 r;
          (archetype, r) = ReadU8 r;
          (positionX, r) = ReadF32 r;
          (positionZ, r) = ReadF32 r;
          (healthBits, r) = ReadU32 r;
          (alive, r) = ReadU8 r;
          (weapon, r) = ReadU8 r;
          (cooldown, r) = ReadU32 r;
          (eliminations, r) = ReadU32 r
      in case (id, role, archetype, positionX, positionZ, healthBits, alive, weapon, cooldown, eliminations) of
           (Some i, Some ro, Some ar, Some x, Some z, Some h, Some al, Some we, Some co, Some el) \<Rightarrow>
             if 1 < al then Inl InvalidValue
             else Inr (\<lparr>na_id = EntityId i, na_role = ro, na_neutralArchetype = ar,
                        na_position = \<lparr>nv_x = x, nv_z = z\<rparr>, na_health = h, na_alive = (al = 1),
                        na_weapon = we, na_cooldownTicksRemaining = co, na_eliminations = el\<rparr>, r)
         | _ \<Rightarrow> ReaderFailure r)"

definition ReadLoot :: "byte_reader \<Rightarrow> decode_error + network_loot \<times> byte_reader" where
  "ReadLoot r =
     (let (id, r) = ReadU32 r;
          (type, r) = ReadU8 r;
          (positionX, r) = ReadF32 r;
          (positionZ, r) = ReadF32 r;
          (active, r) = ReadU8 r
      in case (id, type, positionX, positionZ, active) of
           (Some i, Some t, Some x, Some z, Some a) \<Rightarrow>
             if 1 < a then Inl InvalidValue
             else Inr (\<lparr>nl_id = i, nl_type = t, nl_position = \<lparr>nv_x = x, nv_z = z\<rparr>, nl_active = (a = 1)\<rparr>, r)
         | _ \<Rightarrow> ReaderFailure r)"

definition no_match_result :: network_match_result where
  "no_match_result = \<lparr>nr_winner = EntityId 0, nr_reason = EndLastSurvivor, nr_finishedTick = 0\<rparr>"

text \<open>The result, which is read when it is present.\<close>

definition ReadResult :: "bool \<Rightarrow> byte_reader \<Rightarrow> network_match_result option \<times> byte_reader" where
  "ReadResult present r =
     (if present
      then let (winner, r) = ReadU32 r;
               (reason, r) = ReadU8 r;
               (finishedTick, r) = ReadU32 r
           in (case (winner, reason, finishedTick) of
                 (Some w, Some re, Some t) \<Rightarrow>
                   Some \<lparr>nr_winner = EntityId w, nr_reason = re, nr_finishedTick = t\<rparr>
               | _ \<Rightarrow> None, r)
      else (Some no_match_result, r))"

text \<open>What follows the lists, with the snapshot read so far.\<close>

definition DecodeTail :: "game_snapshot \<Rightarrow> byte_reader \<Rightarrow> game_snapshot decode_result" where
  "DecodeTail snapshot r =
     (case ReadU8 r of
        (None, r) \<Rightarrow> ReaderFailure r
      | (Some hasResult, r) \<Rightarrow>
          if 1 < hasResult then Inl InvalidValue
          else
            (case ReadResult (hasResult = 1) r of
               (None, r) \<Rightarrow> ReaderFailure r
             | (Some result, r) \<Rightarrow>
                 (case ReadU64 r of
                    (None, r) \<Rightarrow> ReaderFailure r
                  | (Some eventChecksum, r) \<Rightarrow>
                      let (ok, snapshot) = Canonicalize (snapshot\<lparr>gs_hasResult := (hasResult = 1),
                            gs_result := result, gs_eventChecksum := eventChecksum\<rparr>)
                      in if \<not> ok then Inl InvalidValue
                         else if \<not> Empty r then ReaderFailure r
                         else Inr snapshot)))"

definition DecodeGameSnapshot :: "byte list \<Rightarrow> game_snapshot decode_result" where
  "DecodeGameSnapshot bytes =
     (if MaxSnapshotPayloadBytes < length bytes then Inl CountLimit
      else
        let r = ByteReader bytes;
            (phase, r) = ReadU8 r;
            (stage, r) = ReadU8 r;
            (centerX, r) = ReadF32 r;
            (centerZ, r) = ReadF32 r;
            (radius, r) = ReadF32 r;
            (aliveContenders, r) = ReadU32 r;
            (actorCount, r) = ReadU16 r
        in case (phase, stage, centerX, centerZ, radius, aliveContenders, actorCount) of
             (Some ph, Some st, Some x, Some z, Some ra, Some al, Some n) \<Rightarrow>
               if MaxSnapshotActors < unat n then Inl CountLimit
               else
                 (case read_items ReadActor (unat n) r of
                    Inl e \<Rightarrow> Inl e
                  | Inr (actors, r) \<Rightarrow>
                      (case ReadU16 r of
                         (None, r) \<Rightarrow> ReaderFailure r
                       | (Some lootCount, r) \<Rightarrow>
                           if MaxSnapshotLoot < unat lootCount then Inl CountLimit
                           else
                             (case read_items ReadLoot (unat lootCount) r of
                                Inl e \<Rightarrow> Inl e
                              | Inr (loot, r) \<Rightarrow>
                                  DecodeTail
                                    \<lparr>gs_phase = ph, gs_safeZoneStage = st,
                                     gs_safeZoneCenter = \<lparr>nv_x = x, nv_z = z\<rparr>, gs_safeZoneRadius = ra,
                                     gs_aliveContenders = al, gs_actors = actors, gs_loot = loot,
                                     gs_result = no_match_result, gs_hasResult = False,
                                     gs_eventChecksum = 0\<rparr> r)))
           | _ \<Rightarrow> ReaderFailure r)"

section \<open>What is valid\<close>

text \<open>The snapshots that pass, said without sorting and searching.\<close>

definition snapshot_ok :: "game_snapshot \<Rightarrow> bool" where
  "snapshot_ok s \<longleftrightarrow>
     IsValidPhase (gs_phase s) \<and> IsValidSafeZoneStage (gs_safeZoneStage s)
     \<and> IsFinite (gs_safeZoneCenter s) \<and> isfinite (gs_safeZoneRadius s) \<and> \<not> f32_less (gs_safeZoneRadius s) 0
     \<and> length (gs_actors s) \<le> MaxSnapshotActors \<and> length (gs_loot s) \<le> MaxSnapshotLoot
     \<and> distinct (map na_id (gs_actors s)) \<and> (\<forall>a \<in> set (gs_actors s). IsValidActor a)
     \<and> distinct (map nl_id (gs_loot s)) \<and> (\<forall>l \<in> set (gs_loot s). IsValidLoot l)
     \<and> unat (gs_aliveContenders s) =
         card {a \<in> set (gs_actors s). na_role a = RoleContender \<and> na_alive a}
     \<and> gs_hasResult s = (gs_phase s = PhaseFinished)
     \<and> (gs_hasResult s \<longrightarrow> IsValidEndReason (nr_reason (gs_result s)) \<and> gs_aliveContenders s = 1
         \<and> (\<exists>a \<in> set (gs_actors s). na_id a = nr_winner (gs_result s)
              \<and> na_role a = RoleContender \<and> na_alive a))"

text \<open>The lists in the order of their identifiers.\<close>

definition sorted_snapshot :: "game_snapshot \<Rightarrow> game_snapshot" where
  "sorted_snapshot s = s\<lparr>gs_actors := sort_key na_id (gs_actors s), gs_loot := sort_key nl_id (gs_loot s)\<rparr>"

lemma dropWhile_search:
  fixes f :: "'a \<Rightarrow> 'b::linorder"
  assumes "sorted (map f xs)" and "distinct (map f xs)"
  shows "(case dropWhile (\<lambda>x. f x < k) xs of [] \<Rightarrow> False | x # _ \<Rightarrow> f x = k \<and> P x)
    \<longleftrightarrow> (\<exists>x \<in> set xs. f x = k \<and> P x)"
  using assms
proof (induction xs)
  case (Cons x xs)
  then have later: "f x < f y" if "y \<in> set xs" for y
    using that by (auto simp: order.strict_iff_order)
  show ?case
  proof (cases "f x < k")
    case True
    then show ?thesis using Cons by auto
  next
    case False
    then have "f y \<noteq> k" if "y \<in> set xs" for y using later [OF that] by auto
    with False show ?thesis by auto
  qed
qed simp

lemma card_filter_distinct:
  assumes "distinct (map f xs)"
  shows "card {x \<in> set xs. P x} = length (filter P xs)"
proof -
  have "distinct xs" using assms by (simp add: distinct_map)
  then have "card (set (filter P xs)) = length (filter P xs)"
    by (intro distinct_card) simp
  then show ?thesis by simp
qed

lemma Canonicalize_iff:
  "fst (Canonicalize s) = snapshot_ok s \<and> (snapshot_ok s \<longrightarrow> snd (Canonicalize s) = sorted_snapshot s)"
proof -
  let ?A = "sort_key na_id (gs_actors s)" and ?L = "sort_key nl_id (gs_loot s)"
  let ?P = "\<lambda>a. na_role a = RoleContender \<and> na_alive a"
  have A: "\<not> adjacent_equal na_id ?A \<longleftrightarrow> distinct (map na_id (gs_actors s))"
    and L: "\<not> adjacent_equal nl_id ?L \<longleftrightarrow> distinct (map nl_id (gs_loot s))"
    by (simp_all add: sorted_adjacent_distinct distinct_map)
  have count: "gs_aliveContenders s = of_nat (length (filter ?P ?A))
      \<longleftrightarrow> unat (gs_aliveContenders s) = card {a \<in> set (gs_actors s). ?P a}"
    if "distinct (map na_id (gs_actors s))" "length (gs_actors s) \<le> MaxSnapshotActors"
  proof -
    have d: "distinct (map na_id ?A)" using that(1) by (simp add: distinct_map)
    have n: "card {a \<in> set (gs_actors s). ?P a} = length (filter ?P ?A)"
      using card_filter_distinct [OF d, of ?P] by simp
    have "length (filter ?P ?A) \<le> length ?A" by (rule length_filter_le)
    then have "length (filter ?P ?A) < 2 ^ 32" using that(2) by (simp add: MaxSnapshotActors_def)
    then show ?thesis unfolding n by (simp add: word_unat_eq_iff unat_of_nat)
  qed
  have winner: "(case dropWhile (\<lambda>a. na_id a < nr_winner (gs_result s)) ?A of [] \<Rightarrow> (False, x)
      | a # _ \<Rightarrow> (na_id a = nr_winner (gs_result s) \<and> na_role a = RoleContender \<and> na_alive a, x))
    = (\<exists>a \<in> set (gs_actors s). na_id a = nr_winner (gs_result s) \<and> ?P a, x)"
    if "distinct (map na_id (gs_actors s))" for x
  proof -
    have "distinct (map na_id ?A)" using that by (simp add: distinct_map)
    then have "(case dropWhile (\<lambda>a. na_id a < nr_winner (gs_result s)) ?A of [] \<Rightarrow> False
        | a # _ \<Rightarrow> na_id a = nr_winner (gs_result s) \<and> ?P a)
      = (\<exists>a \<in> set (gs_actors s). na_id a = nr_winner (gs_result s) \<and> ?P a)"
      using dropWhile_search [of na_id ?A "nr_winner (gs_result s)" ?P] by simp
    moreover have "(case as of [] \<Rightarrow> (False, x) | a # _ \<Rightarrow> (Q a, x)) =
        (case as of [] \<Rightarrow> False | a # _ \<Rightarrow> Q a, x)" for as :: "network_actor list" and Q
      by (cases as) simp_all
    ultimately show ?thesis by simp
  qed
  show ?thesis
  proof (cases "distinct (map na_id (gs_actors s)) \<and> length (gs_actors s) \<le> MaxSnapshotActors")
    case True
    then have d: "distinct (map na_id (gs_actors s))" "length (gs_actors s) \<le> MaxSnapshotActors" by simp_all
    show ?thesis
      using d A L
      by (simp add: Canonicalize_def snapshot_ok_def sorted_snapshot_def Let_def list_all_iff not_le
        count [OF d] winner [OF d(1)] cong: list.case_cong) blast
  next
    case False
    then show ?thesis
      using A by (auto simp: Canonicalize_def snapshot_ok_def Let_def)
  qed
qed

section \<open>Round trip\<close>

definition actor_bytes :: "network_actor \<Rightarrow> byte list" where
  "actor_bytes a = le_bytes 4 (idval (na_id a)) @ [na_role a, na_neutralArchetype a]
     @ le_bytes 4 (nv_x (na_position a)) @ le_bytes 4 (nv_z (na_position a)) @ le_bytes 4 (na_health a)
     @ [bool_u8 (na_alive a), na_weapon a] @ le_bytes 4 (na_cooldownTicksRemaining a)
     @ le_bytes 4 (na_eliminations a)"

definition loot_bytes :: "network_loot \<Rightarrow> byte list" where
  "loot_bytes l = le_bytes 4 (nl_id l) @ [nl_type l] @ le_bytes 4 (nv_x (nl_position l))
     @ le_bytes 4 (nv_z (nl_position l)) @ [bool_u8 (nl_active l)]"

definition result_bytes :: "game_snapshot \<Rightarrow> byte list" where
  "result_bytes s = bool_u8 (gs_hasResult s) #
     (if gs_hasResult s
      then le_bytes 4 (idval (nr_winner (gs_result s))) @ [nr_reason (gs_result s)]
        @ le_bytes 4 (nr_finishedTick (gs_result s))
      else []) @ le_bytes 8 (gs_eventChecksum s)"

definition snapshot_bytes :: "game_snapshot \<Rightarrow> byte list" where
  "snapshot_bytes s = [gs_phase s, gs_safeZoneStage s] @ le_bytes 4 (nv_x (gs_safeZoneCenter s))
     @ le_bytes 4 (nv_z (gs_safeZoneCenter s)) @ le_bytes 4 (gs_safeZoneRadius s)
     @ le_bytes 4 (gs_aliveContenders s) @ le_bytes 2 (of_nat (length (gs_actors s)) :: u16)
     @ concat (map actor_bytes (gs_actors s)) @ le_bytes 2 (of_nat (length (gs_loot s)) :: u16)
     @ concat (map loot_bytes (gs_loot s)) @ result_bytes s"

lemma fold_WriteActor [read_write]: "fold WriteActor as w = w @ concat (map actor_bytes as)"
  by (rule fold_write_items) (simp add: WriteActor_def actor_bytes_def read_write)

lemma fold_WriteLoot [read_write]: "fold WriteLoot ls w = w @ concat (map loot_bytes ls)"
  by (rule fold_write_items) (simp add: WriteLoot_def loot_bytes_def read_write)

lemma length_snapshot_bytes:
  assumes "length (gs_actors s) \<le> MaxSnapshotActors" and "length (gs_loot s) \<le> MaxSnapshotLoot"
  shows "length (snapshot_bytes s) \<le> 4352"
proof -
  have "length (concat (map actor_bytes (gs_actors s))) = 28 * length (gs_actors s)"
    by (rule length_concat_const) (simp add: actor_bytes_def)
  moreover have "length (concat (map loot_bytes (gs_loot s))) = 14 * length (gs_loot s)"
    by (rule length_concat_const) (simp add: loot_bytes_def)
  ultimately show ?thesis
    using assms by (simp add: snapshot_bytes_def result_bytes_def MaxSnapshotActors_def MaxSnapshotLoot_def)
qed

lemma EncodeGameSnapshot_eq:
  "EncodeGameSnapshot s =
     (if snapshot_ok s then Inr (snapshot_bytes (sorted_snapshot s)) else Inl Invalid_argument)"
proof (cases "snapshot_ok s")
  case True
  then have "Canonicalize s = (True, sorted_snapshot s)"
    using Canonicalize_iff [of s] by (simp add: prod_eq_iff)
  moreover have "length (snapshot_bytes (sorted_snapshot s)) \<le> 4352"
    using True by (intro length_snapshot_bytes) (simp_all add: sorted_snapshot_def snapshot_ok_def)
  then have "\<not> MaxSnapshotPayloadBytes < length (snapshot_bytes (sorted_snapshot s))"
    by (simp add: MaxSnapshotPayloadBytes_def)
  ultimately show ?thesis
    using True
    by (cases "gs_hasResult (sorted_snapshot s)")
       (simp_all add: EncodeGameSnapshot_def Let_def snapshot_bytes_def result_bytes_def read_write)
next
  case False
  then obtain t where "Canonicalize s = (False, t)"
    using Canonicalize_iff [of s] by (cases "Canonicalize s") simp
  with False show ?thesis by (simp add: EncodeGameSnapshot_def)
qed

text \<open>A snapshot as it arrives: sorted, and without a result that is not present.\<close>

definition canon_snapshot :: "game_snapshot \<Rightarrow> game_snapshot" where
  "canon_snapshot s =
     (if gs_hasResult s then sorted_snapshot s else (sorted_snapshot s)\<lparr>gs_result := no_match_result\<rparr>)"

lemma snapshot_ok_canon [simp]:
  "snapshot_ok (sorted_snapshot s) = snapshot_ok s" "snapshot_ok (canon_snapshot s) = snapshot_ok s"
  by (simp_all add: snapshot_ok_def canon_snapshot_def sorted_snapshot_def distinct_map)

lemma sorted_canon [simp]: "sorted_snapshot (canon_snapshot s) = canon_snapshot s"
  by (simp add: canon_snapshot_def sorted_snapshot_def sort_key_sort_key)

lemma ReadActor_bytes:
  "ReadActor (reader_at pre (actor_bytes a @ suf)) = Inr (a, reader_at (pre @ actor_bytes a) suf)"
  by (cases a, cases "na_id a", cases "na_position a")
     (simp add: ReadActor_def actor_bytes_def read_write)

lemma ReadLoot_bytes:
  "ReadLoot (reader_at pre (loot_bytes l @ suf)) = Inr (l, reader_at (pre @ loot_bytes l) suf)"
  by (cases l, cases "nl_position l") (simp add: ReadLoot_def loot_bytes_def read_write)

lemma read_actors:
  "read_items ReadActor (length as) (reader_at pre (concat (map actor_bytes as) @ suf))
    = Inr (as, reader_at (pre @ concat (map actor_bytes as)) suf)"
  by (rule read_items_bytes) (rule ReadActor_bytes)

lemma read_loot:
  "read_items ReadLoot (length ls) (reader_at pre (concat (map loot_bytes ls) @ suf))
    = Inr (ls, reader_at (pre @ concat (map loot_bytes ls)) suf)"
  by (rule read_items_bytes) (rule ReadLoot_bytes)

lemma DecodeTail_bytes:
  assumes "snapshot_ok s"
    and s: "canon_snapshot s = t\<lparr>gs_hasResult := gs_hasResult s,
      gs_result := (if gs_hasResult s then gs_result s else no_match_result),
      gs_eventChecksum := gs_eventChecksum s\<rparr>"
  shows "DecodeTail t (reader_at pre (result_bytes s)) = Inr (canon_snapshot s)"
proof -
  have "Canonicalize (canon_snapshot s) = (True, canon_snapshot s)"
    using assms(1) Canonicalize_iff [of "canon_snapshot s"] by (simp add: prod_eq_iff)
  then show ?thesis
    using s
    by (cases "gs_hasResult s"; cases "gs_result s"; cases "nr_winner (gs_result s)")
       (simp_all add: DecodeTail_def result_bytes_def ReadResult_def read_write)
qed

lemma DecodeGameSnapshot_bytes:
  assumes ok: "snapshot_ok s"
  shows "DecodeGameSnapshot (snapshot_bytes (sorted_snapshot s)) = Inr (canon_snapshot s)"
proof -
  let ?s = "sorted_snapshot s"
  have n: "length (gs_actors ?s) \<le> 124" "length (gs_loot ?s) \<le> 60"
    using ok by (simp_all add: snapshot_ok_def sorted_snapshot_def MaxSnapshotActors_def MaxSnapshotLoot_def)
  then have u: "unat (of_nat (length (gs_actors ?s)) :: u16) = length (gs_actors ?s)"
    "unat (of_nat (length (gs_loot ?s)) :: u16) = length (gs_loot ?s)"
    by (simp_all add: unat_of_nat)
  have "length (snapshot_bytes ?s) \<le> 4352"
    using n by (intro length_snapshot_bytes) (simp_all add: MaxSnapshotActors_def MaxSnapshotLoot_def)
  then have len: "\<not> MaxSnapshotPayloadBytes < length (snapshot_bytes ?s)"
    by (simp add: MaxSnapshotPayloadBytes_def)
  obtain x z where center: "gs_safeZoneCenter s = \<lparr>nv_x = x, nv_z = z\<rparr>" by (cases "gs_safeZoneCenter s")
  have tail: "DecodeTail
      \<lparr>gs_phase = gs_phase s, gs_safeZoneStage = gs_safeZoneStage s, gs_safeZoneCenter = \<lparr>nv_x = x, nv_z = z\<rparr>,
       gs_safeZoneRadius = gs_safeZoneRadius s, gs_aliveContenders = gs_aliveContenders s,
       gs_actors = gs_actors ?s, gs_loot = gs_loot ?s, gs_result = no_match_result,
       gs_hasResult = False, gs_eventChecksum = 0\<rparr> (reader_at pre (result_bytes s))
      = Inr (canon_snapshot s)" for pre
    by (rule DecodeTail_bytes [OF ok])
      (cases s, simp add: canon_snapshot_def sorted_snapshot_def flip: center)
  have "result_bytes ?s = result_bytes s" by (simp add: result_bytes_def sorted_snapshot_def)
  then show ?thesis
    using len n u tail
    by (simp add: DecodeGameSnapshot_def snapshot_bytes_def ByteReader_reader_at read_write read_actors read_loot
      MaxSnapshotActors_def MaxSnapshotLoot_def Let_def)
       (simp add: sorted_snapshot_def center)
qed

lemma DecodeGameSnapshot_valid:
  assumes "DecodeGameSnapshot bytes = Inr s"
  shows "snapshot_ok s \<and> sorted_snapshot s = s \<and> length bytes \<le> MaxSnapshotPayloadBytes"
proof -
  have tail: "snapshot_ok u \<and> sorted_snapshot u = u" if "DecodeTail t r = Inr u" for t r u
  proof -
    from that obtain v where "Canonicalize v = (True, u)"
      by (auto simp: DecodeTail_def split: prod.splits option.splits if_splits)
    then show ?thesis using Canonicalize_iff [of v]
      by (simp add: sorted_snapshot_def sort_key_sort_key) (simp flip: sorted_snapshot_def)
  qed
  show ?thesis
    using assms
    by (auto simp: DecodeGameSnapshot_def Let_def
      split: prod.splits option.splits sum.splits if_splits dest: tail)
qed

interpretation snapshot_codec: message_codec EncodeGameSnapshot DecodeGameSnapshot canon_snapshot "\<lambda>_. True"
  by unfold_locales (auto simp: EncodeGameSnapshot_eq DecodeGameSnapshot_bytes split: if_splits)

end
