(* ===== verification/FramedConnection.thy ===== *)
theory FramedConnection
  imports Framing "HOL-Library.Sublist"
begin

text \<open>
  protocol/src/AsioFramedConnection.cpp: messages over a TCP socket. The socket and the executor
  belong to Boost.Asio: starting a read or a write, posting the close handler and calling the
  callbacks are effects that an operation returns, and the completion handlers are operations
  too, with what the library passes them. A frame callback may call the connection back, so
  \<^verbatim>\<open>DeliverFrame\<close> is two operations: up to the call of the callback, and from its
  return on. The byte observer only counts.
\<close>

section \<open>State and effects\<close>

text \<open>The error that the close handler gets; \<open>SocketError\<close> is one that Asio reported.\<close>

datatype close_error =
  MessageSize | InvalidArgument | NoBufferSpace | OperationAborted | SocketError int

datatype traffic_direction = TrafficSent | TrafficReceived

datatype effect =
    ReadingBytes nat
  | WritingBytes "byte list"
  | DeliveringFrame encoded_message
  | Observing traffic_direction nat
  | PostingClose close_error

text \<open>The read that has been started and has not completed, or the callback that has been called
  and has not returned.\<close>

datatype pending_read = NoRead | HeaderRead | PayloadRead message_type nat | InCallback

record framed_connection =
  cn_writeQueue :: "byte list list"
  cn_pendingWriteBytes :: nat
  cn_started :: bool
  cn_closed :: bool
  cn_writeInProgress :: bool
  cn_closeAfterFlush :: bool
  cn_reading :: pending_read

type_synonym operated = "effect list \<times> framed_connection"

definition MaxPendingWriteBytes :: nat where
  "MaxPendingWriteBytes = 262144"

definition AsioFramedConnection :: framed_connection where
  "AsioFramedConnection = \<lparr>cn_writeQueue = [], cn_pendingWriteBytes = 0, cn_started = False,
     cn_closed = False, cn_writeInProgress = False, cn_closeAfterFlush = False, cn_reading = NoRead\<rparr>"

text \<open>Operations one after the other, with their effects in order.\<close>

definition then_op :: "operated \<Rightarrow> (framed_connection \<Rightarrow> operated) \<Rightarrow> operated" where
  "then_op r f = (let (es, s) = r; (es', s') = f s in (es @ es', s'))"

section \<open>Operations\<close>

definition HeaderError :: "frame_header_error \<Rightarrow> close_error" where
  "HeaderError error = (if error = FrameTooLarge then MessageSize else InvalidArgument)"

definition FinishClose :: "close_error \<Rightarrow> framed_connection \<Rightarrow> operated" where
  "FinishClose error s =
     (if cn_closed s then ([], s)
      else ([PostingClose error],
            s\<lparr>cn_closed := True, cn_pendingWriteBytes := 0, cn_writeInProgress := False,
              cn_closeAfterFlush := False\<rparr>))"

definition WriteNext :: "framed_connection \<Rightarrow> operated" where
  "WriteNext s =
     (if cn_closed s \<or> cn_writeQueue s = []
      then let s = s\<lparr>cn_writeInProgress := False\<rparr>
           in if \<not> cn_closed s \<and> cn_closeAfterFlush s then FinishClose OperationAborted s else ([], s)
      else ([WritingBytes (hd (cn_writeQueue s))], s\<lparr>cn_writeInProgress := True\<rparr>))"

definition Send :: "encoded_message \<Rightarrow> framed_connection \<Rightarrow> bool \<times> operated" where
  "Send message s =
     (if cn_closed s \<or> cn_closeAfterFlush s then (False, [], s)
      else case EncodeTcpFrame message of
             Inl _ \<Rightarrow> (False, FinishClose MessageSize s)
           | Inr frame \<Rightarrow>
               if MaxPendingWriteBytes - cn_pendingWriteBytes s < length frame
               then (False, FinishClose NoBufferSpace s)
               else
                 let s = s\<lparr>cn_pendingWriteBytes := cn_pendingWriteBytes s + length frame,
                           cn_writeQueue := cn_writeQueue s @ [frame]\<rparr>
                 in (True, then_op ([Observing TrafficSent (length frame)], s)
                             (\<lambda>s. if \<not> cn_writeInProgress s then WriteNext s else ([], s))))"

definition Close :: "framed_connection \<Rightarrow> operated" where
  "Close s = FinishClose OperationAborted s"

definition CloseAfterFlush :: "framed_connection \<Rightarrow> operated" where
  "CloseAfterFlush s =
     (if cn_closed s \<or> cn_closeAfterFlush s then ([], s)
      else
        let s = s\<lparr>cn_closeAfterFlush := True\<rparr>
        in if \<not> cn_writeInProgress s \<and> cn_writeQueue s = [] then FinishClose OperationAborted s
           else ([], s))"

definition ReadHeader :: "framed_connection \<Rightarrow> operated" where
  "ReadHeader s =
     (if cn_closed s then ([], s)
      else ([ReadingBytes TcpFrameHeaderBytes], s\<lparr>cn_reading := HeaderRead\<rparr>))"

definition Start :: "framed_connection \<Rightarrow> operated" where
  "Start s = (if cn_started s \<or> cn_closed s then ([], s) else ReadHeader (s\<lparr>cn_started := True\<rparr>))"

text \<open>What a client of the connection, or its frame callback, may call.\<close>

datatype connection_call =
    CallStart
  | CallSend encoded_message
  | CallClose
  | CallCloseAfterFlush

fun call :: "connection_call \<Rightarrow> framed_connection \<Rightarrow> operated" where
  "call CallStart s = Start s"
| "call (CallSend message) s = snd (Send message s)"
| "call CallClose s = Close s"
| "call CallCloseAfterFlush s = CloseAfterFlush s"

definition DeliverFrame :: "message_type \<Rightarrow> byte list \<Rightarrow> framed_connection \<Rightarrow> operated" where
  "DeliverFrame type payload s =
     (if cn_closed s then ([], s)
      else ([Observing TrafficReceived (TcpFrameHeaderBytes + length payload),
             DeliveringFrame \<lparr>em_type = type, em_payload = payload\<rparr>], s\<lparr>cn_reading := InCallback\<rparr>))"

definition callback_returned :: "bool \<Rightarrow> framed_connection \<Rightarrow> operated" where
  "callback_returned throws s =
     (let s = s\<lparr>cn_reading := NoRead\<rparr>
      in if throws then FinishClose OperationAborted s else ReadHeader s)"

definition ReadPayload :: "tcp_frame_header \<Rightarrow> framed_connection \<Rightarrow> operated" where
  "ReadPayload header s =
     (let count = unat (th_payloadBytes header)
      in if count = 0 then DeliverFrame (th_type header) [] s
         else ([ReadingBytes count], s\<lparr>cn_reading := PayloadRead (th_type header) count\<rparr>))"

text \<open>The completion handlers of the two reads and of the write. The buffer of a read is full
  when it succeeds.\<close>

definition header_read :: "int + byte list \<Rightarrow> framed_connection \<Rightarrow> operated" where
  "header_read outcome s =
     (let s = s\<lparr>cn_reading := NoRead\<rparr>
      in case outcome of
           Inl error \<Rightarrow> FinishClose (SocketError error) s
         | Inr headerBytes \<Rightarrow>
             (case DecodeTcpFrameHeader headerBytes of
                Inl error \<Rightarrow> FinishClose (HeaderError error) s
              | Inr header \<Rightarrow> ReadPayload header s))"

definition payload_read :: "message_type \<Rightarrow> int + byte list \<Rightarrow> framed_connection \<Rightarrow> operated" where
  "payload_read type outcome s =
     (let s = s\<lparr>cn_reading := NoRead\<rparr>
      in case outcome of
           Inl error \<Rightarrow> FinishClose (SocketError error) s
         | Inr payload \<Rightarrow> DeliverFrame type payload s)"

definition write_done :: "int option \<Rightarrow> framed_connection \<Rightarrow> operated" where
  "write_done error s =
     (case error of
        Some e \<Rightarrow> FinishClose (SocketError e) s
      | None \<Rightarrow>
          if cn_closed s then ([], s)
          else WriteNext (s\<lparr>cn_pendingWriteBytes := cn_pendingWriteBytes s - length (hd (cn_writeQueue s)),
                            cn_writeQueue := tl (cn_writeQueue s)\<rparr>))"

section \<open>Frames in a stream\<close>

definition frame_of :: "encoded_message \<Rightarrow> byte list" where
  "frame_of m = frame_header (em_type m) (of_nat (length (em_payload m))) @ em_payload m"

definition frames :: "encoded_message list \<Rightarrow> byte list" where
  "frames ms = concat (map frame_of ms)"

definition fits_frame :: "encoded_message \<Rightarrow> bool" where
  "fits_frame m \<longleftrightarrow> length (em_payload m) \<le> MaxTcpPayloadBytes"

lemma frames_simps [simp]:
  "frames [] = []" "frames (m # ms) = frame_of m @ frames ms" "frames (ms @ ns) = frames ms @ frames ns"
  by (simp_all add: frames_def)

lemma fits_unat: "fits_frame m \<Longrightarrow> unat (of_nat (length (em_payload m)) :: u32) = length (em_payload m)"
  by (simp add: fits_frame_def MaxTcpPayloadBytes_def MaxTcpFrameBytes_def TcpFrameHeaderBytes_def unat_of_nat)

lemma frame_header_inject:
  assumes "frame_header t n @ xs = frame_header u k @ ys"
    and "unat n \<le> MaxTcpPayloadBytes" and "unat k \<le> MaxTcpPayloadBytes"
  shows "t = u \<and> n = k \<and> xs = ys"
proof -
  have same: "frame_header t n = frame_header u k \<and> xs = ys"
    by (rule iffD1 [OF append_eq_append_conv [OF disjI1] assms(1)]) simp
  have "Inr \<lparr>th_version = ProtocolVersion, th_type = t, th_payloadBytes = n\<rparr>
      = (Inr \<lparr>th_version = ProtocolVersion, th_type = u, th_payloadBytes = k\<rparr> :: frame_header_error + tcp_frame_header)"
    using DecodeTcpFrameHeader_frame_header [OF assms(2), of t]
      DecodeTcpFrameHeader_frame_header [OF assms(3), of u] same by metis
  with same show ?thesis by simp
qed

lemma frame_of_inject:
  assumes eq: "frame_of m @ xs = frame_of k @ ys" and m: "fits_frame m" and k: "fits_frame k"
  shows "m = k \<and> xs = ys"
proof -
  have "em_type m = em_type k \<and> (of_nat (length (em_payload m)) :: u32) = of_nat (length (em_payload k))
      \<and> em_payload m @ xs = em_payload k @ ys"
    using eq m k fits_unat [OF m] fits_unat [OF k]
    by (intro frame_header_inject) (simp_all add: frame_of_def fits_frame_def)
  then have parts: "em_type m = em_type k" "length (em_payload m) = length (em_payload k)"
    and rest: "em_payload m @ xs = em_payload k @ ys"
    using fits_unat [OF m] fits_unat [OF k] by (metis, metis, blast)
  have "em_payload m = em_payload k \<and> xs = ys"
    by (rule iffD1 [OF append_eq_append_conv [OF disjI1] rest]) (rule parts(2))
  with parts(1) show ?thesis by (simp add: encoded_message.equality)
qed

text \<open>Frames are a prefix code: the messages of a prefix are a prefix of the messages.\<close>

lemma frames_prefix:
  assumes "prefix (frames ms) (frames ns)" and "\<forall>m \<in> set ms. fits_frame m" and "\<forall>m \<in> set ns. fits_frame m"
  shows "prefix ms ns"
  using assms
proof (induction ms arbitrary: ns)
  case (Cons m ms)
  then obtain k ks where ns: "ns = k # ks" by (cases ns) (simp_all add: frame_of_def frame_header_def TcpMagic_def)
  obtain ys where ys: "frame_of m @ (frames ms @ ys) = frame_of k @ frames ks"
    using Cons.prems(1) by (auto simp: ns prefix_def)
  have "m = k \<and> frames ms @ ys = frames ks"
    using frame_of_inject [OF ys] Cons.prems(2,3) by (simp add: ns)
  moreover then have "prefix (frames ms) (frames ks)" by (metis prefixI)
  then have "prefix ms ks" using Cons.IH [of ks] Cons.prems(2,3) by (simp add: ns)
  ultimately show ?case by (simp add: ns)
qed simp

section \<open>Runs\<close>

text \<open>
  What happens to a connection: calls, and completions. The ledger beside it holds the messages
  that \<^verbatim>\<open>Send\<close> accepted, the bytes given to the socket, the bytes taken from
  the socket, the frames delivered, and the calls of the close handler.
\<close>

datatype connection_event =
    Calling connection_call
  | ReadCompleted "int + byte list"
  | CallbackReturned bool
  | WriteCompleted "int option"

record link =
  lk_connection :: framed_connection
  lk_accepted :: "encoded_message list"
  lk_written :: "byte list"
  lk_consumed :: "byte list"
  lk_delivered :: "encoded_message list"
  lk_closes :: "close_error list"

definition link :: link where
  "link = \<lparr>lk_connection = AsioFramedConnection, lk_accepted = [], lk_written = [], lk_consumed = [],
     lk_delivered = [], lk_closes = []\<rparr>"

fun note_effect :: "effect \<Rightarrow> link \<Rightarrow> link" where
  "note_effect (WritingBytes bytes) l = l\<lparr>lk_written := lk_written l @ bytes\<rparr>"
| "note_effect (DeliveringFrame m) l = l\<lparr>lk_delivered := lk_delivered l @ [m]\<rparr>"
| "note_effect (PostingClose e) l = l\<lparr>lk_closes := lk_closes l @ [e]\<rparr>"
| "note_effect _ l = l"

definition operated_on :: "operated \<Rightarrow> link \<Rightarrow> link" where
  "operated_on r l = fold note_effect (fst r) (l\<lparr>lk_connection := snd r\<rparr>)"

fun accepts :: "connection_call \<Rightarrow> framed_connection \<Rightarrow> encoded_message list" where
  "accepts (CallSend m) s = (if fst (Send m s) then [m] else [])"
| "accepts _ s = []"

fun read_handler :: "pending_read \<Rightarrow> int + byte list \<Rightarrow> framed_connection \<Rightarrow> operated" where
  "read_handler (PayloadRead type count) outcome s = payload_read type outcome s"
| "read_handler _ outcome s = header_read outcome s"

fun link_step :: "link \<Rightarrow> connection_event \<Rightarrow> link throws" where
  "link_step l (Calling c) =
     Inr (operated_on (call c (lk_connection l))
       (l\<lparr>lk_accepted := lk_accepted l @ accepts c (lk_connection l)\<rparr>))"
| "link_step l (ReadCompleted outcome) =
     Inr (operated_on (read_handler (cn_reading (lk_connection l)) outcome (lk_connection l))
       (l\<lparr>lk_consumed := lk_consumed l @ (case outcome of Inl e \<Rightarrow> [] | Inr bytes \<Rightarrow> bytes)\<rparr>))"
| "link_step l (CallbackReturned throws) = Inr (operated_on (callback_returned throws (lk_connection l)) l)"
| "link_step l (WriteCompleted error) = Inr (operated_on (write_done error (lk_connection l)) l)"

text \<open>What Asio promises: a completion belongs to an operation that was started, and a read that
  succeeds fills its buffer.\<close>

fun asio_allows :: "link \<Rightarrow> connection_event \<Rightarrow> bool" where
  "asio_allows l (Calling c) = True"
| "asio_allows l (ReadCompleted outcome) =
     (case cn_reading (lk_connection l) of
        HeaderRead \<Rightarrow> (case outcome of Inl e \<Rightarrow> True | Inr bytes \<Rightarrow> length bytes = TcpFrameHeaderBytes)
      | PayloadRead type count \<Rightarrow> (case outcome of Inl e \<Rightarrow> True | Inr bytes \<Rightarrow> length bytes = count)
      | _ \<Rightarrow> False)"
| "asio_allows l (CallbackReturned throws) = (cn_reading (lk_connection l) = InCallback)"
| "asio_allows l (WriteCompleted error) =
     (cn_closed (lk_connection l) \<or> cn_writeInProgress (lk_connection l))"

text \<open>Sending: while the connection is open, the bytes given to the socket are the accepted frames
  up to and including the one in flight, and the count of pending bytes is right.\<close>

definition sending_ok :: "link \<Rightarrow> bool" where
  "sending_ok l \<longleftrightarrow> (let s = lk_connection l in
     (\<forall>m \<in> set (lk_accepted l). fits_frame m) \<and>
     (if cn_closed s then prefix (lk_written l) (frames (lk_accepted l))
      else frames (lk_accepted l) = lk_written l @ concat (tl (cn_writeQueue s))
        \<and> cn_pendingWriteBytes s = length (concat (cn_writeQueue s))
        \<and> cn_pendingWriteBytes s \<le> MaxPendingWriteBytes
        \<and> (cn_writeInProgress s \<longleftrightarrow> cn_writeQueue s \<noteq> [])
        \<and> (cn_closeAfterFlush s \<longrightarrow> cn_writeQueue s \<noteq> [])))"

text \<open>Receiving: the bytes taken from the socket are the delivered frames and what has been read of
  the next one.\<close>

definition receiving_ok :: "link \<Rightarrow> bool" where
  "receiving_ok l \<longleftrightarrow> (let s = lk_connection l in
     (\<forall>m \<in> set (lk_delivered l). fits_frame m) \<and>
     (if cn_closed s then prefix (frames (lk_delivered l)) (lk_consumed l)
      else (case cn_reading s of
              NoRead \<Rightarrow> \<not> cn_started s \<and> lk_consumed l = [] \<and> lk_delivered l = []
            | PayloadRead t n \<Rightarrow> cn_started s \<and> 0 < n \<and> n \<le> MaxTcpPayloadBytes
                \<and> lk_consumed l = frames (lk_delivered l) @ frame_header t (of_nat n)
            | _ \<Rightarrow> cn_started s \<and> lk_consumed l = frames (lk_delivered l))))"

definition link_inv :: "link \<Rightarrow> bool" where
  "link_inv l \<longleftrightarrow> sending_ok l \<and> receiving_ok l
     \<and> length (lk_closes l) = (if cn_closed (lk_connection l) then 1 else 0)"

lemma link_inv_new: "link_inv link"
  by (simp add: link_inv_def sending_ok_def receiving_ok_def link_def AsioFramedConnection_def)

section \<open>The invariant is kept\<close>

lemmas operation_defs =
  operated_on_def FinishClose_def WriteNext_def Close_def CloseAfterFlush_def ReadHeader_def Start_def
  DeliverFrame_def callback_returned_def ReadPayload_def write_done_def then_op_def

text \<open>What an operation does to the two halves of the state. Sending changes what is read only by
  closing, and the other way round.\<close>

lemma closed_written: "sending_ok l \<Longrightarrow> prefix (lk_written l) (frames (lk_accepted l))"
  by (auto simp: sending_ok_def Let_def split: if_splits)

lemma delivered_consumed: "receiving_ok l \<Longrightarrow> prefix (frames (lk_delivered l)) (lk_consumed l)"
  by (auto simp: receiving_ok_def Let_def split: if_splits pending_read.splits)

lemma FinishClose_inv:
  assumes "sending_ok l" and "prefix (frames (lk_delivered l)) (lk_consumed l)"
    and "\<forall>m \<in> set (lk_delivered l). fits_frame m"
    and "length (lk_closes l) = (if cn_closed s then 1 else 0)"
    and "cn_closed s = cn_closed (lk_connection l)"
  shows "link_inv (operated_on (FinishClose e s) l)"
  using assms closed_written [OF assms(1)]
  by (auto simp: link_inv_def sending_ok_def receiving_ok_def operated_on_def FinishClose_def Let_def)

lemma Start_inv: "link_inv l \<Longrightarrow> link_inv (operated_on (Start (lk_connection l)) l)"
  by (auto simp: link_inv_def sending_ok_def receiving_ok_def operation_defs Let_def
      split: pending_read.splits if_splits)

lemma CloseAfterFlush_inv: "link_inv l \<Longrightarrow> link_inv (operated_on (CloseAfterFlush (lk_connection l)) l)"
  using closed_written [of l] delivered_consumed [of l]
  by (auto simp: link_inv_def sending_ok_def receiving_ok_def operation_defs Let_def
      split: pending_read.splits if_splits)

lemma Close_inv: "link_inv l \<Longrightarrow> link_inv (operated_on (Close (lk_connection l)) l)"
  using closed_written [of l] delivered_consumed [of l]
  by (auto simp: link_inv_def sending_ok_def receiving_ok_def operation_defs Let_def
      split: pending_read.splits if_splits)

lemma write_done_inv:
  "link_inv l \<Longrightarrow> cn_closed (lk_connection l) \<or> cn_writeInProgress (lk_connection l) \<Longrightarrow>
     link_inv (operated_on (write_done error (lk_connection l)) l)"
  using closed_written [of l] delivered_consumed [of l]
  by (cases "cn_writeQueue (lk_connection l)"; cases "tl (cn_writeQueue (lk_connection l))"; cases error)
    (auto simp: link_inv_def sending_ok_def receiving_ok_def operation_defs Let_def
      split: pending_read.splits if_splits)

lemma callback_returned_inv:
  "link_inv l \<Longrightarrow> cn_reading (lk_connection l) = InCallback \<Longrightarrow>
     link_inv (operated_on (callback_returned throws (lk_connection l)) l)"
  using closed_written [of l] delivered_consumed [of l]
  by (auto simp: link_inv_def sending_ok_def receiving_ok_def operation_defs Let_def
      split: pending_read.splits if_splits)

lemma EncodeTcpFrame_frame_of: "EncodeTcpFrame m = (if fits_frame m then Inr (frame_of m) else Inl Length_error)"
  by (cases "EncodeTcpFrame m")
    (auto simp: EncodeTcpFrame_iff EncodeTcpFrame_throws fits_frame_def frame_of_def)

lemma Send_inv:
  assumes "link_inv l"
  shows "link_inv (operated_on (snd (Send m (lk_connection l)))
    (l\<lparr>lk_accepted := lk_accepted l @ accepts (CallSend m) (lk_connection l)\<rparr>))"
  using assms closed_written [of l] delivered_consumed [of l]
  by (cases "cn_writeQueue (lk_connection l)")
    (auto simp: link_inv_def sending_ok_def receiving_ok_def operation_defs Let_def Send_def
      EncodeTcpFrame_frame_of split: pending_read.splits if_splits)

lemma call_inv: "link_inv l \<Longrightarrow> \<exists>l'. link_step l (Calling c) = Inr l' \<and> link_inv l'"
  by (cases c) (simp_all add: Start_inv Close_inv CloseAfterFlush_inv Send_inv del: accepts.simps(1))

text \<open>A completed read, with the bytes it took from the socket.\<close>

lemma read_failed_inv:
  assumes "link_inv l"
  shows "link_inv (operated_on (read_handler r (Inl e) (lk_connection l)) l)"
  using assms closed_written [of l] delivered_consumed [of l]
  by (cases r) (auto simp: link_inv_def sending_ok_def receiving_ok_def operation_defs Let_def
      header_read_def payload_read_def split: pending_read.splits if_splits)

lemma header_read_inv:
  assumes "link_inv l" and "cn_reading (lk_connection l) = HeaderRead"
  shows "link_inv (operated_on (header_read (Inr bytes) (lk_connection l))
    (l\<lparr>lk_consumed := lk_consumed l @ bytes\<rparr>))"
proof (cases "DecodeTcpFrameHeader bytes")
  case (Inl e)
  then show ?thesis
    using assms closed_written [of l] delivered_consumed [of l]
    by (auto simp: link_inv_def sending_ok_def receiving_ok_def operation_defs Let_def
        header_read_def split: if_splits)
next
  case (Inr h)
  have h: "unat (th_payloadBytes h) \<le> MaxTcpPayloadBytes" "bytes = frame_header (th_type h) (th_payloadBytes h)"
    using DecodeTcpFrameHeader_InrD [OF Inr] by simp_all
  show ?thesis
    using assms closed_written [of l] delivered_consumed [of l] Inr h(1)
    by (auto simp: h(2) link_inv_def sending_ok_def receiving_ok_def operation_defs Let_def
        header_read_def fits_frame_def frame_of_def unat_eq_zero unat_gt_0 split: if_splits)
qed

lemma payload_read_inv:
  assumes "link_inv l" and "cn_reading (lk_connection l) = PayloadRead t n" and "length bytes = n"
  shows "link_inv (operated_on (payload_read t (Inr bytes) (lk_connection l))
    (l\<lparr>lk_consumed := lk_consumed l @ bytes\<rparr>))"
  using assms closed_written [of l] delivered_consumed [of l]
  by (auto simp: link_inv_def sending_ok_def receiving_ok_def operation_defs Let_def
      payload_read_def fits_frame_def frame_of_def split: if_splits)

lemma link_inv_kept:
  assumes "link_inv l" and "asio_allows l e"
  shows "\<exists>l'. link_step l e = Inr l' \<and> link_inv l'"
proof (cases e)
  case (Calling c)
  then show ?thesis using call_inv [OF assms(1)] by simp
next
  case (ReadCompleted outcome)
  show ?thesis
  proof (cases outcome)
    case (Inl error)
    then show ?thesis using read_failed_inv [OF assms(1)] by (simp add: ReadCompleted del: read_handler.simps)
  next
    case (Inr bytes)
    with assms ReadCompleted show ?thesis
      using header_read_inv [OF assms(1)] payload_read_inv [OF assms(1)]
      by (cases "cn_reading (lk_connection l)") auto
  qed
next
  case (CallbackReturned throws)
  with assms show ?thesis by (simp add: callback_returned_inv)
next
  case (WriteCompleted error)
  with assms show ?thesis by (simp add: write_done_inv)
qed

interpretation link_machine: invariant_machine link_step link_inv asio_allows
  by unfold_locales (rule link_inv_kept)

section \<open>Two ends of a socket\<close>

lemma link_inv_run:
  "link_machine.allowed_run link es \<Longrightarrow> run_steps link_step link es = Inr l \<Longrightarrow> link_inv l"
  by (rule link_machine.run_inv [OF link_inv_new])

text \<open>TCP delivers a prefix of the bytes that were given to it.\<close>

lemma delivered_in_order:
  assumes "link_inv sender" and "link_inv receiver"
    and "prefix (lk_consumed receiver) (lk_written sender)"
  shows "prefix (lk_delivered receiver) (lk_accepted sender)"
proof (rule frames_prefix)
  show "prefix (frames (lk_delivered receiver)) (frames (lk_accepted sender))"
    using assms delivered_consumed [of receiver] closed_written [of sender]
    by (auto simp: link_inv_def elim: prefix_order.trans)
  show "\<forall>m \<in> set (lk_delivered receiver). fits_frame m"
    using assms(2) by (simp add: link_inv_def receiving_ok_def Let_def)
  show "\<forall>m \<in> set (lk_accepted sender). fits_frame m"
    using assms(1) by (simp add: link_inv_def sending_ok_def Let_def)
qed

text \<open>A receiver that waits for the next frame has delivered everything it took.\<close>

definition awaits_frame :: "link \<Rightarrow> bool" where
  "awaits_frame l \<longleftrightarrow> \<not> cn_closed (lk_connection l) \<and> cn_reading (lk_connection l) = HeaderRead"

definition nothing_queued :: "link \<Rightarrow> bool" where
  "nothing_queued l \<longleftrightarrow> \<not> cn_closed (lk_connection l) \<and> cn_writeQueue (lk_connection l) = []"

lemma delivered_all:
  assumes sender: "link_inv sender" "nothing_queued sender"
    and receiver: "link_inv receiver" "awaits_frame receiver"
    and same: "lk_consumed receiver = lk_written sender"
  shows "lk_delivered receiver = lk_accepted sender"
proof -
  have "frames (lk_accepted sender) = frames (lk_delivered receiver)"
    using assms by (simp add: link_inv_def sending_ok_def receiving_ok_def nothing_queued_def
        awaits_frame_def Let_def)
  then have "prefix (lk_accepted sender) (lk_delivered receiver)"
    using sender(1) receiver(1)
    by (intro frames_prefix) (simp_all add: link_inv_def sending_ok_def receiving_ok_def Let_def)
  with delivered_in_order [OF sender(1) receiver(1)] same show ?thesis
    by (simp add: prefix_order.antisym)
qed

section \<open>Closing after a flush\<close>

lemma flush_step:
  assumes "link_inv l" and "cn_writeQueue (lk_connection l) = frame # queue"
    and "\<not> cn_closed (lk_connection l)" and "cn_closeAfterFlush (lk_connection l)"
  shows "\<exists>l'. link_step l (WriteCompleted None) = Inr l' \<and> lk_accepted l' = lk_accepted l
    \<and> cn_writeQueue (lk_connection l') = queue
    \<and> (if queue = []
       then cn_closed (lk_connection l') \<and> lk_written l' = lk_written l \<and> lk_closes l' = [OperationAborted]
       else \<not> cn_closed (lk_connection l') \<and> cn_closeAfterFlush (lk_connection l'))"
  using assms by (auto simp: link_inv_def sending_ok_def operation_defs Let_def)

lemma flush_completes:
  assumes "link_inv l" and "\<not> cn_closed (lk_connection l)" and "cn_closeAfterFlush (lk_connection l)"
  shows "\<exists>l'. run_steps link_step l (replicate (length (cn_writeQueue (lk_connection l))) (WriteCompleted None)) = Inr l'
    \<and> cn_closed (lk_connection l') \<and> lk_written l' = frames (lk_accepted l)
    \<and> lk_accepted l' = lk_accepted l \<and> lk_closes l' = [OperationAborted]"
  using assms
proof (induction "cn_writeQueue (lk_connection l)" arbitrary: l)
  case Nil
  then show ?case by (simp add: link_inv_def sending_ok_def Let_def)
next
  case (Cons frame queue)
  have queue: "cn_writeQueue (lk_connection l) = frame # queue" using Cons.hyps(2) by simp
  obtain l' where l': "link_step l (WriteCompleted None) = Inr l'" "lk_accepted l' = lk_accepted l"
      "cn_writeQueue (lk_connection l') = queue"
    and outcome: "if queue = []
       then cn_closed (lk_connection l') \<and> lk_written l' = lk_written l \<and> lk_closes l' = [OperationAborted]
       else \<not> cn_closed (lk_connection l') \<and> cn_closeAfterFlush (lk_connection l')"
    using flush_step [OF Cons.prems(1) queue Cons.prems(2,3)] by blast
  have "link_inv l'"
    by (rule link_machine.step_inv [OF Cons.prems(1) _ l'(1)])
      (use Cons.prems queue in \<open>simp add: link_inv_def sending_ok_def Let_def\<close>)
  show ?case
  proof (cases "queue = []")
    case True
    moreover have "lk_written l = frames (lk_accepted l)"
      using Cons.prems queue True by (simp add: link_inv_def sending_ok_def Let_def)
    ultimately show ?thesis using outcome l' queue by simp
  next
    case False
    then obtain l'' where "run_steps link_step l' (replicate (length queue) (WriteCompleted None)) = Inr l''"
        "cn_closed (lk_connection l'')" "lk_written l'' = frames (lk_accepted l')"
        "lk_accepted l'' = lk_accepted l'" "lk_closes l'' = [OperationAborted]"
      using Cons.hyps(1) [of l'] \<open>link_inv l'\<close> outcome l'(3) by auto
    with l' queue show ?thesis by simp
  qed
qed

lemma CloseAfterFlush_flushes:
  assumes "link_inv l" and "\<not> cn_closed (lk_connection l)"
  shows "\<exists>l'. run_steps link_step l (Calling CallCloseAfterFlush
        # replicate (length (cn_writeQueue (lk_connection l))) (WriteCompleted None)) = Inr l'
    \<and> cn_closed (lk_connection l') \<and> lk_written l' = frames (lk_accepted l)
    \<and> lk_accepted l' = lk_accepted l \<and> lk_closes l' = [OperationAborted]"
proof -
  obtain l1 where l1: "link_step l (Calling CallCloseAfterFlush) = Inr l1" "link_inv l1"
    using call_inv [OF assms(1)] by blast
  have same: "lk_accepted l1 = lk_accepted l" "cn_writeQueue (lk_connection l1) = cn_writeQueue (lk_connection l)"
      "lk_written l1 = lk_written l"
    and flag: "if cn_writeQueue (lk_connection l) = [] \<and> \<not> cn_closeAfterFlush (lk_connection l)
      then cn_closed (lk_connection l1) \<and> lk_closes l1 = [OperationAborted]
      else \<not> cn_closed (lk_connection l1) \<and> cn_closeAfterFlush (lk_connection l1)"
    using l1(1) assms by (auto simp: link_inv_def sending_ok_def operation_defs Let_def split: if_splits)
  show ?thesis
  proof (cases "cn_closed (lk_connection l1)")
    case True
    then have "cn_writeQueue (lk_connection l) = []" "lk_closes l1 = [OperationAborted]"
      using flag by (auto split: if_splits)
    moreover then have "lk_written l = frames (lk_accepted l)"
      using assms by (simp add: link_inv_def sending_ok_def Let_def)
    ultimately show ?thesis using l1 same True by simp
  next
    case False
    then have "cn_closeAfterFlush (lk_connection l1)" using flag by (auto split: if_splits)
    from flush_completes [OF l1(2) False this] show ?thesis using l1(1) same by simp
  qed
qed

end
