(* ===== verification/GameSamples.thy ===== *)
theory GameSamples
  imports Samples WorkerHandover FixedTickScheduler GameTcpCodec SnapshotReassembler UdpDatagramQueue
    GameSnapshotCodec FramedConnection
begin

text \<open>
  Concrete inputs beyond the lobby: a worker that registers and is asked for the match of the
  sample run, a queue of delayed datagrams, a snapshot, and the two ends of a connection.
\<close>

definition sample_worker :: worker_connection_id where
  "sample_worker = Ident 1"

definition sample_registration :: worker_register where
  "sample_registration = \<lparr>wr_worker = WorkerId 5, wr_advertisedHost = ''10.0.0.1'',
     wr_gameTcpPort = 7000, wr_gameUdpPort = 7001, wr_capacity = 1\<rparr>"

definition sample_requests :: "registry_event list" where
  "sample_requests =
     [Registering sample_worker sample_registration, Executing (ReserveMatchAction sample_action) 2000]"

definition sample_workers :: worker_registry where
  "sample_workers = snd (registry_run WorkerRegistry sample_requests)"

definition sample_reservation :: reserve_match where
  "sample_reservation = \<lparr>rm_reservation = ReservationId 1, rm_match = MatchId 1, rm_seed = 42,
     rm_ticketLifetimeMilliseconds = 60000,
     rm_participants = [\<lparr>rp_player = PlayerId 2, rp_ticket = sample_ticket 1\<rparr>,
                        \<lparr>rp_player = PlayerId 1, rp_ticket = sample_ticket 0\<rparr>]\<rparr>"

definition sample_shaping :: shaper_config where
  "sample_shaping = \<lparr>sc_oneWayLatency = 50, sc_jitter = 10, sc_lossBasisPoints = 0, sc_seed = 7\<rparr>"

definition fragments_of :: "u32 \<Rightarrow> byte list \<Rightarrow> snapshot_fragment list" where
  "fragments_of snapshot p =
     (case FragmentSnapshot (MatchId 1) snapshot 30 2 p of Inl e \<Rightarrow> [] | Inr fs \<Rightarrow> fs)"

definition sample_contender :: network_actor where
  "sample_contender = \<lparr>na_id = EntityId 1, na_role = RoleContender, na_neutralArchetype = ArchetypeNone,
     na_position = \<lparr>nv_x = 0, nv_z = 0\<rparr>, na_health = 100, na_alive = True, na_weapon = 1,
     na_cooldownTicksRemaining = 0, na_eliminations = 2\<rparr>"

definition sample_neutral :: network_actor where
  "sample_neutral = sample_contender\<lparr>na_id := EntityId 9, na_role := RoleNeutral,
     na_neutralArchetype := ArchetypeMelee, na_health := 0, na_alive := False\<rparr>"

text \<open>A running match, with the actors out of order.\<close>

definition sample_snapshot :: game_snapshot where
  "sample_snapshot = \<lparr>gs_phase = 2, gs_safeZoneStage = 1, gs_safeZoneCenter = \<lparr>nv_x = 0, nv_z = 0\<rparr>,
     gs_safeZoneRadius = 0, gs_aliveContenders = 1, gs_actors = [sample_neutral, sample_contender],
     gs_loot = [], gs_result = no_match_result, gs_hasResult = False, gs_eventChecksum = 77\<rparr>"

definition sample_message :: encoded_message where
  "sample_message = \<lparr>em_type = MT_ListRoomsRequest, em_payload = [7, 0, 0, 0]\<rparr>"

definition sample_sending :: "connection_event list" where
  "sample_sending = [Calling (CallSend sample_message), Calling (CallSend sample_message)]"

definition sample_receiving :: "connection_event list" where
  "sample_receiving =
     [Calling CallStart, ReadCompleted (Inr (frame_header MT_ListRoomsRequest 4)),
      ReadCompleted (Inr [7, 0, 0, 0]), CallbackReturned False]"

text \<open>What the two runs lead to.\<close>

lemma sample_sending_run:
  "\<exists>l. run_steps link_step link sample_sending = Inr l \<and> link_machine.allowed_run link sample_sending
    \<and> lk_accepted l = [sample_message, sample_message] \<and> lk_written l = frame_of sample_message
    \<and> length (cn_writeQueue (lk_connection l)) = 2 \<and> \<not> cn_closed (lk_connection l)"
  by (simp add: sample_sending_def link_def AsioFramedConnection_def Send_def EncodeTcpFrame_frame_of
      fits_frame_def frame_of_def sample_message_def operation_defs MaxPendingWriteBytes_def
      MaxTcpPayloadBytes_def MaxTcpFrameBytes_def TcpFrameHeaderBytes_def Let_def)

lemma sample_receiving_run:
  "\<exists>l. run_steps link_step link sample_receiving = Inr l \<and> link_machine.allowed_run link sample_receiving
    \<and> lk_delivered l = [sample_message] \<and> lk_consumed l = frame_of sample_message"
  by (simp add: sample_receiving_def link_def AsioFramedConnection_def header_read_def payload_read_def
      DecodeTcpFrameHeader_frame_header frame_of_def sample_message_def operation_defs
      MaxTcpPayloadBytes_def MaxTcpFrameBytes_def TcpFrameHeaderBytes_def Let_def)

end
