(* ===== verification/ReplicationTypes.thy ===== *)
theory ReplicationTypes
  imports GameSnapshotCodec
begin

text \<open>
  protocol/include/dxa/protocol/ReplicationSnapshot.hpp: the payloads of interest and delta
  snapshots. As in \<open>GameSnapshotCodec\<close>, enumerations are their underlying bytes, because
  the decoder casts first and checks later. The masks of changed fields are bytes in the source
  too. Floats are compared as floats: a default comparison of two snapshots takes two zeros of
  different sign for equal, and a NaN for different from itself.
\<close>

section \<open>Enumerators and masks\<close>

definition KindFullState :: u8 where "KindFullState = 1"
definition KindKeyframe :: u8 where "KindKeyframe = 2"
definition KindDelta :: u8 where "KindDelta = 3"

definition EncodingFullPrecision :: u8 where "EncodingFullPrecision = 1"
definition EncodingQuantized :: u8 where "EncodingQuantized = 2"

definition ActorPosition :: u8 where "ActorPosition = 1"
definition ActorHealthAlive :: u8 where "ActorHealthAlive = 2"
definition ActorWeaponCooldown :: u8 where "ActorWeaponCooldown = 4"
definition ActorEliminations :: u8 where "ActorEliminations = 8"

definition LootActive :: u8 where "LootActive = 1"

definition GlobalPhase :: u8 where "GlobalPhase = 1"
definition GlobalSafeZone :: u8 where "GlobalSafeZone = 2"
definition GlobalAliveContenders :: u8 where "GlobalAliveContenders = 4"
definition GlobalResult :: u8 where "GlobalResult = 8"
definition GlobalEventChecksum :: u8 where "GlobalEventChecksum = 16"

lemmas field_masks =
  ActorPosition_def ActorHealthAlive_def ActorWeaponCooldown_def ActorEliminations_def LootActive_def
  GlobalPhase_def GlobalSafeZone_def GlobalAliveContenders_def GlobalResult_def GlobalEventChecksum_def

lemmas payload_kinds = KindFullState_def KindKeyframe_def KindDelta_def
  EncodingFullPrecision_def EncodingQuantized_def

definition AllActorFields :: u8 where
  "AllActorFields = ActorPosition OR ActorHealthAlive OR ActorWeaponCooldown OR ActorEliminations"

definition AllGlobalFields :: u8 where
  "AllGlobalFields = GlobalPhase OR GlobalSafeZone OR GlobalAliveContenders OR GlobalResult
     OR GlobalEventChecksum"

definition HasOnlyKnownBits :: "u8 \<Rightarrow> u8 \<Rightarrow> bool" where
  "HasOnlyKnownBits value knownBits \<longleftrightarrow> value AND NOT knownBits = 0"

definition IsValidActorFieldMask :: "u8 \<Rightarrow> bool" where
  "IsValidActorFieldMask bits = HasOnlyKnownBits bits AllActorFields"

definition IsValidGlobalFieldMask :: "u8 \<Rightarrow> bool" where
  "IsValidGlobalFieldMask bits = HasOnlyKnownBits bits AllGlobalFields"

definition HasField :: "u8 \<Rightarrow> u8 \<Rightarrow> bool" where
  "HasField bits field \<longleftrightarrow> bits AND field \<noteq> 0"

section \<open>Quantized values\<close>

record quantized_vec2 =
  qv_x :: u16
  qv_z :: u16

record quantized_actor =
  qa_id :: entity_id
  qa_role :: u8
  qa_neutralArchetype :: u8
  qa_position :: quantized_vec2
  qa_health :: u8
  qa_alive :: bool
  qa_weapon :: u8
  qa_cooldownTicksRemaining :: u16
  qa_eliminations :: u8

record quantized_loot =
  ql_id :: u32
  ql_type :: u8
  ql_position :: quantized_vec2
  ql_active :: bool

record quantized_global =
  qg_phase :: u8
  qg_safeZoneStage :: u8
  qg_safeZoneCenter :: quantized_vec2
  qg_safeZoneRadius :: u16
  qg_aliveContenders :: u8
  qg_result :: network_match_result
  qg_hasResult :: bool
  qg_eventChecksum :: u64

record actor_delta =
  ad_id :: entity_id
  ad_fields :: u8
  ad_position :: quantized_vec2
  ad_health :: u8
  ad_alive :: bool
  ad_weapon :: u8
  ad_cooldownTicksRemaining :: u16
  ad_eliminations :: u8

record loot_delta =
  ld_id :: u32
  ld_fields :: u8
  ld_active :: bool

record global_delta =
  gd_fields :: u8
  gd_phase :: u8
  gd_safeZoneStage :: u8
  gd_safeZoneCenter :: quantized_vec2
  gd_safeZoneRadius :: u16
  gd_aliveContenders :: u8
  gd_result :: network_match_result
  gd_hasResult :: bool
  gd_eventChecksum :: u64

record payload_header =
  ph_kind :: u8
  ph_valueEncoding :: u8
  ph_baseSnapshotId :: u32
  ph_payloadSnapshotId :: u32

record snapshot_payload =
  sp_header :: payload_header
  sp_fullPrecision :: game_snapshot
  sp_global :: quantized_global
  sp_actorValues :: "quantized_actor list"
  sp_lootValues :: "quantized_loot list"
  sp_actorDeltas :: "actor_delta list"
  sp_lootDeltas :: "loot_delta list"
  sp_removedActors :: "entity_id list"
  sp_removedLoot :: "u32 list"
  sp_globalDelta :: global_delta

text \<open>Default values. \<open>0x43000000\<close> is the float 128.\<close>

definition default_game_snapshot :: game_snapshot where
  "default_game_snapshot =
     \<lparr>gs_phase = 1, gs_safeZoneStage = 1, gs_safeZoneCenter = \<lparr>nv_x = 0, nv_z = 0\<rparr>,
      gs_safeZoneRadius = 0x43000000, gs_aliveContenders = 0, gs_actors = [], gs_loot = [],
      gs_result = no_match_result, gs_hasResult = False, gs_eventChecksum = 0\<rparr>"

definition default_vec2 :: quantized_vec2 where "default_vec2 = \<lparr>qv_x = 0, qv_z = 0\<rparr>"

definition default_global :: quantized_global where
  "default_global =
     \<lparr>qg_phase = 1, qg_safeZoneStage = 1, qg_safeZoneCenter = default_vec2, qg_safeZoneRadius = 0,
      qg_aliveContenders = 0, qg_result = no_match_result, qg_hasResult = False, qg_eventChecksum = 0\<rparr>"

definition default_actor_delta :: actor_delta where
  "default_actor_delta =
     \<lparr>ad_id = EntityId 0, ad_fields = 0, ad_position = default_vec2, ad_health = 100, ad_alive = True,
      ad_weapon = 1, ad_cooldownTicksRemaining = 0, ad_eliminations = 0\<rparr>"

definition default_global_delta :: global_delta where
  "default_global_delta =
     \<lparr>gd_fields = 0, gd_phase = 1, gd_safeZoneStage = 1, gd_safeZoneCenter = default_vec2,
      gd_safeZoneRadius = 0, gd_aliveContenders = 0, gd_result = no_match_result, gd_hasResult = False,
      gd_eventChecksum = 0\<rparr>"

definition payload_with_header :: "payload_header \<Rightarrow> snapshot_payload" where
  "payload_with_header header =
     \<lparr>sp_header = header, sp_fullPrecision = default_game_snapshot, sp_global = default_global,
      sp_actorValues = [], sp_lootValues = [], sp_actorDeltas = [], sp_lootDeltas = [],
      sp_removedActors = [], sp_removedLoot = [], sp_globalDelta = default_global_delta\<rparr>"

section \<open>Comparison of snapshots\<close>

definition f32_eq :: "f32 \<Rightarrow> f32 \<Rightarrow> bool" where
  "f32_eq a b \<longleftrightarrow> \<not> f32_nan a \<and> \<not> f32_nan b \<and> f32_rank a = f32_rank b"

definition vec2_eq :: "network_vec2 \<Rightarrow> network_vec2 \<Rightarrow> bool" where
  "vec2_eq a b \<longleftrightarrow> f32_eq (nv_x a) (nv_x b) \<and> f32_eq (nv_z a) (nv_z b)"

definition actor_eq :: "network_actor \<Rightarrow> network_actor \<Rightarrow> bool" where
  "actor_eq a b \<longleftrightarrow> vec2_eq (na_position a) (na_position b) \<and> a\<lparr>na_position := na_position b\<rparr> = b"

definition loot_eq :: "network_loot \<Rightarrow> network_loot \<Rightarrow> bool" where
  "loot_eq a b \<longleftrightarrow> vec2_eq (nl_position a) (nl_position b) \<and> a\<lparr>nl_position := nl_position b\<rparr> = b"

definition snapshot_eq :: "game_snapshot \<Rightarrow> game_snapshot \<Rightarrow> bool" where
  "snapshot_eq a b \<longleftrightarrow>
     vec2_eq (gs_safeZoneCenter a) (gs_safeZoneCenter b)
     \<and> f32_eq (gs_safeZoneRadius a) (gs_safeZoneRadius b)
     \<and> list_all2 actor_eq (gs_actors a) (gs_actors b)
     \<and> list_all2 loot_eq (gs_loot a) (gs_loot b)
     \<and> a\<lparr>gs_safeZoneCenter := gs_safeZoneCenter b, gs_safeZoneRadius := gs_safeZoneRadius b,
         gs_actors := gs_actors b, gs_loot := gs_loot b\<rparr> = b"

end
