(* ===== verification/FloatArith.thy ===== *)
theory FloatArith
  imports ReplicationTypes "HOL-Library.Log_Nat"
begin

text \<open>
  IEEE-754 arithmetic as the code uses it: \<^verbatim>\<open>float\<close> values are bit patterns (as in
  \<open>ByteCodec\<close>), the numbers they stand for are rationals, and an operation is the exact
  result rounded to nearest, ties to even. A \<^verbatim>\<open>double\<close> appears only between a
  \<^verbatim>\<open>float\<close> and an integer, where it neither overflows nor is a NaN; it is the
  rational it stands for, and \<open>f64\<close> is the rounding of its operations.
\<close>

section \<open>Rounding\<close>

definition round_half_even :: "rat \<Rightarrow> int" where
  "round_half_even x =
     (let n = \<lfloor>x\<rfloor>; d = x - of_int n
      in if d < 1/2 then n else if 1/2 < d then n + 1 else if even n then n else n + 1)"

text \<open>The exponent of the leading binary digit of a positive number.\<close>

definition log2_floor :: "rat \<Rightarrow> int" where
  "log2_floor x =
     (let (n, d) = quotient_of x;
          l = bitlen n - bitlen d
      in if x < 2 powi l then l - 1 else l)"

text \<open>Rounding to \<open>p\<close> significant bits, none of them below \<open>2 powi emin\<close>.\<close>

definition ulp_exp :: "nat \<Rightarrow> int \<Rightarrow> rat \<Rightarrow> int" where
  "ulp_exp p emin x = max emin (log2_floor x - int p + 1)"

definition round_pos :: "nat \<Rightarrow> int \<Rightarrow> rat \<Rightarrow> rat" where
  "round_pos p emin x =
     (if x \<le> 0 then 0
      else of_int (round_half_even (x / 2 powi ulp_exp p emin x)) * 2 powi ulp_exp p emin x)"

definition round_bits :: "nat \<Rightarrow> int \<Rightarrow> rat \<Rightarrow> rat" where
  "round_bits p emin x = (if x < 0 then - round_pos p emin (- x) else round_pos p emin x)"

definition f64 :: "rat \<Rightarrow> rat" where "f64 x = round_bits 53 (- 1074) x"

lemma round_half_even_of_int [simp]: "round_half_even (of_int n) = n"
  by (simp add: round_half_even_def)

lemma round_half_even_between: "\<lfloor>x\<rfloor> \<le> round_half_even x \<and> round_half_even x \<le> \<lfloor>x\<rfloor> + 1"
  by (simp add: round_half_even_def Let_def)

lemma round_half_even_mono:
  assumes "x \<le> y"
  shows "round_half_even x \<le> round_half_even y"
proof (cases "\<lfloor>x\<rfloor> = \<lfloor>y\<rfloor>")
  case True
  with assms show ?thesis by (simp add: round_half_even_def Let_def)
next
  case False
  with assms have "\<lfloor>x\<rfloor> + 1 \<le> \<lfloor>y\<rfloor>" using floor_mono [OF assms] by linarith
  then show ?thesis using round_half_even_between [of x] round_half_even_between [of y] by linarith
qed

lemma round_half_even_ge: "of_int n \<le> x \<Longrightarrow> n \<le> round_half_even x"
  using round_half_even_mono [of "of_int n" x] by simp

lemma round_half_even_le: "x \<le> of_int n \<Longrightarrow> round_half_even x \<le> n"
  using round_half_even_mono [of x "of_int n"] by simp

lemma round_half_even_err: "\<bar>of_int (round_half_even x) - x\<bar> \<le> 1/2"
proof -
  have "of_int \<lfloor>x\<rfloor> \<le> x" "x < of_int \<lfloor>x\<rfloor> + 1" by linarith+
  then show ?thesis by (auto simp: round_half_even_def Let_def abs_le_iff)
qed

lemma powi_mono: "a \<le> b \<Longrightarrow> (2::rat) powi a \<le> 2 powi b"
  by (rule power_int_increasing) simp_all

lemma powi_strict_mono: "a < b \<Longrightarrow> (2::rat) powi a < 2 powi b"
  by (rule power_int_strict_increasing) simp_all

lemma powi_less_iff: "(2::rat) powi a < 2 powi b \<longleftrightarrow> a < b"
  using powi_mono [of b a] powi_strict_mono [of a b] by linarith

lemma powi_pos [simp]: "0 < (2::rat) powi a"
  by (simp add: zero_less_power_int)

lemma log2_floor:
  assumes "0 < x"
  shows "2 powi log2_floor x \<le> x \<and> x < 2 powi (log2_floor x + 1)"
proof -
  obtain n d where q: "quotient_of x = (n, d)" by (cases "quotient_of x")
  then have d: "0 < d" and x: "x = of_int n / of_int d"
    using quotient_of_denom_pos quotient_of_div by auto
  then have n: "0 < n" using assms by (simp add: zero_less_divide_iff)
  define a where "a = nat (bitlen n)"
  define b where "b = nat (bitlen d)"
  have bl: "bitlen n = int a" "bitlen d = int b" by (simp_all add: a_def b_def bitlen_nonneg)
  have ab: "0 < a" "0 < b" using n d bitlen_eq_zero_iff [of n] bitlen_eq_zero_iff [of d] bl by auto
  have bounds: "2 ^ (a - 1) \<le> n" "n < 2 ^ a" "2 ^ (b - 1) \<le> d" "d < 2 ^ b"
    using bitlen_bounds [OF n] bitlen_bounds [OF d] ab by (simp_all add: bl nat_diff_distrib)
  have n_real: "(2::rat) ^ (a - 1) \<le> of_int n" "of_int n < (2::rat) ^ a"
    "(2::rat) ^ (b - 1) \<le> of_int d" "of_int d < (2::rat) ^ b"
    using bounds by (metis of_int_le_iff of_int_less_iff of_int_numeral of_int_power)+
  have pw: "(2::rat) ^ a = 2 powi int a" "(2::rat) ^ (b - 1) = 2 powi (int b - 1)"
    "(2::rat) ^ (a - 1) = 2 powi (int a - 1)" "(2::rat) ^ b = 2 powi int b"
    using power_int_of_nat [of "2::rat" "b - 1"] power_int_of_nat [of "2::rat" "a - 1"] ab
    by (simp_all add: of_nat_diff)
  have upper: "x < 2 powi (int a - int b + 1)"
  proof -
    have "x < 2 ^ a / of_int d" using n_real(2) d by (simp add: x divide_strict_right_mono)
    also have "\<dots> \<le> 2 ^ a / 2 ^ (b - 1)" using n_real(3) d by (intro divide_left_mono) simp_all
    also have "\<dots> = 2 powi (int a - (int b - 1))" unfolding pw by (rule power_int_diff [symmetric]) simp
    finally show ?thesis by (simp add: algebra_simps)
  qed
  have lower: "2 powi (int a - int b - 1) \<le> x"
  proof -
    have "(2::rat) powi (int a - int b - 1) = 2 powi ((int a - 1) - int b)" by (simp add: algebra_simps)
    also have "\<dots> = 2 ^ (a - 1) / 2 ^ b" unfolding pw by (rule power_int_diff) simp
    also have "\<dots> \<le> of_int n / 2 ^ b" using n_real(1) by (intro divide_right_mono) simp_all
    also have "\<dots> \<le> x" using n_real(4) n d unfolding x by (intro divide_left_mono) simp_all
    finally show ?thesis .
  qed
  show ?thesis
    using upper lower by (simp add: log2_floor_def q Let_def bl)
qed

lemma log2_floor_less: "0 < x \<Longrightarrow> x < 2 powi l \<Longrightarrow> log2_floor x < l"
  using log2_floor [of x] powi_less_iff [of "log2_floor x" l] by linarith

lemma log2_floor_ge: "0 < x \<Longrightarrow> 2 powi l \<le> x \<Longrightarrow> l \<le> log2_floor x"
  using log2_floor [of x] powi_less_iff [of l "log2_floor x + 1"] by linarith

lemma log2_floor_mono: "0 < x \<Longrightarrow> x \<le> y \<Longrightarrow> log2_floor x \<le> log2_floor y"
  using log2_floor [of x] by (intro log2_floor_ge) linarith+

section \<open>What rounding keeps\<close>

lemma round_pos_nonneg: "0 \<le> round_pos p emin x"
proof (cases "0 < x")
  case True
  then have "0 \<le> x / 2 powi ulp_exp p emin x" by simp
  then have "0 \<le> round_half_even (x / 2 powi ulp_exp p emin x)"
    using round_half_even_mono [of 0 "x / 2 powi ulp_exp p emin x"] round_half_even_of_int [of 0] by simp
  then show ?thesis using True by (simp add: round_pos_def)
qed (simp add: round_pos_def)

text \<open>A multiple of a power of two that is not finer than the last place is kept.\<close>

lemma round_pos_multiple:
  assumes "x = of_int n * 2 powi e" and "0 \<le> n" and "ulp_exp p emin x \<le> e"
  shows "round_pos p emin x = x"
proof (cases "n = 0")
  case False
  with assms have x: "0 < x" by simp
  let ?u = "ulp_exp p emin x"
  have "x / 2 powi ?u = of_int n * 2 powi (e - ?u)" by (simp add: assms(1) power_int_diff)
  also have "\<dots> = of_int (n * 2 ^ nat (e - ?u))" using assms(3) by (simp add: power_int_nonneg_exp)
  finally have q: "x / 2 powi ?u = of_int (n * 2 ^ nat (e - ?u))" .
  have "round_pos p emin x = of_int (n * 2 ^ nat (e - ?u)) * 2 powi ?u"
    using x unfolding round_pos_def q round_half_even_of_int by simp
  also have "\<dots> = x" unfolding q [symmetric] by simp
  finally show ?thesis .
qed (use assms in \<open>simp add: round_pos_def\<close>)

lemma ulp_exp_le:
  assumes "0 < x" and "x < 2 powi (e + int p)" and "emin \<le> e"
  shows "ulp_exp p emin x \<le> e"
  using log2_floor_less [OF assms(1,2)] assms(3) by (simp add: ulp_exp_def)

lemma round_pos_exact:
  assumes "x = of_int n * 2 powi e" and "0 \<le> n" and "n < 2 ^ p" and "emin \<le> e"
  shows "round_pos p emin x = x"
proof (cases "n = 0")
  case False
  have "of_int n < (2::rat) ^ p" using assms(3) by (metis of_int_less_iff of_int_numeral of_int_power)
  then have "x < 2 powi (e + int p)" by (simp add: assms(1) power_int_add mult.commute)
  moreover have "0 < x" using assms(1,2) False by simp
  ultimately show ?thesis using assms by (intro round_pos_multiple [OF assms(1,2)] ulp_exp_le) simp_all
qed (use assms in \<open>simp add: round_pos_def\<close>)

lemma round_pos_power: "emin \<le> e \<Longrightarrow> 0 < p \<Longrightarrow> round_pos p emin (2 powi e) = 2 powi e"
  using round_pos_exact [of "2 powi e" 1 e p emin] by simp

lemma round_pos_le_multiple:
  assumes "0 < x" and "x \<le> of_int m * 2 powi ulp_exp p emin x"
  shows "round_pos p emin x \<le> of_int m * 2 powi ulp_exp p emin x"
proof -
  have "x / 2 powi ulp_exp p emin x \<le> of_int m" using assms(2) by (simp add: pos_divide_le_eq)
  then have "round_half_even (x / 2 powi ulp_exp p emin x) \<le> m"
    by (rule round_half_even_le)
  then show ?thesis using assms(1) by (simp add: round_pos_def)
qed

lemma round_pos_mono:
  assumes "x \<le> y" and "0 < p"
  shows "round_pos p emin x \<le> round_pos p emin y"
proof (cases "0 < x")
  case True
  let ?a = "ulp_exp p emin x" and ?b = "ulp_exp p emin y"
  have le: "log2_floor x \<le> log2_floor y" using True assms(1) by (rule log2_floor_mono)
  show ?thesis
  proof (cases "?a = ?b")
    case True
    then have "round_half_even (x / 2 powi ?a) \<le> round_half_even (y / 2 powi ?b)"
      using assms(1) by (intro round_half_even_mono) (simp add: divide_right_mono)
    then show ?thesis using \<open>0 < x\<close> assms(1) True by (simp add: round_pos_def)
  next
    case False
    define l where "l = log2_floor y"
    have b: "?b = l - int p + 1" "emin \<le> ?b" "?a < ?b" "log2_floor x + 1 \<le> l"
      using False le by (auto simp: ulp_exp_def l_def max_def split: if_splits)
    have y: "2 powi l \<le> y" using log2_floor [of y] True assms(1) by (simp add: l_def)
    have "x \<le> 2 powi l"
      using log2_floor [OF True] powi_mono [OF b(4)] by linarith
    moreover have "(2::rat) powi l = of_int (2 ^ nat (l - ?a)) * 2 powi ?a"
    proof -
      have "(2::rat) ^ nat (l - ?a) = 2 powi (l - ?a)" using b assms(2) by (simp add: power_int_nonneg_exp)
      then show ?thesis by (simp add: power_int_diff)
    qed
    ultimately have "round_pos p emin x \<le> 2 powi l"
      using round_pos_le_multiple [OF True, of "2 ^ nat (l - ?a)" p emin] by simp
    moreover have "2 powi l \<le> round_pos p emin y"
    proof -
      define k where "k = (2 ^ nat (l - ?b) :: int)"
      have k: "of_int k = (2::rat) powi (l - ?b)" using b(1) assms(2) by (simp add: k_def power_int_nonneg_exp)
      then have "of_int k \<le> y / 2 powi ?b" using y by (simp add: power_int_diff divide_right_mono)
      then have "k \<le> round_half_even (y / 2 powi ?b)" by (rule round_half_even_ge)
      then have "of_int k * 2 powi ?b \<le> of_int (round_half_even (y / 2 powi ?b)) * (2::rat) powi ?b"
        by (intro mult_right_mono) (simp_all only: of_int_le_iff, simp)
      moreover have "of_int k * 2 powi ?b = (2::rat) powi l" by (simp add: k power_int_diff)
      ultimately show ?thesis using True assms(1) by (simp add: round_pos_def)
    qed
    ultimately show ?thesis by simp
  qed
next
  case False
  then show ?thesis using round_pos_nonneg by (simp add: round_pos_def)
qed

text \<open>The error is at most half a unit in the last place.\<close>

lemma round_pos_err:
  assumes "0 \<le> x" and "x < 2 powi (e + int p)" and "emin \<le> e"
  shows "\<bar>round_pos p emin x - x\<bar> \<le> 2 powi (e - 1)"
proof (cases "x = 0")
  case True
  then show ?thesis by (simp add: round_pos_def)
next
  case False
  let ?u = "2 powi ulp_exp p emin x :: rat"
  have x: "0 < x" using assms(1) False by simp
  have "round_pos p emin x - x = (of_int (round_half_even (x / ?u)) - x / ?u) * ?u"
    using x by (simp add: round_pos_def left_diff_distrib)
  then have "\<bar>round_pos p emin x - x\<bar> = \<bar>of_int (round_half_even (x / ?u)) - x / ?u\<bar> * ?u"
    by (simp add: abs_mult)
  also have "\<dots> \<le> 1/2 * ?u" by (intro mult_right_mono round_half_even_err) simp
  also have "\<dots> \<le> 1/2 * 2 powi e" using powi_mono [OF ulp_exp_le [OF x assms(2,3)]] by simp
  also have "\<dots> = 2 powi (e - 1)" by (simp add: power_int_diff)
  finally show ?thesis .
qed

lemma round_bits_mono: "x \<le> y \<Longrightarrow> 0 < p \<Longrightarrow> round_bits p emin x \<le> round_bits p emin y"
  using round_pos_mono [of x y p emin] round_pos_mono [of "- y" "- x" p emin]
    round_pos_nonneg [of p emin y] round_pos_nonneg [of p emin "- x"]
  by (auto simp: round_bits_def)

lemma round_bits_minus: "round_bits p emin (- x) = - round_bits p emin x"
  by (cases x "0::rat" rule: linorder_cases) (simp_all add: round_bits_def round_pos_def)

lemma round_bits_err:
  assumes "\<bar>x\<bar> < 2 powi (e + int p)" and "emin \<le> e"
  shows "\<bar>round_bits p emin x - x\<bar> \<le> 2 powi (e - 1)"
  using round_pos_err [of x e p emin] round_pos_err [of "- x" e p emin] assms
  by (auto simp: round_bits_def abs_if split: if_splits)

lemma round_bits_exact:
  assumes "x = of_int n * 2 powi e" and "\<bar>n\<bar> < 2 ^ p" and "emin \<le> e"
  shows "round_bits p emin x = x"
proof (cases "0 \<le> n")
  case True
  then have "\<not> x < 0" using assms(1) by (simp add: not_less)
  then show ?thesis using assms round_pos_exact [OF assms(1) True] by (simp add: round_bits_def)
next
  case False
  then have "x < 0" using assms(1) by (simp add: mult_less_0_iff)
  moreover have "- x = of_int (- n) * 2 powi e" using assms(1) by simp
  from round_pos_exact [OF this, of p emin] have "round_pos p emin (- x) = - x" using False assms by simp
  ultimately show ?thesis by (simp add: round_bits_def)
qed

section \<open>Floats\<close>

definition f32_sign :: "f32 \<Rightarrow> bool" where "f32_sign a = bit a 31"

definition f32_magnitude :: "f32 \<Rightarrow> int" where "f32_magnitude a = uint (a AND 0x7FFFFFFF)"

definition f32_inf :: "f32 \<Rightarrow> bool" where "f32_inf a \<longleftrightarrow> f32_magnitude a = 0x7F800000"

text \<open>The number that the exponent and the significand of a finite float stand for.\<close>

definition magnitude_val :: "int \<Rightarrow> rat" where
  "magnitude_val m =
     (let e = m div 2 ^ 23; f = m mod 2 ^ 23
      in if e = 0 then of_int f * 2 powi (- 149) else of_int (2 ^ 23 + f) * 2 powi (e - 150))"

definition f32_val :: "f32 \<Rightarrow> rat" where
  "f32_val a = (if f32_sign a then - magnitude_val (f32_magnitude a) else magnitude_val (f32_magnitude a))"

text \<open>The float nearest to a number: its magnitude is 0, or the exponent and the significand of the
  rounded number, or, from \<open>2 powi 128\<close> on, infinity.\<close>

definition encode_magnitude :: "rat \<Rightarrow> int" where
  "encode_magnitude v =
     (if v \<le> 0 then 0
      else let e = ulp_exp 24 (- 149) v in (e + 149) * 2 ^ 23 + \<lfloor>v / 2 powi e\<rfloor>)"

definition with_sign :: "bool \<Rightarrow> int \<Rightarrow> f32" where
  "with_sign negative m = (if negative then 0x80000000 OR word_of_int m else word_of_int m)"

definition f32_of_rat :: "bool \<Rightarrow> rat \<Rightarrow> f32" where
  "f32_of_rat negative x =
     (let v = round_pos 24 (- 149) \<bar>x\<bar>
      in with_sign negative (if 2 powi 128 \<le> v then 0x7F800000 else encode_magnitude v))"

definition f32_quiet_nan :: f32 where "f32_quiet_nan = 0x7FC00000"

definition f32_infinity :: "bool \<Rightarrow> f32" where "f32_infinity negative = with_sign negative 0x7F800000"

definition f32_le :: "f32 \<Rightarrow> f32 \<Rightarrow> bool" where
  "f32_le a b \<longleftrightarrow> f32_less a b \<or> f32_eq a b"

definition f32_neg :: "f32 \<Rightarrow> f32" where "f32_neg a = a XOR 0x80000000"

text \<open>A sum that is zero is negative only when both operands are.\<close>

definition f32_add :: "f32 \<Rightarrow> f32 \<Rightarrow> f32" where
  "f32_add a b =
     (if f32_nan a \<or> f32_nan b then f32_quiet_nan
      else if f32_inf a then (if f32_inf b \<and> f32_sign a \<noteq> f32_sign b then f32_quiet_nan else a)
      else if f32_inf b then b
      else let s = f32_val a + f32_val b
           in if s = 0 then with_sign (f32_sign a \<and> f32_sign b) 0 else f32_of_rat (s < 0) s)"

definition f32_sub :: "f32 \<Rightarrow> f32 \<Rightarrow> f32" where
  "f32_sub a b = (if f32_nan b then f32_quiet_nan else f32_add a (f32_neg b))"

definition f32_mul :: "f32 \<Rightarrow> f32 \<Rightarrow> f32" where
  "f32_mul a b =
     (let negative = (f32_sign a \<noteq> f32_sign b)
      in if f32_nan a \<or> f32_nan b then f32_quiet_nan
         else if f32_inf a \<or> f32_inf b
         then (if f32_magnitude a = 0 \<or> f32_magnitude b = 0 then f32_quiet_nan else f32_infinity negative)
         else f32_of_rat negative (f32_val a * f32_val b))"

definition f32_div :: "f32 \<Rightarrow> f32 \<Rightarrow> f32" where
  "f32_div a b =
     (let negative = (f32_sign a \<noteq> f32_sign b)
      in if f32_nan a \<or> f32_nan b then f32_quiet_nan
         else if f32_inf a then (if f32_inf b then f32_quiet_nan else f32_infinity negative)
         else if f32_inf b then with_sign negative 0
         else if f32_magnitude b = 0
         then (if f32_magnitude a = 0 then f32_quiet_nan else f32_infinity negative)
         else f32_of_rat negative (f32_val a / f32_val b))"

text \<open>\<^verbatim>\<open>std::min\<close> and \<^verbatim>\<open>std::max\<close> return their first argument
  unless the second is smaller, respectively larger.\<close>

definition f32_min :: "f32 \<Rightarrow> f32 \<Rightarrow> f32" where "f32_min a b = (if f32_less b a then b else a)"

definition f32_max :: "f32 \<Rightarrow> f32 \<Rightarrow> f32" where "f32_max a b = (if f32_less a b then b else a)"

end
