(* ===== verification/FloatLemmas.thy ===== *)
theory FloatLemmas
  imports FloatArith
begin

text \<open>
  Bit patterns and the numbers they stand for: a rounded number is encoded by a float that stands
  for it, the order of floats is that of their numbers, and so the operations of floats inherit
  monotonicity and error bounds from rounding.
\<close>

section \<open>Sign and magnitude\<close>

lemma f32_magnitude_bounds: "0 \<le> f32_magnitude a \<and> f32_magnitude a < 2 ^ 31"
proof -
  have "a AND 0x7FFFFFFF \<le> 0x7FFFFFFF" by (rule word_and_le1)
  then have "uint (a AND 0x7FFFFFFF) \<le> uint (0x7FFFFFFF :: f32)" by (simp only: word_le_def)
  then show ?thesis by (simp add: f32_magnitude_def)
qed

lemma magnitude_mask: "f32_magnitude a = take_bit 31 (uint a)"
proof -
  have "(0x7FFFFFFF :: f32) = mask 31" by (simp add: mask_eq_exp_minus_1)
  then have "f32_magnitude a = uint (take_bit 31 a)" by (simp only: f32_magnitude_def take_bit_eq_mask)
  then show ?thesis by (simp add: unsigned_take_bit_eq)
qed

lemma f32_magnitude_with_sign:
  assumes "0 \<le> m" and "m < 2 ^ 31"
  shows "f32_magnitude (with_sign s m) = m" "f32_sign (with_sign s m) = s"
proof -
  have m: "uint (word_of_int m :: f32) = m" using assms by (simp add: uint_word_of_int take_bit_int_eq_self)
  have no_sign: "\<not> bit m 31" using assms by (metis bit_take_bit_iff less_irrefl take_bit_int_eq_self)
  have "take_bit 31 (0x80000000 :: f32) = 0" by simp
  then have "take_bit 31 (with_sign s m) = take_bit 31 (word_of_int m :: f32)"
    by (simp add: with_sign_def take_bit_or)
  then have "take_bit 31 (uint (with_sign s m)) = take_bit 31 m"
    by (metis m unsigned_take_bit_eq)
  then show "f32_magnitude (with_sign s m) = m" using assms by (simp add: magnitude_mask take_bit_int_eq_self)
  have "bit (0x80000000 :: f32) 31" by simp
  then show "f32_sign (with_sign s m) = s"
    using no_sign by (simp add: f32_sign_def with_sign_def bit_or_iff bit_word_of_int_iff)
qed

lemma exponent_mask: "(k::int) AND 0x7F800000 = take_bit 31 k div 2 ^ 23 * 2 ^ 23"
proof -
  have c: "(0x7F800000 :: int) = push_bit 23 (mask 8)" by (simp add: mask_eq_exp_minus_1 push_bit_eq_mult)
  have "k AND push_bit 23 (mask 8) = push_bit 23 (drop_bit 23 k AND mask 8)"
    by (rule bit_eqI) (auto simp: bit_simps)
  also have "drop_bit 23 k AND mask 8 = take_bit 8 (drop_bit 23 k)" by (simp add: take_bit_eq_mask)
  also have "take_bit 8 (drop_bit 23 k) = drop_bit 23 (take_bit 31 k)" by (simp add: drop_bit_take_bit)
  finally show ?thesis by (simp add: c push_bit_eq_mult drop_bit_eq_div)
qed

lemma split_magnitude: "m = (m::int) div 8388608 * 8388608 + m mod 8388608 \<and> 0 \<le> m mod 8388608 \<and> m mod 8388608 < 8388608"
  by simp

lemma exponent_all_ones: "a AND 0x7F800000 = (0x7F800000 :: f32) \<longleftrightarrow> 0x7F800000 \<le> f32_magnitude a"
proof -
  let ?m = "f32_magnitude a"
  have "a AND 0x7F800000 = (0x7F800000 :: f32) \<longleftrightarrow> uint (a AND 0x7F800000) = uint (0x7F800000 :: f32)"
    by (simp only: word_uint_eq_iff)
  also have "\<dots> \<longleftrightarrow> ?m div 2 ^ 23 * 2 ^ 23 = 255 * 2 ^ 23"
    by (simp add: uint_and exponent_mask magnitude_mask)
  also have "\<dots> \<longleftrightarrow> ?m div 2 ^ 23 = 255" by simp
  also have "\<dots> \<longleftrightarrow> 0x7F800000 \<le> ?m"
    using f32_magnitude_bounds [of a] split_magnitude [of ?m] by auto
  finally show ?thesis .
qed

lemma isfinite_iff: "isfinite a \<longleftrightarrow> f32_magnitude a < 0x7F800000"
  by (simp add: isfinite_def exponent_all_ones not_le)

lemma fraction_mask: "(k::int) AND 0x007FFFFF = k mod 2 ^ 23"
proof -
  have "(0x007FFFFF :: int) = mask 23" by (simp add: mask_eq_exp_minus_1)
  then have "k AND 0x007FFFFF = take_bit 23 k" by (simp only: take_bit_eq_mask)
  then show ?thesis by (simp only: take_bit_eq_mod)
qed

lemma f32_nan_iff: "f32_nan a \<longleftrightarrow> 0x7F800000 < f32_magnitude a"
proof -
  let ?m = "f32_magnitude a"
  have "a AND 0x007FFFFF = 0 \<longleftrightarrow> uint (a AND 0x007FFFFF) = uint (0 :: f32)" by (simp only: word_uint_eq_iff)
  also have "\<dots> \<longleftrightarrow> uint a mod 2 ^ 23 = 0" by (simp add: uint_and fraction_mask)
  also have "uint a mod 2 ^ 23 = ?m mod 2 ^ 23"
    by (simp add: magnitude_mask take_bit_eq_mod mod_mod_cancel)
  finally have "f32_nan a \<longleftrightarrow> 0x7F800000 \<le> ?m \<and> ?m mod 2 ^ 23 \<noteq> 0"
    by (simp add: f32_nan_def exponent_all_ones)
  then show ?thesis using f32_magnitude_bounds [of a] split_magnitude [of ?m] by (cases "?m = 0x7F800000") auto
qed

lemma isfinite_not_nan [simp]: "isfinite a \<Longrightarrow> \<not> f32_nan a" "isfinite a \<Longrightarrow> \<not> f32_inf a"
  by (simp_all add: isfinite_iff f32_nan_iff f32_inf_def)

section \<open>Order\<close>

lemma magnitude_val_nonneg: "0 \<le> m \<Longrightarrow> 0 \<le> magnitude_val m"
  by (simp add: magnitude_val_def Let_def)

lemma magnitude_val_less:
  assumes "0 \<le> m" and "m < n"
  shows "magnitude_val m < magnitude_val n"
proof -
  have step: "magnitude_val i < magnitude_val (i + 1)" if i: "0 \<le> i" for i
  proof -
    let ?e = "i div 2 ^ 23" and ?f = "i mod 2 ^ 23"
    consider (same) "(i + 1) div 2 ^ 23 = ?e" "(i + 1) mod 2 ^ 23 = ?f + 1"
      | (carry) "(i + 1) div 2 ^ 23 = ?e + 1" "(i + 1) mod 2 ^ 23 = 0" "?f = 2 ^ 23 - 1"
    proof (cases "?f = 2 ^ 23 - 1")
      case True
      then have "i + 1 = 2 ^ 23 * (?e + 1) + 0" using split_magnitude [of i] by simp
      then show thesis using True int_div_pos_eq [of "i + 1" "2 ^ 23" "?e + 1" 0] int_mod_pos_eq [of "i + 1" "2 ^ 23" "?e + 1" 0]
        by (intro carry) simp_all
    next
      case False
      then have "i + 1 = 2 ^ 23 * ?e + (?f + 1)" "0 \<le> ?f + 1" "?f + 1 < 2 ^ 23"
        using split_magnitude [of i] by simp_all
      then show thesis by (intro same) (rule int_div_pos_eq int_mod_pos_eq, assumption+)+
    qed
    then show ?thesis
    proof cases
      case same
      then show ?thesis by (simp add: magnitude_val_def Let_def)
    next
      case carry
      have e: "0 \<le> ?e" using i by (simp add: pos_imp_zdiv_nonneg_iff)
      show ?thesis
      proof (cases "?e = 0")
        case True
        then show ?thesis using carry by (simp add: magnitude_val_def Let_def)
      next
        case False
        have "(2::rat) powi (?e + 1 - 150) = 2 * 2 powi (?e - 150)"
          using power_int_add_1' [of "2::rat" "?e - 150"] by (simp add: algebra_simps)
        then show ?thesis using carry False e by (simp add: magnitude_val_def Let_def algebra_simps)
      qed
    qed
  qed
  from assms(2) show ?thesis
  proof (induction n rule: int_gr_induct)
    case base
    then show ?case using step assms(1) by simp
  next
    case (step i)
    then show ?case using \<open>\<And>i. 0 \<le> i \<Longrightarrow> magnitude_val i < magnitude_val (i + 1)\<close> [of i] assms(1) by simp
  qed
qed

lemma magnitude_val_less_iff: "0 \<le> m \<Longrightarrow> 0 \<le> n \<Longrightarrow> magnitude_val m < magnitude_val n \<longleftrightarrow> m < n"
  using magnitude_val_less [of m n] magnitude_val_less [of n m] by (cases m n rule: linorder_cases) auto

lemma magnitude_val_0 [simp]: "magnitude_val 0 = 0"
  by (simp add: magnitude_val_def)

lemma f32_rank_magnitude: "f32_rank a = (if f32_sign a then - f32_magnitude a else f32_magnitude a)"
  by (simp add: f32_rank_def f32_sign_def f32_magnitude_def)

lemma f32_val_less_iff: "f32_val a < f32_val b \<longleftrightarrow> f32_rank a < f32_rank b"
proof -
  have pos: "0 < magnitude_val m \<longleftrightarrow> 0 < m" if "0 \<le> m" for m using magnitude_val_less_iff [of 0 m] that by simp
  show ?thesis
    using f32_magnitude_bounds [of a] f32_magnitude_bounds [of b] magnitude_val_nonneg [of "f32_magnitude a"]
      magnitude_val_nonneg [of "f32_magnitude b"] pos [of "f32_magnitude a"] pos [of "f32_magnitude b"]
      magnitude_val_less_iff [of "f32_magnitude a" "f32_magnitude b"]
      magnitude_val_less_iff [of "f32_magnitude b" "f32_magnitude a"]
    by (auto simp: f32_val_def f32_rank_magnitude)
qed

lemma f32_less_iff: "isfinite a \<Longrightarrow> isfinite b \<Longrightarrow> f32_less a b \<longleftrightarrow> f32_val a < f32_val b"
  by (simp add: f32_less_def f32_val_less_iff)

lemma f32_val_eq_iff: "f32_val a = f32_val b \<longleftrightarrow> f32_rank a = f32_rank b"
  using f32_val_less_iff [of a b] f32_val_less_iff [of b a] by linarith

lemma f32_le_iff: "isfinite a \<Longrightarrow> isfinite b \<Longrightarrow> f32_le a b \<longleftrightarrow> f32_val a \<le> f32_val b"
  using f32_val_less_iff [of a b] f32_val_eq_iff [of a b]
  by (auto simp: f32_le_def f32_less_def f32_eq_def)

section \<open>Rounded numbers and their floats\<close>

text \<open>A number that a float can stand for.\<close>

definition f32_number :: "rat \<Rightarrow> bool" where
  "f32_number v \<longleftrightarrow> (\<exists>n e. v = of_int n * 2 powi e \<and> 0 \<le> n \<and> n < 2 ^ 24 \<and> - 149 \<le> e)"

lemma round_pos_number: "f32_number (round_pos 24 (- 149) x)"
proof (cases "0 < x")
  case True
  let ?e = "ulp_exp 24 (- 149) x"
  define r where "r = round_half_even (x / 2 powi ?e)"
  have v: "round_pos 24 (- 149) x = of_int r * 2 powi ?e" using True by (simp add: round_pos_def r_def)
  have e: "- 149 \<le> ?e" "log2_floor x - 23 \<le> ?e" by (simp_all add: ulp_exp_def)
  have "x < 2 powi (?e + 24)"
    using log2_floor [OF True] powi_mono [of "log2_floor x + 1" "?e + 24"] e(2) by linarith
  then have "x / 2 powi ?e \<le> of_int (2 ^ 24)"
    by (simp add: power_int_add pos_divide_le_eq mult.commute)
  then have "r \<le> 2 ^ 24" unfolding r_def by (rule round_half_even_le)
  moreover have "0 \<le> r" unfolding r_def using True by (intro round_half_even_ge) simp
  ultimately consider "r < 2 ^ 24" "0 \<le> r" | "r = 2 ^ 24" by linarith
  then show ?thesis
  proof cases
    case 1
    then show ?thesis using e(1) unfolding f32_number_def v by blast
  next
    case 2
    have "of_int r * 2 powi ?e = of_int (2 ^ 23) * (2::rat) powi (?e + 1)" by (simp add: 2 power_int_add)
    moreover have "(0::int) \<le> 2 ^ 23" "(2::int) ^ 23 < 2 ^ 24" "- 149 \<le> ?e + 1" using e(1) by simp_all
    ultimately show ?thesis unfolding f32_number_def v by blast
  qed
qed (auto simp: round_pos_def f32_number_def intro!: exI [of _ 0])

lemma f32_number_parts:
  assumes "f32_number v" and "0 < v"
  obtains q e where "e = ulp_exp 24 (- 149) v" "v = of_int q * 2 powi e" "\<lfloor>v / 2 powi e\<rfloor> = q" "0 < q" "q < 2 ^ 24"
    "e = - 149 \<or> 2 ^ 23 \<le> q"
proof -
  obtain n k where v: "v = of_int n * 2 powi k" "0 \<le> n" "n < 2 ^ 24" "- 149 \<le> k"
    using assms(1) by (auto simp: f32_number_def)
  define u where "u = ulp_exp 24 (- 149) v"
  have "of_int n < (2::rat) ^ 24" using v(3) by (metis of_int_less_iff of_int_numeral of_int_power)
  then have "v < 2 powi (k + int 24)" by (simp add: v(1) power_int_add mult.commute)
  then have k: "u \<le> k" using assms(2) v(4) unfolding u_def by (intro ulp_exp_le)
  define q where "q = n * 2 ^ nat (k - u)"
  have q: "v / 2 powi u = of_int q"
  proof -
    have "(of_int q :: rat) = of_int n * 2 powi (k - u)" using k by (simp add: q_def power_int_nonneg_exp)
    then show ?thesis by (simp add: v(1) power_int_diff)
  qed
  have vq: "v = of_int q * 2 powi u" by (simp add: q [symmetric])
  have log: "2 powi log2_floor v \<le> v" "v < 2 powi (log2_floor v + 1)" using log2_floor [OF assms(2)] by simp_all
  have e: "log2_floor v - 23 \<le> u" by (simp add: u_def ulp_exp_def)
  have "v < 2 powi (u + 24)" using log(2) powi_mono [of "log2_floor v + 1" "u + 24"] e by linarith
  then have "(of_int q :: rat) < of_int (2 ^ 24)" by (simp add: vq power_int_add)
  then have "q < 2 ^ 24" by (simp only: of_int_less_iff)
  moreover have "0 < (of_int q :: rat)" using assms(2) by (simp add: q [symmetric])
  then have "0 < q" by simp
  moreover have "u = - 149 \<or> 2 ^ 23 \<le> q"
  proof (cases "u = - 149")
    case False
    then have "u = log2_floor v - 23" by (auto simp: u_def ulp_exp_def max_def split: if_splits)
    then have "2 powi (u + 23) \<le> v" using log(1) by simp
    then have "(of_int (2 ^ 23) :: rat) \<le> of_int q" by (simp add: vq power_int_add)
    then have "2 ^ 23 \<le> q" by (simp only: of_int_le_iff)
    then show ?thesis by (rule disjI2)
  qed simp
  moreover have "\<lfloor>v / 2 powi u\<rfloor> = q" unfolding q by simp
  ultimately show thesis by (intro that [OF u_def vq])
qed

lemma encode_magnitude:
  assumes "f32_number v" and "0 \<le> v" and "v < 2 powi 128"
  shows "0 \<le> encode_magnitude v \<and> encode_magnitude v < 0x7F800000 \<and> magnitude_val (encode_magnitude v) = v"
proof (cases "v = 0")
  case True
  then show ?thesis by (simp add: encode_magnitude_def)
next
  case False
  then have v: "0 < v" using assms(2) by simp
  obtain q e where e: "e = ulp_exp 24 (- 149) v" and q: "v = of_int q * 2 powi e" "\<lfloor>v / 2 powi e\<rfloor> = q" "0 < q" "q < 2 ^ 24"
    "e = - 149 \<or> 2 ^ 23 \<le> q" by (rule f32_number_parts [OF assms(1) v])
  have enc: "encode_magnitude v = (e + 149) * 2 ^ 23 + q" using v q(2) by (simp add: encode_magnitude_def e Let_def)
  have e_ge: "- 149 \<le> e" by (simp add: e ulp_exp_def)
  have e_le: "e \<le> 104" using log2_floor_less [OF v assms(3)] by (simp add: e ulp_exp_def)
  have bounds: "0 \<le> encode_magnitude v" "encode_magnitude v < 0x7F800000"
    unfolding enc using e_ge e_le q(3,4) by simp_all
  show ?thesis
  proof (cases "q < 2 ^ 23")
    case True
    with q(5) have "e = - 149" by simp
    then have "encode_magnitude v = q" "q div 2 ^ 23 = 0" "q mod 2 ^ 23 = q" using enc q(3) True by simp_all
    then have "magnitude_val (encode_magnitude v) = of_int q * 2 powi (- 149)"
      by (simp only: magnitude_val_def Let_def if_True refl)
    then have "magnitude_val (encode_magnitude v) = v" using q(1) \<open>e = - 149\<close> by (simp only:)
    with bounds show ?thesis by blast
  next
    case False
    define f where "f = q - 2 ^ 23"
    have f: "encode_magnitude v = 2 ^ 23 * (e + 150) + f" "0 \<le> f" "f < 2 ^ 23"
      using enc False q(4) by (simp_all add: f_def algebra_simps)
    have "encode_magnitude v div 2 ^ 23 = e + 150" by (rule int_div_pos_eq [OF f])
    moreover have "encode_magnitude v mod 2 ^ 23 = f" by (rule int_mod_pos_eq [OF f])
    moreover have "2 ^ 23 + f = q" "e + 150 \<noteq> 0" "e + 150 - 150 = e" using e_ge by (simp_all add: f_def)
    ultimately have "magnitude_val (encode_magnitude v) = of_int q * 2 powi e"
      by (simp only: magnitude_val_def Let_def if_False)
    then have "magnitude_val (encode_magnitude v) = v" using q(1) by (simp only:)
    with bounds show ?thesis by blast
  qed
qed

lemma f32_of_rat_val:
  assumes "round_pos 24 (- 149) \<bar>x\<bar> < 2 powi 128"
  shows "isfinite (f32_of_rat negative x)"
    "f32_val (f32_of_rat negative x) = (if negative then - round_pos 24 (- 149) \<bar>x\<bar> else round_pos 24 (- 149) \<bar>x\<bar>)"
    "f32_sign (f32_of_rat negative x) = negative"
proof -
  let ?v = "round_pos 24 (- 149) \<bar>x\<bar>"
  have enc: "0 \<le> encode_magnitude ?v" "encode_magnitude ?v < 0x7F800000" "magnitude_val (encode_magnitude ?v) = ?v"
    using encode_magnitude [OF round_pos_number round_pos_nonneg assms] by simp_all
  have eq: "f32_of_rat negative x = with_sign negative (encode_magnitude ?v)"
    using assms by (simp add: f32_of_rat_def Let_def)
  note parts = f32_magnitude_with_sign [OF enc(1), of negative]
  have "encode_magnitude ?v < 2 ^ 31" using enc(2) by simp
  note parts = parts [OF this]
  show "isfinite (f32_of_rat negative x)" unfolding eq isfinite_iff parts by (rule enc(2))
  show "f32_val (f32_of_rat negative x) = (if negative then - ?v else ?v)"
    unfolding eq f32_val_def parts enc(3) by simp
  show "f32_sign (f32_of_rat negative x) = negative" unfolding eq by (rule parts(2))
qed

text \<open>The signed form, for results whose sign is that of the number.\<close>

lemma f32_of_rat_round:
  assumes "\<bar>x\<bar> < 2 powi 128 - 2 powi 103"
  shows "isfinite (f32_of_rat (x < 0) x) \<and> f32_val (f32_of_rat (x < 0) x) = round_bits 24 (- 149) x"
proof -
  have "round_pos 24 (- 149) \<bar>x\<bar> \<le> 2 powi 128 - 2 powi 104"
  proof -
    let ?m = "2 powi 128 - 2 powi 104 :: rat"
    have "?m = of_int (2 ^ 24 - 1) * 2 powi 104" by simp
    then have "round_pos 24 (- 149) ?m = ?m" by (rule round_pos_exact) simp_all
    show ?thesis
    proof (cases "\<bar>x\<bar> \<le> ?m")
      case True
      then show ?thesis using round_pos_mono [of "\<bar>x\<bar>" ?m 24 "- 149"] \<open>round_pos 24 (- 149) ?m = ?m\<close> by simp
    next
      case False
      then have x: "0 < \<bar>x\<bar>" "2 powi 127 \<le> \<bar>x\<bar>" "\<bar>x\<bar> < 2 powi 128" using assms by simp_all
      then have "log2_floor \<bar>x\<bar> = 127"
        using log2_floor_less [of "\<bar>x\<bar>" 128] log2_floor_ge [of "\<bar>x\<bar>" 127] by linarith
      then have u: "ulp_exp 24 (- 149) \<bar>x\<bar> = 104" by (simp add: ulp_exp_def)
      have "\<bar>x\<bar> / 2 powi 104 < of_int (2 ^ 24 - 1) + 1/2" using assms by (simp add: pos_divide_less_eq)
      moreover have "of_int (2 ^ 24 - 1) \<le> \<bar>x\<bar> / 2 powi 104" using False by (simp add: pos_le_divide_eq)
      ultimately have "round_half_even (\<bar>x\<bar> / 2 powi 104) = 2 ^ 24 - 1"
        by (simp add: round_half_even_def Let_def floor_unique [of "2 ^ 24 - 1"] floor_eq_iff)
      then show ?thesis using x(1) by (simp add: round_pos_def u)
    qed
  qed
  then have "round_pos 24 (- 149) \<bar>x\<bar> < 2 powi 128" by (rule le_less_trans) simp
  from f32_of_rat_val [OF this, of "x < 0"] show ?thesis by (auto simp: round_bits_def)
qed

end
