(* ===== verification/Quantization.thy ===== *)
theory Quantization
  imports FloatLemmas
begin

text \<open>
  The quantization of protocol/include/dxa/protocol/ReplicationSnapshot.hpp: coordinates and the
  safe zone's radius as 16 bits between bounds, health, cooldown, eliminations and contenders as
  narrower integers. The calculations in \<^verbatim>\<open>double\<close> are rationals rounded by
  \<open>f64\<close>.
\<close>

section \<open>The code\<close>

definition ValidateQuantizationBounds :: "f32 \<Rightarrow> f32 \<Rightarrow> unit throws" where
  "ValidateQuantizationBounds minimum maximum =
     (if \<not> isfinite minimum \<or> \<not> isfinite maximum \<or> f32_le maximum minimum
      then Inl Invalid_argument else Inr ())"

text \<open>\<^verbatim>\<open>std::llround\<close> rounds halves away from zero.\<close>

definition llround :: "rat \<Rightarrow> int" where
  "llround x = (if x < 0 then - \<lfloor>1/2 - x\<rfloor> else \<lfloor>x + 1/2\<rfloor>)"

definition encodedMaximum :: rat where "encodedMaximum = 65535"

definition QuantizeCoordinate :: "f32 \<Rightarrow> f32 \<Rightarrow> f32 \<Rightarrow> u16 throws" where
  "QuantizeCoordinate v minimum maximum =
     bind_throws (ValidateQuantizationBounds minimum maximum) (\<lambda>_.
       if \<not> isfinite v then Inl Invalid_argument
       else if f32_less v minimum \<or> f32_less maximum v then Inl Out_of_range
       else
         let ratio = f64 (f64 (f32_val v - f32_val minimum) / f64 (f32_val maximum - f32_val minimum))
         in Inr (word_of_int (llround (f64 (ratio * encodedMaximum)))))"

definition DequantizeCoordinate :: "u16 \<Rightarrow> f32 \<Rightarrow> f32 \<Rightarrow> f32 throws" where
  "DequantizeCoordinate v minimum maximum =
     bind_throws (ValidateQuantizationBounds minimum maximum) (\<lambda>_.
       let ratio = f64 (of_int (uint v) / encodedMaximum);
           result = f64 (f32_val minimum + f64 (ratio * f64 (f32_val maximum - f32_val minimum)))
       in Inr (f32_of_rat (result < 0) result))"

definition QuantizeSafeZoneRadius :: "f32 \<Rightarrow> f32 \<Rightarrow> u16 throws" where
  "QuantizeSafeZoneRadius radius maximum = QuantizeCoordinate radius 0 maximum"

definition DequantizeSafeZoneRadius :: "u16 \<Rightarrow> f32 \<Rightarrow> f32 throws" where
  "DequantizeSafeZoneRadius radius maximum = DequantizeCoordinate radius 0 maximum"

definition QuantizeHealth :: "u32 \<Rightarrow> u8 throws" where
  "QuantizeHealth health =
     (if sint health < 0 \<or> 100 < sint health then Inl Out_of_range else Inr (ucast health))"

definition QuantizeCooldownTicks :: "u32 \<Rightarrow> u16 throws" where
  "QuantizeCooldownTicks cooldownTicks =
     (if 65535 < cooldownTicks then Inl Out_of_range else Inr (ucast cooldownTicks))"

definition QuantizeEliminations :: "u32 \<Rightarrow> u8 throws" where
  "QuantizeEliminations eliminations =
     (if 255 < eliminations then Inl Out_of_range else Inr (ucast eliminations))"

definition QuantizeAliveContenders :: "u32 \<Rightarrow> u8 throws" where
  "QuantizeAliveContenders aliveContenders =
     (if of_nat RoomCapacity < aliveContenders then Inl Out_of_range else Inr (ucast aliveContenders))"

section \<open>Rounding of doubles\<close>

lemma f64_mono: "x \<le> y \<Longrightarrow> f64 x \<le> f64 y"
  by (simp add: f64_def round_bits_mono)

lemma f64_0 [simp]: "f64 0 = 0"
  by (simp add: f64_def round_bits_def round_pos_def)

lemma f64_nonneg: "0 \<le> x \<Longrightarrow> 0 \<le> f64 x"
  using f64_mono [of 0 x] by simp

lemma f64_exact: "x = of_int n * 2 powi e \<Longrightarrow> \<bar>n\<bar> < 2 ^ 53 \<Longrightarrow> - 1074 \<le> e \<Longrightarrow> f64 x = x"
  unfolding f64_def by (rule round_bits_exact)

lemma f64_int: "\<bar>n\<bar> < 2 ^ 53 \<Longrightarrow> f64 (of_int n) = of_int n"
  using f64_exact [of "of_int n" n 0] by simp

lemma f64_1 [simp]: "f64 1 = 1" and f64_max [simp]: "f64 65535 = 65535"
  using f64_int [of 1] f64_int [of 65535] by simp_all

lemma f64_err: "\<bar>x\<bar> < 2 powi (e + 53) \<Longrightarrow> - 1074 \<le> e \<Longrightarrow> \<bar>f64 x - x\<bar> \<le> 2 powi (e - 1)"
  unfolding f64_def using round_bits_err [of x e 53 "- 1074"] by simp

text \<open>A float is a double.\<close>

lemma f32_val_number: "\<exists>n e. f32_val a = of_int n * 2 powi e \<and> \<bar>n\<bar> < 2 ^ 24 \<and> - 149 \<le> e"
proof -
  have "\<exists>n e. magnitude_val m = of_int n * 2 powi e \<and> \<bar>n\<bar> < 2 ^ 24 \<and> - 149 \<le> e" if "0 \<le> m" for m
  proof (cases "m div 2 ^ 23 = 0")
    case True
    then have "magnitude_val m = of_int (m mod 2 ^ 23) * 2 powi (- 149)" by (simp add: magnitude_val_def)
    moreover have "\<bar>m mod 2 ^ 23\<bar> < 2 ^ 24" using split_magnitude [of m] by simp
    ultimately show ?thesis by blast
  next
    case False
    have "0 \<le> m div 2 ^ 23" using that by (simp add: pos_imp_zdiv_nonneg_iff)
    then have "- 149 \<le> m div 2 ^ 23 - 150" using False by simp
    moreover have "\<bar>2 ^ 23 + m mod 2 ^ 23\<bar> < 2 ^ 24" using split_magnitude [of m] by simp
    moreover have "magnitude_val m = of_int (2 ^ 23 + m mod 2 ^ 23) * 2 powi (m div 2 ^ 23 - 150)"
      using False by (simp only: magnitude_val_def Let_def if_False)
    ultimately show ?thesis by blast
  qed
  then obtain n e where "magnitude_val (f32_magnitude a) = of_int n * 2 powi e" "\<bar>n\<bar> < 2 ^ 24" "- 149 \<le> e"
    using f32_magnitude_bounds [of a] by blast
  then show ?thesis
    by (intro exI [of _ "if f32_sign a then - n else n"] exI [of _ e]) (simp add: f32_val_def)
qed

lemma f64_f32_val: "f64 (f32_val a) = f32_val a"
proof -
  obtain n e where a: "f32_val a = of_int n * 2 powi e" "\<bar>n\<bar> < 2 ^ 24" "- 149 \<le> e"
    using f32_val_number by blast
  show ?thesis by (rule f64_exact [OF a(1)]) (use a in simp_all)
qed

lemma round_f32_val: "round_bits 24 (- 149) (f32_val a) = f32_val a"
  using f32_val_number [of a] round_bits_exact by metis

lemma f64_pos:
  assumes "f32_val a < f32_val b"
  shows "0 < f64 (f32_val b - f32_val a)"
proof -
  have units: "\<exists>n. f32_val c = of_int n * 2 powi (- 149)" for c
  proof -
    obtain n e where c: "f32_val c = of_int n * 2 powi e" "- 149 \<le> e" using f32_val_number by blast
    have "(2::rat) powi e = 2 powi (e + 149) * 2 powi (- 149)" using power_int_add [of "2::rat" "e + 149" "- 149"] by simp
    moreover have "(2::rat) powi (e + 149) = of_int (2 ^ nat (e + 149))" using c(2) by (simp add: power_int_nonneg_exp)
    ultimately have "f32_val c = of_int (n * 2 ^ nat (e + 149)) * 2 powi (- 149)" by (simp only: c(1) of_int_mult mult.assoc)
    then show ?thesis by blast
  qed
  obtain m n where "f32_val a = of_int m * 2 powi (- 149)" "f32_val b = of_int n * 2 powi (- 149)"
    using units [of a] units [of b] by blast
  then have diff: "f32_val b - f32_val a = of_int (n - m) * 2 powi (- 149)"
    by (simp only: of_int_diff left_diff_distrib)
  have "0 < of_int (n - m) * (2::rat) powi (- 149)" using assms diff by simp
  then have "1 \<le> n - m" by (simp add: zero_less_mult_iff)
  then have "of_int 1 * (2::rat) powi (- 149) \<le> of_int (n - m) * 2 powi (- 149)"
    by (intro mult_right_mono) (simp_all only: of_int_le_iff, simp)
  then have "f64 (of_int 1 * 2 powi (- 149)) \<le> f64 (f32_val b - f32_val a)"
    unfolding diff by (rule f64_mono)
  moreover have "f64 (of_int 1 * 2 powi (- 149)) = of_int 1 * 2 powi (- 149)" by (rule f64_exact [OF refl]) simp_all
  ultimately show ?thesis using powi_pos [of "- 149"] by simp
qed

section \<open>Quantized coordinates\<close>

definition quantized_value :: "f32 \<Rightarrow> f32 \<Rightarrow> f32 \<Rightarrow> int" where
  "quantized_value v lo hi =
     llround (f64 (f64 (f64 (f32_val v - f32_val lo) / f64 (f32_val hi - f32_val lo)) * encodedMaximum))"

lemma llround_mono: "x \<le> y \<Longrightarrow> 0 \<le> x \<Longrightarrow> llround x \<le> llround y"
  by (simp add: llround_def floor_mono)

lemma llround_of_int: "llround (of_int n) = n"
proof -
  have "\<lfloor>of_int n + 1/2 :: rat\<rfloor> = n" "\<lfloor>1/2 - of_int n :: rat\<rfloor> = - n" by (simp_all add: floor_unique)
  then show ?thesis by (simp add: llround_def)
qed

lemma llround_near: "\<bar>x - of_int n\<bar> < 1/2 \<Longrightarrow> 0 \<le> x \<Longrightarrow> llround x = n"
proof -
  assume "\<bar>x - of_int n\<bar> < 1/2" "0 \<le> x"
  then have "of_int n \<le> x + 1/2" "x + 1/2 < of_int n + 1" by linarith+
  then show "llround x = n" using \<open>0 \<le> x\<close> by (simp add: llround_def floor_unique)
qed

lemma llround_err: "0 \<le> x \<Longrightarrow> \<bar>of_int (llround x) - x\<bar> \<le> 1/2"
proof -
  assume "0 \<le> x"
  moreover have "of_int \<lfloor>x + 1/2\<rfloor> \<le> x + 1/2" "x + 1/2 < of_int \<lfloor>x + 1/2\<rfloor> + 1" by linarith+
  ultimately have "llround x = \<lfloor>x + 1/2\<rfloor>" "\<bar>of_int \<lfloor>x + 1/2\<rfloor> - x\<bar> \<le> 1/2"
    by (simp add: llround_def) linarith
  then show ?thesis by simp
qed

lemma ValidateQuantizationBounds_ok:
  "ValidateQuantizationBounds lo hi = Inr () \<longleftrightarrow> isfinite lo \<and> isfinite hi \<and> f32_val lo < f32_val hi"
  by (auto simp: ValidateQuantizationBounds_def f32_le_iff)

lemma QuantizeCoordinate_iff:
  "QuantizeCoordinate v lo hi = Inr q \<longleftrightarrow>
     isfinite lo \<and> isfinite hi \<and> isfinite v \<and> f32_val lo < f32_val hi
     \<and> f32_val lo \<le> f32_val v \<and> f32_val v \<le> f32_val hi \<and> q = word_of_int (quantized_value v lo hi)"
  by (auto simp: QuantizeCoordinate_def ValidateQuantizationBounds_ok f32_less_iff not_less Let_def
      quantized_value_def split: if_splits)

lemma quantized_value_mono:
  assumes "f32_val lo < f32_val hi" and "f32_val lo \<le> f32_val v" and "f32_val v \<le> f32_val w"
  shows "quantized_value v lo hi \<le> quantized_value w lo hi"
proof -
  have D: "0 < f64 (f32_val hi - f32_val lo)" by (rule f64_pos [OF assms(1)])
  have num: "0 \<le> f64 (f32_val v - f32_val lo)" "f64 (f32_val v - f32_val lo) \<le> f64 (f32_val w - f32_val lo)"
    using assms by (simp_all add: f64_nonneg f64_mono)
  let ?r = "\<lambda>x. f64 (f64 (f32_val x - f32_val lo) / f64 (f32_val hi - f32_val lo))"
  have ratio: "0 \<le> ?r v" "?r v \<le> ?r w" using num D by (simp_all add: f64_nonneg f64_mono divide_right_mono)
  then have "f64 (?r v * encodedMaximum) \<le> f64 (?r w * encodedMaximum)" "0 \<le> f64 (?r v * encodedMaximum)"
    by (simp_all add: encodedMaximum_def f64_nonneg f64_mono)
  then show ?thesis by (simp add: quantized_value_def llround_mono)
qed

lemma quantized_value_ends:
  assumes "f32_val lo < f32_val hi"
  shows "quantized_value lo lo hi = 0" "quantized_value hi lo hi = 65535"
proof -
  have "0 < f64 (f32_val hi - f32_val lo)" by (rule f64_pos [OF assms])
  then show "quantized_value lo lo hi = 0" "quantized_value hi lo hi = 65535"
    using llround_of_int [of 0] llround_of_int [of 65535]
    by (simp_all add: quantized_value_def encodedMaximum_def)
qed

text \<open>What is rounded to an integer is within the 16 bits that it is cast to.\<close>

lemma quantized_value_bounds:
  assumes "f32_val lo < f32_val hi" and "f32_val lo \<le> f32_val v" and "f32_val v \<le> f32_val hi"
  shows "0 \<le> quantized_value v lo hi \<and> quantized_value v lo hi \<le> 65535"
  using quantized_value_mono [OF assms(1), of lo v] quantized_value_mono [OF assms(1), of v hi]
    quantized_value_ends [OF assms(1)] assms by simp

section \<open>Through the wire and back\<close>

lemma powi_values:
  "2 powi (- 16) = (1 / 65536 :: rat)" "2 powi (- 17) = (1 / 131072 :: rat)" "2 powi (- 34) = (1 / 17179869184 :: rat)"
  "2 powi (- 37) = (1 / 137438953472 :: rat)" "2 powi (- 45) = (1 / 35184372088832 :: rat)"
  "2 powi (- 52) = (1 / 4503599627370496 :: rat)" "2 powi (- 53) = (1 / 9007199254740992 :: rat)"
  by simp_all

text \<open>The bounds of the arena and of the safe zone's radius: their distance is a power of two.\<close>

definition wire_bounds :: "f32 \<Rightarrow> f32 \<Rightarrow> rat \<Rightarrow> bool" where
  "wire_bounds lo hi w \<longleftrightarrow> isfinite lo \<and> isfinite hi \<and> f32_val hi - f32_val lo = w
     \<and> (w = 128 \<or> w = 256) \<and> \<bar>f32_val lo\<bar> \<le> 128 \<and> \<bar>f32_val hi\<bar> \<le> 128"

definition dequantized :: "u16 \<Rightarrow> f32 \<Rightarrow> f32 \<Rightarrow> f32" where
  "dequantized q lo hi = (case DequantizeCoordinate q lo hi of Inl _ \<Rightarrow> 0 | Inr f \<Rightarrow> f)"

lemma dequantized_val:
  assumes "wire_bounds lo hi w"
  shows "DequantizeCoordinate q lo hi = Inr (dequantized q lo hi)"
    and "isfinite (dequantized q lo hi)"
    and "f32_val lo \<le> f32_val (dequantized q lo hi)" and "f32_val (dequantized q lo hi) \<le> f32_val hi"
    and "\<bar>f32_val (dequantized q lo hi) - (f32_val lo + of_int (uint q) * w / 65535)\<bar> \<le> 2 powi (- 17) + 3 * 2 powi (- 45)"
proof -
  let ?lo = "f32_val lo" and ?hi = "f32_val hi" and ?n = "of_int (uint q) :: rat"
  have b: "isfinite lo" "isfinite hi" "?hi - ?lo = w" "w = 128 \<or> w = 256" "\<bar>?lo\<bar> \<le> 128" "\<bar>?hi\<bar> \<le> 128"
    using assms by (simp_all add: wire_bounds_def)
  have w: "f64 w = w" "0 < w" "w \<le> 256" using b(4) f64_int [of 128] f64_int [of 256] by auto
  have "uint q < 2 ^ 16" using uint_lt2p [of q] by simp
  then have "0 \<le> uint q" "uint q \<le> 65535" by simp_all
  then have "of_int 0 \<le> ?n" "?n \<le> of_int 65535" by (simp_all only: of_int_le_iff)
  then have n: "0 \<le> ?n / 65535" "?n / 65535 \<le> 1" by simp_all
  define r where "r = f64 (?n / encodedMaximum)"
  define p where "p = f64 (r * w)"
  define s where "s = f64 (?lo + p)"
  have r: "0 \<le> r" "r \<le> 1" "\<bar>r - ?n / 65535\<bar> \<le> 2 powi (- 53)"
    using n f64_nonneg [OF n(1)] f64_mono [OF n(2)] f64_err [of "?n / 65535" "- 52"]
    by (simp_all add: r_def encodedMaximum_def)
  have p_le: "r * w \<le> w" using r(2) w(2) by (simp add: mult_left_le_one_le mult_le_cancel_right2)
  have p: "0 \<le> p" "p \<le> w" "\<bar>p - r * w\<bar> \<le> 2 powi (- 45)"
    using f64_nonneg [of "r * w"] f64_mono [OF p_le] f64_err [of "r * w" "- 44"] r(1) w p_le
    by (simp_all add: p_def)
  have s: "?lo \<le> s" "s \<le> ?hi" "\<bar>s - (?lo + p)\<bar> \<le> 2 powi (- 45)"
    using f64_mono [of ?lo "?lo + p"] f64_mono [of "?lo + p" ?hi] f64_err [of "?lo + p" "- 44"] p w b
    by (simp_all add: s_def f64_f32_val)
  have s_abs: "\<bar>s\<bar> \<le> 128" using s(1,2) b(5,6) by linarith
  have deq: "DequantizeCoordinate q lo hi = Inr (f32_of_rat (s < 0) s)"
    using b(1-3) w by (simp add: DequantizeCoordinate_def ValidateQuantizationBounds_ok r_def p_def s_def Let_def)
  have "\<bar>s\<bar> < 2 powi 128 - 2 powi 103" using s_abs by (rule le_less_trans) simp
  then have f: "isfinite (f32_of_rat (s < 0) s)" "f32_val (f32_of_rat (s < 0) s) = round_bits 24 (- 149) s"
    using f32_of_rat_round by blast+
  have eq: "dequantized q lo hi = f32_of_rat (s < 0) s" by (simp add: dequantized_def deq)
  show "DequantizeCoordinate q lo hi = Inr (dequantized q lo hi)" by (simp add: deq eq)
  show "isfinite (dequantized q lo hi)" by (simp add: eq f)
  show "?lo \<le> f32_val (dequantized q lo hi)" "f32_val (dequantized q lo hi) \<le> ?hi"
    using round_bits_mono [OF s(1), of 24 "- 149"] round_bits_mono [OF s(2), of 24 "- 149"]
    by (simp_all add: eq f round_f32_val)
  have "\<bar>round_bits 24 (- 149) s - s\<bar> \<le> 2 powi (- 16 - 1)" using s_abs by (intro round_bits_err) simp_all
  moreover have "\<bar>r * w - ?n / 65535 * w\<bar> \<le> 2 powi (- 45)"
  proof -
    have "r * w - ?n / 65535 * w = (r - ?n / 65535) * w" by (rule left_diff_distrib [symmetric])
    then have "\<bar>r * w - ?n / 65535 * w\<bar> = \<bar>r - ?n / 65535\<bar> * w" using w(2) by (simp only: abs_mult abs_of_pos)
    also have "\<dots> \<le> 2 powi (- 53) * 256" using r(3) w by (intro mult_mono) simp_all
    finally show ?thesis by simp
  qed
  moreover have "\<bar>R - (l + nw)\<bar> \<le> a + 3 * c"
    if "\<bar>R - s\<bar> \<le> a" "\<bar>rw - nw\<bar> \<le> c" "\<bar>p - rw\<bar> \<le> c" "\<bar>s - (l + p)\<bar> \<le> c" for R l nw rw a c
    using that by linarith
  moreover have "?n * w / 65535 = ?n / 65535 * w" "- 16 - 1 = (- 17 :: int)" by simp_all
  ultimately show "\<bar>f32_val (dequantized q lo hi) - (?lo + ?n * w / 65535)\<bar> \<le> 2 powi (- 17) + 3 * 2 powi (- 45)"
    using p(3) s(3) unfolding eq f by metis
qed

lemma quantized_value_err:
  assumes "wire_bounds lo hi w" and "f32_val lo \<le> f32_val v" and "f32_val v \<le> f32_val hi"
  obtains y where "quantized_value v lo hi = llround y" "0 \<le> y"
    "\<bar>y - (f32_val v - f32_val lo) * 65535 / w\<bar> \<le> 2 powi (- 34)"
proof -
  let ?lo = "f32_val lo" and ?hi = "f32_val hi" and ?v = "f32_val v"
  have b: "?hi - ?lo = w" "w = 128 \<or> w = 256" using assms by (simp_all add: wire_bounds_def)
  have w: "f64 w = w" "128 \<le> w" "w \<le> 256" using b(2) f64_int [of 128] f64_int [of 256] by auto
  define t where "t = f64 (?v - ?lo)"
  define u where "u = f64 (t / w)"
  define y where "y = f64 (u * 65535)"
  have t: "0 \<le> t" "t \<le> w" "\<bar>t - (?v - ?lo)\<bar> \<le> 2 powi (- 45)"
    using f64_nonneg [of "?v - ?lo"] f64_mono [of "?v - ?lo" w] f64_err [of "?v - ?lo" "- 44"] assms b w
    by (simp_all add: t_def)
  have tw: "0 \<le> t / w" "t / w \<le> 1" using t w by simp_all
  have u: "0 \<le> u" "u \<le> 1" "\<bar>u - t / w\<bar> \<le> 2 powi (- 53)"
    using f64_nonneg [OF tw(1)] f64_mono [OF tw(2)] f64_err [of "t / w" "- 52"] tw by (simp_all add: u_def)
  have y: "0 \<le> y" "\<bar>y - u * 65535\<bar> \<le> 2 powi (- 37)"
    using f64_nonneg [of "u * 65535"] f64_err [of "u * 65535" "- 36"] u by (simp_all add: y_def)
  have "\<bar>t / w - (?v - ?lo) / w\<bar> \<le> 2 powi (- 52)"
  proof -
    have "\<bar>t / w - (?v - ?lo) / w\<bar> = \<bar>t - (?v - ?lo)\<bar> / w" using w(2) by (simp add: diff_divide_distrib [symmetric])
    also have "\<dots> \<le> 2 powi (- 45) / 128" using t(3) w(2) by (intro frac_le) simp_all
    finally show ?thesis by simp
  qed
  then have "\<bar>y - (?v - ?lo) / w * 65535\<bar> \<le> 2 powi (- 34)"
    using u(3) y(2) unfolding powi_values by linarith
  moreover have "quantized_value v lo hi = llround y"
    by (simp add: quantized_value_def encodedMaximum_def b(1) w(1) t_def u_def y_def)
  ultimately show thesis using that y(1) by simp
qed

text \<open>A quantized coordinate survives being dequantized and quantized again, and a coordinate
  that goes through the wire moves by at most half a step and a bit.\<close>

lemma quantize_dequantize:
  assumes "wire_bounds lo hi w"
  shows "QuantizeCoordinate (dequantized q lo hi) lo hi = Inr q"
proof -
  note f = dequantized_val [OF assms, of q]
  have w: "128 \<le> w" "w \<le> 256" and lo_hi: "isfinite lo" "isfinite hi" "f32_val lo < f32_val hi"
    using assms by (auto simp: wire_bounds_def)
  obtain y where y: "quantized_value (dequantized q lo hi) lo hi = llround y" "0 \<le> y"
    "\<bar>y - (f32_val (dequantized q lo hi) - f32_val lo) * 65535 / w\<bar> \<le> 2 powi (- 34)"
    by (rule quantized_value_err [OF assms f(3,4)])
  define d where "d = f32_val (dequantized q lo hi) - (f32_val lo + of_int (uint q) * w / 65535)"
  define c where "c = d * 65535 / w"
  have "(f32_val (dequantized q lo hi) - f32_val lo) * 65535 / w = of_int (uint q) + c"
    using w by (simp add: c_def d_def field_simps)
  then have "\<bar>y - (of_int (uint q) + c)\<bar> \<le> 2 powi (- 34)" using y(3) by (simp only:)
  moreover have "\<bar>c\<bar> \<le> (2 powi (- 17) + 3 * 2 powi (- 45)) * 65535 / 128"
  proof -
    have "\<bar>c\<bar> = \<bar>d\<bar> * 65535 / w" using w by (simp add: c_def abs_mult)
    also have "\<dots> \<le> (2 powi (- 17) + 3 * 2 powi (- 45)) * 65535 / 128"
      using f(5) w by (intro frac_le mult_right_mono) (simp_all add: d_def)
    finally show ?thesis .
  qed
  then have "\<bar>c\<bar> \<le> 1/4" by (rule order_trans) (simp add: powi_values)
  moreover have "\<bar>y - n\<bar> < 1/2" if "\<bar>y - (n + c)\<bar> \<le> 2 powi (- 34)" "\<bar>c\<bar> \<le> 1/4" for n
    using that unfolding powi_values abs_le_iff abs_less_iff by linarith
  ultimately have "\<bar>y - of_int (uint q)\<bar> < 1/2" by blast
  then have "llround y = uint q" using y(2) by (rule llround_near)
  then show ?thesis using f lo_hi y(1) by (simp add: QuantizeCoordinate_iff)
qed

lemma dequantize_quantize:
  assumes "wire_bounds lo hi w" and "QuantizeCoordinate v lo hi = Inr q"
  shows "\<bar>f32_val (dequantized q lo hi) - f32_val v\<bar> \<le> w / 131070 + 2 powi (- 16)"
proof -
  have v: "f32_val lo \<le> f32_val v" "f32_val v \<le> f32_val hi" "q = word_of_int (quantized_value v lo hi)"
    "f32_val lo < f32_val hi"
    using assms(2) by (simp_all add: QuantizeCoordinate_iff)
  have w: "128 \<le> w" "w \<le> 256" using assms(1) by (auto simp: wire_bounds_def)
  obtain y where y: "quantized_value v lo hi = llround y" "0 \<le> y"
    "\<bar>y - (f32_val v - f32_val lo) * 65535 / w\<bar> \<le> 2 powi (- 34)"
    by (rule quantized_value_err [OF assms(1) v(1,2)])
  have q: "uint q = llround y"
    using quantized_value_bounds [OF v(4,1,2)] by (simp add: v(3) y(1) uint_word_of_int)
  define d where "d = of_int (uint q) - (f32_val v - f32_val lo) * 65535 / w"
  have d: "\<bar>d\<bar> \<le> 1/2 + 2 powi (- 34)" using llround_err [OF y(2)] y(3) unfolding d_def q by linarith
  have "of_int (uint q) * w / 65535 - (f32_val v - f32_val lo) = d * (w / 65535)"
    using w by (simp add: d_def field_simps)
  moreover have "\<bar>d * (w / 65535)\<bar> \<le> w / 131070 + 2 powi (- 34)"
  proof -
    have "\<bar>d * (w / 65535)\<bar> = \<bar>d\<bar> * (w / 65535)" using w by (simp add: abs_mult)
    also have "\<dots> \<le> (1/2 + 2 powi (- 34)) * (w / 65535)" using d w by (intro mult_right_mono) simp_all
    also have "\<dots> \<le> w / 131070 + 2 powi (- 34)" using w by (simp add: algebra_simps)
    finally show ?thesis .
  qed
  ultimately show ?thesis using dequantized_val(5) [OF assms(1), of q] unfolding powi_values by linarith
qed

end
