(* ===== verification/ReplicationCodec.thy ===== *)
theory ReplicationCodec
  imports ReplicationTypes
begin

text \<open>
  protocol/src/ReplicationSnapshotCodec.cpp: the encoder and the decoder of replication payloads
  (full states, keyframes with full precision or quantized values, and deltas). The checks on
  single values that this file repeats from GameSnapshotCodec.cpp are those of
  \<open>GameSnapshotCodec\<close>. \<open>ReplicationCodecLemmas\<close> shows that what is encoded is
  decoded, and that whatever is decoded can be encoded.
\<close>

section \<open>Validation\<close>

datatype canonical_order = Canonical | Duplicate | OutOfOrder

text \<open>The loop over neighbours returns at the first pair that is not increasing.\<close>

fun CheckCanonicalOrder :: "('v \<Rightarrow> 'k::linorder) \<Rightarrow> 'v list \<Rightarrow> canonical_order" where
  "CheckCanonicalOrder key (previous # current # values) =
     (if key current = key previous then Duplicate
      else if key current < key previous then OutOfOrder
      else CheckCanonicalOrder key (current # values))"
| "CheckCanonicalOrder key values = Canonical"

definition IsValidActorIdentity :: "u8 \<Rightarrow> u8 \<Rightarrow> bool" where
  "IsValidActorIdentity role archetype =
     (if \<not> IsValidRole role \<or> \<not> IsValidArchetype archetype then False
      else if role = RoleContender then archetype = ArchetypeNone
      else archetype = ArchetypeMelee \<or> archetype = ArchetypeRanged)"

definition IsValidResultState :: "u8 \<Rightarrow> u32 \<Rightarrow> bool \<Rightarrow> network_match_result \<Rightarrow> bool" where
  "IsValidResultState phase aliveContenders hasResult result =
     (let finished = (phase = PhaseFinished)
      in if hasResult \<noteq> finished then False
         else \<not> hasResult \<or> aliveContenders = 1 \<and> IsValidEndReason (nr_reason result))"

definition IsValidHeader :: "payload_header \<Rightarrow> bool" where
  "IsValidHeader header =
     (if ph_kind header \<notin> {KindFullState, KindKeyframe, KindDelta}
         \<or> ph_valueEncoding header \<notin> {EncodingFullPrecision, EncodingQuantized}
         \<or> ph_payloadSnapshotId header = 0
      then False
      else if ph_kind header = KindFullState
      then ph_valueEncoding header = EncodingFullPrecision \<and> ph_baseSnapshotId header = 0
      else if ph_kind header = KindKeyframe then ph_baseSnapshotId header = 0
      else ph_valueEncoding header = EncodingQuantized \<and> 0 < ph_baseSnapshotId header
        \<and> ph_baseSnapshotId header < ph_payloadSnapshotId header)"

definition IsValidPrecisionActor :: "network_actor \<Rightarrow> bool" where
  "IsValidPrecisionActor actor \<longleftrightarrow>
     IsValidActorIdentity (na_role actor) (na_neutralArchetype actor)
     \<and> IsValidWeapon (na_weapon actor)
     \<and> IsFinite (na_position actor)
     \<and> 0 \<le> sint (na_health actor)
     \<and> sint (na_health actor) \<le> 100
     \<and> na_alive actor = (0 < sint (na_health actor))"

definition IsValidQuantizedActor :: "quantized_actor \<Rightarrow> bool" where
  "IsValidQuantizedActor actor \<longleftrightarrow>
     IsValidActorIdentity (qa_role actor) (qa_neutralArchetype actor)
     \<and> IsValidWeapon (qa_weapon actor)
     \<and> qa_health actor \<le> 100
     \<and> qa_alive actor = (0 < qa_health actor)"

definition IsValidQuantizedActorDelta :: "actor_delta \<Rightarrow> bool" where
  "IsValidQuantizedActorDelta actor =
     (if ad_fields actor = 0 \<or> \<not> IsValidActorFieldMask (ad_fields actor) then False
      else
        let hasField = HasField (ad_fields actor);
            defaults = default_actor_delta
        in if (\<not> hasField ActorPosition \<and> ad_position actor \<noteq> ad_position defaults)
              \<or> (\<not> hasField ActorHealthAlive
                  \<and> (ad_health actor \<noteq> ad_health defaults \<or> ad_alive actor \<noteq> ad_alive defaults))
              \<or> (\<not> hasField ActorWeaponCooldown
                  \<and> (ad_weapon actor \<noteq> ad_weapon defaults
                     \<or> ad_cooldownTicksRemaining actor \<noteq> ad_cooldownTicksRemaining defaults))
              \<or> (\<not> hasField ActorEliminations \<and> ad_eliminations actor \<noteq> ad_eliminations defaults)
           then False
           else if hasField ActorHealthAlive
                   \<and> (100 < ad_health actor \<or> ad_alive actor \<noteq> (0 < ad_health actor))
           then False
           else \<not> hasField ActorWeaponCooldown \<or> IsValidWeapon (ad_weapon actor))"

definition IsValidPrecisionGlobal :: "game_snapshot \<Rightarrow> bool" where
  "IsValidPrecisionGlobal snapshot \<longleftrightarrow>
     IsValidPhase (gs_phase snapshot)
     \<and> IsValidSafeZoneStage (gs_safeZoneStage snapshot)
     \<and> IsFinite (gs_safeZoneCenter snapshot)
     \<and> isfinite (gs_safeZoneRadius snapshot)
     \<and> (f32_less 0 (gs_safeZoneRadius snapshot) \<or> f32_eq (gs_safeZoneRadius snapshot) 0)
     \<and> unat (gs_aliveContenders snapshot) \<le> RoomCapacity
     \<and> IsValidResultState (gs_phase snapshot) (gs_aliveContenders snapshot)
          (gs_hasResult snapshot) (gs_result snapshot)"

definition IsValidQuantizedGlobal :: "quantized_global \<Rightarrow> bool" where
  "IsValidQuantizedGlobal global \<longleftrightarrow>
     IsValidPhase (qg_phase global)
     \<and> IsValidSafeZoneStage (qg_safeZoneStage global)
     \<and> unat (qg_aliveContenders global) \<le> RoomCapacity
     \<and> IsValidResultState (qg_phase global) (ucast (qg_aliveContenders global))
          (qg_hasResult global) (qg_result global)"

definition IsValidQuantizedGlobalDelta :: "global_delta \<Rightarrow> bool" where
  "IsValidQuantizedGlobalDelta global =
     (if \<not> IsValidGlobalFieldMask (gd_fields global) then False
      else
        let hasField = HasField (gd_fields global);
            defaults = default_global_delta
        in if (\<not> hasField GlobalPhase \<and> gd_phase global \<noteq> gd_phase defaults)
              \<or> (\<not> hasField GlobalSafeZone
                  \<and> (gd_safeZoneStage global \<noteq> gd_safeZoneStage defaults
                     \<or> gd_safeZoneCenter global \<noteq> gd_safeZoneCenter defaults
                     \<or> gd_safeZoneRadius global \<noteq> gd_safeZoneRadius defaults))
              \<or> (\<not> hasField GlobalAliveContenders
                  \<and> gd_aliveContenders global \<noteq> gd_aliveContenders defaults)
              \<or> (\<not> hasField GlobalResult
                  \<and> (gd_result global \<noteq> gd_result defaults \<or> gd_hasResult global \<noteq> gd_hasResult defaults))
              \<or> (\<not> hasField GlobalEventChecksum
                  \<and> gd_eventChecksum global \<noteq> gd_eventChecksum defaults)
           then False
           else if hasField GlobalPhase \<and> \<not> IsValidPhase (gd_phase global) then False
           else if hasField GlobalSafeZone \<and> \<not> IsValidSafeZoneStage (gd_safeZoneStage global) then False
           else if hasField GlobalAliveContenders \<and> RoomCapacity < unat (gd_aliveContenders global)
           then False
           else if \<not> hasField GlobalResult then True
           else if gd_hasResult global \<and> \<not> IsValidEndReason (nr_reason (gd_result global)) then False
           else if \<not> gd_hasResult global \<and> gd_result global \<noteq> no_match_result then False
           else if hasField GlobalPhase
                   \<and> gd_hasResult global \<noteq> (gd_phase global = PhaseFinished)
           then False
           else \<not> gd_hasResult global \<or> \<not> hasField GlobalAliveContenders \<or> gd_aliveContenders global = 1)"

definition RequireCanonical :: "('v \<Rightarrow> 'k::linorder) \<Rightarrow> 'v list \<Rightarrow> unit throws" where
  "RequireCanonical key values =
     (if CheckCanonicalOrder key values \<noteq> Canonical then Inl Invalid_argument else Inr ())"

definition HasDuplicateActorCategory :: "snapshot_payload \<Rightarrow> bool" where
  "HasDuplicateActorCategory payload =
     adjacent_equal (\<lambda>id. id)
       (sort (map (\<lambda>actor. idval (qa_id actor)) (sp_actorValues payload)
              @ map (\<lambda>actor. idval (ad_id actor)) (sp_actorDeltas payload)
              @ map idval (sp_removedActors payload)))"

definition HasDuplicateLootCategory :: "snapshot_payload \<Rightarrow> bool" where
  "HasDuplicateLootCategory payload =
     adjacent_equal (\<lambda>id. id)
       (sort (map ql_id (sp_lootValues payload) @ map ld_id (sp_lootDeltas payload)
              @ sp_removedLoot payload))"

definition ValidatePrecisionKeyframe :: "snapshot_payload \<Rightarrow> unit throws" where
  "ValidatePrecisionKeyframe payload =
     (let snapshot = sp_fullPrecision payload
      in if \<not> IsValidPrecisionGlobal snapshot
            \<or> MaxSnapshotActors < length (gs_actors snapshot)
            \<or> MaxSnapshotLoot < length (gs_loot snapshot)
            \<or> \<not> list_all IsValidPrecisionActor (gs_actors snapshot)
            \<or> \<not> list_all (\<lambda>loot. IsValidLootType (nl_type loot) \<and> IsFinite (nl_position loot))
                  (gs_loot snapshot)
         then Inl Invalid_argument
         else bind_throws (RequireCanonical na_id (gs_actors snapshot)) (\<lambda>_.
              RequireCanonical nl_id (gs_loot snapshot)))"

definition ValidateQuantizedKeyframe :: "snapshot_payload \<Rightarrow> unit throws" where
  "ValidateQuantizedKeyframe payload =
     (if \<not> IsValidQuantizedGlobal (sp_global payload)
         \<or> MaxSnapshotActors < length (sp_actorValues payload)
         \<or> MaxSnapshotLoot < length (sp_lootValues payload)
         \<or> \<not> list_all IsValidQuantizedActor (sp_actorValues payload)
         \<or> \<not> list_all (\<lambda>loot. IsValidLootType (ql_type loot)) (sp_lootValues payload)
      then Inl Invalid_argument
      else bind_throws (RequireCanonical qa_id (sp_actorValues payload)) (\<lambda>_.
           RequireCanonical ql_id (sp_lootValues payload)))"

definition ValidateDelta :: "snapshot_payload \<Rightarrow> unit throws" where
  "ValidateDelta payload =
     (let actorCount = length (sp_actorValues payload) + length (sp_actorDeltas payload)
            + length (sp_removedActors payload);
          lootCount = length (sp_lootValues payload) + length (sp_lootDeltas payload)
            + length (sp_removedLoot payload)
      in if MaxSnapshotActors < actorCount \<or> MaxSnapshotLoot < lootCount then Inl Length_error
         else if \<not> IsValidQuantizedGlobalDelta (sp_globalDelta payload)
            \<or> \<not> list_all IsValidQuantizedActor (sp_actorValues payload)
            \<or> \<not> list_all IsValidQuantizedActorDelta (sp_actorDeltas payload)
            \<or> \<not> list_all (\<lambda>loot. IsValidLootType (ql_type loot)) (sp_lootValues payload)
            \<or> \<not> list_all (\<lambda>loot. ld_fields loot = LootActive) (sp_lootDeltas payload)
         then Inl Invalid_argument
         else bind_throws (RequireCanonical qa_id (sp_actorValues payload)) (\<lambda>_.
              bind_throws (RequireCanonical ad_id (sp_actorDeltas payload)) (\<lambda>_.
              bind_throws (RequireCanonical (\<lambda>actor. actor) (sp_removedActors payload)) (\<lambda>_.
              bind_throws (RequireCanonical ql_id (sp_lootValues payload)) (\<lambda>_.
              bind_throws (RequireCanonical ld_id (sp_lootDeltas payload)) (\<lambda>_.
              bind_throws (RequireCanonical (\<lambda>loot. loot) (sp_removedLoot payload)) (\<lambda>_.
              if HasDuplicateActorCategory payload \<or> HasDuplicateLootCategory payload
              then Inl Invalid_argument else Inr ())))))))"

definition ValidatePayload :: "snapshot_payload \<Rightarrow> unit throws" where
  "ValidatePayload payload =
     (if \<not> IsValidHeader (sp_header payload) then Inl Invalid_argument
      else
        let hasDeltaRecords = (sp_actorDeltas payload \<noteq> [] \<or> sp_lootDeltas payload \<noteq> []
              \<or> sp_removedActors payload \<noteq> [] \<or> sp_removedLoot payload \<noteq> []
              \<or> sp_globalDelta payload \<noteq> default_global_delta);
            kind = ph_kind (sp_header payload);
            encoding = ph_valueEncoding (sp_header payload)
        in if kind = KindFullState
           then if encoding \<noteq> EncodingFullPrecision \<or> sp_actorValues payload \<noteq> []
                   \<or> sp_lootValues payload \<noteq> [] \<or> hasDeltaRecords
                   \<or> sp_global payload \<noteq> default_global
                then Inl Invalid_argument else Inr ()
           else if kind = KindKeyframe
           then if hasDeltaRecords then Inl Invalid_argument
                else if encoding = EncodingFullPrecision
                then if sp_actorValues payload \<noteq> [] \<or> sp_lootValues payload \<noteq> []
                        \<or> sp_global payload \<noteq> default_global
                     then Inl Invalid_argument
                     else ValidatePrecisionKeyframe payload
                else if \<not> snapshot_eq (sp_fullPrecision payload) default_game_snapshot
                then Inl Invalid_argument
                else ValidateQuantizedKeyframe payload
           else if \<not> snapshot_eq (sp_fullPrecision payload) default_game_snapshot
                   \<or> sp_global payload \<noteq> default_global
           then Inl Invalid_argument
           else ValidateDelta payload)"

section \<open>Encoder\<close>

definition WriteHeader :: "payload_header \<Rightarrow> byte_writer \<Rightarrow> byte_writer" where
  "WriteHeader header w =
     (let w = WriteU8 (ph_kind header) w;
          w = WriteU8 (ph_valueEncoding header) w;
          w = WriteU32 (ph_baseSnapshotId header) w
      in WriteU32 (ph_payloadSnapshotId header) w)"

definition WriteMatchResult :: "network_match_result \<Rightarrow> byte_writer \<Rightarrow> byte_writer" where
  "WriteMatchResult result w =
     (let w = WriteU32 (idval (nr_winner result)) w;
          w = WriteU8 (nr_reason result) w
      in WriteU32 (nr_finishedTick result) w)"

definition WritePrecisionActor :: "network_actor \<Rightarrow> byte_writer \<Rightarrow> byte_writer" where
  "WritePrecisionActor actor w =
     (let w = WriteU32 (idval (na_id actor)) w;
          w = WriteU8 (na_role actor) w;
          w = WriteU8 (na_neutralArchetype actor) w;
          w = WriteF32 (nv_x (na_position actor)) w;
          w = WriteF32 (nv_z (na_position actor)) w;
          w = WriteU32 (na_health actor) w;
          w = WriteU8 (bool_u8 (na_alive actor)) w;
          w = WriteU8 (na_weapon actor) w;
          w = WriteU32 (na_cooldownTicksRemaining actor) w
      in WriteU32 (na_eliminations actor) w)"

definition WritePrecisionLoot :: "network_loot \<Rightarrow> byte_writer \<Rightarrow> byte_writer" where
  "WritePrecisionLoot loot w =
     (let w = WriteU32 (nl_id loot) w;
          w = WriteU8 (nl_type loot) w;
          w = WriteF32 (nv_x (nl_position loot)) w;
          w = WriteF32 (nv_z (nl_position loot)) w
      in WriteU8 (bool_u8 (nl_active loot)) w)"

definition WritePrecisionKeyframe :: "game_snapshot \<Rightarrow> byte_writer \<Rightarrow> byte_writer" where
  "WritePrecisionKeyframe snapshot w =
     (let w = WriteU8 (gs_phase snapshot) w;
          w = WriteU8 (gs_safeZoneStage snapshot) w;
          w = WriteF32 (nv_x (gs_safeZoneCenter snapshot)) w;
          w = WriteF32 (nv_z (gs_safeZoneCenter snapshot)) w;
          w = WriteF32 (gs_safeZoneRadius snapshot) w;
          w = WriteU32 (gs_aliveContenders snapshot) w;
          w = WriteU16 (of_nat (length (gs_actors snapshot))) w;
          w = fold WritePrecisionActor (gs_actors snapshot) w;
          w = WriteU16 (of_nat (length (gs_loot snapshot))) w;
          w = fold WritePrecisionLoot (gs_loot snapshot) w;
          w = WriteU8 (bool_u8 (gs_hasResult snapshot)) w;
          w = (if gs_hasResult snapshot then WriteMatchResult (gs_result snapshot) w else w)
      in WriteU64 (gs_eventChecksum snapshot) w)"

definition WriteQuantizedActor :: "quantized_actor \<Rightarrow> byte_writer \<Rightarrow> byte_writer" where
  "WriteQuantizedActor actor w =
     (let w = WriteU32 (idval (qa_id actor)) w;
          w = WriteU8 (qa_role actor) w;
          w = WriteU8 (qa_neutralArchetype actor) w;
          w = WriteU16 (qv_x (qa_position actor)) w;
          w = WriteU16 (qv_z (qa_position actor)) w;
          w = WriteU8 (qa_health actor) w;
          w = WriteU8 (bool_u8 (qa_alive actor)) w;
          w = WriteU8 (qa_weapon actor) w;
          w = WriteU16 (qa_cooldownTicksRemaining actor) w
      in WriteU8 (qa_eliminations actor) w)"

definition WriteQuantizedLoot :: "quantized_loot \<Rightarrow> byte_writer \<Rightarrow> byte_writer" where
  "WriteQuantizedLoot loot w =
     (let w = WriteU32 (ql_id loot) w;
          w = WriteU8 (ql_type loot) w;
          w = WriteU16 (qv_x (ql_position loot)) w;
          w = WriteU16 (qv_z (ql_position loot)) w
      in WriteU8 (bool_u8 (ql_active loot)) w)"

definition WriteQuantizedGlobal :: "quantized_global \<Rightarrow> byte_writer \<Rightarrow> byte_writer" where
  "WriteQuantizedGlobal global w =
     (let w = WriteU8 (qg_phase global) w;
          w = WriteU8 (qg_safeZoneStage global) w;
          w = WriteU16 (qv_x (qg_safeZoneCenter global)) w;
          w = WriteU16 (qv_z (qg_safeZoneCenter global)) w;
          w = WriteU16 (qg_safeZoneRadius global) w;
          w = WriteU8 (qg_aliveContenders global) w;
          w = WriteU8 (bool_u8 (qg_hasResult global)) w;
          w = (if qg_hasResult global then WriteMatchResult (qg_result global) w else w)
      in WriteU64 (qg_eventChecksum global) w)"

definition WriteQuantizedKeyframe :: "snapshot_payload \<Rightarrow> byte_writer \<Rightarrow> byte_writer" where
  "WriteQuantizedKeyframe payload w =
     (let w = WriteQuantizedGlobal (sp_global payload) w;
          w = WriteU16 (of_nat (length (sp_actorValues payload))) w;
          w = fold WriteQuantizedActor (sp_actorValues payload) w;
          w = WriteU16 (of_nat (length (sp_lootValues payload))) w
      in fold WriteQuantizedLoot (sp_lootValues payload) w)"

definition WriteGlobalDelta :: "global_delta \<Rightarrow> byte_writer \<Rightarrow> byte_writer" where
  "WriteGlobalDelta global w =
     (let hasField = HasField (gd_fields global);
          w = WriteU8 (gd_fields global) w;
          w = (if hasField GlobalPhase then WriteU8 (gd_phase global) w else w);
          w = (if hasField GlobalSafeZone
               then WriteU16 (gd_safeZoneRadius global)
                 (WriteU16 (qv_z (gd_safeZoneCenter global))
                 (WriteU16 (qv_x (gd_safeZoneCenter global))
                 (WriteU8 (gd_safeZoneStage global) w)))
               else w);
          w = (if hasField GlobalAliveContenders then WriteU8 (gd_aliveContenders global) w else w);
          w = (if hasField GlobalResult
               then let w = WriteU8 (bool_u8 (gd_hasResult global)) w
                    in if gd_hasResult global then WriteMatchResult (gd_result global) w else w
               else w)
      in if hasField GlobalEventChecksum then WriteU64 (gd_eventChecksum global) w else w)"

definition WriteActorDelta :: "actor_delta \<Rightarrow> byte_writer \<Rightarrow> byte_writer" where
  "WriteActorDelta actor w =
     (let hasField = HasField (ad_fields actor);
          w = WriteU32 (idval (ad_id actor)) w;
          w = WriteU8 (ad_fields actor) w;
          w = (if hasField ActorPosition
               then WriteU16 (qv_z (ad_position actor)) (WriteU16 (qv_x (ad_position actor)) w)
               else w);
          w = (if hasField ActorHealthAlive
               then WriteU8 (bool_u8 (ad_alive actor)) (WriteU8 (ad_health actor) w)
               else w);
          w = (if hasField ActorWeaponCooldown
               then WriteU16 (ad_cooldownTicksRemaining actor) (WriteU8 (ad_weapon actor) w)
               else w)
      in if hasField ActorEliminations then WriteU8 (ad_eliminations actor) w else w)"

definition WriteLootDelta :: "loot_delta \<Rightarrow> byte_writer \<Rightarrow> byte_writer" where
  "WriteLootDelta loot w =
     (let w = WriteU32 (ld_id loot) w;
          w = WriteU8 (ld_fields loot) w
      in WriteU8 (bool_u8 (ld_active loot)) w)"

definition WriteDelta :: "snapshot_payload \<Rightarrow> byte_writer \<Rightarrow> byte_writer" where
  "WriteDelta payload w =
     (let w = WriteGlobalDelta (sp_globalDelta payload) w;
          w = WriteU16 (of_nat (length (sp_actorValues payload))) w;
          w = fold WriteQuantizedActor (sp_actorValues payload) w;
          w = WriteU16 (of_nat (length (sp_actorDeltas payload))) w;
          w = fold WriteActorDelta (sp_actorDeltas payload) w;
          w = WriteU16 (of_nat (length (sp_removedActors payload))) w;
          w = fold (\<lambda>actor. WriteU32 (idval actor)) (sp_removedActors payload) w;
          w = WriteU16 (of_nat (length (sp_lootValues payload))) w;
          w = fold WriteQuantizedLoot (sp_lootValues payload) w;
          w = WriteU16 (of_nat (length (sp_lootDeltas payload))) w;
          w = fold WriteLootDelta (sp_lootDeltas payload) w;
          w = WriteU16 (of_nat (length (sp_removedLoot payload))) w
      in fold WriteU32 (sp_removedLoot payload) w)"

definition EncodeSnapshotPayload :: "snapshot_payload \<Rightarrow> byte list throws" where
  "EncodeSnapshotPayload payload =
     bind_throws (ValidatePayload payload) (\<lambda>_.
       let w = WriteHeader (sp_header payload) []
       in bind_throws
            (if ph_kind (sp_header payload) = KindFullState
             then bind_throws (EncodeGameSnapshot (sp_fullPrecision payload)) (\<lambda>fullState.
                    Inr (WriteBytes fullState w))
             else if ph_kind (sp_header payload) = KindKeyframe
             then if ph_valueEncoding (sp_header payload) = EncodingFullPrecision
                  then Inr (WritePrecisionKeyframe (sp_fullPrecision payload) w)
                  else Inr (WriteQuantizedKeyframe payload w)
             else Inr (WriteDelta payload w))
            (\<lambda>bytes. if MaxSnapshotPayloadBytes < length bytes then Inl Length_error else Inr bytes))"

section \<open>Decoder\<close>

datatype payload_error =
    PayloadTruncated | PayloadInvalidValue | PayloadCountLimit | PayloadNonCanonicalOrder
  | PayloadDuplicateEntity | PayloadTrailingBytes

text \<open>
  A reading function of the source returns whether it succeeded, with the value and an error in
  reference arguments. When it fails without setting the error, its callers turn the state of the
  reader into the error; here that is done on the spot, as nothing is read in between.
\<close>

type_synonym 'a payload_result = "payload_error + 'a \<times> byte_reader"

fun PayloadReaderFailure :: "decode_error \<Rightarrow> payload_error" where
  "PayloadReaderFailure DecodeNone = PayloadTrailingBytes"
| "PayloadReaderFailure Truncated = PayloadTruncated"
| "PayloadReaderFailure InvalidValue = PayloadInvalidValue"
| "PayloadReaderFailure CountLimit = PayloadCountLimit"
| "PayloadReaderFailure TrailingBytes = PayloadTrailingBytes"

text \<open>\<^verbatim>\<open>GameSnapshotFailure\<close> of an error that is one.\<close>

definition GameSnapshotFailure :: "decode_error \<Rightarrow> payload_error" where
  "GameSnapshotFailure error = PayloadReaderFailure error"

definition read_failure :: "byte_reader \<Rightarrow> 'a payload_result" where
  "read_failure r = Inl (PayloadReaderFailure (rerror r))"

text \<open>One reading function after another, and one that is called only on a condition.\<close>

fun read_then :: "'a payload_result \<Rightarrow> ('a \<Rightarrow> byte_reader \<Rightarrow> 'b payload_result) \<Rightarrow> 'b payload_result" where
  "read_then (Inl error) f = Inl error"
| "read_then (Inr (x, r)) f = f x r"

definition read_if :: "bool \<Rightarrow> ('a \<Rightarrow> byte_reader \<Rightarrow> 'a payload_result) \<Rightarrow> 'a \<Rightarrow> byte_reader \<Rightarrow> 'a payload_result" where
  "read_if present f x r = (if present then f x r else Inr (x, r))"

definition ReadBool :: "byte_reader \<Rightarrow> bool payload_result" where
  "ReadBool r =
     (case ReadU8 r of
        (None, r) \<Rightarrow> read_failure r
      | (Some encoded, r) \<Rightarrow> if 1 < encoded then Inl PayloadInvalidValue else Inr (encoded = 1, r))"

definition ReadMatchResult :: "byte_reader \<Rightarrow> network_match_result payload_result" where
  "ReadMatchResult r =
     (let (winner, r) = ReadU32 r;
          (reason, r) = ReadU8 r;
          (finishedTick, r) = ReadU32 r
      in case (winner, reason, finishedTick) of
           (Some w, Some re, Some t) \<Rightarrow>
             Inr (\<lparr>nr_winner = EntityId w, nr_reason = re, nr_finishedTick = t\<rparr>, r)
         | _ \<Rightarrow> read_failure r)"

definition ReadPrecisionActor :: "byte_reader \<Rightarrow> network_actor payload_result" where
  "ReadPrecisionActor r =
     (let (id, r) = ReadU32 r;
          (role, r) = ReadU8 r;
          (archetype, r) = ReadU8 r;
          (positionX, r) = ReadF32 r;
          (positionZ, r) = ReadF32 r;
          (health, r) = ReadU32 r;
          (alive, r) = ReadU8 r;
          (weapon, r) = ReadU8 r;
          (cooldown, r) = ReadU32 r;
          (eliminations, r) = ReadU32 r
      in case (id, role, archetype, positionX, positionZ, health, alive, weapon, cooldown, eliminations) of
           (Some i, Some ro, Some ar, Some x, Some z, Some h, Some al, Some we, Some co, Some el) \<Rightarrow>
             if 1 < al then Inl PayloadInvalidValue
             else Inr (\<lparr>na_id = EntityId i, na_role = ro, na_neutralArchetype = ar,
                        na_position = \<lparr>nv_x = x, nv_z = z\<rparr>, na_health = h, na_alive = (al = 1),
                        na_weapon = we, na_cooldownTicksRemaining = co, na_eliminations = el\<rparr>, r)
         | _ \<Rightarrow> read_failure r)"

definition ReadPrecisionLoot :: "byte_reader \<Rightarrow> network_loot payload_result" where
  "ReadPrecisionLoot r =
     (let (id, r) = ReadU32 r;
          (type, r) = ReadU8 r;
          (positionX, r) = ReadF32 r;
          (positionZ, r) = ReadF32 r;
          (active, r) = ReadU8 r
      in case (id, type, positionX, positionZ, active) of
           (Some i, Some t, Some x, Some z, Some a) \<Rightarrow>
             if 1 < a then Inl PayloadInvalidValue
             else Inr (\<lparr>nl_id = i, nl_type = t, nl_position = \<lparr>nv_x = x, nv_z = z\<rparr>, nl_active = (a = 1)\<rparr>, r)
         | _ \<Rightarrow> read_failure r)"

definition ReadBoundedVector ::
    "nat \<Rightarrow> (byte_reader \<Rightarrow> 'a payload_result) \<Rightarrow> byte_reader \<Rightarrow> 'a list payload_result" where
  "ReadBoundedVector maximum readValue r =
     (case ReadU16 r of
        (None, r) \<Rightarrow> read_failure r
      | (Some count, r) \<Rightarrow>
          if maximum < unat count then Inl PayloadCountLimit
          else read_items readValue (unat count) r)"

text \<open>A result that is read when it is present, and stays the default one otherwise.\<close>

definition ReadOptionalResult :: "byte_reader \<Rightarrow> (bool \<times> network_match_result) payload_result" where
  "ReadOptionalResult r =
     read_then (ReadBool r) (\<lambda>hasResult r.
       if hasResult then read_then (ReadMatchResult r) (\<lambda>result r. Inr ((True, result), r))
       else Inr ((False, no_match_result), r))"

definition ReadPrecisionKeyframe :: "byte_reader \<Rightarrow> game_snapshot payload_result" where
  "ReadPrecisionKeyframe r =
     (let (phase, r) = ReadU8 r;
          (stage, r) = ReadU8 r;
          (centerX, r) = ReadF32 r;
          (centerZ, r) = ReadF32 r;
          (radius, r) = ReadF32 r;
          (aliveContenders, r) = ReadU32 r
      in case (phase, stage, centerX, centerZ, radius, aliveContenders) of
           (Some ph, Some st, Some x, Some z, Some ra, Some al) \<Rightarrow>
             read_then (ReadBoundedVector MaxSnapshotActors ReadPrecisionActor r) (\<lambda>actors r.
             read_then (ReadBoundedVector MaxSnapshotLoot ReadPrecisionLoot r) (\<lambda>loot r.
             read_then (ReadOptionalResult r) (\<lambda>result r.
               case ReadU64 r of
                 (None, r) \<Rightarrow> read_failure r
               | (Some checksum, r) \<Rightarrow>
                   Inr (\<lparr>gs_phase = ph, gs_safeZoneStage = st, gs_safeZoneCenter = \<lparr>nv_x = x, nv_z = z\<rparr>,
                         gs_safeZoneRadius = ra, gs_aliveContenders = al, gs_actors = actors,
                         gs_loot = loot, gs_result = snd result, gs_hasResult = fst result,
                         gs_eventChecksum = checksum\<rparr>, r))))
         | _ \<Rightarrow> read_failure r)"

definition ReadQuantizedActor :: "byte_reader \<Rightarrow> quantized_actor payload_result" where
  "ReadQuantizedActor r =
     (let (id, r) = ReadU32 r;
          (role, r) = ReadU8 r;
          (archetype, r) = ReadU8 r;
          (positionX, r) = ReadU16 r;
          (positionZ, r) = ReadU16 r;
          (health, r) = ReadU8 r;
          (alive, r) = ReadU8 r;
          (weapon, r) = ReadU8 r;
          (cooldown, r) = ReadU16 r;
          (eliminations, r) = ReadU8 r
      in case (id, role, archetype, positionX, positionZ, health, alive, weapon, cooldown, eliminations) of
           (Some i, Some ro, Some ar, Some x, Some z, Some h, Some al, Some we, Some co, Some el) \<Rightarrow>
             if 1 < al then Inl PayloadInvalidValue
             else Inr (\<lparr>qa_id = EntityId i, qa_role = ro, qa_neutralArchetype = ar,
                        qa_position = \<lparr>qv_x = x, qv_z = z\<rparr>, qa_health = h, qa_alive = (al = 1),
                        qa_weapon = we, qa_cooldownTicksRemaining = co, qa_eliminations = el\<rparr>, r)
         | _ \<Rightarrow> read_failure r)"

definition ReadQuantizedLoot :: "byte_reader \<Rightarrow> quantized_loot payload_result" where
  "ReadQuantizedLoot r =
     (let (id, r) = ReadU32 r;
          (type, r) = ReadU8 r;
          (positionX, r) = ReadU16 r;
          (positionZ, r) = ReadU16 r;
          (active, r) = ReadU8 r
      in case (id, type, positionX, positionZ, active) of
           (Some i, Some t, Some x, Some z, Some a) \<Rightarrow>
             if 1 < a then Inl PayloadInvalidValue
             else Inr (\<lparr>ql_id = i, ql_type = t, ql_position = \<lparr>qv_x = x, qv_z = z\<rparr>, ql_active = (a = 1)\<rparr>, r)
         | _ \<Rightarrow> read_failure r)"

definition ReadQuantizedGlobal :: "byte_reader \<Rightarrow> quantized_global payload_result" where
  "ReadQuantizedGlobal r =
     (let (phase, r) = ReadU8 r;
          (stage, r) = ReadU8 r;
          (centerX, r) = ReadU16 r;
          (centerZ, r) = ReadU16 r;
          (radius, r) = ReadU16 r;
          (aliveContenders, r) = ReadU8 r
      in case (phase, stage, centerX, centerZ, radius, aliveContenders) of
           (Some ph, Some st, Some x, Some z, Some ra, Some al) \<Rightarrow>
             read_then (ReadOptionalResult r) (\<lambda>result r.
               case ReadU64 r of
                 (None, r) \<Rightarrow> read_failure r
               | (Some checksum, r) \<Rightarrow>
                   Inr (\<lparr>qg_phase = ph, qg_safeZoneStage = st, qg_safeZoneCenter = \<lparr>qv_x = x, qv_z = z\<rparr>,
                         qg_safeZoneRadius = ra, qg_aliveContenders = al, qg_result = snd result,
                         qg_hasResult = fst result, qg_eventChecksum = checksum\<rparr>, r))
         | _ \<Rightarrow> read_failure r)"

text \<open>The parts of a delta that are present, one after the other.\<close>

definition ReadGlobalPhase :: "global_delta \<Rightarrow> byte_reader \<Rightarrow> global_delta payload_result" where
  "ReadGlobalPhase global r =
     (case ReadU8 r of
        (None, r) \<Rightarrow> read_failure r
      | (Some phase, r) \<Rightarrow> Inr (global\<lparr>gd_phase := phase\<rparr>, r))"

definition ReadGlobalSafeZone :: "global_delta \<Rightarrow> byte_reader \<Rightarrow> global_delta payload_result" where
  "ReadGlobalSafeZone global r =
     (let (stage, r) = ReadU8 r;
          (centerX, r) = ReadU16 r;
          (centerZ, r) = ReadU16 r;
          (radius, r) = ReadU16 r
      in case (stage, centerX, centerZ, radius) of
           (Some st, Some x, Some z, Some ra) \<Rightarrow>
             Inr (global\<lparr>gd_safeZoneStage := st, gd_safeZoneCenter := \<lparr>qv_x = x, qv_z = z\<rparr>,
                         gd_safeZoneRadius := ra\<rparr>, r)
         | _ \<Rightarrow> read_failure r)"

definition ReadGlobalAlive :: "global_delta \<Rightarrow> byte_reader \<Rightarrow> global_delta payload_result" where
  "ReadGlobalAlive global r =
     (case ReadU8 r of
        (None, r) \<Rightarrow> read_failure r
      | (Some alive, r) \<Rightarrow> Inr (global\<lparr>gd_aliveContenders := alive\<rparr>, r))"

definition ReadGlobalResult :: "global_delta \<Rightarrow> byte_reader \<Rightarrow> global_delta payload_result" where
  "ReadGlobalResult global r =
     read_then (ReadBool r) (\<lambda>hasResult r.
       let global = global\<lparr>gd_hasResult := hasResult\<rparr>
       in if hasResult
          then read_then (ReadMatchResult r) (\<lambda>result r. Inr (global\<lparr>gd_result := result\<rparr>, r))
          else Inr (global, r))"

definition ReadGlobalChecksum :: "global_delta \<Rightarrow> byte_reader \<Rightarrow> global_delta payload_result" where
  "ReadGlobalChecksum global r =
     (case ReadU64 r of
        (None, r) \<Rightarrow> read_failure r
      | (Some checksum, r) \<Rightarrow> Inr (global\<lparr>gd_eventChecksum := checksum\<rparr>, r))"

definition ReadGlobalDelta :: "byte_reader \<Rightarrow> global_delta payload_result" where
  "ReadGlobalDelta r =
     (case ReadU8 r of
        (None, r) \<Rightarrow> read_failure r
      | (Some bits, r) \<Rightarrow>
          if \<not> IsValidGlobalFieldMask bits then Inl PayloadInvalidValue
          else
            read_then (read_if (HasField bits GlobalPhase) ReadGlobalPhase
                         (default_global_delta\<lparr>gd_fields := bits\<rparr>) r) (\<lambda>global r.
            read_then (read_if (HasField bits GlobalSafeZone) ReadGlobalSafeZone global r) (\<lambda>global r.
            read_then (read_if (HasField bits GlobalAliveContenders) ReadGlobalAlive global r) (\<lambda>global r.
            read_then (read_if (HasField bits GlobalResult) ReadGlobalResult global r) (\<lambda>global r.
              read_if (HasField bits GlobalEventChecksum) ReadGlobalChecksum global r)))))"

definition ReadActorPosition :: "actor_delta \<Rightarrow> byte_reader \<Rightarrow> actor_delta payload_result" where
  "ReadActorPosition actor r =
     (let (positionX, r) = ReadU16 r;
          (positionZ, r) = ReadU16 r
      in case (positionX, positionZ) of
           (Some x, Some z) \<Rightarrow> Inr (actor\<lparr>ad_position := \<lparr>qv_x = x, qv_z = z\<rparr>\<rparr>, r)
         | _ \<Rightarrow> read_failure r)"

definition ReadActorHealth :: "actor_delta \<Rightarrow> byte_reader \<Rightarrow> actor_delta payload_result" where
  "ReadActorHealth actor r =
     (case ReadU8 r of
        (None, r) \<Rightarrow> read_failure r
      | (Some health, r) \<Rightarrow>
          read_then (ReadBool r) (\<lambda>alive r. Inr (actor\<lparr>ad_health := health, ad_alive := alive\<rparr>, r)))"

definition ReadActorWeapon :: "actor_delta \<Rightarrow> byte_reader \<Rightarrow> actor_delta payload_result" where
  "ReadActorWeapon actor r =
     (let (weapon, r) = ReadU8 r;
          (cooldown, r) = ReadU16 r
      in case (weapon, cooldown) of
           (Some w, Some c) \<Rightarrow> Inr (actor\<lparr>ad_weapon := w, ad_cooldownTicksRemaining := c\<rparr>, r)
         | _ \<Rightarrow> read_failure r)"

definition ReadActorEliminations :: "actor_delta \<Rightarrow> byte_reader \<Rightarrow> actor_delta payload_result" where
  "ReadActorEliminations actor r =
     (case ReadU8 r of
        (None, r) \<Rightarrow> read_failure r
      | (Some eliminations, r) \<Rightarrow> Inr (actor\<lparr>ad_eliminations := eliminations\<rparr>, r))"

definition ReadActorDelta :: "byte_reader \<Rightarrow> actor_delta payload_result" where
  "ReadActorDelta r =
     (let (id, r) = ReadU32 r;
          (bits, r) = ReadU8 r
      in case (id, bits) of
           (Some i, Some f) \<Rightarrow>
             if f = 0 \<or> \<not> IsValidActorFieldMask f then Inl PayloadInvalidValue
             else
               read_then (read_if (HasField f ActorPosition) ReadActorPosition
                            (default_actor_delta\<lparr>ad_id := EntityId i, ad_fields := f\<rparr>) r) (\<lambda>actor r.
               read_then (read_if (HasField f ActorHealthAlive) ReadActorHealth actor r) (\<lambda>actor r.
               read_then (read_if (HasField f ActorWeaponCooldown) ReadActorWeapon actor r) (\<lambda>actor r.
                 read_if (HasField f ActorEliminations) ReadActorEliminations actor r)))
         | _ \<Rightarrow> read_failure r)"

definition ReadRemovedActor :: "byte_reader \<Rightarrow> entity_id payload_result" where
  "ReadRemovedActor r =
     (case ReadU32 r of (None, r) \<Rightarrow> read_failure r | (Some i, r) \<Rightarrow> Inr (EntityId i, r))"

definition ReadLootDelta :: "byte_reader \<Rightarrow> loot_delta payload_result" where
  "ReadLootDelta r =
     (let (id, r) = ReadU32 r;
          (bits, r) = ReadU8 r
      in case (id, bits) of
           (Some i, Some f) \<Rightarrow>
             if f \<noteq> LootActive then Inl PayloadInvalidValue
             else read_then (ReadBool r) (\<lambda>active r.
                    Inr (\<lparr>ld_id = i, ld_fields = f, ld_active = active\<rparr>, r))
         | _ \<Rightarrow> read_failure r)"

definition ReadRemovedLoot :: "byte_reader \<Rightarrow> u32 payload_result" where
  "ReadRemovedLoot r =
     (case ReadU32 r of (None, r) \<Rightarrow> read_failure r | (Some i, r) \<Rightarrow> Inr (i, r))"

fun SetCanonicalDecodeError :: "canonical_order \<Rightarrow> payload_error option" where
  "SetCanonicalDecodeError Canonical = None"
| "SetCanonicalDecodeError Duplicate = Some PayloadDuplicateEntity"
| "SetCanonicalDecodeError OutOfOrder = Some PayloadNonCanonicalOrder"

text \<open>The first of several checks that fails.\<close>

fun first_error :: "payload_error option list \<Rightarrow> payload_error option" where
  "first_error [] = None"
| "first_error (None # checks) = first_error checks"
| "first_error (Some error # checks) = Some error"

definition ValidateKeyframeCanonicalOrder :: "snapshot_payload \<Rightarrow> payload_error option" where
  "ValidateKeyframeCanonicalOrder payload =
     (if ph_valueEncoding (sp_header payload) = EncodingFullPrecision
      then first_error
        [SetCanonicalDecodeError (CheckCanonicalOrder na_id (gs_actors (sp_fullPrecision payload))),
         SetCanonicalDecodeError (CheckCanonicalOrder nl_id (gs_loot (sp_fullPrecision payload)))]
      else first_error
        [SetCanonicalDecodeError (CheckCanonicalOrder qa_id (sp_actorValues payload)),
         SetCanonicalDecodeError (CheckCanonicalOrder ql_id (sp_lootValues payload))])"

definition ValidateDeltaCanonicalOrder :: "snapshot_payload \<Rightarrow> payload_error option" where
  "ValidateDeltaCanonicalOrder payload =
     first_error
       [SetCanonicalDecodeError (CheckCanonicalOrder qa_id (sp_actorValues payload)),
        SetCanonicalDecodeError (CheckCanonicalOrder ad_id (sp_actorDeltas payload)),
        SetCanonicalDecodeError (CheckCanonicalOrder (\<lambda>actor. actor) (sp_removedActors payload)),
        SetCanonicalDecodeError (CheckCanonicalOrder ql_id (sp_lootValues payload)),
        SetCanonicalDecodeError (CheckCanonicalOrder ld_id (sp_lootDeltas payload)),
        SetCanonicalDecodeError (CheckCanonicalOrder (\<lambda>loot. loot) (sp_removedLoot payload)),
        if HasDuplicateActorCategory payload \<or> HasDuplicateLootCategory payload
        then Some PayloadDuplicateEntity else None]"

definition ReadQuantizedKeyframe :: "snapshot_payload \<Rightarrow> byte_reader \<Rightarrow> snapshot_payload payload_result" where
  "ReadQuantizedKeyframe payload r =
     read_then (ReadQuantizedGlobal r) (\<lambda>global r.
     read_then (ReadBoundedVector MaxSnapshotActors ReadQuantizedActor r) (\<lambda>actorValues r.
     read_then (ReadBoundedVector MaxSnapshotLoot ReadQuantizedLoot r) (\<lambda>lootValues r.
       Inr (payload\<lparr>sp_global := global, sp_actorValues := actorValues, sp_lootValues := lootValues\<rparr>, r))))"

definition ReadDelta :: "snapshot_payload \<Rightarrow> byte_reader \<Rightarrow> snapshot_payload payload_result" where
  "ReadDelta payload r =
     read_then (ReadGlobalDelta r) (\<lambda>globalDelta r.
     read_then (ReadBoundedVector MaxSnapshotActors ReadQuantizedActor r) (\<lambda>actorValues r.
     read_then (ReadBoundedVector MaxSnapshotActors ReadActorDelta r) (\<lambda>actorDeltas r.
     read_then (ReadBoundedVector MaxSnapshotActors ReadRemovedActor r) (\<lambda>removedActors r.
     read_then (ReadBoundedVector MaxSnapshotLoot ReadQuantizedLoot r) (\<lambda>lootValues r.
     read_then (ReadBoundedVector MaxSnapshotLoot ReadLootDelta r) (\<lambda>lootDeltas r.
     read_then (ReadBoundedVector MaxSnapshotLoot ReadRemovedLoot r) (\<lambda>removedLoot r.
       if MaxSnapshotActors < length actorValues + length actorDeltas + length removedActors
          \<or> MaxSnapshotLoot < length lootValues + length lootDeltas + length removedLoot
       then Inl PayloadCountLimit
       else Inr (payload\<lparr>sp_globalDelta := globalDelta, sp_actorValues := actorValues,
                        sp_actorDeltas := actorDeltas, sp_removedActors := removedActors,
                        sp_lootValues := lootValues, sp_lootDeltas := lootDeltas,
                        sp_removedLoot := removedLoot\<rparr>, r))))))))"

text \<open>The body, by the kind of the payload, with the check of the order of its identifiers.\<close>

definition ordered :: "(snapshot_payload \<Rightarrow> payload_error option) \<Rightarrow> snapshot_payload payload_result
    \<Rightarrow> snapshot_payload payload_result" where
  "ordered check body =
     read_then body (\<lambda>payload r. case check payload of Some error \<Rightarrow> Inl error | None \<Rightarrow> Inr (payload, r))"

definition ReadBody :: "snapshot_payload \<Rightarrow> byte_reader \<Rightarrow> snapshot_payload payload_result" where
  "ReadBody payload r =
     (if ph_kind (sp_header payload) = KindFullState
      then (case ReadBytes (Remaining r) r of
              (None, r) \<Rightarrow> read_failure r
            | (Some body, r) \<Rightarrow>
                (case DecodeGameSnapshot body of
                   Inl error \<Rightarrow> Inl (GameSnapshotFailure error)
                 | Inr snapshot \<Rightarrow> Inr (payload\<lparr>sp_fullPrecision := snapshot\<rparr>, r)))
      else if ph_kind (sp_header payload) = KindKeyframe
      then ordered ValidateKeyframeCanonicalOrder
             (if ph_valueEncoding (sp_header payload) = EncodingFullPrecision
              then read_then (ReadPrecisionKeyframe r) (\<lambda>snapshot r.
                     Inr (payload\<lparr>sp_fullPrecision := snapshot\<rparr>, r))
              else ReadQuantizedKeyframe payload r)
      else ordered ValidateDeltaCanonicalOrder (ReadDelta payload r))"

definition DecodeSnapshotPayload :: "byte list \<Rightarrow> payload_error + snapshot_payload" where
  "DecodeSnapshotPayload bytes =
     (if MaxSnapshotPayloadBytes < length bytes then Inl PayloadCountLimit
      else
        let r = ByteReader bytes;
            (kind, r) = ReadU8 r;
            (encoding, r) = ReadU8 r;
            (baseSnapshotId, r) = ReadU32 r;
            (payloadSnapshotId, r) = ReadU32 r
        in case (kind, encoding, baseSnapshotId, payloadSnapshotId) of
             (Some k, Some e, Some b, Some p) \<Rightarrow>
               let payload = payload_with_header
                     \<lparr>ph_kind = k, ph_valueEncoding = e, ph_baseSnapshotId = b, ph_payloadSnapshotId = p\<rparr>
               in if \<not> IsValidHeader (sp_header payload) then Inl PayloadInvalidValue
                  else (case ReadBody payload r of
                          Inl error \<Rightarrow> Inl error
                        | Inr (payload, r) \<Rightarrow>
                            if \<not> Empty r then Inl PayloadTrailingBytes
                            else (case ValidatePayload payload of
                                    Inl Length_error \<Rightarrow> Inl PayloadCountLimit
                                  | Inl _ \<Rightarrow> Inl PayloadInvalidValue
                                  | Inr _ \<Rightarrow> Inr payload))
           | _ \<Rightarrow> Inl (PayloadReaderFailure (rerror r)))"

end
