(* ===== verification/ReplicationCodecLemmas.thy ===== *)
theory ReplicationCodecLemmas
  imports ReplicationCodec
begin

text \<open>
  What the two ends of the replication codec promise each other: a reader of a record reads back
  what the writer wrote and accepts nothing else (\<open>payload_codec\<close>), the encoder of
  payloads throws exactly on payloads that are not valid, and the decoder recovers the payload.
\<close>

section \<open>The interface of a record reader\<close>

locale payload_codec =
  fixes read :: "byte_reader \<Rightarrow> 'a payload_result"
    and bytes :: "'a \<Rightarrow> byte list"
    and valid :: "'a \<Rightarrow> bool"
  assumes read_bytes:
      "valid v \<Longrightarrow> read (reader_at pre (bytes v @ suf)) = Inr (v, reader_at (pre @ bytes v) suf)"
    and read_InrD:
      "read (reader_at pre suf) = Inr (v, r) \<Longrightarrow>
         valid v \<and> (\<exists>suf'. suf = bytes v @ suf' \<and> r = reader_at (pre @ bytes v) suf')"
begin

definition vector_bytes :: "'a list \<Rightarrow> byte list" where
  "vector_bytes vs = le_bytes 2 (of_nat (length vs) :: u16) @ concat (map bytes vs)"

lemma vector_read:
  assumes "length vs \<le> maximum" and "maximum < 65536" and "\<forall>v \<in> set vs. valid v"
  shows "ReadBoundedVector maximum read (reader_at pre (vector_bytes vs @ suf))
    = Inr (vs, reader_at (pre @ vector_bytes vs) suf)"
proof -
  have "unat (of_nat (length vs) :: u16) = length vs" using assms by (simp add: unat_of_nat)
  then show ?thesis
    using assms read_items_bytes [of vs read bytes] read_bytes
    by (simp add: ReadBoundedVector_def vector_bytes_def read_write)
qed

lemma vector_InrD:
  assumes "ReadBoundedVector maximum read (reader_at pre suf) = Inr (vs, r)"
  shows "(length vs \<le> maximum \<and> (\<forall>v \<in> set vs. valid v))
    \<and> (\<exists>suf'. suf = vector_bytes vs @ suf' \<and> r = reader_at (pre @ vector_bytes vs) suf')"
proof -
  from assms obtain count r1 where count: "ReadU16 (reader_at pre suf) = (Some count, r1)"
    and max: "unat count \<le> maximum" and items: "read_items read (unat count) r1 = Inr (vs, r)"
    by (auto simp: ReadBoundedVector_def read_failure_def split: prod.splits option.splits if_splits)
  from count obtain suf1 where suf1: "suf = le_bytes 2 count @ suf1" "r1 = reader_at (pre @ le_bytes 2 count) suf1"
    by (auto elim: u16.read_SomeE)
  have "length vs = unat count \<and> (\<forall>v \<in> set vs. valid v)
    \<and> (\<exists>suf'. suf1 = concat (map bytes vs) @ suf'
        \<and> r = reader_at ((pre @ le_bytes 2 count) @ concat (map bytes vs)) suf')"
    by (rule read_items_InrD [of read valid bytes, OF read_InrD items [unfolded suf1(2)]])
  moreover then have "(of_nat (length vs) :: u16) = count" by simp
  ultimately show ?thesis using max suf1(1) by (auto simp: vector_bytes_def)
qed

lemma payload_codec_vector:
  assumes "maximum < 65536"
  shows "payload_codec (ReadBoundedVector maximum read) vector_bytes
    (\<lambda>vs. length vs \<le> maximum \<and> (\<forall>v \<in> set vs. valid v))"
  using vector_read [OF _ assms] vector_InrD by unfold_locales auto

end

section \<open>Records\<close>

definition match_result_bytes :: "network_match_result \<Rightarrow> byte list" where
  "match_result_bytes r = le_bytes 4 (idval (nr_winner r)) @ [nr_reason r] @ le_bytes 4 (nr_finishedTick r)"

definition optional_result_bytes :: "bool \<times> network_match_result \<Rightarrow> byte list" where
  "optional_result_bytes p = bool_u8 (fst p) # (if fst p then match_result_bytes (snd p) else [])"

definition qactor_bytes :: "quantized_actor \<Rightarrow> byte list" where
  "qactor_bytes a = le_bytes 4 (idval (qa_id a)) @ [qa_role a, qa_neutralArchetype a]
     @ le_bytes 2 (qv_x (qa_position a)) @ le_bytes 2 (qv_z (qa_position a))
     @ [qa_health a, bool_u8 (qa_alive a), qa_weapon a]
     @ le_bytes 2 (qa_cooldownTicksRemaining a) @ [qa_eliminations a]"

definition qloot_bytes :: "quantized_loot \<Rightarrow> byte list" where
  "qloot_bytes l = le_bytes 4 (ql_id l) @ [ql_type l] @ le_bytes 2 (qv_x (ql_position l))
     @ le_bytes 2 (qv_z (ql_position l)) @ [bool_u8 (ql_active l)]"

definition qglobal_bytes :: "quantized_global \<Rightarrow> byte list" where
  "qglobal_bytes g = [qg_phase g, qg_safeZoneStage g] @ le_bytes 2 (qv_x (qg_safeZoneCenter g))
     @ le_bytes 2 (qv_z (qg_safeZoneCenter g)) @ le_bytes 2 (qg_safeZoneRadius g)
     @ [qg_aliveContenders g] @ optional_result_bytes (qg_hasResult g, qg_result g)
     @ le_bytes 8 (qg_eventChecksum g)"

definition loot_delta_bytes :: "loot_delta \<Rightarrow> byte list" where
  "loot_delta_bytes l = le_bytes 4 (ld_id l) @ [ld_fields l, bool_u8 (ld_active l)]"

definition part :: "bool \<Rightarrow> byte list \<Rightarrow> byte list" where
  "part present bs = (if present then bs else [])"

definition actor_delta_bytes :: "actor_delta \<Rightarrow> byte list" where
  "actor_delta_bytes a = le_bytes 4 (idval (ad_id a)) @ [ad_fields a]
     @ part (HasField (ad_fields a) ActorPosition)
         (le_bytes 2 (qv_x (ad_position a)) @ le_bytes 2 (qv_z (ad_position a)))
     @ part (HasField (ad_fields a) ActorHealthAlive) [ad_health a, bool_u8 (ad_alive a)]
     @ part (HasField (ad_fields a) ActorWeaponCooldown)
         (ad_weapon a # le_bytes 2 (ad_cooldownTicksRemaining a))
     @ part (HasField (ad_fields a) ActorEliminations) [ad_eliminations a]"

definition global_delta_bytes :: "global_delta \<Rightarrow> byte list" where
  "global_delta_bytes g = gd_fields g
     # part (HasField (gd_fields g) GlobalPhase) [gd_phase g]
     @ part (HasField (gd_fields g) GlobalSafeZone)
         (gd_safeZoneStage g # le_bytes 2 (qv_x (gd_safeZoneCenter g))
            @ le_bytes 2 (qv_z (gd_safeZoneCenter g)) @ le_bytes 2 (gd_safeZoneRadius g))
     @ part (HasField (gd_fields g) GlobalAliveContenders) [gd_aliveContenders g]
     @ part (HasField (gd_fields g) GlobalResult) (optional_result_bytes (gd_hasResult g, gd_result g))
     @ part (HasField (gd_fields g) GlobalEventChecksum) (le_bytes 8 (gd_eventChecksum g))"

subsection \<open>Writers\<close>

lemma write_records [read_write]:
  "WriteHeader h w = w @ [ph_kind h, ph_valueEncoding h] @ le_bytes 4 (ph_baseSnapshotId h)
     @ le_bytes 4 (ph_payloadSnapshotId h)"
  "WriteMatchResult r w = w @ match_result_bytes r"
  "WritePrecisionActor na w = w @ actor_bytes na"
  "WritePrecisionLoot nl w = w @ loot_bytes nl"
  "WriteQuantizedActor qa w = w @ qactor_bytes qa"
  "WriteQuantizedLoot ql w = w @ qloot_bytes ql"
  "WriteQuantizedGlobal qg w = w @ qglobal_bytes qg"
  "WriteGlobalDelta gd w = w @ global_delta_bytes gd"
  "WriteActorDelta ad w = w @ actor_delta_bytes ad"
  "WriteLootDelta ld w = w @ loot_delta_bytes ld"
  by (simp_all add: WriteHeader_def WriteMatchResult_def WritePrecisionActor_def WritePrecisionLoot_def
      WriteQuantizedActor_def WriteQuantizedLoot_def WriteQuantizedGlobal_def WriteGlobalDelta_def
      WriteActorDelta_def WriteLootDelta_def match_result_bytes_def actor_bytes_def loot_bytes_def
      qactor_bytes_def qloot_bytes_def qglobal_bytes_def optional_result_bytes_def loot_delta_bytes_def
      actor_delta_bytes_def global_delta_bytes_def part_def Let_def read_write)

lemma fold_write_records [read_write]:
  "fold WritePrecisionActor nas w = w @ concat (map actor_bytes nas)"
  "fold WritePrecisionLoot nls w = w @ concat (map loot_bytes nls)"
  "fold WriteQuantizedActor qas w = w @ concat (map qactor_bytes qas)"
  "fold WriteQuantizedLoot qls w = w @ concat (map qloot_bytes qls)"
  "fold WriteActorDelta ads w = w @ concat (map actor_delta_bytes ads)"
  "fold WriteLootDelta lds w = w @ concat (map loot_delta_bytes lds)"
  "fold (\<lambda>actor. WriteU32 (idval actor)) ids w = w @ concat (map (\<lambda>i. le_bytes 4 (idval i)) ids)"
  "fold WriteU32 ns w = w @ concat (map (le_bytes 4) ns)"
  by (rule fold_write_items, simp add: read_write)+

subsection \<open>Readers\<close>

lemma read_failure_neq_Inr [simp]: "read_failure r \<noteq> Inr x"
  by (simp add: read_failure_def)

lemma read_then_Inr_iff: "read_then m f = Inr y \<longleftrightarrow> (\<exists>x r. m = Inr (x, r) \<and> f x r = Inr y)"
  by (cases "(m, f)" rule: read_then.cases) auto

lemma case_read_Inr_iff [simp]:
  "(case x of (None, r) \<Rightarrow> read_failure r | (Some v, r) \<Rightarrow> f v r) = Inr y
    \<longleftrightarrow> (\<exists>v r. x = (Some v, r) \<and> f v r = Inr y)"
  by (cases x; cases "fst x") auto

lemma bool_u8_eq_1: "\<not> 1 < v \<Longrightarrow> bool_u8 (v = 1) = v"
  by (auto simp: not_1_less_u8)

lemmas word_reads = u8.read_SomeD u16.read_SomeD u32.read_SomeD u64.read_SomeD f32.read_SomeD

interpretation boolean: payload_codec ReadBool "\<lambda>b. [bool_u8 b]" "\<lambda>_. True"
proof
  fix pre suf b
  show "ReadBool (reader_at pre ([bool_u8 b] @ suf)) = Inr (b, reader_at (pre @ [bool_u8 b]) suf)"
    by (simp add: ReadBool_def read_write)
  fix r assume "ReadBool (reader_at pre suf) = Inr (b, r)"
  then show "True \<and> (\<exists>suf'. suf = [bool_u8 b] @ suf' \<and> r = reader_at (pre @ [bool_u8 b]) suf')"
    by (auto simp: ReadBool_def not_1_less_u8 split: if_splits dest!: word_reads)
qed

interpretation match_result: payload_codec ReadMatchResult match_result_bytes "\<lambda>_. True"
proof
  fix pre suf v
  show "ReadMatchResult (reader_at pre (match_result_bytes v @ suf))
      = Inr (v, reader_at (pre @ match_result_bytes v) suf)"
    by (cases v; cases "nr_winner v") (simp add: ReadMatchResult_def match_result_bytes_def read_write)
  fix r assume "ReadMatchResult (reader_at pre suf) = Inr (v, r)"
  then show "True \<and> (\<exists>suf'. suf = match_result_bytes v @ suf' \<and> r = reader_at (pre @ match_result_bytes v) suf')"
    by (auto simp: ReadMatchResult_def match_result_bytes_def
        split: prod.splits option.splits if_splits dest!: word_reads)
qed

interpretation optional_result: payload_codec ReadOptionalResult optional_result_bytes
  "\<lambda>p. \<not> fst p \<longrightarrow> snd p = no_match_result"
proof
  fix pre suf and p :: "bool \<times> network_match_result"
  assume "\<not> fst p \<longrightarrow> snd p = no_match_result"
  then show "ReadOptionalResult (reader_at pre (optional_result_bytes p @ suf))
      = Inr (p, reader_at (pre @ optional_result_bytes p) suf)"
    using boolean.read_bytes match_result.read_bytes
    by (cases p) (simp add: ReadOptionalResult_def optional_result_bytes_def)
next
  fix pre suf r p assume "ReadOptionalResult (reader_at pre suf) = Inr (p, r)"
  then show "(\<not> fst p \<longrightarrow> snd p = no_match_result)
      \<and> (\<exists>suf'. suf = optional_result_bytes p @ suf' \<and> r = reader_at (pre @ optional_result_bytes p) suf')"
    by (auto simp: ReadOptionalResult_def optional_result_bytes_def read_then_Inr_iff
        split: if_splits dest!: boolean.read_InrD match_result.read_InrD)
qed

interpretation precision_actor: payload_codec ReadPrecisionActor actor_bytes "\<lambda>_. True"
proof
  fix pre suf v
  show "ReadPrecisionActor (reader_at pre (actor_bytes v @ suf)) = Inr (v, reader_at (pre @ actor_bytes v) suf)"
    by (cases v; cases "na_id v"; cases "na_position v")
      (simp add: ReadPrecisionActor_def actor_bytes_def read_write)
  fix r assume "ReadPrecisionActor (reader_at pre suf) = Inr (v, r)"
  then show "True \<and> (\<exists>suf'. suf = actor_bytes v @ suf' \<and> r = reader_at (pre @ actor_bytes v) suf')"
    by (auto simp: ReadPrecisionActor_def actor_bytes_def bool_u8_eq_1
        split: prod.splits option.splits if_splits dest!: word_reads)
qed

interpretation precision_loot: payload_codec ReadPrecisionLoot loot_bytes "\<lambda>_. True"
proof
  fix pre suf v
  show "ReadPrecisionLoot (reader_at pre (loot_bytes v @ suf)) = Inr (v, reader_at (pre @ loot_bytes v) suf)"
    by (cases v; cases "nl_position v") (simp add: ReadPrecisionLoot_def loot_bytes_def read_write)
  fix r assume "ReadPrecisionLoot (reader_at pre suf) = Inr (v, r)"
  then show "True \<and> (\<exists>suf'. suf = loot_bytes v @ suf' \<and> r = reader_at (pre @ loot_bytes v) suf')"
    by (auto simp: ReadPrecisionLoot_def loot_bytes_def bool_u8_eq_1
        split: prod.splits option.splits if_splits dest!: word_reads)
qed

interpretation quantized_actor: payload_codec ReadQuantizedActor qactor_bytes "\<lambda>_. True"
proof
  fix pre suf v
  show "ReadQuantizedActor (reader_at pre (qactor_bytes v @ suf)) = Inr (v, reader_at (pre @ qactor_bytes v) suf)"
    by (cases v; cases "qa_id v"; cases "qa_position v")
      (simp add: ReadQuantizedActor_def qactor_bytes_def read_write)
  fix r assume "ReadQuantizedActor (reader_at pre suf) = Inr (v, r)"
  then show "True \<and> (\<exists>suf'. suf = qactor_bytes v @ suf' \<and> r = reader_at (pre @ qactor_bytes v) suf')"
    by (auto simp: ReadQuantizedActor_def qactor_bytes_def bool_u8_eq_1
        split: prod.splits option.splits if_splits dest!: word_reads)
qed

interpretation quantized_loot: payload_codec ReadQuantizedLoot qloot_bytes "\<lambda>_. True"
proof
  fix pre suf v
  show "ReadQuantizedLoot (reader_at pre (qloot_bytes v @ suf)) = Inr (v, reader_at (pre @ qloot_bytes v) suf)"
    by (cases v; cases "ql_position v") (simp add: ReadQuantizedLoot_def qloot_bytes_def read_write)
  fix r assume "ReadQuantizedLoot (reader_at pre suf) = Inr (v, r)"
  then show "True \<and> (\<exists>suf'. suf = qloot_bytes v @ suf' \<and> r = reader_at (pre @ qloot_bytes v) suf')"
    by (auto simp: ReadQuantizedLoot_def qloot_bytes_def bool_u8_eq_1
        split: prod.splits option.splits if_splits dest!: word_reads)
qed

interpretation loot_change: payload_codec ReadLootDelta loot_delta_bytes "\<lambda>l. ld_fields l = LootActive"
proof
  fix pre suf and v :: loot_delta
  assume "ld_fields v = LootActive"
  then show "ReadLootDelta (reader_at pre (loot_delta_bytes v @ suf)) = Inr (v, reader_at (pre @ loot_delta_bytes v) suf)"
    by (cases v) (simp add: ReadLootDelta_def loot_delta_bytes_def read_write ReadBool_def)
next
  fix pre suf r v assume "ReadLootDelta (reader_at pre suf) = Inr (v, r)"
  then show "ld_fields v = LootActive \<and> (\<exists>suf'. suf = loot_delta_bytes v @ suf' \<and> r = reader_at (pre @ loot_delta_bytes v) suf')"
    by (auto simp: ReadLootDelta_def loot_delta_bytes_def read_then_Inr_iff
        split: prod.splits option.splits if_splits dest!: word_reads boolean.read_InrD)
qed

interpretation removed_actor: payload_codec ReadRemovedActor "\<lambda>i. le_bytes 4 (idval i)" "\<lambda>_. True"
proof
  fix pre suf and v :: entity_id
  show "ReadRemovedActor (reader_at pre (le_bytes 4 (idval v) @ suf)) = Inr (v, reader_at (pre @ le_bytes 4 (idval v)) suf)"
    by (cases v) (simp add: ReadRemovedActor_def read_write)
  fix r assume "ReadRemovedActor (reader_at pre suf) = Inr (v, r)"
  then show "True \<and> (\<exists>suf'. suf = le_bytes 4 (idval v) @ suf' \<and> r = reader_at (pre @ le_bytes 4 (idval v)) suf')"
    by (auto simp: ReadRemovedActor_def split: prod.splits option.splits dest!: word_reads)
qed

interpretation removed_loot: payload_codec ReadRemovedLoot "le_bytes 4" "\<lambda>_. True"
proof
  fix pre suf and v :: u32
  show "ReadRemovedLoot (reader_at pre (le_bytes 4 v @ suf)) = Inr (v, reader_at (pre @ le_bytes 4 v) suf)"
    by (simp add: ReadRemovedLoot_def read_write)
  fix r assume "ReadRemovedLoot (reader_at pre suf) = Inr (v, r)"
  then show "True \<and> (\<exists>suf'. suf = le_bytes 4 v @ suf' \<and> r = reader_at (pre @ le_bytes 4 v) suf')"
    by (auto simp: ReadRemovedLoot_def split: prod.splits option.splits dest!: word_reads)
qed

interpretation quantized_global: payload_codec ReadQuantizedGlobal qglobal_bytes
  "\<lambda>g. \<not> qg_hasResult g \<longrightarrow> qg_result g = no_match_result"
proof
  fix pre suf and v :: quantized_global
  assume "\<not> qg_hasResult v \<longrightarrow> qg_result v = no_match_result"
  then show "ReadQuantizedGlobal (reader_at pre (qglobal_bytes v @ suf)) = Inr (v, reader_at (pre @ qglobal_bytes v) suf)"
    using optional_result.read_bytes [of "(qg_hasResult v, qg_result v)"]
    by (cases v; cases "qg_safeZoneCenter v") (simp add: ReadQuantizedGlobal_def qglobal_bytes_def read_write)
next
  fix pre suf r v assume "ReadQuantizedGlobal (reader_at pre suf) = Inr (v, r)"
  then show "(\<not> qg_hasResult v \<longrightarrow> qg_result v = no_match_result)
      \<and> (\<exists>suf'. suf = qglobal_bytes v @ suf' \<and> r = reader_at (pre @ qglobal_bytes v) suf')"
    by (auto simp: ReadQuantizedGlobal_def qglobal_bytes_def read_then_Inr_iff
        split: prod.splits option.splits if_splits dest!: word_reads optional_result.read_InrD)
qed

section \<open>Deltas\<close>

text \<open>A part of a delta is read into the record that holds what was read before: it sets its own
  fields when it is present, and leaves the record as it is otherwise.\<close>

lemma read_if_part:
  assumes "c \<Longrightarrow> f x (reader_at pre (b @ suf)) = Inr (y, reader_at (pre @ b) suf)" and "\<not> c \<Longrightarrow> y = x"
  shows "read_if c f x (reader_at pre (part c b @ suf)) = Inr (y, reader_at (pre @ part c b) suf)"
  using assms by (simp add: read_if_def part_def)

lemma read_if_partD:
  assumes "read_if c f x (reader_at pre suf) = Inr (y, r)"
    and "c \<Longrightarrow> f x (reader_at pre suf) = Inr (y, r) \<Longrightarrow>
      Q \<and> (\<exists>suf'. suf = b @ suf' \<and> r = reader_at (pre @ b) suf')"
    and "\<not> c \<Longrightarrow> y = x \<Longrightarrow> Q"
  shows "(\<not> c \<longrightarrow> y = x) \<and> Q \<and> (\<exists>suf'. suf = part c b @ suf' \<and> r = reader_at (pre @ part c b) suf')"
  using assms by (cases c) (simp_all add: read_if_def part_def)

lemma global_parts:
  "ReadGlobalPhase g (reader_at pre (gd_phase h # suf))
     = Inr (g\<lparr>gd_phase := gd_phase h\<rparr>, reader_at (pre @ [gd_phase h]) suf)"
  "ReadGlobalSafeZone g (reader_at pre (gd_safeZoneStage h # le_bytes 2 (qv_x (gd_safeZoneCenter h))
       @ le_bytes 2 (qv_z (gd_safeZoneCenter h)) @ le_bytes 2 (gd_safeZoneRadius h) @ suf))
     = Inr (g\<lparr>gd_safeZoneStage := gd_safeZoneStage h, gd_safeZoneCenter := gd_safeZoneCenter h,
              gd_safeZoneRadius := gd_safeZoneRadius h\<rparr>,
            reader_at (pre @ gd_safeZoneStage h # le_bytes 2 (qv_x (gd_safeZoneCenter h))
       @ le_bytes 2 (qv_z (gd_safeZoneCenter h)) @ le_bytes 2 (gd_safeZoneRadius h)) suf)"
  "ReadGlobalAlive g (reader_at pre (gd_aliveContenders h # suf))
     = Inr (g\<lparr>gd_aliveContenders := gd_aliveContenders h\<rparr>, reader_at (pre @ [gd_aliveContenders h]) suf)"
  "ReadGlobalChecksum g (reader_at pre (le_bytes 8 (gd_eventChecksum h) @ suf))
     = Inr (g\<lparr>gd_eventChecksum := gd_eventChecksum h\<rparr>, reader_at (pre @ le_bytes 8 (gd_eventChecksum h)) suf)"
  by (simp_all add: ReadGlobalPhase_def ReadGlobalSafeZone_def ReadGlobalAlive_def ReadGlobalChecksum_def
      Let_def read_write)

lemma global_result_part:
  assumes "\<not> gd_hasResult h \<longrightarrow> gd_result h = gd_result g"
  shows "ReadGlobalResult g (reader_at pre (optional_result_bytes (gd_hasResult h, gd_result h) @ suf))
     = Inr (g\<lparr>gd_result := gd_result h, gd_hasResult := gd_hasResult h\<rparr>,
            reader_at (pre @ optional_result_bytes (gd_hasResult h, gd_result h)) suf)"
  using assms boolean.read_bytes match_result.read_bytes
  by (cases g) (simp add: ReadGlobalResult_def optional_result_bytes_def Let_def)

definition global_delta_ok :: "global_delta \<Rightarrow> bool" where
  "global_delta_ok g \<longleftrightarrow> IsValidGlobalFieldMask (gd_fields g)
     \<and> (\<not> HasField (gd_fields g) GlobalPhase \<longrightarrow> gd_phase g = gd_phase default_global_delta)
     \<and> (\<not> HasField (gd_fields g) GlobalSafeZone \<longrightarrow>
          gd_safeZoneStage g = gd_safeZoneStage default_global_delta
          \<and> gd_safeZoneCenter g = gd_safeZoneCenter default_global_delta
          \<and> gd_safeZoneRadius g = gd_safeZoneRadius default_global_delta)
     \<and> (\<not> HasField (gd_fields g) GlobalAliveContenders \<longrightarrow>
          gd_aliveContenders g = gd_aliveContenders default_global_delta)
     \<and> (\<not> HasField (gd_fields g) GlobalResult \<longrightarrow>
          gd_hasResult g = gd_hasResult default_global_delta)
     \<and> (\<not> gd_hasResult g \<longrightarrow> gd_result g = gd_result default_global_delta)
     \<and> (\<not> HasField (gd_fields g) GlobalEventChecksum \<longrightarrow>
          gd_eventChecksum g = gd_eventChecksum default_global_delta)"

lemma ReadGlobalDelta_bytes:
  assumes ok: "global_delta_ok g"
  shows "ReadGlobalDelta (reader_at pre (global_delta_bytes g @ suf))
    = Inr (g, reader_at (pre @ global_delta_bytes g) suf)"
proof -
  let ?has = "HasField (gd_fields g)" and ?d = "default_global_delta"
  let ?g0 = "?d\<lparr>gd_fields := gd_fields g\<rparr>"
  let ?g1 = "?g0\<lparr>gd_phase := gd_phase g\<rparr>"
  let ?g2 = "?g1\<lparr>gd_safeZoneStage := gd_safeZoneStage g, gd_safeZoneCenter := gd_safeZoneCenter g,
              gd_safeZoneRadius := gd_safeZoneRadius g\<rparr>"
  let ?g3 = "?g2\<lparr>gd_aliveContenders := gd_aliveContenders g\<rparr>"
  let ?g4 = "?g3\<lparr>gd_result := gd_result g, gd_hasResult := gd_hasResult g\<rparr>"
  let ?z = "gd_safeZoneStage g # le_bytes 2 (qv_x (gd_safeZoneCenter g))
            @ le_bytes 2 (qv_z (gd_safeZoneCenter g)) @ le_bytes 2 (gd_safeZoneRadius g)"
  note absent = ok [unfolded global_delta_ok_def]
  have 1: "read_if (?has GlobalPhase) ReadGlobalPhase ?g0 (reader_at pre (part (?has GlobalPhase) [gd_phase g] @ suf))
      = Inr (?g1, reader_at (pre @ part (?has GlobalPhase) [gd_phase g]) suf)" for pre suf
    using absent by (intro read_if_part) (simp_all add: global_parts default_global_delta_def)
  have 2: "read_if (?has GlobalSafeZone) ReadGlobalSafeZone ?g1 (reader_at pre (part (?has GlobalSafeZone) ?z @ suf))
      = Inr (?g2, reader_at (pre @ part (?has GlobalSafeZone) ?z) suf)" for pre suf
    using absent by (intro read_if_part) (simp_all add: global_parts default_global_delta_def)
  have 3: "read_if (?has GlobalAliveContenders) ReadGlobalAlive ?g2
        (reader_at pre (part (?has GlobalAliveContenders) [gd_aliveContenders g] @ suf))
      = Inr (?g3, reader_at (pre @ part (?has GlobalAliveContenders) [gd_aliveContenders g]) suf)" for pre suf
    using absent by (intro read_if_part) (simp_all add: global_parts default_global_delta_def)
  have 4: "read_if (?has GlobalResult) ReadGlobalResult ?g3
        (reader_at pre (part (?has GlobalResult) (optional_result_bytes (gd_hasResult g, gd_result g)) @ suf))
      = Inr (?g4, reader_at (pre @ part (?has GlobalResult) (optional_result_bytes (gd_hasResult g, gd_result g))) suf)"
    for pre suf
    using absent by (intro read_if_part global_result_part) (simp_all add: default_global_delta_def)
  have 5: "read_if (?has GlobalEventChecksum) ReadGlobalChecksum ?g4
        (reader_at pre (part (?has GlobalEventChecksum) (le_bytes 8 (gd_eventChecksum g)) @ suf))
      = Inr (g, reader_at (pre @ part (?has GlobalEventChecksum) (le_bytes 8 (gd_eventChecksum g))) suf)"
    for pre suf
    using absent by (intro read_if_part) (simp_all add: global_parts default_global_delta_def)
  show ?thesis
    using absent 1 2 3 4 5 by (simp add: ReadGlobalDelta_def global_delta_bytes_def read_write)
qed

lemma global_phase_partD:
  "read_if c ReadGlobalPhase g (reader_at pre suf) = Inr (h, r) \<Longrightarrow>
     \<exists>v suf'. h = g\<lparr>gd_phase := v\<rparr> \<and> (\<not> c \<longrightarrow> v = gd_phase g)
       \<and> suf = part c [v] @ suf' \<and> r = reader_at (pre @ part c [v]) suf'"
  by (cases c) (auto simp: read_if_def part_def ReadGlobalPhase_def dest!: word_reads intro: exI [of _ "gd_phase g"])

lemma global_zone_partD:
  "read_if c ReadGlobalSafeZone g (reader_at pre suf) = Inr (h, r) \<Longrightarrow>
     \<exists>s z v suf'. h = g\<lparr>gd_safeZoneStage := s, gd_safeZoneCenter := z, gd_safeZoneRadius := v\<rparr>
       \<and> (\<not> c \<longrightarrow> s = gd_safeZoneStage g \<and> z = gd_safeZoneCenter g \<and> v = gd_safeZoneRadius g)
       \<and> suf = part c (s # le_bytes 2 (qv_x z) @ le_bytes 2 (qv_z z) @ le_bytes 2 v) @ suf'
       \<and> r = reader_at (pre @ part c (s # le_bytes 2 (qv_x z) @ le_bytes 2 (qv_z z) @ le_bytes 2 v)) suf'"
proof (cases c)
  case True
  assume "read_if c ReadGlobalSafeZone g (reader_at pre suf) = Inr (h, r)"
  with True obtain s x z v suf' where
      "h = g\<lparr>gd_safeZoneStage := s, gd_safeZoneCenter := \<lparr>qv_x = x, qv_z = z\<rparr>, gd_safeZoneRadius := v\<rparr>"
      "suf = s # le_bytes 2 x @ le_bytes 2 z @ le_bytes 2 v @ suf'"
      "r = reader_at (pre @ s # le_bytes 2 x @ le_bytes 2 z @ le_bytes 2 v) suf'"
    by (auto simp: read_if_def ReadGlobalSafeZone_def split: prod.splits option.splits dest!: word_reads)
  with True show ?thesis
    by (intro exI [of _ s] exI [of _ "\<lparr>qv_x = x, qv_z = z\<rparr>"] exI [of _ v] exI [of _ suf'])
      (simp add: part_def)
qed (auto simp: read_if_def part_def intro: exI [of _ "gd_safeZoneStage g"]
      exI [of _ "gd_safeZoneCenter g"] exI [of _ "gd_safeZoneRadius g"])

lemma global_alive_partD:
  "read_if c ReadGlobalAlive g (reader_at pre suf) = Inr (h, r) \<Longrightarrow>
     \<exists>v suf'. h = g\<lparr>gd_aliveContenders := v\<rparr> \<and> (\<not> c \<longrightarrow> v = gd_aliveContenders g)
       \<and> suf = part c [v] @ suf' \<and> r = reader_at (pre @ part c [v]) suf'"
  by (cases c) (auto simp: read_if_def part_def ReadGlobalAlive_def dest!: word_reads intro: exI [of _ "gd_aliveContenders g"])

lemma global_result_partD:
  "read_if c ReadGlobalResult g (reader_at pre suf) = Inr (h, r) \<Longrightarrow> \<not> gd_hasResult g \<Longrightarrow>
     \<exists>b v suf'. h = g\<lparr>gd_result := v, gd_hasResult := b\<rparr> \<and> (\<not> c \<longrightarrow> b = gd_hasResult g)
       \<and> (\<not> b \<longrightarrow> v = gd_result g)
       \<and> suf = part c (optional_result_bytes (b, v)) @ suf'
       \<and> r = reader_at (pre @ part c (optional_result_bytes (b, v))) suf'"
proof (cases c)
  case True
  assume read: "read_if c ReadGlobalResult g (reader_at pre suf) = Inr (h, r)"
  with True obtain b r1 where b: "ReadBool (reader_at pre suf) = Inr (b, r1)"
    and rest: "if b then read_then (ReadMatchResult r1) (\<lambda>result r. Inr (g\<lparr>gd_hasResult := b, gd_result := result\<rparr>, r))
        = Inr (h, r) else h = g\<lparr>gd_hasResult := b\<rparr> \<and> r = r1"
    by (auto simp: read_if_def ReadGlobalResult_def Let_def read_then_Inr_iff split: if_splits)
  from boolean.read_InrD [OF b] obtain suf1 where suf1: "suf = [bool_u8 b] @ suf1" "r1 = reader_at (pre @ [bool_u8 b]) suf1"
    by blast
  show ?thesis
  proof (cases b)
    case True
    with rest obtain v where "ReadMatchResult r1 = Inr (v, r)" "h = g\<lparr>gd_hasResult := b, gd_result := v\<rparr>"
      by (auto simp: read_then_Inr_iff)
    with suf1 match_result.read_InrD [of "pre @ [bool_u8 b]" suf1 v r] True \<open>c\<close> show ?thesis
      by (intro exI [of _ b] exI [of _ v]) (auto simp: part_def optional_result_bytes_def)
  next
    case False
    with rest suf1 \<open>c\<close> show ?thesis
      by (intro exI [of _ b] exI [of _ "gd_result g"]) (simp add: part_def optional_result_bytes_def)
  qed
qed (auto simp: read_if_def part_def intro: exI [of _ "gd_result g"] exI [of _ "gd_hasResult g"])

lemma global_checksum_partD:
  "read_if c ReadGlobalChecksum g (reader_at pre suf) = Inr (h, r) \<Longrightarrow>
     \<exists>v suf'. h = g\<lparr>gd_eventChecksum := v\<rparr> \<and> (\<not> c \<longrightarrow> v = gd_eventChecksum g)
       \<and> suf = part c (le_bytes 8 v) @ suf' \<and> r = reader_at (pre @ part c (le_bytes 8 v)) suf'"
  by (cases c) (auto simp: read_if_def part_def ReadGlobalChecksum_def dest!: word_reads intro: exI [of _ "gd_eventChecksum g"])

lemma ReadGlobalDelta_InrD:
  assumes "ReadGlobalDelta (reader_at pre suf) = Inr (g, r)"
  shows "global_delta_ok g \<and> (\<exists>suf'. suf = global_delta_bytes g @ suf' \<and> r = reader_at (pre @ global_delta_bytes g) suf')"
proof -
  let ?d = "default_global_delta"
  from assms obtain f r0 g1 r1 g2 r2 g3 r3 g4 r4 where
      f: "ReadU8 (reader_at pre suf) = (Some f, r0)" "IsValidGlobalFieldMask f"
    and r1: "read_if (HasField f GlobalPhase) ReadGlobalPhase (?d\<lparr>gd_fields := f\<rparr>) r0 = Inr (g1, r1)"
    and r2: "read_if (HasField f GlobalSafeZone) ReadGlobalSafeZone g1 r1 = Inr (g2, r2)"
    and r3: "read_if (HasField f GlobalAliveContenders) ReadGlobalAlive g2 r2 = Inr (g3, r3)"
    and r4: "read_if (HasField f GlobalResult) ReadGlobalResult g3 r3 = Inr (g4, r4)"
    and r5: "read_if (HasField f GlobalEventChecksum) ReadGlobalChecksum g4 r4 = Inr (g, r)"
    by (auto simp: ReadGlobalDelta_def read_then_Inr_iff split: if_splits)
  from u8.read_SomeD [OF f(1)] obtain s0 where s0: "suf = f # s0" "r0 = reader_at (pre @ [f]) s0" by auto
  from global_phase_partD [OF r1 [unfolded s0(2)]] obtain v1 s1 where
    s1: "g1 = ?d\<lparr>gd_fields := f, gd_phase := v1\<rparr>" "\<not> HasField f GlobalPhase \<longrightarrow> v1 = gd_phase ?d"
      "s0 = part (HasField f GlobalPhase) [v1] @ s1"
    and p1: "r1 = reader_at ((pre @ [f]) @ part (HasField f GlobalPhase) [v1]) s1" by auto
  from global_zone_partD [OF r2 [unfolded p1]] obtain v2 z w s2 where
    s2: "g2 = g1\<lparr>gd_safeZoneStage := v2, gd_safeZoneCenter := z, gd_safeZoneRadius := w\<rparr>"
      "\<not> HasField f GlobalSafeZone \<longrightarrow> v2 = gd_safeZoneStage g1 \<and> z = gd_safeZoneCenter g1 \<and> w = gd_safeZoneRadius g1"
      "s1 = part (HasField f GlobalSafeZone) (v2 # le_bytes 2 (qv_x z) @ le_bytes 2 (qv_z z) @ le_bytes 2 w) @ s2"
    and p2: "r2 = reader_at (((pre @ [f]) @ part (HasField f GlobalPhase) [v1])
        @ part (HasField f GlobalSafeZone) (v2 # le_bytes 2 (qv_x z) @ le_bytes 2 (qv_z z) @ le_bytes 2 w)) s2"
    by blast
  from global_alive_partD [OF r3 [unfolded p2]] obtain v3 s3 where
    s3: "g3 = g2\<lparr>gd_aliveContenders := v3\<rparr>" "\<not> HasField f GlobalAliveContenders \<longrightarrow> v3 = gd_aliveContenders g2"
      "s2 = part (HasField f GlobalAliveContenders) [v3] @ s3"
    and p3: "r3 = reader_at ((((pre @ [f]) @ part (HasField f GlobalPhase) [v1])
        @ part (HasField f GlobalSafeZone) (v2 # le_bytes 2 (qv_x z) @ le_bytes 2 (qv_z z) @ le_bytes 2 w))
        @ part (HasField f GlobalAliveContenders) [v3]) s3" by blast
  have "\<not> gd_hasResult g3" by (simp add: s1 s2 s3 default_global_delta_def)
  from global_result_partD [OF r4 [unfolded p3] this] obtain b v4 s4 where
    s4: "g4 = g3\<lparr>gd_result := v4, gd_hasResult := b\<rparr>" "\<not> HasField f GlobalResult \<longrightarrow> b = gd_hasResult g3"
      "\<not> b \<longrightarrow> v4 = gd_result g3" "s3 = part (HasField f GlobalResult) (optional_result_bytes (b, v4)) @ s4"
    and p4: "r4 = reader_at (((((pre @ [f]) @ part (HasField f GlobalPhase) [v1])
        @ part (HasField f GlobalSafeZone) (v2 # le_bytes 2 (qv_x z) @ le_bytes 2 (qv_z z) @ le_bytes 2 w))
        @ part (HasField f GlobalAliveContenders) [v3])
        @ part (HasField f GlobalResult) (optional_result_bytes (b, v4))) s4" by blast
  from global_checksum_partD [OF r5 [unfolded p4]] obtain v5 s5 where
    s5: "g = g4\<lparr>gd_eventChecksum := v5\<rparr>" "\<not> HasField f GlobalEventChecksum \<longrightarrow> v5 = gd_eventChecksum g4"
      "s4 = part (HasField f GlobalEventChecksum) (le_bytes 8 v5) @ s5"
    and p5: "r = reader_at ((((((pre @ [f]) @ part (HasField f GlobalPhase) [v1])
        @ part (HasField f GlobalSafeZone) (v2 # le_bytes 2 (qv_x z) @ le_bytes 2 (qv_z z) @ le_bytes 2 w))
        @ part (HasField f GlobalAliveContenders) [v3])
        @ part (HasField f GlobalResult) (optional_result_bytes (b, v4)))
        @ part (HasField f GlobalEventChecksum) (le_bytes 8 v5)) s5" by blast
  have "global_delta_ok g"
    using s1(2) s2(2) s3(2) s4(2,3) s5(2) f(2)
    by (simp add: global_delta_ok_def s5(1) s4(1) s3(1) s2(1) s1(1) default_global_delta_def)
  moreover have "suf = global_delta_bytes g @ s5 \<and> r = reader_at (pre @ global_delta_bytes g) s5"
    by (simp add: global_delta_bytes_def p5 s0(1) s1(1,3) s2(1,3) s3(1,3) s4(1,4) s5(1,3))
  ultimately show ?thesis by blast
qed

interpretation global_change: payload_codec ReadGlobalDelta global_delta_bytes global_delta_ok
  by unfold_locales (simp_all add: ReadGlobalDelta_bytes ReadGlobalDelta_InrD)

subsection \<open>Actors\<close>

definition actor_delta_ok :: "actor_delta \<Rightarrow> bool" where
  "actor_delta_ok a \<longleftrightarrow> ad_fields a \<noteq> 0 \<and> IsValidActorFieldMask (ad_fields a)
     \<and> (\<not> HasField (ad_fields a) ActorPosition \<longrightarrow> ad_position a = ad_position default_actor_delta)
     \<and> (\<not> HasField (ad_fields a) ActorHealthAlive \<longrightarrow>
          ad_health a = ad_health default_actor_delta \<and> ad_alive a = ad_alive default_actor_delta)
     \<and> (\<not> HasField (ad_fields a) ActorWeaponCooldown \<longrightarrow>
          ad_weapon a = ad_weapon default_actor_delta
          \<and> ad_cooldownTicksRemaining a = ad_cooldownTicksRemaining default_actor_delta)
     \<and> (\<not> HasField (ad_fields a) ActorEliminations \<longrightarrow>
          ad_eliminations a = ad_eliminations default_actor_delta)"

lemma actor_parts:
  "ReadActorPosition a (reader_at pre (le_bytes 2 (qv_x (ad_position h)) @ le_bytes 2 (qv_z (ad_position h)) @ suf))
     = Inr (a\<lparr>ad_position := ad_position h\<rparr>,
            reader_at (pre @ le_bytes 2 (qv_x (ad_position h)) @ le_bytes 2 (qv_z (ad_position h))) suf)"
  "ReadActorHealth a (reader_at pre (ad_health h # bool_u8 (ad_alive h) # suf))
     = Inr (a\<lparr>ad_health := ad_health h, ad_alive := ad_alive h\<rparr>,
            reader_at (pre @ [ad_health h, bool_u8 (ad_alive h)]) suf)"
  "ReadActorWeapon a (reader_at pre (ad_weapon h # le_bytes 2 (ad_cooldownTicksRemaining h) @ suf))
     = Inr (a\<lparr>ad_weapon := ad_weapon h, ad_cooldownTicksRemaining := ad_cooldownTicksRemaining h\<rparr>,
            reader_at (pre @ ad_weapon h # le_bytes 2 (ad_cooldownTicksRemaining h)) suf)"
  "ReadActorEliminations a (reader_at pre (ad_eliminations h # suf))
     = Inr (a\<lparr>ad_eliminations := ad_eliminations h\<rparr>, reader_at (pre @ [ad_eliminations h]) suf)"
  by (simp_all add: ReadActorPosition_def ReadActorHealth_def ReadActorWeapon_def ReadActorEliminations_def
      ReadBool_def Let_def read_write)

lemma ReadActorDelta_bytes:
  assumes ok: "actor_delta_ok a"
  shows "ReadActorDelta (reader_at pre (actor_delta_bytes a @ suf))
    = Inr (a, reader_at (pre @ actor_delta_bytes a) suf)"
proof -
  let ?has = "HasField (ad_fields a)"
  let ?a0 = "default_actor_delta\<lparr>ad_id := ad_id a, ad_fields := ad_fields a\<rparr>"
  let ?a1 = "?a0\<lparr>ad_position := ad_position a\<rparr>"
  let ?a2 = "?a1\<lparr>ad_health := ad_health a, ad_alive := ad_alive a\<rparr>"
  let ?a3 = "?a2\<lparr>ad_weapon := ad_weapon a, ad_cooldownTicksRemaining := ad_cooldownTicksRemaining a\<rparr>"
  let ?p = "le_bytes 2 (qv_x (ad_position a)) @ le_bytes 2 (qv_z (ad_position a))"
  note absent = ok [unfolded actor_delta_ok_def]
  have 1: "read_if (?has ActorPosition) ReadActorPosition ?a0 (reader_at pre (part (?has ActorPosition) ?p @ suf))
      = Inr (?a1, reader_at (pre @ part (?has ActorPosition) ?p) suf)" for pre suf
    using absent by (intro read_if_part) (simp_all add: actor_parts default_actor_delta_def)
  have 2: "read_if (?has ActorHealthAlive) ReadActorHealth ?a1
        (reader_at pre (part (?has ActorHealthAlive) [ad_health a, bool_u8 (ad_alive a)] @ suf))
      = Inr (?a2, reader_at (pre @ part (?has ActorHealthAlive) [ad_health a, bool_u8 (ad_alive a)]) suf)" for pre suf
    using absent by (intro read_if_part) (simp_all add: actor_parts default_actor_delta_def)
  have 3: "read_if (?has ActorWeaponCooldown) ReadActorWeapon ?a2
        (reader_at pre (part (?has ActorWeaponCooldown) (ad_weapon a # le_bytes 2 (ad_cooldownTicksRemaining a)) @ suf))
      = Inr (?a3, reader_at (pre @ part (?has ActorWeaponCooldown) (ad_weapon a # le_bytes 2 (ad_cooldownTicksRemaining a))) suf)"
    for pre suf
    using absent by (intro read_if_part) (simp_all add: actor_parts default_actor_delta_def)
  have 4: "read_if (?has ActorEliminations) ReadActorEliminations ?a3
        (reader_at pre (part (?has ActorEliminations) [ad_eliminations a] @ suf))
      = Inr (a, reader_at (pre @ part (?has ActorEliminations) [ad_eliminations a]) suf)" for pre suf
    using absent by (intro read_if_part) (simp_all add: actor_parts default_actor_delta_def)
  have "EntityId (idval (ad_id a)) = ad_id a" by (cases "ad_id a") simp
  then show ?thesis
    using absent 1 2 3 4 by (simp add: ReadActorDelta_def actor_delta_bytes_def read_write)
qed

lemma actor_position_partD:
  assumes "read_if c ReadActorPosition a (reader_at pre suf) = Inr (h, r)"
  shows "\<exists>v suf'. h = a\<lparr>ad_position := v\<rparr> \<and> (\<not> c \<longrightarrow> v = ad_position a)
       \<and> suf = part c (le_bytes 2 (qv_x v) @ le_bytes 2 (qv_z v)) @ suf'
       \<and> r = reader_at (pre @ part c (le_bytes 2 (qv_x v) @ le_bytes 2 (qv_z v))) suf'"
proof (cases c)
  case True
  with assms obtain x z suf' where "h = a\<lparr>ad_position := \<lparr>qv_x = x, qv_z = z\<rparr>\<rparr>"
      "suf = le_bytes 2 x @ le_bytes 2 z @ suf'" "r = reader_at (pre @ le_bytes 2 x @ le_bytes 2 z) suf'"
    by (auto simp: read_if_def ReadActorPosition_def split: prod.splits option.splits dest!: word_reads)
  with True show ?thesis
    by (intro exI [of _ "\<lparr>qv_x = x, qv_z = z\<rparr>"] exI [of _ suf']) (simp add: part_def)
qed (use assms in \<open>auto simp: read_if_def part_def intro: exI [of _ "ad_position a"]\<close>)

lemma actor_health_partD:
  assumes "read_if c ReadActorHealth a (reader_at pre suf) = Inr (h, r)"
  shows "\<exists>v b suf'. h = a\<lparr>ad_health := v, ad_alive := b\<rparr> \<and> (\<not> c \<longrightarrow> v = ad_health a \<and> b = ad_alive a)
       \<and> suf = part c [v, bool_u8 b] @ suf' \<and> r = reader_at (pre @ part c [v, bool_u8 b]) suf'"
proof (cases c)
  case True
  with assms show ?thesis
    by (auto simp: read_if_def part_def ReadActorHealth_def read_then_Inr_iff dest!: word_reads boolean.read_InrD)
qed (use assms in \<open>auto simp: read_if_def part_def intro: exI [of _ "ad_health a"] exI [of _ "ad_alive a"]\<close>)

lemma actor_weapon_partD:
  assumes "read_if c ReadActorWeapon a (reader_at pre suf) = Inr (h, r)"
  shows "\<exists>v w suf'. h = a\<lparr>ad_weapon := v, ad_cooldownTicksRemaining := w\<rparr>
       \<and> (\<not> c \<longrightarrow> v = ad_weapon a \<and> w = ad_cooldownTicksRemaining a)
       \<and> suf = part c (v # le_bytes 2 w) @ suf' \<and> r = reader_at (pre @ part c (v # le_bytes 2 w)) suf'"
proof (cases c)
  case True
  with assms show ?thesis
    by (auto simp: read_if_def part_def ReadActorWeapon_def split: prod.splits option.splits dest!: word_reads)
qed (use assms in \<open>auto simp: read_if_def part_def intro: exI [of _ "ad_weapon a"] exI [of _ "ad_cooldownTicksRemaining a"]\<close>)

lemma actor_eliminations_partD:
  assumes "read_if c ReadActorEliminations a (reader_at pre suf) = Inr (h, r)"
  shows "\<exists>v suf'. h = a\<lparr>ad_eliminations := v\<rparr> \<and> (\<not> c \<longrightarrow> v = ad_eliminations a)
       \<and> suf = part c [v] @ suf' \<and> r = reader_at (pre @ part c [v]) suf'"
  using assms by (cases c)
    (auto simp: read_if_def part_def ReadActorEliminations_def dest!: word_reads intro: exI [of _ "ad_eliminations a"])

lemma ReadActorDelta_InrD:
  assumes "ReadActorDelta (reader_at pre suf) = Inr (a, r)"
  shows "actor_delta_ok a \<and> (\<exists>suf'. suf = actor_delta_bytes a @ suf' \<and> r = reader_at (pre @ actor_delta_bytes a) suf')"
proof -
  from assms obtain i f r0 r00 a1 r1 a2 r2 a3 r3 where
      i: "ReadU32 (reader_at pre suf) = (Some i, r00)" and f: "ReadU8 r00 = (Some f, r0)" "f \<noteq> 0" "IsValidActorFieldMask f"
    and r1: "read_if (HasField f ActorPosition) ReadActorPosition
        (default_actor_delta\<lparr>ad_id := EntityId i, ad_fields := f\<rparr>) r0 = Inr (a1, r1)"
    and r2: "read_if (HasField f ActorHealthAlive) ReadActorHealth a1 r1 = Inr (a2, r2)"
    and r3: "read_if (HasField f ActorWeaponCooldown) ReadActorWeapon a2 r2 = Inr (a3, r3)"
    and r4: "read_if (HasField f ActorEliminations) ReadActorEliminations a3 r3 = Inr (a, r)"
    by (auto simp: ReadActorDelta_def read_then_Inr_iff split: prod.splits option.splits if_splits)
  from i f(1) obtain s0 where s0: "suf = le_bytes 4 i @ f # s0"
    and p0: "r0 = reader_at (pre @ le_bytes 4 i @ [f]) s0" by (auto dest!: word_reads)
  from actor_position_partD [OF r1 [unfolded p0]] obtain v1 s1 where
    s1: "a1 = default_actor_delta\<lparr>ad_id := EntityId i, ad_fields := f, ad_position := v1\<rparr>"
      "\<not> HasField f ActorPosition \<longrightarrow> v1 = ad_position default_actor_delta"
      "s0 = part (HasField f ActorPosition) (le_bytes 2 (qv_x v1) @ le_bytes 2 (qv_z v1)) @ s1"
    and p1: "r1 = reader_at ((pre @ le_bytes 4 i @ [f])
        @ part (HasField f ActorPosition) (le_bytes 2 (qv_x v1) @ le_bytes 2 (qv_z v1))) s1" by auto
  from actor_health_partD [OF r2 [unfolded p1]] obtain v2 b s2 where
    s2: "a2 = a1\<lparr>ad_health := v2, ad_alive := b\<rparr>"
      "\<not> HasField f ActorHealthAlive \<longrightarrow> v2 = ad_health a1 \<and> b = ad_alive a1"
      "s1 = part (HasField f ActorHealthAlive) [v2, bool_u8 b] @ s2"
    and p2: "r2 = reader_at (((pre @ le_bytes 4 i @ [f])
        @ part (HasField f ActorPosition) (le_bytes 2 (qv_x v1) @ le_bytes 2 (qv_z v1)))
        @ part (HasField f ActorHealthAlive) [v2, bool_u8 b]) s2" by blast
  from actor_weapon_partD [OF r3 [unfolded p2]] obtain v3 w s3 where
    s3: "a3 = a2\<lparr>ad_weapon := v3, ad_cooldownTicksRemaining := w\<rparr>"
      "\<not> HasField f ActorWeaponCooldown \<longrightarrow> v3 = ad_weapon a2 \<and> w = ad_cooldownTicksRemaining a2"
      "s2 = part (HasField f ActorWeaponCooldown) (v3 # le_bytes 2 w) @ s3"
    and p3: "r3 = reader_at ((((pre @ le_bytes 4 i @ [f])
        @ part (HasField f ActorPosition) (le_bytes 2 (qv_x v1) @ le_bytes 2 (qv_z v1)))
        @ part (HasField f ActorHealthAlive) [v2, bool_u8 b])
        @ part (HasField f ActorWeaponCooldown) (v3 # le_bytes 2 w)) s3" by blast
  from actor_eliminations_partD [OF r4 [unfolded p3]] obtain v4 s4 where
    s4: "a = a3\<lparr>ad_eliminations := v4\<rparr>" "\<not> HasField f ActorEliminations \<longrightarrow> v4 = ad_eliminations a3"
      "s3 = part (HasField f ActorEliminations) [v4] @ s4"
    and p4: "r = reader_at (((((pre @ le_bytes 4 i @ [f])
        @ part (HasField f ActorPosition) (le_bytes 2 (qv_x v1) @ le_bytes 2 (qv_z v1)))
        @ part (HasField f ActorHealthAlive) [v2, bool_u8 b])
        @ part (HasField f ActorWeaponCooldown) (v3 # le_bytes 2 w))
        @ part (HasField f ActorEliminations) [v4]) s4" by blast
  have "actor_delta_ok a"
    using s1(2) s2(2) s3(2) s4(2) f(2,3)
    by (simp add: actor_delta_ok_def s4(1) s3(1) s2(1) s1(1) default_actor_delta_def)
  moreover have "suf = actor_delta_bytes a @ s4 \<and> r = reader_at (pre @ actor_delta_bytes a) s4"
    by (simp add: actor_delta_bytes_def p4 s0 s1(1,3) s2(1,3) s3(1,3) s4(1,3))
  ultimately show ?thesis by blast
qed

interpretation actor_change: payload_codec ReadActorDelta actor_delta_bytes actor_delta_ok
  by unfold_locales (simp_all add: ReadActorDelta_bytes ReadActorDelta_InrD)

end
