(* ===== verification/ReplicationRoundTrip.thy ===== *)
theory ReplicationRoundTrip
  imports ReplicationCodecLemmas
begin

text \<open>
  Whole payloads: \<^verbatim>\<open>EncodeSnapshotPayload\<close> succeeds exactly on valid payloads,
  \<^verbatim>\<open>DecodeSnapshotPayload\<close> recovers them, whatever it accepts can be encoded again,
  and but for full states (whose lists may arrive in any order) it accepts only encodings.
\<close>

section \<open>Lists\<close>

interpretation actor_values: payload_codec "ReadBoundedVector MaxSnapshotActors ReadQuantizedActor"
  quantized_actor.vector_bytes "\<lambda>vs. length vs \<le> MaxSnapshotActors \<and> (\<forall>v \<in> set vs. True)"
  by (rule quantized_actor.payload_codec_vector) (simp add: MaxSnapshotActors_def)

interpretation actor_changes: payload_codec "ReadBoundedVector MaxSnapshotActors ReadActorDelta"
  actor_change.vector_bytes "\<lambda>vs. length vs \<le> MaxSnapshotActors \<and> (\<forall>v \<in> set vs. actor_delta_ok v)"
  by (rule actor_change.payload_codec_vector) (simp add: MaxSnapshotActors_def)

interpretation actor_removals: payload_codec "ReadBoundedVector MaxSnapshotActors ReadRemovedActor"
  removed_actor.vector_bytes "\<lambda>vs. length vs \<le> MaxSnapshotActors \<and> (\<forall>v \<in> set vs. True)"
  by (rule removed_actor.payload_codec_vector) (simp add: MaxSnapshotActors_def)

interpretation loot_values: payload_codec "ReadBoundedVector MaxSnapshotLoot ReadQuantizedLoot"
  quantized_loot.vector_bytes "\<lambda>vs. length vs \<le> MaxSnapshotLoot \<and> (\<forall>v \<in> set vs. True)"
  by (rule quantized_loot.payload_codec_vector) (simp add: MaxSnapshotLoot_def)

interpretation loot_changes: payload_codec "ReadBoundedVector MaxSnapshotLoot ReadLootDelta"
  loot_change.vector_bytes "\<lambda>vs. length vs \<le> MaxSnapshotLoot \<and> (\<forall>v \<in> set vs. ld_fields v = LootActive)"
  by (rule loot_change.payload_codec_vector) (simp add: MaxSnapshotLoot_def)

interpretation loot_removals: payload_codec "ReadBoundedVector MaxSnapshotLoot ReadRemovedLoot"
  removed_loot.vector_bytes "\<lambda>vs. length vs \<le> MaxSnapshotLoot \<and> (\<forall>v \<in> set vs. True)"
  by (rule removed_loot.payload_codec_vector) (simp add: MaxSnapshotLoot_def)

interpretation precision_actors: payload_codec "ReadBoundedVector MaxSnapshotActors ReadPrecisionActor"
  precision_actor.vector_bytes "\<lambda>vs. length vs \<le> MaxSnapshotActors \<and> (\<forall>v \<in> set vs. True)"
  by (rule precision_actor.payload_codec_vector) (simp add: MaxSnapshotActors_def)

interpretation precision_loots: payload_codec "ReadBoundedVector MaxSnapshotLoot ReadPrecisionLoot"
  precision_loot.vector_bytes "\<lambda>vs. length vs \<le> MaxSnapshotLoot \<and> (\<forall>v \<in> set vs. True)"
  by (rule precision_loot.payload_codec_vector) (simp add: MaxSnapshotLoot_def)

lemmas vector_bytes_defs =
  quantized_actor.vector_bytes_def actor_change.vector_bytes_def removed_actor.vector_bytes_def
  quantized_loot.vector_bytes_def loot_change.vector_bytes_def removed_loot.vector_bytes_def
  precision_actor.vector_bytes_def precision_loot.vector_bytes_def

section \<open>Bodies\<close>

text \<open>A keyframe with full precision has the layout of a full snapshot.\<close>

lemma snapshot_bytes_vectors:
  "snapshot_bytes s = [gs_phase s, gs_safeZoneStage s] @ le_bytes 4 (nv_x (gs_safeZoneCenter s))
     @ le_bytes 4 (nv_z (gs_safeZoneCenter s)) @ le_bytes 4 (gs_safeZoneRadius s)
     @ le_bytes 4 (gs_aliveContenders s) @ precision_actor.vector_bytes (gs_actors s)
     @ precision_loot.vector_bytes (gs_loot s)
     @ optional_result_bytes (gs_hasResult s, gs_result s) @ le_bytes 8 (gs_eventChecksum s)"
  by (simp add: snapshot_bytes_def vector_bytes_defs result_bytes_def optional_result_bytes_def
      match_result_bytes_def)

lemma WritePrecisionKeyframe_bytes [read_write]: "WritePrecisionKeyframe s w = w @ snapshot_bytes s"
  by (simp add: WritePrecisionKeyframe_def snapshot_bytes_vectors vector_bytes_defs
      optional_result_bytes_def Let_def read_write)

interpretation precision_keyframe: payload_codec ReadPrecisionKeyframe snapshot_bytes
  "\<lambda>s. length (gs_actors s) \<le> MaxSnapshotActors \<and> length (gs_loot s) \<le> MaxSnapshotLoot
     \<and> (\<not> gs_hasResult s \<longrightarrow> gs_result s = no_match_result)"
proof
  fix pre suf and s :: game_snapshot
  assume "length (gs_actors s) \<le> MaxSnapshotActors \<and> length (gs_loot s) \<le> MaxSnapshotLoot
     \<and> (\<not> gs_hasResult s \<longrightarrow> gs_result s = no_match_result)"
  then show "ReadPrecisionKeyframe (reader_at pre (snapshot_bytes s @ suf)) = Inr (s, reader_at (pre @ snapshot_bytes s) suf)"
    using precision_actors.read_bytes [of "gs_actors s"] precision_loots.read_bytes [of "gs_loot s"]
      optional_result.read_bytes [of "(gs_hasResult s, gs_result s)"]
    by (cases s; cases "gs_safeZoneCenter s")
      (simp add: ReadPrecisionKeyframe_def snapshot_bytes_vectors read_write)
next
  fix pre suf r s assume "ReadPrecisionKeyframe (reader_at pre suf) = Inr (s, r)"
  then show "(length (gs_actors s) \<le> MaxSnapshotActors \<and> length (gs_loot s) \<le> MaxSnapshotLoot
     \<and> (\<not> gs_hasResult s \<longrightarrow> gs_result s = no_match_result))
     \<and> (\<exists>suf'. suf = snapshot_bytes s @ suf' \<and> r = reader_at (pre @ snapshot_bytes s) suf')"
    by (auto simp: ReadPrecisionKeyframe_def snapshot_bytes_vectors read_then_Inr_iff
        split: prod.splits option.splits
        dest!: word_reads optional_result.read_InrD precision_actors.read_InrD precision_loots.read_InrD)
qed

definition keyframe_bytes :: "snapshot_payload \<Rightarrow> byte list" where
  "keyframe_bytes p = qglobal_bytes (sp_global p) @ quantized_actor.vector_bytes (sp_actorValues p)
     @ quantized_loot.vector_bytes (sp_lootValues p)"

definition delta_bytes :: "snapshot_payload \<Rightarrow> byte list" where
  "delta_bytes p = global_delta_bytes (sp_globalDelta p)
     @ quantized_actor.vector_bytes (sp_actorValues p) @ actor_change.vector_bytes (sp_actorDeltas p)
     @ removed_actor.vector_bytes (sp_removedActors p) @ quantized_loot.vector_bytes (sp_lootValues p)
     @ loot_change.vector_bytes (sp_lootDeltas p) @ removed_loot.vector_bytes (sp_removedLoot p)"

lemma write_bodies [read_write]:
  "WriteQuantizedKeyframe p w = w @ keyframe_bytes p"
  "WriteDelta p w = w @ delta_bytes p"
  by (simp_all add: WriteQuantizedKeyframe_def WriteDelta_def keyframe_bytes_def delta_bytes_def
      vector_bytes_defs Let_def read_write)

lemma ReadQuantizedKeyframe_bytes:
  assumes "length (sp_actorValues p) \<le> MaxSnapshotActors" and "length (sp_lootValues p) \<le> MaxSnapshotLoot"
    and "\<not> qg_hasResult (sp_global p) \<longrightarrow> qg_result (sp_global p) = no_match_result"
  shows "ReadQuantizedKeyframe t (reader_at pre (keyframe_bytes p @ suf))
    = Inr (t\<lparr>sp_global := sp_global p, sp_actorValues := sp_actorValues p, sp_lootValues := sp_lootValues p\<rparr>,
           reader_at (pre @ keyframe_bytes p) suf)"
  using assms by (simp add: ReadQuantizedKeyframe_def keyframe_bytes_def
      quantized_global.read_bytes actor_values.read_bytes loot_values.read_bytes)

lemma ReadQuantizedKeyframe_InrD:
  assumes "ReadQuantizedKeyframe t (reader_at pre suf) = Inr (p, r)"
  shows "p = t\<lparr>sp_global := sp_global p, sp_actorValues := sp_actorValues p, sp_lootValues := sp_lootValues p\<rparr>
    \<and> (\<not> qg_hasResult (sp_global p) \<longrightarrow> qg_result (sp_global p) = no_match_result)
    \<and> (\<exists>suf'. suf = keyframe_bytes p @ suf' \<and> r = reader_at (pre @ keyframe_bytes p) suf')"
  using assms by (auto simp: ReadQuantizedKeyframe_def keyframe_bytes_def read_then_Inr_iff
      dest!: quantized_global.read_InrD actor_values.read_InrD loot_values.read_InrD)

definition delta_counts_ok :: "snapshot_payload \<Rightarrow> bool" where
  "delta_counts_ok p \<longleftrightarrow>
     length (sp_actorValues p) + length (sp_actorDeltas p) + length (sp_removedActors p) \<le> MaxSnapshotActors
     \<and> length (sp_lootValues p) + length (sp_lootDeltas p) + length (sp_removedLoot p) \<le> MaxSnapshotLoot"

lemma ReadDelta_bytes:
  assumes "delta_counts_ok p" and "global_delta_ok (sp_globalDelta p)"
    and "\<forall>a \<in> set (sp_actorDeltas p). actor_delta_ok a"
    and "\<forall>l \<in> set (sp_lootDeltas p). ld_fields l = LootActive"
  shows "ReadDelta t (reader_at pre (delta_bytes p @ suf))
    = Inr (t\<lparr>sp_globalDelta := sp_globalDelta p, sp_actorValues := sp_actorValues p,
            sp_actorDeltas := sp_actorDeltas p, sp_removedActors := sp_removedActors p,
            sp_lootValues := sp_lootValues p, sp_lootDeltas := sp_lootDeltas p,
            sp_removedLoot := sp_removedLoot p\<rparr>, reader_at (pre @ delta_bytes p) suf)"
  using assms by (simp add: ReadDelta_def delta_bytes_def delta_counts_ok_def global_change.read_bytes
      actor_values.read_bytes actor_changes.read_bytes actor_removals.read_bytes
      loot_values.read_bytes loot_changes.read_bytes loot_removals.read_bytes not_less)

lemma ReadDelta_InrD:
  assumes "ReadDelta t (reader_at pre suf) = Inr (p, r)"
  shows "p = t\<lparr>sp_globalDelta := sp_globalDelta p, sp_actorValues := sp_actorValues p,
            sp_actorDeltas := sp_actorDeltas p, sp_removedActors := sp_removedActors p,
            sp_lootValues := sp_lootValues p, sp_lootDeltas := sp_lootDeltas p,
            sp_removedLoot := sp_removedLoot p\<rparr>
    \<and> (\<exists>suf'. suf = delta_bytes p @ suf' \<and> r = reader_at (pre @ delta_bytes p) suf')"
  using assms by (auto simp: ReadDelta_def delta_bytes_def read_then_Inr_iff split: if_splits
      dest!: global_change.read_InrD actor_values.read_InrD actor_changes.read_InrD actor_removals.read_InrD
        loot_values.read_InrD loot_changes.read_InrD loot_removals.read_InrD)

section \<open>Payloads\<close>

lemma CheckCanonicalOrder_iff:
  "CheckCanonicalOrder key vs = Canonical \<longleftrightarrow> sorted_wrt (<) (map key vs)"
proof (induction key vs rule: CheckCanonicalOrder.induct)
  case (1 key previous current rest)
  have "sorted_wrt (<) (map key (previous # current # rest))
      \<longleftrightarrow> key previous < key current \<and> sorted_wrt (<) (map key (current # rest))"
    by (auto dest: less_trans)
  then show ?case using 1 by (auto simp: not_less)
qed simp_all

lemma RequireCanonical_iff [simp]:
  "RequireCanonical key vs = Inr () \<longleftrightarrow> sorted_wrt (<) (map key vs)"
  by (simp add: RequireCanonical_def CheckCanonicalOrder_iff)

lemma adjacent_equal_sort: "adjacent_equal (\<lambda>i. i) (sort xs) \<longleftrightarrow> \<not> distinct xs"
  using sorted_adjacent_distinct [of "\<lambda>i. i" "sort xs"] by auto

lemma IsValidQuantizedGlobalDelta_ok: "IsValidQuantizedGlobalDelta g \<Longrightarrow> global_delta_ok g"
  by (auto simp: IsValidQuantizedGlobalDelta_def global_delta_ok_def Let_def default_global_delta_def
      split: if_splits)

lemma IsValidQuantizedActorDelta_ok: "IsValidQuantizedActorDelta a \<Longrightarrow> actor_delta_ok a"
  by (auto simp: IsValidQuantizedActorDelta_def actor_delta_ok_def Let_def split: if_splits)

lemma ValidateDelta_ok:
  assumes "ValidateDelta p = Inr ()"
  shows "delta_counts_ok p \<and> global_delta_ok (sp_globalDelta p)
    \<and> (\<forall>a \<in> set (sp_actorDeltas p). actor_delta_ok a) \<and> (\<forall>l \<in> set (sp_lootDeltas p). ld_fields l = LootActive)"
  using assms by (auto simp: ValidateDelta_def delta_counts_ok_def list_all_iff not_less Let_def
      split: if_splits dest: IsValidQuantizedGlobalDelta_ok IsValidQuantizedActorDelta_ok)

text \<open>The bytes of a payload, and the form in which it arrives: parts that its kind does not have
  are default values, a full state is sorted, and a result that is not present is the default.\<close>

definition header_bytes :: "payload_header \<Rightarrow> byte list" where
  "header_bytes h = [ph_kind h, ph_valueEncoding h] @ le_bytes 4 (ph_baseSnapshotId h)
     @ le_bytes 4 (ph_payloadSnapshotId h)"

definition body_bytes :: "snapshot_payload \<Rightarrow> byte list" where
  "body_bytes p =
     (if ph_kind (sp_header p) = KindFullState then snapshot_bytes (sorted_snapshot (sp_fullPrecision p))
      else if ph_kind (sp_header p) = KindKeyframe
      then if ph_valueEncoding (sp_header p) = EncodingFullPrecision then snapshot_bytes (sp_fullPrecision p)
           else keyframe_bytes p
      else delta_bytes p)"

definition canon_payload :: "snapshot_payload \<Rightarrow> snapshot_payload" where
  "canon_payload p =
     (let s = sp_fullPrecision p; g = sp_global p
      in if ph_kind (sp_header p) = KindFullState then p\<lparr>sp_fullPrecision := canon_snapshot s\<rparr>
         else if ph_kind (sp_header p) = KindKeyframe \<and> ph_valueEncoding (sp_header p) = EncodingFullPrecision
         then p\<lparr>sp_fullPrecision := (if gs_hasResult s then s else s\<lparr>gs_result := no_match_result\<rparr>)\<rparr>
         else if ph_kind (sp_header p) = KindKeyframe
         then p\<lparr>sp_fullPrecision := default_game_snapshot,
                sp_global := (if qg_hasResult g then g else g\<lparr>qg_result := no_match_result\<rparr>)\<rparr>
         else p\<lparr>sp_fullPrecision := default_game_snapshot\<rparr>)"

lemma snapshot_bytes_result [simp]:
  "snapshot_bytes (if gs_hasResult s then s else s\<lparr>gs_result := no_match_result\<rparr>) = snapshot_bytes s"
  by (simp add: snapshot_bytes_def result_bytes_def)

lemma qglobal_bytes_result [simp]:
  "qglobal_bytes (if qg_hasResult g then g else g\<lparr>qg_result := no_match_result\<rparr>) = qglobal_bytes g"
  by (simp add: qglobal_bytes_def optional_result_bytes_def)

lemma header_canon [simp]: "sp_header (canon_payload p) = sp_header p"
  by (simp add: canon_payload_def Let_def)

text \<open>Encodings stay far below the limit, so the encoder's last test never fails.\<close>

lemma length_concat_le: "(\<And>x. length (f x) \<le> k) \<Longrightarrow> length (concat (map f xs)) \<le> k * length xs"
  by (induction xs) (simp_all add: add_mono)

lemma length_optional_result: "length (optional_result_bytes p) \<le> 10"
  by (simp add: optional_result_bytes_def match_result_bytes_def)

lemma length_qglobal: "length (qglobal_bytes g) \<le> 27"
  using length_optional_result [of "(qg_hasResult g, qg_result g)"] by (simp add: qglobal_bytes_def)

lemma length_part: "length (part c bs) \<le> length bs"
  by (simp add: part_def)

lemma length_global_delta: "length (global_delta_bytes g) \<le> 28"
  using length_optional_result [of "(gd_hasResult g, gd_result g)"]
  by (simp add: global_delta_bytes_def part_def)

lemma length_actor_delta: "length (actor_delta_bytes a) \<le> 15"
  by (simp add: actor_delta_bytes_def part_def)

lemma length_vectors:
  "length (quantized_actor.vector_bytes qas) \<le> 16 * length qas + 2"
  "length (quantized_loot.vector_bytes qls) \<le> 16 * length qls + 2"
  "length (actor_change.vector_bytes ads) \<le> 16 * length ads + 2"
  "length (loot_change.vector_bytes lds) \<le> 16 * length lds + 2"
  "length (removed_actor.vector_bytes ras) \<le> 16 * length ras + 2"
  "length (removed_loot.vector_bytes rls) \<le> 16 * length rls + 2"
proof -
  have "length (actor_delta_bytes a) \<le> 16" for a
    by (rule order_trans [OF length_actor_delta]) simp
  then show
    "length (quantized_actor.vector_bytes qas) \<le> 16 * length qas + 2"
    "length (quantized_loot.vector_bytes qls) \<le> 16 * length qls + 2"
    "length (actor_change.vector_bytes ads) \<le> 16 * length ads + 2"
    "length (loot_change.vector_bytes lds) \<le> 16 * length lds + 2"
    "length (removed_actor.vector_bytes ras) \<le> 16 * length ras + 2"
    "length (removed_loot.vector_bytes rls) \<le> 16 * length rls + 2"
    by (simp_all only: vector_bytes_defs length_append length_le_bytes)
      (simp_all add: length_concat_le qactor_bytes_def qloot_bytes_def loot_delta_bytes_def)
qed

lemma length_body_bytes:
  assumes "ValidatePayload p = Inr ()"
    and "ph_kind (sp_header p) = KindFullState \<Longrightarrow> snapshot_ok (sp_fullPrecision p)"
  shows "length (body_bytes p) \<le> 4352"
proof -
  let ?h = "sp_header p"
  consider (full) "ph_kind ?h = KindFullState"
    | (precise) "ph_kind ?h \<noteq> KindFullState" "ph_kind ?h = KindKeyframe" "ph_valueEncoding ?h = EncodingFullPrecision"
    | (quantized) "ph_kind ?h \<noteq> KindFullState" "ph_kind ?h = KindKeyframe" "ph_valueEncoding ?h \<noteq> EncodingFullPrecision"
    | (delta) "ph_kind ?h \<noteq> KindFullState" "ph_kind ?h \<noteq> KindKeyframe" by blast
  then show ?thesis
  proof cases
    case full
    with assms(2) have "snapshot_ok (sp_fullPrecision p)" by simp
    then show ?thesis
      using full by (simp add: body_bytes_def)
        (rule length_snapshot_bytes, simp_all add: snapshot_ok_def sorted_snapshot_def)
  next
    case precise
    then have "ValidatePrecisionKeyframe p = Inr ()"
      using assms(1) by (auto simp: ValidatePayload_def Let_def split: if_splits)
    then show ?thesis
      using precise by (simp add: body_bytes_def)
        (rule length_snapshot_bytes, auto simp: ValidatePrecisionKeyframe_def Let_def split: if_splits)
  next
    case quantized
    then have "ValidateQuantizedKeyframe p = Inr ()"
      using assms(1) by (auto simp: ValidatePayload_def Let_def split: if_splits)
    then have "length (sp_actorValues p) \<le> 124" "length (sp_lootValues p) \<le> 60"
      by (auto simp: ValidateQuantizedKeyframe_def MaxSnapshotActors_def MaxSnapshotLoot_def split: if_splits)
    then show ?thesis
      using quantized length_vectors(1) [of "sp_actorValues p"] length_vectors(2) [of "sp_lootValues p"]
        length_qglobal [of "sp_global p"]
      by (simp add: body_bytes_def keyframe_bytes_def)
  next
    case delta
    then have "ValidateDelta p = Inr ()"
      using assms(1) by (auto simp: ValidatePayload_def Let_def split: if_splits)
    then have "delta_counts_ok p" by (simp add: ValidateDelta_ok)
    then show ?thesis
      using delta length_vectors(1) [of "sp_actorValues p"] length_vectors(2) [of "sp_lootValues p"]
        length_vectors(3) [of "sp_actorDeltas p"] length_vectors(4) [of "sp_lootDeltas p"]
        length_vectors(5) [of "sp_removedActors p"] length_vectors(6) [of "sp_removedLoot p"]
        length_global_delta [of "sp_globalDelta p"]
      by (simp add: body_bytes_def delta_bytes_def delta_counts_ok_def MaxSnapshotActors_def MaxSnapshotLoot_def)
  qed
qed

text \<open>The encoder.\<close>

definition payload_ok :: "snapshot_payload \<Rightarrow> bool" where
  "payload_ok p \<longleftrightarrow> ValidatePayload p = Inr ()
     \<and> (ph_kind (sp_header p) = KindFullState \<longrightarrow> snapshot_ok (sp_fullPrecision p))"

lemma EncodeSnapshotPayload_iff:
  "EncodeSnapshotPayload p = Inr bs \<longleftrightarrow> payload_ok p \<and> bs = header_bytes (sp_header p) @ body_bytes p"
proof (cases "payload_ok p")
  case True
  then have "length (body_bytes p) \<le> 4352" by (intro length_body_bytes) (simp_all add: payload_ok_def)
  then show ?thesis
    using True
    by (auto simp: EncodeSnapshotPayload_def payload_ok_def EncodeGameSnapshot_eq body_bytes_def
        header_bytes_def MaxSnapshotPayloadBytes_def Let_def read_write)
next
  case False
  then show ?thesis
    by (auto simp: EncodeSnapshotPayload_def payload_ok_def EncodeGameSnapshot_eq Let_def split: if_splits)
qed

text \<open>What a valid payload of each kind looks like.\<close>

lemma ValidatePayload_cases:
  assumes "ValidatePayload p = Inr ()"
  obtains (full) "ph_kind (sp_header p) = KindFullState"
      "p = (payload_with_header (sp_header p))\<lparr>sp_fullPrecision := sp_fullPrecision p\<rparr>"
    | (precise) "ph_kind (sp_header p) = KindKeyframe" "ph_valueEncoding (sp_header p) = EncodingFullPrecision"
      "ValidatePrecisionKeyframe p = Inr ()"
      "p = (payload_with_header (sp_header p))\<lparr>sp_fullPrecision := sp_fullPrecision p\<rparr>"
    | (quantized) "ph_kind (sp_header p) = KindKeyframe" "ph_valueEncoding (sp_header p) \<noteq> EncodingFullPrecision"
      "ValidateQuantizedKeyframe p = Inr ()"
      "p = (payload_with_header (sp_header p))\<lparr>sp_fullPrecision := sp_fullPrecision p, sp_global := sp_global p,
         sp_actorValues := sp_actorValues p, sp_lootValues := sp_lootValues p\<rparr>"
    | (delta) "ph_kind (sp_header p) \<noteq> KindFullState" "ph_kind (sp_header p) \<noteq> KindKeyframe"
      "ValidateDelta p = Inr ()"
      "p = (payload_with_header (sp_header p))\<lparr>sp_fullPrecision := sp_fullPrecision p,
         sp_globalDelta := sp_globalDelta p, sp_actorValues := sp_actorValues p,
         sp_actorDeltas := sp_actorDeltas p, sp_removedActors := sp_removedActors p,
         sp_lootValues := sp_lootValues p, sp_lootDeltas := sp_lootDeltas p,
         sp_removedLoot := sp_removedLoot p\<rparr>"
proof -
  have neq: "KindKeyframe \<noteq> KindFullState" by (simp add: payload_kinds)
  from assms that show thesis
    by (cases p) (auto simp: ValidatePayload_def payload_with_header_def Let_def neq split: if_splits)
qed

lemma snapshot_eq_default: "snapshot_eq default_game_snapshot default_game_snapshot"
  by (simp add: snapshot_eq_def vec2_eq_def f32_eq_def f32_nan_def default_game_snapshot_def)

lemma canon_snapshot_bytes: "snapshot_bytes (canon_snapshot s) = snapshot_bytes (sorted_snapshot s)"
  by (simp add: canon_snapshot_def snapshot_bytes_def result_bytes_def sorted_snapshot_def)

lemma body_canon: "body_bytes (canon_payload p) = body_bytes p"
  by (simp add: body_bytes_def canon_payload_def Let_def canon_snapshot_bytes keyframe_bytes_def delta_bytes_def)

lemma canon_payload_valid:
  assumes "ValidatePayload p = Inr ()"
  shows "ValidatePayload (canon_payload p) = Inr ()"
proof -
  have finished: "IsValidPhase PhaseFinished" by (simp add: IsValidPhase_def)
  have neq: "KindKeyframe \<noteq> KindFullState" by (simp add: payload_kinds)
  show ?thesis using assms
  proof (cases rule: ValidatePayload_cases)
    case full
    then show ?thesis using assms by (simp add: canon_payload_def ValidatePayload_def Let_def split: if_splits)
  next
    case precise
    then show ?thesis using assms neq finished
      by (simp add: canon_payload_def ValidatePayload_def ValidatePrecisionKeyframe_def
          IsValidPrecisionGlobal_def IsValidResultState_def Let_def split: if_splits)
  next
    case quantized
    then show ?thesis using assms neq finished snapshot_eq_default
      by (simp add: canon_payload_def ValidatePayload_def ValidateQuantizedKeyframe_def
          IsValidQuantizedGlobal_def IsValidResultState_def Let_def split: if_splits)
  next
    case delta
    then show ?thesis using assms snapshot_eq_default
      by (simp add: canon_payload_def ValidatePayload_def ValidateDelta_def HasDuplicateActorCategory_def
          HasDuplicateLootCategory_def Let_def split: if_splits)
  qed
qed

lemma ReadBytes_all: "ReadBytes (length suf) (reader_at pre suf) = (Some suf, reader_at (pre @ suf) [])"
  using raw.read_exact [of suf "length suf" pre] by simp

lemma ordered_keyframe:
  assumes "ValidatePayload p = Inr ()" and "ph_kind (sp_header p) = KindKeyframe"
  shows "ValidateKeyframeCanonicalOrder p = None"
  using assms
  by (cases rule: ValidatePayload_cases [OF assms(1)])
    (auto simp: ValidateKeyframeCanonicalOrder_def ValidatePrecisionKeyframe_def ValidateQuantizedKeyframe_def
      RequireCanonical_def Let_def payload_kinds simp del: RequireCanonical_iff split: if_splits)

lemma ordered_delta:
  assumes "ValidateDelta p = Inr ()"
  shows "ValidateDeltaCanonicalOrder p = None"
  using assms by (auto simp: ValidateDelta_def ValidateDeltaCanonicalOrder_def Let_def
      RequireCanonical_def simp del: RequireCanonical_iff split: if_splits)

lemma ReadBody_bytes:
  assumes "payload_ok p"
  shows "ReadBody (payload_with_header (sp_header p)) (reader_at pre (body_bytes p))
    = Inr (canon_payload p, reader_at (pre @ body_bytes p) [])"
proof -
  let ?t = "payload_with_header (sp_header p)" and ?c = "canon_payload p"
  have valid: "ValidatePayload p = Inr ()" and canon: "ValidatePayload ?c = Inr ()"
    using assms canon_payload_valid by (simp_all add: payload_ok_def)
  have t: "sp_header ?t = sp_header p" by (simp add: payload_with_header_def)
  have neq: "KindKeyframe \<noteq> KindFullState" by (simp add: payload_kinds)
  from valid show ?thesis
  proof (cases rule: ValidatePayload_cases)
    case full
    then have "snapshot_ok (sp_fullPrecision p)" using assms by (simp add: payload_ok_def)
    moreover have "?c = ?t\<lparr>sp_fullPrecision := canon_snapshot (sp_fullPrecision p)\<rparr>"
      using full(1) arg_cong [OF full(2), of "\<lambda>q. q\<lparr>sp_fullPrecision := canon_snapshot (sp_fullPrecision p)\<rparr>"]
      by (simp add: canon_payload_def Let_def)
    ultimately show ?thesis
      using full(1) by (simp add: ReadBody_def t body_bytes_def ReadBytes_all DecodeGameSnapshot_bytes)
  next
    case precise
    let ?s = "sp_fullPrecision ?c"
    have c: "?c = ?t\<lparr>sp_fullPrecision := ?s\<rparr>"
      using precise(1,2) neq arg_cong [OF precise(4), of "\<lambda>q. q\<lparr>sp_fullPrecision := ?s\<rparr>"]
      by (simp add: canon_payload_def Let_def)
    have s: "snapshot_bytes ?s = body_bytes p" "\<not> gs_hasResult ?s \<longrightarrow> gs_result ?s = no_match_result"
        "length (gs_actors ?s) \<le> MaxSnapshotActors" "length (gs_loot ?s) \<le> MaxSnapshotLoot"
      using precise neq by (auto simp: canon_payload_def body_bytes_def ValidatePrecisionKeyframe_def Let_def split: if_splits)
    have "ReadPrecisionKeyframe (reader_at pre (body_bytes p)) = Inr (?s, reader_at (pre @ body_bytes p) [])"
      using precision_keyframe.read_bytes [of ?s pre "[]"] s by simp
    then show ?thesis
      using precise neq ordered_keyframe [OF canon] c by (simp add: ReadBody_def t ordered_def)
  next
    case quantized
    have c: "?c = ?t\<lparr>sp_global := sp_global ?c, sp_actorValues := sp_actorValues ?c, sp_lootValues := sp_lootValues ?c\<rparr>"
      using quantized(1,2) neq
        arg_cong [OF quantized(4), of "\<lambda>q. q\<lparr>sp_fullPrecision := default_game_snapshot, sp_global := sp_global ?c\<rparr>"]
      by (simp add: canon_payload_def Let_def payload_with_header_def)
    have s: "keyframe_bytes ?c = body_bytes p"
        "\<not> qg_hasResult (sp_global ?c) \<longrightarrow> qg_result (sp_global ?c) = no_match_result"
        "length (sp_actorValues ?c) \<le> MaxSnapshotActors" "length (sp_lootValues ?c) \<le> MaxSnapshotLoot"
      using quantized neq by (auto simp: canon_payload_def body_bytes_def keyframe_bytes_def
          ValidateQuantizedKeyframe_def Let_def split: if_splits)
    have "ReadQuantizedKeyframe ?t (reader_at pre (body_bytes p)) = Inr (?c, reader_at (pre @ body_bytes p) [])"
      using ReadQuantizedKeyframe_bytes [OF s(3,4,2), of ?t pre "[]"] c s(1) by simp
    then show ?thesis
      using quantized neq ordered_keyframe [OF canon] by (simp add: ReadBody_def t ordered_def)
  next
    case delta
    have c: "?c = p\<lparr>sp_fullPrecision := default_game_snapshot\<rparr>"
      using delta by (simp add: canon_payload_def Let_def)
    have t': "?c = ?t\<lparr>sp_globalDelta := sp_globalDelta ?c, sp_actorValues := sp_actorValues ?c,
         sp_actorDeltas := sp_actorDeltas ?c, sp_removedActors := sp_removedActors ?c,
         sp_lootValues := sp_lootValues ?c, sp_lootDeltas := sp_lootDeltas ?c,
         sp_removedLoot := sp_removedLoot ?c\<rparr>"
      using arg_cong [OF delta(4), of "\<lambda>q. q\<lparr>sp_fullPrecision := default_game_snapshot\<rparr>"]
      by (simp add: c payload_with_header_def)
    have d: "ValidateDelta ?c = Inr ()"
      using canon delta by (auto simp: ValidatePayload_def Let_def split: if_splits)
    have "delta_bytes ?c = body_bytes p" using delta by (simp add: c body_bytes_def delta_bytes_def)
    then have "ReadDelta ?t (reader_at pre (body_bytes p)) = Inr (?c, reader_at (pre @ body_bytes p) [])"
      using ReadDelta_bytes [of ?c ?t pre "[]"] ValidateDelta_ok [OF d] t' by simp
    then show ?thesis
      using delta ordered_delta [OF d] by (simp add: ReadBody_def t ordered_def)
  qed
qed

text \<open>The decoder.\<close>

lemma EncodeSnapshotPayload_Decode_aux:
  "DecodeSnapshotPayload (header_bytes h @ suf) =
     (if MaxSnapshotPayloadBytes < length (header_bytes h @ suf) then Inl PayloadCountLimit
      else if \<not> IsValidHeader h then Inl PayloadInvalidValue
      else (case ReadBody (payload_with_header h) (reader_at (header_bytes h) suf) of
              Inl error \<Rightarrow> Inl error
            | Inr (payload, r) \<Rightarrow>
                if \<not> Empty r then Inl PayloadTrailingBytes
                else (case ValidatePayload payload of
                        Inl Length_error \<Rightarrow> Inl PayloadCountLimit
                      | Inl _ \<Rightarrow> Inl PayloadInvalidValue
                      | Inr _ \<Rightarrow> Inr payload)))"
  by (cases h) (simp add: DecodeSnapshotPayload_def header_bytes_def ByteReader_reader_at
      payload_with_header_def Let_def read_write)

lemma DecodeSnapshotPayload_Encode:
  assumes "EncodeSnapshotPayload p = Inr bs"
  shows "DecodeSnapshotPayload bs = Inr (canon_payload p)"
proof -
  have ok: "payload_ok p" and bs: "bs = header_bytes (sp_header p) @ body_bytes p"
    using assms by (simp_all add: EncodeSnapshotPayload_iff)
  have valid: "ValidatePayload p = Inr ()" using ok by (simp add: payload_ok_def)
  then have header: "IsValidHeader (sp_header p)" by (simp add: ValidatePayload_def split: if_splits)
  have "length (body_bytes p) \<le> 4352"
    using ok by (intro length_body_bytes) (simp_all add: payload_ok_def)
  then have "\<not> MaxSnapshotPayloadBytes < length bs" by (simp add: bs header_bytes_def MaxSnapshotPayloadBytes_def)
  then show ?thesis
    using header ReadBody_bytes [OF ok] canon_payload_valid [OF valid]
    by (simp add: bs EncodeSnapshotPayload_Decode_aux)
qed

lemma read_header:
  assumes "DecodeSnapshotPayload bs = Inr p"
  obtains h suf where "bs = header_bytes h @ suf"
proof -
  from assms obtain k e b i r1 r2 r3 r4 where reads: "ReadU8 (ByteReader bs) = (Some k, r1)" "ReadU8 r1 = (Some e, r2)"
      "ReadU32 r2 = (Some b, r3)" "ReadU32 r3 = (Some i, r4)"
    by (auto simp: DecodeSnapshotPayload_def split: prod.splits option.splits if_splits)
  have "\<exists>suf. bs = k # e # le_bytes 4 b @ le_bytes 4 i @ suf"
    using reads by (auto simp: ByteReader_reader_at dest!: word_reads)
  then obtain suf where bs: "bs = k # e # le_bytes 4 b @ le_bytes 4 i @ suf" by blast
  show thesis
    by (rule that [of "\<lparr>ph_kind = k, ph_valueEncoding = e, ph_baseSnapshotId = b, ph_payloadSnapshotId = i\<rparr>" suf])
      (simp add: header_bytes_def bs)
qed

lemma ReadBody_InrD:
  assumes "ReadBody (payload_with_header h) (reader_at pre suf) = Inr (p, r)"
  shows "sp_header p = h
    \<and> (ph_kind h = KindFullState \<longrightarrow> snapshot_ok (sp_fullPrecision p) \<and> sorted_snapshot (sp_fullPrecision p) = sp_fullPrecision p)
    \<and> (ph_kind h \<noteq> KindFullState \<longrightarrow> canon_payload p = p \<and> (\<exists>suf'. suf = body_bytes p @ suf' \<and> r = reader_at (pre @ body_bytes p) suf'))"
proof -
  let ?t = "payload_with_header h"
  have t: "sp_header ?t = h" "sp_fullPrecision ?t = default_game_snapshot"
    by (simp_all add: payload_with_header_def)
  have neq: "KindKeyframe \<noteq> KindFullState" by (simp add: payload_kinds)
  consider (full) "ph_kind h = KindFullState"
    | (precise) "ph_kind h = KindKeyframe" "ph_valueEncoding h = EncodingFullPrecision"
    | (quantized) "ph_kind h = KindKeyframe" "ph_valueEncoding h \<noteq> EncodingFullPrecision"
    | (delta) "ph_kind h \<noteq> KindFullState" "ph_kind h \<noteq> KindKeyframe" by blast
  then show ?thesis
  proof cases
    case full
    moreover from this assms obtain s where "DecodeGameSnapshot suf = Inr s" "p = ?t\<lparr>sp_fullPrecision := s\<rparr>"
      by (cases "DecodeGameSnapshot suf") (auto simp: ReadBody_def t ReadBytes_all)
    ultimately show ?thesis using DecodeGameSnapshot_valid [of suf s] by (simp add: t)
  next
    case precise
    then obtain s where "ReadPrecisionKeyframe (reader_at pre suf) = Inr (s, r)" and p: "p = ?t\<lparr>sp_fullPrecision := s\<rparr>"
      using assms neq by (auto simp: ReadBody_def t ordered_def read_then_Inr_iff split: option.splits)
    with precision_keyframe.read_InrD [OF this(1)] precise neq show ?thesis
      by (auto simp: t canon_payload_def body_bytes_def Let_def)
  next
    case quantized
    then have "ReadQuantizedKeyframe ?t (reader_at pre suf) = Inr (p, r)"
      using assms neq by (auto simp: ReadBody_def t ordered_def read_then_Inr_iff split: option.splits)
    from ReadQuantizedKeyframe_InrD [OF this]
    have p: "p = ?t\<lparr>sp_global := sp_global p, sp_actorValues := sp_actorValues p, sp_lootValues := sp_lootValues p\<rparr>"
      and rest: "\<not> qg_hasResult (sp_global p) \<longrightarrow> qg_result (sp_global p) = no_match_result"
        "\<exists>suf'. suf = keyframe_bytes p @ suf' \<and> r = reader_at (pre @ keyframe_bytes p) suf'" by blast+
    have "sp_header p = h" "sp_fullPrecision p = default_game_snapshot"
      by (subst p, simp add: t)+
    with rest quantized neq show ?thesis by (cases p) (auto simp: canon_payload_def body_bytes_def Let_def)
  next
    case delta
    then have "ReadDelta ?t (reader_at pre suf) = Inr (p, r)"
      using assms by (auto simp: ReadBody_def t ordered_def read_then_Inr_iff split: option.splits)
    from ReadDelta_InrD [OF this]
    have p: "p = ?t\<lparr>sp_globalDelta := sp_globalDelta p, sp_actorValues := sp_actorValues p,
            sp_actorDeltas := sp_actorDeltas p, sp_removedActors := sp_removedActors p,
            sp_lootValues := sp_lootValues p, sp_lootDeltas := sp_lootDeltas p,
            sp_removedLoot := sp_removedLoot p\<rparr>"
      and rest: "\<exists>suf'. suf = delta_bytes p @ suf' \<and> r = reader_at (pre @ delta_bytes p) suf'" by blast+
    have "sp_header p = h" "sp_fullPrecision p = default_game_snapshot"
      by (subst p, simp add: t)+
    with rest delta show ?thesis by (cases p) (auto simp: canon_payload_def body_bytes_def Let_def)
  qed
qed

lemma DecodeSnapshotPayload_valid:
  assumes "DecodeSnapshotPayload bs = Inr p"
  shows "payload_ok p \<and> (ph_kind (sp_header p) \<noteq> KindFullState \<longrightarrow> canon_payload p = p \<and> EncodeSnapshotPayload p = Inr bs)"
proof -
  obtain h suf where bs: "bs = header_bytes h @ suf" by (rule read_header [OF assms])
  let ?read = "ReadBody (payload_with_header h) (reader_at (header_bytes h) suf)"
  note decode = assms [unfolded bs EncodeSnapshotPayload_Decode_aux]
  obtain q r where q: "?read = Inr (q, r)"
    using decode by (cases ?read) (auto split: if_splits)
  have r: "Empty r" using decode by (simp add: q split: if_splits)
  obtain u where u: "ValidatePayload q = Inr u"
    using decode by (cases "ValidatePayload q") (auto simp: q r split: if_splits cpp_exn.splits)
  have body: "?read = Inr (p, r)" and valid: "ValidatePayload p = Inr ()"
    using decode u by (simp_all add: q r split: if_splits)
  note read = ReadBody_InrD [OF body]
  have ok: "payload_ok p" using read valid by (simp add: payload_ok_def)
  moreover have "EncodeSnapshotPayload p = Inr bs" if "ph_kind (sp_header p) \<noteq> KindFullState"
    using that read r ok by (auto simp: EncodeSnapshotPayload_iff bs)
  ultimately show ?thesis using read by blast
qed

interpretation payload_message: message_codec EncodeSnapshotPayload
  "\<lambda>bs. map_sum (\<lambda>_. InvalidValue) (\<lambda>p. p) (DecodeSnapshotPayload bs)" canon_payload "\<lambda>_. True"
  by unfold_locales (simp add: DecodeSnapshotPayload_Encode)

end
