(* ===== verification/SnapshotDelta.thy ===== *)
theory SnapshotDelta
  imports ReplicationRoundTrip
begin

text \<open>
  The delta between two quantized views and its application: \<^verbatim>\<open>BuildGlobalDelta\<close> to
  \<^verbatim>\<open>BuildDeltaPayload\<close> of apps/game\_server/src/SnapshotReplicator.cpp and
  \<^verbatim>\<open>ApplyGlobalDelta\<close> to \<^verbatim>\<open>ApplyDelta\<close> of
  apps/game\_client/src/ClientSnapshotStream.cpp. The locale \<open>keyed_diff\<close> states what
  building and applying a change of one value promise each other, and proves from it that applying
  the difference of two sorted lists to the first gives the second; actors and loot are its
  instances.
\<close>

section \<open>Views\<close>

text \<open>\<^verbatim>\<open>QuantizedView\<close> of the server and \<^verbatim>\<open>QuantizedWorld\<close> of the
  client have the same members.\<close>

record quantized_view =
  vw_global :: quantized_global
  vw_actors :: "quantized_actor list"
  vw_loot :: "quantized_loot list"

section \<open>Building a delta\<close>

definition BuildGlobalDelta :: "quantized_global \<Rightarrow> quantized_global \<Rightarrow> global_delta" where
  "BuildGlobalDelta base current =
     (let delta = default_global_delta;
          delta = (if qg_phase base \<noteq> qg_phase current
                   then delta\<lparr>gd_fields := gd_fields delta OR GlobalPhase, gd_phase := qg_phase current\<rparr>
                   else delta);
          delta = (if qg_safeZoneStage base \<noteq> qg_safeZoneStage current
                      \<or> qg_safeZoneCenter base \<noteq> qg_safeZoneCenter current
                      \<or> qg_safeZoneRadius base \<noteq> qg_safeZoneRadius current
                   then delta\<lparr>gd_fields := gd_fields delta OR GlobalSafeZone,
                              gd_safeZoneStage := qg_safeZoneStage current,
                              gd_safeZoneCenter := qg_safeZoneCenter current,
                              gd_safeZoneRadius := qg_safeZoneRadius current\<rparr>
                   else delta);
          delta = (if qg_aliveContenders base \<noteq> qg_aliveContenders current
                   then delta\<lparr>gd_fields := gd_fields delta OR GlobalAliveContenders,
                              gd_aliveContenders := qg_aliveContenders current\<rparr>
                   else delta);
          delta = (if qg_hasResult base \<noteq> qg_hasResult current
                      \<or> qg_hasResult current \<and> qg_result base \<noteq> qg_result current
                   then let delta = delta\<lparr>gd_fields := gd_fields delta OR GlobalResult,
                                          gd_hasResult := qg_hasResult current\<rparr>
                        in if qg_hasResult current then delta\<lparr>gd_result := qg_result current\<rparr> else delta
                   else delta)
      in if qg_eventChecksum base \<noteq> qg_eventChecksum current
         then delta\<lparr>gd_fields := gd_fields delta OR GlobalEventChecksum,
                    gd_eventChecksum := qg_eventChecksum current\<rparr>
         else delta)"

definition BuildActorDelta :: "quantized_actor \<Rightarrow> quantized_actor \<Rightarrow> actor_delta option throws" where
  "BuildActorDelta base current =
     (if qa_role base \<noteq> qa_role current
         \<or> qa_neutralArchetype base \<noteq> qa_neutralArchetype current
      then Inl Logic_error
      else
        let delta = default_actor_delta\<lparr>ad_id := qa_id current\<rparr>;
            delta = (if qa_position base \<noteq> qa_position current
                     then delta\<lparr>ad_fields := ad_fields delta OR ActorPosition,
                                ad_position := qa_position current\<rparr>
                     else delta);
            delta = (if qa_health base \<noteq> qa_health current \<or> qa_alive base \<noteq> qa_alive current
                     then delta\<lparr>ad_fields := ad_fields delta OR ActorHealthAlive,
                                ad_health := qa_health current, ad_alive := qa_alive current\<rparr>
                     else delta);
            delta = (if qa_weapon base \<noteq> qa_weapon current
                        \<or> qa_cooldownTicksRemaining base \<noteq> qa_cooldownTicksRemaining current
                     then delta\<lparr>ad_fields := ad_fields delta OR ActorWeaponCooldown,
                                ad_weapon := qa_weapon current,
                                ad_cooldownTicksRemaining := qa_cooldownTicksRemaining current\<rparr>
                     else delta);
            delta = (if qa_eliminations base \<noteq> qa_eliminations current
                     then delta\<lparr>ad_fields := ad_fields delta OR ActorEliminations,
                                ad_eliminations := qa_eliminations current\<rparr>
                     else delta)
        in if ad_fields delta = 0 then Inr None else Inr (Some delta))"

definition BuildLootDelta :: "quantized_loot \<Rightarrow> quantized_loot \<Rightarrow> loot_delta option throws" where
  "BuildLootDelta base current =
     (if ql_type base \<noteq> ql_type current \<or> ql_position base \<noteq> ql_position current
      then Inl Logic_error
      else if ql_active base = ql_active current then Inr None
      else Inr (Some \<lparr>ld_id = ql_id current, ld_fields = LootActive, ld_active = ql_active current\<rparr>))"

text \<open>
  The loop over two sorted vectors, which the source has once for actors and once for loot: the
  identifiers that only the first vector has, the values that only the second has, and the changes
  of those in both, in the order in which the loop pushes them.
\<close>

type_synonym ('k, 'v, 'd) list_changes = "'k list \<times> 'v list \<times> 'd list"

fun push_removed :: "'k \<Rightarrow> ('k, 'v, 'd) list_changes \<Rightarrow> ('k, 'v, 'd) list_changes" where
  "push_removed i (removed, entered, changed) = (i # removed, entered, changed)"

fun push_entered :: "'v \<Rightarrow> ('k, 'v, 'd) list_changes \<Rightarrow> ('k, 'v, 'd) list_changes" where
  "push_entered v (removed, entered, changed) = (removed, v # entered, changed)"

fun push_changed :: "'d option \<Rightarrow> ('k, 'v, 'd) list_changes \<Rightarrow> ('k, 'v, 'd) list_changes" where
  "push_changed None changes = changes"
| "push_changed (Some d) (removed, entered, changed) = (removed, entered, d # changed)"

fun diff_loop :: "('v \<Rightarrow> 'k::linorder) \<Rightarrow> ('v \<Rightarrow> 'v \<Rightarrow> 'd option throws) \<Rightarrow> 'v list \<Rightarrow> 'v list
    \<Rightarrow> ('k, 'v, 'd) list_changes throws" where
  "diff_loop key build [] [] = Inr ([], [], [])"
| "diff_loop key build (b # base) [] =
     bind_throws (diff_loop key build base []) (\<lambda>rest. Inr (push_removed (key b) rest))"
| "diff_loop key build [] (c # current) =
     bind_throws (diff_loop key build [] current) (\<lambda>rest. Inr (push_entered c rest))"
| "diff_loop key build (b # base) (c # current) =
     (if key b < key c
      then bind_throws (diff_loop key build base (c # current)) (\<lambda>rest. Inr (push_removed (key b) rest))
      else if key c < key b
      then bind_throws (diff_loop key build (b # base) current) (\<lambda>rest. Inr (push_entered c rest))
      else bind_throws (build b c) (\<lambda>delta.
           bind_throws (diff_loop key build base current) (\<lambda>rest. Inr (push_changed delta rest))))"

definition BuildDeltaPayload ::
    "u32 \<Rightarrow> u32 \<Rightarrow> quantized_view \<Rightarrow> quantized_view \<Rightarrow> snapshot_payload throws" where
  "BuildDeltaPayload baseSnapshotId snapshotId base current =
     (let payload = payload_with_header
            \<lparr>ph_kind = KindDelta, ph_valueEncoding = EncodingQuantized,
             ph_baseSnapshotId = baseSnapshotId, ph_payloadSnapshotId = snapshotId\<rparr>;
          payload = payload\<lparr>sp_globalDelta := BuildGlobalDelta (vw_global base) (vw_global current)\<rparr>
      in bind_throws (diff_loop qa_id BuildActorDelta (vw_actors base) (vw_actors current))
           (\<lambda>(removedActors, actorValues, actorDeltas).
         bind_throws (diff_loop ql_id BuildLootDelta (vw_loot base) (vw_loot current))
           (\<lambda>(removedLoot, lootValues, lootDeltas).
         Inr (payload\<lparr>sp_removedActors := removedActors, sp_actorValues := actorValues,
                      sp_actorDeltas := actorDeltas, sp_removedLoot := removedLoot,
                      sp_lootValues := lootValues, sp_lootDeltas := lootDeltas\<rparr>))))"

section \<open>Applying a delta\<close>

definition ApplyGlobalDelta :: "quantized_global \<Rightarrow> global_delta \<Rightarrow> quantized_global" where
  "ApplyGlobalDelta target delta =
     (let hasField = HasField (gd_fields delta);
          target = (if hasField GlobalPhase then target\<lparr>qg_phase := gd_phase delta\<rparr> else target);
          target = (if hasField GlobalSafeZone
                    then target\<lparr>qg_safeZoneStage := gd_safeZoneStage delta,
                                qg_safeZoneCenter := gd_safeZoneCenter delta,
                                qg_safeZoneRadius := gd_safeZoneRadius delta\<rparr>
                    else target);
          target = (if hasField GlobalAliveContenders
                    then target\<lparr>qg_aliveContenders := gd_aliveContenders delta\<rparr> else target);
          target = (if hasField GlobalResult
                    then target\<lparr>qg_result := gd_result delta, qg_hasResult := gd_hasResult delta\<rparr>
                    else target)
      in if hasField GlobalEventChecksum
         then target\<lparr>qg_eventChecksum := gd_eventChecksum delta\<rparr> else target)"

text \<open>\<^verbatim>\<open>FindById\<close>: \<^verbatim>\<open>std::lower_bound\<close> on a sorted vector, as the index
  of the first value that is not before. The loops of the source are the same for actors and for
  loot.\<close>

definition FindById :: "('v \<Rightarrow> 'k::linorder) \<Rightarrow> 'v list \<Rightarrow> 'k \<Rightarrow> nat" where
  "FindById key vs i = length (takeWhile (\<lambda>v. key v < i) vs)"

definition found_at :: "('v \<Rightarrow> 'k::linorder) \<Rightarrow> 'v list \<Rightarrow> 'k \<Rightarrow> nat \<Rightarrow> bool" where
  "found_at key vs i n \<longleftrightarrow> n < length vs \<and> key (vs ! n) = i"

fun remove_all_by :: "('v \<Rightarrow> 'k::linorder) \<Rightarrow> 'k list \<Rightarrow> 'v list \<Rightarrow> 'v list throws" where
  "remove_all_by key [] vs = Inr vs"
| "remove_all_by key (i # removed) vs =
     (let found = FindById key vs i
      in if \<not> found_at key vs i found then Inl Invalid_argument
         else remove_all_by key removed (take found vs @ drop (Suc found) vs))"

fun enter_all_by :: "('v \<Rightarrow> 'k::linorder) \<Rightarrow> 'v list \<Rightarrow> 'v list \<Rightarrow> 'v list throws" where
  "enter_all_by key [] vs = Inr vs"
| "enter_all_by key (v # entered) vs =
     (let insertion = FindById key vs (key v)
      in if found_at key vs (key v) insertion then Inl Invalid_argument
         else enter_all_by key entered (take insertion vs @ v # drop insertion vs))"

fun change_all_by :: "('v \<Rightarrow> 'k::linorder) \<Rightarrow> ('d \<Rightarrow> 'k) \<Rightarrow> ('d \<Rightarrow> 'v \<Rightarrow> 'v) \<Rightarrow> 'd list \<Rightarrow> 'v list \<Rightarrow> 'v list throws" where
  "change_all_by key dkey update [] vs = Inr vs"
| "change_all_by key dkey update (d # changes) vs =
     (let found = FindById key vs (dkey d)
      in if \<not> found_at key vs (dkey d) found then Inl Invalid_argument
         else change_all_by key dkey update changes (vs[found := update d (vs ! found)]))"

text \<open>The bodies of \<^verbatim>\<open>ChangeActors\<close> and \<^verbatim>\<open>ChangeLoot\<close>.\<close>

definition ChangeActor :: "actor_delta \<Rightarrow> quantized_actor \<Rightarrow> quantized_actor" where
  "ChangeActor change actor =
     (let hasField = HasField (ad_fields change);
          actor = (if hasField ActorPosition then actor\<lparr>qa_position := ad_position change\<rparr> else actor);
          actor = (if hasField ActorHealthAlive
                   then actor\<lparr>qa_health := ad_health change, qa_alive := ad_alive change\<rparr> else actor);
          actor = (if hasField ActorWeaponCooldown
                   then actor\<lparr>qa_weapon := ad_weapon change,
                              qa_cooldownTicksRemaining := ad_cooldownTicksRemaining change\<rparr>
                   else actor)
      in if hasField ActorEliminations then actor\<lparr>qa_eliminations := ad_eliminations change\<rparr> else actor)"

definition ChangeLootValue :: "loot_delta \<Rightarrow> quantized_loot \<Rightarrow> quantized_loot" where
  "ChangeLootValue change loot = loot\<lparr>ql_active := ld_active change\<rparr>"

definition RemoveActors :: "quantized_actor list \<Rightarrow> entity_id list \<Rightarrow> quantized_actor list throws" where
  "RemoveActors actors removed = remove_all_by qa_id removed actors"

definition EnterActors :: "quantized_actor list \<Rightarrow> quantized_actor list \<Rightarrow> quantized_actor list throws" where
  "EnterActors actors entered = enter_all_by qa_id entered actors"

definition ChangeActors :: "quantized_actor list \<Rightarrow> actor_delta list \<Rightarrow> quantized_actor list throws" where
  "ChangeActors actors changes = change_all_by qa_id ad_id ChangeActor changes actors"

definition RemoveLoot :: "quantized_loot list \<Rightarrow> u32 list \<Rightarrow> quantized_loot list throws" where
  "RemoveLoot loot removed = remove_all_by ql_id removed loot"

definition EnterLoot :: "quantized_loot list \<Rightarrow> quantized_loot list \<Rightarrow> quantized_loot list throws" where
  "EnterLoot loot entered = enter_all_by ql_id entered loot"

definition ChangeLoot :: "quantized_loot list \<Rightarrow> loot_delta list \<Rightarrow> quantized_loot list throws" where
  "ChangeLoot loot changes = change_all_by ql_id ld_id ChangeLootValue changes loot"

definition ApplyDelta :: "quantized_view \<Rightarrow> snapshot_payload \<Rightarrow> quantized_view throws" where
  "ApplyDelta base payload =
     (let global = ApplyGlobalDelta (vw_global base) (sp_globalDelta payload)
      in bind_throws (RemoveActors (vw_actors base) (sp_removedActors payload)) (\<lambda>actors.
         bind_throws (EnterActors actors (sp_actorValues payload)) (\<lambda>actors.
         bind_throws (ChangeActors actors (sp_actorDeltas payload)) (\<lambda>actors.
         bind_throws (RemoveLoot (vw_loot base) (sp_removedLoot payload)) (\<lambda>loot.
         bind_throws (EnterLoot loot (sp_lootValues payload)) (\<lambda>loot.
         bind_throws (ChangeLoot loot (sp_lootDeltas payload)) (\<lambda>loot.
         Inr \<lparr>vw_global = global, vw_actors = actors, vw_loot = loot\<rparr>)))))))"

end
