(* ===== verification/InterestGrid.thy ===== *)
theory InterestGrid
  imports Quantization SnapshotDelta
begin

text \<open>
  apps/game\_server/src/InterestGrid.cpp, with the vectors and boxes of
  simulation/src/Math2.cpp that it uses: which actors and which loot a recipient sees. A world is
  sorted into cells, and a query scans the cells around its center. Column and row numbers are
  unbounded integers: the constructor refuses a grid whose cells \<^verbatim>\<open>std::size_t\<close>
  cannot count. The memory of the cells is taken to be available.
\<close>

section \<open>Vectors and boxes\<close>

definition vec2_sub :: "network_vec2 \<Rightarrow> network_vec2 \<Rightarrow> network_vec2" where
  "vec2_sub left right = \<lparr>nv_x = f32_sub (nv_x left) (nv_x right), nv_z = f32_sub (nv_z left) (nv_z right)\<rparr>"

definition Dot :: "network_vec2 \<Rightarrow> network_vec2 \<Rightarrow> f32" where
  "Dot left right = f32_add (f32_mul (nv_x left) (nv_x right)) (f32_mul (nv_z left) (nv_z right))"

definition LengthSquared :: "network_vec2 \<Rightarrow> f32" where "LengthSquared v = Dot v v"

record aabb2 =
  bx_minimum :: network_vec2
  bx_maximum :: network_vec2

definition Aabb2_Create :: "network_vec2 \<Rightarrow> network_vec2 \<Rightarrow> aabb2 throws" where
  "Aabb2_Create minimum maximum =
     (if \<not> IsFinite minimum \<or> \<not> IsFinite maximum
         \<or> f32_less (nv_x maximum) (nv_x minimum) \<or> f32_less (nv_z maximum) (nv_z minimum)
      then Inl Invalid_argument
      else Inr \<lparr>bx_minimum = minimum, bx_maximum = maximum\<rparr>)"

definition Aabb2_Contains :: "aabb2 \<Rightarrow> network_vec2 \<Rightarrow> bool" where
  "Aabb2_Contains box point \<longleftrightarrow> IsFinite point
     \<and> f32_le (nv_x (bx_minimum box)) (nv_x point) \<and> f32_le (nv_x point) (nv_x (bx_maximum box))
     \<and> f32_le (nv_z (bx_minimum box)) (nv_z point) \<and> f32_le (nv_z point) (nv_z (bx_maximum box))"

section \<open>The grid\<close>

record visible_set =
  vs_actors :: "entity_id list"
  vs_loot :: "u32 list"

record grid_cell =
  cl_actors :: "(entity_id \<times> network_vec2) list"
  cl_loot :: "(u32 \<times> network_vec2) list"

record interest_grid =
  ig_bounds :: aabb2
  ig_cellSize :: f32
  ig_columns :: int
  ig_rows :: int
  ig_cells :: "grid_cell list"

definition HasDuplicateIds :: "('v \<Rightarrow> 'k::linorder) \<Rightarrow> 'v list \<Rightarrow> bool" where
  "HasDuplicateIds key vs = adjacent_equal (\<lambda>i. i) (sort (map key vs))"

definition ValidatePreviousIds :: "'k::linorder list \<Rightarrow> unit throws" where
  "ValidatePreviousIds ids =
     (if \<not> sorted ids \<or> adjacent_equal (\<lambda>i. i) ids then Inl Invalid_argument else Inr ())"

definition DistanceSquared :: "network_vec2 \<Rightarrow> network_vec2 \<Rightarrow> f32" where
  "DistanceSquared left right = LengthSquared (vec2_sub left right)"

definition SortAndDeduplicate :: "'k::linorder list \<Rightarrow> 'k list" where
  "SortAndDeduplicate ids = remdups_adj (sort ids)"

text \<open>The constructor divides as \<^verbatim>\<open>double\<close>, and 2 to the 64 is
  \<^verbatim>\<open>static_cast<double>\<close> of the largest \<^verbatim>\<open>std::size_t\<close>. An extent
  that overflows has infinitely many columns, too many.\<close>

definition InterestGrid :: "aabb2 \<Rightarrow> f32 \<Rightarrow> interest_grid throws" where
  "InterestGrid bounds cellSize =
     (let extent = vec2_sub (bx_maximum bounds) (bx_minimum bounds)
      in if \<not> isfinite cellSize \<or> f32_le cellSize 0 \<or> f32_le (nv_x extent) 0 \<or> f32_le (nv_z extent) 0
         then Inl Invalid_argument
         else if f32_inf (nv_x extent) \<or> f32_inf (nv_z extent) then Inl Length_error
         else
           let columns = \<lceil>f64 (f32_val (nv_x extent) / f32_val cellSize)\<rceil>;
               rows = \<lceil>f64 (f32_val (nv_z extent) / f32_val cellSize)\<rceil>
           in if columns < 1 \<or> rows < 1 \<or> 2 ^ 64 < columns \<or> 2 ^ 64 < rows then Inl Length_error
              else if (2 ^ 64 - 1) div rows < columns then Inl Length_error
              else Inr \<lparr>ig_bounds = bounds, ig_cellSize = cellSize, ig_columns = columns, ig_rows = rows,
                        ig_cells = replicate (nat (columns * rows)) \<lparr>cl_actors = [], cl_loot = []\<rparr>\<rparr>)"

text \<open>\<^verbatim>\<open>std::floor\<close>, its maximum with zero and the conversion to an integer, of a
  quotient that is finite for a position inside the bounds.\<close>

definition cell_of :: "f32 \<Rightarrow> f32 \<Rightarrow> f32 \<Rightarrow> int \<Rightarrow> int" where
  "cell_of minimum cellSize v count =
     (let relative = f32_div (f32_sub v minimum) cellSize
      in min (max 0 \<lfloor>f32_val relative\<rfloor>) (count - 1))"

definition Column :: "interest_grid \<Rightarrow> f32 \<Rightarrow> int" where
  "Column grid x = cell_of (nv_x (bx_minimum (ig_bounds grid))) (ig_cellSize grid) x (ig_columns grid)"

definition Row :: "interest_grid \<Rightarrow> f32 \<Rightarrow> int" where
  "Row grid z = cell_of (nv_z (bx_minimum (ig_bounds grid))) (ig_cellSize grid) z (ig_rows grid)"

definition CellIndex :: "interest_grid \<Rightarrow> network_vec2 \<Rightarrow> int" where
  "CellIndex grid position = Row grid (nv_z position) * ig_columns grid + Column grid (nv_x position)"

definition push_actor :: "interest_grid \<Rightarrow> network_actor \<Rightarrow> grid_cell list \<Rightarrow> grid_cell list" where
  "push_actor grid actor cells =
     (let i = nat (CellIndex grid (na_position actor))
      in cells[i := (cells ! i)\<lparr>cl_actors := cl_actors (cells ! i) @ [(na_id actor, na_position actor)]\<rparr>])"

definition push_loot :: "interest_grid \<Rightarrow> network_loot \<Rightarrow> grid_cell list \<Rightarrow> grid_cell list" where
  "push_loot grid loot cells =
     (if nl_active loot
      then let i = nat (CellIndex grid (nl_position loot))
           in cells[i := (cells ! i)\<lparr>cl_loot := cl_loot (cells ! i) @ [(nl_id loot, nl_position loot)]\<rparr>]
      else cells)"

definition sort_cell :: "grid_cell \<Rightarrow> grid_cell" where
  "sort_cell cell = \<lparr>cl_actors = sort_key fst (cl_actors cell), cl_loot = sort_key fst (cl_loot cell)\<rparr>"

text \<open>A position is checked to be finite first; a loop throws at the first that is refused.\<close>

definition check_position :: "interest_grid \<Rightarrow> network_vec2 \<Rightarrow> unit throws" where
  "check_position grid position =
     (if \<not> IsFinite position then Inl Invalid_argument
      else if \<not> Aabb2_Contains (ig_bounds grid) position then Inl Out_of_range else Inr ())"

fun check_positions :: "interest_grid \<Rightarrow> network_vec2 list \<Rightarrow> unit throws" where
  "check_positions grid [] = Inr ()"
| "check_positions grid (p # ps) = bind_throws (check_position grid p) (\<lambda>_. check_positions grid ps)"

definition Rebuild :: "game_snapshot \<Rightarrow> interest_grid \<Rightarrow> interest_grid throws" where
  "Rebuild world grid =
     (if MaxSnapshotActors < length (gs_actors world) \<or> MaxSnapshotLoot < length (gs_loot world)
      then Inl Length_error
      else if gs_actors world \<noteq> [] \<and> HasDuplicateIds na_id (gs_actors world)
              \<or> gs_loot world \<noteq> [] \<and> HasDuplicateIds nl_id (gs_loot world)
      then Inl Invalid_argument
      else
        bind_throws (check_positions grid (map na_position (gs_actors world))) (\<lambda>_.
        bind_throws (check_positions grid (map nl_position (gs_loot world))) (\<lambda>_.
          let rebuilt = replicate (length (ig_cells grid)) \<lparr>cl_actors = [], cl_loot = []\<rparr>;
              rebuilt = fold (push_actor grid) (gs_actors world) rebuilt;
              rebuilt = fold (push_loot grid) (gs_loot world) rebuilt
          in Inr (grid\<lparr>ig_cells := map sort_cell rebuilt\<rparr>))))"

section \<open>Queries\<close>

text \<open>The entries of a cell that are near enough: those that were visible may be a bit farther.\<close>

definition visible_entries ::
    "'k list \<Rightarrow> network_vec2 \<Rightarrow> f32 \<Rightarrow> f32 \<Rightarrow> ('k \<times> network_vec2) list \<Rightarrow> 'k list" where
  "visible_entries previous center enterRadiusSquared leaveRadiusSquared entries =
     map fst (filter (\<lambda>(i, position).
       let maximumDistance = (if i \<in> set previous then leaveRadiusSquared else enterRadiusSquared)
       in f32_le (DistanceSquared position center) maximumDistance) entries)"

definition scanned_cells :: "interest_grid \<Rightarrow> int \<Rightarrow> int \<Rightarrow> int \<Rightarrow> int \<Rightarrow> grid_cell list" where
  "scanned_cells grid minimumRow maximumRow minimumColumn maximumColumn =
     concat (map (\<lambda>row. map (\<lambda>column. ig_cells grid ! nat (row * ig_columns grid + column))
                          [minimumColumn..maximumColumn])
                 [minimumRow..maximumRow])"

definition UpdateVisibility ::
    "interest_grid \<Rightarrow> visible_set \<Rightarrow> network_vec2 \<Rightarrow> f32 \<Rightarrow> f32 \<Rightarrow> visible_set throws" where
  "UpdateVisibility grid previous center enterRadius leaveRadius =
     bind_throws (ValidatePreviousIds (vs_actors previous)) (\<lambda>_.
     bind_throws (ValidatePreviousIds (vs_loot previous)) (\<lambda>_.
     if \<not> IsFinite center \<or> \<not> isfinite enterRadius \<or> \<not> isfinite leaveRadius
        \<or> f32_le enterRadius 0 \<or> f32_less leaveRadius enterRadius
     then Inl Invalid_argument
     else if \<not> Aabb2_Contains (ig_bounds grid) center then Inl Out_of_range
     else
       let boundsMinimum = bx_minimum (ig_bounds grid);
           boundsMaximum = bx_maximum (ig_bounds grid);
           queryMinimum = \<lparr>nv_x = f32_max (nv_x boundsMinimum) (f32_sub (nv_x center) leaveRadius),
                           nv_z = f32_max (nv_z boundsMinimum) (f32_sub (nv_z center) leaveRadius)\<rparr>;
           queryMaximum = \<lparr>nv_x = f32_min (nv_x boundsMaximum) (f32_add (nv_x center) leaveRadius),
                           nv_z = f32_min (nv_z boundsMaximum) (f32_add (nv_z center) leaveRadius)\<rparr>;
           minimumColumn = Column grid (nv_x queryMinimum);
           maximumColumn = Column grid (nv_x queryMaximum);
           minimumRow = Row grid (nv_z queryMinimum);
           maximumRow = Row grid (nv_z queryMaximum);
           enterRadiusSquared = f32_mul enterRadius enterRadius;
           leaveRadiusSquared = f32_mul leaveRadius leaveRadius;
           cells = scanned_cells grid minimumRow maximumRow minimumColumn maximumColumn
       in Inr \<lparr>vs_actors = SortAndDeduplicate (concat (map (\<lambda>cell. visible_entries (vs_actors previous)
                 center enterRadiusSquared leaveRadiusSquared (cl_actors cell)) cells)),
               vs_loot = SortAndDeduplicate (concat (map (\<lambda>cell. visible_entries (vs_loot previous)
                 center enterRadiusSquared leaveRadiusSquared (cl_loot cell)) cells))\<rparr>))"

end
