(* ===== verification/FloatOps.thy ===== *)
theory FloatOps
  imports Quantization
begin

text \<open>
  The operations on floats as rounded operations on numbers, overflow to infinity included.
\<close>

lemma f32_of_rat_inf:
  assumes "2 powi 128 \<le> round_pos 24 (- 149) \<bar>x\<bar>"
  shows "f32_magnitude (f32_of_rat negative x) = 0x7F800000" "f32_sign (f32_of_rat negative x) = negative"
  using assms f32_magnitude_with_sign [of "0x7F800000" negative] by (simp_all add: f32_of_rat_def Let_def)

lemma not_nan_of_rat [simp]: "\<not> f32_nan (f32_of_rat negative x)"
proof (cases "round_pos 24 (- 149) \<bar>x\<bar> < 2 powi 128")
  case True
  then show ?thesis using f32_of_rat_val(1) isfinite_not_nan(1) by blast
next
  case False
  then show ?thesis by (simp add: f32_nan_iff f32_of_rat_inf)
qed

lemma f32_sign_of_rat [simp]: "f32_sign (f32_of_rat negative x) = negative"
  by (cases "round_pos 24 (- 149) \<bar>x\<bar> < 2 powi 128") (simp_all add: f32_of_rat_val(3) f32_of_rat_inf(2))

lemma round_bits_zero: "round_bits p emin 0 = 0"
  by (simp add: round_bits_def round_pos_def)

lemma abs_round_bits: "\<bar>round_bits p emin x\<bar> = round_pos p emin \<bar>x\<bar>"
  using round_pos_nonneg [of p emin] by (simp add: round_bits_def abs_of_nonneg)

lemma isfinite_of_rat: "isfinite (f32_of_rat negative x) \<longleftrightarrow> \<bar>round_bits 24 (- 149) x\<bar> < 2 powi 128"
proof (cases "round_pos 24 (- 149) \<bar>x\<bar> < 2 powi 128")
  case True
  then show ?thesis using f32_of_rat_val(1) [OF True] by (simp add: abs_round_bits)
next
  case False
  then show ?thesis by (simp add: isfinite_iff f32_of_rat_inf abs_round_bits)
qed

lemma f32_val_of_rat:
  assumes "isfinite (f32_of_rat (x < 0) x)"
  shows "f32_val (f32_of_rat (x < 0) x) = round_bits 24 (- 149) x"
proof -
  have "round_pos 24 (- 149) \<bar>x\<bar> < 2 powi 128" using assms by (simp add: isfinite_of_rat abs_round_bits)
  from f32_of_rat_val(2) [OF this, of "x < 0"] show ?thesis by (auto simp: round_bits_def)
qed

section \<open>Zero and negation\<close>

lemma with_sign_zero: "isfinite (with_sign s 0)" "f32_val (with_sign s 0) = 0" "\<not> f32_nan (with_sign s 0)"
  "f32_sign (with_sign s 0) = s"
  using f32_magnitude_with_sign [of 0 s] by (cases s; simp add: isfinite_iff f32_nan_iff f32_val_def)+

lemma f32_zero [simp]: "isfinite 0" "f32_val 0 = 0" "f32_sign 0 = False" "f32_magnitude 0 = 0" "f32_rank 0 = 0"
  "\<not> f32_nan 0"
  by (simp_all add: isfinite_def f32_val_def f32_sign_def f32_magnitude_def f32_rank_def f32_nan_def)

lemma f32_neg_parts: "f32_magnitude (f32_neg a) = f32_magnitude a" "f32_sign (f32_neg a) = (\<not> f32_sign a)"
proof -
  have "take_bit 31 (0x80000000 :: int) = 0" by simp
  then have "take_bit 31 (uint a XOR 0x80000000) = take_bit 31 (uint a)" by (simp add: take_bit_xor)
  then show "f32_magnitude (f32_neg a) = f32_magnitude a" by (simp add: magnitude_mask f32_neg_def uint_xor)
  have "bit (0x80000000 :: f32) 31" by simp
  then show "f32_sign (f32_neg a) = (\<not> f32_sign a)" by (simp add: f32_sign_def f32_neg_def bit_xor_iff)
qed

lemma f32_neg_simps [simp]: "isfinite (f32_neg a) = isfinite a" "f32_nan (f32_neg a) = f32_nan a"
  "f32_inf (f32_neg a) = f32_inf a" "f32_val (f32_neg a) = - f32_val a"
  by (simp_all add: isfinite_iff f32_nan_iff f32_inf_def f32_val_def f32_neg_parts)

section \<open>Sums, products and quotients\<close>

lemma f32_add_finite:
  assumes "isfinite a" and "isfinite b"
  shows "isfinite (f32_add a b) \<longleftrightarrow> \<bar>round_bits 24 (- 149) (f32_val a + f32_val b)\<bar> < 2 powi 128"
    and "isfinite (f32_add a b) \<Longrightarrow> f32_val (f32_add a b) = round_bits 24 (- 149) (f32_val a + f32_val b)"
    and "\<not> f32_nan (f32_add a b)"
proof -
  let ?s = "f32_val a + f32_val b"
  have add: "f32_add a b = (if ?s = 0 then with_sign (f32_sign a \<and> f32_sign b) 0 else f32_of_rat (?s < 0) ?s)"
    using assms by (simp add: f32_add_def Let_def)
  have zero: "round_bits 24 (- 149) 0 = 0" by (simp add: round_bits_def round_pos_def)
  show "isfinite (f32_add a b) \<longleftrightarrow> \<bar>round_bits 24 (- 149) ?s\<bar> < 2 powi 128"
    by (simp add: add with_sign_zero isfinite_of_rat zero)
  show "f32_val (f32_add a b) = round_bits 24 (- 149) ?s" if "isfinite (f32_add a b)"
    using that by (auto simp: add with_sign_zero zero f32_val_of_rat)
  show "\<not> f32_nan (f32_add a b)" by (simp add: add with_sign_zero)
qed

lemma f32_sub_finite:
  assumes "isfinite a" and "isfinite b"
  shows "isfinite (f32_sub a b) \<longleftrightarrow> \<bar>round_bits 24 (- 149) (f32_val a - f32_val b)\<bar> < 2 powi 128"
    and "isfinite (f32_sub a b) \<Longrightarrow> f32_val (f32_sub a b) = round_bits 24 (- 149) (f32_val a - f32_val b)"
    and "\<not> f32_nan (f32_sub a b)"
  using f32_add_finite [of a "f32_neg b"] assms by (simp_all add: f32_sub_def)

lemma f32_sub_self: "isfinite a \<Longrightarrow> f32_sub a a = 0"
  by (simp add: f32_sub_def f32_add_def f32_neg_parts with_sign_def)

lemma f32_mul_square:
  assumes "isfinite a"
  shows "\<not> f32_nan (f32_mul a a)" "\<not> f32_sign (f32_mul a a)"
  using assms by (simp_all add: f32_mul_def Let_def)

lemma f32_mul_0: "f32_mul 0 0 = 0"
proof -
  have "\<not> f32_inf 0" by (simp add: f32_inf_def)
  then show ?thesis
    by (simp add: f32_mul_def f32_of_rat_def round_pos_def encode_magnitude_def with_sign_def Let_def)
qed

lemma f32_le_zero: "\<not> f32_nan a \<Longrightarrow> \<not> f32_sign a \<Longrightarrow> f32_le 0 a"
  using f32_magnitude_bounds [of a]
  by (auto simp: f32_le_def f32_less_def f32_eq_def f32_rank_magnitude)

lemma round_signed:
  assumes "n \<Longrightarrow> x \<le> 0" and "\<not> n \<Longrightarrow> 0 \<le> x"
  shows "(if n then - round_pos p e \<bar>x\<bar> else round_pos p e \<bar>x\<bar>) = round_bits p e x"
proof (cases "x = 0")
  case True
  then show ?thesis by (simp add: round_bits_def round_pos_def)
next
  case False
  then show ?thesis using assms by (auto simp: round_bits_def)
qed

lemma f32_div_finite:
  assumes "isfinite a" and "isfinite b" and "0 < f32_val b"
  shows "isfinite (f32_div a b) \<longleftrightarrow> \<bar>round_bits 24 (- 149) (f32_val a / f32_val b)\<bar> < 2 powi 128"
    and "isfinite (f32_div a b) \<Longrightarrow> f32_val (f32_div a b) = round_bits 24 (- 149) (f32_val a / f32_val b)"
proof -
  let ?q = "f32_val a / f32_val b"
  have sign: "\<not> f32_sign b"
    using assms(3) magnitude_val_nonneg [of "f32_magnitude b"] f32_magnitude_bounds [of b]
    by (auto simp: f32_val_def split: if_splits)
  have "f32_magnitude b \<noteq> 0" using assms(3) by (auto simp: f32_val_def split: if_splits)
  then have div: "f32_div a b = f32_of_rat (f32_sign a) ?q" using assms sign by (simp add: f32_div_def Let_def)
  show iff: "isfinite (f32_div a b) \<longleftrightarrow> \<bar>round_bits 24 (- 149) ?q\<bar> < 2 powi 128"
    by (simp add: div isfinite_of_rat)
  assume fin: "isfinite (f32_div a b)"
  then have fin': "round_pos 24 (- 149) \<bar>?q\<bar> < 2 powi 128" using iff by (simp add: abs_round_bits)
  have a: "f32_val a = (if f32_sign a then - magnitude_val (f32_magnitude a) else magnitude_val (f32_magnitude a))"
    "0 \<le> magnitude_val (f32_magnitude a)"
    using magnitude_val_nonneg f32_magnitude_bounds by (simp_all add: f32_val_def)
  then have "f32_sign a \<Longrightarrow> ?q \<le> 0" "\<not> f32_sign a \<Longrightarrow> 0 \<le> ?q"
    using assms(3) by (auto simp: divide_nonpos_pos)
  then have "(if f32_sign a then - round_pos 24 (- 149) \<bar>?q\<bar> else round_pos 24 (- 149) \<bar>?q\<bar>) = round_bits 24 (- 149) ?q"
    by (rule round_signed)
  then show "f32_val (f32_div a b) = round_bits 24 (- 149) ?q"
    using f32_of_rat_val(2) [OF fin', of "f32_sign a"] by (simp add: div)
qed

section \<open>Points between others\<close>

lemma f32_val_finite_bound: "isfinite a \<Longrightarrow> \<bar>f32_val a\<bar> < 2 powi 128"
proof -
  assume "isfinite a"
  then have "magnitude_val (f32_magnitude a) < magnitude_val 0x7F800000"
    using f32_magnitude_bounds [of a] by (simp add: magnitude_val_less_iff isfinite_iff)
  moreover have "magnitude_val 0x7F800000 = 2 powi 128" by (simp add: magnitude_val_def)
  ultimately show ?thesis
    using magnitude_val_nonneg [of "f32_magnitude a"] f32_magnitude_bounds [of a] by (simp add: f32_val_def)
qed

lemma f32_max_between:
  assumes "isfinite lo" and "isfinite c" and "isfinite r" and "f32_val lo \<le> f32_val c" and "0 \<le> f32_val r"
  shows "isfinite (f32_max lo (f32_sub c r)) \<and> f32_val lo \<le> f32_val (f32_max lo (f32_sub c r))
    \<and> f32_val (f32_max lo (f32_sub c r)) \<le> f32_val c"
proof (cases "isfinite (f32_sub c r)")
  case True
  have "f32_val (f32_sub c r) \<le> f32_val c"
    using f32_sub_finite(2) [OF assms(2,3) True] round_bits_mono [of "f32_val c - f32_val r" "f32_val c" 24 "- 149"] assms(5)
    by (simp add: round_f32_val)
  then show ?thesis using True assms by (auto simp: f32_max_def f32_less_iff)
next
  case False
  let ?s = "f32_sub c r" and ?x = "f32_val c - f32_val r"
  have big: "2 powi 128 \<le> \<bar>round_bits 24 (- 149) ?x\<bar>" using False f32_sub_finite(1) [OF assms(2,3)] by simp
  have "round_bits 24 (- 149) ?x \<le> f32_val c"
    using round_bits_mono [of ?x "f32_val c" 24 "- 149"] assms(5) by (simp add: round_f32_val)
  then have "round_bits 24 (- 149) ?x < 2 powi 128" using f32_val_finite_bound [OF assms(2)] by linarith
  then have neg: "round_bits 24 (- 149) ?x < 0" using big by linarith
  then have x: "?x < 0" using round_bits_mono [of 0 ?x 24 "- 149"] round_bits_zero [of 24 "- 149"] by linarith
  have "?s = f32_of_rat True ?x" using assms(2,3) x by (simp add: f32_sub_def f32_add_def Let_def)
  then have "f32_rank ?s < f32_rank lo"
    using f32_of_rat_inf [of ?x True] big assms(1) f32_magnitude_bounds [of lo]
    by (simp add: f32_rank_magnitude abs_round_bits isfinite_iff)
  then have "\<not> f32_less lo ?s" by (simp add: f32_less_def)
  then show ?thesis using assms by (simp add: f32_max_def)
qed

lemma f32_min_between:
  assumes "isfinite hi" and "isfinite c" and "isfinite r" and "f32_val c \<le> f32_val hi" and "0 \<le> f32_val r"
  shows "isfinite (f32_min hi (f32_add c r)) \<and> f32_val c \<le> f32_val (f32_min hi (f32_add c r))
    \<and> f32_val (f32_min hi (f32_add c r)) \<le> f32_val hi"
proof (cases "isfinite (f32_add c r)")
  case True
  have "f32_val c \<le> f32_val (f32_add c r)"
    using f32_add_finite(2) [OF assms(2,3) True] round_bits_mono [of "f32_val c" "f32_val c + f32_val r" 24 "- 149"] assms(5)
    by (simp add: round_f32_val)
  then show ?thesis using True assms by (auto simp: f32_min_def f32_less_iff)
next
  case False
  let ?s = "f32_add c r" and ?x = "f32_val c + f32_val r"
  have big: "2 powi 128 \<le> \<bar>round_bits 24 (- 149) ?x\<bar>" using False f32_add_finite(1) [OF assms(2,3)] by simp
  have "f32_val c \<le> round_bits 24 (- 149) ?x"
    using round_bits_mono [of "f32_val c" ?x 24 "- 149"] assms(5) by (simp add: round_f32_val)
  then have "- (2 powi 128) < round_bits 24 (- 149) ?x" using f32_val_finite_bound [OF assms(2)] by linarith
  then have pos: "0 < round_bits 24 (- 149) ?x" using big by linarith
  then have x: "\<not> ?x < 0" "?x \<noteq> 0"
    using round_bits_mono [of ?x 0 24 "- 149"] round_bits_zero [of 24 "- 149"] by linarith+
  have "?s = f32_of_rat False ?x" using assms(2,3) x by (simp add: f32_add_def Let_def)
  then have "f32_rank hi < f32_rank ?s"
    using f32_of_rat_inf [of ?x False] big assms(1) f32_magnitude_bounds [of hi]
    by (simp add: f32_rank_magnitude abs_round_bits isfinite_iff)
  then have "\<not> f32_less ?s hi" by (simp add: f32_less_def)
  then show ?thesis using assms by (simp add: f32_min_def)
qed

end
