(* ===== verification/SnapshotDeltaLemmas.thy ===== *)
theory SnapshotDeltaLemmas
  imports SnapshotDelta
begin

text \<open>
  Sorted vectors as maps from identifiers, and the theorem of this component: applying a delta to
  the view it was built from gives the view it was built for, and the payload of the delta passes
  the encoder's checks.
\<close>

section \<open>Sorted vectors as maps\<close>

definition canonical_by :: "('v \<Rightarrow> 'k::linorder) \<Rightarrow> 'v list \<Rightarrow> bool" where
  "canonical_by key vs \<longleftrightarrow> sorted_wrt (<) (map key vs)"

fun lookup_by :: "('v \<Rightarrow> 'k) \<Rightarrow> 'v list \<Rightarrow> 'k \<Rightarrow> 'v option" where
  "lookup_by key [] i = None"
| "lookup_by key (v # vs) i = (if key v = i then Some v else lookup_by key vs i)"

lemma canonical_by_Nil [simp]: "canonical_by key []"
  by (simp add: canonical_by_def)

lemma canonical_by_Cons [simp]:
  "canonical_by key (v # vs) \<longleftrightarrow> (\<forall>w \<in> set vs. key v < key w) \<and> canonical_by key vs"
  by (auto simp: canonical_by_def)

lemma canonical_by_append [simp]:
  "canonical_by key (vs @ ws) \<longleftrightarrow>
     canonical_by key vs \<and> canonical_by key ws \<and> (\<forall>v \<in> set vs. \<forall>w \<in> set ws. key v < key w)"
  by (auto simp: canonical_by_def sorted_wrt_append)

lemma canonical_by_hd: "canonical_by key vs \<Longrightarrow> v \<in> set vs \<Longrightarrow> key (hd vs) \<le> key v"
  by (cases vs) auto

lemma canonical_by_distinct: "canonical_by key vs \<Longrightarrow> distinct (map key vs)"
  by (simp add: canonical_by_def strict_sorted_iff)

lemma lookup_by_None: "lookup_by key vs i = None \<longleftrightarrow> i \<notin> key ` set vs"
  by (induction vs) auto

lemma lookup_by_SomeD: "lookup_by key vs i = Some v \<Longrightarrow> v \<in> set vs \<and> key v = i"
  by (induction vs) (auto split: if_splits)

lemma lookup_by_append [simp]:
  "lookup_by key (vs @ ws) i = (case lookup_by key vs i of None \<Rightarrow> lookup_by key ws i | Some v \<Rightarrow> Some v)"
  by (induction vs) auto

lemma in_keys_iff: "i \<in> key ` set vs \<longleftrightarrow> lookup_by key vs i \<noteq> None"
  by (simp add: lookup_by_None)

lemma lookup_by_notin [simp]: "i \<notin> key ` set vs \<Longrightarrow> lookup_by key vs i = None"
  by (simp add: lookup_by_None)

lemma lookup_by_middle: "i \<notin> key ` set as \<Longrightarrow> key v = i \<Longrightarrow> lookup_by key (as @ v # bs) i = Some v"
  by simp

lemma lookup_by_mem: "distinct (map key vs) \<Longrightarrow> v \<in> set vs \<Longrightarrow> lookup_by key vs (key v) = Some v"
  by (induction vs) auto

lemma canonical_by_lookup_set:
  "canonical_by key vs \<Longrightarrow> v \<in> set vs \<longleftrightarrow> lookup_by key vs (key v) = Some v"
  using lookup_by_mem [OF canonical_by_distinct] by (auto dest: lookup_by_SomeD)

lemma canonical_by_same_set:
  "canonical_by key vs \<Longrightarrow> canonical_by key ws \<Longrightarrow> set vs = set ws \<Longrightarrow> vs = ws"
proof (induction vs arbitrary: ws)
  case Nil
  then show ?case by simp
next
  case (Cons v vs)
  then obtain w ws' where ws: "ws = w # ws'" by (cases ws) auto
  have "v = w"
  proof (rule ccontr)
    assume "v \<noteq> w"
    then have "v \<in> set ws'" "w \<in> set vs" using Cons.prems ws by (metis list.set_intros(1) set_ConsD)+
    then have "key v < key w" "key w < key v" using Cons.prems ws by auto
    then show False by simp
  qed
  moreover have "v \<notin> set vs" "w \<notin> set ws'" using Cons.prems ws by auto
  then have "set vs = set ws'" using Cons.prems(3) ws \<open>v = w\<close> by (simp add: insert_ident)
  ultimately show ?case using Cons ws by simp
qed

lemma canonical_by_eqI:
  assumes "canonical_by key vs" and "canonical_by key ws" and "\<And>i. lookup_by key vs i = lookup_by key ws i"
  shows "vs = ws"
proof (rule canonical_by_same_set [OF assms(1,2)], rule set_eqI)
  fix v
  show "v \<in> set vs \<longleftrightarrow> v \<in> set ws"
    by (simp only: canonical_by_lookup_set [OF assms(1)] canonical_by_lookup_set [OF assms(2)] assms(3))
qed

text \<open>What \<^verbatim>\<open>FindById\<close> finds.\<close>

lemma FindById_split:
  assumes "canonical_by key vs"
  obtains (found) as v bs where "vs = as @ v # bs" "key v = i" "FindById key vs i = length as"
      "found_at key vs i (FindById key vs i)" "lookup_by key vs i = Some v"
    | (absent) as bs where "vs = as @ bs" "FindById key vs i = length as"
      "\<not> found_at key vs i (FindById key vs i)" "i \<notin> key ` set vs"
      "\<forall>v \<in> set as. key v < i" "\<forall>v \<in> set bs. i < key v"
proof -
  obtain as bs where split: "as = takeWhile (\<lambda>v. key v < i) vs" "bs = dropWhile (\<lambda>v. key v < i) vs" by blast
  then have vs: "vs = as @ bs" by simp
  have found: "FindById key vs i = length as" by (simp add: FindById_def split(1))
  have as: "\<forall>v \<in> set as. key v < i" using set_takeWhileD by (fastforce simp: split(1))
  have head: "\<not> key v < i" if "bs = v # bs'" for v bs'
    using that hd_dropWhile [of "\<lambda>v. key v < i" vs] by (simp flip: split(2))
  have bs: "canonical_by key bs" using assms by (simp add: vs)
  show thesis
  proof (cases "\<exists>v bs'. bs = v # bs' \<and> key v = i")
    case True
    then obtain v bs' where v: "bs = v # bs'" "key v = i" by blast
    have "i \<notin> key ` set as" using as by auto
    then have "lookup_by key vs i = Some v" using vs v by simp
    then show thesis using that(1) [of as v bs'] vs v found by (simp add: found_at_def)
  next
    case False
    have gt: "\<forall>v \<in> set bs. i < key v"
    proof (cases bs)
      case (Cons v bs')
      then have "i < key v" using head False by (metis linorder_less_linear)
      then show ?thesis using bs Cons by auto
    qed simp
    have "i \<notin> key ` set as" "i \<notin> key ` set bs" using as gt by auto
    then have "i \<notin> key ` set vs" by (auto simp: vs)
    moreover then have "\<not> found_at key vs i (FindById key vs i)" by (metis found_at_def image_eqI nth_mem)
    ultimately show thesis using that(2) [of as bs] vs as gt found by blast
  qed
qed

text \<open>Removing, entering and changing, as updates of the map.\<close>

lemma remove_all_by_lookup:
  assumes "canonical_by key vs" and "distinct ids" and "set ids \<subseteq> key ` set vs"
  shows "\<exists>ws. remove_all_by key ids vs = Inr ws \<and> canonical_by key ws
    \<and> (\<forall>i. lookup_by key ws i = (if i \<in> set ids then None else lookup_by key vs i))"
  using assms
proof (induction ids arbitrary: vs)
  case Nil
  then show ?case by simp
next
  case (Cons i ids)
  obtain as v bs where vs: "vs = as @ v # bs" "key v = i" "FindById key vs i = length as"
      "found_at key vs i (FindById key vs i)"
    using Cons.prems by (cases rule: FindById_split [OF Cons.prems(1), of i]) auto
  let ?vs = "as @ bs"
  have fresh: "i \<notin> key ` set as" "i \<notin> key ` set bs" using Cons.prems(1) vs by auto
  have "canonical_by key ?vs" using Cons.prems(1) vs by auto
  moreover have "set ids \<subseteq> key ` set ?vs" using Cons.prems(2,3) vs by auto
  ultimately obtain ws where ws: "remove_all_by key ids ?vs = Inr ws" "canonical_by key ws"
      "\<forall>j. lookup_by key ws j = (if j \<in> set ids then None else lookup_by key ?vs j)"
    using Cons.IH [of ?vs] Cons.prems(2) by auto
  have "remove_all_by key (i # ids) vs = Inr ws" using ws(1) vs by (simp add: Let_def)
  moreover have "lookup_by key ?vs j = (if j = i then None else lookup_by key vs j)" for j
    using fresh vs by (auto split: option.split)
  ultimately show ?case using ws(2,3) by auto
qed

lemma enter_all_by_lookup:
  assumes "canonical_by key vs" and "distinct (map key es)" and "key ` set es \<inter> key ` set vs = {}"
  shows "\<exists>ws. enter_all_by key es vs = Inr ws \<and> canonical_by key ws
    \<and> (\<forall>i. lookup_by key ws i = (case lookup_by key es i of None \<Rightarrow> lookup_by key vs i | Some e \<Rightarrow> Some e))"
  using assms
proof (induction es arbitrary: vs)
  case Nil
  then show ?case by simp
next
  case (Cons e es)
  obtain as bs where vs: "vs = as @ bs" "FindById key vs (key e) = length as"
      "\<not> found_at key vs (key e) (FindById key vs (key e))" "key e \<notin> key ` set vs"
      "\<forall>v \<in> set as. key v < key e" "\<forall>v \<in> set bs. key e < key v"
    using Cons.prems by (cases rule: FindById_split [OF Cons.prems(1), of "key e"]) auto
  let ?vs = "as @ e # bs"
  have "canonical_by key ?vs" using Cons.prems(1) vs by auto
  moreover have "key ` set es \<inter> key ` set ?vs = {}" using Cons.prems(2,3) vs by auto
  ultimately obtain ws where ws: "enter_all_by key es ?vs = Inr ws" "canonical_by key ws"
      "\<forall>j. lookup_by key ws j = (case lookup_by key es j of None \<Rightarrow> lookup_by key ?vs j | Some x \<Rightarrow> Some x)"
    using Cons.IH [of ?vs] Cons.prems(2) by auto
  have "enter_all_by key (e # es) vs = Inr ws" using ws(1) vs by (simp add: Let_def)
  moreover have "lookup_by key es (key e) = None" using Cons.prems(2) by simp
  moreover have "lookup_by key ?vs j = (if j = key e then Some e else lookup_by key vs j)" for j
  proof -
    have "key e \<notin> key ` set as" using vs(1,4) by auto
    then have "lookup_by key as (key e) = None" by simp
    then show ?thesis using vs(1) by (auto split: option.split)
  qed
  ultimately show ?case using ws(2,3) by (auto split: option.split)
qed

lemma change_all_by_lookup:
  assumes "\<And>d v. key (update d v) = key v"
    and "canonical_by key vs" and "distinct (map dkey ds)" and "dkey ` set ds \<subseteq> key ` set vs"
  shows "\<exists>ws. change_all_by key dkey update ds vs = Inr ws \<and> canonical_by key ws
    \<and> (\<forall>i. lookup_by key ws i = (case lookup_by dkey ds i of None \<Rightarrow> lookup_by key vs i
                                | Some d \<Rightarrow> map_option (update d) (lookup_by key vs i)))"
  using assms(2-)
proof (induction ds arbitrary: vs)
  case Nil
  then show ?case by simp
next
  case (Cons d ds)
  obtain as v bs where vs: "vs = as @ v # bs" "key v = dkey d" "FindById key vs (dkey d) = length as"
      "found_at key vs (dkey d) (FindById key vs (dkey d))"
    using Cons.prems by (cases rule: FindById_split [OF Cons.prems(1), of "dkey d"]) auto
  let ?vs = "as @ update d v # bs"
  have "canonical_by key ?vs" using Cons.prems(1) vs assms(1) by auto
  moreover have "dkey ` set ds \<subseteq> key ` set ?vs" using Cons.prems(3) vs assms(1) by auto
  ultimately obtain ws where ws: "change_all_by key dkey update ds ?vs = Inr ws" "canonical_by key ws"
      "\<forall>j. lookup_by key ws j = (case lookup_by dkey ds j of None \<Rightarrow> lookup_by key ?vs j
                                | Some d \<Rightarrow> map_option (update d) (lookup_by key ?vs j))"
    using Cons.IH [of ?vs] Cons.prems(2) by auto
  have "change_all_by key dkey update (d # ds) vs = Inr ws" using ws(1) vs by (simp add: Let_def)
  moreover have fresh: "dkey d \<notin> key ` set as" using Cons.prems(1) vs by auto
  then have "lookup_by key ?vs j = (if j = dkey d then Some (update d v) else lookup_by key vs j)" for j
    using vs assms(1) by (auto split: option.split)
  moreover have "lookup_by dkey ds (dkey d) = None" using Cons.prems(2) by simp
  moreover have "lookup_by key vs (dkey d) = Some v" using fresh vs by simp
  ultimately show ?case
    using ws(2,3) by (auto split: option.split simp del: change_all_by.simps)
qed

section \<open>Differences of sorted vectors\<close>

lemma diff_loop_Cons_cases:
  assumes "diff_loop key build (b # base) (v # cur) = Inr (r, e, c)"
  obtains (less) r' where "key b < key v" "diff_loop key build base (v # cur) = Inr (r', e, c)" "r = key b # r'"
    | (greater) e' where "key v < key b" "diff_loop key build (b # base) cur = Inr (r, e', c)" "e = v # e'"
    | (same) d c' where "key b = key v" "build b v = Inr d" "diff_loop key build base cur = Inr (r, e, c')"
        "c = (case d of None \<Rightarrow> c' | Some x \<Rightarrow> x # c')"
proof -
  have inv: "push_removed i ch = (r, e, c) \<Longrightarrow> \<exists>r'. ch = (r', e, c) \<and> r = i # r'"
    "push_entered w ch = (r, e, c) \<Longrightarrow> \<exists>e'. ch = (r, e', c) \<and> e = w # e'"
    "push_changed d ch = (r, e, c) \<Longrightarrow> \<exists>c'. ch = (r, e, c') \<and> c = (case d of None \<Rightarrow> c' | Some x \<Rightarrow> x # c')"
    for i w d and ch
    by (cases ch; cases d; auto)+
  consider "key b < key v" | "key v < key b" | "key b = key v" by fastforce
  then show thesis
  proof cases
    case 1
    then obtain ch where "diff_loop key build base (v # cur) = Inr ch" "push_removed (key b) ch = (r, e, c)"
      using assms by auto
    with inv(1) show thesis using less 1 by blast
  next
    case 2
    then have "\<not> key b < key v" by simp
    then obtain ch where "diff_loop key build (b # base) cur = Inr ch" "push_entered v ch = (r, e, c)"
      using assms 2 by auto
    with inv(2) show thesis using greater 2 by blast
  next
    case 3
    then obtain d ch where "build b v = Inr d" "diff_loop key build base cur = Inr ch" "push_changed d ch = (r, e, c)"
      using assms by auto
    with inv(3) show thesis using same 3 by blast
  qed
qed

text \<open>An induction along the loop, for sorted vectors: at each step the key at hand differs from
  those that are left in the other vector.\<close>

lemma diff_loop_induct [consumes 3, case_names finish removes enters changes]:
  assumes "diff_loop key build base cur = Inr (r, e, c)" and "canonical_by key base" and "canonical_by key cur"
    and finish: "P [] [] [] [] []"
    and removes: "\<And>b base cur r e c. \<lbrakk>diff_loop key build base cur = Inr (r, e, c); P base cur r e c;
        \<forall>w \<in> set base. key b < key w; \<forall>w \<in> set cur. key b < key w;
        canonical_by key base; canonical_by key cur\<rbrakk> \<Longrightarrow> P (b # base) cur (key b # r) e c"
    and enters: "\<And>v base cur r e c. \<lbrakk>diff_loop key build base cur = Inr (r, e, c); P base cur r e c;
        \<forall>w \<in> set base. key v < key w; \<forall>w \<in> set cur. key v < key w;
        canonical_by key base; canonical_by key cur\<rbrakk> \<Longrightarrow> P base (v # cur) r (v # e) c"
    and changes: "\<And>b v d base cur r e c. \<lbrakk>diff_loop key build base cur = Inr (r, e, c); P base cur r e c;
        key b = key v; build b v = Inr d;
        \<forall>w \<in> set base. key v < key w; \<forall>w \<in> set cur. key v < key w;
        canonical_by key base; canonical_by key cur\<rbrakk>
      \<Longrightarrow> P (b # base) (v # cur) r e (case d of None \<Rightarrow> c | Some x \<Rightarrow> x # c)"
  shows "P base cur r e c"
  using assms(1-3)
proof (induction "length base + length cur" arbitrary: base cur r e c rule: less_induct)
  case less
  note IH = less(1) and run = less(2) and base = less(3) and cur = less(4)
  show ?case
  proof (cases base)
    case Nil
    show ?thesis
    proof (cases cur)
      case Nil
      then show ?thesis using run \<open>base = []\<close> finish by simp
    next
      case (Cons v cur')
      then obtain e' where "diff_loop key build [] cur' = Inr (r, e', c)" "e = v # e'"
        using run Nil by (auto elim!: push_entered.elims)
      then show ?thesis using IH [of "[]" cur' r e' c] enters [of "[]" cur' r e' c v] Nil Cons cur by auto
    qed
  next
    case b: (Cons b base')
    show ?thesis
    proof (cases cur)
      case Nil
      then obtain r' where "diff_loop key build base' [] = Inr (r', e, c)" "r = key b # r'"
        using run b by (auto elim!: push_removed.elims)
      then show ?thesis using IH [of base' "[]" r' e c] removes [of base' "[]" r' e c b] Nil b base by auto
    next
      case v: (Cons v cur')
      have run': "diff_loop key build (b # base') (v # cur') = Inr (r, e, c)" using run b v by simp
      from run' show ?thesis
      proof (cases rule: diff_loop_Cons_cases)
        case (less r')
        then have "\<forall>w \<in> set cur. key b < key w" using cur v by auto
        then show ?thesis
          using IH [of base' cur r' e c] removes [of base' cur r' e c b] less b v base cur by auto
      next
        case (greater e')
        then have "\<forall>w \<in> set base. key v < key w" using base b by auto
        then show ?thesis
          using IH [of base cur' r e' c] enters [of base cur' r e' c v] greater b v base cur by auto
      next
        case (same d c')
        then show ?thesis
          using IH [of base' cur' r e c'] changes [of base' cur' r e c' b v d] b v base cur by auto
      qed
    qed
  qed
qed

lemma keys_above: "\<forall>w \<in> set vs. (i::'k::linorder) < key w \<Longrightarrow> i \<notin> key ` set vs"
  by auto

lemma diff_loop_sets:
  assumes "diff_loop key build base cur = Inr (r, e, c)" and "canonical_by key base" and "canonical_by key cur"
  shows "set r = key ` set base - key ` set cur
    \<and> set e = {v \<in> set cur. key v \<notin> key ` set base}
    \<and> set c = {d. \<exists>b \<in> set base. \<exists>v \<in> set cur. key b = key v \<and> build b v = Inr (Some d)}
    \<and> (\<forall>b \<in> set base. \<forall>v \<in> set cur. key b = key v \<longrightarrow> (\<exists>delta. build b v = Inr delta))"
  using assms
proof (induction rule: diff_loop_induct)
  case finish
  then show ?case by simp
next
  case (removes b base cur r e c)
  then have "\<forall>w \<in> set cur. key w \<noteq> key b \<and> key b \<noteq> key w" by auto
  with keys_above [OF removes(3)] removes(6) show ?case by auto
next
  case (enters v base cur r e c)
  then have "\<forall>w \<in> set base. key w \<noteq> key v \<and> key v \<noteq> key w" by auto
  with keys_above [OF enters(2)] enters(6) show ?case by auto
next
  case (changes b v d base cur r e c)
  have "\<forall>w \<in> set cur. key b \<noteq> key w" "\<forall>w \<in> set base. key w \<noteq> key v" "key b \<notin> key ` set cur" "key v \<notin> key ` set base"
    using changes(2,4,5) by auto
  with changes(3,8) changes(2) [symmetric] show ?case by (auto split: option.split)
qed

lemma diff_loop_canonical:
  assumes "diff_loop key build base cur = Inr (r, e, c)" and "canonical_by key base" and "canonical_by key cur"
    and law: "\<And>b v d. build b v = Inr (Some d) \<Longrightarrow> dkey d = key v"
  shows "canonical_by (\<lambda>i. i) r \<and> canonical_by key e \<and> canonical_by dkey c"
  using assms(1-3)
proof (induction rule: diff_loop_induct)
  case finish
  then show ?case by simp
next
  case (removes b base cur r e c)
  with diff_loop_sets [OF removes(1,4,5)] show ?case by auto
next
  case (enters v base cur r e c)
  with diff_loop_sets [OF enters(1,4,5)] show ?case by auto
next
  case (changes b v d base cur r e c)
  have "key v < dkey x" if x: "x \<in> set c" for x
  proof -
    obtain w where "w \<in> set cur" "dkey x = key w"
      using x diff_loop_sets [OF changes(1,6,7)] law by auto
    then show ?thesis using changes(5) by simp
  qed
  with changes(3,8) law show ?case by (auto split: option.split)
qed

lemma diff_loop_returns:
  assumes "\<And>b v. b \<in> set base \<Longrightarrow> v \<in> set cur \<Longrightarrow> key b = key v \<Longrightarrow> \<exists>d. build b v = Inr d"
  shows "\<exists>changes. diff_loop key build base cur = Inr changes"
  using assms
proof (induction key build base cur rule: diff_loop.induct)
  case (4 key build b base v cur)
  consider (less) "key b < key v" | (greater) "\<not> key b < key v" "key v < key b"
    | (same) "\<not> key b < key v" "\<not> key v < key b" "key b = key v" by fastforce
  then show ?case
  proof cases
    case less
    have "\<exists>changes. diff_loop key build base (v # cur) = Inr changes"
      by (rule 4(1) [OF less]) (auto intro: 4(4))
    with less show ?thesis by auto
  next
    case greater
    have "\<exists>changes. diff_loop key build (b # base) cur = Inr changes"
      by (rule 4(2) [OF greater]) (auto intro: 4(4))
    with greater show ?thesis by auto
  next
    case same
    have "\<exists>d. build b v = Inr d" using same(3) by (intro 4(4)) simp_all
    moreover have "\<exists>changes. diff_loop key build base cur = Inr changes"
      by (rule 4(3) [OF same(1,2)]) (auto intro: 4(4))
    ultimately obtain d changes where "build b v = Inr d" "diff_loop key build base cur = Inr changes" by blast
    with same show ?thesis by (cases changes; cases d) auto
  qed
qed auto

text \<open>A change of one value: what is built is applied to the value it was built from.\<close>

locale keyed_diff =
  fixes key :: "'v \<Rightarrow> 'k::linorder" and dkey :: "'d \<Rightarrow> 'k"
    and build :: "'v \<Rightarrow> 'v \<Rightarrow> 'd option throws" and update :: "'d \<Rightarrow> 'v \<Rightarrow> 'v"
  assumes build_key: "build b v = Inr (Some d) \<Longrightarrow> dkey d = key v"
    and build_some: "build b v = Inr (Some d) \<Longrightarrow> key b = key v \<Longrightarrow> update d b = v"
    and build_none: "build b v = Inr None \<Longrightarrow> key b = key v \<Longrightarrow> b = v"
    and update_key: "key (update d v) = key v"
begin

lemma diff_canonical:
  assumes "diff_loop key build base cur = Inr (r, e, c)" and "canonical_by key base" and "canonical_by key cur"
  shows "canonical_by (\<lambda>i. i) r \<and> canonical_by key e \<and> canonical_by dkey c"
  by (rule diff_loop_canonical [OF assms]) (rule build_key)

lemma diff_counts:
  assumes "diff_loop key build base cur = Inr (r, e, c)" and "canonical_by key base" and "canonical_by key cur"
  shows "distinct (map key e @ map dkey c @ r)
    \<and> length e + length c + length r \<le> card (key ` set base \<union> key ` set cur)"
proof -
  note sets = diff_loop_sets [OF assms]
  have "distinct (map key e)" "distinct (map dkey c)" "distinct (map (\<lambda>i. i) r)"
    using diff_canonical [OF assms] by (blast dest: canonical_by_distinct)+
  moreover have "dkey ` set c \<subseteq> key ` set base \<inter> key ` set cur"
  proof (rule image_subsetI)
    fix d assume "d \<in> set c"
    then obtain b v where "b \<in> set base" "v \<in> set cur" "key b = key v" "dkey d = key v"
      using sets build_key by blast
    then show "dkey d \<in> key ` set base \<inter> key ` set cur" by (metis IntI imageI)
  qed
  moreover have "key ` set e \<subseteq> key ` set cur - key ` set base" "set r = key ` set base - key ` set cur"
    using sets by auto
  ultimately have dist: "distinct (map key e @ map dkey c @ r)" and sub:
      "set (map key e @ map dkey c @ r) \<subseteq> key ` set base \<union> key ` set cur"
    unfolding distinct_append set_append set_map list.map_ident by blast+
  have "length (map key e @ map dkey c @ r) = card (set (map key e @ map dkey c @ r))"
    using distinct_card [OF dist] by simp
  also have "\<dots> \<le> card (key ` set base \<union> key ` set cur)" by (rule card_mono [OF _ sub]) simp
  finally show ?thesis using dist by simp
qed

lemma diff_lookup:
  assumes "diff_loop key build base cur = Inr (r, e, c)" and "canonical_by key base" and "canonical_by key cur"
  shows "(case lookup_by dkey c i of
            None \<Rightarrow> (case lookup_by key e i of None \<Rightarrow> if i \<in> set r then None else lookup_by key base i
                     | Some v \<Rightarrow> Some v)
          | Some d \<Rightarrow> map_option (update d)
              (case lookup_by key e i of None \<Rightarrow> if i \<in> set r then None else lookup_by key base i
               | Some v \<Rightarrow> Some v)) = lookup_by key cur i"
proof -
  note sets = diff_loop_sets [OF assms]
  have canon: "canonical_by key e" "canonical_by dkey c"
    using diff_canonical [OF assms] by auto
  have c_in: "\<exists>b v. lookup_by key base i = Some b \<and> lookup_by key cur i = Some v \<and> build b v = Inr (Some d)"
    if c: "lookup_by dkey c i = Some d" for d
  proof -
    obtain b v where "b \<in> set base" "v \<in> set cur" "key b = key v" "build b v = Inr (Some d)" "dkey d = i"
      using lookup_by_SomeD [OF c] sets by auto
    then show ?thesis
      using build_key canonical_by_lookup_set [OF assms(2), of b] canonical_by_lookup_set [OF assms(3), of v] by metis
  qed
  have c_of: "lookup_by dkey c i = Some d"
    if "lookup_by key base i = Some b" "lookup_by key cur i = Some v" "build b v = Inr (Some d)" for b v d
  proof -
    have "d \<in> set c" "dkey d = i"
      using lookup_by_SomeD [OF that(1)] lookup_by_SomeD [OF that(2)] sets that(3) build_key by auto
    then show ?thesis using canonical_by_lookup_set [OF canon(2), of d] by simp
  qed
  have e_of: "lookup_by key e i = (if i \<in> key ` set base then None else lookup_by key cur i)"
  proof (cases "lookup_by key e i")
    case None
    then have "i \<notin> key ` set e" by (simp add: lookup_by_None)
    then show ?thesis
      using None sets lookup_by_SomeD [of key cur i] by (cases "lookup_by key cur i") auto
  next
    case (Some v)
    then have v: "v \<in> set cur" "key v = i" "i \<notin> key ` set base"
      using lookup_by_SomeD [OF Some] sets by auto
    then have "lookup_by key cur i = Some v" using canonical_by_lookup_set [OF assms(3), of v] by simp
    then show ?thesis using Some v by simp
  qed
  have r_of: "i \<in> set r \<longleftrightarrow> lookup_by key base i \<noteq> None \<and> lookup_by key cur i = None"
    using sets by (simp add: in_keys_iff del: lookup_by_notin)
  have e_iff: "lookup_by key e i = (if lookup_by key base i = None then lookup_by key cur i else None)"
    unfolding e_of in_keys_iff by simp
  show ?thesis
  proof (cases "lookup_by key base i")
    case None
    then have "lookup_by dkey c i = None" using c_in by (cases "lookup_by dkey c i") auto
    with None e_iff r_of show ?thesis by (simp del: lookup_by_notin split: option.split)
  next
    case (Some b)
    show ?thesis
    proof (cases "lookup_by key cur i")
      case None
      then have "lookup_by dkey c i = None" using c_in by (cases "lookup_by dkey c i") auto
      with None Some e_iff r_of show ?thesis by (simp del: lookup_by_notin)
    next
      case v: (Some v)
      have same: "key b = key v" using lookup_by_SomeD [OF Some] lookup_by_SomeD [OF v] by simp
      obtain d where d: "build b v = Inr d"
        using sets lookup_by_SomeD [OF Some] lookup_by_SomeD [OF v] by metis
      show ?thesis
      proof (cases d)
        case None
        then have "b = v" using build_none d same by simp
        moreover have "lookup_by dkey c i = None" using c_in d None Some v by fastforce
        ultimately show ?thesis using Some v e_iff r_of by (simp del: lookup_by_notin)
      next
        case (Some x)
        then have "lookup_by dkey c i = Some x" "update x b = v"
          using c_of [OF \<open>lookup_by key base i = Some b\<close> v] build_some d same by auto
        then show ?thesis using \<open>lookup_by key base i = Some b\<close> v e_iff r_of by (simp del: lookup_by_notin)
      qed
    qed
  qed
qed

theorem apply_diff:
  assumes "diff_loop key build base cur = Inr (r, e, c)" and "canonical_by key base" and "canonical_by key cur"
  shows "bind_throws (remove_all_by key r base) (\<lambda>vs.
         bind_throws (enter_all_by key e vs) (\<lambda>vs. change_all_by key dkey update c vs)) = Inr cur"
proof -
  note sets = diff_loop_sets [OF assms]
  have canon: "canonical_by (\<lambda>i. i) r" "canonical_by key e" "canonical_by dkey c"
    using diff_canonical [OF assms] by auto
  obtain xs where xs: "remove_all_by key r base = Inr xs" "canonical_by key xs"
      "\<forall>i. lookup_by key xs i = (if i \<in> set r then None else lookup_by key base i)"
    using remove_all_by_lookup [OF assms(2), of r] canonical_by_distinct [OF canon(1)] sets by auto
  have keys_xs: "key ` set xs = key ` set base - set r"
  proof (rule set_eqI)
    fix i
    show "i \<in> key ` set xs \<longleftrightarrow> i \<in> key ` set base - set r"
      using xs(3) by (simp add: in_keys_iff del: lookup_by_notin)
  qed
  have "key ` set e \<inter> key ` set xs = {}" using sets keys_xs by auto
  from enter_all_by_lookup [OF xs(2) canonical_by_distinct [OF canon(2)] this] obtain ys where ys: "enter_all_by key e xs = Inr ys" "canonical_by key ys"
      "\<forall>i. lookup_by key ys i = (case lookup_by key e i of None \<Rightarrow> lookup_by key xs i | Some v \<Rightarrow> Some v)"
    by (elim exE conjE)
  have keys_ys: "key ` set ys = key ` set e \<union> key ` set xs"
  proof (rule set_eqI)
    fix i
    show "i \<in> key ` set ys \<longleftrightarrow> i \<in> key ` set e \<union> key ` set xs"
      using ys(3) by (simp add: in_keys_iff del: lookup_by_notin split: option.split)
  qed
  have "dkey ` set c \<subseteq> key ` set ys"
  proof (rule image_subsetI)
    fix d assume "d \<in> set c"
    then obtain b v where "b \<in> set base" "v \<in> set cur" "key b = key v" "dkey d = key v"
      using sets build_key by blast
    then show "dkey d \<in> key ` set ys" using sets unfolding keys_ys keys_xs by (metis DiffI UnI2 DiffE imageI)
  qed
  from change_all_by_lookup [where key = key and update = update, OF update_key ys(2) canonical_by_distinct [OF canon(3)] this] obtain zs where zs: "change_all_by key dkey update c ys = Inr zs" "canonical_by key zs"
      "\<forall>i. lookup_by key zs i = (case lookup_by dkey c i of None \<Rightarrow> lookup_by key ys i
                                | Some d \<Rightarrow> map_option (update d) (lookup_by key ys i))"
    by (elim exE conjE)
  have "zs = cur"
  proof (rule canonical_by_eqI [OF zs(2) assms(3)])
    fix i
    show "lookup_by key zs i = lookup_by key cur i"
      by (simp only: zs(3) ys(3) xs(3) diff_lookup [OF assms])
  qed
  then show ?thesis using xs(1) ys(1) zs(1) by simp
qed

end

end
