(* ===== verification/SnapshotDeltaCorrect.thy ===== *)
theory SnapshotDeltaCorrect
  imports SnapshotDeltaLemmas
begin

text \<open>
  The deltas of actors, of loot and of the global state, and the payload that holds them: it
  leads from the base to the current view, and passes the checks of the encoder.
\<close>

section \<open>Actors and loot\<close>

text \<open>The fields of a change, by what differs.\<close>

definition actor_fields :: "bool \<Rightarrow> bool \<Rightarrow> bool \<Rightarrow> bool \<Rightarrow> u8" where
  "actor_fields p h w e = (if p then ActorPosition else 0) OR (if h then ActorHealthAlive else 0)
     OR (if w then ActorWeaponCooldown else 0) OR (if e then ActorEliminations else 0)"

lemma actor_fields_simps [simp]:
  "HasField (actor_fields p h w e) ActorPosition = p" "HasField (actor_fields p h w e) ActorHealthAlive = h"
  "HasField (actor_fields p h w e) ActorWeaponCooldown = w" "HasField (actor_fields p h w e) ActorEliminations = e"
  "actor_fields p h w e = 0 \<longleftrightarrow> \<not> p \<and> \<not> h \<and> \<not> w \<and> \<not> e"
  "IsValidActorFieldMask (actor_fields p h w e)"
  by (cases p; cases h; cases w; cases e;
      simp add: actor_fields_def HasField_def IsValidActorFieldMask_def HasOnlyKnownBits_def AllActorFields_def field_masks)+

definition actor_change_of :: "quantized_actor \<Rightarrow> quantized_actor \<Rightarrow> actor_delta" where
  "actor_change_of b v =
     (let p = (qa_position b \<noteq> qa_position v);
          h = (qa_health b \<noteq> qa_health v \<or> qa_alive b \<noteq> qa_alive v);
          w = (qa_weapon b \<noteq> qa_weapon v \<or> qa_cooldownTicksRemaining b \<noteq> qa_cooldownTicksRemaining v);
          e = (qa_eliminations b \<noteq> qa_eliminations v);
          d = default_actor_delta
      in \<lparr>ad_id = qa_id v, ad_fields = actor_fields p h w e,
          ad_position = (if p then qa_position v else ad_position d),
          ad_health = (if h then qa_health v else ad_health d),
          ad_alive = (if h then qa_alive v else ad_alive d),
          ad_weapon = (if w then qa_weapon v else ad_weapon d),
          ad_cooldownTicksRemaining = (if w then qa_cooldownTicksRemaining v else ad_cooldownTicksRemaining d),
          ad_eliminations = (if e then qa_eliminations v else ad_eliminations d)\<rparr>)"

definition same_kind :: "quantized_actor \<Rightarrow> quantized_actor \<Rightarrow> bool" where
  "same_kind b v \<longleftrightarrow> qa_role b = qa_role v \<and> qa_neutralArchetype b = qa_neutralArchetype v"

lemma BuildActorDelta_eq:
  "BuildActorDelta b v =
     (if \<not> same_kind b v then Inl Logic_error
      else if ad_fields (actor_change_of b v) = 0 then Inr None
      else Inr (Some (actor_change_of b v)))"
proof -
  let ?p = "qa_position b \<noteq> qa_position v"
  let ?h = "qa_health b \<noteq> qa_health v \<or> qa_alive b \<noteq> qa_alive v"
  let ?w = "qa_weapon b \<noteq> qa_weapon v \<or> qa_cooldownTicksRemaining b \<noteq> qa_cooldownTicksRemaining v"
  let ?e = "qa_eliminations b \<noteq> qa_eliminations v"
  show ?thesis
    by (cases ?p; cases ?h; cases ?w; cases ?e;
        simp only: BuildActorDelta_def same_kind_def actor_change_of_def Let_def if_True if_False;
        simp add: actor_fields_def default_actor_delta_def field_masks)
qed

interpretation actor_diff: keyed_diff qa_id ad_id BuildActorDelta ChangeActor
proof
  fix b v :: quantized_actor and d
  assume build: "BuildActorDelta b v = Inr (Some d)"
  then have d: "d = actor_change_of b v" and kind: "same_kind b v"
    by (simp_all add: BuildActorDelta_eq split: if_splits)
  show "ad_id d = qa_id v" by (simp add: d actor_change_of_def Let_def)
  assume "qa_id b = qa_id v"
  with kind show "ChangeActor d b = v"
    by (intro quantized_actor.equality)
      (simp_all add: d ChangeActor_def actor_change_of_def same_kind_def Let_def)
next
  fix b v :: quantized_actor
  assume "BuildActorDelta b v = Inr None" "qa_id b = qa_id v"
  then show "b = v"
    by (intro quantized_actor.equality)
      (simp_all add: BuildActorDelta_eq actor_change_of_def same_kind_def Let_def split: if_splits)
next
  fix d v show "qa_id (ChangeActor d v) = qa_id v" by (simp add: ChangeActor_def Let_def)
qed

interpretation loot_diff: keyed_diff ql_id ld_id BuildLootDelta ChangeLootValue
  by unfold_locales (auto simp: BuildLootDelta_def ChangeLootValue_def split: if_splits intro: quantized_loot.equality)

lemma BuildActorDelta_valid:
  assumes "BuildActorDelta b v = Inr (Some d)" and "IsValidQuantizedActor v"
  shows "IsValidQuantizedActorDelta d"
proof -
  have "d = actor_change_of b v" "ad_fields (actor_change_of b v) \<noteq> 0"
    using assms(1) by (simp_all add: BuildActorDelta_eq split: if_splits)
  then show ?thesis
    using assms(2)
    by (simp add: IsValidQuantizedActorDelta_def IsValidQuantizedActor_def actor_change_of_def Let_def)
      (simp add: linorder_not_less [symmetric])
qed

lemma BuildLootDelta_valid: "BuildLootDelta b v = Inr (Some d) \<Longrightarrow> ld_fields d = LootActive"
  by (auto simp: BuildLootDelta_def split: if_splits)

text \<open>An actor keeps its role and archetype, and loot its type and place, or building throws.\<close>

definition same_item :: "quantized_loot \<Rightarrow> quantized_loot \<Rightarrow> bool" where
  "same_item b v \<longleftrightarrow> ql_type b = ql_type v \<and> ql_position b = ql_position v"

lemma BuildActorDelta_returns: "(\<exists>d. BuildActorDelta b v = Inr d) \<longleftrightarrow> same_kind b v"
  by (auto simp: BuildActorDelta_eq)

lemma BuildLootDelta_returns: "(\<exists>d. BuildLootDelta b v = Inr d) \<longleftrightarrow> same_item b v"
  by (auto simp: BuildLootDelta_def same_item_def)

section \<open>The global state\<close>

text \<open>A result that is not present is not sent.\<close>

definition canon_global :: "quantized_global \<Rightarrow> quantized_global" where
  "canon_global g = (if qg_hasResult g then g else g\<lparr>qg_result := no_match_result\<rparr>)"

definition canon_view :: "quantized_view \<Rightarrow> quantized_view" where
  "canon_view v = v\<lparr>vw_global := canon_global (vw_global v)\<rparr>"

definition global_fields :: "bool \<Rightarrow> bool \<Rightarrow> bool \<Rightarrow> bool \<Rightarrow> bool \<Rightarrow> u8" where
  "global_fields p z a r c = (if p then GlobalPhase else 0) OR (if z then GlobalSafeZone else 0)
     OR (if a then GlobalAliveContenders else 0) OR (if r then GlobalResult else 0)
     OR (if c then GlobalEventChecksum else 0)"

lemma global_fields_simps [simp]:
  "HasField (global_fields p z a r c) GlobalPhase = p" "HasField (global_fields p z a r c) GlobalSafeZone = z"
  "HasField (global_fields p z a r c) GlobalAliveContenders = a" "HasField (global_fields p z a r c) GlobalResult = r"
  "HasField (global_fields p z a r c) GlobalEventChecksum = c"
  "IsValidGlobalFieldMask (global_fields p z a r c)"
  by (cases p; cases z; cases a; cases r; cases c;
      simp add: global_fields_def HasField_def IsValidGlobalFieldMask_def HasOnlyKnownBits_def AllGlobalFields_def field_masks)+

lemma BuildGlobalDelta_eq:
  "BuildGlobalDelta b v =
     (let p = (qg_phase b \<noteq> qg_phase v);
          z = (qg_safeZoneStage b \<noteq> qg_safeZoneStage v \<or> qg_safeZoneCenter b \<noteq> qg_safeZoneCenter v
               \<or> qg_safeZoneRadius b \<noteq> qg_safeZoneRadius v);
          a = (qg_aliveContenders b \<noteq> qg_aliveContenders v);
          r = (qg_hasResult b \<noteq> qg_hasResult v \<or> qg_hasResult v \<and> qg_result b \<noteq> qg_result v);
          c = (qg_eventChecksum b \<noteq> qg_eventChecksum v);
          d = default_global_delta
      in \<lparr>gd_fields = global_fields p z a r c,
          gd_phase = (if p then qg_phase v else gd_phase d),
          gd_safeZoneStage = (if z then qg_safeZoneStage v else gd_safeZoneStage d),
          gd_safeZoneCenter = (if z then qg_safeZoneCenter v else gd_safeZoneCenter d),
          gd_safeZoneRadius = (if z then qg_safeZoneRadius v else gd_safeZoneRadius d),
          gd_aliveContenders = (if a then qg_aliveContenders v else gd_aliveContenders d),
          gd_result = (if r \<and> qg_hasResult v then qg_result v else gd_result d),
          gd_hasResult = (if r then qg_hasResult v else gd_hasResult d),
          gd_eventChecksum = (if c then qg_eventChecksum v else gd_eventChecksum d)\<rparr>)"
proof -
  let ?p = "qg_phase b \<noteq> qg_phase v"
  let ?z = "qg_safeZoneStage b \<noteq> qg_safeZoneStage v \<or> qg_safeZoneCenter b \<noteq> qg_safeZoneCenter v
               \<or> qg_safeZoneRadius b \<noteq> qg_safeZoneRadius v"
  let ?a = "qg_aliveContenders b \<noteq> qg_aliveContenders v"
  let ?r = "qg_hasResult b \<noteq> qg_hasResult v \<or> qg_hasResult v \<and> qg_result b \<noteq> qg_result v"
  let ?c = "qg_eventChecksum b \<noteq> qg_eventChecksum v"
  show ?thesis
    by (cases ?p; cases ?z; cases ?a; cases ?r; cases ?c;
        simp only: BuildGlobalDelta_def Let_def if_True if_False;
        simp add: global_fields_def default_global_delta_def field_masks)
qed

lemma ApplyGlobalDelta_Build:
  "ApplyGlobalDelta (canon_global b) (BuildGlobalDelta b v) = canon_global v"
  unfolding BuildGlobalDelta_eq Let_def ApplyGlobalDelta_def global_delta.simps global_fields_simps
  by (cases b; cases v; simp add: canon_global_def default_global_delta_def)

lemma ucast_eq_1: "(ucast (x::u8) :: u32) = 1 \<longleftrightarrow> x = 1"
proof
  assume "(ucast x :: u32) = 1"
  moreover have "uint (ucast x :: u32) = uint x" by (simp add: uint_up_ucast is_up)
  ultimately have "uint x = uint (1::u8)" by simp
  then show "x = 1" by (simp only: word_uint_eq_iff)
qed simp

lemma BuildGlobalDelta_valid:
  assumes "IsValidQuantizedGlobal b" and "IsValidQuantizedGlobal v"
  shows "IsValidQuantizedGlobalDelta (BuildGlobalDelta b v)"
proof -
  obtain p z a r c where diff: "p = (qg_phase b \<noteq> qg_phase v)"
    "z = (qg_safeZoneStage b \<noteq> qg_safeZoneStage v \<or> qg_safeZoneCenter b \<noteq> qg_safeZoneCenter v
               \<or> qg_safeZoneRadius b \<noteq> qg_safeZoneRadius v)"
    "a = (qg_aliveContenders b \<noteq> qg_aliveContenders v)"
    "r = (qg_hasResult b \<noteq> qg_hasResult v \<or> qg_hasResult v \<and> qg_result b \<noteq> qg_result v)"
    "c = (qg_eventChecksum b \<noteq> qg_eventChecksum v)" by blast
  have finished: "qg_hasResult b = (qg_phase b = PhaseFinished)" "qg_hasResult v = (qg_phase v = PhaseFinished)"
    using assms by (auto simp: IsValidQuantizedGlobal_def IsValidResultState_def Let_def split: if_splits)
  then have phase: "p \<and> \<not> r \<longrightarrow> qg_phase v \<noteq> PhaseFinished" by (auto simp: diff)
  have v: "IsValidPhase (qg_phase v)" "IsValidSafeZoneStage (qg_safeZoneStage v)"
      "\<not> RoomCapacity < unat (qg_aliveContenders v)"
      "qg_hasResult v \<longrightarrow> qg_aliveContenders v = 1 \<and> IsValidEndReason (nr_reason (qg_result v))"
    using assms(2)
    by (auto simp: IsValidQuantizedGlobal_def IsValidResultState_def Let_def ucast_eq_1 split: if_splits)
  show ?thesis
    unfolding BuildGlobalDelta_eq diff [symmetric] Let_def
    using phase v finished(2)
    by (cases p; cases z; cases a; cases r; cases c)
      (simp_all add: IsValidQuantizedGlobalDelta_def default_global_delta_def Let_def)
qed

section \<open>Whole payloads\<close>

text \<open>What the replicator may send: a view that passes the checks of a keyframe.\<close>

definition view_ok :: "quantized_view \<Rightarrow> bool" where
  "view_ok v \<longleftrightarrow>
     IsValidQuantizedGlobal (vw_global v)
     \<and> length (vw_actors v) \<le> MaxSnapshotActors \<and> length (vw_loot v) \<le> MaxSnapshotLoot
     \<and> (\<forall>actor \<in> set (vw_actors v). IsValidQuantizedActor actor)
     \<and> (\<forall>loot \<in> set (vw_loot v). IsValidLootType (ql_type loot))
     \<and> canonical_by qa_id (vw_actors v) \<and> canonical_by ql_id (vw_loot v)"

definition canonical_view :: "quantized_view \<Rightarrow> bool" where
  "canonical_view v \<longleftrightarrow> canonical_by qa_id (vw_actors v) \<and> canonical_by ql_id (vw_loot v)"

lemma BuildDeltaPayload_InrD:
  assumes "BuildDeltaPayload b n base cur = Inr p"
  obtains ra ea ca rl el cl where
    "diff_loop qa_id BuildActorDelta (vw_actors base) (vw_actors cur) = Inr (ra, ea, ca)"
    "diff_loop ql_id BuildLootDelta (vw_loot base) (vw_loot cur) = Inr (rl, el, cl)"
    "p = (payload_with_header \<lparr>ph_kind = KindDelta, ph_valueEncoding = EncodingQuantized,
             ph_baseSnapshotId = b, ph_payloadSnapshotId = n\<rparr>)
         \<lparr>sp_globalDelta := BuildGlobalDelta (vw_global base) (vw_global cur),
          sp_removedActors := ra, sp_actorValues := ea, sp_actorDeltas := ca,
          sp_removedLoot := rl, sp_lootValues := el, sp_lootDeltas := cl\<rparr>"
  using assms by (auto simp: BuildDeltaPayload_def Let_def)

text \<open>The payload leads from what the client holds for the base to what it is to hold.\<close>

lemma ApplyDelta_BuildDeltaPayload:
  assumes "BuildDeltaPayload b n base cur = Inr p" and "canonical_view base" and "canonical_view cur"
  shows "ApplyDelta (canon_view base) p = Inr (canon_view cur)"
proof -
  obtain ra ea ca rl el cl where
    actors: "diff_loop qa_id BuildActorDelta (vw_actors base) (vw_actors cur) = Inr (ra, ea, ca)"
    and loot: "diff_loop ql_id BuildLootDelta (vw_loot base) (vw_loot cur) = Inr (rl, el, cl)"
    and p: "p = (payload_with_header \<lparr>ph_kind = KindDelta, ph_valueEncoding = EncodingQuantized,
             ph_baseSnapshotId = b, ph_payloadSnapshotId = n\<rparr>)
         \<lparr>sp_globalDelta := BuildGlobalDelta (vw_global base) (vw_global cur),
          sp_removedActors := ra, sp_actorValues := ea, sp_actorDeltas := ca,
          sp_removedLoot := rl, sp_lootValues := el, sp_lootDeltas := cl\<rparr>"
    using BuildDeltaPayload_InrD [OF assms(1)] .
  have "canonical_by qa_id (vw_actors base)" "canonical_by qa_id (vw_actors cur)"
    "canonical_by ql_id (vw_loot base)" "canonical_by ql_id (vw_loot cur)"
    using assms(2,3) by (simp_all add: canonical_view_def)
  note applied = actor_diff.apply_diff [OF actors this(1,2)] loot_diff.apply_diff [OF loot this(3,4)]
  then obtain as bs ls ks where
    "remove_all_by qa_id ra (vw_actors base) = Inr as" "enter_all_by qa_id ea as = Inr bs"
    "change_all_by qa_id ad_id ChangeActor ca bs = Inr (vw_actors cur)"
    "remove_all_by ql_id rl (vw_loot base) = Inr ls" "enter_all_by ql_id el ls = Inr ks"
    "change_all_by ql_id ld_id ChangeLootValue cl ks = Inr (vw_loot cur)" by auto
  then show ?thesis
    by (simp add: p ApplyDelta_def RemoveActors_def EnterActors_def ChangeActors_def RemoveLoot_def
        EnterLoot_def ChangeLoot_def ApplyGlobalDelta_Build payload_with_header_def canon_view_def)
qed

lemma BuildDeltaPayload_returns:
  assumes "\<And>x y. x \<in> set (vw_actors base) \<Longrightarrow> y \<in> set (vw_actors cur) \<Longrightarrow> qa_id x = qa_id y \<Longrightarrow> same_kind x y"
    and "\<And>x y. x \<in> set (vw_loot base) \<Longrightarrow> y \<in> set (vw_loot cur) \<Longrightarrow> ql_id x = ql_id y \<Longrightarrow> same_item x y"
  shows "\<exists>p. BuildDeltaPayload b n base cur = Inr p"
proof -
  obtain as ls where "diff_loop qa_id BuildActorDelta (vw_actors base) (vw_actors cur) = Inr as"
      "diff_loop ql_id BuildLootDelta (vw_loot base) (vw_loot cur) = Inr ls"
    using diff_loop_returns [of "vw_actors base" "vw_actors cur" qa_id BuildActorDelta]
      diff_loop_returns [of "vw_loot base" "vw_loot cur" ql_id BuildLootDelta] assms
    unfolding BuildActorDelta_returns BuildLootDelta_returns by metis
  then show ?thesis by (cases as; cases ls) (simp add: BuildDeltaPayload_def Let_def)
qed

lemma BuildDeltaPayload_valid:
  assumes "BuildDeltaPayload b n base cur = Inr p" and "view_ok base" and "view_ok cur"
    and "0 < b" and "b < n"
    and "card (qa_id ` set (vw_actors base) \<union> qa_id ` set (vw_actors cur)) \<le> MaxSnapshotActors"
    and "card (ql_id ` set (vw_loot base) \<union> ql_id ` set (vw_loot cur)) \<le> MaxSnapshotLoot"
  shows "ValidatePayload p = Inr ()"
proof -
  obtain ra ea ca rl el cl where
    actors: "diff_loop qa_id BuildActorDelta (vw_actors base) (vw_actors cur) = Inr (ra, ea, ca)"
    and loot: "diff_loop ql_id BuildLootDelta (vw_loot base) (vw_loot cur) = Inr (rl, el, cl)"
    and p: "p = (payload_with_header \<lparr>ph_kind = KindDelta, ph_valueEncoding = EncodingQuantized,
             ph_baseSnapshotId = b, ph_payloadSnapshotId = n\<rparr>)
         \<lparr>sp_globalDelta := BuildGlobalDelta (vw_global base) (vw_global cur),
          sp_removedActors := ra, sp_actorValues := ea, sp_actorDeltas := ca,
          sp_removedLoot := rl, sp_lootValues := el, sp_lootDeltas := cl\<rparr>"
    using BuildDeltaPayload_InrD [OF assms(1)] .
  have c: "canonical_by qa_id (vw_actors base)" "canonical_by qa_id (vw_actors cur)"
    "canonical_by ql_id (vw_loot base)" "canonical_by ql_id (vw_loot cur)"
    using assms(2,3) by (simp_all add: view_ok_def)
  note asets = diff_loop_sets [OF actors c(1,2)] and lsets = diff_loop_sets [OF loot c(3,4)]
  have canon: "sorted_wrt (<) (map (\<lambda>i. i) ra)" "sorted_wrt (<) (map qa_id ea)" "sorted_wrt (<) (map ad_id ca)"
    "sorted_wrt (<) (map (\<lambda>i. i) rl)" "sorted_wrt (<) (map ql_id el)" "sorted_wrt (<) (map ld_id cl)"
    using actor_diff.diff_canonical [OF actors c(1,2)] loot_diff.diff_canonical [OF loot c(3,4)]
    unfolding canonical_by_def by blast+
  note counts = actor_diff.diff_counts [OF actors c(1,2)] loot_diff.diff_counts [OF loot c(3,4)]
  have "distinct (map idval (map qa_id ea @ map ad_id ca @ ra))"
    using counts(1) by (simp only: distinct_map) (simp add: inj_on_def ident.expand)
  then have dup: "\<not> HasDuplicateActorCategory p" "\<not> HasDuplicateLootCategory p"
    using counts(2) by (simp_all add: p HasDuplicateActorCategory_def HasDuplicateLootCategory_def
        adjacent_equal_sort comp_def payload_with_header_def)
  have "\<forall>v \<in> set ea. IsValidQuantizedActor v" "\<forall>v \<in> set el. IsValidLootType (ql_type v)"
    using asets lsets assms(3) by (auto simp: view_ok_def)
  moreover have "\<forall>d \<in> set ca. IsValidQuantizedActorDelta d" "\<forall>d \<in> set cl. ld_fields d = LootActive"
    using asets lsets assms(3) BuildActorDelta_valid BuildLootDelta_valid by (fastforce simp: view_ok_def)+
  moreover have "IsValidQuantizedGlobalDelta (BuildGlobalDelta (vw_global base) (vw_global cur))"
    using assms(2,3) by (intro BuildGlobalDelta_valid) (simp_all add: view_ok_def)
  ultimately have "ValidateDelta p = Inr ()"
    using counts assms(6,7) dup canon
    by (simp add: p ValidateDelta_def list_all_iff payload_with_header_def Let_def)
  moreover have "IsValidHeader (sp_header p)"
    using assms(4,5) by (auto simp: p IsValidHeader_def payload_kinds payload_with_header_def)
  ultimately show ?thesis
    by (simp add: ValidatePayload_def p payload_with_header_def payload_kinds snapshot_eq_default Let_def)
qed

end
