(* ===== verification/InterestGridLemmas.thy ===== *)
theory InterestGridLemmas
  imports InterestGrid FloatOps SnapshotDeltaCorrect
begin

text \<open>
  What a query of the grid returns: sorted identifiers without duplicates, of actors and of active
  loot of the world that are near enough, and always the actor at the center.
\<close>

section \<open>Cells\<close>

definition axis_ok :: "f32 \<Rightarrow> f32 \<Rightarrow> f32 \<Rightarrow> int \<Rightarrow> bool" where
  "axis_ok lo hi cellSize count \<longleftrightarrow> isfinite lo \<and> isfinite hi \<and> isfinite cellSize \<and> 0 < f32_val cellSize
     \<and> isfinite (f32_sub hi lo) \<and> f32_val (f32_sub hi lo) / f32_val cellSize < 2 powi 65 \<and> 1 \<le> count"

lemma cell_of_range: "1 \<le> count \<Longrightarrow> 0 \<le> cell_of lo cellSize v count \<and> cell_of lo cellSize v count < count"
  by (simp add: cell_of_def Let_def)

lemma relative:
  assumes "axis_ok lo hi cellSize count" and "isfinite v" and "f32_val lo \<le> f32_val v" and "f32_val v \<le> f32_val hi"
  shows "isfinite (f32_sub v lo)" "f32_val (f32_sub v lo) = round_bits 24 (- 149) (f32_val v - f32_val lo)"
    "f32_val (f32_div (f32_sub v lo) cellSize)
      = round_bits 24 (- 149) (round_bits 24 (- 149) (f32_val v - f32_val lo) / f32_val cellSize)"
proof -
  let ?r = "round_bits 24 (- 149)"
  have fin: "isfinite lo" "isfinite hi" "isfinite cellSize" "0 < f32_val cellSize" "isfinite (f32_sub hi lo)"
    and quot: "f32_val (f32_sub hi lo) / f32_val cellSize < 2 powi 65"
    using assms(1) by (simp_all add: axis_ok_def)
  have nonneg: "0 \<le> ?r (f32_val v - f32_val lo)"
    using round_bits_mono [of 0 "f32_val v - f32_val lo" 24 "- 149"] assms(3) by (simp add: round_bits_zero)
  have le: "?r (f32_val v - f32_val lo) \<le> ?r (f32_val hi - f32_val lo)"
    using assms(4) by (intro round_bits_mono) simp_all
  have hi: "?r (f32_val hi - f32_val lo) < 2 powi 128" "f32_val (f32_sub hi lo) = ?r (f32_val hi - f32_val lo)"
    using f32_sub_finite [OF fin(2,1)] fin(5) by auto
  show sub: "isfinite (f32_sub v lo)" using f32_sub_finite(1) [OF assms(2) fin(1)] nonneg le hi(1) by simp
  show val: "f32_val (f32_sub v lo) = ?r (f32_val v - f32_val lo)" by (rule f32_sub_finite(2) [OF assms(2) fin(1) sub])
  let ?q = "f32_val (f32_sub v lo) / f32_val cellSize"
  have "0 \<le> ?q" using nonneg val fin(4) by simp
  have "?q \<le> f32_val (f32_sub hi lo) / f32_val cellSize"
    using le fin(4) unfolding val hi(2) by (simp add: divide_right_mono)
  then have "?q \<le> 2 powi 65" using quot by linarith
  then have "?r ?q \<le> ?r (2 powi 65)" by (rule round_bits_mono) simp
  moreover have "?r (2 powi 65) = 2 powi 65" by (rule round_bits_exact [of _ 1 65]) simp_all
  moreover have "0 \<le> ?r ?q" using round_bits_mono [OF \<open>0 \<le> ?q\<close>, of 24 "- 149"] by (simp add: round_bits_zero)
  moreover have "(2::rat) powi 65 < 2 powi 128" by (rule powi_strict_mono) simp
  ultimately have "\<bar>?r ?q\<bar> < 2 powi 128" by linarith
  then have "isfinite (f32_div (f32_sub v lo) cellSize)" using f32_div_finite(1) [OF sub fin(3,4)] by simp
  then show "f32_val (f32_div (f32_sub v lo) cellSize) = ?r (?r (f32_val v - f32_val lo) / f32_val cellSize)"
    using f32_div_finite(2) [OF sub fin(3,4)] val by simp
qed

lemma cell_of_mono:
  assumes "axis_ok lo hi cellSize count" and "isfinite v" and "isfinite w"
    and "f32_val lo \<le> f32_val v" and "f32_val v \<le> f32_val w" and "f32_val w \<le> f32_val hi"
  shows "cell_of lo cellSize v count \<le> cell_of lo cellSize w count"
proof -
  let ?r = "round_bits 24 (- 149)"
  have "?r (f32_val v - f32_val lo) \<le> ?r (f32_val w - f32_val lo)"
    using assms(5) by (intro round_bits_mono) simp_all
  then have "?r (f32_val v - f32_val lo) / f32_val cellSize \<le> ?r (f32_val w - f32_val lo) / f32_val cellSize"
    using assms(1) by (simp add: axis_ok_def divide_right_mono)
  then have "f32_val (f32_div (f32_sub v lo) cellSize) \<le> f32_val (f32_div (f32_sub w lo) cellSize)"
    using relative(3) [OF assms(1,2,4)] relative(3) [OF assms(1,3) _ assms(6)] assms(4-6)
    by (simp add: round_bits_mono)
  from floor_mono [OF this] show ?thesis
    unfolding cell_of_def Let_def by (intro min.mono max.mono order_refl)
qed

definition grid_ok :: "interest_grid \<Rightarrow> bool" where
  "grid_ok g \<longleftrightarrow>
     axis_ok (nv_x (bx_minimum (ig_bounds g))) (nv_x (bx_maximum (ig_bounds g))) (ig_cellSize g) (ig_columns g)
     \<and> axis_ok (nv_z (bx_minimum (ig_bounds g))) (nv_z (bx_maximum (ig_bounds g))) (ig_cellSize g) (ig_rows g)
     \<and> length (ig_cells g) = nat (ig_columns g * ig_rows g)"

lemma CellIndex_range:
  assumes "grid_ok g"
  shows "0 \<le> CellIndex g p \<and> nat (CellIndex g p) < length (ig_cells g)"
proof -
  have c: "0 \<le> Column g (nv_x p)" "Column g (nv_x p) < ig_columns g"
    and r: "0 \<le> Row g (nv_z p)" "Row g (nv_z p) < ig_rows g"
    using assms cell_of_range by (simp_all add: grid_ok_def axis_ok_def Column_def Row_def)
  have nonneg: "0 \<le> CellIndex g p" using c r by (simp add: CellIndex_def)
  have "(Row g (nv_z p) + 1) * ig_columns g \<le> ig_rows g * ig_columns g"
    using r(2) c by (intro mult_right_mono) simp_all
  then have "CellIndex g p < ig_columns g * ig_rows g" using c(2) by (simp add: CellIndex_def algebra_simps)
  then show ?thesis using nonneg assms by (simp add: grid_ok_def)
qed

lemma InterestGrid_ok:
  assumes "InterestGrid bounds cellSize = Inr g" and "IsFinite (bx_minimum bounds)" and "IsFinite (bx_maximum bounds)"
  shows "grid_ok g \<and> ig_bounds g = bounds \<and> ig_cellSize g = cellSize"
proof -
  let ?e = "vec2_sub (bx_maximum bounds) (bx_minimum bounds)"
  let ?c = "\<lceil>f64 (f32_val (nv_x ?e) / f32_val cellSize)\<rceil>" and ?r = "\<lceil>f64 (f32_val (nv_z ?e) / f32_val cellSize)\<rceil>"
  have g: "isfinite cellSize" "\<not> f32_le cellSize 0" "\<not> f32_inf (nv_x ?e)" "\<not> f32_inf (nv_z ?e)"
    "1 \<le> ?c" "1 \<le> ?r" "?c \<le> 2 ^ 64" "?r \<le> 2 ^ 64"
    "g = \<lparr>ig_bounds = bounds, ig_cellSize = cellSize, ig_columns = ?c, ig_rows = ?r,
          ig_cells = replicate (nat (?c * ?r)) \<lparr>cl_actors = [], cl_loot = []\<rparr>\<rparr>"
    using assms(1) by (auto simp: InterestGrid_def Let_def not_less split: if_splits)
  have fin: "isfinite (nv_x (bx_minimum bounds))" "isfinite (nv_z (bx_minimum bounds))"
    "isfinite (nv_x (bx_maximum bounds))" "isfinite (nv_z (bx_maximum bounds))"
    using assms(2,3) by (simp_all add: IsFinite_def)
  have cell: "0 < f32_val cellSize" using g(1,2) by (simp add: f32_le_iff)
  have finite: "isfinite a" if "\<not> f32_inf a" "\<not> f32_nan a" for a
    using that by (simp add: isfinite_iff f32_inf_def f32_nan_iff)
  have bound: "x < 2 powi 65" if "\<lceil>f64 x\<rceil> \<le> 2 ^ 64" for x
  proof (rule ccontr)
    assume "\<not> x < 2 powi 65"
    then have "f64 (2 powi 65) \<le> f64 x" by (intro f64_mono) simp
    moreover have "f64 (2 powi 65) = 2 powi 65" by (rule f64_exact [of _ 1 65]) simp_all
    moreover have "f64 x \<le> of_int (2 ^ 64)" using that by (simp only: ceiling_le_iff)
    ultimately show False by simp
  qed
  have "isfinite (nv_x ?e)" "isfinite (nv_z ?e)"
    using g(3,4) f32_sub_finite(3) fin by (auto intro!: finite simp: vec2_sub_def)
  then show ?thesis
    using fin cell g(1,5,6) bound [OF g(7)] bound [OF g(8)]
    by (simp add: g(9) grid_ok_def axis_ok_def vec2_sub_def)
qed

section \<open>Building the cells\<close>

lemma fold_push_actor:
  assumes "\<forall>a \<in> set as. nat (CellIndex g (na_position a)) < length cells"
  shows "length (fold (push_actor g) as cells) = length cells
    \<and> (\<forall>i. i < length cells \<longrightarrow>
        set (cl_actors (fold (push_actor g) as cells ! i)) = set (cl_actors (cells ! i))
          \<union> {(na_id a, na_position a) | a. a \<in> set as \<and> nat (CellIndex g (na_position a)) = i}
        \<and> cl_loot (fold (push_actor g) as cells ! i) = cl_loot (cells ! i))"
  using assms
proof (induction as arbitrary: cells)
  case Nil
  then show ?case by simp
next
  case (Cons a as)
  let ?cells = "push_actor g a cells" and ?k = "nat (CellIndex g (na_position a))"
  have len: "length ?cells = length cells" by (simp add: push_actor_def Let_def)
  have at: "cl_actors (?cells ! i) = (if i = ?k then cl_actors (cells ! i) @ [(na_id a, na_position a)] else cl_actors (cells ! i))"
    "cl_loot (?cells ! i) = cl_loot (cells ! i)" if "i < length cells" for i
    using that by (cases "i = ?k"; simp add: push_actor_def Let_def nth_list_update)+
  have "\<forall>a \<in> set as. nat (CellIndex g (na_position a)) < length ?cells" using Cons.prems len by simp
  from Cons.IH [OF this] show ?case using at len by auto
qed

lemma fold_push_loot:
  assumes "\<forall>l \<in> set ls. nat (CellIndex g (nl_position l)) < length cells"
  shows "length (fold (push_loot g) ls cells) = length cells
    \<and> (\<forall>i. i < length cells \<longrightarrow>
        set (cl_loot (fold (push_loot g) ls cells ! i)) = set (cl_loot (cells ! i))
          \<union> {(nl_id l, nl_position l) | l. l \<in> set ls \<and> nl_active l \<and> nat (CellIndex g (nl_position l)) = i}
        \<and> cl_actors (fold (push_loot g) ls cells ! i) = cl_actors (cells ! i))"
  using assms
proof (induction ls arbitrary: cells)
  case Nil
  then show ?case by simp
next
  case (Cons l ls)
  let ?cells = "push_loot g l cells" and ?k = "nat (CellIndex g (nl_position l))"
  have len: "length ?cells = length cells" by (simp add: push_loot_def Let_def)
  have at: "cl_loot (?cells ! i) = (if nl_active l \<and> i = ?k then cl_loot (cells ! i) @ [(nl_id l, nl_position l)] else cl_loot (cells ! i))"
    "cl_actors (?cells ! i) = cl_actors (cells ! i)" if "i < length cells" for i
    using that by (cases "i = ?k"; simp add: push_loot_def Let_def nth_list_update)+
  have "\<forall>l \<in> set ls. nat (CellIndex g (nl_position l)) < length ?cells" using Cons.prems len by simp
  from Cons.IH [OF this] show ?case using at len by auto
qed

lemma check_positions_iff:
  "check_positions g ps = Inr () \<longleftrightarrow> (\<forall>p \<in> set ps. Aabb2_Contains (ig_bounds g) p)"
proof (induction ps)
  case (Cons p ps)
  have "check_position g p = Inr () \<longleftrightarrow> Aabb2_Contains (ig_bounds g) p"
    by (auto simp: check_position_def Aabb2_Contains_def)
  then show ?case using Cons by simp
qed simp

definition world_entries :: "game_snapshot \<Rightarrow> (entity_id \<times> network_vec2) set" where
  "world_entries w = {(na_id a, na_position a) | a. a \<in> set (gs_actors w)}"

definition world_loot_entries :: "game_snapshot \<Rightarrow> (u32 \<times> network_vec2) set" where
  "world_loot_entries w = {(nl_id l, nl_position l) | l. l \<in> set (gs_loot w) \<and> nl_active l}"

lemma Rebuild_cells:
  assumes "Rebuild w g = Inr g'" and "grid_ok g"
  shows "grid_ok g'" "ig_bounds g' = ig_bounds g"
    and "i < length (ig_cells g') \<Longrightarrow>
      set (cl_actors (ig_cells g' ! i)) = {e \<in> world_entries w. nat (CellIndex g' (snd e)) = i}"
    and "i < length (ig_cells g') \<Longrightarrow>
      set (cl_loot (ig_cells g' ! i)) = {e \<in> world_loot_entries w. nat (CellIndex g' (snd e)) = i}"
    and "\<forall>a \<in> set (gs_actors w). Aabb2_Contains (ig_bounds g) (na_position a)"
    and "\<forall>l \<in> set (gs_loot w). Aabb2_Contains (ig_bounds g) (nl_position l)"
proof -
  let ?none = "replicate (length (ig_cells g)) \<lparr>cl_actors = [], cl_loot = []\<rparr>"
  let ?as = "fold (push_actor g) (gs_actors w) ?none"
  let ?ls = "fold (push_loot g) (gs_loot w) ?as"
  have checks: "check_positions g (map na_position (gs_actors w)) = Inr ()"
    "check_positions g (map nl_position (gs_loot w)) = Inr ()"
    and g': "g' = g\<lparr>ig_cells := map sort_cell ?ls\<rparr>"
    using assms(1) by (auto simp: Rebuild_def Let_def split: if_splits)
  show "\<forall>a \<in> set (gs_actors w). Aabb2_Contains (ig_bounds g) (na_position a)"
    "\<forall>l \<in> set (gs_loot w). Aabb2_Contains (ig_bounds g) (nl_position l)"
    using checks by (simp_all add: check_positions_iff)
  have idx: "CellIndex g' p = CellIndex g p" for p
    by (simp add: g' CellIndex_def Row_def Column_def)
  have range: "nat (CellIndex g p) < length ?none" for p using CellIndex_range [OF assms(2)] by simp
  have a: "length ?as = length ?none" "i < length ?none \<Longrightarrow> set (cl_actors (?as ! i))
      = {(na_id a, na_position a) | a. a \<in> set (gs_actors w) \<and> nat (CellIndex g (na_position a)) = i}"
    "i < length ?none \<Longrightarrow> cl_loot (?as ! i) = []" for i
    using fold_push_actor [of "gs_actors w" g ?none] range by auto
  have l: "length ?ls = length ?none" "i < length ?none \<Longrightarrow> set (cl_loot (?ls ! i)) = set (cl_loot (?as ! i))
      \<union> {(nl_id l, nl_position l) | l. l \<in> set (gs_loot w) \<and> nl_active l \<and> nat (CellIndex g (nl_position l)) = i}"
    "i < length ?none \<Longrightarrow> cl_actors (?ls ! i) = cl_actors (?as ! i)" for i
    using fold_push_loot [of "gs_loot w" g ?as] range a(1) by auto
  show "grid_ok g'" "ig_bounds g' = ig_bounds g" using assms(2) l(1) by (simp_all add: g' grid_ok_def)
  assume "i < length (ig_cells g')"
  then have i: "i < length ?none" using l(1) by (simp add: g')
  have cell: "ig_cells g' ! i = sort_cell (?ls ! i)" using i l(1) by (simp add: g')
  show "set (cl_actors (ig_cells g' ! i)) = {e \<in> world_entries w. nat (CellIndex g' (snd e)) = i}"
    unfolding cell idx using a(2) [OF i] l(3) [OF i] by (auto simp: sort_cell_def world_entries_def)
  show "set (cl_loot (ig_cells g' ! i)) = {e \<in> world_loot_entries w. nat (CellIndex g' (snd e)) = i}"
    unfolding cell idx using a(3) [OF i] l(2) [OF i] by (auto simp: sort_cell_def world_loot_entries_def)
qed

section \<open>Queries\<close>

lemma SortAndDeduplicate:
  "sorted_wrt (<) (SortAndDeduplicate ids)" "set (SortAndDeduplicate ids) = set ids"
proof -
  have "sorted xs \<Longrightarrow> sorted_wrt (<) (remdups_adj xs)" for xs :: "'a list"
    by (induction xs rule: remdups_adj.induct) auto
  then show "sorted_wrt (<) (SortAndDeduplicate ids)" by (simp add: SortAndDeduplicate_def)
qed (simp add: SortAndDeduplicate_def)

text \<open>An entry is near when its distance is within the radius that applies to it, and inside the
  window when its cell is one of those that the query scans.\<close>

definition near :: "'k list \<Rightarrow> network_vec2 \<Rightarrow> f32 \<Rightarrow> f32 \<Rightarrow> 'k \<Rightarrow> network_vec2 \<Rightarrow> bool" where
  "near previous center enterRadius leaveRadius i position \<longleftrightarrow>
     f32_le (DistanceSquared position center)
       (if i \<in> set previous then f32_mul leaveRadius leaveRadius else f32_mul enterRadius enterRadius)"

definition in_window :: "interest_grid \<Rightarrow> network_vec2 \<Rightarrow> f32 \<Rightarrow> network_vec2 \<Rightarrow> bool" where
  "in_window g center leaveRadius position \<longleftrightarrow>
     (let low = bx_minimum (ig_bounds g); high = bx_maximum (ig_bounds g)
      in Column g (nv_x position) \<in> {Column g (f32_max (nv_x low) (f32_sub (nv_x center) leaveRadius))
              ..Column g (f32_min (nv_x high) (f32_add (nv_x center) leaveRadius))}
         \<and> Row g (nv_z position) \<in> {Row g (f32_max (nv_z low) (f32_sub (nv_z center) leaveRadius))
              ..Row g (f32_min (nv_z high) (f32_add (nv_z center) leaveRadius))})"

lemma set_visible_entries:
  "set (visible_entries prev c (f32_mul e e) (f32_mul l l) entries) = {i. \<exists>p. (i, p) \<in> set entries \<and> near prev c e l i p}"
  unfolding visible_entries_def near_def Let_def set_map set_filter by (auto simp: image_iff)

lemma set_scanned_cells:
  "set (scanned_cells g r1 r2 c1 c2) = {ig_cells g ! nat (r * ig_columns g + c) | r c. r \<in> {r1..r2} \<and> c \<in> {c1..c2}}"
  by (fastforce simp: scanned_cells_def)

lemma cell_index_inj:
  assumes "0 \<le> c" "c < n" "0 \<le> d" "d < n" "0 \<le> r" "0 \<le> (q::int)" "nat (r * n + c) = nat (q * n + d)"
  shows "r = q \<and> c = d"
proof -
  have n: "0 < n" using assms(1,2) by simp
  have "0 \<le> r * n + c" "0 \<le> q * n + d" using assms n by (simp_all add: add_nonneg_nonneg)
  then have eq: "r * n + c = q * n + d" using assms(7) by simp
  have "(r * n + c) div n = r" "(q * n + d) div n = q" using assms n by (simp_all add: div_pos_pos_trivial)
  then show ?thesis using eq by simp
qed

lemma scanned_entries:
  assumes "grid_ok g" and "\<And>i. i < length (ig_cells g) \<Longrightarrow> set (entries (ig_cells g ! i)) = {e \<in> E. nat (CellIndex g (snd e)) = i}"
  shows "(\<exists>cell \<in> set (scanned_cells g (Row g z1) (Row g z2) (Column g x1) (Column g x2)). e \<in> set (entries cell))
    \<longleftrightarrow> e \<in> E \<and> Column g (nv_x (snd e)) \<in> {Column g x1..Column g x2} \<and> Row g (nv_z (snd e)) \<in> {Row g z1..Row g z2}"
    (is "?scan \<longleftrightarrow> ?window")
proof -
  have col: "0 \<le> Column g x \<and> Column g x < ig_columns g" and row: "0 \<le> Row g z \<and> Row g z < ig_rows g" for x z
    using assms(1) cell_of_range by (simp_all add: grid_ok_def axis_ok_def Column_def Row_def)
  have len: "nat (r * ig_columns g + c) < length (ig_cells g)"
    if "0 \<le> c" "c < ig_columns g" "0 \<le> r" "r < ig_rows g" for r c
  proof -
    have "(r + 1) * ig_columns g \<le> ig_rows g * ig_columns g" using that by (intro mult_right_mono) simp_all
    then have "r * ig_columns g + c < ig_columns g * ig_rows g" using that by (simp add: algebra_simps)
    moreover have "0 \<le> r * ig_columns g + c" using that by simp
    ultimately show ?thesis using assms(1) by (simp add: grid_ok_def)
  qed
  have in_range: "0 \<le> c \<and> c < ig_columns g \<and> 0 \<le> r \<and> r < ig_rows g"
    if "r \<in> {Row g z1..Row g z2}" "c \<in> {Column g x1..Column g x2}" for r c
    using that col [of x1] col [of x2] row [of z1] row [of z2] by simp
  show ?thesis
  proof
    assume ?scan
    then obtain r c where rc: "r \<in> {Row g z1..Row g z2}" "c \<in> {Column g x1..Column g x2}"
        "e \<in> set (entries (ig_cells g ! nat (r * ig_columns g + c)))"
      unfolding set_scanned_cells by blast
    note range = in_range [OF rc(1,2)]
    have "e \<in> E" "nat (CellIndex g (snd e)) = nat (r * ig_columns g + c)"
      using rc(3) assms(2) [OF len] range by auto
    moreover from this(2) have "Row g (nv_z (snd e)) = r \<and> Column g (nv_x (snd e)) = c"
      using range col row unfolding CellIndex_def by (intro cell_index_inj) auto
    ultimately show ?window using rc(1,2) by simp
  next
    assume window: ?window
    let ?r = "Row g (nv_z (snd e))" and ?c = "Column g (nv_x (snd e))"
    have "e \<in> set (entries (ig_cells g ! nat (?r * ig_columns g + ?c)))"
      using window assms(2) [OF len] col row by (simp add: CellIndex_def)
    moreover have "ig_cells g ! nat (?r * ig_columns g + ?c)
        \<in> set (scanned_cells g (Row g z1) (Row g z2) (Column g x1) (Column g x2))"
      unfolding set_scanned_cells using window by blast
    ultimately show ?scan by blast
  qed
qed

text \<open>What the query returns for a grid that holds a world.\<close>

definition visible_in :: "interest_grid \<Rightarrow> 'k list \<Rightarrow> network_vec2 \<Rightarrow> f32 \<Rightarrow> f32 \<Rightarrow> ('k \<times> network_vec2) \<Rightarrow> bool" where
  "visible_in g previous center enterRadius leaveRadius e \<longleftrightarrow>
     in_window g center leaveRadius (snd e) \<and> near previous center enterRadius leaveRadius (fst e) (snd e)"

lemma UpdateVisibility_set:
  assumes "UpdateVisibility g prev center er lr = Inr v" and "Rebuild w g0 = Inr g" and "grid_ok g0"
  shows "set (vs_actors v) = {i. \<exists>p. (i, p) \<in> world_entries w \<and> visible_in g (vs_actors prev) center er lr (i, p)}"
    and "set (vs_loot v) = {i. \<exists>p. (i, p) \<in> world_loot_entries w \<and> visible_in g (vs_loot prev) center er lr (i, p)}"
    and "sorted_wrt (<) (vs_actors v)" "sorted_wrt (<) (vs_loot v)"
proof -
  note cells = Rebuild_cells [OF assms(2,3)]
  let ?b = "ig_bounds g"
  let ?scan = "scanned_cells g
      (Row g (f32_max (nv_z (bx_minimum ?b)) (f32_sub (nv_z center) lr)))
      (Row g (f32_min (nv_z (bx_maximum ?b)) (f32_add (nv_z center) lr)))
      (Column g (f32_max (nv_x (bx_minimum ?b)) (f32_sub (nv_x center) lr)))
      (Column g (f32_min (nv_x (bx_maximum ?b)) (f32_add (nv_x center) lr)))"
  have v: "v = \<lparr>vs_actors = SortAndDeduplicate (concat (map (\<lambda>cell. visible_entries (vs_actors prev)
                 center (f32_mul er er) (f32_mul lr lr) (cl_actors cell)) ?scan)),
               vs_loot = SortAndDeduplicate (concat (map (\<lambda>cell. visible_entries (vs_loot prev)
                 center (f32_mul er er) (f32_mul lr lr) (cl_loot cell)) ?scan))\<rparr>"
    using assms(1) by (auto simp: UpdateVisibility_def Let_def split: if_splits)
  show "sorted_wrt (<) (vs_actors v)" "sorted_wrt (<) (vs_loot v)" by (simp_all add: v SortAndDeduplicate(1))
  have actors: "(\<exists>cell \<in> set ?scan. (i, p) \<in> set (cl_actors cell)) \<longleftrightarrow> (i, p) \<in> world_entries w \<and> in_window g center lr p" for i p
    using scanned_entries [OF cells(1,3), where e = "(i, p)"] by (simp add: in_window_def Let_def)
  have loot: "(\<exists>cell \<in> set ?scan. (i, p) \<in> set (cl_loot cell)) \<longleftrightarrow> (i, p) \<in> world_loot_entries w \<and> in_window g center lr p" for i p
    using scanned_entries [OF cells(1,4), where e = "(i, p)"] by (simp add: in_window_def Let_def)
  have "set (vs_actors v) = {i. \<exists>p. (\<exists>cell \<in> set ?scan. (i, p) \<in> set (cl_actors cell)) \<and> near (vs_actors prev) center er lr i p}"
    by (auto simp: v SortAndDeduplicate(2) set_visible_entries)
  then show "set (vs_actors v) = {i. \<exists>p. (i, p) \<in> world_entries w \<and> visible_in g (vs_actors prev) center er lr (i, p)}"
    unfolding actors visible_in_def by (auto simp: conj_ac)
  have "set (vs_loot v) = {i. \<exists>p. (\<exists>cell \<in> set ?scan. (i, p) \<in> set (cl_loot cell)) \<and> near (vs_loot prev) center er lr i p}"
    by (auto simp: v SortAndDeduplicate(2) set_visible_entries)
  then show "set (vs_loot v) = {i. \<exists>p. (i, p) \<in> world_loot_entries w \<and> visible_in g (vs_loot prev) center er lr (i, p)}"
    unfolding loot visible_in_def by (auto simp: conj_ac)
qed

text \<open>A position that compares equal to the center is in its window and near it. The two zeros
  compare equal, so the floats need not be the same.\<close>

lemma vec2_eq_val:
  assumes "vec2_eq p c" and "IsFinite p" and "IsFinite c"
  shows "f32_val (nv_x p) = f32_val (nv_x c)" "f32_val (nv_z p) = f32_val (nv_z c)"
proof -
  have eq: "f32_val a = f32_val b" if "f32_eq a b" "isfinite a" "isfinite b" for a b
    using f32_le_iff [of a b] f32_le_iff [of b a] that by (simp add: f32_le_def f32_eq_def)
  show "f32_val (nv_x p) = f32_val (nv_x c)" "f32_val (nv_z p) = f32_val (nv_z c)"
    using assms by (auto simp: vec2_eq_def IsFinite_def intro: eq)
qed

lemma vec2_eq_refl: "IsFinite p \<Longrightarrow> vec2_eq p p"
  by (simp add: vec2_eq_def f32_eq_def IsFinite_def)

lemma in_window_center:
  assumes "grid_ok g" and "Aabb2_Contains (ig_bounds g) c" and "isfinite r" and "0 \<le> f32_val r"
    and "IsFinite p" and "vec2_eq p c"
  shows "in_window g c r p"
proof -
  let ?lo = "bx_minimum (ig_bounds g)" and ?hi = "bx_maximum (ig_bounds g)"
  have ax: "axis_ok (nv_x ?lo) (nv_x ?hi) (ig_cellSize g) (ig_columns g)"
    and az: "axis_ok (nv_z ?lo) (nv_z ?hi) (ig_cellSize g) (ig_rows g)"
    using assms(1) by (simp_all add: grid_ok_def)
  then have fin: "isfinite (nv_x ?lo)" "isfinite (nv_x ?hi)" "isfinite (nv_z ?lo)" "isfinite (nv_z ?hi)"
    by (simp_all add: axis_ok_def)
  have p: "isfinite (nv_x p)" "isfinite (nv_z p)" using assms(5) by (simp_all add: IsFinite_def)
  have c: "isfinite (nv_x c)" "isfinite (nv_z c)"
    "f32_val (nv_x ?lo) \<le> f32_val (nv_x c)" "f32_val (nv_x c) \<le> f32_val (nv_x ?hi)"
    "f32_val (nv_z ?lo) \<le> f32_val (nv_z c)" "f32_val (nv_z c) \<le> f32_val (nv_z ?hi)"
    using assms(2) fin f32_le_iff by (auto simp: Aabb2_Contains_def IsFinite_def)
  have eq: "f32_val (nv_x p) = f32_val (nv_x c)" "f32_val (nv_z p) = f32_val (nv_z c)"
    using vec2_eq_val [OF assms(6,5)] assms(2) by (simp_all add: Aabb2_Contains_def)
  note x1 = f32_max_between [OF fin(1) c(1) assms(3) c(3) assms(4)]
  note x2 = f32_min_between [OF fin(2) c(1) assms(3) c(4) assms(4)]
  note z1 = f32_max_between [OF fin(3) c(2) assms(3) c(5) assms(4)]
  note z2 = f32_min_between [OF fin(4) c(2) assms(3) c(6) assms(4)]
  show ?thesis
    using cell_of_mono [OF ax _ p(1), of "f32_max (nv_x ?lo) (f32_sub (nv_x c) r)"] x1 c(4)
      cell_of_mono [OF ax p(1), of "f32_min (nv_x ?hi) (f32_add (nv_x c) r)"] x2 c(3)
      cell_of_mono [OF az _ p(2), of "f32_max (nv_z ?lo) (f32_sub (nv_z c) r)"] z1 c(6)
      cell_of_mono [OF az p(2), of "f32_min (nv_z ?hi) (f32_add (nv_z c) r)"] z2 c(5)
    by (simp add: in_window_def Let_def Column_def Row_def eq)
qed

lemma near_center:
  assumes "IsFinite c" and "isfinite er" and "isfinite lr" and "IsFinite p" and "vec2_eq p c"
  shows "near prev c er lr i p"
proof -
  have square: "f32_mul (f32_sub a b) (f32_sub a b) = 0"
    if "isfinite a" "isfinite b" "f32_val a = f32_val b" for a b
  proof -
    have "isfinite (f32_sub a b)" "f32_val (f32_sub a b) = 0"
      using f32_sub_finite [OF that(1,2)] that(3) by (simp_all add: round_bits_zero)
    moreover from this(1) have "\<not> f32_inf (f32_sub a b)" "\<not> f32_nan (f32_sub a b)" by simp_all
    ultimately show ?thesis
      by (simp add: f32_mul_def f32_of_rat_def round_pos_def encode_magnitude_def with_sign_def Let_def)
  qed
  have "DistanceSquared p c = 0"
    using assms(1,4) vec2_eq_val [OF assms(5,4,1)]
    by (simp add: DistanceSquared_def LengthSquared_def Dot_def vec2_sub_def square
        IsFinite_def f32_add_def with_sign_def f32_inf_def)
  then show ?thesis
    using f32_mul_square [OF assms(2)] f32_mul_square [OF assms(3)] by (simp add: near_def f32_le_zero)
qed

lemma center_visible:
  assumes "UpdateVisibility g prev c er lr = Inr v" and "Rebuild w g0 = Inr g" and "grid_ok g0"
    and "a \<in> set (gs_actors w)" and "vec2_eq (na_position a) c"
  shows "na_id a \<in> set (vs_actors v)"
proof -
  note cells = Rebuild_cells [OF assms(2,3)]
  have a: "IsFinite (na_position a)" using cells(5) assms(4) by (simp add: Aabb2_Contains_def)
  have query: "isfinite er" "isfinite lr" "\<not> f32_le er 0" "\<not> f32_less lr er" "Aabb2_Contains (ig_bounds g) c"
    using assms(1) by (auto simp: UpdateVisibility_def Let_def split: if_splits)
  then have "0 \<le> f32_val lr" using f32_le_iff [of er 0] f32_less_iff [of lr er] by simp
  then have "in_window g c lr (na_position a)"
    using in_window_center [OF cells(1) query(5,2) _ a assms(5)] by simp
  moreover have "near (vs_actors prev) c er lr (na_id a) (na_position a)"
    using query a assms(5) by (intro near_center) (simp_all add: Aabb2_Contains_def)
  moreover have "(na_id a, na_position a) \<in> world_entries w" using assms(4) by (auto simp: world_entries_def)
  ultimately show ?thesis
    unfolding UpdateVisibility_set(1) [OF assms(1-3)] visible_in_def by auto
qed

text \<open>The query returns whenever its arguments are those of the replicator.\<close>

lemma UpdateVisibility_returns:
  assumes "sorted_wrt (<) (vs_actors prev)" and "sorted_wrt (<) (vs_loot prev)"
    and "isfinite er" and "isfinite lr" and "0 < f32_val er" and "f32_val er \<le> f32_val lr"
    and "Aabb2_Contains (ig_bounds g) center"
  shows "\<exists>v. UpdateVisibility g prev center er lr = Inr v"
proof -
  have adj: "\<not> adjacent_equal (\<lambda>i. i) ids" if "sorted_wrt (<) ids" for ids :: "'a::linorder list"
    using that sorted_adjacent_distinct [of "\<lambda>i. i" ids] by (auto simp: strict_sorted_iff)
  have "ValidatePreviousIds (vs_actors prev) = Inr ()" "ValidatePreviousIds (vs_loot prev) = Inr ()"
    using assms(1,2) adj by (simp_all add: ValidatePreviousIds_def strict_sorted_iff)
  then show ?thesis
    using assms(3-) by (simp add: UpdateVisibility_def f32_le_iff f32_less_iff Aabb2_Contains_def Let_def)
qed

end
