(* ===== verification/SnapshotReplicator.thy ===== *)
theory SnapshotReplicator
  imports InterestGridLemmas GameTcpCodec
begin

text \<open>
  apps/game\_server/src/SnapshotReplicator.cpp: what each recipient is sent. The state of a
  recipient is what it saw last, which snapshot it acknowledged, and the quantized views it may
  still have. A call that throws leaves the state as it was: everything that can throw comes before
  the first change.
\<close>

section \<open>Configuration and state\<close>

record replication_config =
  rf_mode :: replication_mode
  rf_cellSize :: f32
  rf_enterRadius :: f32
  rf_leaveRadius :: f32
  rf_keyframeIntervalSnapshots :: u32
  rf_maximumBaselinesPerRecipient :: nat

record replication_build =
  rb_payload :: snapshot_payload
  rb_encodedPayload :: "byte list"
  rb_visibleActorCount :: u32
  rb_visibleLootCount :: u32
  rb_keyframe :: bool
  rb_fallbackKeyframe :: bool

record replication_baseline =
  bs_snapshotId :: u32
  bs_view :: quantized_view

record replication_recipient =
  rr_controlledActor :: entity_id
  rr_visible :: visible_set
  rr_issuedHighWatermark :: u32
  rr_acknowledgedSnapshotId :: u32
  rr_buildOrdinal :: u32
  rr_lastKeyframeOrdinal :: u32
  rr_keyframeRequested :: bool
  rr_baselines :: "replication_baseline list"

record replicator =
  rx_config :: replication_config
  rx_bounds :: aabb2
  rx_minimum :: network_vec2
  rx_maximum :: network_vec2
  rx_radiusMaximum :: f32
  rx_grid :: interest_grid
  rx_gridSnapshotId :: "u32 option"
  rx_gridWorld :: "game_snapshot option"
  rx_recipients :: "(player_id, replication_recipient) omap"

text \<open>\<^verbatim>\<open>IsValidMode\<close> accepts all four modes, which are all the values here.\<close>

definition ValidateReplicationConfig :: "replication_config \<Rightarrow> replication_config throws" where
  "ValidateReplicationConfig config =
     (if \<not> isfinite (rf_cellSize config) \<or> \<not> isfinite (rf_enterRadius config)
         \<or> \<not> isfinite (rf_leaveRadius config)
         \<or> f32_le (rf_cellSize config) 0 \<or> f32_le (rf_enterRadius config) 0
         \<or> f32_less (rf_leaveRadius config) (rf_enterRadius config)
         \<or> rf_keyframeIntervalSnapshots config = 0
         \<or> rf_maximumBaselinesPerRecipient config = 0
         \<or> 32 < rf_maximumBaselinesPerRecipient config
      then Inl Invalid_argument else Inr config)"

fun bounds_loop :: "network_vec2 list \<Rightarrow> network_vec2 \<Rightarrow> network_vec2 \<Rightarrow> (network_vec2 \<times> network_vec2) throws" where
  "bounds_loop [] minimum maximum = Inr (minimum, maximum)"
| "bounds_loop (vertex # vertices) minimum maximum =
     (if \<not> IsFinite vertex then Inl Invalid_argument
      else bounds_loop vertices
             \<lparr>nv_x = f32_min (nv_x minimum) (nv_x vertex), nv_z = f32_min (nv_z minimum) (nv_z vertex)\<rparr>
             \<lparr>nv_x = f32_max (nv_x maximum) (nv_x vertex), nv_z = f32_max (nv_z maximum) (nv_z vertex)\<rparr>)"

definition ArenaBounds :: "network_vec2 list \<Rightarrow> aabb2 throws" where
  "ArenaBounds vertices =
     (case vertices of
        [] \<Rightarrow> Inl Invalid_argument
      | front # _ \<Rightarrow>
          bind_throws (bounds_loop vertices front front) (\<lambda>(minimum, maximum).
            if f32_le (nv_x maximum) (nv_x minimum) \<or> f32_le (nv_z maximum) (nv_z minimum)
            then Inl Invalid_argument
            else Aabb2_Create minimum maximum))"

text \<open>The constructor, for the vertices of an arena. \<open>0x3F000000\<close> is the float 0.5.\<close>

definition SnapshotReplicator :: "network_vec2 list \<Rightarrow> replication_config \<Rightarrow> replicator throws" where
  "SnapshotReplicator vertices requestedConfig =
     bind_throws (ValidateReplicationConfig requestedConfig) (\<lambda>config.
     bind_throws (ArenaBounds vertices) (\<lambda>bounds.
     bind_throws (InterestGrid bounds (rf_cellSize config)) (\<lambda>grid.
       let minimum = bx_minimum bounds; maximum = bx_maximum bounds
       in Inr \<lparr>rx_config = config, rx_bounds = bounds, rx_minimum = minimum, rx_maximum = maximum,
               rx_radiusMaximum = f32_mul (f32_max (f32_sub (nv_x maximum) (nv_x minimum))
                                                   (f32_sub (nv_z maximum) (nv_z minimum))) 0x3F000000,
               rx_grid = grid, rx_gridSnapshotId = None, rx_gridWorld = None, rx_recipients = []\<rparr>)))"

section \<open>Views\<close>

definition HasCanonicalWorldIds :: "game_snapshot \<Rightarrow> bool" where
  "HasCanonicalWorldIds world \<longleftrightarrow>
     successively (\<lambda>a b. na_id a < na_id b) (gs_actors world)
     \<and> successively (\<lambda>a b. nl_id a < nl_id b) (gs_loot world)"

definition find_in :: "('v \<Rightarrow> 'k::linorder) \<Rightarrow> 'v list \<Rightarrow> 'k \<Rightarrow> 'v option" where
  "find_in key values' i =
     (let found = FindById key values' i
      in if found_at key values' i found then Some (values' ! found) else None)"

definition FindActor :: "game_snapshot \<Rightarrow> entity_id \<Rightarrow> network_actor option" where
  "FindActor world i = find_in na_id (gs_actors world) i"

definition FindLoot :: "game_snapshot \<Rightarrow> u32 \<Rightarrow> network_loot option" where
  "FindLoot world i = find_in nl_id (gs_loot world) i"

definition CopyGlobalState :: "game_snapshot \<Rightarrow> game_snapshot \<Rightarrow> game_snapshot" where
  "CopyGlobalState source destination =
     destination\<lparr>gs_phase := gs_phase source, gs_safeZoneStage := gs_safeZoneStage source,
                 gs_safeZoneCenter := gs_safeZoneCenter source,
                 gs_safeZoneRadius := gs_safeZoneRadius source,
                 gs_aliveContenders := gs_aliveContenders source,
                 gs_result := gs_result source, gs_hasResult := gs_hasResult source,
                 gs_eventChecksum := gs_eventChecksum source\<rparr>"

definition FilterWorld :: "game_snapshot \<Rightarrow> visible_set \<Rightarrow> game_snapshot throws" where
  "FilterWorld world visible =
     bind_throws (map_throws (\<lambda>i. case FindActor world i of None \<Rightarrow> Inl Logic_error | Some actor \<Rightarrow> Inr actor)
                    (vs_actors visible)) (\<lambda>actors.
     bind_throws (map_throws (\<lambda>i. case FindLoot world i of
                                    None \<Rightarrow> Inl Logic_error
                                  | Some loot \<Rightarrow> if nl_active loot then Inr loot else Inl Logic_error)
                    (vs_loot visible)) (\<lambda>loot.
       Inr ((CopyGlobalState world default_game_snapshot)\<lparr>gs_actors := actors, gs_loot := loot\<rparr>)))"

definition QuantizePosition :: "network_vec2 \<Rightarrow> network_vec2 \<Rightarrow> network_vec2 \<Rightarrow> quantized_vec2 throws" where
  "QuantizePosition position minimum maximum =
     bind_throws (QuantizeCoordinate (nv_x position) (nv_x minimum) (nv_x maximum)) (\<lambda>x.
     bind_throws (QuantizeCoordinate (nv_z position) (nv_z minimum) (nv_z maximum)) (\<lambda>z.
       Inr \<lparr>qv_x = x, qv_z = z\<rparr>))"

definition QuantizeActor :: "network_vec2 \<Rightarrow> network_vec2 \<Rightarrow> network_actor \<Rightarrow> quantized_actor throws" where
  "QuantizeActor minimum maximum actor =
     bind_throws (QuantizePosition (na_position actor) minimum maximum) (\<lambda>position.
     bind_throws (QuantizeHealth (na_health actor)) (\<lambda>health.
     bind_throws (QuantizeCooldownTicks (na_cooldownTicksRemaining actor)) (\<lambda>cooldown.
     bind_throws (QuantizeEliminations (na_eliminations actor)) (\<lambda>eliminations.
       Inr \<lparr>qa_id = na_id actor, qa_role = na_role actor, qa_neutralArchetype = na_neutralArchetype actor,
            qa_position = position, qa_health = health, qa_alive = na_alive actor,
            qa_weapon = na_weapon actor, qa_cooldownTicksRemaining = cooldown,
            qa_eliminations = eliminations\<rparr>))))"

definition QuantizeLoot :: "network_vec2 \<Rightarrow> network_vec2 \<Rightarrow> network_loot \<Rightarrow> quantized_loot throws" where
  "QuantizeLoot minimum maximum loot =
     bind_throws (QuantizePosition (nl_position loot) minimum maximum) (\<lambda>position.
       Inr \<lparr>ql_id = nl_id loot, ql_type = nl_type loot, ql_position = position, ql_active = nl_active loot\<rparr>)"

definition QuantizeGlobal ::
    "game_snapshot \<Rightarrow> network_vec2 \<Rightarrow> network_vec2 \<Rightarrow> f32 \<Rightarrow> quantized_global throws" where
  "QuantizeGlobal world minimum maximum radiusMaximum =
     bind_throws (QuantizePosition (gs_safeZoneCenter world) minimum maximum) (\<lambda>center.
     bind_throws (QuantizeSafeZoneRadius (gs_safeZoneRadius world) radiusMaximum) (\<lambda>radius.
     bind_throws (QuantizeAliveContenders (gs_aliveContenders world)) (\<lambda>alive.
       Inr \<lparr>qg_phase = gs_phase world, qg_safeZoneStage = gs_safeZoneStage world,
            qg_safeZoneCenter = center, qg_safeZoneRadius = radius, qg_aliveContenders = alive,
            qg_result = gs_result world, qg_hasResult = gs_hasResult world,
            qg_eventChecksum = gs_eventChecksum world\<rparr>)))"

definition QuantizeView ::
    "game_snapshot \<Rightarrow> network_vec2 \<Rightarrow> network_vec2 \<Rightarrow> f32 \<Rightarrow> quantized_view throws" where
  "QuantizeView filtered minimum maximum radiusMaximum =
     bind_throws (QuantizeGlobal filtered minimum maximum radiusMaximum) (\<lambda>global.
     bind_throws (map_throws (QuantizeActor minimum maximum) (gs_actors filtered)) (\<lambda>actors.
     bind_throws (map_throws (QuantizeLoot minimum maximum) (gs_loot filtered)) (\<lambda>loot.
       Inr \<lparr>vw_global = global, vw_actors = actors, vw_loot = loot\<rparr>)))"

definition BuildQuantizedKeyframe :: "u32 \<Rightarrow> quantized_view \<Rightarrow> snapshot_payload" where
  "BuildQuantizedKeyframe snapshotId view =
     (payload_with_header \<lparr>ph_kind = KindKeyframe, ph_valueEncoding = EncodingQuantized,
                           ph_baseSnapshotId = 0, ph_payloadSnapshotId = snapshotId\<rparr>)
       \<lparr>sp_global := vw_global view, sp_actorValues := vw_actors view, sp_lootValues := vw_loot view\<rparr>"

section \<open>Recipients\<close>

definition RecipientFor :: "player_id \<Rightarrow> replicator \<Rightarrow> replication_recipient throws" where
  "RecipientFor player r =
     (case map_of (rx_recipients r) player of None \<Rightarrow> Inl Out_of_range | Some recipient \<Rightarrow> Inr recipient)"

definition set_recipient :: "player_id \<Rightarrow> replication_recipient \<Rightarrow> replicator \<Rightarrow> replicator" where
  "set_recipient player recipient r = r\<lparr>rx_recipients := om_set player recipient (rx_recipients r)\<rparr>"

definition new_recipient :: "entity_id \<Rightarrow> replication_recipient" where
  "new_recipient controlledActor =
     \<lparr>rr_controlledActor = controlledActor, rr_visible = \<lparr>vs_actors = [], vs_loot = []\<rparr>,
      rr_issuedHighWatermark = 0, rr_acknowledgedSnapshotId = 0, rr_buildOrdinal = 0,
      rr_lastKeyframeOrdinal = 0, rr_keyframeRequested = False, rr_baselines = []\<rparr>"

definition RegisterRecipient :: "player_id \<Rightarrow> entity_id \<Rightarrow> replicator \<Rightarrow> replicator throws" where
  "RegisterRecipient player controlledActor r =
     (if map_of (rx_recipients r) player \<noteq> None
         \<or> (\<exists>entry \<in> set (rx_recipients r). rr_controlledActor (snd entry) = controlledActor)
      then Inl Invalid_argument
      else Inr (set_recipient player (new_recipient controlledActor) r))"

definition RemoveRecipient :: "player_id \<Rightarrow> replicator \<Rightarrow> replicator" where
  "RemoveRecipient player r = r\<lparr>rx_recipients := om_erase player (rx_recipients r)\<rparr>"

definition AcceptAcknowledgement :: "player_id \<Rightarrow> u32 \<Rightarrow> replicator \<Rightarrow> (bool \<times> replicator) throws" where
  "AcceptAcknowledgement player snapshotId r =
     bind_throws (RecipientFor player r) (\<lambda>recipient.
       if snapshotId = 0 \<or> rr_issuedHighWatermark recipient < snapshotId then Inr (False, r)
       else if rr_acknowledgedSnapshotId recipient < snapshotId
       then Inr (True, set_recipient player
              (recipient\<lparr>rr_acknowledgedSnapshotId := snapshotId,
                         rr_baselines := dropWhile (\<lambda>b. bs_snapshotId b < snapshotId) (rr_baselines recipient)\<rparr>) r)
       else Inr (True, r))"

definition ReplicatorRequestKeyframe :: "player_id \<Rightarrow> replicator \<Rightarrow> replicator throws" where
  "ReplicatorRequestKeyframe player r =
     bind_throws (RecipientFor player r) (\<lambda>recipient.
       Inr (set_recipient player (recipient\<lparr>rr_keyframeRequested := True\<rparr>) r))"

text \<open>The loop of \<^verbatim>\<open>StoreBaseline\<close>: the oldest baseline is dropped, but for the
  acknowledged one, which is kept while there is room for another.\<close>

function trim_baselines :: "nat \<Rightarrow> u32 \<Rightarrow> replication_baseline list \<Rightarrow> replication_baseline list" where
  "trim_baselines maximum acknowledged baselines =
     (if maximum < length baselines
      then
        let frontIsAcknowledged = (acknowledged \<noteq> 0 \<and> bs_snapshotId (hd baselines) = acknowledged)
        in trim_baselines maximum acknowledged
             (if frontIsAcknowledged \<and> 1 < maximum then hd baselines # drop 2 baselines else tl baselines)
      else baselines)"
  by auto
termination by (relation "measure (\<lambda>(maximum, acknowledged, baselines). length baselines)") auto

declare trim_baselines.simps [simp del]

definition StoreBaseline ::
    "nat \<Rightarrow> u32 \<Rightarrow> quantized_view \<Rightarrow> replication_recipient \<Rightarrow> replication_recipient" where
  "StoreBaseline maximum snapshotId view recipient =
     recipient\<lparr>rr_baselines := trim_baselines maximum (rr_acknowledgedSnapshotId recipient)
                 (rr_baselines recipient @ [\<lparr>bs_snapshotId = snapshotId, bs_view = view\<rparr>])\<rparr>"

definition FindServerBaseline :: "replication_recipient \<Rightarrow> u32 \<Rightarrow> replication_baseline option" where
  "FindServerBaseline recipient snapshotId =
     find (\<lambda>baseline. bs_snapshotId baseline = snapshotId) (rr_baselines recipient)"

section \<open>Build\<close>

text \<open>The grid to query, and the new grid if one was built.\<close>

definition PrepareGrid :: "u32 \<Rightarrow> game_snapshot \<Rightarrow> replicator \<Rightarrow> (interest_grid \<times> interest_grid option) throws" where
  "PrepareGrid snapshotId world r =
     (if rx_gridSnapshotId r = Some snapshotId
      then (case rx_gridWorld r of
              None \<Rightarrow> Inl Invalid_argument
            | Some gridWorld \<Rightarrow>
                if \<not> snapshot_eq gridWorld world then Inl Invalid_argument else Inr (rx_grid r, None))
      else if (case rx_gridSnapshotId r of None \<Rightarrow> False | Some i \<Rightarrow> snapshotId < i) then Inl Invalid_argument
      else
        bind_throws (InterestGrid (rx_bounds r) (rf_cellSize (rx_config r))) (\<lambda>candidate.
        bind_throws (Rebuild world candidate) (\<lambda>candidate.
          Inr (candidate, Some candidate))))"

definition CommitGrid :: "u32 \<Rightarrow> game_snapshot \<Rightarrow> interest_grid option \<Rightarrow> replicator \<Rightarrow> replicator" where
  "CommitGrid snapshotId world candidate r =
     (case candidate of
        None \<Rightarrow> r
      | Some grid \<Rightarrow> r\<lparr>rx_grid := grid, rx_gridSnapshotId := Some snapshotId, rx_gridWorld := Some world\<rparr>)"

definition BuildFullState ::
    "player_id \<Rightarrow> u32 \<Rightarrow> game_snapshot \<Rightarrow> replication_recipient \<Rightarrow> replicator
     \<Rightarrow> (replication_build \<times> replicator) throws" where
  "BuildFullState player snapshotId world recipient r =
     (let payload = (payload_with_header \<lparr>ph_kind = KindFullState, ph_valueEncoding = EncodingFullPrecision,
                       ph_baseSnapshotId = 0, ph_payloadSnapshotId = snapshotId\<rparr>)
                       \<lparr>sp_fullPrecision := world\<rparr>
      in bind_throws (EncodeSnapshotPayload payload) (\<lambda>encoded.
           Inr (\<lparr>rb_payload = payload, rb_encodedPayload = encoded,
                 rb_visibleActorCount = of_nat (length (gs_actors world)),
                 rb_visibleLootCount = of_nat (length (gs_loot world)),
                 rb_keyframe = False, rb_fallbackKeyframe = False\<rparr>,
                set_recipient player
                  (recipient\<lparr>rr_issuedHighWatermark := snapshotId,
                             rr_buildOrdinal := rr_buildOrdinal recipient + 1,
                             rr_keyframeRequested := False\<rparr>) r)))"

text \<open>The payload of the other modes, with the view to remember, whether it is a keyframe, and
  whether it is one for want of the acknowledged baseline.\<close>

definition BuildPayload ::
    "u32 \<Rightarrow> game_snapshot \<Rightarrow> replication_recipient \<Rightarrow> replicator
     \<Rightarrow> (snapshot_payload \<times> quantized_view option \<times> bool \<times> bool) throws" where
  "BuildPayload snapshotId filtered recipient r =
     (if rf_mode (rx_config r) = InterestFullPrecision
      then Inr ((payload_with_header \<lparr>ph_kind = KindKeyframe, ph_valueEncoding = EncodingFullPrecision,
                   ph_baseSnapshotId = 0, ph_payloadSnapshotId = snapshotId\<rparr>)
                   \<lparr>sp_fullPrecision := filtered\<rparr>, None, True, False)
      else
        bind_throws (QuantizeView filtered (rx_minimum r) (rx_maximum r) (rx_radiusMaximum r)) (\<lambda>currentView.
          if rf_mode (rx_config r) = InterestDelta
          then
            let acknowledgedSnapshotId = rr_acknowledgedSnapshotId recipient;
                acknowledgedBaseline = FindServerBaseline recipient acknowledgedSnapshotId;
                nextOrdinal = rr_buildOrdinal recipient + 1;
                periodicKeyframe = (rr_lastKeyframeOrdinal recipient = 0
                  \<or> rf_keyframeIntervalSnapshots (rx_config r)
                      \<le> nextOrdinal - rr_lastKeyframeOrdinal recipient);
                missingAcknowledgedBaseline = (acknowledgedSnapshotId = 0 \<or> acknowledgedBaseline = None);
                makeKeyframe = (rr_keyframeRequested recipient \<or> periodicKeyframe
                  \<or> missingAcknowledgedBaseline);
                fallbackKeyframe = (acknowledgedSnapshotId \<noteq> 0 \<and> acknowledgedBaseline = None)
            in if makeKeyframe
               then Inr (BuildQuantizedKeyframe snapshotId currentView, Some currentView, True, fallbackKeyframe)
               else bind_throws (BuildDeltaPayload acknowledgedSnapshotId snapshotId
                                   (bs_view (the acknowledgedBaseline)) currentView) (\<lambda>payload.
                      Inr (payload, Some currentView, False, fallbackKeyframe))
          else Inr (BuildQuantizedKeyframe snapshotId currentView, Some currentView, True, False)))"

text \<open>What the recipient is after its payload was encoded.\<close>

definition CommitRecipient ::
    "nat \<Rightarrow> u32 \<Rightarrow> visible_set \<Rightarrow> quantized_view option \<Rightarrow> bool \<Rightarrow> replication_recipient \<Rightarrow> replication_recipient" where
  "CommitRecipient maximum snapshotId visible currentView keyframe recipient =
     (let recipient = (case currentView of
            None \<Rightarrow> recipient
          | Some view \<Rightarrow> StoreBaseline maximum snapshotId view recipient);
          recipient = recipient\<lparr>rr_visible := visible, rr_issuedHighWatermark := snapshotId,
                                rr_buildOrdinal := rr_buildOrdinal recipient + 1\<rparr>;
          recipient = (if keyframe
            then recipient\<lparr>rr_lastKeyframeOrdinal := rr_buildOrdinal recipient\<rparr> else recipient)
      in recipient\<lparr>rr_keyframeRequested := False\<rparr>)"

definition BuildInterest ::
    "player_id \<Rightarrow> u32 \<Rightarrow> game_snapshot \<Rightarrow> replication_recipient \<Rightarrow> replicator
     \<Rightarrow> (replication_build \<times> replicator) throws" where
  "BuildInterest player snapshotId world recipient r =
     (if \<not> HasCanonicalWorldIds world then Inl Invalid_argument
      else
        case FindActor world (rr_controlledActor recipient) of
          None \<Rightarrow> Inl Logic_error
        | Some controlledActor \<Rightarrow>
            bind_throws (PrepareGrid snapshotId world r) (\<lambda>(queryGrid, candidateGrid).
            bind_throws (UpdateVisibility queryGrid (rr_visible recipient) (na_position controlledActor)
                           (rf_enterRadius (rx_config r)) (rf_leaveRadius (rx_config r))) (\<lambda>visible.
              if rr_controlledActor recipient \<notin> set (vs_actors visible) then Inl Logic_error
              else
                bind_throws (FilterWorld world visible) (\<lambda>filtered.
                bind_throws (BuildPayload snapshotId filtered recipient r)
                  (\<lambda>(payload, currentView, keyframe, fallbackKeyframe).
                bind_throws (EncodeSnapshotPayload payload) (\<lambda>encoded.
                  Inr (\<lparr>rb_payload = payload, rb_encodedPayload = encoded,
                        rb_visibleActorCount = of_nat (length (vs_actors visible)),
                        rb_visibleLootCount = of_nat (length (vs_loot visible)),
                        rb_keyframe = keyframe, rb_fallbackKeyframe = fallbackKeyframe\<rparr>,
                       set_recipient player
                         (CommitRecipient (rf_maximumBaselinesPerRecipient (rx_config r)) snapshotId visible
                            currentView keyframe recipient)
                         (CommitGrid snapshotId world candidateGrid r))))))))"

definition ReplicatorBuild ::
    "player_id \<Rightarrow> u32 \<Rightarrow> game_snapshot \<Rightarrow> replicator \<Rightarrow> (replication_build \<times> replicator) throws" where
  "ReplicatorBuild player snapshotId world r =
     bind_throws (RecipientFor player r) (\<lambda>recipient.
       if snapshotId = 0 \<or> snapshotId \<le> rr_issuedHighWatermark recipient then Inl Invalid_argument
       else if rf_mode (rx_config r) = FullState then BuildFullState player snapshotId world recipient r
       else BuildInterest player snapshotId world recipient r)"

end
