(* ===== verification/SnapshotReplicatorLemmas.thy ===== *)
theory SnapshotReplicatorLemmas
  imports SnapshotReplicator SnapshotDeltaCorrect
begin

text \<open>
  The views of SnapshotReplicator.cpp: what is filtered from a world are the values of the visible
  identifiers, quantizing keeps them in order, and both return for what the grid found.
\<close>

section \<open>Finding by identifier\<close>

lemma successively_canonical:
  "successively (\<lambda>a b. key a < key b) vs \<longleftrightarrow> canonical_by key vs" for key :: "'v \<Rightarrow> 'k::linorder"
  unfolding canonical_by_def sorted_wrt_map
  by (rule successively_conv_sorted_wrt) (auto simp: transp_def)

lemma HasCanonicalWorldIds_iff:
  "HasCanonicalWorldIds world \<longleftrightarrow> canonical_by na_id (gs_actors world) \<and> canonical_by nl_id (gs_loot world)"
  by (simp add: HasCanonicalWorldIds_def successively_canonical)

lemma find_in_lookup:
  assumes "canonical_by key vs"
  shows "find_in key vs i = lookup_by key vs i"
proof (cases i rule: FindById_split [OF assms])
  case (1 as v bs)
  then show ?thesis by (simp add: find_in_def)
next
  case (2 as bs)
  then show ?thesis by (simp add: find_in_def lookup_by_None del: lookup_by_append)
qed

lemma find_in_mem:
  assumes "canonical_by key vs" and "v \<in> set vs"
  shows "find_in key vs (key v) = Some v"
  using lookup_by_mem [OF canonical_by_distinct [OF assms(1)] assms(2)] find_in_lookup [OF assms(1)] by simp

lemma find_inD: "find_in key vs i = Some v \<Longrightarrow> v \<in> set vs \<and> key v = i"
  by (auto simp: find_in_def found_at_def Let_def split: if_splits) (metis nth_mem)

section \<open>Filtering\<close>

definition in_world :: "game_snapshot \<Rightarrow> visible_set \<Rightarrow> bool" where
  "in_world world visible \<longleftrightarrow>
     set (vs_actors visible) \<subseteq> na_id ` set (gs_actors world)
     \<and> set (vs_loot visible) \<subseteq> nl_id ` {l \<in> set (gs_loot world). nl_active l}
     \<and> sorted_wrt (<) (vs_actors visible) \<and> sorted_wrt (<) (vs_loot visible)"

text \<open>The filtered world has the visible values, in the order of their identifiers.\<close>

lemma list_all2_keys: "list_all2 (\<lambda>i v. P i v \<and> key v = i) is vs \<Longrightarrow> map key vs = is"
  by (induction rule: list_all2_induct) simp_all

lemma FilterWorld_InrD:
  assumes "FilterWorld world visible = Inr filtered"
  shows "map na_id (gs_actors filtered) = vs_actors visible" "map nl_id (gs_loot filtered) = vs_loot visible"
    and "set (gs_actors filtered) \<subseteq> set (gs_actors world)"
    and "set (gs_loot filtered) \<subseteq> {l \<in> set (gs_loot world). nl_active l}"
    and "filtered = world\<lparr>gs_actors := gs_actors filtered, gs_loot := gs_loot filtered\<rparr>"
proof -
  obtain actors loot where
    actors: "list_all2 (\<lambda>i a. (case FindActor world i of None \<Rightarrow> Inl Logic_error | Some actor \<Rightarrow> Inr actor) = Inr a)
      (vs_actors visible) actors"
    and loot: "list_all2 (\<lambda>i l. (case FindLoot world i of None \<Rightarrow> Inl Logic_error
         | Some loot \<Rightarrow> if nl_active loot then Inr loot else Inl Logic_error) = Inr l) (vs_loot visible) loot"
    and filtered: "filtered = (CopyGlobalState world default_game_snapshot)\<lparr>gs_actors := actors, gs_loot := loot\<rparr>"
    using assms by (auto simp: FilterWorld_def map_throws_Inr_iff)
  have a: "list_all2 (\<lambda>i a. a \<in> set (gs_actors world) \<and> na_id a = i) (vs_actors visible) actors"
    by (rule list_all2_mono [OF actors]) (auto simp: FindActor_def dest: find_inD split: option.splits)
  have l: "list_all2 (\<lambda>i l. (l \<in> set (gs_loot world) \<and> nl_active l) \<and> nl_id l = i) (vs_loot visible) loot"
    by (rule list_all2_mono [OF loot]) (auto simp: FindLoot_def dest: find_inD split: option.splits if_splits)
  show "map na_id (gs_actors filtered) = vs_actors visible" "map nl_id (gs_loot filtered) = vs_loot visible"
    using list_all2_keys [OF a] list_all2_keys [OF l] by (simp_all add: filtered)
  show "set (gs_actors filtered) \<subseteq> set (gs_actors world)"
    using a by (auto simp: filtered list_all2_conv_all_nth in_set_conv_nth)
  show "set (gs_loot filtered) \<subseteq> {l \<in> set (gs_loot world). nl_active l}"
    using l by (fastforce simp: filtered list_all2_conv_all_nth in_set_conv_nth)
  show "filtered = world\<lparr>gs_actors := gs_actors filtered, gs_loot := gs_loot filtered\<rparr>"
    by (simp add: filtered CopyGlobalState_def)
qed

lemma FilterWorld_returns:
  assumes "HasCanonicalWorldIds world" and "in_world world visible"
  shows "\<exists>filtered. FilterWorld world visible = Inr filtered"
proof -
  note canonical = assms(1) [unfolded HasCanonicalWorldIds_iff]
  have "map_throws (\<lambda>i. case FindActor world i of None \<Rightarrow> Inl Logic_error | Some actor \<Rightarrow> Inr actor)
      (vs_actors visible) = Inr (map (\<lambda>i. the (FindActor world i)) (vs_actors visible))"
  proof (rule map_throws_total)
    fix i assume "i \<in> set (vs_actors visible)"
    then obtain a where "a \<in> set (gs_actors world)" "na_id a = i" using assms(2) by (auto simp: in_world_def)
    then show "(case FindActor world i of None \<Rightarrow> Inl Logic_error | Some actor \<Rightarrow> Inr actor) = Inr (the (FindActor world i))"
      using find_in_mem [of na_id "gs_actors world" a] canonical by (simp add: FindActor_def)
  qed
  moreover have "map_throws (\<lambda>i. case FindLoot world i of None \<Rightarrow> Inl Logic_error
       | Some loot \<Rightarrow> if nl_active loot then Inr loot else Inl Logic_error) (vs_loot visible)
     = Inr (map (\<lambda>i. the (FindLoot world i)) (vs_loot visible))"
  proof (rule map_throws_total)
    fix i assume "i \<in> set (vs_loot visible)"
    then obtain l where "l \<in> set (gs_loot world)" "nl_active l" "nl_id l = i" using assms(2) by (auto simp: in_world_def)
    then show "(case FindLoot world i of None \<Rightarrow> Inl Logic_error
        | Some loot \<Rightarrow> if nl_active loot then Inr loot else Inl Logic_error) = Inr (the (FindLoot world i))"
      using find_in_mem [of nl_id "gs_loot world" l] canonical by (simp add: FindLoot_def)
  qed
  ultimately show ?thesis by (auto simp: FilterWorld_def)
qed

lemma FilterWorld_canonical:
  assumes "FilterWorld world visible = Inr filtered" and "in_world world visible"
  shows "canonical_by na_id (gs_actors filtered)" "canonical_by nl_id (gs_loot filtered)"
  using FilterWorld_InrD(1,2) [OF assms(1)] assms(2) by (simp_all add: canonical_by_def in_world_def)

section \<open>Quantizing\<close>

lemma QuantizeView_InrD:
  assumes "QuantizeView world minimum maximum radiusMaximum = Inr view"
  shows "QuantizeGlobal world minimum maximum radiusMaximum = Inr (vw_global view)"
    and "list_all2 (\<lambda>a q. QuantizeActor minimum maximum a = Inr q) (gs_actors world) (vw_actors view)"
    and "list_all2 (\<lambda>l q. QuantizeLoot minimum maximum l = Inr q) (gs_loot world) (vw_loot view)"
  using assms by (auto simp: QuantizeView_def map_throws_Inr_iff)

lemma list_all2_same_keys: "list_all2 P xs ys \<Longrightarrow> (\<And>x y. P x y \<Longrightarrow> f x = g y) \<Longrightarrow> map g ys = map f xs"
  by (induction rule: list_all2_induct) auto

lemma QuantizeView_keys:
  assumes "QuantizeView world minimum maximum radiusMaximum = Inr view"
  shows "map qa_id (vw_actors view) = map na_id (gs_actors world)" "map ql_id (vw_loot view) = map nl_id (gs_loot world)"
proof -
  show "map qa_id (vw_actors view) = map na_id (gs_actors world)"
    by (rule list_all2_same_keys [OF QuantizeView_InrD(2) [OF assms]]) (auto simp: QuantizeActor_def)
  show "map ql_id (vw_loot view) = map nl_id (gs_loot world)"
    by (rule list_all2_same_keys [OF QuantizeView_InrD(3) [OF assms]]) (auto simp: QuantizeLoot_def)
qed

lemma QuantizeView_canonical:
  assumes "QuantizeView world minimum maximum radiusMaximum = Inr view"
    and "canonical_by na_id (gs_actors world)" and "canonical_by nl_id (gs_loot world)"
  shows "canonical_view view"
  using QuantizeView_keys [OF assms(1)] assms(2,3) by (simp add: canonical_view_def canonical_by_def)

section \<open>What the grid finds is in the world\<close>

lemma grid_in_world:
  assumes "UpdateVisibility grid previous center er lr = Inr visible" and "Rebuild world g = Inr grid" and "grid_ok g"
  shows "in_world world visible"
  using UpdateVisibility_set [OF assms]
  by (auto simp: in_world_def world_entries_def world_loot_entries_def)

end
