(* ===== verification/ReplicatorInvariant.thy ===== *)
theory ReplicatorInvariant
  imports SnapshotReplicatorLemmas "HOL-Library.Sublist"
begin

text \<open>
  The state of a \<^verbatim>\<open>SnapshotReplicator\<close>: what it holds for its recipients is in order and
  bounded, and its grid is that of the world it names. Every operation keeps this, and with it a
  build never fails for a visible actor or loot it cannot find.
\<close>

section \<open>The invariant\<close>

definition recipient_ok :: "replication_config \<Rightarrow> replication_recipient \<Rightarrow> bool" where
  "recipient_ok config q \<longleftrightarrow>
     sorted_wrt (<) (vs_actors (rr_visible q)) \<and> sorted_wrt (<) (vs_loot (rr_visible q))
     \<and> rr_acknowledgedSnapshotId q \<le> rr_issuedHighWatermark q
     \<and> sorted_wrt (<) (map bs_snapshotId (rr_baselines q))
     \<and> (\<forall>b \<in> set (rr_baselines q). bs_snapshotId b \<noteq> 0
          \<and> rr_acknowledgedSnapshotId q \<le> bs_snapshotId b
          \<and> bs_snapshotId b \<le> rr_issuedHighWatermark q \<and> canonical_view (bs_view b))
     \<and> length (rr_baselines q) \<le> rf_maximumBaselinesPerRecipient config"

definition grid_state_ok :: "replicator \<Rightarrow> bool" where
  "grid_state_ok r \<longleftrightarrow>
     (rx_gridSnapshotId r = None \<longleftrightarrow> rx_gridWorld r = None)
     \<and> (\<forall>world. rx_gridWorld r = Some world \<longrightarrow> (\<exists>g. grid_ok g \<and> Rebuild world g = Inr (rx_grid r)))"

definition replicator_ok :: "replicator \<Rightarrow> bool" where
  "replicator_ok r \<longleftrightarrow>
     IsFinite (bx_minimum (rx_bounds r)) \<and> IsFinite (bx_maximum (rx_bounds r))
     \<and> 0 < rf_maximumBaselinesPerRecipient (rx_config r)
     \<and> grid_state_ok r \<and> om_wf (rx_recipients r)
     \<and> (\<forall>player q. map_of (rx_recipients r) player = Some q \<longrightarrow> recipient_ok (rx_config r) q)"

lemma RecipientFor_Inr_iff [simp]: "RecipientFor player r = Inr q \<longleftrightarrow> map_of (rx_recipients r) player = Some q"
  by (simp add: RecipientFor_def split: option.splits)

lemma set_recipient_fields [simp]:
  "rx_config (set_recipient player q r) = rx_config r" "rx_bounds (set_recipient player q r) = rx_bounds r"
  "rx_grid (set_recipient player q r) = rx_grid r" "rx_gridSnapshotId (set_recipient player q r) = rx_gridSnapshotId r"
  "rx_gridWorld (set_recipient player q r) = rx_gridWorld r" "rx_minimum (set_recipient player q r) = rx_minimum r"
  "rx_maximum (set_recipient player q r) = rx_maximum r" "rx_radiusMaximum (set_recipient player q r) = rx_radiusMaximum r"
  "rx_recipients (set_recipient player q r) = om_set player q (rx_recipients r)"
  by (simp_all add: set_recipient_def)

lemma replicator_okD:
  "replicator_ok r \<Longrightarrow> map_of (rx_recipients r) player = Some q \<Longrightarrow> recipient_ok (rx_config r) q"
  by (simp add: replicator_ok_def)

lemma replicator_ok_set_recipient:
  assumes "replicator_ok r" and "recipient_ok (rx_config r) q"
  shows "replicator_ok (set_recipient player q r)"
  using assms by (simp add: replicator_ok_def grid_state_ok_def)

section \<open>The operations that do not build\<close>

lemma SnapshotReplicator_ok:
  assumes "SnapshotReplicator vertices config = Inr r"
  shows "replicator_ok r"
proof -
  obtain bounds grid where bounds: "ArenaBounds vertices = Inr bounds"
    and config: "ValidateReplicationConfig config = Inr (rx_config r)"
    and r: "rx_bounds r = bounds" "rx_gridSnapshotId r = None" "rx_gridWorld r = None" "rx_recipients r = []"
    using assms by (auto simp: SnapshotReplicator_def Let_def)
  have "IsFinite (bx_minimum bounds) \<and> IsFinite (bx_maximum bounds)"
    using bounds by (auto simp: ArenaBounds_def Aabb2_Create_def split: list.splits if_splits)
  moreover have "0 < rf_maximumBaselinesPerRecipient (rx_config r)"
    using config by (auto simp: ValidateReplicationConfig_def split: if_splits)
  ultimately show ?thesis by (simp add: replicator_ok_def grid_state_ok_def r)
qed

lemma RegisterRecipient_ok:
  assumes "RegisterRecipient player actor r = Inr r'" and "replicator_ok r"
  shows "replicator_ok r'"
  using assms by (auto simp: RegisterRecipient_def recipient_ok_def new_recipient_def
      intro!: replicator_ok_set_recipient split: if_splits)

lemma RemoveRecipient_ok: "replicator_ok r \<Longrightarrow> replicator_ok (RemoveRecipient player r)"
  by (simp add: replicator_ok_def RemoveRecipient_def grid_state_ok_def)

lemma RequestKeyframe_ok:
  assumes "ReplicatorRequestKeyframe player r = Inr r'" and "replicator_ok r"
  shows "replicator_ok r'"
  using assms replicator_okD [OF assms(2)]
  by (auto simp: ReplicatorRequestKeyframe_def recipient_ok_def intro!: replicator_ok_set_recipient)

lemma sorted_dropWhile_ge:
  assumes "sorted_wrt (<) (map key vs)" and "v \<in> set (dropWhile (\<lambda>v. key v < i) vs)"
  shows "(i::'k::linorder) \<le> key v"
proof -
  obtain w ws where w: "dropWhile (\<lambda>v. key v < i) vs = w # ws" using assms(2) by (cases "dropWhile (\<lambda>v. key v < i) vs") auto
  then have "\<not> key w < i" using hd_dropWhile [of "\<lambda>v. key v < i" vs] by simp
  moreover have "sorted_wrt (<) (map key (w # ws))"
    using assms(1) w sorted_wrt_append [of "(<)" "map key (takeWhile (\<lambda>v. key v < i) vs)" "map key (w # ws)"]
    by (metis map_append takeWhile_dropWhile_id)
  ultimately show ?thesis using assms(2) w by fastforce
qed

lemma sorted_dropWhile:
  "sorted_wrt (<) (map key vs) \<Longrightarrow> sorted_wrt (<) (map key (dropWhile P vs))"
  by (induction vs) auto

lemma AcceptAcknowledgement_ok:
  assumes "AcceptAcknowledgement player i r = Inr (accepted, r')" and "replicator_ok r"
  shows "replicator_ok r'"
proof -
  obtain q where q: "map_of (rx_recipients r) player = Some q" and r': "r' = r \<or>
      (rr_acknowledgedSnapshotId q < i \<and> i \<le> rr_issuedHighWatermark q
       \<and> r' = set_recipient player (q\<lparr>rr_acknowledgedSnapshotId := i,
            rr_baselines := dropWhile (\<lambda>b. bs_snapshotId b < i) (rr_baselines q)\<rparr>) r)"
    using assms(1) by (fastforce simp: AcceptAcknowledgement_def not_less split: if_splits)
  note ok = replicator_okD [OF assms(2) q]
  from r' show ?thesis
  proof
    assume r': "rr_acknowledgedSnapshotId q < i \<and> i \<le> rr_issuedHighWatermark q
       \<and> r' = set_recipient player (q\<lparr>rr_acknowledgedSnapshotId := i,
            rr_baselines := dropWhile (\<lambda>b. bs_snapshotId b < i) (rr_baselines q)\<rparr>) r"
    have "recipient_ok (rx_config r) (q\<lparr>rr_acknowledgedSnapshotId := i,
            rr_baselines := dropWhile (\<lambda>b. bs_snapshotId b < i) (rr_baselines q)\<rparr>)"
      using ok r' length_dropWhile_le [of "\<lambda>b. bs_snapshotId b < i" "rr_baselines q"]
        sorted_dropWhile_ge [of bs_snapshotId "rr_baselines q" _ i]
      by (auto simp: recipient_ok_def sorted_dropWhile dest: set_dropWhileD intro: order_trans)
    then show ?thesis using r' assms(2) by (simp add: replicator_ok_set_recipient)
  qed (use assms(2) in simp)
qed

section \<open>Storing a baseline\<close>

lemma trim_baselines_subseq: "subseq (trim_baselines m a bs) bs"
proof (induction m a bs rule: trim_baselines.induct)
  case (1 m a bs)
  show ?case
  proof (cases "m < length bs")
    case True
    then obtain b bs' where bs: "bs = b # bs'" by (cases bs) auto
    let ?next = "if (a \<noteq> 0 \<and> bs_snapshotId (hd bs) = a) \<and> 1 < m then hd bs # drop 2 bs else tl bs"
    have "subseq (tl bs') bs'" by (cases bs') auto
    then have "subseq ?next bs" by (auto simp: bs drop_Suc numeral_2_eq_2 intro: list_emb.intros(2))
    moreover have "subseq (trim_baselines m a ?next) ?next" using 1 [OF True refl] by simp
    ultimately have "subseq (trim_baselines m a ?next) bs" by (rule subseq_order.trans [rotated])
    then show ?thesis using True by (subst trim_baselines.simps) (simp add: Let_def)
  qed (subst trim_baselines.simps, simp)
qed

lemma subseq_set_subset: "subseq xs ys \<Longrightarrow> set xs \<subseteq> set ys"
  by (induction rule: list_emb.induct) auto

lemma subseq_sorted_wrt: "subseq xs ys \<Longrightarrow> sorted_wrt P (map f ys) \<Longrightarrow> sorted_wrt P (map f xs)"
proof (induction rule: list_emb.induct)
  case (list_emb_Cons2 x y xs ys)
  then show ?case using list_emb_set [OF list_emb_Cons2(2)] by fastforce
qed simp_all

lemma trim_baselines_length: "length (trim_baselines m a bs) \<le> m"
proof (induction m a bs rule: trim_baselines.induct)
  case (1 m a bs)
  then show ?case by (subst trim_baselines.simps) (simp add: Let_def)
qed

text \<open>The newest baseline stays, and so does the acknowledged one when it is the oldest and there
  is room for two.\<close>

lemma trim_baselines_last:
  "0 < m \<Longrightarrow> bs \<noteq> [] \<Longrightarrow> trim_baselines m a bs \<noteq> [] \<and> last (trim_baselines m a bs) = last bs"
proof (induction m a bs rule: trim_baselines.induct)
  case (1 m a bs)
  show ?case
  proof (cases "m < length bs")
    case True
    then obtain b c bs' where bs: "bs = b # c # bs'" using 1(2) by (cases bs; cases "tl bs") auto
    let ?next = "if (a \<noteq> 0 \<and> bs_snapshotId (hd bs) = a) \<and> 1 < m then hd bs # drop 2 bs else tl bs"
    have "?next \<noteq> [] \<and> last ?next = last bs" using True by (auto simp: bs)
    then have "trim_baselines m a ?next \<noteq> [] \<and> last (trim_baselines m a ?next) = last bs"
      using 1(1) [OF True refl] 1(2) by simp
    then show ?thesis using True by (subst (1 2) trim_baselines.simps) (simp add: Let_def)
  qed (use 1 in \<open>subst (1 2) trim_baselines.simps, simp\<close>)
qed

lemma trim_baselines_acknowledged:
  "1 < m \<Longrightarrow> bs \<noteq> [] \<Longrightarrow> a \<noteq> 0 \<Longrightarrow> bs_snapshotId (hd bs) = a \<Longrightarrow>
   trim_baselines m a bs \<noteq> [] \<and> hd (trim_baselines m a bs) = hd bs"
proof (induction m a bs rule: trim_baselines.induct)
  case (1 m a bs)
  then show ?case by (subst (1 2) trim_baselines.simps) (simp add: Let_def)
qed

lemma recipient_ok_StoreBaseline:
  assumes "recipient_ok config q" and "rr_issuedHighWatermark q < i" and "canonical_view view"
    and "maximum = rf_maximumBaselinesPerRecipient config"
  shows "recipient_ok config ((StoreBaseline maximum i view q)\<lparr>rr_issuedHighWatermark := i\<rparr>)"
proof -
  let ?bs = "rr_baselines q @ [\<lparr>bs_snapshotId = i, bs_view = view\<rparr>]"
  let ?trimmed = "trim_baselines maximum (rr_acknowledgedSnapshotId q) ?bs"
  note ok = assms(1) [unfolded recipient_ok_def]
  have le: "rr_acknowledgedSnapshotId q \<le> i" using ok assms(2) by (meson less_le_trans less_imp_le order_trans)
  have "bs_snapshotId b < i" if "b \<in> set (rr_baselines q)" for b
    using ok assms(2) that by (meson le_less_trans)
  then have "sorted_wrt (<) (map bs_snapshotId ?bs)" using ok by (auto simp: sorted_wrt_append)
  then have sorted: "sorted_wrt (<) (map bs_snapshotId ?trimmed)"
    using subseq_sorted_wrt [OF trim_baselines_subseq] by blast
  have "\<forall>b \<in> set ?bs. bs_snapshotId b \<noteq> 0 \<and> rr_acknowledgedSnapshotId q \<le> bs_snapshotId b
      \<and> bs_snapshotId b \<le> i \<and> canonical_view (bs_view b)"
  proof
    fix b assume "b \<in> set ?bs"
    then consider "b \<in> set (rr_baselines q)" | "b = \<lparr>bs_snapshotId = i, bs_view = view\<rparr>" by auto
    then show "bs_snapshotId b \<noteq> 0 \<and> rr_acknowledgedSnapshotId q \<le> bs_snapshotId b
      \<and> bs_snapshotId b \<le> i \<and> canonical_view (bs_view b)"
    proof cases
      case 1
      then have "bs_snapshotId b \<le> rr_issuedHighWatermark q" using ok by blast
      then show ?thesis using 1 ok assms(2) by (meson less_imp_le order_trans)
    qed (use le assms(2,3) in auto)
  qed
  moreover have "set ?trimmed \<subseteq> set ?bs"
    using trim_baselines_subseq by (rule subseq_set_subset)
  ultimately have "\<forall>b \<in> set ?trimmed. bs_snapshotId b \<noteq> 0 \<and> rr_acknowledgedSnapshotId q \<le> bs_snapshotId b
      \<and> bs_snapshotId b \<le> i \<and> canonical_view (bs_view b)"
    by blast
  then show ?thesis
    using ok le sorted assms(4) trim_baselines_length [of maximum] by (simp add: recipient_ok_def StoreBaseline_def)
qed

section \<open>Building\<close>

lemma PrepareGrid_InrD:
  assumes "PrepareGrid i world r = Inr (g, candidate)" and "replicator_ok r"
  obtains w g0 where "grid_ok g0" "Rebuild w g0 = Inr g" "w = world \<or> snapshot_eq w world"
    "replicator_ok (CommitGrid i world candidate r)"
    "rx_config (CommitGrid i world candidate r) = rx_config r"
    "rx_recipients (CommitGrid i world candidate r) = rx_recipients r"
proof (cases "rx_gridSnapshotId r = Some i")
  case True
  then obtain w where w: "rx_gridWorld r = Some w" "snapshot_eq w world" "g = rx_grid r" "candidate = None"
    using assms(1) by (auto simp: PrepareGrid_def split: option.splits if_splits)
  moreover obtain g0 where "grid_ok g0" "Rebuild w g0 = Inr (rx_grid r)"
    using assms(2) w(1) by (auto simp: replicator_ok_def grid_state_ok_def)
  ultimately show thesis using that assms(2) by (simp add: CommitGrid_def)
next
  case False
  then obtain g0 where g0: "InterestGrid (rx_bounds r) (rf_cellSize (rx_config r)) = Inr g0"
      "Rebuild world g0 = Inr g" "candidate = Some g"
    using assms(1) by (auto simp: PrepareGrid_def split: option.splits if_splits)
  moreover have "grid_ok g0" using InterestGrid_ok [OF g0(1)] assms(2) by (simp add: replicator_ok_def)
  ultimately show thesis
    using that [of g0 world] assms(2) by (auto simp: CommitGrid_def replicator_ok_def grid_state_ok_def)
qed

lemma actor_eq_id: "actor_eq a b \<Longrightarrow> na_id a = na_id b"
  unfolding actor_eq_def by (drule conjunct2, drule arg_cong [of _ _ na_id]) simp

lemma loot_eq_id: "loot_eq a b \<Longrightarrow> nl_id a = nl_id b \<and> nl_active a = nl_active b"
  unfolding loot_eq_def by (drule conjunct2, frule arg_cong [of _ _ nl_id], drule arg_cong [of _ _ nl_active]) simp

lemma list_all2_image:
  "list_all2 R xs ys \<Longrightarrow> (\<And>x y. R x y \<Longrightarrow> f x = f y \<and> P x = P y) \<Longrightarrow> f ` {x \<in> set xs. P x} = f ` {y \<in> set ys. P y}"
proof (induction rule: list_all2_induct)
  case (Cons x xs y ys)
  then have "f x = f y \<and> P x = P y" and "f ` {x \<in> set xs. P x} = f ` {y \<in> set ys. P y}" by blast+
  moreover have "{z \<in> set (w # ws). P z} = (if P w then {w} else {}) \<union> {z \<in> set ws. P z}" for w ws by auto
  ultimately show ?case by (simp add: image_Un)
qed simp

lemma in_world_snapshot_eq:
  assumes "in_world w visible" and "snapshot_eq w world"
  shows "in_world world visible"
proof -
  have eq: "list_all2 actor_eq (gs_actors w) (gs_actors world)" "list_all2 loot_eq (gs_loot w) (gs_loot world)"
    using assms(2) by (simp_all add: snapshot_eq_def)
  have "na_id ` set (gs_actors w) = na_id ` set (gs_actors world)"
    using list_all2_image [OF eq(1), of na_id "\<lambda>_. True"] actor_eq_id by auto
  moreover have "nl_id ` {l \<in> set (gs_loot w). nl_active l} = nl_id ` {l \<in> set (gs_loot world). nl_active l}"
    using list_all2_image [OF eq(2), of nl_id nl_active] loot_eq_id by blast
  ultimately show ?thesis using assms(1) by (simp add: in_world_def)
qed

text \<open>What a build that returns has done, outside the mode that sends full states.\<close>

lemma CommitRecipient_eq:
  "CommitRecipient maximum i visible view keyframe q =
     (case view of None \<Rightarrow> q | Some v \<Rightarrow> StoreBaseline maximum i v q)
       \<lparr>rr_visible := visible, rr_issuedHighWatermark := i, rr_buildOrdinal := rr_buildOrdinal q + 1,
        rr_lastKeyframeOrdinal := (if keyframe then rr_buildOrdinal q + 1 else rr_lastKeyframeOrdinal q),
        rr_keyframeRequested := False\<rparr>"
  by (cases view) (simp_all add: CommitRecipient_def StoreBaseline_def)

lemma BuildInterest_InrD:
  assumes "BuildInterest player i world q r = Inr (b, r')"
  obtains a g candidate visible filtered view where
    "HasCanonicalWorldIds world" "FindActor world (rr_controlledActor q) = Some a"
    "PrepareGrid i world r = Inr (g, candidate)"
    "UpdateVisibility g (rr_visible q) (na_position a) (rf_enterRadius (rx_config r)) (rf_leaveRadius (rx_config r)) = Inr visible"
    "FilterWorld world visible = Inr filtered"
    "BuildPayload i filtered q r = Inr (rb_payload b, view, rb_keyframe b, rb_fallbackKeyframe b)"
    "EncodeSnapshotPayload (rb_payload b) = Inr (rb_encodedPayload b)"
    "r' = set_recipient player (CommitRecipient (rf_maximumBaselinesPerRecipient (rx_config r)) i visible view
            (rb_keyframe b) q) (CommitGrid i world candidate r)"
  using assms by (auto simp: BuildInterest_def intro: that split: option.splits if_splits prod.splits)

lemma BuildDeltaPayload_header:
  "BuildDeltaPayload base i x y = Inr p \<Longrightarrow> ph_payloadSnapshotId (sp_header p) = i"
  by (elim BuildDeltaPayload_InrD) (simp add: payload_with_header_def)

lemma BuildPayload_InrD:
  assumes "BuildPayload i filtered q r = Inr (payload, view, keyframe, fallback)"
  shows "view = None \<longleftrightarrow> rf_mode (rx_config r) = InterestFullPrecision"
    and "view = Some v \<Longrightarrow> QuantizeView filtered (rx_minimum r) (rx_maximum r) (rx_radiusMaximum r) = Inr v"
    and "ph_payloadSnapshotId (sp_header payload) = i"
    and "view = Some v \<Longrightarrow> keyframe \<Longrightarrow> payload = BuildQuantizedKeyframe i v"
    and "\<not> keyframe \<Longrightarrow> \<exists>base v. FindServerBaseline q (rr_acknowledgedSnapshotId q) = Some base \<and> view = Some v
      \<and> rr_acknowledgedSnapshotId q \<noteq> 0 \<and> BuildDeltaPayload (rr_acknowledgedSnapshotId q) i (bs_view base) v = Inr payload"
    and "view = None \<Longrightarrow> payload = (payload_with_header \<lparr>ph_kind = KindKeyframe,
      ph_valueEncoding = EncodingFullPrecision, ph_baseSnapshotId = 0, ph_payloadSnapshotId = i\<rparr>)
      \<lparr>sp_fullPrecision := filtered\<rparr>"
  using assms
  by (auto simp: BuildPayload_def BuildQuantizedKeyframe_def payload_with_header_def Let_def
      dest: BuildDeltaPayload_header split: if_splits)

text \<open>What the grid finds is in the world that is built, although the grid may be of an equal one.\<close>

lemma visible_in_world:
  assumes "PrepareGrid i world r = Inr (g, candidate)" and "replicator_ok r"
    and "UpdateVisibility g previous center er lr = Inr visible"
  shows "in_world world visible"
proof -
  obtain w g0 where "grid_ok g0" "Rebuild w g0 = Inr g" "w = world \<or> snapshot_eq w world"
    using PrepareGrid_InrD [OF assms(1,2)] by blast
  then show ?thesis using grid_in_world [OF assms(3)] in_world_snapshot_eq by blast
qed

lemma controlled_visible:
  assumes "PrepareGrid i world r = Inr (g, candidate)" and "replicator_ok r"
    and "a \<in> set (gs_actors world)"
    and "UpdateVisibility g previous (na_position a) er lr = Inr visible"
  shows "na_id a \<in> set (vs_actors visible)"
proof -
  obtain w g0 where g0: "grid_ok g0" "Rebuild w g0 = Inr g" and w: "w = world \<or> snapshot_eq w world"
    using PrepareGrid_InrD [OF assms(1,2)] by blast
  have "\<exists>b \<in> set (gs_actors w). na_id b = na_id a \<and> vec2_eq (na_position b) (na_position a)"
    using w
  proof
    assume "w = world"
    moreover from this have "IsFinite (na_position a)"
      using Rebuild_cells(5) [OF g0(2,1)] assms(3) by (simp add: Aabb2_Contains_def)
    ultimately show ?thesis using assms(3) vec2_eq_refl by blast
  next
    assume "snapshot_eq w world"
    then have "list_all2 actor_eq (gs_actors w) (gs_actors world)" by (simp add: snapshot_eq_def)
    then obtain b where "b \<in> set (gs_actors w)" "actor_eq b a"
      using assms(3) by (metis in_set_conv_nth list_all2_conv_all_nth)
    then show ?thesis using actor_eq_id [of b a] by (auto simp: actor_eq_def)
  qed
  then show ?thesis using center_visible [OF assms(4) g0(2,1)] by metis
qed

lemma CommitRecipient_ok:
  assumes "recipient_ok config q" and "rr_issuedHighWatermark q < i" and "in_world world visible"
    and "\<And>v. view = Some v \<Longrightarrow> canonical_view v"
  shows "recipient_ok config (CommitRecipient (rf_maximumBaselinesPerRecipient config) i visible view keyframe q)"
proof (cases view)
  case None
  have "rr_issuedHighWatermark q \<le> i" using assms(2) by simp
  with assms(1) have "recipient_ok config (q\<lparr>rr_issuedHighWatermark := i\<rparr>)"
    unfolding recipient_ok_def by simp (meson order_trans)
  then show ?thesis using assms(3) None by (simp add: CommitRecipient_eq recipient_ok_def in_world_def)
next
  case (Some v)
  from recipient_ok_StoreBaseline [OF assms(1,2) assms(4) [OF Some] refl] show ?thesis
    using assms(3) Some by (simp add: CommitRecipient_eq recipient_ok_def in_world_def)
qed

lemma ReplicatorBuild_ok:
  assumes "ReplicatorBuild player i world r = Inr (b, r')" and "replicator_ok r"
  shows "replicator_ok r' \<and> rx_config r' = rx_config r"
proof -
  obtain q where q: "map_of (rx_recipients r) player = Some q" and i: "\<not> i \<le> rr_issuedHighWatermark q"
    and cases: "rf_mode (rx_config r) = FullState \<and> BuildFullState player i world q r = Inr (b, r')
       \<or> BuildInterest player i world q r = Inr (b, r')"
    using assms(1) by (auto simp: ReplicatorBuild_def split: if_splits)
  note ok = replicator_okD [OF assms(2) q]
  from cases show ?thesis
  proof
    assume "rf_mode (rx_config r) = FullState \<and> BuildFullState player i world q r = Inr (b, r')"
    then have "r' = set_recipient player (q\<lparr>rr_issuedHighWatermark := i,
        rr_buildOrdinal := rr_buildOrdinal q + 1, rr_keyframeRequested := False\<rparr>) r"
      by (auto simp: BuildFullState_def Let_def)
    moreover have "rr_issuedHighWatermark q \<le> i" using i by simp
    with ok have "recipient_ok (rx_config r) (q\<lparr>rr_issuedHighWatermark := i,
        rr_buildOrdinal := rr_buildOrdinal q + 1, rr_keyframeRequested := False\<rparr>)"
      unfolding recipient_ok_def by simp (meson order_trans)
    ultimately show ?thesis using assms(2) by (simp add: replicator_ok_set_recipient)
  next
    assume "BuildInterest player i world q r = Inr (b, r')"
    then show ?thesis
    proof (rule BuildInterest_InrD)
      fix a g candidate visible filtered view
      assume grid: "PrepareGrid i world r = Inr (g, candidate)"
        and update: "UpdateVisibility g (rr_visible q) (na_position a) (rf_enterRadius (rx_config r))
              (rf_leaveRadius (rx_config r)) = Inr visible"
        and filter: "FilterWorld world visible = Inr filtered"
        and payload: "BuildPayload i filtered q r = Inr (rb_payload b, view, rb_keyframe b, rb_fallbackKeyframe b)"
        and r': "r' = set_recipient player (CommitRecipient (rf_maximumBaselinesPerRecipient (rx_config r)) i visible
            view (rb_keyframe b) q) (CommitGrid i world candidate r)"
      have seen: "in_world world visible" by (rule visible_in_world [OF grid assms(2) update])
      have "canonical_view v" if "view = Some v" for v
        using QuantizeView_canonical [OF BuildPayload_InrD(2) [OF payload that]] FilterWorld_canonical [OF filter seen]
        by blast
      then have "recipient_ok (rx_config r) (CommitRecipient (rf_maximumBaselinesPerRecipient (rx_config r)) i visible
            view (rb_keyframe b) q)"
        using CommitRecipient_ok [OF ok _ seen] i by simp
      with r' show ?thesis
        by (auto intro: PrepareGrid_InrD [OF grid assms(2)] simp: replicator_ok_set_recipient)
    qed
  qed
qed

end
