(* ===== verification/ClientSnapshotStream.thy ===== *)
theory ClientSnapshotStream
  imports SnapshotDeltaCorrect Quantization
begin

text \<open>
  apps/game\_client/src/ClientSnapshotStream.cpp: the snapshots a client applies. It keeps the last
  worlds it built, as quantized values where it has them, applies a delta to the one it names, and
  asks for a keyframe when it does not have it.
\<close>

section \<open>Worlds\<close>

definition MaxClientSnapshotBuffer :: nat where "MaxClientSnapshotBuffer = 32"

text \<open>The floats -128 and 128, and 128 for the radius.\<close>

definition ArenaMinimum :: f32 where "ArenaMinimum = 0xC3000000"
definition ArenaMaximum :: f32 where "ArenaMaximum = 0x43000000"
definition SafeZoneRadiusMaximum :: f32 where "SafeZoneRadiusMaximum = 0x43000000"

definition WorldFromKeyframe :: "snapshot_payload \<Rightarrow> quantized_view" where
  "WorldFromKeyframe payload =
     \<lparr>vw_global = sp_global payload, vw_actors = sp_actorValues payload, vw_loot = sp_lootValues payload\<rparr>"

definition DequantizePosition :: "quantized_vec2 \<Rightarrow> network_vec2 throws" where
  "DequantizePosition position =
     bind_throws (DequantizeCoordinate (qv_x position) ArenaMinimum ArenaMaximum) (\<lambda>x.
     bind_throws (DequantizeCoordinate (qv_z position) ArenaMinimum ArenaMaximum) (\<lambda>z.
       Inr \<lparr>nv_x = x, nv_z = z\<rparr>))"

definition DequantizeActor :: "quantized_actor \<Rightarrow> network_actor throws" where
  "DequantizeActor actor =
     bind_throws (DequantizePosition (qa_position actor)) (\<lambda>position.
       Inr \<lparr>na_id = qa_id actor, na_role = qa_role actor, na_neutralArchetype = qa_neutralArchetype actor,
            na_position = position, na_health = ucast (qa_health actor), na_alive = qa_alive actor,
            na_weapon = qa_weapon actor,
            na_cooldownTicksRemaining = ucast (qa_cooldownTicksRemaining actor),
            na_eliminations = ucast (qa_eliminations actor)\<rparr>)"

definition DequantizeLoot :: "quantized_loot \<Rightarrow> network_loot throws" where
  "DequantizeLoot loot =
     bind_throws (DequantizePosition (ql_position loot)) (\<lambda>position.
       Inr \<lparr>nl_id = ql_id loot, nl_type = ql_type loot, nl_position = position, nl_active = ql_active loot\<rparr>)"

definition DequantizeWorld :: "quantized_view \<Rightarrow> game_snapshot throws" where
  "DequantizeWorld source =
     (let global = vw_global source
      in bind_throws (DequantizePosition (qg_safeZoneCenter global)) (\<lambda>center.
         bind_throws (DequantizeSafeZoneRadius (qg_safeZoneRadius global) SafeZoneRadiusMaximum) (\<lambda>radius.
         bind_throws (map_throws DequantizeActor (vw_actors source)) (\<lambda>actors.
         bind_throws (map_throws DequantizeLoot (vw_loot source)) (\<lambda>loot.
           Inr \<lparr>gs_phase = qg_phase global, gs_safeZoneStage = qg_safeZoneStage global,
                gs_safeZoneCenter = center, gs_safeZoneRadius = radius,
                gs_aliveContenders = ucast (qg_aliveContenders global),
                gs_actors = actors, gs_loot = loot, gs_result = qg_result global,
                gs_hasResult = qg_hasResult global, gs_eventChecksum = qg_eventChecksum global\<rparr>)))))"

section \<open>Transitions\<close>

definition ActorIds :: "game_snapshot \<Rightarrow> entity_id list" where
  "ActorIds world = sort (map na_id (gs_actors world))"

text \<open>\<^verbatim>\<open>std::set_difference\<close> of two sorted ranges.\<close>

fun set_difference :: "'a::linorder list \<Rightarrow> 'a list \<Rightarrow> 'a list" where
  "set_difference [] ys = []"
| "set_difference (x # xs) [] = x # xs"
| "set_difference (x # xs) (y # ys) =
     (if x < y then x # set_difference xs (y # ys)
      else if y < x then set_difference (x # xs) ys
      else set_difference xs ys)"

definition FindActorTransitions ::
    "game_snapshot option \<Rightarrow> game_snapshot \<Rightarrow> entity_id list \<times> entity_id list" where
  "FindActorTransitions previous current =
     (let before = (case previous of None \<Rightarrow> [] | Some world \<Rightarrow> ActorIds world);
          after = ActorIds current
      in (set_difference before after, set_difference after before))"

section \<open>State\<close>

record client_baseline =
  cb_snapshotId :: u32
  cb_quantized :: "quantized_view option"
  cb_world :: game_snapshot

record client_stream =
  cs_maximumBaselines :: nat
  cs_baselines :: "client_baseline list"
  cs_highestSeenSnapshotId :: "u32 option"
  cs_acknowledgedSnapshotId :: u32
  cs_requestKeyframe :: bool

record snapshot_apply_result =
  ar_world :: "game_snapshot option"
  ar_removedActors :: "entity_id list"
  ar_reenteredActors :: "entity_id list"
  ar_acknowledgedSnapshotId :: u32
  ar_requestKeyframe :: bool

definition ClientSnapshotStream :: "nat \<Rightarrow> client_stream throws" where
  "ClientSnapshotStream requestedMaximum =
     (if requestedMaximum = 0 \<or> MaxClientSnapshotBuffer < requestedMaximum then Inl Invalid_argument
      else Inr \<lparr>cs_maximumBaselines = requestedMaximum, cs_baselines = [], cs_highestSeenSnapshotId = None,
                cs_acknowledgedSnapshotId = 0, cs_requestKeyframe = False\<rparr>)"

definition FindClientBaseline :: "u32 \<Rightarrow> client_stream \<Rightarrow> client_baseline option" where
  "FindClientBaseline snapshotId s = find (\<lambda>baseline. cb_snapshotId baseline = snapshotId) (cs_baselines s)"

definition LatestWorld :: "client_stream \<Rightarrow> game_snapshot option" where
  "LatestWorld s = (if cs_baselines s = [] then None else Some (cb_world (last (cs_baselines s))))"

definition StoreClientBaseline :: "client_baseline \<Rightarrow> client_stream \<Rightarrow> client_stream" where
  "StoreClientBaseline baseline s =
     (let baselines = cs_baselines s @ [baseline]
      in s\<lparr>cs_baselines := drop (length baselines - cs_maximumBaselines s) baselines\<rparr>)"

definition CurrentResult :: "client_stream \<Rightarrow> snapshot_apply_result" where
  "CurrentResult s =
     \<lparr>ar_world = None, ar_removedActors = [], ar_reenteredActors = [],
      ar_acknowledgedSnapshotId = cs_acknowledgedSnapshotId s, ar_requestKeyframe = cs_requestKeyframe s\<rparr>"

text \<open>What a payload makes of the state: no world when the baseline of a delta is missing, or the
  quantized values if it has them, the world, and the actors that left and those that came.\<close>

datatype applied =
    MissingBaseline
  | Applied "quantized_view option" game_snapshot "entity_id list" "entity_id list"

definition ApplyPayload :: "snapshot_payload \<Rightarrow> client_stream \<Rightarrow> applied throws" where
  "ApplyPayload payload s =
     (let kind = ph_kind (sp_header payload)
      in if kind = KindFullState
            \<or> kind = KindKeyframe \<and> ph_valueEncoding (sp_header payload) = EncodingFullPrecision
         then
           let world = sp_fullPrecision payload;
               (removed, entered) = FindActorTransitions (LatestWorld s) world
           in Inr (Applied None world removed entered)
         else if kind = KindKeyframe
         then
           let quantized = WorldFromKeyframe payload
           in bind_throws (DequantizeWorld quantized) (\<lambda>world.
                let (removed, entered) = FindActorTransitions (LatestWorld s) world
                in Inr (Applied (Some quantized) world removed entered))
         else
           case FindClientBaseline (ph_baseSnapshotId (sp_header payload)) s of
             None \<Rightarrow> Inr MissingBaseline
           | Some baseline \<Rightarrow>
               (case cb_quantized baseline of
                  None \<Rightarrow> Inr MissingBaseline
                | Some base \<Rightarrow>
                    bind_throws (ApplyDelta base payload) (\<lambda>quantized.
                    bind_throws (DequantizeWorld quantized) (\<lambda>world.
                      Inr (Applied (Some quantized) world (sp_removedActors payload)
                             (map qa_id (sp_actorValues payload)))))))"

text \<open>The highest identifier seen is set before a payload is applied, and stays set if that throws.\<close>

definition ClientApply ::
    "u32 \<Rightarrow> snapshot_payload \<Rightarrow> client_stream \<Rightarrow> snapshot_apply_result throws \<times> client_stream" where
  "ClientApply snapshotId payload s =
     (if snapshotId = 0 \<or> ph_payloadSnapshotId (sp_header payload) \<noteq> snapshotId
      then (Inl Invalid_argument, s)
      else
        case EncodeSnapshotPayload payload of
          Inl error \<Rightarrow> (Inl error, s)
        | Inr _ \<Rightarrow>
            if (case cs_highestSeenSnapshotId s of None \<Rightarrow> False | Some highest \<Rightarrow> snapshotId \<le> highest)
            then (Inr (CurrentResult s), s)
            else
              let s = s\<lparr>cs_highestSeenSnapshotId := Some snapshotId\<rparr>
              in (case ApplyPayload payload s of
                    Inl error \<Rightarrow> (Inl error, s)
                  | Inr MissingBaseline \<Rightarrow>
                      let s = s\<lparr>cs_requestKeyframe := True\<rparr>
                      in (Inr (CurrentResult s), s)
                  | Inr (Applied quantized world removed entered) \<Rightarrow>
                      let entered = (if cs_requestKeyframe s \<and> ph_kind (sp_header payload) = KindKeyframe
                                     then ActorIds world else entered);
                          s = StoreClientBaseline \<lparr>cb_snapshotId = snapshotId, cb_quantized = quantized,
                                                   cb_world = world\<rparr> s;
                          s = s\<lparr>cs_acknowledgedSnapshotId := snapshotId, cs_requestKeyframe := False\<rparr>
                      in (Inr \<lparr>ar_world = Some world, ar_removedActors = removed,
                               ar_reenteredActors = entered, ar_acknowledgedSnapshotId = snapshotId,
                               ar_requestKeyframe = False\<rparr>, s)))"

definition ClientReset :: "client_stream \<Rightarrow> client_stream" where
  "ClientReset s = s\<lparr>cs_baselines := [], cs_highestSeenSnapshotId := None,
                     cs_acknowledgedSnapshotId := 0, cs_requestKeyframe := False\<rparr>"

section \<open>Facts\<close>

lemma arena_bounds: "wire_bounds ArenaMinimum ArenaMaximum 256" "wire_bounds 0 SafeZoneRadiusMaximum 128"
  by code_simp+

text \<open>The world of a view, without the calls that could throw for other bounds.\<close>

definition position_of :: "quantized_vec2 \<Rightarrow> network_vec2" where
  "position_of p = \<lparr>nv_x = dequantized (qv_x p) ArenaMinimum ArenaMaximum,
                    nv_z = dequantized (qv_z p) ArenaMinimum ArenaMaximum\<rparr>"

lemma DequantizePosition_eq: "DequantizePosition p = Inr (position_of p)"
  by (simp add: DequantizePosition_def dequantized_val(1) [OF arena_bounds(1)] position_of_def)

definition world_of :: "quantized_view \<Rightarrow> game_snapshot" where
  "world_of v =
     \<lparr>gs_phase = qg_phase (vw_global v), gs_safeZoneStage = qg_safeZoneStage (vw_global v),
      gs_safeZoneCenter = position_of (qg_safeZoneCenter (vw_global v)),
      gs_safeZoneRadius = dequantized (qg_safeZoneRadius (vw_global v)) 0 SafeZoneRadiusMaximum,
      gs_aliveContenders = ucast (qg_aliveContenders (vw_global v)),
      gs_actors = map (\<lambda>a. \<lparr>na_id = qa_id a, na_role = qa_role a, na_neutralArchetype = qa_neutralArchetype a,
            na_position = position_of (qa_position a), na_health = ucast (qa_health a), na_alive = qa_alive a,
            na_weapon = qa_weapon a, na_cooldownTicksRemaining = ucast (qa_cooldownTicksRemaining a),
            na_eliminations = ucast (qa_eliminations a)\<rparr>) (vw_actors v),
      gs_loot = map (\<lambda>l. \<lparr>nl_id = ql_id l, nl_type = ql_type l, nl_position = position_of (ql_position l),
            nl_active = ql_active l\<rparr>) (vw_loot v),
      gs_result = qg_result (vw_global v), gs_hasResult = qg_hasResult (vw_global v),
      gs_eventChecksum = qg_eventChecksum (vw_global v)\<rparr>"

lemma DequantizeWorld_eq: "DequantizeWorld v = Inr (world_of v)"
proof -
  let ?actor = "\<lambda>a. \<lparr>na_id = qa_id a, na_role = qa_role a, na_neutralArchetype = qa_neutralArchetype a,
            na_position = position_of (qa_position a), na_health = ucast (qa_health a), na_alive = qa_alive a,
            na_weapon = qa_weapon a, na_cooldownTicksRemaining = ucast (qa_cooldownTicksRemaining a),
            na_eliminations = ucast (qa_eliminations a)\<rparr>"
  let ?loot = "\<lambda>l. \<lparr>nl_id = ql_id l, nl_type = ql_type l, nl_position = position_of (ql_position l),
            nl_active = ql_active l\<rparr>"
  have "map_throws DequantizeActor (vw_actors v) = Inr (map ?actor (vw_actors v))"
    "map_throws DequantizeLoot (vw_loot v) = Inr (map ?loot (vw_loot v))"
    by (rule map_throws_total, simp add: DequantizeActor_def DequantizeLoot_def DequantizePosition_eq)+
  then show ?thesis
    by (simp add: DequantizeWorld_def world_of_def DequantizePosition_eq DequantizeSafeZoneRadius_def
        dequantized_val(1) [OF arena_bounds(2)] Let_def)
qed

end
