(* ===== verification/ReplicationStream.thy ===== *)
theory ReplicationStream
  imports ReplicatorInvariant ClientSnapshotStream
begin

text \<open>
  A replicator and the stream of one of its recipients, with the network between them: a payload
  that was sent may be delivered at any time, late, again or never, and acknowledgements are
  whatever the other side claims. What the client holds for a snapshot is always what the replicator
  filtered for it.
\<close>

section \<open>The link\<close>

text \<open>\<open>sl_sent\<close> is every payload sent so far. \<open>sl_history\<close> is kept for the statements only:
  the world that each snapshot was built from, as filtered for this recipient.\<close>

record stream_link =
  sl_player :: player_id
  sl_server :: replicator
  sl_client :: client_stream
  sl_sent :: "(u32 \<times> byte list) list"
  sl_history :: "(u32 \<times> game_snapshot) list"

datatype stream_event =
    Building player_id u32 game_snapshot
  | Delivering u32 "byte list"
  | Acknowledging player_id u32
  | KeyframeRequest player_id
  | RegisteringRecipient player_id entity_id
  | Removing player_id
  | Resetting

definition filtered_world :: "player_id \<Rightarrow> game_snapshot \<Rightarrow> replicator \<Rightarrow> game_snapshot" where
  "filtered_world player world r =
     (case map_of (rx_recipients r) player of
        None \<Rightarrow> world
      | Some q \<Rightarrow>
          if rf_mode (rx_config r) = FullState then world
          else (case FilterWorld world (rr_visible q) of Inl _ \<Rightarrow> world | Inr filtered \<Rightarrow> filtered))"

text \<open>An operation that throws leaves the state as it was, but for what the stream saw. The recipient
  of the link is registered throughout.\<close>

definition on_server :: "replicator throws \<Rightarrow> stream_link \<Rightarrow> stream_link" where
  "on_server result l = (case result of Inl _ \<Rightarrow> l | Inr r \<Rightarrow> l\<lparr>sl_server := r\<rparr>)"

fun stream_step :: "stream_event \<Rightarrow> stream_link \<Rightarrow> stream_link" where
  "stream_step (Building player i world) l =
     (case ReplicatorBuild player i world (sl_server l) of
        Inl _ \<Rightarrow> l
      | Inr (built, r) \<Rightarrow>
          if player \<noteq> sl_player l then l\<lparr>sl_server := r\<rparr>
          else l\<lparr>sl_server := r, sl_sent := (i, rb_encodedPayload built) # sl_sent l,
                 sl_history := (i, filtered_world player world r) # sl_history l\<rparr>)"
| "stream_step (Delivering i bytes) l =
     (if (i, bytes) \<notin> set (sl_sent l) then l
      else (case DecodeSnapshotPayload bytes of
              Inl _ \<Rightarrow> l
            | Inr payload \<Rightarrow> l\<lparr>sl_client := snd (ClientApply i payload (sl_client l))\<rparr>))"
| "stream_step (Acknowledging player i) l =
     on_server (map_sum id snd (AcceptAcknowledgement player i (sl_server l))) l"
| "stream_step (KeyframeRequest player) l = on_server (ReplicatorRequestKeyframe player (sl_server l)) l"
| "stream_step (RegisteringRecipient player actor) l = on_server (RegisterRecipient player actor (sl_server l)) l"
| "stream_step (Removing player) l =
     (if player = sl_player l then l else l\<lparr>sl_server := RemoveRecipient player (sl_server l)\<rparr>)"
| "stream_step Resetting l = l\<lparr>sl_client := ClientReset (sl_client l)\<rparr>"

definition new_stream :: "player_id \<Rightarrow> entity_id \<Rightarrow> replicator \<Rightarrow> client_stream \<Rightarrow> stream_link throws" where
  "new_stream player actor server client =
     bind_throws (RegisterRecipient player actor server) (\<lambda>r.
       Inr \<lparr>sl_player = player, sl_server = r, sl_client = client, sl_sent = [], sl_history = []\<rparr>)"

section \<open>What is sent and what is held\<close>

type_synonym quantizer = "game_snapshot \<Rightarrow> quantized_view throws"

definition stream_quantizer :: "replicator \<Rightarrow> quantizer" where
  "stream_quantizer r world = QuantizeView world (rx_minimum r) (rx_maximum r) (rx_radiusMaximum r)"

text \<open>A world as it arrives: exactly, but for an absent result, in the modes of full precision, and
  through its quantized view in the others.\<close>

definition exact_world :: "replication_mode \<Rightarrow> game_snapshot \<Rightarrow> game_snapshot" where
  "exact_world mode world =
     (if mode = FullState then canon_snapshot world
      else if gs_hasResult world then world else world\<lparr>gs_result := no_match_result\<rparr>)"

definition arrives_as :: "replication_mode \<Rightarrow> quantizer \<Rightarrow> game_snapshot \<Rightarrow> quantized_view option \<Rightarrow> game_snapshot \<Rightarrow> bool" where
  "arrives_as mode quant world quantized arrived \<longleftrightarrow>
     (case quantized of
        None \<Rightarrow> arrived = exact_world mode world
      | Some v \<Rightarrow> \<exists>view. quant world = Inr view \<and> v = canon_view view \<and> arrived = world_of v)"

definition held_ok :: "replication_mode \<Rightarrow> quantizer \<Rightarrow> (u32 \<rightharpoonup> game_snapshot) \<Rightarrow> client_baseline \<Rightarrow> bool" where
  "held_ok mode quant history baseline \<longleftrightarrow>
     (\<exists>world. history (cb_snapshotId baseline) = Some world
        \<and> arrives_as mode quant world (cb_quantized baseline) (cb_world baseline))"

definition remembers :: "quantizer \<Rightarrow> (u32 \<rightharpoonup> game_snapshot) \<Rightarrow> replication_recipient \<Rightarrow> bool" where
  "remembers quant history q \<longleftrightarrow>
     (\<forall>i world. history i = Some world \<longrightarrow> i \<le> rr_issuedHighWatermark q)
     \<and> (\<forall>b \<in> set (rr_baselines q). \<exists>world. history (bs_snapshotId b) = Some world \<and> quant world = Inr (bs_view b))"

text \<open>What a payload says of the snapshot it is for.\<close>

definition content_ok :: "replication_mode \<Rightarrow> quantizer \<Rightarrow> (u32 \<rightharpoonup> game_snapshot) \<Rightarrow> game_snapshot \<Rightarrow> snapshot_payload \<Rightarrow> bool" where
  "content_ok mode quant history world p \<longleftrightarrow>
     (if ph_kind (sp_header p) = KindFullState
         \<or> ph_kind (sp_header p) = KindKeyframe \<and> ph_valueEncoding (sp_header p) = EncodingFullPrecision
      then sp_fullPrecision p = exact_world mode world
      else if ph_kind (sp_header p) = KindKeyframe
      then \<exists>view. quant world = Inr view \<and> WorldFromKeyframe p = canon_view view
      else \<exists>view base base_view. quant world = Inr view
        \<and> history (ph_baseSnapshotId (sp_header p)) = Some base \<and> quant base = Inr base_view
        \<and> ApplyDelta (canon_view base_view) p = Inr (canon_view view))"

definition sent_ok :: "replication_mode \<Rightarrow> quantizer \<Rightarrow> (u32 \<rightharpoonup> game_snapshot) \<Rightarrow> u32 \<times> byte list \<Rightarrow> bool" where
  "sent_ok mode quant history m \<longleftrightarrow>
     (\<exists>p world. DecodeSnapshotPayload (snd m) = Inr p \<and> payload_ok p
        \<and> fst m \<noteq> 0 \<and> ph_payloadSnapshotId (sp_header p) = fst m
        \<and> history (fst m) = Some world \<and> content_ok mode quant history world p)"

definition stream_ok :: "stream_link \<Rightarrow> bool" where
  "stream_ok l \<longleftrightarrow>
     (let r = sl_server l; mode = rf_mode (rx_config r); quant = stream_quantizer r; history = map_of (sl_history l)
      in replicator_ok r
         \<and> (\<exists>q. map_of (rx_recipients r) (sl_player l) = Some q \<and> remembers quant history q)
         \<and> (\<forall>m \<in> set (sl_sent l). sent_ok mode quant history m)
         \<and> (\<forall>baseline \<in> set (cs_baselines (sl_client l)). held_ok mode quant history baseline))"

text \<open>More history does not change what the rest means.\<close>

lemma content_ok_mono: "content_ok mode quant h world p \<Longrightarrow> h \<subseteq>\<^sub>m h' \<Longrightarrow> content_ok mode quant h' world p"
  by (auto simp: content_ok_def map_le_def dom_def split: if_splits)

lemma sent_ok_mono: "sent_ok mode quant h m \<Longrightarrow> h \<subseteq>\<^sub>m h' \<Longrightarrow> sent_ok mode quant h' m"
  unfolding sent_ok_def using content_ok_mono by (metis domI map_le_def)

lemma held_ok_mono: "held_ok mode quant h b \<Longrightarrow> h \<subseteq>\<^sub>m h' \<Longrightarrow> held_ok mode quant h' b"
  unfolding held_ok_def by (metis domI map_le_def)

section \<open>The client\<close>

text \<open>Applying a payload that was sent returns, and what the client holds stays right.\<close>

lemma ApplyPayload_sent:
  assumes "content_ok mode quant history world p" and "\<forall>b \<in> set (cs_baselines s). held_ok mode quant history b"
  obtains "ApplyPayload p s = Inr MissingBaseline"
  | quantized arrived removed entered where "ApplyPayload p s = Inr (Applied quantized arrived removed entered)"
      "arrives_as mode quant world quantized arrived"
proof -
  let ?h = "sp_header p"
  consider (exact) "ph_kind ?h = KindFullState \<or> ph_kind ?h = KindKeyframe \<and> ph_valueEncoding ?h = EncodingFullPrecision"
    | (key) "\<not> (ph_kind ?h = KindFullState \<or> ph_kind ?h = KindKeyframe \<and> ph_valueEncoding ?h = EncodingFullPrecision)"
        "ph_kind ?h = KindKeyframe"
    | (delta) "ph_kind ?h \<noteq> KindFullState" "ph_kind ?h \<noteq> KindKeyframe" by blast
  then show thesis
  proof cases
    case exact
    then have "sp_fullPrecision p = exact_world mode world" using assms(1) by (simp only: content_ok_def if_True)
    moreover obtain removed entered where
      "FindActorTransitions (LatestWorld s) (sp_fullPrecision p) = (removed, entered)" by fastforce
    ultimately show thesis using that(2) [of None "exact_world mode world"] exact
      by (simp add: ApplyPayload_def arrives_as_def Let_def)
  next
    case key
    then obtain view where "quant world = Inr view" "WorldFromKeyframe p = canon_view view"
      using assms(1) by (auto simp: content_ok_def)
    moreover obtain removed entered where
      "FindActorTransitions (LatestWorld s) (world_of (canon_view view)) = (removed, entered)" by fastforce
    ultimately show thesis using that(2) [of "Some (canon_view view)" "world_of (canon_view view)"] key
      by (simp add: ApplyPayload_def arrives_as_def DequantizeWorld_eq Let_def)
  next
    case delta
    then obtain view base base_view where d: "quant world = Inr view" "history (ph_baseSnapshotId ?h) = Some base"
        "quant base = Inr base_view" "ApplyDelta (canon_view base_view) p = Inr (canon_view view)"
      using assms(1) by (auto simp: content_ok_def)
    show thesis
    proof (cases "\<exists>b v. FindClientBaseline (ph_baseSnapshotId ?h) s = Some b \<and> cb_quantized b = Some v")
      case False
      then show thesis using that(1) delta
        by (auto simp: ApplyPayload_def Let_def split: option.splits)
    next
      case True
      then obtain b v where b: "FindClientBaseline (ph_baseSnapshotId ?h) s = Some b" "cb_quantized b = Some v" by blast
      then have "b \<in> set (cs_baselines s)" "cb_snapshotId b = ph_baseSnapshotId ?h"
        by (auto simp: FindClientBaseline_def find_Some_iff)
      then have "v = canon_view base_view"
        using assms(2) b(2) d(2,3) by (auto simp: held_ok_def arrives_as_def)
      then show thesis using that(2) delta b d
        by (simp add: ApplyPayload_def arrives_as_def DequantizeWorld_eq Let_def)
    qed
  qed
qed

lemma StoreClientBaseline_set: "set (cs_baselines (StoreClientBaseline b s)) \<subseteq> insert b (set (cs_baselines s))"
  using set_drop_subset [of _ "cs_baselines s @ [b]"] by (auto simp: StoreClientBaseline_def Let_def simp del: drop_append)

lemma ClientApply_sent:
  assumes "sent_ok mode quant history (i, bytes)"
    and "\<forall>b \<in> set (cs_baselines s). held_ok mode quant history b"
  obtains p result s' where "DecodeSnapshotPayload bytes = Inr p" "ClientApply i p s = (Inr result, s')"
    "\<forall>b \<in> set (cs_baselines s'). held_ok mode quant history b"
proof -
  obtain p world where p: "DecodeSnapshotPayload bytes = Inr p" "payload_ok p" "i \<noteq> 0"
      "ph_payloadSnapshotId (sp_header p) = i" "history i = Some world" "content_ok mode quant history world p"
    using assms(1) by (auto simp: sent_ok_def)
  obtain encoded where encode: "EncodeSnapshotPayload p = Inr encoded" using p(2) EncodeSnapshotPayload_iff by blast
  let ?s = "s\<lparr>cs_highestSeenSnapshotId := Some i\<rparr>"
  have held: "\<forall>b \<in> set (cs_baselines ?s). held_ok mode quant history b" using assms(2) by simp
  show thesis
  proof (cases "case cs_highestSeenSnapshotId s of None \<Rightarrow> False | Some highest \<Rightarrow> i \<le> highest")
    case True
    then show thesis using that [OF p(1)] p encode assms(2) by (auto simp: ClientApply_def)
  next
    case False
    from p(6) held show thesis
    proof (rule ApplyPayload_sent)
      assume "ApplyPayload p ?s = Inr MissingBaseline"
      then show thesis using that [OF p(1)] False p encode assms(2) by (simp add: ClientApply_def Let_def)
    next
      fix quantized arrived removed entered
      assume applied: "ApplyPayload p ?s = Inr (Applied quantized arrived removed entered)"
        and arrived: "arrives_as mode quant world quantized arrived"
      then have new: "held_ok mode quant history \<lparr>cb_snapshotId = i, cb_quantized = quantized, cb_world = arrived\<rparr>"
        using p(5) by (simp add: held_ok_def)
      let ?s' = "(StoreClientBaseline \<lparr>cb_snapshotId = i, cb_quantized = quantized, cb_world = arrived\<rparr> ?s)
          \<lparr>cs_acknowledgedSnapshotId := i, cs_requestKeyframe := False\<rparr>"
      obtain result where "ClientApply i p s = (Inr result, ?s')"
        using False p(3,4) encode applied by (simp add: ClientApply_def Let_def)
      moreover have "\<forall>b \<in> set (cs_baselines ?s'). held_ok mode quant history b"
        using StoreClientBaseline_set [of _ ?s] held new by auto
      ultimately show thesis by (rule that [OF p(1)])
    qed
  qed
qed

section \<open>The server\<close>

text \<open>What building changes: the recipient and the grid.\<close>

lemma CommitGrid_fields [simp]:
  "rx_config (CommitGrid i w c r) = rx_config r" "rx_recipients (CommitGrid i w c r) = rx_recipients r"
  "rx_minimum (CommitGrid i w c r) = rx_minimum r" "rx_maximum (CommitGrid i w c r) = rx_maximum r"
  "rx_radiusMaximum (CommitGrid i w c r) = rx_radiusMaximum r" "rx_bounds (CommitGrid i w c r) = rx_bounds r"
  by (simp_all add: CommitGrid_def split: option.splits)

lemma ReplicatorBuild_InrD:
  assumes "ReplicatorBuild player i world r = Inr (b, r')" and "replicator_ok r"
  obtains q where "map_of (rx_recipients r) player = Some q" "i \<noteq> 0" "rr_issuedHighWatermark q < i"
    and "rf_mode (rx_config r) = FullState" "EncodeSnapshotPayload (rb_payload b) = Inr (rb_encodedPayload b)"
      "rb_payload b = (payload_with_header \<lparr>ph_kind = KindFullState, ph_valueEncoding = EncodingFullPrecision,
          ph_baseSnapshotId = 0, ph_payloadSnapshotId = i\<rparr>)\<lparr>sp_fullPrecision := world\<rparr>"
      "r' = set_recipient player (q\<lparr>rr_issuedHighWatermark := i,
          rr_buildOrdinal := rr_buildOrdinal q + 1, rr_keyframeRequested := False\<rparr>) r"
  | q visible filtered view candidate where "map_of (rx_recipients r) player = Some q" "i \<noteq> 0" "rr_issuedHighWatermark q < i"
    and "rf_mode (rx_config r) \<noteq> FullState" "EncodeSnapshotPayload (rb_payload b) = Inr (rb_encodedPayload b)"
      "in_world world visible" "FilterWorld world visible = Inr filtered"
      "BuildPayload i filtered q r = Inr (rb_payload b, view, rb_keyframe b, rb_fallbackKeyframe b)"
      "r' = set_recipient player (CommitRecipient (rf_maximumBaselinesPerRecipient (rx_config r)) i visible view
            (rb_keyframe b) q) (CommitGrid i world candidate r)"
proof -
  obtain q where q: "map_of (rx_recipients r) player = Some q" "i \<noteq> 0" "\<not> i \<le> rr_issuedHighWatermark q"
    and cases: "if rf_mode (rx_config r) = FullState then BuildFullState player i world q r = Inr (b, r')
       else BuildInterest player i world q r = Inr (b, r')"
    using assms(1) by (auto simp: ReplicatorBuild_def split: if_splits)
  then have i: "rr_issuedHighWatermark q < i" by simp
  show thesis
  proof (cases "rf_mode (rx_config r) = FullState")
    case True
    then show thesis using that(1) [OF q(1,2) i True] cases by (auto simp: BuildFullState_def Let_def)
  next
    case False
    then have "BuildInterest player i world q r = Inr (b, r')" using cases by simp
    then show thesis
      by (rule BuildInterest_InrD)
        (erule that(2) [OF q(1,2) i False _ visible_in_world [OF _ assms(2)]]; assumption)
  qed
qed

definition same_arena :: "replicator \<Rightarrow> replicator \<Rightarrow> bool" where
  "same_arena r r' \<longleftrightarrow> rx_config r' = rx_config r \<and> rx_bounds r' = rx_bounds r \<and> rx_minimum r' = rx_minimum r
     \<and> rx_maximum r' = rx_maximum r \<and> rx_radiusMaximum r' = rx_radiusMaximum r"

lemma same_arena_quantizer: "same_arena r r' \<Longrightarrow> stream_quantizer r' = stream_quantizer r"
  by (simp add: same_arena_def stream_quantizer_def fun_eq_iff)

lemma ReplicatorBuild_frame:
  assumes "ReplicatorBuild player i world r = Inr (b, r')" and "replicator_ok r"
  shows "same_arena r r'" and "p \<noteq> player \<Longrightarrow> map_of (rx_recipients r') p = map_of (rx_recipients r) p"
  by (rule ReplicatorBuild_InrD [OF assms]; simp add: same_arena_def)+

section \<open>What is built arrives\<close>

lemma WorldFromKeyframe_canon:
  assumes "EncodeSnapshotPayload (BuildQuantizedKeyframe i view) = Inr bytes"
  obtains p where "DecodeSnapshotPayload bytes = Inr p" "payload_ok p" "WorldFromKeyframe p = canon_view view"
    "sp_header p = sp_header (BuildQuantizedKeyframe i view)"
proof (rule that)
  show d: "DecodeSnapshotPayload bytes = Inr (canon_payload (BuildQuantizedKeyframe i view))"
    by (rule DecodeSnapshotPayload_Encode [OF assms])
  show "payload_ok (canon_payload (BuildQuantizedKeyframe i view))" using DecodeSnapshotPayload_valid [OF d] by blast
  show "WorldFromKeyframe (canon_payload (BuildQuantizedKeyframe i view)) = canon_view view"
    by (simp add: WorldFromKeyframe_def BuildQuantizedKeyframe_def canon_payload_def canon_view_def canon_global_def
        payload_with_header_def payload_kinds Let_def)
qed simp

lemma FindServerBaseline_SomeD:
  "FindServerBaseline q i = Some b \<Longrightarrow> b \<in> set (rr_baselines q) \<and> bs_snapshotId b = i"
  by (auto simp: FindServerBaseline_def find_Some_iff)

lemma full_arrives:
  assumes "EncodeSnapshotPayload ((payload_with_header \<lparr>ph_kind = KindFullState,
      ph_valueEncoding = EncodingFullPrecision, ph_baseSnapshotId = 0, ph_payloadSnapshotId = i\<rparr>)
      \<lparr>sp_fullPrecision := world\<rparr>) = Inr bytes"
    and "i \<noteq> 0" and "history i = Some world"
  shows "sent_ok FullState quant history (i, bytes)"
proof -
  note d = DecodeSnapshotPayload_Encode [OF assms(1)]
  show ?thesis
    using d DecodeSnapshotPayload_valid [OF d] assms(2,3)
    by (auto simp: sent_ok_def content_ok_def canon_payload_def exact_world_def payload_with_header_def Let_def)
qed

lemma precise_arrives:
  assumes "EncodeSnapshotPayload ((payload_with_header \<lparr>ph_kind = KindKeyframe,
      ph_valueEncoding = EncodingFullPrecision, ph_baseSnapshotId = 0, ph_payloadSnapshotId = i\<rparr>)
      \<lparr>sp_fullPrecision := world\<rparr>) = Inr bytes"
    and "i \<noteq> 0" and "history i = Some world" and "mode \<noteq> FullState"
  shows "sent_ok mode quant history (i, bytes)"
proof -
  note d = DecodeSnapshotPayload_Encode [OF assms(1)]
  show ?thesis
    using d DecodeSnapshotPayload_valid [OF d] assms(2-4)
    by (auto simp: sent_ok_def content_ok_def canon_payload_def exact_world_def payload_with_header_def
        payload_kinds Let_def)
qed

lemma keyframe_arrives:
  assumes "EncodeSnapshotPayload (BuildQuantizedKeyframe i view) = Inr bytes"
    and "i \<noteq> 0" and "history i = Some world" and "quant world = Inr view"
  shows "sent_ok mode quant history (i, bytes)"
proof -
  obtain p where p: "DecodeSnapshotPayload bytes = Inr p" "payload_ok p" "WorldFromKeyframe p = canon_view view"
    "sp_header p = sp_header (BuildQuantizedKeyframe i view)"
    by (rule WorldFromKeyframe_canon [OF assms(1)])
  moreover have "content_ok mode quant history world p"
    using p(3,4) assms(4)
    by (simp add: content_ok_def BuildQuantizedKeyframe_def payload_with_header_def payload_kinds)
  ultimately show ?thesis
    using assms(2,3) by (auto simp: sent_ok_def BuildQuantizedKeyframe_def payload_with_header_def)
qed

lemma delta_arrives:
  assumes "EncodeSnapshotPayload p = Inr bytes" and "BuildDeltaPayload a i base_view view = Inr p"
    and "canonical_view base_view" and "canonical_view view"
    and "i \<noteq> 0" and "history i = Some world" and "quant world = Inr view"
    and "history a = Some base" and "quant base = Inr base_view"
  shows "sent_ok mode quant history (i, bytes)"
proof -
  have header: "sp_header p = \<lparr>ph_kind = KindDelta, ph_valueEncoding = EncodingQuantized,
             ph_baseSnapshotId = a, ph_payloadSnapshotId = i\<rparr>" "sp_fullPrecision p = default_game_snapshot"
    by (rule BuildDeltaPayload_InrD [OF assms(2)], simp add: payload_with_header_def)+
  then have "canon_payload p = p" by (simp add: canon_payload_def payload_kinds Let_def)
  then have d: "DecodeSnapshotPayload bytes = Inr p" using DecodeSnapshotPayload_Encode [OF assms(1)] by simp
  have "content_ok mode quant history world p"
    using header(1) assms(7-9) ApplyDelta_BuildDeltaPayload [OF assms(2-4)] by (simp add: content_ok_def payload_kinds)
  with d DecodeSnapshotPayload_valid [OF d] assms(5,6) header(1) show ?thesis by (auto simp: sent_ok_def)
qed

text \<open>The baselines that are left, and the new one, are of the history.\<close>

lemma remembers_StoreBaseline:
  assumes "remembers quant history q" and "rr_issuedHighWatermark q < i" and "quant world = Inr view"
  shows "remembers quant (history(i \<mapsto> world)) ((StoreBaseline m i view q)\<lparr>rr_issuedHighWatermark := i\<rparr>)"
proof -
  have fresh: "history i = None" using assms(1,2) by (cases "history i") (auto simp: remembers_def)
  have "b \<in> set (rr_baselines q) \<or> b = \<lparr>bs_snapshotId = i, bs_view = view\<rparr>"
    if "b \<in> set (rr_baselines (StoreBaseline m i view q))" for b
    using that subseq_set_subset [OF trim_baselines_subseq] by (fastforce simp: StoreBaseline_def)
  moreover have "\<exists>w. (history(i \<mapsto> world)) (bs_snapshotId b) = Some w \<and> quant w = Inr (bs_view b)"
    if "b \<in> set (rr_baselines q)" for b
    using assms(1) that fresh by (fastforce simp: remembers_def)
  ultimately have "\<forall>b \<in> set (rr_baselines (StoreBaseline m i view q)).
      \<exists>w. (history(i \<mapsto> world)) (bs_snapshotId b) = Some w \<and> quant w = Inr (bs_view b)"
    using assms(3) by fastforce
  moreover have "j \<le> i" if "(history(i \<mapsto> world)) j = Some w" for j w
    using that assms(1,2) by (cases "j = i") (auto simp: remembers_def intro: order_trans less_imp_le)
  ultimately show ?thesis by (simp add: remembers_def)
qed

lemma remembers_issued:
  assumes "remembers quant history q" and "rr_issuedHighWatermark q < i"
  shows "remembers quant (history(i \<mapsto> world)) (q\<lparr>rr_issuedHighWatermark := i\<rparr>)"
proof -
  have fresh: "history i = None" using assms(1,2) by (cases "history i") (auto simp: remembers_def)
  have "\<exists>w. (history(i \<mapsto> world)) (bs_snapshotId b) = Some w \<and> quant w = Inr (bs_view b)"
    if "b \<in> set (rr_baselines q)" for b
    using assms(1) that fresh by (fastforce simp: remembers_def)
  moreover have "j \<le> i" if "(history(i \<mapsto> world)) j = Some w" for j w
    using that assms(1,2) by (cases "j = i") (auto simp: remembers_def intro: order_trans less_imp_le)
  ultimately show ?thesis by (simp add: remembers_def)
qed

lemma build_arrives:
  assumes "ReplicatorBuild player i world r = Inr (b, r')" and "replicator_ok r"
    and "map_of (rx_recipients r) player = Some q" and "remembers (stream_quantizer r) history q"
    and "history' = history(i \<mapsto> filtered_world player world r')"
  shows "\<exists>q'. map_of (rx_recipients r') player = Some q' \<and> remembers (stream_quantizer r) history' q'"
    and "sent_ok (rf_mode (rx_config r)) (stream_quantizer r) history' (i, rb_encodedPayload b)"
    and "history \<subseteq>\<^sub>m history'"
proof -
  let ?quant = "stream_quantizer r"
  show "history \<subseteq>\<^sub>m history'"
  proof -
    have "rr_issuedHighWatermark q < i" by (rule ReplicatorBuild_InrD [OF assms(1,2)]) (use assms(3) in auto)
    then have "history i = None" using assms(4) by (cases "history i") (auto simp: remembers_def)
    then show ?thesis by (auto simp: assms(5) map_le_def)
  qed
  have "(\<exists>q'. map_of (rx_recipients r') player = Some q' \<and> remembers ?quant history' q')
    \<and> sent_ok (rf_mode (rx_config r)) ?quant history' (i, rb_encodedPayload b)"
  proof (rule ReplicatorBuild_InrD [OF assms(1,2)], goal_cases)
    case (1 q1)
    then have "q1 = q" and world: "filtered_world player world r' = world" using assms(3) by (simp_all add: filtered_world_def)
    then have h: "history' = history(i \<mapsto> world)" using assms(5) by simp
    have "remembers ?quant history' (q\<lparr>rr_issuedHighWatermark := i,
          rr_buildOrdinal := rr_buildOrdinal q + 1, rr_keyframeRequested := False\<rparr>)"
      using remembers_issued [OF assms(4), where i = i and world = world] 1(3) \<open>q1 = q\<close> by (simp add: h remembers_def)
    then show ?case
      using 1 \<open>q1 = q\<close> full_arrives [where i = i and world = world and history = history' and quant = ?quant] by (simp add: h)
  next
    case (2 q1 visible filtered view candidate)
    then have q1: "q1 = q" using assms(3) by simp
    note payload = BuildPayload_InrD [OF 2(8)]
    have mode: "rf_mode (rx_config r) \<noteq> FullState" by (rule 2)
    have "rr_visible (CommitRecipient m i visible view k q) = visible" for m k by (simp add: CommitRecipient_eq)
    then have world: "filtered_world player world r' = filtered"
      using 2 by (simp add: filtered_world_def q1)
    have h: "history' = history(i \<mapsto> filtered)" using assms(5) world by simp
    then have here: "history' i = Some filtered" by simp
    have ok: "recipient_ok (rx_config r) q" by (rule replicator_okD [OF assms(2,3)])
    show ?case
    proof (cases view)
      case None
      have "remembers ?quant history' (CommitRecipient m i visible view k q)" for m k
        using remembers_issued [OF assms(4), where i = i and world = filtered] 2(3) by (simp add: h CommitRecipient_eq None q1 remembers_def)
      then show ?thesis
        using 2 precise_arrives [where i = i and world = filtered and history = history'] payload(6) [OF None] here q1 by simp
    next
      case (Some v)
      have quant: "?quant filtered = Inr v" using payload(2) [OF Some] by (simp add: stream_quantizer_def)
      have "remembers ?quant history' (CommitRecipient m i visible view k q)" for m k
        using remembers_StoreBaseline [OF assms(4) _ quant, where i = i and m = m] 2(3)
        by (simp add: h CommitRecipient_eq Some q1 remembers_def)
      moreover have "sent_ok (rf_mode (rx_config r)) ?quant history' (i, rb_encodedPayload b)"
      proof (cases "rb_keyframe b")
        case True
        then have "EncodeSnapshotPayload (BuildQuantizedKeyframe i v) = Inr (rb_encodedPayload b)"
          using payload(4) [OF Some] 2(5) by simp
        then show ?thesis using 2(2) here quant by (rule keyframe_arrives)
      next
        case False
        then obtain base where base: "FindServerBaseline q (rr_acknowledgedSnapshotId q) = Some base"
            "BuildDeltaPayload (rr_acknowledgedSnapshotId q) i (bs_view base) v = Inr (rb_payload b)"
          using payload(5) Some q1 by auto
        then have in_q: "base \<in> set (rr_baselines q)" "bs_snapshotId base = rr_acknowledgedSnapshotId q"
          using FindServerBaseline_SomeD by blast+
        then obtain w where w: "history (rr_acknowledgedSnapshotId q) = Some w" "?quant w = Inr (bs_view base)"
          using assms(4) by (auto simp: remembers_def)
        have "canonical_view v"
          using QuantizeView_canonical [OF payload(2) [OF Some]] FilterWorld_canonical [OF 2(7,6)] by blast
        moreover have "canonical_view (bs_view base)" using ok in_q(1) by (simp add: recipient_ok_def)
        moreover have "history' (rr_acknowledgedSnapshotId q) = Some w"
          using w(1) \<open>history \<subseteq>\<^sub>m history'\<close> by (metis domI map_le_def)
        ultimately show ?thesis
          using 2(2,5) base(2) here quant w(2)
          by (intro delta_arrives [where quant = ?quant and history = history' and base = w]) simp_all
      qed
      ultimately show ?thesis using 2(9) by (simp add: q1)
    qed
  qed
  then show "\<exists>q'. map_of (rx_recipients r') player = Some q' \<and> remembers ?quant history' q'"
    "sent_ok (rf_mode (rx_config r)) ?quant history' (i, rb_encodedPayload b)" by blast+
qed

end
