(* ===== verification/ReplicationStreamCorrect.thy ===== *)
theory ReplicationStreamCorrect
  imports ReplicationStream
begin

text \<open>
  Every event keeps the invariant of a link, and what it says of the client: a snapshot it holds is
  the world the replicator filtered for it, exactly or within the error of quantization.
\<close>

section \<open>The events keep the invariant\<close>

text \<open>What an operation of the replicator other than building may do to the recipient of the link.\<close>

definition stream_keeps :: "player_id \<Rightarrow> replicator \<Rightarrow> replicator \<Rightarrow> bool" where
  "stream_keeps player r r' \<longleftrightarrow>
     same_arena r r'
     \<and> (\<forall>q. map_of (rx_recipients r) player = Some q \<longrightarrow>
          (\<exists>q'. map_of (rx_recipients r') player = Some q'
             \<and> rr_issuedHighWatermark q' = rr_issuedHighWatermark q
             \<and> set (rr_baselines q') \<subseteq> set (rr_baselines q)))"

lemma stream_keeps_stream_ok:
  assumes "stream_ok l" and "stream_keeps (sl_player l) (sl_server l) r'" and "replicator_ok r'"
  shows "stream_ok (l\<lparr>sl_server := r'\<rparr>)"
proof -
  note arena = same_arena_quantizer [of "sl_server l" r']
  show ?thesis
    using assms arena by (fastforce simp: stream_ok_def stream_keeps_def remembers_def same_arena_def Let_def)
qed

lemma stream_keeps_set_recipient:
  assumes "map_of (rx_recipients r) p = Some q \<Longrightarrow> p = player \<Longrightarrow>
      rr_issuedHighWatermark q' = rr_issuedHighWatermark q \<and> set (rr_baselines q') \<subseteq> set (rr_baselines q)"
    and "p = player \<Longrightarrow> map_of (rx_recipients r) p = Some q"
  shows "stream_keeps player r (set_recipient p q' r)"
  using assms by (auto simp: stream_keeps_def same_arena_def)

lemma stream_keeps_refl: "stream_keeps player r r"
  by (simp add: stream_keeps_def same_arena_def)

lemma AcceptAcknowledgement_keeps:
  assumes "AcceptAcknowledgement p i r = Inr (accepted, r')"
  shows "stream_keeps player r r'"
  using assms set_dropWhileD by (fastforce simp: AcceptAcknowledgement_def stream_keeps_refl
      intro!: stream_keeps_set_recipient split: if_splits)

lemma RequestKeyframe_keeps: "ReplicatorRequestKeyframe p r = Inr r' \<Longrightarrow> stream_keeps player r r'"
  by (auto simp: ReplicatorRequestKeyframe_def stream_keeps_def same_arena_def)

lemma RegisterRecipient_keeps: "RegisterRecipient p actor r = Inr r' \<Longrightarrow> stream_keeps player r r'"
  by (cases "p = player")
    (auto simp: RegisterRecipient_def stream_keeps_def same_arena_def split: if_splits)

lemma RemoveRecipient_keeps: "p \<noteq> player \<Longrightarrow> stream_keeps player r (RemoveRecipient p r)"
  by (simp add: RemoveRecipient_def stream_keeps_def same_arena_def)

lemma Building_ok:
  assumes "stream_ok l"
  shows "stream_ok (stream_step (Building p i world) l)"
proof (cases "ReplicatorBuild p i world (sl_server l)")
  case (Inr built)
  then obtain b r' where built: "ReplicatorBuild p i world (sl_server l) = Inr (b, r')" by (cases built) simp
  have server: "replicator_ok (sl_server l)" using assms by (simp add: stream_ok_def Let_def)
  note frame = ReplicatorBuild_frame [OF built server] and quant = same_arena_quantizer [OF ReplicatorBuild_frame(1) [OF built server]]
    and ok = ReplicatorBuild_ok [OF built server]
  show ?thesis
  proof (cases "p = sl_player l")
    case False
    then have "stream_keeps (sl_player l) (sl_server l) r'" using frame by (simp add: stream_keeps_def)
    then show ?thesis using False built stream_keeps_stream_ok [OF assms] ok by simp
  next
    case True
    obtain q where q: "map_of (rx_recipients (sl_server l)) p = Some q"
      "remembers (stream_quantizer (sl_server l)) (map_of (sl_history l)) q"
      using assms True by (auto simp: stream_ok_def Let_def)
    let ?h = "(map_of (sl_history l))(i \<mapsto> filtered_world p world r')"
    note arrives = build_arrives [OF built server q refl]
    let ?mode = "rf_mode (rx_config (sl_server l))" and ?quant = "stream_quantizer (sl_server l)"
    have "sent_ok ?mode ?quant ?h m" if "m \<in> set (sl_sent l)" for m
      using that assms sent_ok_mono [OF _ arrives(3)] by (auto simp: stream_ok_def Let_def)
    moreover have "held_ok ?mode ?quant ?h c" if "c \<in> set (cs_baselines (sl_client l))" for c
      using that assms held_ok_mono [OF _ arrives(3)] by (auto simp: stream_ok_def Let_def)
    ultimately show ?thesis
      using True built ok quant arrives(1,2) by (simp add: stream_ok_def Let_def)
  qed
qed (simp add: assms)

lemma Delivering_ok:
  assumes "stream_ok l"
  shows "stream_ok (stream_step (Delivering i bytes) l)"
proof (cases "(i, bytes) \<in> set (sl_sent l)")
  case True
  let ?r = "sl_server l"
  have "sent_ok (rf_mode (rx_config ?r)) (stream_quantizer ?r) (map_of (sl_history l)) (i, bytes)"
    "\<forall>b \<in> set (cs_baselines (sl_client l)). held_ok (rf_mode (rx_config ?r)) (stream_quantizer ?r) (map_of (sl_history l)) b"
    using assms True by (auto simp: stream_ok_def Let_def)
  then show ?thesis
    by (rule ClientApply_sent) (use assms True in \<open>simp add: stream_ok_def Let_def\<close>)
qed (simp add: assms)

lemma stream_step_ok:
  assumes "stream_ok l"
  shows "stream_ok (stream_step e l)"
proof (cases e)
  case (Building p i world)
  then show ?thesis using Building_ok [OF assms] by simp
next
  case (Delivering i bytes)
  then show ?thesis using Delivering_ok [OF assms] by blast
next
  case (Acknowledging p i)
  have server: "replicator_ok (sl_server l)" using assms by (simp add: stream_ok_def Let_def)
  show ?thesis
  proof (cases "AcceptAcknowledgement p i (sl_server l)")
    case (Inr result)
    then obtain a r' where "AcceptAcknowledgement p i (sl_server l) = Inr (a, r')" by (cases result) simp
    then show ?thesis
      using stream_keeps_stream_ok [OF assms AcceptAcknowledgement_keeps AcceptAcknowledgement_ok [OF _ server]] Acknowledging
      by (simp add: on_server_def)
  qed (simp add: Acknowledging on_server_def assms)
next
  case (KeyframeRequest p)
  have server: "replicator_ok (sl_server l)" using assms by (simp add: stream_ok_def Let_def)
  show ?thesis
    using stream_keeps_stream_ok [OF assms RequestKeyframe_keeps RequestKeyframe_ok [OF _ server]] KeyframeRequest assms
    by (simp add: on_server_def split: sum.splits)
next
  case (RegisteringRecipient p actor)
  have server: "replicator_ok (sl_server l)" using assms by (simp add: stream_ok_def Let_def)
  show ?thesis
    using stream_keeps_stream_ok [OF assms RegisterRecipient_keeps RegisterRecipient_ok [OF _ server]] RegisteringRecipient assms
    by (simp add: on_server_def split: sum.splits)
next
  case (Removing p)
  have server: "replicator_ok (sl_server l)" using assms by (simp add: stream_ok_def Let_def)
  show ?thesis
    using stream_keeps_stream_ok [OF assms RemoveRecipient_keeps RemoveRecipient_ok [OF server]] Removing assms by auto
next
  case Resetting
  then show ?thesis using assms by (simp add: stream_ok_def ClientReset_def Let_def)
qed

lemma new_stream_ok:
  assumes "new_stream player actor server client = Inr l" and "replicator_ok server" and "cs_baselines client = []"
  shows "stream_ok l"
proof -
  obtain r where r: "RegisterRecipient player actor server = Inr r"
    and l: "l = \<lparr>sl_player = player, sl_server = r, sl_client = client, sl_sent = [], sl_history = []\<rparr>"
    using assms(1) by (auto simp: new_stream_def)
  have "map_of (rx_recipients r) player = Some (new_recipient actor)"
    using r by (auto simp: RegisterRecipient_def split: if_splits)
  then show ?thesis
    using RegisterRecipient_ok [OF r assms(2)] assms(3)
    by (auto simp: l stream_ok_def remembers_def new_recipient_def Let_def)
qed

text \<open>The link as a machine, whose runs keep the invariant.\<close>

interpretation replication_stream: invariant_machine "\<lambda>l e. Inr (stream_step e l)" stream_ok "\<lambda>_ _. True"
  by unfold_locales (simp add: stream_step_ok)

lemma run_stream: "run_steps (\<lambda>l e. Inr (stream_step e l)) l events = Inr (fold stream_step events l)"
  by (induction events arbitrary: l) simp_all

lemma stream_run_ok: "stream_ok l \<Longrightarrow> stream_ok (fold stream_step events l)"
  using replication_stream.run_total_unrestricted [of l events] by (auto simp: run_stream)

text \<open>The configuration and the arena are those the replicator was made with.\<close>

lemma map_sum_snd_Inr_iff: "map_sum id snd x = Inr y \<longleftrightarrow> (\<exists>a. x = Inr (a, y))"
  by (cases x) auto

lemma stream_step_arena:
  assumes "stream_ok l"
  shows "same_arena (sl_server l) (sl_server (stream_step e l)) \<and> sl_player (stream_step e l) = sl_player l"
proof -
  have server: "replicator_ok (sl_server l)" using assms by (simp add: stream_ok_def Let_def)
  have refl: "same_arena r r" for r by (simp add: same_arena_def)
  have kept: "stream_keeps (sl_player l) (sl_server l) r' \<Longrightarrow> same_arena (sl_server l) r'" for r' by (simp add: stream_keeps_def)
  show ?thesis
    using kept AcceptAcknowledgement_keeps RequestKeyframe_keeps RegisterRecipient_keeps RemoveRecipient_keeps
      ReplicatorBuild_frame(1) [OF _ server]
    by (cases e) (auto simp: on_server_def refl map_sum_snd_Inr_iff split: sum.splits)
qed

lemma stream_run_arena: "stream_ok l \<Longrightarrow> same_arena (sl_server l) (sl_server (fold stream_step events l))"
proof (induction events arbitrary: l)
  case (Cons e events)
  then show ?case using stream_step_arena [of l e] stream_step_ok [of l e] by (auto simp: same_arena_def)
qed (simp add: same_arena_def)

section \<open>What the client shows\<close>

text \<open>A position within two thousandths, a radius within one; everything else is equal, but for a
  result that is not there.\<close>

definition near_by :: "network_vec2 \<Rightarrow> network_vec2 \<Rightarrow> bool" where
  "near_by p p' \<longleftrightarrow> \<bar>f32_val (nv_x p') - f32_val (nv_x p)\<bar> \<le> 1 / 500 \<and> \<bar>f32_val (nv_z p') - f32_val (nv_z p)\<bar> \<le> 1 / 500"

definition shown_actor :: "network_actor \<Rightarrow> network_actor \<Rightarrow> bool" where
  "shown_actor a a' \<longleftrightarrow> near_by (na_position a) (na_position a') \<and> a' = a\<lparr>na_position := na_position a'\<rparr>"

definition shown_loot :: "network_loot \<Rightarrow> network_loot \<Rightarrow> bool" where
  "shown_loot l l' \<longleftrightarrow> near_by (nl_position l) (nl_position l') \<and> l' = l\<lparr>nl_position := nl_position l'\<rparr>"

definition shown_as :: "game_snapshot \<Rightarrow> game_snapshot \<Rightarrow> bool" where
  "shown_as w w' \<longleftrightarrow>
     list_all2 shown_actor (gs_actors w) (gs_actors w') \<and> list_all2 shown_loot (gs_loot w) (gs_loot w')
     \<and> near_by (gs_safeZoneCenter w) (gs_safeZoneCenter w')
     \<and> \<bar>f32_val (gs_safeZoneRadius w') - f32_val (gs_safeZoneRadius w)\<bar> \<le> 1 / 1000
     \<and> gs_phase w' = gs_phase w \<and> gs_safeZoneStage w' = gs_safeZoneStage w
     \<and> gs_aliveContenders w' = gs_aliveContenders w \<and> gs_eventChecksum w' = gs_eventChecksum w
     \<and> gs_hasResult w' = gs_hasResult w \<and> (gs_hasResult w \<longrightarrow> gs_result w' = gs_result w)"

lemma ucast_small:
  assumes "uint (x :: u32) < 2 ^ LENGTH('a)" and "LENGTH('a) \<le> 32"
  shows "ucast (ucast x :: 'a::len word) = x"
proof -
  have "uint (ucast (ucast x :: 'a word) :: u32) = uint x mod 2 ^ LENGTH('a)"
    using assms(2) by (simp add: uint_up_ucast is_up unsigned_ucast_eq unsigned_take_bit_eq take_bit_eq_mod [where ?'a = int])
  also have "\<dots> = uint x" using assms(1) by (simp add: mod_pos_pos_trivial)
  finally show ?thesis by (simp only: word_uint_eq_iff)
qed

lemma sint_uint_nonneg:
  assumes "0 \<le> sint (x :: u32)"
  shows "sint x = uint x"
proof -
  have x: "take_bit 32 (uint x) = uint x" "uint x < 2 ^ 32" using uint_lt2p [of x] by (simp_all add: take_bit_int_eq_self_iff)
  have "sint x = uint x - 2 ^ 32 * of_bool (bit (uint x) 31)"
    by (simp add: sint_uint signed_take_bit_eq_take_bit_minus x(1))
  then show ?thesis using assms x(2) by (cases "bit (uint x) 31") simp_all
qed

lemma quantized_fields:
  "QuantizeHealth h = Inr q8 \<Longrightarrow> ucast q8 = h" "QuantizeCooldownTicks c = Inr q16 \<Longrightarrow> ucast q16 = c"
  "QuantizeEliminations e = Inr q8 \<Longrightarrow> ucast q8 = e" "QuantizeAliveContenders n = Inr q8 \<Longrightarrow> ucast q8 = n"
proof -
  have small: "ucast (ucast x :: u8) = x" if "x \<le> 255" for x :: u32
    using ucast_small [where 'a = 8, of x] that by (simp add: word_le_def)
  assume "QuantizeHealth h = Inr q8"
  then have "q8 = ucast h" "0 \<le> sint h" "sint h \<le> 100" by (auto simp: QuantizeHealth_def split: if_splits)
  moreover from this(2) have "sint h = uint h" by (simp add: sint_uint_nonneg)
  ultimately show "ucast q8 = h" using small [of h] by (simp add: word_le_def)
next
  assume "QuantizeCooldownTicks c = Inr q16"
  then show "ucast q16 = c"
    using ucast_small [where 'a = 16, of c] by (auto simp: QuantizeCooldownTicks_def word_less_def split: if_splits)
next
  assume "QuantizeEliminations e = Inr q8"
  then show "ucast q8 = e"
    using ucast_small [where 'a = 8, of e] by (auto simp: QuantizeEliminations_def word_less_def split: if_splits)
next
  assume "QuantizeAliveContenders n = Inr q8"
  then show "ucast q8 = n"
    using ucast_small [where 'a = 8, of n]
    by (auto simp: QuantizeAliveContenders_def RoomCapacity_def word_less_def split: if_splits)
qed

definition arena_corner :: "f32 \<Rightarrow> network_vec2" where "arena_corner c = \<lparr>nv_x = c, nv_z = c\<rparr>"

definition in_client_arena :: "replicator \<Rightarrow> bool" where
  "in_client_arena r \<longleftrightarrow> rx_minimum r = arena_corner ArenaMinimum \<and> rx_maximum r = arena_corner ArenaMaximum
     \<and> rx_radiusMaximum r = SafeZoneRadiusMaximum"

lemma position_shown:
  assumes "QuantizePosition p (arena_corner ArenaMinimum) (arena_corner ArenaMaximum) = Inr q"
  shows "near_by p (position_of q)"
proof -
  have "QuantizeCoordinate (nv_x p) ArenaMinimum ArenaMaximum = Inr (qv_x q)"
    "QuantizeCoordinate (nv_z p) ArenaMinimum ArenaMaximum = Inr (qv_z q)"
    using assms by (auto simp: QuantizePosition_def arena_corner_def)
  from this [THEN dequantize_quantize [OF arena_bounds(1)]] show ?thesis
    unfolding near_by_def position_of_def powi_values by (simp add: order_trans)
qed

lemma world_shown:
  assumes "QuantizeView w (arena_corner ArenaMinimum) (arena_corner ArenaMaximum) SafeZoneRadiusMaximum = Inr v"
  shows "shown_as w (world_of (canon_view v))"
proof -
  note view = QuantizeView_InrD [OF assms]
  have "list_all2 shown_actor (gs_actors w) (gs_actors (world_of (canon_view v)))"
    unfolding world_of_def canon_view_def
    by (simp add: list_all2_map2, rule list_all2_mono [OF view(2)])
      (auto simp: QuantizeActor_def shown_actor_def position_shown quantized_fields)
  moreover have "list_all2 shown_loot (gs_loot w) (gs_loot (world_of (canon_view v)))"
    unfolding world_of_def canon_view_def
    by (simp add: list_all2_map2, rule list_all2_mono [OF view(3)])
      (auto simp: QuantizeLoot_def shown_loot_def position_shown)
  moreover have "\<bar>f32_val (dequantized q 0 SafeZoneRadiusMaximum) - f32_val (gs_safeZoneRadius w)\<bar> \<le> 1 / 1000"
    if "QuantizeSafeZoneRadius (gs_safeZoneRadius w) SafeZoneRadiusMaximum = Inr q" for q
    using dequantize_quantize [OF arena_bounds(2) that [unfolded QuantizeSafeZoneRadius_def]]
    unfolding powi_values by (rule order_trans) simp
  moreover obtain center radius alive where
    "QuantizePosition (gs_safeZoneCenter w) (arena_corner ArenaMinimum) (arena_corner ArenaMaximum) = Inr center"
    "QuantizeSafeZoneRadius (gs_safeZoneRadius w) SafeZoneRadiusMaximum = Inr radius"
    "QuantizeAliveContenders (gs_aliveContenders w) = Inr alive"
    "vw_global v = \<lparr>qg_phase = gs_phase w, qg_safeZoneStage = gs_safeZoneStage w,
            qg_safeZoneCenter = center, qg_safeZoneRadius = radius, qg_aliveContenders = alive,
            qg_result = gs_result w, qg_hasResult = gs_hasResult w, qg_eventChecksum = gs_eventChecksum w\<rparr>"
    using view(1) by (auto simp: QuantizeGlobal_def intro: that)
  ultimately show ?thesis
    by (simp add: shown_as_def world_of_def canon_view_def canon_global_def position_shown quantized_fields)
qed

lemma exact_shown: "mode \<noteq> FullState \<Longrightarrow> shown_as w (exact_world mode w)"
  by (simp add: shown_as_def exact_world_def near_by_def shown_actor_def shown_loot_def list_all2_same)

text \<open>Whatever is held for a snapshot shows the world the replicator filtered for it.\<close>

lemma held_shown:
  assumes "stream_ok l" and "in_client_arena (sl_server l)" and "rf_mode (rx_config (sl_server l)) \<noteq> FullState"
    and "c \<in> set (cs_baselines (sl_client l))"
  shows "\<exists>w. map_of (sl_history l) (cb_snapshotId c) = Some w \<and> shown_as w (cb_world c)"
proof -
  obtain w where w: "map_of (sl_history l) (cb_snapshotId c) = Some w"
      "arrives_as (rf_mode (rx_config (sl_server l))) (stream_quantizer (sl_server l)) w (cb_quantized c) (cb_world c)"
    using assms(1,4) by (auto simp: stream_ok_def held_ok_def Let_def)
  then have "shown_as w (cb_world c)"
    using exact_shown [OF assms(3)] world_shown assms(2)
    by (auto simp: arrives_as_def stream_quantizer_def in_client_arena_def split: option.splits)
  with w(1) show ?thesis by blast
qed

lemma in_client_arena_same: "same_arena r r' \<Longrightarrow> in_client_arena r' = in_client_arena r"
  by (simp add: same_arena_def in_client_arena_def)

lemma delivery_returns:
  assumes "stream_ok l" and "(i, bytes) \<in> set (sl_sent l)"
  shows "\<exists>p result s'. DecodeSnapshotPayload bytes = Inr p \<and> ClientApply i p (sl_client l) = (Inr result, s')"
proof -
  let ?r = "sl_server l"
  have "sent_ok (rf_mode (rx_config ?r)) (stream_quantizer ?r) (map_of (sl_history l)) (i, bytes)"
    "\<forall>b \<in> set (cs_baselines (sl_client l)). held_ok (rf_mode (rx_config ?r)) (stream_quantizer ?r) (map_of (sl_history l)) b"
    using assms by (auto simp: stream_ok_def Let_def)
  then show ?thesis by (rule ClientApply_sent) blast
qed

section \<open>Recovery\<close>

text \<open>After a keyframe was asked for, the next payload does not depend on a baseline.\<close>

lemma BuildPayload_requested:
  assumes "BuildPayload i filtered q r = Inr (payload, view, keyframe, fallback)" and "rr_keyframeRequested q"
  shows "keyframe"
  using assms by (auto simp: BuildPayload_def Let_def split: if_splits)

lemma keyframe_header:
  assumes "BuildPayload i filtered q r = Inr (payload, view, True, fallback)"
  shows "ph_kind (sp_header payload) = KindKeyframe"
proof (cases view)
  case None
  then show ?thesis using BuildPayload_InrD(6) [OF assms] by (simp add: payload_with_header_def)
next
  case (Some v)
  then show ?thesis using BuildPayload_InrD(4) [OF assms] by (simp add: BuildQuantizedKeyframe_def payload_with_header_def)
qed

lemma ClientApply_independent:
  assumes "sent_ok mode quant history (i, bytes)" and "DecodeSnapshotPayload bytes = Inr p"
    and "ph_kind (sp_header p) = KindKeyframe" and "history i = Some w"
    and "\<forall>b \<in> set (cs_baselines s). held_ok mode quant history b"
    and "case cs_highestSeenSnapshotId s of None \<Rightarrow> True | Some highest \<Rightarrow> highest < i"
  shows "\<exists>result s' quantized arrived. ClientApply i p s = (Inr result, s')
    \<and> ar_world result = Some arrived \<and> ar_acknowledgedSnapshotId result = i \<and> \<not> ar_requestKeyframe result
    \<and> arrives_as mode quant w quantized arrived"
proof -
  have p: "payload_ok p" "i \<noteq> 0" "ph_payloadSnapshotId (sp_header p) = i" "content_ok mode quant history w p"
    using assms(1,2,4) by (auto simp: sent_ok_def)
  obtain encoded where encode: "EncodeSnapshotPayload p = Inr encoded" using p(1) EncodeSnapshotPayload_iff by blast
  let ?s = "s\<lparr>cs_highestSeenSnapshotId := Some i\<rparr>"
  have fresh: "\<not> (case cs_highestSeenSnapshotId s of None \<Rightarrow> False | Some highest \<Rightarrow> i \<le> highest)"
    using assms(6) by (auto split: option.splits)
  have held: "\<forall>b \<in> set (cs_baselines ?s). held_ok mode quant history b" using assms(5) by simp
  have "ApplyPayload p ?s \<noteq> Inr MissingBaseline"
    using assms(3) by (auto simp: ApplyPayload_def Let_def split: prod.splits)
  then obtain quantized arrived removed entered where
    "ApplyPayload p ?s = Inr (Applied quantized arrived removed entered)" "arrives_as mode quant w quantized arrived"
    using ApplyPayload_sent [OF p(4) held] by metis
  then show ?thesis using p(2,3) encode fresh by (auto simp: ClientApply_def Let_def)
qed

lemma requested_keyframe_arrives:
  assumes "stream_ok l" and "in_client_arena (sl_server l)" and "rf_mode (rx_config (sl_server l)) \<noteq> FullState"
    and "map_of (rx_recipients (sl_server l)) (sl_player l) = Some q" and "rr_keyframeRequested q"
    and "ReplicatorBuild (sl_player l) i world (sl_server l) = Inr (b, r')"
    and "case cs_highestSeenSnapshotId (sl_client l) of None \<Rightarrow> True | Some highest \<Rightarrow> highest < i"
  shows "\<exists>p result s' arrived. DecodeSnapshotPayload (rb_encodedPayload b) = Inr p
    \<and> ClientApply i p (sl_client l) = (Inr result, s') \<and> ar_world result = Some arrived
    \<and> ar_acknowledgedSnapshotId result = i \<and> \<not> ar_requestKeyframe result
    \<and> shown_as (filtered_world (sl_player l) world r') arrived"
proof -
  let ?r = "sl_server l" and ?w = "filtered_world (sl_player l) world r'"
  have server: "replicator_ok ?r" and remembers: "remembers (stream_quantizer ?r) (map_of (sl_history l)) q"
    using assms(1,4) by (auto simp: stream_ok_def Let_def)
  let ?h = "(map_of (sl_history l))(i \<mapsto> ?w)"
  let ?mode = "rf_mode (rx_config ?r)" and ?quant = "stream_quantizer ?r"
  note arrives = build_arrives [OF assms(6) server assms(4) remembers refl]
  obtain p where p: "DecodeSnapshotPayload (rb_encodedPayload b) = Inr p" "ph_kind (sp_header p) = KindKeyframe"
  proof (rule ReplicatorBuild_InrD [OF assms(6) server], goal_cases)
    case 1
    then show ?case using assms(3) by simp
  next
    case (2 q1 visible filtered view candidate)
    then have "q1 = q" using assms(4) by simp
    then have "rb_keyframe b" using BuildPayload_requested 2 assms(5) by blast
    then have "ph_kind (sp_header (rb_payload b)) = KindKeyframe" using keyframe_header 2 by metis
    then show ?case using 2(1) [OF DecodeSnapshotPayload_Encode] 2 by simp
  qed
  have held: "\<forall>c \<in> set (cs_baselines (sl_client l)). held_ok ?mode ?quant ?h c"
    using assms(1) held_ok_mono [OF _ arrives(3)] by (auto simp: stream_ok_def Let_def)
  have "?h i = Some ?w" by simp
  from ClientApply_independent [OF arrives(2) p this held assms(7)]
  obtain result s' quantized arrived where "ClientApply i p (sl_client l) = (Inr result, s')"
    "ar_world result = Some arrived" "ar_acknowledgedSnapshotId result = i" "\<not> ar_requestKeyframe result"
    and arrived: "arrives_as ?mode ?quant ?w quantized arrived" by blast
  moreover have "shown_as ?w arrived"
    using arrived exact_shown [OF assms(3)] world_shown assms(2)
    by (auto simp: arrives_as_def stream_quantizer_def in_client_arena_def split: option.splits)
  ultimately show ?thesis using p(1) by blast
qed

section \<open>A request stands\<close>

definition keyframe_pending :: "stream_link \<Rightarrow> bool" where
  "keyframe_pending l \<longleftrightarrow>
     (\<exists>q. map_of (rx_recipients (sl_server l)) (sl_player l) = Some q \<and> rr_keyframeRequested q)"

text \<open>What was sent stays sent; a request stands until something is sent.\<close>

lemma stream_step_sent: "\<exists>new. sl_sent (stream_step e l) = new @ sl_sent l"
proof (cases e)
  case (Building p i world)
  then show ?thesis by (auto split: sum.splits prod.splits if_splits)
next
  case (Delivering i bytes)
  then show ?thesis by (simp split: sum.splits if_splits)
qed (simp_all add: on_server_def split: sum.splits if_splits)

lemma stream_run_sent: "\<exists>new. sl_sent (fold stream_step events l) = new @ sl_sent l"
proof (induction events arbitrary: l)
  case (Cons e events)
  then obtain new where "sl_sent (fold stream_step events (stream_step e l)) = new @ sl_sent (stream_step e l)" by blast
  moreover obtain new' where "sl_sent (stream_step e l) = new' @ sl_sent l" using stream_step_sent by blast
  ultimately show ?case by simp
qed simp

lemma stream_step_request:
  assumes "stream_ok l"
  shows "keyframe_pending (stream_step (KeyframeRequest (sl_player l)) l)"
  using assms
  by (auto simp: stream_ok_def keyframe_pending_def on_server_def ReplicatorRequestKeyframe_def RecipientFor_def Let_def)

lemma stream_step_pending:
  assumes pending: "keyframe_pending l" and ok: "stream_ok l" and sent: "sl_sent (stream_step e l) = sl_sent l"
  shows "keyframe_pending (stream_step e l)"
proof (cases e)
  case (Building p i world)
  have server: "replicator_ok (sl_server l)" using ok by (simp add: stream_ok_def Let_def)
  show ?thesis
  proof (cases "ReplicatorBuild p i world (sl_server l)")
    case (Inr built)
    obtain b r where built: "built = (b, r)" by (cases built)
    then have "sl_player l \<noteq> p" using sent Building Inr by auto
    moreover have "map_of (rx_recipients r) (sl_player l) = map_of (rx_recipients (sl_server l)) (sl_player l)"
      by (rule ReplicatorBuild_frame(2) [OF _ server calculation]) (use Inr built in simp)
    ultimately show ?thesis using pending Building Inr built by (simp add: keyframe_pending_def)
  qed (use pending Building in simp)
next
  case (Delivering i bytes)
  then show ?thesis using pending by (simp add: keyframe_pending_def split: sum.splits)
next
  case (Acknowledging p i)
  then show ?thesis using pending
    by (auto simp: keyframe_pending_def on_server_def AcceptAcknowledgement_def RecipientFor_def set_recipient_def
        split: option.splits)
next
  case (KeyframeRequest p)
  then show ?thesis using pending
    by (auto simp: keyframe_pending_def on_server_def ReplicatorRequestKeyframe_def RecipientFor_def set_recipient_def
        split: option.splits)
next
  case (RegisteringRecipient p actor)
  then show ?thesis using pending
    by (auto simp: keyframe_pending_def on_server_def RegisterRecipient_def set_recipient_def)
next
  case (Removing p)
  then show ?thesis using pending by (auto simp: keyframe_pending_def RemoveRecipient_def)
next
  case Resetting
  then show ?thesis using pending by (simp add: keyframe_pending_def)
qed

lemma stream_run_pending:
  assumes "keyframe_pending l" and "stream_ok l" and "sl_sent (fold stream_step events l) = sl_sent l"
  shows "keyframe_pending (fold stream_step events l)"
  using assms
proof (induction events arbitrary: l)
  case (Cons e events)
  obtain new where "sl_sent (stream_step e l) = new @ sl_sent l" using stream_step_sent by blast
  moreover obtain new' where "sl_sent (fold stream_step events (stream_step e l)) = new' @ sl_sent (stream_step e l)"
    using stream_run_sent by blast
  ultimately have "sl_sent (stream_step e l) = sl_sent l"
    "sl_sent (fold stream_step events (stream_step e l)) = sl_sent (stream_step e l)"
    using Cons.prems(3) by simp_all
  then show ?case
    using Cons.IH [of "stream_step e l"] stream_step_pending [OF Cons.prems(1,2)] stream_step_ok [OF Cons.prems(2)]
    by simp
qed simp

end
