(* ===== verification/ReplicationProgress.thy ===== *)
theory ReplicationProgress
  imports ReplicationStreamCorrect
begin

text \<open>
  A build of SnapshotReplicator.cpp returns: for every valid world inside the arena of the client,
  as a keyframe, whatever the recipient had before. Delivered, it brings the client up to date.
\<close>

section \<open>Valid worlds\<close>

definition arena_box :: aabb2 where
  "arena_box = \<lparr>bx_minimum = arena_corner ArenaMinimum, bx_maximum = arena_corner ArenaMaximum\<rparr>"

definition valid_actor :: "network_actor \<Rightarrow> bool" where
  "valid_actor a \<longleftrightarrow> IsValidPrecisionActor a \<and> Aabb2_Contains arena_box (na_position a)
     \<and> na_cooldownTicksRemaining a \<le> 65535 \<and> na_eliminations a \<le> 255"

definition valid_loot :: "network_loot \<Rightarrow> bool" where
  "valid_loot l \<longleftrightarrow> IsValidLootType (nl_type l) \<and> Aabb2_Contains arena_box (nl_position l)"

definition valid_world :: "game_snapshot \<Rightarrow> bool" where
  "valid_world w \<longleftrightarrow> HasCanonicalWorldIds w \<and> IsValidPrecisionGlobal w
     \<and> length (gs_actors w) \<le> MaxSnapshotActors \<and> length (gs_loot w) \<le> MaxSnapshotLoot
     \<and> list_all valid_actor (gs_actors w) \<and> list_all valid_loot (gs_loot w)
     \<and> Aabb2_Contains arena_box (gs_safeZoneCenter w) \<and> f32_le (gs_safeZoneRadius w) SafeZoneRadiusMaximum"

section \<open>Quantizing returns\<close>

lemma contains_arena:
  assumes "Aabb2_Contains arena_box p"
  shows "isfinite (nv_x p)" "isfinite (nv_z p)" "IsFinite p"
    "f32_val ArenaMinimum \<le> f32_val (nv_x p)" "f32_val (nv_x p) \<le> f32_val ArenaMaximum"
    "f32_val ArenaMinimum \<le> f32_val (nv_z p)" "f32_val (nv_z p) \<le> f32_val ArenaMaximum"
  using assms arena_bounds(1)
  by (auto simp: Aabb2_Contains_def arena_box_def arena_corner_def IsFinite_def wire_bounds_def f32_le_iff)

lemma QuantizePosition_returns:
  assumes "Aabb2_Contains arena_box p"
  obtains q where "QuantizePosition p (arena_corner ArenaMinimum) (arena_corner ArenaMaximum) = Inr q"
proof -
  have lo_hi: "isfinite ArenaMinimum" "isfinite ArenaMaximum" "f32_val ArenaMinimum < f32_val ArenaMaximum"
    using arena_bounds(1) by (auto simp: wire_bounds_def)
  have "\<exists>q. QuantizeCoordinate v ArenaMinimum ArenaMaximum = Inr q"
    if "isfinite v" "f32_val ArenaMinimum \<le> f32_val v" "f32_val v \<le> f32_val ArenaMaximum" for v
    using that lo_hi by (simp add: QuantizeCoordinate_iff)
  then obtain x z where "QuantizeCoordinate (nv_x p) ArenaMinimum ArenaMaximum = Inr x"
      "QuantizeCoordinate (nv_z p) ArenaMinimum ArenaMaximum = Inr z"
    using contains_arena [OF assms] by metis
  then show thesis by (intro that [of "\<lparr>qv_x = x, qv_z = z\<rparr>"]) (simp add: QuantizePosition_def arena_corner_def)
qed

lemma uint_of_ucast: "ucast (x :: 'a::len word) = (y :: u32) \<Longrightarrow> LENGTH('a) \<le> 32 \<Longrightarrow> uint y = uint x"
  by (auto simp: uint_up_ucast is_up)

lemma QuantizeActor_returns:
  assumes "valid_actor a"
  obtains q where "QuantizeActor (arena_corner ArenaMinimum) (arena_corner ArenaMaximum) a = Inr q"
    "IsValidQuantizedActor q"
proof -
  note valid = assms [unfolded valid_actor_def IsValidPrecisionActor_def]
  obtain p where p: "QuantizePosition (na_position a) (arena_corner ArenaMinimum) (arena_corner ArenaMaximum) = Inr p"
    using QuantizePosition_returns valid by blast
  obtain h where h: "QuantizeHealth (na_health a) = Inr h" using valid by (simp add: QuantizeHealth_def)
  have "uint (na_health a) = uint h" using uint_of_ucast [OF quantized_fields(1) [OF h]] by simp
  moreover have "sint (na_health a) = uint (na_health a)" using valid sint_uint_nonneg by blast
  ultimately have "uint h \<le> 100" "0 < sint (na_health a) \<longleftrightarrow> 0 < uint h" using valid by auto
  then have health: "h \<le> 100" "0 < h \<longleftrightarrow> 0 < sint (na_health a)" by (simp_all add: word_le_def word_less_def)
  have "\<not> 65535 < na_cooldownTicksRemaining a" "\<not> 255 < na_eliminations a" using valid by (simp_all add: not_less)
  then show thesis
    using that p h health valid
    by (simp add: QuantizeActor_def QuantizeCooldownTicks_def QuantizeEliminations_def IsValidQuantizedActor_def)
qed

lemma QuantizeLoot_returns:
  assumes "valid_loot l"
  obtains q where "QuantizeLoot (arena_corner ArenaMinimum) (arena_corner ArenaMaximum) l = Inr q" "IsValidLootType (ql_type q)"
proof -
  obtain p where "QuantizePosition (nl_position l) (arena_corner ArenaMinimum) (arena_corner ArenaMaximum) = Inr p"
    using QuantizePosition_returns assms by (auto simp: valid_loot_def)
  then show thesis using that assms by (simp add: valid_loot_def QuantizeLoot_def)
qed

lemma QuantizeGlobal_returns:
  assumes "valid_world w"
  obtains g where "QuantizeGlobal w (arena_corner ArenaMinimum) (arena_corner ArenaMaximum) SafeZoneRadiusMaximum = Inr g"
    "IsValidQuantizedGlobal g"
proof -
  note valid = assms [unfolded valid_world_def IsValidPrecisionGlobal_def]
  obtain c where c: "QuantizePosition (gs_safeZoneCenter w) (arena_corner ArenaMinimum) (arena_corner ArenaMaximum) = Inr c"
    using QuantizePosition_returns valid by blast
  have radius: "isfinite (gs_safeZoneRadius w)" "isfinite SafeZoneRadiusMaximum" "f32_val (0::f32) < f32_val SafeZoneRadiusMaximum"
    using valid arena_bounds(2) by (auto simp: wire_bounds_def)
  have "f32_le 0 (gs_safeZoneRadius w)" using valid by (auto simp: f32_le_def f32_eq_def)
  then have "0 \<le> f32_val (gs_safeZoneRadius w)" using radius(1) by (simp add: f32_le_iff)
  moreover have "f32_val (gs_safeZoneRadius w) \<le> f32_val SafeZoneRadiusMaximum"
    using valid radius(1,2) by (simp add: f32_le_iff)
  ultimately obtain q where q: "QuantizeSafeZoneRadius (gs_safeZoneRadius w) SafeZoneRadiusMaximum = Inr q"
    using radius by (simp add: QuantizeSafeZoneRadius_def QuantizeCoordinate_iff)
  have "\<not> of_nat RoomCapacity < gs_aliveContenders w"
    using valid by (simp add: word_less_nat_alt RoomCapacity_def)
  then obtain n where n: "QuantizeAliveContenders (gs_aliveContenders w) = Inr n"
    by (simp add: QuantizeAliveContenders_def)
  note alive = quantized_fields(4) [OF n]
  have "unat n = unat (gs_aliveContenders w)" unfolding unat_eq_nat_uint using uint_of_ucast [OF alive] by simp
  moreover have "IsValidPhase (gs_phase w)" "IsValidSafeZoneStage (gs_safeZoneStage w)"
    "unat (gs_aliveContenders w) \<le> RoomCapacity"
    "IsValidResultState (gs_phase w) (gs_aliveContenders w) (gs_hasResult w) (gs_result w)"
    using valid by blast+
  ultimately show thesis
    using that c q n alive by (simp add: QuantizeGlobal_def IsValidQuantizedGlobal_def)
qed

lemma map_throws_returns:
  "(\<And>x. x \<in> set xs \<Longrightarrow> \<exists>y. f x = Inr y \<and> P y) \<Longrightarrow> \<exists>ys. map_throws f xs = Inr ys \<and> (\<forall>y \<in> set ys. P y)"
proof (induction xs)
  case (Cons x xs)
  then obtain y ys where "f x = Inr y" "P y" "map_throws f xs = Inr ys" "\<forall>y \<in> set ys. P y" by fastforce
  then show ?case by simp
qed simp

text \<open>A part of a valid world is valid, and so is its view.\<close>

lemma filtered_valid:
  assumes "valid_world w" and "FilterWorld w visible = Inr filtered" and "in_world w visible"
  shows "valid_world filtered"
proof -
  note f = FilterWorld_InrD [OF assms(2)] and canonical = FilterWorld_canonical [OF assms(2,3)]
  have len: "length xs \<le> length ys" if "canonical_by key xs" "set xs \<subseteq> set ys" for key :: "'a \<Rightarrow> 'k::linorder" and xs ys
    using card_mono [OF finite_set that(2)] card_length [of ys] canonical_by_distinct [OF that(1)]
    by (simp add: distinct_map distinct_card)
  have "length (gs_actors filtered) \<le> length (gs_actors w)" "length (gs_loot filtered) \<le> length (gs_loot w)"
    using len [OF canonical(1) f(3)] len [OF canonical(2), of "gs_loot w"] f(4) by auto
  moreover have "list_all valid_actor (gs_actors filtered)" "list_all valid_loot (gs_loot filtered)"
    using assms(1) f(3,4) by (auto simp: valid_world_def list_all_iff)
  moreover have "HasCanonicalWorldIds filtered" using canonical by (simp add: HasCanonicalWorldIds_iff)
  moreover have "IsValidPrecisionGlobal filtered = IsValidPrecisionGlobal w"
    "gs_safeZoneCenter filtered = gs_safeZoneCenter w" "gs_safeZoneRadius filtered = gs_safeZoneRadius w"
    by (subst f(5), simp add: IsValidPrecisionGlobal_def)+
  ultimately show ?thesis using assms(1) by (simp add: valid_world_def)
qed

lemma QuantizeView_returns:
  assumes "valid_world w"
  obtains v where "QuantizeView w (arena_corner ArenaMinimum) (arena_corner ArenaMaximum) SafeZoneRadiusMaximum = Inr v"
    "view_ok v"
proof -
  obtain g where g: "QuantizeGlobal w (arena_corner ArenaMinimum) (arena_corner ArenaMaximum) SafeZoneRadiusMaximum = Inr g"
    "IsValidQuantizedGlobal g" using QuantizeGlobal_returns [OF assms] .
  have "\<exists>as. map_throws (QuantizeActor (arena_corner ArenaMinimum) (arena_corner ArenaMaximum)) (gs_actors w) = Inr as
      \<and> (\<forall>a \<in> set as. IsValidQuantizedActor a)"
    using assms by (intro map_throws_returns) (metis QuantizeActor_returns list_all_iff valid_world_def)
  moreover have "\<exists>ls. map_throws (QuantizeLoot (arena_corner ArenaMinimum) (arena_corner ArenaMaximum)) (gs_loot w) = Inr ls
      \<and> (\<forall>l \<in> set ls. IsValidLootType (ql_type l))"
    using assms by (intro map_throws_returns) (metis QuantizeLoot_returns list_all_iff valid_world_def)
  ultimately obtain as ls where
    as: "map_throws (QuantizeActor (arena_corner ArenaMinimum) (arena_corner ArenaMaximum)) (gs_actors w) = Inr as"
      "\<forall>a \<in> set as. IsValidQuantizedActor a"
    and ls: "map_throws (QuantizeLoot (arena_corner ArenaMinimum) (arena_corner ArenaMaximum)) (gs_loot w) = Inr ls"
      "\<forall>l \<in> set ls. IsValidLootType (ql_type l)" by blast
  let ?v = "\<lparr>vw_global = g, vw_actors = as, vw_loot = ls\<rparr>"
  have v: "QuantizeView w (arena_corner ArenaMinimum) (arena_corner ArenaMaximum) SafeZoneRadiusMaximum = Inr ?v"
    using g(1) as(1) ls(1) by (simp add: QuantizeView_def)
  have "canonical_view ?v"
    using QuantizeView_canonical [OF v] assms by (simp add: valid_world_def HasCanonicalWorldIds_iff)
  moreover have "length as = length (gs_actors w)" "length ls = length (gs_loot w)"
    using QuantizeView_InrD(2,3) [OF v] by (auto dest: list_all2_lengthD)
  ultimately have "view_ok ?v"
    using g(2) as(2) ls(2) assms by (simp add: view_ok_def canonical_view_def valid_world_def)
  with v show thesis by (rule that)
qed

section \<open>Building returns\<close>

text \<open>What the constructor makes of the square arena, and every operation keeps.\<close>

definition made_for_arena :: "replicator \<Rightarrow> bool" where
  "made_for_arena r \<longleftrightarrow> in_client_arena r \<and> rx_bounds r = arena_box
     \<and> ValidateReplicationConfig (rx_config r) = Inr (rx_config r)
     \<and> (\<exists>g. InterestGrid arena_box (rf_cellSize (rx_config r)) = Inr g)"

lemma made_for_arena_same: "same_arena r r' \<Longrightarrow> made_for_arena r \<Longrightarrow> made_for_arena r'"
  by (auto simp: made_for_arena_def in_client_arena_def same_arena_def)

lemma SnapshotReplicator_made:
  assumes "SnapshotReplicator vertices config = Inr r" and "ArenaBounds vertices = Inr arena_box"
    and "f32_mul (f32_max (f32_sub ArenaMaximum ArenaMinimum) (f32_sub ArenaMaximum ArenaMinimum)) 0x3F000000
      = SafeZoneRadiusMaximum"
  shows "made_for_arena r"
  using assms
  by (auto simp: SnapshotReplicator_def made_for_arena_def in_client_arena_def arena_box_def arena_corner_def
      ValidateReplicationConfig_def Let_def split: if_splits)

lemma InterestGrid_bounds: "InterestGrid b c = Inr g \<Longrightarrow> ig_bounds g = b"
  by (auto simp: InterestGrid_def Let_def split: if_splits)

lemma Rebuild_returns:
  assumes "valid_world w" and "ig_bounds g = arena_box"
  shows "\<exists>g'. Rebuild w g = Inr g' \<and> ig_bounds g' = arena_box"
proof -
  have "distinct (map na_id (gs_actors w))" "distinct (map nl_id (gs_loot w))"
    using assms(1) canonical_by_distinct by (auto simp: valid_world_def HasCanonicalWorldIds_iff)
  moreover have "check_positions g (map na_position (gs_actors w)) = Inr ()"
    "check_positions g (map nl_position (gs_loot w)) = Inr ()"
    using assms by (auto simp: check_positions_iff valid_world_def list_all_iff valid_actor_def valid_loot_def)
  ultimately show ?thesis
    using assms by (simp add: Rebuild_def HasDuplicateIds_def adjacent_equal_sort valid_world_def not_less Let_def)
qed

lemma PrepareGrid_returns:
  assumes "made_for_arena r" and "valid_world w"
    and "case rx_gridSnapshotId r of None \<Rightarrow> True | Some j \<Rightarrow> j < i"
  obtains g candidate where "PrepareGrid i w r = Inr (g, candidate)" "ig_bounds g = arena_box"
proof -
  obtain g0 where g0: "InterestGrid arena_box (rf_cellSize (rx_config r)) = Inr g0"
    using assms(1) by (auto simp: made_for_arena_def)
  obtain g where "Rebuild w g0 = Inr g" "ig_bounds g = arena_box"
    using Rebuild_returns [OF assms(2) InterestGrid_bounds [OF g0]] by blast
  moreover have "rx_gridSnapshotId r \<noteq> Some i"
    "\<not> (case rx_gridSnapshotId r of None \<Rightarrow> False | Some j \<Rightarrow> i < j)"
    using assms(3) by (auto split: option.splits)
  ultimately show thesis
    using that g0 assms(1) by (simp add: PrepareGrid_def made_for_arena_def)
qed

lemma keyframe_encodes:
  assumes "view_ok v" and "i \<noteq> 0"
  shows "\<exists>bytes. EncodeSnapshotPayload (BuildQuantizedKeyframe i v) = Inr bytes"
proof -
  have "ValidateQuantizedKeyframe (BuildQuantizedKeyframe i v) = Inr ()"
    using assms(1)
    by (simp add: ValidateQuantizedKeyframe_def BuildQuantizedKeyframe_def payload_with_header_def view_ok_def
        list_all_iff canonical_by_def not_less)
  then have "ValidatePayload (BuildQuantizedKeyframe i v) = Inr ()"
    using assms(2) by (simp add: ValidatePayload_def IsValidHeader_def BuildQuantizedKeyframe_def
        payload_with_header_def payload_kinds snapshot_eq_default Let_def)
  then show ?thesis
    by (simp add: EncodeSnapshotPayload_iff payload_ok_def BuildQuantizedKeyframe_def payload_with_header_def payload_kinds)
qed

lemma precise_encodes:
  assumes "valid_world w" and "i \<noteq> 0"
  shows "\<exists>bytes. EncodeSnapshotPayload ((payload_with_header \<lparr>ph_kind = KindKeyframe,
      ph_valueEncoding = EncodingFullPrecision, ph_baseSnapshotId = 0, ph_payloadSnapshotId = i\<rparr>)
      \<lparr>sp_fullPrecision := w\<rparr>) = Inr bytes" (is "\<exists>bytes. EncodeSnapshotPayload ?p = Inr bytes")
proof -
  have "list_all IsValidPrecisionActor (gs_actors w)"
    "list_all (\<lambda>loot. IsValidLootType (nl_type loot) \<and> IsFinite (nl_position loot)) (gs_loot w)"
    using assms(1) contains_arena(3) by (auto simp: valid_world_def list_all_iff valid_actor_def valid_loot_def)
  then have "ValidatePrecisionKeyframe ?p = Inr ()"
    using assms(1) by (simp add: ValidatePrecisionKeyframe_def payload_with_header_def valid_world_def
        HasCanonicalWorldIds_iff canonical_by_def not_less Let_def)
  then have "ValidatePayload ?p = Inr ()"
    using assms(2) by (simp add: ValidatePayload_def IsValidHeader_def payload_with_header_def payload_kinds Let_def)
  then show ?thesis by (simp add: EncodeSnapshotPayload_iff payload_ok_def payload_with_header_def payload_kinds)
qed

lemma BuildPayload_returns:
  assumes "valid_world w" and "in_client_arena r" and "rr_keyframeRequested q" and "i \<noteq> 0"
  obtains payload view fallback bytes where "BuildPayload i w q r = Inr (payload, view, True, fallback)"
    "EncodeSnapshotPayload payload = Inr bytes"
proof -
  obtain v where v: "QuantizeView w (rx_minimum r) (rx_maximum r) (rx_radiusMaximum r) = Inr v" "view_ok v"
    using QuantizeView_returns [OF assms(1)] assms(2) by (auto simp: in_client_arena_def)
  show thesis
  proof (cases "rf_mode (rx_config r) = InterestFullPrecision")
    case True
    then show thesis using that precise_encodes [OF assms(1,4)] by (auto simp: BuildPayload_def)
  next
    case False
    obtain bytes where "EncodeSnapshotPayload (BuildQuantizedKeyframe i v) = Inr bytes"
      using keyframe_encodes [OF v(2) assms(4)] by blast
    moreover obtain fallback where "BuildPayload i w q r = Inr (BuildQuantizedKeyframe i v, Some v, True, fallback)"
      using False v(1) assms(3) by (cases "rf_mode (rx_config r) = InterestDelta") (simp_all add: BuildPayload_def Let_def)
    ultimately show thesis by (intro that)
  qed
qed

lemma ReplicatorBuild_returns:
  assumes "replicator_ok r" and "made_for_arena r" and "rf_mode (rx_config r) \<noteq> FullState"
    and "map_of (rx_recipients r) player = Some q" and "rr_keyframeRequested q"
    and "valid_world w" and "a \<in> set (gs_actors w)" and "na_id a = rr_controlledActor q"
    and "rr_issuedHighWatermark q < i" and "case rx_gridSnapshotId r of None \<Rightarrow> True | Some j \<Rightarrow> j < i"
  shows "\<exists>b r'. ReplicatorBuild player i w r = Inr (b, r') \<and> rb_keyframe b"
proof -
  note config = assms(2) [unfolded made_for_arena_def ValidateReplicationConfig_def]
  have i: "i \<noteq> 0" using assms(9) by auto
  have canonical: "HasCanonicalWorldIds w" using assms(6) by (simp add: valid_world_def)
  then have found: "FindActor w (rr_controlledActor q) = Some a"
    using find_in_mem [of na_id "gs_actors w" a] assms(7,8) by (simp add: FindActor_def HasCanonicalWorldIds_iff)
  obtain g candidate where grid: "PrepareGrid i w r = Inr (g, candidate)" "ig_bounds g = arena_box"
    using PrepareGrid_returns [OF assms(2,6,10)] .
  have "Aabb2_Contains (ig_bounds g) (na_position a)"
    using assms(6,7) grid(2) by (auto simp: valid_world_def list_all_iff valid_actor_def)
  moreover have "isfinite (rf_enterRadius (rx_config r))" "isfinite (rf_leaveRadius (rx_config r))"
    "0 < f32_val (rf_enterRadius (rx_config r))" "f32_val (rf_enterRadius (rx_config r)) \<le> f32_val (rf_leaveRadius (rx_config r))"
    using config by (auto simp: f32_le_iff f32_less_iff split: if_splits)
  moreover have "sorted_wrt (<) (vs_actors (rr_visible q))" "sorted_wrt (<) (vs_loot (rr_visible q))"
    using replicator_okD [OF assms(1,4)] by (simp_all add: recipient_ok_def)
  ultimately obtain visible where visible: "UpdateVisibility g (rr_visible q) (na_position a)
      (rf_enterRadius (rx_config r)) (rf_leaveRadius (rx_config r)) = Inr visible"
    using UpdateVisibility_returns by blast
  have seen: "in_world w visible" by (rule visible_in_world [OF grid(1) assms(1) visible])
  have own: "rr_controlledActor q \<in> set (vs_actors visible)"
    using controlled_visible [OF grid(1) assms(1,7) visible] assms(8) by simp
  obtain filtered where filtered: "FilterWorld w visible = Inr filtered"
    using FilterWorld_returns [OF canonical seen] by blast
  have "in_client_arena r" using assms(2) by (simp add: made_for_arena_def)
  then obtain payload view fallback bytes where
    "BuildPayload i filtered q r = Inr (payload, view, True, fallback)" "EncodeSnapshotPayload payload = Inr bytes"
    using BuildPayload_returns [OF filtered_valid [OF assms(6) filtered seen] _ assms(5) i] by metis
  then have "\<exists>b r'. BuildInterest player i w q r = Inr (b, r') \<and> rb_keyframe b"
    using canonical found grid(1) visible own filtered by (simp add: BuildInterest_def)
  then show ?thesis using assms(3,4,9) i by (simp add: ReplicatorBuild_def not_le)
qed

end
