(* ===== verification/ReplicatorErrors.thy ===== *)
theory ReplicatorErrors
  imports ReplicatorInvariant
begin

text \<open>
  When a build of SnapshotReplicator.cpp throws \<^verbatim>\<open>std::logic\_error\<close>: never because an
  actor or loot that the grid found is missing, only when the world lacks the recipient's own actor
  or something in it is no longer what it was.
\<close>

lemma bind_throws_Inl_iff:
  "bind_throws x f = Inl e \<longleftrightarrow> x = Inl e \<or> (\<exists>a. x = Inr a \<and> f a = Inl e)"
  by (cases x) auto

named_theorems not_logic

lemma RequireCanonical_not_logic [not_logic]: "RequireCanonical key vs \<noteq> Inl Logic_error"
  by (simp add: RequireCanonical_def)

lemma ValidatePayload_not_logic [not_logic]: "ValidatePayload p \<noteq> Inl Logic_error"
proof -
  have "ValidatePrecisionKeyframe p \<noteq> Inl Logic_error" "ValidateQuantizedKeyframe p \<noteq> Inl Logic_error"
    "ValidateDelta p \<noteq> Inl Logic_error"
    by (simp_all add: ValidatePrecisionKeyframe_def ValidateQuantizedKeyframe_def ValidateDelta_def
        bind_throws_Inl_iff not_logic Let_def)
  then show ?thesis by (simp add: ValidatePayload_def Let_def)
qed

lemma EncodeSnapshotPayload_not_logic [not_logic]: "EncodeSnapshotPayload p \<noteq> Inl Logic_error"
  by (simp add: EncodeSnapshotPayload_def EncodeGameSnapshot_eq bind_throws_Inl_iff not_logic Let_def)

lemma check_positions_not_logic [not_logic]: "check_positions g ps \<noteq> Inl Logic_error"
  by (induction ps) (auto simp: check_position_def bind_throws_Inl_iff)

lemma grid_not_logic [not_logic]:
  "InterestGrid bounds cellSize \<noteq> Inl Logic_error" "Rebuild world g \<noteq> Inl Logic_error"
  "UpdateVisibility g previous c er lr \<noteq> Inl Logic_error"
  by (simp_all add: InterestGrid_def Rebuild_def UpdateVisibility_def ValidatePreviousIds_def
      bind_throws_Inl_iff not_logic Let_def)

lemma PrepareGrid_not_logic [not_logic]: "PrepareGrid i world r \<noteq> Inl Logic_error"
  by (simp add: PrepareGrid_def bind_throws_Inl_iff not_logic split: option.splits)

lemma quantize_not_logic [not_logic]:
  "QuantizeCoordinate v lo hi \<noteq> Inl Logic_error" "QuantizeSafeZoneRadius v hi \<noteq> Inl Logic_error"
  "QuantizeHealth h \<noteq> Inl Logic_error" "QuantizeCooldownTicks t \<noteq> Inl Logic_error"
  "QuantizeEliminations e \<noteq> Inl Logic_error" "QuantizeAliveContenders n \<noteq> Inl Logic_error"
  by (simp_all add: QuantizeCoordinate_def ValidateQuantizationBounds_def QuantizeSafeZoneRadius_def
      QuantizeHealth_def QuantizeCooldownTicks_def QuantizeEliminations_def QuantizeAliveContenders_def
      bind_throws_Inl_iff Let_def)

lemma map_throws_not_Inl: "(\<And>x. f x \<noteq> Inl e) \<Longrightarrow> map_throws f xs \<noteq> Inl e"
  using map_throws_InlD by metis

lemma QuantizeView_not_logic [not_logic]: "QuantizeView w lo hi radius \<noteq> Inl Logic_error"
proof -
  have "QuantizeActor lo hi a \<noteq> Inl Logic_error" "QuantizeLoot lo hi l \<noteq> Inl Logic_error"
    "QuantizeGlobal w lo hi radius \<noteq> Inl Logic_error" for a l
    by (simp_all add: QuantizeActor_def QuantizeLoot_def QuantizeGlobal_def QuantizePosition_def
        bind_throws_Inl_iff not_logic)
  then show ?thesis by (simp add: QuantizeView_def bind_throws_Inl_iff map_throws_not_Inl)
qed

lemma list_all2_mem: "list_all2 P xs ys \<Longrightarrow> y \<in> set ys \<Longrightarrow> \<exists>x \<in> set xs. P x y"
  by (induction rule: list_all2_induct) auto

text \<open>A baseline holds something under an identifier that means something else in the world.\<close>

definition identity_changed :: "replicator \<Rightarrow> quantized_view \<Rightarrow> game_snapshot \<Rightarrow> bool" where
  "identity_changed r base world \<longleftrightarrow>
     (\<exists>b \<in> set (vw_actors base). \<exists>a \<in> set (gs_actors world). qa_id b = na_id a
        \<and> (qa_role b \<noteq> na_role a \<or> qa_neutralArchetype b \<noteq> na_neutralArchetype a))
     \<or> (\<exists>b \<in> set (vw_loot base). \<exists>l \<in> set (gs_loot world). ql_id b = nl_id l
        \<and> (ql_type b \<noteq> nl_type l
           \<or> QuantizePosition (nl_position l) (rx_minimum r) (rx_maximum r) \<noteq> Inr (ql_position b)))"

lemma BuildDeltaPayload_changed:
  assumes "BuildDeltaPayload a i base v = Inl e"
    and "QuantizeView filtered (rx_minimum r) (rx_maximum r) (rx_radiusMaximum r) = Inr v"
    and "set (gs_actors filtered) \<subseteq> set (gs_actors world)" and "set (gs_loot filtered) \<subseteq> set (gs_loot world)"
  shows "identity_changed r base world"
proof (rule ccontr)
  assume same: "\<not> identity_changed r base world"
  have "\<exists>p. BuildDeltaPayload a i base v = Inr p"
  proof (rule BuildDeltaPayload_returns)
    fix x y assume x: "x \<in> set (vw_actors base)" and "y \<in> set (vw_actors v)" and ids: "qa_id x = qa_id y"
    then obtain b where "b \<in> set (gs_actors filtered)" "QuantizeActor (rx_minimum r) (rx_maximum r) b = Inr y"
      using list_all2_mem [OF QuantizeView_InrD(2) [OF assms(2)]] by blast
    then show "same_kind x y"
      using same x ids assms(3) by (fastforce simp: identity_changed_def same_kind_def QuantizeActor_def)
  next
    fix x y assume x: "x \<in> set (vw_loot base)" and "y \<in> set (vw_loot v)" and ids: "ql_id x = ql_id y"
    then obtain l where "l \<in> set (gs_loot filtered)" "QuantizeLoot (rx_minimum r) (rx_maximum r) l = Inr y"
      using list_all2_mem [OF QuantizeView_InrD(3) [OF assms(2)]] by blast
    then show "same_item x y"
      using same x ids assms(4) by (fastforce simp: identity_changed_def same_item_def QuantizeLoot_def)
  qed
  then show False using assms(1) by simp
qed

lemma BuildPayload_logic:
  assumes "BuildPayload i filtered q r = Inl Logic_error"
    and "set (gs_actors filtered) \<subseteq> set (gs_actors world)" and "set (gs_loot filtered) \<subseteq> set (gs_loot world)"
  shows "rf_mode (rx_config r) = InterestDelta \<and> (\<exists>b \<in> set (rr_baselines q). identity_changed r (bs_view b) world)"
proof -
  obtain v base where mode: "rf_mode (rx_config r) = InterestDelta"
    and v: "QuantizeView filtered (rx_minimum r) (rx_maximum r) (rx_radiusMaximum r) = Inr v"
    and base: "FindServerBaseline q (rr_acknowledgedSnapshotId q) = Some base"
    and failed: "BuildDeltaPayload (rr_acknowledgedSnapshotId q) i (bs_view base) v = Inl Logic_error"
    using assms(1) by (auto simp: BuildPayload_def bind_throws_Inl_iff not_logic Let_def split: if_splits)
  have "base \<in> set (rr_baselines q)" using base by (auto simp: FindServerBaseline_def find_Some_iff)
  then show ?thesis using mode BuildDeltaPayload_changed [OF failed v assms(2,3)] by blast
qed

lemma ReplicatorBuild_logic:
  assumes "ReplicatorBuild player i world r = Inl Logic_error" and "replicator_ok r"
  shows "\<exists>q. map_of (rx_recipients r) player = Some q
    \<and> (FindActor world (rr_controlledActor q) = None
       \<or> rf_mode (rx_config r) = InterestDelta \<and> (\<exists>b \<in> set (rr_baselines q). identity_changed r (bs_view b) world))"
proof -
  have "RecipientFor player r \<noteq> Inl Logic_error" by (simp add: RecipientFor_def split: option.splits)
  moreover have "BuildFullState player i world q r \<noteq> Inl Logic_error" for q
    by (simp add: BuildFullState_def bind_throws_Inl_iff not_logic Let_def)
  ultimately obtain q where q: "map_of (rx_recipients r) player = Some q"
    and failed: "BuildInterest player i world q r = Inl Logic_error"
    using assms(1) by (auto simp: ReplicatorBuild_def bind_throws_Inl_iff split: if_splits)
  show ?thesis
  proof (cases "FindActor world (rr_controlledActor q)")
    case (Some a)
    have canonical: "HasCanonicalWorldIds world" using failed by (auto simp: BuildInterest_def split: if_splits)
    have a: "a \<in> set (gs_actors world)" "na_id a = rr_controlledActor q"
      using Some find_inD by (fastforce simp: FindActor_def)+
    obtain g candidate visible where grid: "PrepareGrid i world r = Inr (g, candidate)"
      and visible: "UpdateVisibility g (rr_visible q) (na_position a) (rf_enterRadius (rx_config r)) (rf_leaveRadius (rx_config r)) = Inr visible"
      and rest: "rr_controlledActor q \<notin> set (vs_actors visible)
        \<or> FilterWorld world visible = Inl Logic_error
        \<or> (\<exists>filtered. FilterWorld world visible = Inr filtered \<and> BuildPayload i filtered q r = Inl Logic_error)"
      using failed canonical Some
      by (auto simp: BuildInterest_def bind_throws_Inl_iff not_logic split: if_splits)
    have "rr_controlledActor q \<in> set (vs_actors visible)"
      using controlled_visible [OF grid assms(2) a(1) visible] a(2) by simp
    moreover obtain filtered where filtered: "FilterWorld world visible = Inr filtered"
      using FilterWorld_returns [OF canonical visible_in_world [OF grid assms(2) visible]] by blast
    ultimately have "BuildPayload i filtered q r = Inl Logic_error" using rest by auto
    moreover have "set (gs_actors filtered) \<subseteq> set (gs_actors world)" "set (gs_loot filtered) \<subseteq> set (gs_loot world)"
      using FilterWorld_InrD(3,4) [OF filtered] by auto
    ultimately show ?thesis using BuildPayload_logic q by blast
  qed (use q in simp)
qed

end
