(* ===== verification/ReplicationSamples.thy ===== *)
theory ReplicationSamples
  imports ReplicationStreamCorrect ReplicatorErrors
begin

text \<open>
  A replicator over the square arena of the client, with the worlds that it sends: two contenders
  near each other, a third far away, and two pieces of loot.
\<close>

text \<open>The floats are 128, 64 and 72 for the radii, and positions within the arena.\<close>

definition sample_vertices :: "network_vec2 list" where
  "sample_vertices = [\<lparr>nv_x = ArenaMinimum, nv_z = ArenaMinimum\<rparr>, \<lparr>nv_x = ArenaMaximum, nv_z = ArenaMinimum\<rparr>,
     \<lparr>nv_x = ArenaMaximum, nv_z = ArenaMaximum\<rparr>, \<lparr>nv_x = ArenaMinimum, nv_z = ArenaMaximum\<rparr>]"

definition sample_replication :: replication_config where
  "sample_replication = \<lparr>rf_mode = InterestDelta, rf_cellSize = 0x43000000, rf_enterRadius = 0x42800000,
     rf_leaveRadius = 0x42900000, rf_keyframeIntervalSnapshots = 30, rf_maximumBaselinesPerRecipient = 4\<rparr>"

definition actor_at :: "u32 \<Rightarrow> f32 \<Rightarrow> f32 \<Rightarrow> network_actor" where
  "actor_at i x z = \<lparr>na_id = EntityId i, na_role = RoleContender, na_neutralArchetype = ArchetypeNone,
     na_position = \<lparr>nv_x = x, nv_z = z\<rparr>, na_health = 100, na_alive = True, na_weapon = 1,
     na_cooldownTicksRemaining = 0, na_eliminations = 0\<rparr>"

definition loot_at :: "u32 \<Rightarrow> f32 \<Rightarrow> f32 \<Rightarrow> bool \<Rightarrow> network_loot" where
  "loot_at i x z active = \<lparr>nl_id = i, nl_type = 1, nl_position = \<lparr>nv_x = x, nv_z = z\<rparr>, nl_active = active\<rparr>"

text \<open>Actor 1 at (1, 0), actor 2 at (10, 0) and then (11, 0), actor 3 at (100, 100).\<close>

definition sample_world :: "f32 \<Rightarrow> game_snapshot" where
  "sample_world x = \<lparr>gs_phase = 2, gs_safeZoneStage = 1, gs_safeZoneCenter = \<lparr>nv_x = 0, nv_z = 0\<rparr>,
     gs_safeZoneRadius = 0x42C80000, gs_aliveContenders = 3,
     gs_actors = [actor_at 1 0x3F800000 0, actor_at 2 x 0, actor_at 3 0x42C80000 0x42C80000],
     gs_loot = [loot_at 1 0 0x3F800000 True, loot_at 2 0 0x40000000 False],
     gs_result = no_match_result, gs_hasResult = False, gs_eventChecksum = 77\<rparr>"

definition sample_bounds :: aabb2 where
  "sample_bounds = \<lparr>bx_minimum = arena_corner ArenaMinimum, bx_maximum = arena_corner ArenaMaximum\<rparr>"

definition sample_grid :: interest_grid where
  "sample_grid = \<lparr>ig_bounds = sample_bounds, ig_cellSize = 0x43000000, ig_columns = 2, ig_rows = 2,
     ig_cells = replicate 4 \<lparr>cl_actors = [], cl_loot = []\<rparr>\<rparr>"

definition sample_server :: replicator where
  "sample_server = \<lparr>rx_config = sample_replication, rx_bounds = sample_bounds,
     rx_minimum = arena_corner ArenaMinimum, rx_maximum = arena_corner ArenaMaximum,
     rx_radiusMaximum = SafeZoneRadiusMaximum, rx_grid = sample_grid, rx_gridSnapshotId = None,
     rx_gridWorld = None, rx_recipients = []\<rparr>"

definition sample_client :: client_stream where
  "sample_client = \<lparr>cs_maximumBaselines = 4, cs_baselines = [], cs_highestSeenSnapshotId = None,
     cs_acknowledgedSnapshotId = 0, cs_requestKeyframe = False\<rparr>"

definition sample_stream :: stream_link where
  "sample_stream = \<lparr>sl_player = PlayerId 1,
     sl_server = set_recipient (PlayerId 1) (new_recipient (EntityId 1)) sample_server,
     sl_client = sample_client, sl_sent = [], sl_history = []\<rparr>"

text \<open>The delivery of the last payload that was sent.\<close>

definition deliver_last :: "stream_link \<Rightarrow> stream_link" where
  "deliver_last l = (case sl_sent l of [] \<Rightarrow> l | (i, bytes) # _ \<Rightarrow> stream_step (Delivering i bytes) l)"

lemma sample_server_made: "SnapshotReplicator sample_vertices sample_replication = Inr sample_server"
proof -
  have "ValidateReplicationConfig sample_replication = Inr sample_replication" by code_simp
  moreover have "ArenaBounds sample_vertices = Inr sample_bounds" by code_simp
  moreover have "InterestGrid sample_bounds (rf_cellSize sample_replication) = Inr sample_grid" by code_simp
  moreover have "f32_mul (f32_max (f32_sub ArenaMaximum ArenaMinimum) (f32_sub ArenaMaximum ArenaMinimum)) 0x3F000000
      = SafeZoneRadiusMaximum" by code_simp
  ultimately show ?thesis
    by (simp add: SnapshotReplicator_def sample_server_def sample_bounds_def arena_corner_def Let_def)
qed

lemma sample_server_mode: "in_client_arena sample_server" "rf_mode (rx_config sample_server) = InterestDelta"
  by (simp_all add: in_client_arena_def sample_server_def sample_replication_def)

lemma sample_stream_made:
  "ClientSnapshotStream 4 = Inr sample_client"
  "new_stream (PlayerId 1) (EntityId 1) sample_server sample_client = Inr sample_stream"
  by (simp_all add: ClientSnapshotStream_def MaxClientSnapshotBuffer_def sample_client_def new_stream_def
      RegisterRecipient_def sample_server_def sample_stream_def)

end
