(* ===== verification/ReplicationRuns.thy ===== *)
theory ReplicationRuns
  imports ReplicationProgress ReplicationSamples
begin

text \<open>
  Runs of a replicator and the stream of one recipient from their constructors on, and what holds
  of the states they reach.
\<close>

definition stream_run ::
    "network_vec2 list \<Rightarrow> replication_config \<Rightarrow> nat \<Rightarrow> player_id \<Rightarrow> entity_id \<Rightarrow> stream_event list \<Rightarrow> stream_link throws" where
  "stream_run vertices config maximum player actor events =
     bind_throws (SnapshotReplicator vertices config) (\<lambda>server.
     bind_throws (ClientSnapshotStream maximum) (\<lambda>client.
     bind_throws (new_stream player actor server client) (\<lambda>l.
       Inr (fold stream_step events l))))"

lemma stream_run_InrD:
  assumes "stream_run vertices config maximum player actor events = Inr l"
  obtains server l0 where "SnapshotReplicator vertices config = Inr server" "stream_ok l0" "stream_ok l"
    "sl_player l0 = player" "sl_history l0 = []" "l = fold stream_step events l0" "same_arena server (sl_server l)"
proof -
  obtain server client l0 where made: "SnapshotReplicator vertices config = Inr server"
      "ClientSnapshotStream maximum = Inr client" "new_stream player actor server client = Inr l0"
      "l = fold stream_step events l0"
    using assms by (auto simp: stream_run_def)
  have "cs_baselines client = []" using made(2) by (auto simp: ClientSnapshotStream_def split: if_splits)
  then have ok: "stream_ok l0" using new_stream_ok [OF made(3) SnapshotReplicator_ok [OF made(1)]] by blast
  obtain r where r: "RegisterRecipient player actor server = Inr r"
      "l0 = \<lparr>sl_player = player, sl_server = r, sl_client = client, sl_sent = [], sl_history = []\<rparr>"
    using made(3) by (auto simp: new_stream_def)
  have "same_arena server r" using RegisterRecipient_keeps [OF r(1)] by (auto simp: stream_keeps_def)
  then have "same_arena server (sl_server l)"
    using stream_run_arena [OF ok, of events] r(2) made(4) by (simp add: same_arena_def)
  then show thesis using that [OF made(1) ok] stream_run_ok [OF ok] r(2) made(4) by simp
qed

lemma SnapshotReplicator_config:
  "SnapshotReplicator vertices config = Inr r \<Longrightarrow> rx_config r = config"
  by (auto simp: SnapshotReplicator_def ValidateReplicationConfig_def Let_def split: if_splits)

text \<open>The player of a link never changes, and every world in its history is the part of a world
  that was built for the player under that identifier.\<close>

definition part_of :: "game_snapshot \<Rightarrow> game_snapshot \<Rightarrow> bool" where
  "part_of world w \<longleftrightarrow>
     w = world\<lparr>gs_actors := gs_actors w, gs_loot := gs_loot w\<rparr>
     \<and> set (gs_actors w) \<subseteq> set (gs_actors world) \<and> set (gs_loot w) \<subseteq> set (gs_loot world)"

lemma filtered_part: "part_of world (filtered_world player world r)"
proof -
  have "part_of world w" if "FilterWorld world visible = Inr w" for w visible
    using FilterWorld_InrD(3-5) [OF that] by (auto simp: part_of_def)
  moreover have "part_of world world" by (simp add: part_of_def)
  ultimately show ?thesis by (auto simp: filtered_world_def split: option.splits sum.splits)
qed

lemma stream_step_player: "sl_player (stream_step e l) = sl_player l"
  by (cases e) (auto simp: on_server_def split: sum.splits)

lemma on_server_history: "sl_history (on_server result l) = sl_history l"
  by (simp add: on_server_def split: sum.splits)

lemma step_history:
  assumes "(i, w) \<in> set (sl_history (stream_step e l))"
  shows "(i, w) \<in> set (sl_history l) \<or> (\<exists>world. e = Building (sl_player l) i world \<and> part_of world w)"
proof (cases e)
  case (Building p j world)
  show ?thesis
  proof (cases "ReplicatorBuild p j world (sl_server l)")
    case (Inr built)
    obtain b r where "built = (b, r)" by (cases built)
    then show ?thesis using assms Building Inr filtered_part [of world "sl_player l" r] by (simp split: if_splits) blast
  qed (use assms Building in simp)
next
  case (Delivering j bytes)
  then show ?thesis using assms by (simp split: if_splits sum.splits)
qed (use assms in \<open>simp_all add: on_server_history split: if_splits\<close>)

lemma run_history:
  "(i, w) \<in> set (sl_history (fold stream_step events l)) \<Longrightarrow>
     (i, w) \<in> set (sl_history l) \<or> (\<exists>world. Building (sl_player l) i world \<in> set events \<and> part_of world w)"
proof (induction events arbitrary: l)
  case (Cons e events)
  have "(i, w) \<in> set (sl_history (stream_step e l))
      \<or> (\<exists>world. Building (sl_player (stream_step e l)) i world \<in> set events \<and> part_of world w)"
    by (rule Cons.IH) (use Cons.prems in \<open>simp only: fold.simps o_apply\<close>)
  then show ?case
  proof
    assume "(i, w) \<in> set (sl_history (stream_step e l))"
    from step_history [OF this] show ?thesis by (simp only: list.set) blast
  next
    assume "\<exists>world. Building (sl_player (stream_step e l)) i world \<in> set events \<and> part_of world w"
    then show ?thesis unfolding stream_step_player by (simp only: list.set) blast
  qed
qed simp

lemma stream_run_history:
  assumes "stream_run vertices config maximum player actor events = Inr l" and "map_of (sl_history l) i = Some w"
  shows "\<exists>world. Building player i world \<in> set events \<and> part_of world w"
proof (rule stream_run_InrD [OF assms(1)])
  fix server l0
  assume "sl_player l0 = player" "sl_history l0 = []" "l = fold stream_step events l0"
  then show ?thesis using run_history [of i w events l0] map_of_SomeD [OF assms(2)] by auto
qed

text \<open>An accepted payload becomes a baseline.\<close>

lemma ClientApply_stores:
  assumes "ClientApply i p s = (Inr result, s')" and "ar_world result = Some arrived" and "0 < cs_maximumBaselines s"
  shows "\<exists>c \<in> set (cs_baselines s'). cb_snapshotId c = i \<and> cb_world c = arrived"
proof -
  let ?s = "s\<lparr>cs_highestSeenSnapshotId := Some i\<rparr>"
  have current: "ar_world (CurrentResult t) \<noteq> Some arrived" for t by (simp add: CurrentResult_def)
  have header: "\<not> (i = 0 \<or> ph_payloadSnapshotId (sp_header p) \<noteq> i)"
    using assms(1) by (simp add: ClientApply_def split: if_splits)
  obtain encoded where encode: "EncodeSnapshotPayload p = Inr encoded"
    using assms(1) header by (cases "EncodeSnapshotPayload p") (simp_all add: ClientApply_def)
  have fresh: "\<not> (case cs_highestSeenSnapshotId s of None \<Rightarrow> False | Some highest \<Rightarrow> i \<le> highest)"
  proof
    assume "case cs_highestSeenSnapshotId s of None \<Rightarrow> False | Some highest \<Rightarrow> i \<le> highest"
    then have "result = CurrentResult s" using assms(1) header encode by (auto simp: ClientApply_def)
    then show False using assms(2) current by simp
  qed
  note apply_eq = assms(1) [unfolded ClientApply_def if_not_P [OF header] encode sum.case if_not_P [OF fresh] Let_def]
  obtain outcome where outcome: "ApplyPayload p ?s = Inr outcome"
    using apply_eq by (cases "ApplyPayload p ?s") simp_all
  obtain quantized removed entered where applied: "outcome = Applied quantized arrived removed entered"
    using apply_eq outcome assms(2) current by (cases outcome) auto
  have s': "s' = (StoreClientBaseline \<lparr>cb_snapshotId = i, cb_quantized = quantized, cb_world = arrived\<rparr>
      ?s)\<lparr>cs_acknowledgedSnapshotId := i, cs_requestKeyframe := False\<rparr>"
    using apply_eq outcome applied by simp
  have "x \<in> set (drop (length (xs @ [x]) - n) (xs @ [x]))" if "0 < n" for x :: client_baseline and xs n
  proof -
    have "length (xs @ [x]) - n \<le> length xs" using that by simp
    then show ?thesis by (simp add: drop_append)
  qed
  then show ?thesis using assms(3) by (auto simp: s' StoreClientBaseline_def Let_def)
qed

lemma arena_radius:
  "f32_mul (f32_max (f32_sub ArenaMaximum ArenaMinimum) (f32_sub ArenaMaximum ArenaMinimum)) 0x3F000000
    = SafeZoneRadiusMaximum"
  by code_simp

lemma stream_run_made:
  assumes "stream_run vertices config maximum player actor events = Inr l" and "ArenaBounds vertices = Inr arena_box"
  shows "made_for_arena (sl_server l)"
proof (rule stream_run_InrD [OF assms(1)])
  fix server
  assume "SnapshotReplicator vertices config = Inr server" "same_arena server (sl_server l)"
  then show ?thesis using SnapshotReplicator_made [OF _ assms(2) arena_radius] made_for_arena_same by blast
qed

lemma stream_run_append:
  assumes "stream_run vertices config maximum player actor events = Inr l0" and "l = fold stream_step between l0"
  shows "stream_run vertices config maximum player actor (events @ between) = Inr l"
proof -
  obtain server client l1 where "SnapshotReplicator vertices config = Inr server" "ClientSnapshotStream maximum = Inr client"
    "new_stream player actor server client = Inr l1" "l0 = fold stream_step events l1"
    using assms(1) by (auto simp: stream_run_def)
  then show ?thesis using assms(2) by (simp add: stream_run_def)
qed

lemma stream_run_state:
  assumes "stream_run vertices config maximum player actor events = Inr l"
  shows "stream_ok l" and "sl_player l = player" and "rx_config (sl_server l) = config"
proof -
  have "stream_ok l \<and> sl_player l = player \<and> rx_config (sl_server l) = config"
  proof (rule stream_run_InrD [OF assms])
    fix server l0
    assume server: "SnapshotReplicator vertices config = Inr server" and "stream_ok l"
      and "same_arena server (sl_server l)" and l: "l = fold stream_step events l0" "sl_player l0 = player"
    moreover have "sl_player l = player"
      using l by (induction events arbitrary: l0 l) (simp_all add: stream_step_player)
    ultimately show ?thesis using SnapshotReplicator_config [OF server] by (simp add: same_arena_def)
  qed
  then show "stream_ok l" "sl_player l = player" "rx_config (sl_server l) = config" by simp_all
qed

text \<open>A run that ends with a request for a keyframe.\<close>

lemma stream_run_requested:
  assumes "stream_run vertices config maximum player actor (before @ [KeyframeRequest player]) = Inr l"
  shows "keyframe_pending l"
proof -
  obtain server client l0 where run: "SnapshotReplicator vertices config = Inr server" "ClientSnapshotStream maximum = Inr client"
    "new_stream player actor server client = Inr l0" "l = stream_step (KeyframeRequest player) (fold stream_step before l0)"
    using assms by (auto simp: stream_run_def)
  then have "stream_run vertices config maximum player actor before = Inr (fold stream_step before l0)"
    by (simp add: stream_run_def)
  from stream_step_request [OF stream_run_state(1) [OF this]] stream_run_state(2) [OF this] run(4) show ?thesis by simp
qed

section \<open>The sample\<close>

lemma sample_run: "stream_run sample_vertices sample_replication 4 (PlayerId 1) (EntityId 1) events
    = Inr (fold stream_step events sample_stream)"
  by (simp add: stream_run_def sample_server_made sample_stream_made)

lemma sample_arena: "ArenaBounds sample_vertices = Inr arena_box"
  by code_simp

lemma sample_valid: "valid_world (sample_world 0x41200000)"
  by code_simp

text \<open>A keyframe of the world, built, sent and delivered.\<close>

lemma sample_ok: "stream_ok sample_stream" "made_for_arena (sl_server sample_stream)"
  "rf_mode (rx_config (sl_server sample_stream)) = InterestDelta"
proof -
  show "stream_ok sample_stream"
    using new_stream_ok [OF sample_stream_made(2) SnapshotReplicator_ok [OF sample_server_made]]
    by (simp add: sample_client_def)
  show "made_for_arena (sl_server sample_stream)"
    using stream_run_made [OF sample_run [of "[]"] sample_arena] by simp
qed (simp add: sample_stream_def sample_server_def sample_replication_def)

lemma sample_recipient: "map_of (rx_recipients (sl_server sample_stream)) (PlayerId 1) = Some (new_recipient (EntityId 1))"
  by (simp add: sample_stream_def)

lemma sample_requested: "ReplicatorRequestKeyframe (PlayerId 1) (sl_server sample_stream)
    = Inr (set_recipient (PlayerId 1) ((new_recipient (EntityId 1))\<lparr>rr_keyframeRequested := True\<rparr>) (sl_server sample_stream))"
  using sample_recipient by (simp add: ReplicatorRequestKeyframe_def RecipientFor_def)

lemma sample_first_actor: "actor_at 1 0x3F800000 0 \<in> set (gs_actors (sample_world x))"
  by (simp add: sample_world_def)

lemma sample_delivered:
  obtains bytes c where "c \<in> set (cs_baselines (sl_client (fold stream_step
      [KeyframeRequest (PlayerId 1), Building (PlayerId 1) 1 (sample_world 0x41200000), Delivering 1 bytes]
      sample_stream)))" and "cb_snapshotId c = 1"
proof -
  let ?q = "(new_recipient (EntityId 1))\<lparr>rr_keyframeRequested := True\<rparr>" and ?w = "sample_world 0x41200000"
  let ?r = "set_recipient (PlayerId 1) ?q (sl_server sample_stream)"
  have player: "sl_player sample_stream = PlayerId 1" by (simp add: sample_stream_def)
  have ok: "replicator_ok ?r" using RequestKeyframe_ok [OF sample_requested] sample_ok(1) by (simp add: stream_ok_def Let_def)
  have made: "made_for_arena ?r" using sample_ok(2) by (simp add: made_for_arena_def in_client_arena_def)
  obtain b r' where b: "ReplicatorBuild (PlayerId 1) 1 ?w ?r = Inr (b, r')"
    using ReplicatorBuild_returns [OF ok made, of "PlayerId 1" ?q ?w "actor_at 1 0x3F800000 0" 1] sample_ok(3)
      sample_valid sample_first_actor
    by (auto simp: new_recipient_def actor_at_def sample_stream_def sample_server_def)
  let ?l = "sample_stream\<lparr>sl_server := ?r\<rparr>"
  have step: "stream_step (KeyframeRequest (PlayerId 1)) sample_stream = ?l"
    using sample_requested by (simp add: on_server_def)
  have l: "stream_ok ?l" using stream_step_ok [OF sample_ok(1), of "KeyframeRequest (PlayerId 1)"] step by simp
  have "map_of (rx_recipients (sl_server ?l)) (sl_player ?l) = Some ?q" "rr_keyframeRequested ?q"
    "rf_mode (rx_config (sl_server ?l)) \<noteq> FullState" "in_client_arena (sl_server ?l)"
    "ReplicatorBuild (sl_player ?l) 1 ?w (sl_server ?l) = Inr (b, r')"
    "case cs_highestSeenSnapshotId (sl_client ?l) of None \<Rightarrow> True | Some highest \<Rightarrow> highest < 1"
    using sample_ok(2,3) player b by (simp_all add: made_for_arena_def in_client_arena_def sample_stream_def sample_client_def)
  with requested_keyframe_arrives [OF l, of ?q 1 ?w b r']
  obtain p result s' arrived where d: "DecodeSnapshotPayload (rb_encodedPayload b) = Inr p"
      "ClientApply 1 p (sl_client sample_stream) = (Inr result, s')" "ar_world result = Some arrived"
    by auto
  have "0 < cs_maximumBaselines (sl_client sample_stream)" by (simp add: sample_stream_def sample_client_def)
  then obtain c where c: "c \<in> set (cs_baselines s')" "cb_snapshotId c = 1" using ClientApply_stores [OF d(2,3)] by blast
  have "sl_client (fold stream_step [KeyframeRequest (PlayerId 1), Building (PlayerId 1) 1 ?w,
      Delivering 1 (rb_encodedPayload b)] sample_stream) = s'"
    using sample_requested b d(1,2) player by (simp add: on_server_def)
  then show thesis using that [of c "rb_encodedPayload b"] c by (simp only:)
qed

text \<open>Between a request and the build that follows: a false acknowledgement, a build for a player who is
  not registered, and a reset of the client.\<close>

lemma sample_between:
  fixes l
  defines "l \<equiv> fold stream_step [Acknowledging (PlayerId 1) 1, Building (PlayerId 2) 1 (sample_world 0x41200000), Resetting]
      (stream_step (KeyframeRequest (PlayerId 1)) sample_stream)"
  shows "sl_sent l = sl_sent (stream_step (KeyframeRequest (PlayerId 1)) sample_stream)"
    and "map_of (rx_recipients (sl_server l)) (PlayerId 1) = Some ((new_recipient (EntityId 1))\<lparr>rr_keyframeRequested := True\<rparr>)"
    and "rx_gridSnapshotId (sl_server l) = None" and "cs_highestSeenSnapshotId (sl_client l) = None"
proof -
  let ?q = "(new_recipient (EntityId 1))\<lparr>rr_keyframeRequested := True\<rparr>"
  let ?start = "sample_stream\<lparr>sl_server := set_recipient (PlayerId 1) ?q (sl_server sample_stream)\<rparr>"
  have l0: "stream_step (KeyframeRequest (PlayerId 1)) sample_stream = ?start"
    using sample_requested by (simp add: on_server_def)
  have ack: "stream_step (Acknowledging (PlayerId 1) 1) ?start = ?start"
    by (simp add: on_server_def AcceptAcknowledgement_def RecipientFor_def new_recipient_def)
  have "map_of (rx_recipients (sl_server ?start)) (PlayerId 2) = None"
    by (simp add: sample_stream_def sample_server_def set_recipient_def)
  then have build: "stream_step (Building (PlayerId 2) 1 (sample_world 0x41200000)) ?start = ?start"
    by (simp add: ReplicatorBuild_def RecipientFor_def)
  have l: "l = ?start\<lparr>sl_client := ClientReset (sl_client ?start)\<rparr>"
    unfolding l_def l0 by (simp only: fold.simps o_apply id_apply ack build) simp
  show "sl_sent l = sl_sent (stream_step (KeyframeRequest (PlayerId 1)) sample_stream)"
    "map_of (rx_recipients (sl_server l)) (PlayerId 1) = Some ?q"
    "rx_gridSnapshotId (sl_server l) = None" "cs_highestSeenSnapshotId (sl_client l) = None"
    unfolding l0 l by (simp_all add: sample_stream_def sample_server_def sample_client_def ClientReset_def)
qed

end
