(* ===== verification/InterestGridSpec.thy ===== *)
theory InterestGridSpec
  imports InterestGridLemmas
begin

text \<open>
  What a query of the interest grid means without the grid: nothing is returned that is not near,
  and nothing is missed that is near and within the leaving radius of the center on both axes. The
  second condition is there for the rounding of the squared distance, which can take a position a
  little outside the radius, and outside the cells that are scanned, for one at the radius.
\<close>

definition in_reach :: "network_vec2 \<Rightarrow> f32 \<Rightarrow> network_vec2 \<Rightarrow> bool" where
  "in_reach center radius position \<longleftrightarrow>
     \<bar>f32_val (nv_x position) - f32_val (nv_x center)\<bar> \<le> f32_val radius
     \<and> \<bar>f32_val (nv_z position) - f32_val (nv_z center)\<bar> \<le> f32_val radius"

lemma f32_max_reach:
  assumes "isfinite lo" and "isfinite c" and "isfinite r" and "f32_val lo \<le> f32_val c" and "0 \<le> f32_val r"
    and "f32_val lo \<le> f32_val p" and "f32_val c - f32_val r \<le> f32_val p"
  shows "f32_val (f32_max lo (f32_sub c r)) \<le> f32_val p"
proof (cases "isfinite (f32_sub c r)")
  case True
  have "f32_val (f32_sub c r) \<le> f32_val p"
    using f32_sub_finite(2) [OF assms(2,3) True] round_bits_mono [OF assms(7), of 24 "- 149"]
    by (simp add: round_f32_val)
  then show ?thesis using assms(6) by (simp add: f32_max_def)
next
  case False
  then have "f32_max lo (f32_sub c r) = lo"
    using f32_max_between [OF assms(1-5)] by (auto simp: f32_max_def split: if_splits)
  then show ?thesis using assms(6) by simp
qed

lemma f32_min_reach:
  assumes "isfinite hi" and "isfinite c" and "isfinite r" and "f32_val c \<le> f32_val hi" and "0 \<le> f32_val r"
    and "f32_val p \<le> f32_val hi" and "f32_val p \<le> f32_val c + f32_val r"
  shows "f32_val p \<le> f32_val (f32_min hi (f32_add c r))"
proof (cases "isfinite (f32_add c r)")
  case True
  have "f32_val p \<le> f32_val (f32_add c r)"
    using f32_add_finite(2) [OF assms(2,3) True] round_bits_mono [OF assms(7), of 24 "- 149"]
    by (simp add: round_f32_val)
  then show ?thesis using assms(6) by (simp add: f32_min_def)
next
  case False
  then have "f32_min hi (f32_add c r) = hi"
    using f32_min_between [OF assms(1-5)] by (auto simp: f32_min_def split: if_splits)
  then show ?thesis using assms(6) by simp
qed

lemma contains_vals:
  assumes "Aabb2_Contains b p" and "IsFinite (bx_minimum b)" and "IsFinite (bx_maximum b)"
  shows "isfinite (nv_x p)" "isfinite (nv_z p)"
    "f32_val (nv_x (bx_minimum b)) \<le> f32_val (nv_x p)" "f32_val (nv_x p) \<le> f32_val (nv_x (bx_maximum b))"
    "f32_val (nv_z (bx_minimum b)) \<le> f32_val (nv_z p)" "f32_val (nv_z p) \<le> f32_val (nv_z (bx_maximum b))"
  using assms f32_le_iff by (auto simp: Aabb2_Contains_def IsFinite_def)

lemma in_window_reach:
  assumes "grid_ok g" and "Aabb2_Contains (ig_bounds g) c" and "Aabb2_Contains (ig_bounds g) p"
    and "isfinite r" and "0 \<le> f32_val r" and "in_reach c r p"
  shows "in_window g c r p"
proof -
  let ?lo = "bx_minimum (ig_bounds g)" and ?hi = "bx_maximum (ig_bounds g)"
  have ax: "axis_ok (nv_x ?lo) (nv_x ?hi) (ig_cellSize g) (ig_columns g)"
    and az: "axis_ok (nv_z ?lo) (nv_z ?hi) (ig_cellSize g) (ig_rows g)"
    using assms(1) by (simp_all add: grid_ok_def)
  then have fin: "isfinite (nv_x ?lo)" "isfinite (nv_x ?hi)" "isfinite (nv_z ?lo)" "isfinite (nv_z ?hi)"
    by (simp_all add: axis_ok_def)
  then have box: "IsFinite ?lo" "IsFinite ?hi" by (simp_all add: IsFinite_def)
  note c = contains_vals [OF assms(2) box] and p = contains_vals [OF assms(3) box]
  have reach: "f32_val (nv_x c) - f32_val r \<le> f32_val (nv_x p)" "f32_val (nv_x p) \<le> f32_val (nv_x c) + f32_val r"
    "f32_val (nv_z c) - f32_val r \<le> f32_val (nv_z p)" "f32_val (nv_z p) \<le> f32_val (nv_z c) + f32_val r"
    using assms(6) by (auto simp: in_reach_def abs_le_iff)
  note x1 = f32_max_between [OF fin(1) c(1) assms(4) c(3) assms(5)] f32_max_reach [OF fin(1) c(1) assms(4) c(3) assms(5) p(3) reach(1)]
  note x2 = f32_min_between [OF fin(2) c(1) assms(4) c(4) assms(5)] f32_min_reach [OF fin(2) c(1) assms(4) c(4) assms(5) p(4) reach(2)]
  note z1 = f32_max_between [OF fin(3) c(2) assms(4) c(5) assms(5)] f32_max_reach [OF fin(3) c(2) assms(4) c(5) assms(5) p(5) reach(3)]
  note z2 = f32_min_between [OF fin(4) c(2) assms(4) c(6) assms(5)] f32_min_reach [OF fin(4) c(2) assms(4) c(6) assms(5) p(6) reach(4)]
  show ?thesis
    using cell_of_mono [OF ax _ p(1), of "f32_max (nv_x ?lo) (f32_sub (nv_x c) r)"] x1 p(4)
      cell_of_mono [OF ax p(1), of "f32_min (nv_x ?hi) (f32_add (nv_x c) r)"] x2 p(3)
      cell_of_mono [OF az _ p(2), of "f32_max (nv_z ?lo) (f32_sub (nv_z c) r)"] z1 p(6)
      cell_of_mono [OF az p(2), of "f32_min (nv_z ?hi) (f32_add (nv_z c) r)"] z2 p(5)
    by (simp add: in_window_def Let_def Column_def Row_def)
qed

lemma UpdateVisibility_near:
  assumes "UpdateVisibility g previous center er lr = Inr v" and "Rebuild w g0 = Inr g" and "grid_ok g0"
  shows "i \<in> set (vs_actors v) \<Longrightarrow>
      \<exists>a \<in> set (gs_actors w). na_id a = i \<and> near (vs_actors previous) center er lr i (na_position a)"
    and "j \<in> set (vs_loot v) \<Longrightarrow>
      \<exists>l \<in> set (gs_loot w). nl_active l \<and> nl_id l = j \<and> near (vs_loot previous) center er lr j (nl_position l)"
    and "a \<in> set (gs_actors w) \<Longrightarrow> near (vs_actors previous) center er lr (na_id a) (na_position a)
      \<Longrightarrow> in_reach center lr (na_position a) \<Longrightarrow> na_id a \<in> set (vs_actors v)"
    and "l \<in> set (gs_loot w) \<Longrightarrow> nl_active l \<Longrightarrow> near (vs_loot previous) center er lr (nl_id l) (nl_position l)
      \<Longrightarrow> in_reach center lr (nl_position l) \<Longrightarrow> nl_id l \<in> set (vs_loot v)"
proof -
  note cells = Rebuild_cells [OF assms(2,3)] and spec = UpdateVisibility_set [OF assms]
  have query: "isfinite er" "isfinite lr" "\<not> f32_le er 0" "\<not> f32_less lr er" "Aabb2_Contains (ig_bounds g) center"
    using assms(1) by (auto simp: UpdateVisibility_def Let_def split: if_splits)
  then have lr: "0 \<le> f32_val lr" using f32_le_iff [of er 0] f32_less_iff [of lr er] by simp
  note window = in_window_reach [OF cells(1) query(5) _ query(2) lr]
  show "i \<in> set (vs_actors v) \<Longrightarrow>
      \<exists>a \<in> set (gs_actors w). na_id a = i \<and> near (vs_actors previous) center er lr i (na_position a)"
    unfolding spec(1) world_entries_def visible_in_def by auto
  show "j \<in> set (vs_loot v) \<Longrightarrow>
      \<exists>l \<in> set (gs_loot w). nl_active l \<and> nl_id l = j \<and> near (vs_loot previous) center er lr j (nl_position l)"
    unfolding spec(2) world_loot_entries_def visible_in_def by auto
  show "na_id a \<in> set (vs_actors v)"
    if "a \<in> set (gs_actors w)" "near (vs_actors previous) center er lr (na_id a) (na_position a)"
      "in_reach center lr (na_position a)"
    using that window cells(2,5) unfolding spec(1) world_entries_def visible_in_def by auto
  show "nl_id l \<in> set (vs_loot v)"
    if "l \<in> set (gs_loot w)" "nl_active l" "near (vs_loot previous) center er lr (nl_id l) (nl_position l)"
      "in_reach center lr (nl_position l)"
    using that window cells(2,6) unfolding spec(2) world_loot_entries_def visible_in_def by auto
qed

end
