(* ===== verification/ReplicationProperties.thy ===== *)
theory ReplicationProperties
  imports ReplicationRuns InterestGridSpec
begin

text \<open>
  What the replication of snapshots does for a match: the properties of the replicator, its grid
  and payloads, and of the client's stream, for every run from their constructors, with witnesses
  on the sample of \<open>ReplicationSamples\<close>.
\<close>

section \<open>The closed loop\<close>





section \<open>The replicator\<close>

text \<open>C22: in every reachable state the replicator holds for a recipient at most the configured
  number of baselines, with increasing identifiers from the acknowledged one to the last issued
  one, and its visible actors and loot in increasing order without repetition.\<close>

theorem replicator_state_bounded:
  assumes "stream_run vertices config maximum player actor events = Inr l"
    and "map_of (rx_recipients (sl_server l)) recipient = Some q"
  shows "length (rr_baselines q) \<le> rf_maximumBaselinesPerRecipient config
    \<and> sorted_wrt (<) (map bs_snapshotId (rr_baselines q))
    \<and> (\<forall>b \<in> set (rr_baselines q). rr_acknowledgedSnapshotId q \<le> bs_snapshotId b
          \<and> bs_snapshotId b \<le> rr_issuedHighWatermark q)
    \<and> rr_acknowledgedSnapshotId q \<le> rr_issuedHighWatermark q
    \<and> sorted_wrt (<) (vs_actors (rr_visible q)) \<and> sorted_wrt (<) (vs_loot (rr_visible q))"
proof (rule stream_run_InrD [OF assms(1)])
  fix server
  assume server: "SnapshotReplicator vertices config = Inr server" and ok: "stream_ok l"
    and arena: "same_arena server (sl_server l)"
  have "recipient_ok (rx_config (sl_server l)) q"
    using replicator_okD [OF _ assms(2)] ok by (simp add: stream_ok_def Let_def)
  moreover have "rx_config (sl_server l) = config"
    using arena SnapshotReplicator_config [OF server] by (simp add: same_arena_def)
  ultimately show ?thesis by (simp add: recipient_ok_def)
qed

theorem replicator_state_bounded_witness:
  "\<exists>q. map_of (rx_recipients (sl_server (fold stream_step
        [KeyframeRequest (PlayerId 1), Building (PlayerId 1) 1 (sample_world 0x41200000)] sample_stream))) (PlayerId 1) = Some q
    \<and> length (rr_baselines q) \<le> 4 \<and> rr_acknowledgedSnapshotId q \<le> rr_issuedHighWatermark q"
proof -
  let ?events = "[KeyframeRequest (PlayerId 1), Building (PlayerId 1) 1 (sample_world 0x41200000)]"
  note run = sample_run [of ?events]
  have "stream_ok (fold stream_step ?events sample_stream)" "sl_player (fold stream_step ?events sample_stream) = PlayerId 1"
    by (rule stream_run_state [OF run])+
  then obtain q where q: "map_of (rx_recipients (sl_server (fold stream_step ?events sample_stream))) (PlayerId 1) = Some q"
    unfolding stream_ok_def Let_def by metis
  from replicator_state_bounded [OF run q] have "length (rr_baselines q) \<le> rf_maximumBaselinesPerRecipient sample_replication"
    "rr_acknowledgedSnapshotId q \<le> rr_issuedHighWatermark q" by blast+
  then have "length (rr_baselines q) \<le> 4 \<and> rr_acknowledgedSnapshotId q \<le> rr_issuedHighWatermark q"
    by (simp add: sample_replication_def)
  with q show ?thesis by blast
qed

text \<open>C23: a build in a reachable state fails with a logic error only for one of two reasons: the
  world lacks the actor that the recipient controls, or deltas are in use and an identifier means
  something else than in a baseline, another role or archetype of an actor, another type or
  position of loot. The visible set never names what the world does not have, and the controlled
  actor is always visible.\<close>

theorem build_logic_errors:
  assumes "stream_run vertices config maximum player actor events = Inr l"
    and "ReplicatorBuild recipient i world (sl_server l) = Inl Logic_error"
  shows "\<exists>q. map_of (rx_recipients (sl_server l)) recipient = Some q
    \<and> (FindActor world (rr_controlledActor q) = None
       \<or> rf_mode config = InterestDelta
         \<and> (\<exists>b \<in> set (rr_baselines q). identity_changed (sl_server l) (bs_view b) world))"
proof (rule stream_run_InrD [OF assms(1)])
  fix server
  assume server: "SnapshotReplicator vertices config = Inr server" and ok: "stream_ok l"
    and arena: "same_arena server (sl_server l)"
  have "rx_config (sl_server l) = config"
    using arena SnapshotReplicator_config [OF server] by (simp add: same_arena_def)
  then show ?thesis using ReplicatorBuild_logic [OF assms(2)] ok by (simp add: stream_ok_def Let_def)
qed

theorem build_logic_errors_witness:
  "FindActor ((sample_world 0)\<lparr>gs_actors := []\<rparr>) (EntityId 1) = None"
proof -
  have "ReplicatorBuild (PlayerId 1) 1 ((sample_world 0)\<lparr>gs_actors := []\<rparr>) (sl_server sample_stream) = Inl Logic_error"
    by code_simp
  from build_logic_errors [OF sample_run [of "[]", simplified], of "PlayerId 1" 1 "(sample_world 0)\<lparr>gs_actors := []\<rparr>", OF this]
  show ?thesis by (auto simp: sample_recipient new_recipient_def)
qed

text \<open>C24: a query of the grid finds exactly the near actors and active loot of the world it was
  rebuilt from. What is found is near: within the leaving radius if it was visible before, within
  the entering radius if not, in the arithmetic of floats. What is near is found if it is also
  within the leaving radius on both axes in exact arithmetic, which rules out only the rounding of a
  squared distance. Both lists are sorted and without repetition.\<close>

theorem grid_finds_what_is_near:
  assumes "InterestGrid bounds cellSize = Inr g0"
    and "IsFinite (bx_minimum bounds)" and "IsFinite (bx_maximum bounds)"
    and "Rebuild w g0 = Inr g"
    and "UpdateVisibility g previous center enterRadius leaveRadius = Inr v"
  shows "(\<forall>i \<in> set (vs_actors v). \<exists>a \<in> set (gs_actors w).
        na_id a = i \<and> near (vs_actors previous) center enterRadius leaveRadius i (na_position a))
    \<and> (\<forall>a \<in> set (gs_actors w). near (vs_actors previous) center enterRadius leaveRadius (na_id a) (na_position a)
        \<and> in_reach center leaveRadius (na_position a) \<longrightarrow> na_id a \<in> set (vs_actors v))
    \<and> (\<forall>i \<in> set (vs_loot v). \<exists>x \<in> set (gs_loot w). nl_active x
        \<and> nl_id x = i \<and> near (vs_loot previous) center enterRadius leaveRadius i (nl_position x))
    \<and> (\<forall>x \<in> set (gs_loot w). nl_active x \<and> near (vs_loot previous) center enterRadius leaveRadius (nl_id x) (nl_position x)
        \<and> in_reach center leaveRadius (nl_position x) \<longrightarrow> nl_id x \<in> set (vs_loot v))
    \<and> sorted_wrt (<) (vs_actors v) \<and> sorted_wrt (<) (vs_loot v)"
proof -
  have ok: "grid_ok g0" using InterestGrid_ok [OF assms(1-3)] by blast
  show ?thesis
    using UpdateVisibility_near [OF assms(5,4) ok] UpdateVisibility_set(3,4) [OF assms(5,4) ok] by blast
qed

theorem grid_finds_what_is_near_witness:
  "\<exists>g v. Rebuild (sample_world 0x41200000) sample_grid = Inr g
    \<and> UpdateVisibility g \<lparr>vs_actors = [], vs_loot = []\<rparr> \<lparr>nv_x = 0x3F800000, nv_z = 0\<rparr> 0x42800000 0x42900000 = Inr v
    \<and> EntityId 2 \<in> set (vs_actors v) \<and> EntityId 3 \<notin> set (vs_actors v) \<and> 2 \<notin> set (vs_loot v)"
proof -
  let ?w = "sample_world 0x41200000" and ?c = "\<lparr>nv_x = 0x3F800000, nv_z = 0\<rparr>" and ?none = "\<lparr>vs_actors = [], vs_loot = []\<rparr>"
  have made: "InterestGrid arena_box 0x43000000 = Inr sample_grid" "IsFinite (bx_minimum arena_box)"
    "IsFinite (bx_maximum arena_box)" by code_simp+
  obtain g where g: "Rebuild ?w sample_grid = Inr g" "ig_bounds g = arena_box"
    using Rebuild_returns [OF sample_valid InterestGrid_bounds [OF made(1)]] by blast
  have query: "isfinite 0x42800000" "isfinite 0x42900000" "0 < f32_val 0x42800000"
    "f32_val 0x42800000 \<le> f32_val 0x42900000" "Aabb2_Contains arena_box ?c" by code_simp+
  have "\<exists>v. UpdateVisibility g ?none ?c 0x42800000 0x42900000 = Inr v"
    by (rule UpdateVisibility_returns) (use query g(2) in simp_all)
  then obtain v where v: "UpdateVisibility g ?none ?c 0x42800000 0x42900000 = Inr v" ..
  note found = grid_finds_what_is_near [OF made g(1) v]
  have "near [] ?c 0x42800000 0x42900000 (EntityId 2) \<lparr>nv_x = 0x41200000, nv_z = 0\<rparr>"
    "in_reach ?c 0x42900000 \<lparr>nv_x = 0x41200000, nv_z = 0\<rparr>"
    "\<not> near [] ?c 0x42800000 0x42900000 (EntityId 3) \<lparr>nv_x = 0x42C80000, nv_z = 0x42C80000\<rparr>"
    by code_simp+
  then have "EntityId 2 \<in> set (vs_actors v)" "EntityId 3 \<notin> set (vs_actors v)" "2 \<notin> set (vs_loot v)"
    using found by (auto simp: sample_world_def actor_at_def loot_at_def)
  with g(1) v show ?thesis by blast
qed

section \<open>Payloads and values\<close>

text \<open>C25: a delta between two canonical views that is built and encoded is decoded by the client to
  the same delta, and applied to the first view gives the second, with absent results cleared.\<close>

theorem delta_reconstructs_view:
  assumes "BuildDeltaPayload b i base current = Inr p" and "canonical_view base" and "canonical_view current"
    and "EncodeSnapshotPayload p = Inr bytes"
  shows "DecodeSnapshotPayload bytes = Inr p \<and> ApplyDelta (canon_view base) p = Inr (canon_view current)"
proof -
  have "sp_header p = \<lparr>ph_kind = KindDelta, ph_valueEncoding = EncodingQuantized,
      ph_baseSnapshotId = b, ph_payloadSnapshotId = i\<rparr>" "sp_fullPrecision p = default_game_snapshot"
    by (rule BuildDeltaPayload_InrD [OF assms(1)], simp add: payload_with_header_def)+
  then have "canon_payload p = p" by (simp add: canon_payload_def payload_kinds Let_def)
  then show ?thesis
    using DecodeSnapshotPayload_Encode [OF assms(4)] ApplyDelta_BuildDeltaPayload [OF assms(1-3)] by simp
qed

definition sample_qactor :: "u32 \<Rightarrow> u16 \<Rightarrow> u8 \<Rightarrow> quantized_actor" where
  "sample_qactor i x health = \<lparr>qa_id = EntityId i, qa_role = RoleContender, qa_neutralArchetype = ArchetypeNone,
     qa_position = \<lparr>qv_x = x, qv_z = 7\<rparr>, qa_health = health, qa_alive = True, qa_weapon = 1,
     qa_cooldownTicksRemaining = 0, qa_eliminations = 0\<rparr>"

definition sample_view :: "quantized_actor list \<Rightarrow> quantized_view" where
  "sample_view as = \<lparr>vw_global = \<lparr>qg_phase = 2, qg_safeZoneStage = 1, qg_safeZoneCenter = \<lparr>qv_x = 5, qv_z = 5\<rparr>,
     qg_safeZoneRadius = 100, qg_aliveContenders = 3, qg_result = no_match_result, qg_hasResult = False,
     qg_eventChecksum = 9\<rparr>, vw_actors = as, vw_loot = []\<rparr>"

theorem delta_reconstructs_view_witness:
  "\<exists>p bytes. BuildDeltaPayload 1 2 (sample_view [sample_qactor 1 10 100, sample_qactor 2 20 100])
      (sample_view [sample_qactor 2 21 90, sample_qactor 3 30 100]) = Inr p
    \<and> EncodeSnapshotPayload p = Inr bytes \<and> DecodeSnapshotPayload bytes = Inr p
    \<and> ApplyDelta (canon_view (sample_view [sample_qactor 1 10 100, sample_qactor 2 20 100])) p
        = Inr (canon_view (sample_view [sample_qactor 2 21 90, sample_qactor 3 30 100]))"
proof -
  let ?base = "sample_view [sample_qactor 1 10 100, sample_qactor 2 20 100]"
  let ?current = "sample_view [sample_qactor 2 21 90, sample_qactor 3 30 100]"
  have "case bind_throws (BuildDeltaPayload 1 2 ?base ?current) EncodeSnapshotPayload of Inl _ \<Rightarrow> False | Inr _ \<Rightarrow> True"
    by code_simp
  then obtain p bytes where p: "BuildDeltaPayload 1 2 ?base ?current = Inr p" "EncodeSnapshotPayload p = Inr bytes"
    by (auto split: sum.splits)
  have "canonical_view ?base" "canonical_view ?current"
    by (simp_all add: canonical_view_def canonical_by_def sample_view_def sample_qactor_def)
  from delta_reconstructs_view [OF p(1) this p(2)] p show ?thesis by blast
qed

text \<open>C26: what is encoded as a payload is decoded, with the parts the payload does not send at
  their defaults, and stays within the limit; and for keyframes and deltas the decoder accepts only
  what the encoder writes.\<close>

theorem payload_codec_exact:
  "(EncodeSnapshotPayload p = Inr bytes \<longrightarrow>
      DecodeSnapshotPayload bytes = Inr (canon_payload p) \<and> length bytes \<le> MaxSnapshotPayloadBytes)
   \<and> (DecodeSnapshotPayload bytes = Inr p \<and> ph_kind (sp_header p) \<noteq> KindFullState \<longrightarrow>
      EncodeSnapshotPayload p = Inr bytes \<and> canon_payload p = p)"
proof -
  have "length bytes \<le> MaxSnapshotPayloadBytes" if "DecodeSnapshotPayload bytes = Inr p" for bytes p
    using that by (auto simp: DecodeSnapshotPayload_def not_less split: if_splits)
  then show ?thesis using DecodeSnapshotPayload_Encode DecodeSnapshotPayload_valid by blast
qed

theorem payload_codec_exact_witness:
  "\<exists>bytes. EncodeSnapshotPayload (BuildQuantizedKeyframe 7 (sample_view [sample_qactor 1 10 100])) = Inr bytes
    \<and> length bytes \<le> MaxSnapshotPayloadBytes
    \<and> DecodeSnapshotPayload bytes = Inr (BuildQuantizedKeyframe 7 (sample_view [sample_qactor 1 10 100]))"
proof -
  let ?p = "BuildQuantizedKeyframe 7 (sample_view [sample_qactor 1 10 100])"
  have "case EncodeSnapshotPayload ?p of Inl _ \<Rightarrow> False | Inr _ \<Rightarrow> True" by code_simp
  then obtain bytes where bytes: "EncodeSnapshotPayload ?p = Inr bytes" by (auto split: sum.splits)
  have "canon_payload ?p = ?p" by code_simp
  then show ?thesis using payload_codec_exact [THEN conjunct1, rule_format, OF bytes] bytes by metis
qed

text \<open>C27: a coordinate of the arena, or a radius of the safe zone, that is quantized comes back with
  an error of at most half a step and 2 to the -16, is quantized to the same value again, and
  greater coordinates give no smaller values.\<close>

theorem quantization_faithful:
  assumes "(lo, hi, width) \<in> {(ArenaMinimum, ArenaMaximum, 256), (0, SafeZoneRadiusMaximum, 128)}"
    and "QuantizeCoordinate v lo hi = Inr q" and "QuantizeCoordinate v' lo hi = Inr q'"
  shows "(\<exists>f. DequantizeCoordinate q lo hi = Inr f
      \<and> \<bar>f32_val f - f32_val v\<bar> \<le> width / (2 * 65535) + 1 / 2 ^ 16
      \<and> QuantizeCoordinate f lo hi = Inr q)
    \<and> (f32_val v \<le> f32_val v' \<longrightarrow> q \<le> q')"
proof -
  have w: "wire_bounds lo hi width" using assms(1) arena_bounds by auto
  note v = assms(2,3) [unfolded QuantizeCoordinate_iff]
  have "uint (word_of_int n :: u16) = n" if "0 \<le> n \<and> n \<le> 65535" for n
    using that by (simp add: uint_word_of_int)
  then have "uint q = quantized_value v lo hi" "uint q' = quantized_value v' lo hi"
    using v quantized_value_bounds [of lo hi] by metis+
  then have "f32_val v \<le> f32_val v' \<longrightarrow> q \<le> q'"
    using quantized_value_mono [of lo hi v v'] v by (simp add: word_le_def)
  moreover have "\<bar>f32_val (dequantized q lo hi) - f32_val v\<bar> \<le> width / (2 * 65535) + 1 / 2 ^ 16"
    using dequantize_quantize [OF w assms(2)] by (simp add: powi_values)
  ultimately show ?thesis using dequantized_val(1) [OF w, of q] quantize_dequantize [OF w, of q] by blast
qed

theorem quantization_faithful_witness:
  "\<exists>f. DequantizeCoordinate 35327 ArenaMinimum ArenaMaximum = Inr f \<and> QuantizeCoordinate f ArenaMinimum ArenaMaximum = Inr 35327"
proof -
  have q: "QuantizeCoordinate 0x41200000 ArenaMinimum ArenaMaximum = Inr 35327" by code_simp
  from quantization_faithful [of ArenaMinimum ArenaMaximum 256, OF _ q q] show ?thesis by auto
qed

end
