(* ===== verification/Spec2Isabelle.thy ===== *)
theory Spec2Isabelle
  imports GameSamples ReplicationProperties
begin

text \<open>
  A verification development for the server side of Survival Arena: a lobby server where players
  make rooms and start matches, match servers (\<^verbatim>\<open>workers\<close>) that run one
  match each, and the client's end of the network protocols. The C++ sources modelled are under
  \<^verbatim>\<open>protocol/\<close>, \<^verbatim>\<open>apps/lobby_server/\<close>,
  \<^verbatim>\<open>apps/game_server/\<close>, \<^verbatim>\<open>apps/game_common/\<close> and
  \<^verbatim>\<open>apps/game_client/\<close>.

  How the parts interact. A client's frame is decoded by \<^verbatim>\<open>TcpFrame.cpp\<close> and
  \<^verbatim>\<open>LobbyMessageCodec.cpp\<close> and handled by
  \<^verbatim>\<open>LobbyService\<close>, which keeps rooms (\<^verbatim>\<open>Room\<close>) and tickets
  (\<^verbatim>\<open>MatchTicketRegistry\<close>) and returns messages for clients and actions for
  workers. \<^verbatim>\<open>WorkerRegistry\<close> turns an action into a message to an idle
  worker (\<^verbatim>\<open>WorkerControlMessageCodec.cpp\<close>) and a timer, and the worker's
  answers, its disconnection or the timer into events for the lobby. The worker loads the
  reservation into its \<^verbatim>\<open>GameTicketStore\<close> and
  \<^verbatim>\<open>ParticipantRoster\<close>; players present their tickets over
  \<^verbatim>\<open>GameTcpMessageCodec.cpp\<close>; \<^verbatim>\<open>FixedTickScheduler\<close>
  says when the simulation steps; \<^verbatim>\<open>SnapshotReplicator\<close> filters each
  world for each player with an \<^verbatim>\<open>InterestGrid\<close> and makes a keyframe or a
  delta of it (\<^verbatim>\<open>ReplicationSnapshotCodec.cpp\<close>), from which
  \<^verbatim>\<open>ClientSnapshotStream\<close> restores the world; snapshots are cut into datagrams by
  \<^verbatim>\<open>GameUdpCodec.cpp\<close>, delayed on purpose by
  \<^verbatim>\<open>UdpDatagramQueue\<close> with \<^verbatim>\<open>DatagramShaper\<close> in
  tests of bad networks, and put together by \<^verbatim>\<open>SnapshotReassembler\<close>.

  The theories, in the order of their imports:
  \<^item> \<open>Prelude\<close>: exceptions as values of a sum type (\<open>'a throws\<close>),
    \<^verbatim>\<open>std::map\<close> as sorted association lists (\<open>omap\<close>), identifiers,
    clock arithmetic, and the locales for what several components promise: lookup after an
    update (\<open>map_store\<close>), machines with an invariant (\<open>invariant_machine\<close>),
    keys that are accepted at most as often as they are issued (\<open>counted_ledger\<close>), or at
    most once (\<open>one_shot_ledger\<close>).
  \<^item> \<open>ByteCodec\<close> (ByteCodec.cpp), \<open>Framing\<close> (TcpFrame.cpp, Crc32.cpp),
    \<open>Messages\<close> (LobbyMessages.hpp, WorkerControlMessages.hpp, GameTypes.hpp), and the
    codecs \<open>LobbyCodec\<close>, \<open>WorkerCodec\<close>, \<open>GameTcpCodec\<close>,
    \<open>GameUdpCodec\<close>, each with an interpretation of the locale of codecs: what is
    encoded is decoded, and what is accepted is an encoding.
  \<^item> \<open>Room\<close>, \<open>MatchTicketRegistry\<close>, \<open>LobbyRuntime\<close>,
    \<open>LobbyService\<close>: the definitions of the lobby, one per member function and named
    after it; the state \<open>lobby\<close> has the fields of the class.
    \<open>LobbyInvariant\<close> states what its maps have to do with each other;
    \<open>LobbyReplies\<close>, \<open>LobbyHandlers\<close>, \<open>LobbyMatches\<close> and
    \<open>LobbyEvents\<close> show that every handler returns, keeps the invariant and answers its
    request; \<open>LobbyContracts\<close> says what starting, failing and ending a match mean.
  \<^item> \<open>WorkerRegistry\<close>: WorkerRegistry.cpp. \<open>WorkerInvariant\<close>: its
    four maps agree, reservations go to idle workers, and every reservation has one outcome.
  \<^item> \<open>GameTicketStore\<close>, \<open>ParticipantRoster\<close>,
    \<open>FixedTickScheduler\<close>: the match server's admission and clock.
    \<open>WorkerHandover\<close> composes lobby, registry, codec, store and roster.
  \<^item> \<open>SnapshotReassembler\<close>, \<open>DatagramShaper\<close>,
    \<open>UdpDatagramQueue\<close>, \<open>GameSnapshotCodec\<close>: snapshots and datagrams.
  \<^item> \<open>FramedConnection\<close> (AsioFramedConnection.cpp): frames over a socket, as an
    \<open>invariant_machine\<close> of calls and completions.
  \<^item> \<open>FloatArith\<close>, \<open>FloatLemmas\<close>, \<open>FloatOps\<close>: the
    arithmetic of \<^verbatim>\<open>float\<close> on bit patterns and the rounding of
    \<^verbatim>\<open>double\<close>, and what the other theories need of it. \<open>Quantization\<close>
    (ReplicationSnapshot.hpp): coordinates in 16 bits.
  \<^item> \<open>ReplicationTypes\<close>, \<open>ReplicationCodec\<close>
    (ReplicationSnapshotCodec.cpp): payloads and their codec; \<open>ReplicationCodecLemmas\<close> and
    \<open>ReplicationRoundTrip\<close>: interpretations of the locale \<open>payload_codec\<close> for
    every part of a payload, and the round trip of the whole.
  \<^item> \<open>SnapshotDelta\<close>: building and applying deltas, of the server and the client;
    \<open>SnapshotDeltaLemmas\<close> and \<open>SnapshotDeltaCorrect\<close>: the locale
    \<open>keyed_diff\<close>, in which applying a difference of sorted lists gives the second list,
    with its interpretations for actors and loot.
  \<^item> \<open>InterestGrid\<close> (InterestGrid.cpp); \<open>InterestGridLemmas\<close> and
    \<open>InterestGridSpec\<close>: what a query finds, first in terms of cells, then without them.
  \<^item> \<open>SnapshotReplicator\<close> (SnapshotReplicator.cpp);
    \<open>SnapshotReplicatorLemmas\<close>, \<open>ReplicatorInvariant\<close> (the invariant of its
    state), \<open>ReplicatorErrors\<close> (when a build fails with a logic error).
    \<open>ClientSnapshotStream\<close> (ClientSnapshotStream.cpp).
  \<^item> \<open>ReplicationStream\<close>, \<open>ReplicationStreamCorrect\<close>: a replicator and the
    stream of one recipient with a network between them that loses, delays and repeats, as an
    \<open>invariant_machine\<close>; \<open>ReplicationProgress\<close>: builds return for valid worlds;
    \<open>ReplicationRuns\<close>: runs from the constructors on; \<open>ReplicationProperties\<close>:
    the properties of replication.
  \<^item> \<open>Samples\<close>, \<open>GameSamples\<close>, \<open>ReplicationSamples\<close>: a
    concrete run of the lobby, of a worker and of a replicator on which the theorems are applied.

  Conventions. Integers have the width of the source (\<open>u8\<close> to \<open>u64\<close>) and wrap
  around; \<^verbatim>\<open>std::optional\<close> is \<open>option\<close>; time points and durations are
  integers of nanoseconds (\<open>DatagramShaper\<close>: milliseconds, as in the source) and the
  clock's reading is an argument. A thrown exception is the left side of a sum and carries its
  standard class. A member function takes the object's record and returns it with its result.
  Enumerations are datatypes: a value outside an enumeration cannot be written down, and casts
  from the wire are the functions \<open>..._of\<close>, which are partial. Floats are their bit
  patterns. The codecs move them and test finiteness only; where the code calculates, the
  operations are those of IEEE 754 in single precision, rounded to nearest and ties to even, one
  rounding for each operation (no contraction into fused operations, no wider intermediate
  results), and calculations in \<^verbatim>\<open>double\<close> are rationals rounded by \<open>f64\<close>. The
  payload of a NaN that an operation makes is one fixed pattern, on which no theorem depends. The
  random sources of tickets are a
  parameter (\<open>tg_source\<close>, what each call returns); the theorems assume of it that a
  ticket has 16 bytes, as its type says, and the second part of C14 that no value is given twice.
  The callbacks of delayed datagrams are a parameter too: which of them stop the queue
  (\<open>stops\<close>).

  Loops and bounds. Loops over containers are recursions over lists. The binary search
  \<open>lower_bound\<close> and the catch-up loop \<open>advance_loop\<close> are recursive functions
  with termination proofs (the remaining interval, the ticks left up to the limit), as are
  \<open>trim_baselines\<close> and \<open>diff_loop\<close> of the replicator (the length of their lists). The retry
  loop of \<^verbatim>\<open>MatchTicketRegistry::Issue\<close> counts down its eight attempts. No
  fuel is used, so all functions are total.

  The properties. C1 to C16: the lobby never throws and stays consistent; requests are answered
  once and never twice acted on; starts, failures, ends and disconnections of matches; tickets;
  the lobby's wire. C17 to C19: outcomes of reservations, their timers, the hand-over to a
  worker. C20 to C27, in \<open>ReplicationProperties\<close>: the closed loop of replicator,
  network and client, its recovery, the replicator's state and errors, the grid, deltas, payloads
  and quantization. C28 to C31: admission, roster and clock of the match server. C32 to C38:
  datagrams, fragments, snapshots and the queue of delayed datagrams, to a snapshot from the
  server's encoder to the client's decoder. C39 and C40: connections. Further theorems, without a
  number, hold the codecs of frames, of the lobby's answers, of workers and of sessions, the
  lookups of the roster and the acceptance of a ticket.

  Not modelled: sockets and asynchronous operations on Boost.Asio, which are effects and events of
  \<open>FramedConnection\<close>; the serialisation of handlers on one strand is taken for
  granted, and what is received is any sequence of events; the servers and sessions around the
  connections (LobbyTcpServer.cpp, WorkerControlServer.cpp, GameServer.cpp, GameSession.cpp);
  process start-up and command lines; logging; the simulation of a match
  (AuthoritativeMatch.cpp and the simulation library), of which replication sees the worlds only:
  the theorems hold for any worlds; the client's prediction and interpolation between snapshots
  (ClientPredictor.cpp, RemoteInterpolator.cpp), which work on floats of frame times and change
  nothing that is sent; the Windows client with its rendering and vendored libraries.
  Allocation failures are not modelled, nor are callbacks of delayed datagrams that enqueue another
  one before they return. Overflow of clock
  arithmetic is outside the model; for the tick scheduler, where the source tests for it, the
  theorems are restricted to ordinals and offsets that fit, and \<open>Advance_rebase_above_nanosecond\<close>
  shows what a rate of more than one tick in a nanosecond does, and \<open>OffsetFor_exceeds_int64\<close> shows
  that the source's test lets larger ones pass.
\<close>

section \<open>The lobby\<close>

text \<open>C1: whatever a lobby's clients and workers send, in whatever order, no handler throws an
  exception out of the service, and every state it goes through satisfies the invariant: the
  maps of connections, players, rooms, reservations and matches agree with each other.\<close>

theorem lobby_never_throws:
  assumes "tg_tickets tickets = []" and "\<forall>i t. tg_source tickets i = Some t \<longrightarrow> opaque_wf t"
  shows "\<exists>s'. run_steps lobby_step (LobbyService tickets config) events = Inr s' \<and> lobby_inv s'"
  by (rule lobby_machine.run_total_unrestricted) (use lobby_inv_initial assms in auto)

theorem lobby_never_throws_witness:
  "\<exists>s'. run_steps lobby_step (LobbyService sample_registry sample_config) sample_events = Inr s'
     \<and> lobby_inv s'"
  by (rule lobby_never_throws) (auto simp: sample_registry_source, simp add: sample_registry_def)

text \<open>C2: in every reachable state a room has between one and 24 members, its host is one of
  them, and a player is in exactly the room the service has recorded for it, so in at most one.\<close>

theorem lobby_rooms_consistent:
  assumes "lobby_reachable s"
  shows "(\<forall>rid r. map_of (lb_rooms s) rid = Some r \<longrightarrow>
            r_id r = rid \<and> Room_Contains r (r_host r)
            \<and> 1 \<le> length (Room_Players r) \<and> length (Room_Players r) \<le> RoomCapacity
            \<and> distinct (Room_Players r))
    \<and> (\<forall>p rid. map_of (lb_playerToRoom s) p = Some rid \<longleftrightarrow>
            (\<exists>r. map_of (lb_rooms s) rid = Some r \<and> Room_Contains r p))
    \<and> length (lb_rooms s) \<le> MaximumRooms"
  using lobby_invD(1,3) [OF lobby_reachable_inv [OF assms]] distinct_Room_Players room_wf_size
    room_wf_nonempty room_wf_host
  by (auto simp: room_inv_def maps_wf_def Room_Contains_iff Suc_le_eq)

theorem lobby_rooms_consistent_witness:
  "map_of (lb_playerToRoom (lobby_after 6)) (PlayerId 2) = Some (RoomId 1)
   \<and> (\<exists>r. map_of (lb_rooms (lobby_after 6)) (RoomId 1) = Some r \<and> Room_Contains r (PlayerId 2))"
proof -
  have "map_of (lb_playerToRoom (lobby_after 6)) (PlayerId 2) = Some (RoomId 1)" by code_simp
  then show ?thesis using lobby_rooms_consistent [OF lobby_after_reachable, of 6] by blast
qed

text \<open>C3: an accepted request gets exactly one answer: among the messages the handler sends,
  one carries a request identifier, it is the request's, and it goes to the requester; all
  other messages are unsolicited (identifier 0).\<close>

theorem request_answered_once:
  assumes "lobby_reachable s" and "map_of (lb_connections s) c = Some st"
    and "cs_lastRequestId st < client_RequestId message"
  shows "\<exists>s' result m. Handle c message now s = Inr (s', result)
    \<and> filter (\<lambda>m. server_RequestId (ob_message m) \<noteq> 0) (sr_outbound result) = [m]
    \<and> ob_recipient m = c \<and> server_RequestId (ob_message m) = client_RequestId message"
  using Handle_answers [OF lobby_reachable_inv [OF assms(1)] assms(2), of message now] assms(3)
  by (auto simp: in_order_def answers_def returns_iff answered_def solicited_def)

theorem request_answered_once_witness:
  "\<exists>s' result m. Handle (ConnectionId 2) (JoinRoomRequest 2 (RoomId 1)) 0 (lobby_after 5) = Inr (s', result)
    \<and> filter (\<lambda>m. server_RequestId (ob_message m) \<noteq> 0) (sr_outbound result) = [m]
    \<and> ob_recipient m = ConnectionId 2 \<and> server_RequestId (ob_message m) = 2"
proof -
  have "map_of (lb_connections (lobby_after 5)) (ConnectionId 2) =
      Some \<lparr>cs_player = Some (PlayerId 2), cs_lastRequestId = 1\<rparr>" by code_simp
  from request_answered_once [OF lobby_after_reachable this, of "JoinRoomRequest 2 (RoomId 1)" 0]
  show ?thesis by simp
qed

text \<open>C4: every message the lobby sends goes to an open connection, its encoding does not throw
  and fits a frame, and the client's decoder reads back the message (with its lists sorted).\<close>

theorem lobby_messages_deliverable:
  assumes "lobby_reachable s" and "lobby_handle s event = Inr (s', result)"
    and "m \<in> set (sr_outbound result)"
  shows "om_contains (lb_connections s') (ob_recipient m)
    \<and> (\<exists>e frame. EncodeServerMessage (ob_message m) = Inr e \<and> EncodeTcpFrame e = Inr frame
         \<and> DecodeTcpFrameHeader (take TcpFrameHeaderBytes frame) =
             Inr \<lparr>th_version = ProtocolVersion, th_type = em_type e,
                  th_payloadBytes = of_nat (length (em_payload e))\<rparr>
         \<and> drop TcpFrameHeaderBytes frame = em_payload e
         \<and> DecodeServerMessage (em_type e) (em_payload e) = Inr (canon_server (ob_message m)))"
proof -
  have ok: "message_ok s' m"
    using lobby_handle_keeps [OF lobby_reachable_inv [OF assms(1)], of event] assms(2,3)
    by (auto simp: keeps_def result_ok_def)
  then obtain e where e: "EncodeServerMessage (ob_message m) = Inr e"
    using EncodeServerMessage_total_iff by (auto simp: message_ok_def)
  have fits: "length (em_payload e) \<le> MaxTcpPayloadBytes"
    using EncodeServerMessage_fits [OF _ e] ok by (simp add: message_ok_def)
  have small: "MaxTcpPayloadBytes < 2 ^ 32"
    by (simp add: MaxTcpPayloadBytes_def MaxTcpFrameBytes_def TcpFrameHeaderBytes_def)
  with fits have n: "unat (of_nat (length (em_payload e)) :: u32) \<le> MaxTcpPayloadBytes"
    by (simp add: unat_of_nat)
  show ?thesis
    using e ok fits server_codec.decode_encode [OF _ e] DecodeTcpFrameHeader_frame_header [OF n]
    by (auto simp: message_ok_def om_contains_iff EncodeTcpFrame_iff TcpFrameHeaderBytes_def)
qed

theorem lobby_messages_deliverable_witness:
  "\<exists>e frame. EncodeServerMessage (ServerWelcome 1 (PlayerId 1)) = Inr e \<and> EncodeTcpFrame e = Inr frame
     \<and> DecodeServerMessage (em_type e) (em_payload e) = Inr (ServerWelcome 1 (PlayerId 1))"
proof -
  let ?e = "Received (ConnectionId 1) (ClientHello 1) 0"
  obtain s' result where h: "lobby_handle (lobby_after 2) ?e = Inr (s', result)"
    using handled_result [OF lobby_after_reachable] by blast
  have "map_sum id (\<lambda>(s, r). sr_outbound r) (lobby_handle (lobby_after 2) ?e) =
      Inr [\<lparr>ob_recipient = ConnectionId 1, ob_message = ServerWelcome 1 (PlayerId 1)\<rparr>]" by code_simp
  with h have "\<lparr>ob_recipient = ConnectionId 1, ob_message = ServerWelcome 1 (PlayerId 1)\<rparr>
      \<in> set (sr_outbound result)" by simp
  from lobby_messages_deliverable [OF lobby_after_reachable h this] show ?thesis by auto
qed

text \<open>C5: once a request of a connection has been handled, accepted or refused, a request of the same
  connection whose identifier is not above that one is refused as out of order and changes nothing,
  whatever other events, of this connection, of others or of workers, come in between, as long as
  the connection is not closed: no request acts twice.\<close>

theorem request_replay_refused:
  assumes "lobby_reachable s" and "om_contains (lb_connections s) c"
    and "Handle c earlier now s = Inr (s', result)"
    and "run_steps lobby_step s' events = Inr s''" and "Disconnected c \<notin> set events"
    and "client_RequestId message \<le> client_RequestId earlier"
  shows "Handle c message now' s'' =
    Inr (s'', ErrorResult c (client_RequestId message) RequestOutOfOrder)"
proof -
  have inv: "lobby_inv s" by (rule lobby_reachable_inv [OF assms(1)])
  obtain st where st: "map_of (lb_connections s) c = Some st"
    using assms(2) by (auto simp: om_contains_def)
  have "has_reached c (client_RequestId earlier) s'"
  proof (cases "in_order earlier st")
    case True
    then show ?thesis using Handle_lastRequestId [OF assms(3) st True inv] by (auto simp: has_reached_def)
  next
    case False
    then show ?thesis
      using Handle_out_of_order [OF st False, of now] assms(3) st by (auto simp: has_reached_def in_order_def)
  qed
  moreover have "lobby_inv s'" using Handle_keeps [OF inv, of c earlier now] assms(3) by (simp add: keeps_def)
  ultimately have "has_reached c (client_RequestId earlier) s''" using run_reached [OF assms(4)] assms(5) by blast
  then obtain st' where "map_of (lb_connections s'') c = Some st'" "\<not> in_order message st'"
    using assms(6) by (auto simp: has_reached_def in_order_def)
  then show ?thesis by (rule Handle_out_of_order)
qed

theorem request_replay_refused_witness:
  "\<exists>s' s''. run_steps lobby_step s' [Opened, Received (ConnectionId 2) (ListRoomsRequest 9) 5] = Inr s''
   \<and> Handle (ConnectionId 1) (CreateRoomRequest 2) 0 s'' =
     Inr (s'', ErrorResult (ConnectionId 1) 2 RequestOutOfOrder)
   \<and> om_contains (lb_connections s') (ConnectionId 1)"
proof -
  let ?m = "CreateRoomRequest 2" and ?events = "[Opened, Received (ConnectionId 2) (ListRoomsRequest 9) 5]"
  obtain s' result where h: "Handle (ConnectionId 1) ?m 0 (lobby_after 4) = Inr (s', result)"
    using handled_result [OF lobby_after_reachable, of 4 "Received (ConnectionId 1) ?m 0"] by auto
  have c: "om_contains (lb_connections (lobby_after 4)) (ConnectionId 1)" by code_simp
  have "lobby_inv s'"
    using Handle_keeps [OF lobby_reachable_inv [OF lobby_after_reachable [of 4]], of "ConnectionId 1" ?m 0] h
    by (simp add: keeps_def)
  then obtain s'' where s'': "run_steps lobby_step s' ?events = Inr s''"
    using lobby_machine.run_total_unrestricted [of s' ?events] by blast
  have "map_sum id (\<lambda>(s, r). om_contains (lb_connections s) (ConnectionId 1))
      (Handle (ConnectionId 1) ?m 0 (lobby_after 4)) = Inr True" by code_simp
  with h s'' request_replay_refused [OF lobby_after_reachable c h s'', of ?m 0] show ?thesis by auto
qed

text \<open>C6: a start that asks a worker for a match came from the host of a waiting room with at
  least two members, all ready. It leaves the room starting and the reservation tracked, for
  exactly the room's members in order, each with a ticket of its own that is live for this
  match and this player for 60 seconds.\<close>

theorem start_reserves_match:
  assumes "lobby_reachable s" and "HandleStartMatch c p q now s = Inr (s', result)"
    and "ReserveMatchAction a \<in> set (sr_actions result)"
  shows "\<exists>r. map_of (lb_rooms s) (ra_room a) = Some r \<and> r_state r = Waiting \<and> r_host r = p
    \<and> 2 \<le> length (Room_Players r) \<and> (\<forall>(x, m) \<in> set (r_members r). rmm_ready m)
    \<and> map_of (lb_rooms s') (ra_room a) = Some (r\<lparr>r_state := Starting\<rparr>)
    \<and> map_of (lb_pending s') (ra_reservation a) = Some a
    \<and> map_of (lb_roomToReservation s') (ra_room a) = Some (ra_reservation a)
    \<and> map rp_player (ra_participants a) = Room_Players r
    \<and> distinct (participant_tickets a)
    \<and> (\<forall>x \<in> set (ra_participants a). live (lb_tickets s') (rp_ticket x) =
         Some \<lparr>tr_match = ra_match a, tr_player = rp_player x, tr_expiresAt = now + ticket_lifetime\<rparr>)"
  using start_reserves_lemma [OF lobby_reachable_inv [OF assms(1)] assms(2,3)]
  by (auto simp: Room_ValidateStart_None_iff issued_record_def)

theorem start_reserves_match_witness:
  "\<exists>s' result a. HandleStartMatch (ConnectionId 1) (PlayerId 1) 4 1000 (lobby_after 8) = Inr (s', result)
     \<and> map rp_player (ra_participants a) = [PlayerId 1, PlayerId 2] \<and> distinct (participant_tickets a)
     \<and> map_of (lb_pending s') (ra_reservation a) = Some a"
proof -
  let ?h = "HandleStartMatch (ConnectionId 1) (PlayerId 1) 4 1000 (lobby_after 8)"
  have "case ?h of Inl _ \<Rightarrow> False | Inr (s', r) \<Rightarrow>
      list_ex (\<lambda>x. case x of ReserveMatchAction a \<Rightarrow>
         map rp_player (ra_participants a) = [PlayerId 1, PlayerId 2] | _ \<Rightarrow> False) (sr_actions r)"
    by code_simp
  then obtain s' r x where h: "?h = Inr (s', r)" and x: "x \<in> set (sr_actions r)"
    "case x of ReserveMatchAction a \<Rightarrow>
       map rp_player (ra_participants a) = [PlayerId 1, PlayerId 2] | _ \<Rightarrow> False"
    unfolding list_ex_iff by (cases ?h) auto
  then obtain a where a: "ReserveMatchAction a \<in> set (sr_actions r)"
    "map rp_player (ra_participants a) = [PlayerId 1, PlayerId 2]"
    by (cases x) auto
  with start_reserves_match [OF lobby_after_reachable h a(1)] show ?thesis
    by (intro exI [of _ s'] exI [of _ r] exI [of _ a]) (auto simp: h)
qed

text \<open>C7: a start that creates no reservation, refused or rolled back because the source of
  tickets failed, leaves no trace: rooms, reservations and matches are as before and no new
  ticket is live.\<close>

theorem start_failure_leaves_no_trace:
  assumes "lobby_reachable s" and "HandleStartMatch c p q now s = Inr (s', result)"
    and "sr_actions result = []"
  shows "map_of (lb_rooms s') = map_of (lb_rooms s) \<and> lb_playerToRoom s' = lb_playerToRoom s
    \<and> lb_pending s' = lb_pending s \<and> lb_roomToReservation s' = lb_roomToReservation s
    \<and> lb_activeMatches s' = lb_activeMatches s
    \<and> (\<forall>t r. live (lb_tickets s') t = Some r \<longrightarrow> live (lb_tickets s) t = Some r)"
  using start_without_trace [OF lobby_reachable_inv [OF assms(1)] assms(2,3)] .

text \<open>The same room on a registry whose source gives one ticket and then fails.\<close>

definition failing_registry :: ticket_registry where
  "failing_registry = \<lparr>tg_source = (\<lambda>i. if i < 1 then Some (sample_ticket i) else None),
     tg_fills = 0, tg_tickets = []\<rparr>"

definition failing_after :: "nat \<Rightarrow> lobby" where
  "failing_after n =
     (case run_steps lobby_step (LobbyService failing_registry sample_config) (take n sample_events) of
        Inr s \<Rightarrow> s | Inl _ \<Rightarrow> LobbyService failing_registry sample_config)"

lemma failing_after_reachable: "lobby_reachable (failing_after n)"
proof -
  have "lobby_reachable (LobbyService failing_registry sample_config)"
    by (rule lobby_reachable.initial)
       (auto simp: failing_registry_def sample_ticket_def opaque_wf_def MatchTicketBytes_def
         split: if_splits)
  then show ?thesis using run_reachable by (auto simp: failing_after_def split: sum.split)
qed

theorem start_failure_leaves_no_trace_witness:
  "\<exists>s' result. HandleStartMatch (ConnectionId 1) (PlayerId 1) 4 1000 (failing_after 8) = Inr (s', result)
     \<and> map au_type (sr_audit result) = [StartFailed] \<and> lb_pending s' = lb_pending (failing_after 8)"
proof -
  let ?h = "HandleStartMatch (ConnectionId 1) (PlayerId 1) 4 1000 (failing_after 8)"
  have "case ?h of Inl _ \<Rightarrow> False | Inr (s', r) \<Rightarrow>
      sr_actions r = [] \<and> map au_type (sr_audit r) = [StartFailed]"
    by code_simp
  then obtain s' r where h: "?h = Inr (s', r)" and a: "sr_actions r = []"
    and audit: "map au_type (sr_audit r) = [StartFailed]"
    by (auto split: sum.splits)
  then show ?thesis using start_failure_leaves_no_trace [OF failing_after_reachable h a]
    by (intro exI [of _ s'] exI [of _ r]) (simp add: h audit)
qed

text \<open>C8: when a reservation fails, because the worker rejected it or because its acceptance
  came too late or was malformed, the room waits again with the members it had, the reservation
  is forgotten, no ticket of its match is live, and the player who asked is told.\<close>

theorem failed_reservation_restores_room:
  assumes "lobby_reachable s" and "map_of (lb_pending s) w = Some a"
    and "case event of
           ReservationFailedEvent w' m \<Rightarrow> w' = w \<and> m = ra_match a
         | ReservationReadyEvent w' m worker endpoint \<Rightarrow> w' = w \<and> m = ra_match a
             \<and> (idval worker = 0 \<or> \<not> IsValidEndpoint endpoint
                \<or> ra_issuedAt a + ticket_lifetime < now + nanoseconds_per_second)
         | _ \<Rightarrow> False"
    and "HandleWorkerEvent event now s = Inr (s', result)"
  shows "\<exists>r. map_of (lb_rooms s) (ra_room a) = Some r
    \<and> map_of (lb_rooms s') = (map_of (lb_rooms s))(ra_room a \<mapsto> r\<lparr>r_state := Waiting\<rparr>)
    \<and> lb_playerToRoom s' = lb_playerToRoom s
    \<and> w \<notin> dom (map_of (lb_pending s')) \<and> ra_room a \<notin> dom (map_of (lb_roomToReservation s'))
    \<and> (\<forall>t x. live (lb_tickets s') t = Some x \<longrightarrow> tr_match x \<noteq> ra_match a)
    \<and> (\<forall>c. map_of (lb_playerToConnection s) (ra_requester a) = Some c \<longrightarrow>
         \<lparr>ob_recipient = c, ob_message = ErrorResponse (ra_requestId a) WorkerUnavailable\<rparr>
           \<in> set (sr_outbound result))"
  by (rule failed_reservation_lemma [OF lobby_reachable_inv [OF assms(1)] assms(2) _ assms(4)])
     (use assms(3) in \<open>auto simp: reservation_fails_def acceptable_def split: worker_event.splits\<close>)

theorem failed_reservation_restores_room_witness:
  "\<exists>s' result. HandleWorkerEvent (ReservationFailedEvent (ReservationId 1) (ra_match sample_action)) 5000
       (lobby_after 9) = Inr (s', result)
     \<and> (\<forall>t x. live (lb_tickets s') t = Some x \<longrightarrow> tr_match x \<noteq> ra_match sample_action)"
proof -
  let ?e = "ReservationFailedEvent (ReservationId 1) (ra_match sample_action)"
  obtain s' result where h: "HandleWorkerEvent ?e 5000 (lobby_after 9) = Inr (s', result)"
    using handled_result [OF lobby_after_reachable, of 9 "Worker ?e 5000"] by auto
  have "\<forall>t x. live (lb_tickets s') t = Some x \<longrightarrow> tr_match x \<noteq> ra_match sample_action"
    using failed_reservation_restores_room [OF lobby_after_reachable sample_action _ h] by auto
  with h show ?thesis by blast
qed

text \<open>C9: when a worker accepts in time, the match is active on that worker, its room is in the
  match, and every connected participant is sent its own ticket and nobody else's, with a
  validity that ends no later than the ticket itself.\<close>

theorem accepted_reservation_starts_match:
  assumes "lobby_reachable s" and "map_of (lb_pending s) w = Some a" and "ra_match a = m"
    and "idval worker \<noteq> 0" and "IsValidEndpoint endpoint"
    and "now + nanoseconds_per_second \<le> ra_issuedAt a + ticket_lifetime"
    and "HandleWorkerEvent (ReservationReadyEvent w m worker endpoint) now s = Inr (s', result)"
  shows "map_of (lb_activeMatches s') m =
        Some \<lparr>am_room = ra_room a, am_worker = worker, am_tickets = participant_tickets a\<rparr>
    \<and> (\<exists>r. map_of (lb_rooms s') (ra_room a) = Some r \<and> r_state r = InMatch
         \<and> Room_Players r = map rp_player (ra_participants a))
    \<and> w \<notin> dom (map_of (lb_pending s')) \<and> lb_tickets s' = lb_tickets s
    \<and> (\<forall>x \<in> set (ra_participants a). \<forall>c. map_of (lb_playerToConnection s) (rp_player x) = Some c \<longrightarrow>
         (\<exists>t. \<lparr>ob_recipient = c, ob_message = MatchTicket t\<rparr> \<in> set (sr_outbound result)
           \<and> mt_ticket t = rp_ticket x \<and> mt_match t = m
           \<and> 1 \<le> unat (mt_expiresInSeconds t)
           \<and> now + int (unat (mt_expiresInSeconds t)) * nanoseconds_per_second
               \<le> ra_issuedAt a + ticket_lifetime))
    \<and> (\<forall>c t. \<lparr>ob_recipient = c, ob_message = MatchTicket t\<rparr> \<in> set (sr_outbound result) \<longrightarrow>
         (\<exists>x \<in> set (ra_participants a). mt_ticket t = rp_ticket x
           \<and> map_of (lb_playerToConnection s) (rp_player x) = Some c))"
  by (rule match_begins_lemma [OF lobby_reachable_inv [OF assms(1)] assms(2) _ assms(7)])
     (use assms(3-6) in \<open>simp add: acceptable_def\<close>)

theorem accepted_reservation_starts_match_witness:
  "\<exists>s' result. HandleWorkerEvent (ReservationReadyEvent (ReservationId 1) (ra_match sample_action)
       (WorkerId 5) sample_endpoint) 2000 (lobby_after 9) = Inr (s', result)
     \<and> map_of (lb_activeMatches s') (ra_match sample_action) =
         Some \<lparr>am_room = ra_room sample_action, am_worker = WorkerId 5,
               am_tickets = participant_tickets sample_action\<rparr>"
proof -
  let ?e = "ReservationReadyEvent (ReservationId 1) (ra_match sample_action) (WorkerId 5) sample_endpoint"
  obtain s' result where h: "HandleWorkerEvent ?e 2000 (lobby_after 9) = Inr (s', result)"
    using handled_result [OF lobby_after_reachable, of 9 "Worker ?e 2000"] by auto
  have "IsValidEndpoint sample_endpoint" by code_simp
  moreover have "2000 + nanoseconds_per_second \<le> ra_issuedAt sample_action + ticket_lifetime"
    by code_simp
  ultimately show ?thesis
    using accepted_reservation_starts_match [OF lobby_after_reachable sample_action refl _ _ _ h] h
    by simp
qed

text \<open>C10: in every reachable state a live ticket belongs to a participant of a reservation that
  is pending or a match that is active: the tickets of an abandoned match never stay usable.\<close>

theorem live_tickets_have_a_match:
  assumes "lobby_reachable s" and "live (lb_tickets s) t = Some r"
  shows "(\<exists>v a. map_of (lb_pending s) v = Some a \<and> ra_match a = tr_match r
            \<and> t \<in> set (participant_tickets a))
    \<or> (\<exists>am. map_of (lb_activeMatches s) (tr_match r) = Some am \<and> t \<in> set (am_tickets am))"
  using lobby_invD(6) [OF lobby_reachable_inv [OF assms(1)]] assms(2) unfolding ticket_inv_def by blast

theorem live_tickets_have_a_match_witness:
  "\<exists>r. live (lb_tickets (lobby_after 9)) (sample_ticket 0) = Some r
     \<and> ((\<exists>v a. map_of (lb_pending (lobby_after 9)) v = Some a \<and> ra_match a = tr_match r
            \<and> sample_ticket 0 \<in> set (participant_tickets a))
        \<or> (\<exists>am. map_of (lb_activeMatches (lobby_after 9)) (tr_match r) = Some am
            \<and> sample_ticket 0 \<in> set (am_tickets am)))"
proof -
  have "live (lb_tickets (lobby_after 9)) (sample_ticket 0) \<noteq> None" by code_simp
  then obtain r where r: "live (lb_tickets (lobby_after 9)) (sample_ticket 0) = Some r" by auto
  from live_tickets_have_a_match [OF lobby_after_reachable r] r show ?thesis by blast
qed

text \<open>C11: when the worker that runs a match reports it finished or itself unavailable, the match
  and its room are gone, its players are free to join other rooms and are sent the room list, and
  none of its tickets is live. The same report from another worker changes nothing.\<close>

theorem ended_match_frees_players:
  assumes "lobby_reachable s" and "map_of (lb_activeMatches s) m = Some am"
    and "event = MatchFinishedEvent worker m \<or> event = MatchUnavailableEvent worker m"
    and "HandleWorkerEvent event now s = Inr (s', result)"
  shows "if worker = am_worker am
    then m \<notin> dom (map_of (lb_activeMatches s')) \<and> am_room am \<notin> dom (map_of (lb_rooms s'))
      \<and> (\<forall>p. map_of (lb_playerToRoom s) p = Some (am_room am) \<longrightarrow>
           p \<notin> dom (map_of (lb_playerToRoom s'))
           \<and> (\<forall>c. map_of (lb_playerToConnection s) p = Some c \<longrightarrow>
                \<lparr>ob_recipient = c, ob_message = RoomListResponse 0 (waiting_list (lb_rooms s'))\<rparr>
                  \<in> set (sr_outbound result)))
      \<and> (\<forall>t x. live (lb_tickets s') t = Some x \<longrightarrow> tr_match x \<noteq> m)
    else s' = s \<and> result = no_result"
proof -
  obtain unavailable where h: "FinishActiveMatch worker m unavailable s = Inr (s', result)"
    using assms(3,4) by (auto simp: HandleWorkerEvent_def)
  show ?thesis
    using match_ends_lemma [OF lobby_reachable_inv [OF assms(1)] assms(2)] h
      FinishActiveMatch_other_worker [OF assms(2)] by (cases "worker = am_worker am") auto
qed

theorem ended_match_frees_players_witness:
  "\<exists>s' result. HandleWorkerEvent (MatchFinishedEvent (WorkerId 5) (MatchId 1)) 9000 (lobby_after 10) =
       Inr (s', result)
     \<and> PlayerId 2 \<notin> dom (map_of (lb_playerToRoom s'))"
proof -
  let ?e = "MatchFinishedEvent (WorkerId 5) (MatchId 1)"
  obtain s' result where h: "HandleWorkerEvent ?e 9000 (lobby_after 10) = Inr (s', result)"
    using handled_result [OF lobby_after_reachable, of 10 "Worker ?e 9000"] by auto
  have am: "map_of (lb_activeMatches (lobby_after 10)) (MatchId 1) =
      Some \<lparr>am_room = RoomId 1, am_worker = WorkerId 5, am_tickets = [sample_ticket 0, sample_ticket 1]\<rparr>"
    by code_simp
  have "map_of (lb_playerToRoom (lobby_after 10)) (PlayerId 2) = Some (RoomId 1)" by code_simp
  with ended_match_frees_players [OF lobby_after_reachable am _ h] h show ?thesis
    by (intro exI [of _ s'] exI [of _ result]) auto
qed

text \<open>C12: when a connection closes, it and its player are forgotten and it is sent nothing. A
  player in a waiting room leaves it. A player in a starting room leaves it too, and the whole
  start is called off: the reservation is dropped, the worker is told to cancel it and no ticket
  of its match is live. A player in a running match keeps the place in the room.\<close>

theorem disconnect_leaves_room:
  assumes "lobby_reachable s" and "map_of (lb_connections s) c = Some st"
    and "Disconnect c s = Inr (s', result)"
  shows "map_of (lb_connections s') = (map_of (lb_connections s))(c := None)
    \<and> (\<forall>p. cs_player st = Some p \<longrightarrow> p \<notin> dom (map_of (lb_playerToConnection s')))
    \<and> (\<forall>m \<in> set (sr_outbound result). ob_recipient m \<noteq> c)
    \<and> (\<forall>p rid r. cs_player st = Some p \<and> map_of (lb_playerToRoom s) p = Some rid
         \<and> map_of (lb_rooms s) rid = Some r \<longrightarrow>
        (r_state r = InMatch \<longrightarrow> lb_rooms s' = lb_rooms s \<and> lb_playerToRoom s' = lb_playerToRoom s)
        \<and> (r_state r \<noteq> InMatch \<longrightarrow> p \<notin> dom (map_of (lb_playerToRoom s'))
             \<and> (\<forall>r'. map_of (lb_rooms s') rid = Some r' \<longrightarrow> left_room p r r'))
        \<and> (r_state r = Starting \<longrightarrow> (\<exists>w a. map_of (lb_pending s) w = Some a \<and> ra_room a = rid
             \<and> w \<notin> dom (map_of (lb_pending s'))
             \<and> CancelReservationAction w (ra_match a) \<in> set (sr_actions result)
             \<and> (\<forall>t x. live (lb_tickets s') t = Some x \<longrightarrow> tr_match x \<noteq> ra_match a))))"
  using disconnect_closes [OF lobby_reachable_inv [OF assms(1)] assms(2,3)]
    disconnect_lemma [OF lobby_reachable_inv [OF assms(1)] assms(2) _ _ _ assms(3)]
  by blast

theorem disconnect_leaves_room_witness:
  "\<exists>s' result w a. Disconnect (ConnectionId 2) (lobby_after 9) = Inr (s', result)
     \<and> map_of (lb_pending (lobby_after 9)) w = Some a
     \<and> CancelReservationAction w (ra_match a) \<in> set (sr_actions result)
     \<and> PlayerId 2 \<notin> dom (map_of (lb_playerToRoom s'))"
proof -
  obtain s' result where h: "Disconnect (ConnectionId 2) (lobby_after 9) = Inr (s', result)"
    using handled_result [OF lobby_after_reachable, of 9 "Disconnected (ConnectionId 2)"] by auto
  have c: "map_of (lb_connections (lobby_after 9)) (ConnectionId 2) =
      Some \<lparr>cs_player = Some (PlayerId 2), cs_lastRequestId = 3\<rparr>" by code_simp
  have p: "map_of (lb_playerToRoom (lobby_after 9)) (PlayerId 2) = Some (RoomId 1)" by code_simp
  have "map_option r_state (map_of (lb_rooms (lobby_after 9)) (RoomId 1)) = Some Starting" by code_simp
  then obtain r where r: "map_of (lb_rooms (lobby_after 9)) (RoomId 1) = Some r" "r_state r = Starting"
    by auto
  have "PlayerId 2 \<notin> dom (map_of (lb_playerToRoom s'))
      \<and> (\<exists>w a. map_of (lb_pending (lobby_after 9)) w = Some a
          \<and> CancelReservationAction w (ra_match a) \<in> set (sr_actions result))"
    using disconnect_leaves_room [OF lobby_after_reachable c h] p r by force
  with h show ?thesis by blast
qed

section \<open>Rooms and tickets\<close>

text \<open>C13: when a member leaves a waiting room that does not become empty, the host stays unless
  it is the one who left; then the new host is the remaining member who joined first, and among
  equal join ordinals the one with the smallest player id.\<close>

theorem host_succession:
  assumes "room_wf r" and "Room_Leave p r = (None, r')" and "\<not> Room_Empty r'"
  shows "if p \<noteq> r_host r then r_host r' = r_host r
    else \<exists>h. map_of (r_members r') (r_host r') = Some h
      \<and> (\<forall>x m. map_of (r_members r') x = Some m \<longrightarrow>
           rmm_joinOrdinal h < rmm_joinOrdinal m
           \<or> rmm_joinOrdinal h = rmm_joinOrdinal m \<and> r_host r' \<le> x)"
proof (cases "p = r_host r")
  case True
  have "r_host r' \<in> room_players r'"
    using Room_Leave_host [OF assms(2,1)] assms(3) by (simp add: Room_Empty_def)
  then obtain h where "map_of (r_members r') (r_host r') = Some h"
    by (auto simp: room_players_def dom_om [symmetric])
  then show ?thesis
    using Room_Leave_least [OF assms(2) True _ refl assms(1)] True by auto
next
  case False
  then show ?thesis using Room_Leave_host [OF assms(2,1)] assms(3) by (simp add: Room_Empty_def)
qed

definition sample_room :: room where
  "sample_room = \<lparr>r_id = RoomId 1, r_state = Waiting, r_host = PlayerId 4, r_members =
     [(PlayerId 2, \<lparr>rmm_player = PlayerId 2, rmm_ready = False, rmm_joinOrdinal = 9\<rparr>),
      (PlayerId 3, \<lparr>rmm_player = PlayerId 3, rmm_ready = True, rmm_joinOrdinal = 6\<rparr>),
      (PlayerId 4, \<lparr>rmm_player = PlayerId 4, rmm_ready = True, rmm_joinOrdinal = 5\<rparr>)]\<rparr>"

theorem host_succession_witness:
  "\<exists>r' h. Room_Leave (PlayerId 4) sample_room = (None, r') \<and> r_host r' = PlayerId 3
     \<and> map_of (r_members r') (PlayerId 3) = Some h
     \<and> (\<forall>x m. map_of (r_members r') x = Some m \<longrightarrow> rmm_joinOrdinal h \<le> rmm_joinOrdinal m)"
proof -
  let ?r' = "snd (Room_Leave (PlayerId 4) sample_room)"
  have l: "Room_Leave (PlayerId 4) sample_room = (None, ?r')"
    by (rule prod_eqI) (simp_all, code_simp)
  have wf: "room_wf sample_room" by code_simp
  have e: "\<not> Room_Empty ?r'" and h: "r_host ?r' = PlayerId 3" and p: "r_host sample_room = PlayerId 4"
    by code_simp+
  from host_succession [OF wf l e] h p l show ?thesis by fastforce
qed

text \<open>A ticket is accepted exactly if it is live, not yet expired, and was issued for this
  match and this player; accepting or finding it expired removes it and nothing else.\<close>

theorem ticket_consume_accepts:
  "(fst (registry_Consume t m p now reg) = TC_Accepted \<longleftrightarrow>
      (\<exists>r. live reg t = Some r \<and> now < tr_expiresAt r \<and> tr_match r = m \<and> tr_player r = p))
   \<and> live (snd (registry_Consume t m p now reg)) =
      (if fst (registry_Consume t m p now reg) \<in> {TC_Accepted, TC_Expired}
       then (live reg)(t := None) else live reg)"
  using registry_Consume_accepted_iff live_Consume by blast

lemma count_mset_count_list: "count (mset xs) x = count_list xs x"
  by (induction xs) auto

lemma distinct_mset_subset:
  assumes "distinct ys" and "mset xs \<subseteq># mset ys"
  shows "distinct xs"
proof -
  have "count (mset xs) x \<le> 1" for x
  proof -
    have "count (mset ys) x \<le> 1" using assms(1) by (simp add: distinct_count_list count_mset_count_list)
    then show ?thesis using mset_subset_eq_count [OF assms(2), of x] by linarith
  qed
  then show ?thesis by (simp add: distinct_count_list count_mset_count_list)
qed

text \<open>C14: in any sequence of issues, consume attempts, revocations and purges on a new registry, a
  ticket is accepted for a match and a player at most as often as it was issued for them; so when
  the random source never gives the same value twice, no ticket is accepted twice, for whatever
  match and player.\<close>

theorem tickets_accepted_at_most_once:
  "mset (accepted_keys registry_accepts registry_other ops (MatchTicketRegistry source))
      \<subseteq># mset (issued_keys registry_accepts registry_other registry_issues ops (MatchTicketRegistry source))
   \<and> ((\<forall>i j. source i = source j \<and> source i \<noteq> None \<longrightarrow> i = j) \<longrightarrow>
      distinct (map fst (accepted_keys registry_accepts registry_other ops (MatchTicketRegistry source))))"
proof (intro conjI impI)
  let ?accepted = "accepted_keys registry_accepts registry_other ops (MatchTicketRegistry source)"
  let ?issued = "issued_keys registry_accepts registry_other registry_issues ops (MatchTicketRegistry source)"
  show sub: "mset ?accepted \<subseteq># mset ?issued"
  proof (rule mset_subset_eqI)
    fix k
    show "count (mset ?accepted) k \<le> count (mset ?issued) k"
      using lobby_ledger.accepted_le_issued [OF MatchTicketRegistry_new(1), of ops source k] by (simp add: count_mset_count_list)
  qed
  assume "\<forall>i j. source i = source j \<and> source i \<noteq> None \<longrightarrow> i = j"
  then have "distinct (map fst ?issued)"
    using fill_indices_distinct issued_fill_indices [of "MatchTicketRegistry source" ops] by auto
  moreover have "mset (map fst ?accepted) \<subseteq># mset (map fst ?issued)"
    using image_mset_subseteq_mono [OF sub, of fst] by simp
  ultimately show "distinct (map fst ?accepted)" by (rule distinct_mset_subset)
qed

theorem tickets_accepted_at_most_once_witness:
  "let ops = [Inr (IssueOp (MatchId 1) (PlayerId 1) 1000),
       Inl ((sample_ticket 0, MatchId 1, PlayerId 1), 2000), Inl ((sample_ticket 0, MatchId 1, PlayerId 1), 2000),
       Inr (IssueOp (MatchId 1) (PlayerId 1) 3000), Inl ((sample_ticket 1, MatchId 1, PlayerId 1), 4000)];
     accepted = accepted_keys registry_accepts registry_other ops (MatchTicketRegistry (tg_source sample_registry))
   in distinct (map fst accepted) \<and> map fst accepted = [sample_ticket 0, sample_ticket 1]"
  unfolding Let_def
proof (rule conjI)
  have fill: "i = j" if "tg_source sample_registry i = tg_source sample_registry j" "tg_source sample_registry i \<noteq> None" for i j
  proof -
    have "i < 10" "j < 10" "(of_nat i :: byte) = of_nat j"
      using that by (auto simp: sample_registry_def sample_ticket_def split: if_splits)
    then have "unat (of_nat i :: byte) = unat (of_nat j :: byte)" by simp
    with \<open>i < 10\<close> \<open>j < 10\<close> show ?thesis by (simp add: unat_of_nat)
  qed
  show "distinct (map fst (accepted_keys registry_accepts registry_other [Inr (IssueOp (MatchId 1) (PlayerId 1) 1000),
       Inl ((sample_ticket 0, MatchId 1, PlayerId 1), 2000), Inl ((sample_ticket 0, MatchId 1, PlayerId 1), 2000),
       Inr (IssueOp (MatchId 1) (PlayerId 1) 3000), Inl ((sample_ticket 1, MatchId 1, PlayerId 1), 4000)]
      (MatchTicketRegistry (tg_source sample_registry))))"
    by (rule tickets_accepted_at_most_once [THEN conjunct2, THEN mp]) (use fill in blast)
qed code_simp

section \<open>The wire\<close>

text \<open>A message whose payload is at most 65524 bytes is framed into twelve header bytes and
  the payload, and the receiver's decoder of those twelve bytes gives back type and length.\<close>

theorem tcp_frame_roundtrip:
  assumes "length (em_payload m) \<le> MaxTcpPayloadBytes"
  shows "\<exists>frame. EncodeTcpFrame m = Inr frame
    \<and> DecodeTcpFrameHeader (take TcpFrameHeaderBytes frame) =
        Inr \<lparr>th_version = ProtocolVersion, th_type = em_type m,
             th_payloadBytes = of_nat (length (em_payload m))\<rparr>
    \<and> drop TcpFrameHeaderBytes frame = em_payload m
    \<and> length frame \<le> MaxTcpFrameBytes"
proof -
  have "MaxTcpPayloadBytes < 2 ^ 32"
    by (simp add: MaxTcpPayloadBytes_def MaxTcpFrameBytes_def TcpFrameHeaderBytes_def)
  with assms have "unat (of_nat (length (em_payload m)) :: u32) \<le> MaxTcpPayloadBytes"
    by (simp add: unat_of_nat)
  with assms show ?thesis
    by (simp add: EncodeTcpFrame_iff DecodeTcpFrameHeader_frame_header TcpFrameHeaderBytes_def
        MaxTcpPayloadBytes_def MaxTcpFrameBytes_def)
qed

theorem tcp_frame_roundtrip_witness:
  "\<exists>frame. EncodeTcpFrame \<lparr>em_type = MT_ClientHello, em_payload = [1, 0, 0, 0]\<rparr> = Inr frame
    \<and> drop TcpFrameHeaderBytes frame = [1, 0, 0, 0] \<and> length frame \<le> MaxTcpFrameBytes"
proof -
  have "length (em_payload \<lparr>em_type = MT_ClientHello, em_payload = [1, 0, 0, 0]\<rparr>) \<le> MaxTcpPayloadBytes"
    by (simp add: MaxTcpPayloadBytes_def MaxTcpFrameBytes_def TcpFrameHeaderBytes_def)
  from tcp_frame_roundtrip [OF this] obtain frame where
    "EncodeTcpFrame \<lparr>em_type = MT_ClientHello, em_payload = [1, 0, 0, 0]\<rparr> = Inr frame"
    "drop TcpFrameHeaderBytes frame = [1, 0, 0, 0]" "length frame \<le> MaxTcpFrameBytes" by auto
  then show ?thesis by (intro exI [of _ frame] conjI)
qed

text \<open>The header decoder accepts only what the encoder writes: if it accepts twelve bytes,
  they followed by any payload of the announced length are the frame of that message.\<close>

theorem tcp_header_strict:
  assumes "DecodeTcpFrameHeader bytes = Inr h" and "length payload = unat (th_payloadBytes h)"
  shows "EncodeTcpFrame \<lparr>em_type = th_type h, em_payload = payload\<rparr> = Inr (bytes @ payload)"
  using DecodeTcpFrameHeader_InrD [OF assms(1)] assms(2) by (auto simp: EncodeTcpFrame_iff)

theorem tcp_header_strict_witness:
  "EncodeTcpFrame \<lparr>em_type = MT_ClientHello, em_payload = [9]\<rparr> = Inr (frame_header MT_ClientHello 1 @ [9])"
proof -
  have "DecodeTcpFrameHeader (frame_header MT_ClientHello 1) =
      Inr \<lparr>th_version = ProtocolVersion, th_type = MT_ClientHello, th_payloadBytes = 1\<rparr>"
    by (rule DecodeTcpFrameHeader_frame_header)
       (simp add: MaxTcpPayloadBytes_def MaxTcpFrameBytes_def TcpFrameHeaderBytes_def)
  from tcp_header_strict [OF this, of "[9]"] show ?thesis by simp
qed

text \<open>C15: the lobby's decoder of client messages accepts exactly the bytes that the client's
  encoder produces, and recovers the message.\<close>

theorem client_codec_exact:
  "DecodeClientMessage t bytes = Inr m \<longleftrightarrow>
     EncodeClientMessage m = Inr \<lparr>em_type = t, em_payload = bytes\<rparr>"
  using client_codec.encode_decode [of "\<lparr>em_type = t, em_payload = bytes\<rparr>" m]
    client_codec.decode_encode [of m "\<lparr>em_type = t, em_payload = bytes\<rparr>"] by auto

text \<open>The lobby's encoder throws exactly on room lists and snapshots beyond the protocol's
  limits and on invalid tickets; otherwise the client's decoder recovers the message with its
  lists sorted.\<close>

theorem server_codec_roundtrip:
  assumes "server_wf m"
  shows "if encodable m
    then \<exists>e. EncodeServerMessage m = Inr e
           \<and> DecodeServerMessage (em_type e) (em_payload e) = Inr (canon_server m)
    else EncodeServerMessage m = Inl Invalid_argument"
proof (cases "encodable m")
  case True
  then obtain e where "EncodeServerMessage m = Inr e" using EncodeServerMessage_total_iff by blast
  with True server_codec.decode_encode [OF assms this] show ?thesis by simp
next
  case False
  then obtain x where "EncodeServerMessage m = Inl x"
    using EncodeServerMessage_total_iff by (cases "EncodeServerMessage m") auto
  with False EncodeServerMessage_throws show ?thesis by auto
qed

theorem server_codec_roundtrip_witness:
  "\<exists>e. EncodeServerMessage (RoomListResponse 7
      [\<lparr>rs_room = RoomId 2, rs_players = 3, rs_capacity = 24\<rparr>,
       \<lparr>rs_room = RoomId 1, rs_players = 24, rs_capacity = 24\<rparr>]) = Inr e
    \<and> DecodeServerMessage (em_type e) (em_payload e) = Inr (RoomListResponse 7
      [\<lparr>rs_room = RoomId 1, rs_players = 24, rs_capacity = 24\<rparr>,
       \<lparr>rs_room = RoomId 2, rs_players = 3, rs_capacity = 24\<rparr>])"
proof -
  let ?m = "RoomListResponse 7
      [\<lparr>rs_room = RoomId 2, rs_players = 3, rs_capacity = 24\<rparr>,
       \<lparr>rs_room = RoomId 1, rs_players = 24, rs_capacity = 24\<rparr>]"
  have "canon_server ?m = RoomListResponse 7
      [\<lparr>rs_room = RoomId 1, rs_players = 24, rs_capacity = 24\<rparr>,
       \<lparr>rs_room = RoomId 2, rs_players = 3, rs_capacity = 24\<rparr>]" "encodable ?m" "server_wf ?m"
    by code_simp+
  with server_codec_roundtrip [of ?m] show ?thesis by (simp only: if_True)
qed

text \<open>C16: the checksum of snapshot payloads tells two payloads apart that differ in one byte.\<close>

theorem crc_detects_byte_change:
  "Crc32 (xs @ a # ys) = Crc32 (xs @ b # ys) \<longleftrightarrow> a = b"
  using Crc32_single_byte by blast

section \<open>The workers\<close>

text \<open>C17: whatever sequence of registrations, actions, worker messages, disconnections and
  timeouts reaches the registry, as long as no reservation identifier is asked for twice: each
  reservation's outcome is reported at most once, only if it was asked for, and never while it is
  still awaited; every reservation asked for is reported, called off or still awaited.\<close>

theorem reservations_settled_once:
  assumes "registry_run WorkerRegistry es = (results, s)" and "distinct (concat (map asked es))"
  shows "distinct (concat (map outcomes results))
    \<and> set (concat (map outcomes results)) \<subseteq> set (concat (map asked es))
    \<and> set (concat (map outcomes results)) \<inter> awaiting (map_of (wg_workers s)) = {}
    \<and> set (concat (map asked es)) \<subseteq> set (concat (map outcomes results))
        \<union> set (concat (map called_off es)) \<union> awaiting (map_of (wg_workers s))"
  using registry_run_audited [OF assms] by (simp add: audited_inv_def)

theorem reservations_settled_once_witness:
  "ReservationId 1 \<in> awaiting (map_of (wg_workers sample_workers))"
proof -
  obtain results s where run: "registry_run WorkerRegistry sample_requests = (results, s)"
    by (cases "registry_run WorkerRegistry sample_requests")
  have "concat (map asked sample_requests) = [ReservationId 1]" by code_simp
  moreover have "concat (map outcomes (fst (registry_run WorkerRegistry sample_requests))) = []" by code_simp
  moreover have "concat (map called_off sample_requests) = []" by code_simp
  ultimately show ?thesis
    using reservations_settled_once [OF run] run by (simp add: sample_workers_def)
qed

text \<open>C18: as long as no reservation identifier is asked for twice, which the lobby's counter ensures,
  a reservation that the registry accepts is awaited and has a timer of two seconds; and whatever
  happens in between, if it is still awaited when the timer fires, the lobby is told
  that it failed, the worker's connection is closed, and it is no longer awaited.\<close>

theorem awaited_reservation_times_out:
  assumes "registry_run WorkerRegistry es = (results, s)" and "distinct (concat (map asked es))"
  shows "(gr_accepted (fst (registry_Execute (ReserveMatchAction a) now s)) \<longrightarrow>
      gr_timers (fst (registry_Execute (ReserveMatchAction a) now s)) =
        [\<lparr>td_kind = StartTimer, td_reservation = ra_reservation a,
          td_duration = 2 * nanoseconds_per_second\<rparr>]
      \<and> ra_reservation a \<in> awaiting (map_of (wg_workers (snd (registry_Execute (ReserveMatchAction a) now s)))))
    \<and> (r \<in> awaiting (map_of (wg_workers s)) \<longrightarrow>
      (\<exists>c m. fst (registry_Timeout r s) =
          \<lparr>gr_accepted = True, gr_outbound = [], gr_events = [ReservationFailedEvent r m],
           gr_timers = [], gr_closeConnections = [c]\<rparr>
        \<and> r \<notin> awaiting (map_of (wg_workers (snd (registry_Timeout r s))))))"
proof -
  have inv: "registry_inv s" using registry_run_audited [OF assms] by (simp add: audited_inv_def)
  show ?thesis
    using execute_reserve_awaits [of a now s] registry_Timeout_awaiting [OF inv, of r]
    by (simp add: reservation_timer_def)
qed

theorem awaited_reservation_times_out_witness:
  "\<exists>c m. gr_events (fst (registry_Timeout (ReservationId 1) sample_workers)) =
       [ReservationFailedEvent (ReservationId 1) m]
     \<and> gr_closeConnections (fst (registry_Timeout (ReservationId 1) sample_workers)) = [c]"
proof -
  obtain results where run: "registry_run WorkerRegistry sample_requests = (results, sample_workers)"
    by (cases "registry_run WorkerRegistry sample_requests") (simp add: sample_workers_def)
  have "distinct (concat (map asked sample_requests))" by code_simp
  moreover have "ReservationId 1 \<in> awaiting (map_of (wg_workers sample_workers))"
  proof -
    have "map_of (wg_workers sample_workers) (WorkerId 5) =
        Some \<lparr>wk_connection = sample_worker, wk_registration = sample_registration, wk_state = Reserved,
          wk_reservation = Some (ReservationId 1), wk_match = Some (MatchId 1)\<rparr>" by code_simp
    then show ?thesis by (rule awaitingI) (simp add: waits_for_def)
  qed
  ultimately show ?thesis
    using awaited_reservation_times_out [OF run, where r = "ReservationId 1"] by fastforce
qed

text \<open>C19: when the lobby starts a match and the registry accepts its action, the message to the
  worker encodes and is decoded there; the worker's ticket store and roster take what it holds;
  there, a participant's ticket is good exactly for that player and match, for the lifetime the
  message gives; and that lifetime ends no later than a minute after the tickets were issued.\<close>

theorem reservation_reaches_worker:
  assumes "lobby_reachable s" and "HandleStartMatch c p q now s = Inr (s', result)"
    and "ReserveMatchAction a \<in> set (sr_actions result)"
    and "gr_accepted (fst (registry_Execute (ReserveMatchAction a) now' g))"
  shows "\<exists>w m e v st slots.
    gr_outbound (fst (registry_Execute (ReserveMatchAction a) now' g)) = [\<lparr>co_recipient = w, co_message = m\<rparr>]
    \<and> EncodeLobbyToWorkerMessage m = Inr e
    \<and> DecodeLobbyToWorkerMessage (em_type e) (em_payload e) = Inr (ReserveMatch v)
    \<and> store_Load (rm_match v) (rm_participants v) t (uint (rm_ticketLifetimeMilliseconds v)) GameTicketStore = Inr st
    \<and> (\<forall>x \<in> set (ra_participants a). \<forall>n p' t'.
         fst (store_Consume (rp_ticket x) n p' t' st) = Accepted \<longleftrightarrow> n = ra_match a \<and> p' = rp_player x
           \<and> t' < t + uint (rm_ticketLifetimeMilliseconds v) * nanoseconds_per_millisecond)
    \<and> now' + uint (rm_ticketLifetimeMilliseconds v) * nanoseconds_per_millisecond
        \<le> ra_issuedAt a + 60 * nanoseconds_per_second
    \<and> ParticipantRoster (map rp_player (rm_participants v)) = Inr slots
    \<and> map ps_player slots = sort (map rp_player (ra_participants a))"
proof -
  have ok: "handover_ok a" by (rule started_handover_ok [OF lobby_reachable_inv [OF assms(1)] assms(2,3)])
  from execute_reserve_accepted [of a now' g] assms(4) obtain w where can: "can_reserve a now' g"
    and out: "gr_outbound (fst (execute_reserve a now' g)) =
      [\<lparr>co_recipient = w, co_message = reserve_message a now'\<rparr>]" by auto
  note life = handed_over_lifetime [OF can]
  have pos: "0 < remaining_lifetime a now'" using can by (simp add: can_reserve_def)
  from reserve_message_arrives [OF ok can] handed_over_loads [OF ok pos, of now' t] handed_over_roster [OF ok, of now']
  obtain e st slots where "EncodeLobbyToWorkerMessage (reserve_message a now') = Inr e"
      "DecodeLobbyToWorkerMessage (em_type e) (em_payload e) = Inr (ReserveMatch (handed_over a now'))"
      "store_Load (ra_match a) (rm_participants (handed_over a now')) t (remaining_lifetime a now') GameTicketStore = Inr st"
      "\<forall>x \<in> set (ra_participants a). \<forall>n p' t'.
         fst (store_Consume (rp_ticket x) n p' t' st) = Accepted \<longleftrightarrow> n = ra_match a \<and> p' = rp_player x
           \<and> t' < t + remaining_lifetime a now' * nanoseconds_per_millisecond"
      "ParticipantRoster (map rp_player (rm_participants (handed_over a now'))) = Inr slots"
      "map ps_player slots = sort (map rp_player (ra_participants a))"
    by blast
  moreover have "rm_match (handed_over a now') = ra_match a" by (simp add: handed_over_def)
  ultimately show ?thesis
    using out remaining_lifetime_bound [OF pos]
    by (intro exI [of _ w] exI [of _ "reserve_message a now'"] exI [of _ e] exI [of _ "handed_over a now'"]
          exI [of _ st] exI [of _ slots])
       (simp add: life MatchTicketLifetimeSeconds_def)
qed

theorem reservation_reaches_worker_witness:
  "\<exists>w m e v st slots.
    gr_outbound (fst (registry_Execute (ReserveMatchAction sample_action) 2000 (snd (registry_run WorkerRegistry (take 1 sample_requests))))) = [\<lparr>co_recipient = w, co_message = m\<rparr>]
    \<and> EncodeLobbyToWorkerMessage m = Inr e
    \<and> DecodeLobbyToWorkerMessage (em_type e) (em_payload e) = Inr (ReserveMatch v)
    \<and> store_Load (rm_match v) (rm_participants v) 3000 (uint (rm_ticketLifetimeMilliseconds v)) GameTicketStore = Inr st
    \<and> ParticipantRoster (map rp_player (rm_participants v)) = Inr slots"
proof -
  let ?h = "HandleStartMatch (ConnectionId 1) (PlayerId 1) 4 1000 (lobby_after 8)"
  have "map_sum id (\<lambda>(s, r). sr_actions r) ?h = Inr [ReserveMatchAction sample_action]" by code_simp
  then obtain s' result where h: "?h = Inr (s', result)" "sr_actions result = [ReserveMatchAction sample_action]"
    by (cases ?h) auto
  have a: "ReserveMatchAction sample_action \<in> set (sr_actions result)" by (simp add: h(2))
  have "gr_accepted (fst (registry_Execute (ReserveMatchAction sample_action) 2000
      (snd (registry_run WorkerRegistry (take 1 sample_requests)))))" by code_simp
  from reservation_reaches_worker [OF lobby_after_reachable h(1) a this, of 3000] show ?thesis
    by (elim exE conjE) (intro exI conjI; assumption)
qed

text \<open>The lobby's decoder accepts from a worker exactly the bytes that the worker's encoder
  writes for a message in canonical form (a completion without a winner names none); and what
  the lobby's encoder writes for a worker, the worker's decoder reads back, with the participants
  of a reservation in the order of their players.\<close>

theorem worker_codec_exact:
  "(DecodeWorkerToLobbyMessage t payload = Inr m \<longleftrightarrow>
      EncodeWorkerToLobbyMessage m = Inr \<lparr>em_type = t, em_payload = payload\<rparr> \<and> canon_worker m = m)
   \<and> (to_worker_wf v \<and> to_worker_encodable v \<longrightarrow>
      (\<exists>e. EncodeLobbyToWorkerMessage v = Inr e
        \<and> DecodeLobbyToWorkerMessage (em_type e) (em_payload e) = Inr (canon_to_worker v)))"
proof -
  have "EncodeWorkerToLobbyMessage m = Inr \<lparr>em_type = t, em_payload = payload\<rparr>
      \<Longrightarrow> DecodeWorkerToLobbyMessage t payload = Inr (canon_worker m)"
    using DecodeWorkerToLobbyMessage_Encode [of m "\<lparr>em_type = t, em_payload = payload\<rparr>"] by simp
  moreover have "DecodeWorkerToLobbyMessage t payload = Inr m
      \<Longrightarrow> EncodeWorkerToLobbyMessage m = Inr \<lparr>em_type = t, em_payload = payload\<rparr>"
    by (rule EncodeWorkerToLobbyMessage_Decode)
  ultimately have "DecodeWorkerToLobbyMessage t payload = Inr m \<longleftrightarrow>
      EncodeWorkerToLobbyMessage m = Inr \<lparr>em_type = t, em_payload = payload\<rparr> \<and> canon_worker m = m"
    by auto
  then show ?thesis
    using EncodeLobbyToWorkerMessage_total_iff [of v] DecodeLobbyToWorkerMessage_Encode [of v] by blast
qed

theorem worker_codec_exact_witness:
  "\<exists>e. EncodeLobbyToWorkerMessage (ReserveMatch sample_reservation) = Inr e
     \<and> DecodeLobbyToWorkerMessage (em_type e) (em_payload e) =
         Inr (canon_to_worker (ReserveMatch sample_reservation))"
proof -
  have "to_worker_wf (ReserveMatch sample_reservation) \<and> to_worker_encodable (ReserveMatch sample_reservation)"
    by (simp add: sample_reservation_def sample_ticket_def opaque_wf_def MatchTicketBytes_def
      reservation_ok_def RoomCapacity_def)
  then show ?thesis by (rule mp [OF conjunct2 [OF worker_codec_exact]])
qed

section \<open>The match server\<close>

text \<open>C28: once a worker has loaded the tickets of a match, in any sequence of consume attempts
  and purges no ticket is accepted twice.\<close>

theorem game_ticket_accepted_once:
  assumes "store_Load m ps now lifetime GameTicketStore = Inr st"
  shows "distinct (accepted_keys store_accepts store_purged ops st)"
  by (rule game_ledger.accepted_at_most_once) (rule store_Load_wf(1) [OF assms])

theorem game_ticket_accepted_once_witness:
  "\<exists>st. store_Load (MatchId 1) (ra_participants sample_action) 0 60000 GameTicketStore = Inr st
   \<and> accepted_keys store_accepts store_purged
       [Inl (sample_ticket 0, (MatchId 1, PlayerId 1, 5)), Inr 6,
        Inl (sample_ticket 0, (MatchId 1, PlayerId 1, 7))] st = [sample_ticket 0]
   \<and> distinct (accepted_keys store_accepts store_purged
       [Inl (sample_ticket 0, (MatchId 1, PlayerId 1, 5)), Inr 6,
        Inl (sample_ticket 0, (MatchId 1, PlayerId 1, 7))] st)"
proof -
  let ?ops = "[Inl (sample_ticket 0, (MatchId 1, PlayerId 1, 5)), Inr 6,
        Inl (sample_ticket 0, (MatchId 1, PlayerId 1, 7))]"
  let ?load = "store_Load (MatchId 1) (ra_participants sample_action) 0 60000 GameTicketStore"
  have "(case ?load of Inl _ \<Rightarrow> False
      | Inr st \<Rightarrow> accepted_keys store_accepts store_purged ?ops st = [sample_ticket 0])" by code_simp
  then obtain st where st: "?load = Inr st"
    "accepted_keys store_accepts store_purged ?ops st = [sample_ticket 0]" by (auto split: sum.splits)
  with game_ticket_accepted_once [OF st(1), of ?ops] show ?thesis by blast
qed

text \<open>C29: a roster that is made of a match's players stays well formed under every sequence of
  authentications and departures: the same players in strictly ascending order, at most 24 of
  them, each with the actor of its position; exactly the authenticated ones have a connection and
  a token, and no connection is in two slots.\<close>

theorem roster_stays_wellformed:
  assumes "ParticipantRoster players = Inr slots" and "slots' = fold roster_step ops slots"
  shows "map ps_player slots' = sort players \<and> sorted_wrt (<) (map ps_player slots')
    \<and> length slots' \<le> RoomCapacity
    \<and> (\<forall>i < length slots'. ps_actor (slots' ! i) = EntityId (of_nat i))
    \<and> (\<forall>slot \<in> set slots'. (ps_state slot = Authenticated) = (ps_connection slot \<noteq> None)
         \<and> (ps_state slot = Authenticated) = (ps_udpToken slot \<noteq> None))
    \<and> (\<forall>i < length slots'. \<forall>j < length slots'. ps_connection (slots' ! i) \<noteq> None
         \<longrightarrow> ps_connection (slots' ! i) = ps_connection (slots' ! j) \<longrightarrow> i = j)"
proof -
  have "roster_wf slots'" "map ps_player slots' = sort players"
    using roster_steps_wf [OF roster_wf_new(1) [OF assms(1)], of ops] roster_wf_new(2) [OF assms(1)]
    by (simp_all add: assms(2))
  then show ?thesis unfolding roster_wf_def by blast
qed

theorem roster_stays_wellformed_witness:
  "\<exists>slots. ParticipantRoster [PlayerId 9, PlayerId 4] = Inr slots
    \<and> map ps_player (fold roster_step [Authenticating (PlayerId 9) (Ident 1) (Ident []),
         Authenticating (PlayerId 4) (Ident 1) (Ident []), Dropping (PlayerId 9)] slots) = [PlayerId 4, PlayerId 9]"
proof -
  obtain slots where s: "ParticipantRoster [PlayerId 9, PlayerId 4] = Inr slots"
    by (simp add: ParticipantRoster_def RoomCapacity_def)
  have "sort [PlayerId 9, PlayerId 4] = [PlayerId 4, PlayerId 9]" by code_simp
  with s roster_stays_wellformed [OF s refl, of "[Authenticating (PlayerId 9) (Ident 1) (Ident []),
         Authenticating (PlayerId 4) (Ident 1) (Ident []), Dropping (PlayerId 9)]"]
  show ?thesis by simp
qed

text \<open>In a roster of a match, whatever has happened to it, the actor recorded for a player
  leads back to that player and to no other, for every player and actor identifier.\<close>

theorem roster_players_actors:
  assumes "ParticipantRoster players = Inr slots"
  shows "ActorFor (fold roster_step ops slots) player = Inr actor \<longleftrightarrow>
    PlayerFor (fold roster_step ops slots) actor = Inr player"
  by (rule ActorFor_PlayerFor)
    (use roster_steps_wf [OF roster_wf_new(1) [OF assms]] in blast)

theorem roster_players_actors_witness:
  "\<exists>slots. ParticipantRoster [PlayerId 9, PlayerId 4] = Inr slots
    \<and> PlayerFor slots (EntityId 1) = Inr (PlayerId 9)"
proof -
  have "(case ParticipantRoster [PlayerId 9, PlayerId 4] of Inl _ \<Rightarrow> False
      | Inr slots \<Rightarrow> ActorFor slots (PlayerId 9) = Inr (EntityId 1))" by code_simp
  then obtain slots where s: "ParticipantRoster [PlayerId 9, PlayerId 4] = Inr slots"
    "ActorFor slots (PlayerId 9) = Inr (EntityId 1)" by (auto split: sum.splits)
  with roster_players_actors [OF s(1), of "[]"] show ?thesis by simp
qed

text \<open>C30: the offset of a tick is exact: tick n is due n seconds divided by the tick rate after
  the epoch, rounded down to nanoseconds, with no drift and no product that wraps around, for
  every offset of less than 9223372036 seconds, and it fits a signed 64-bit number.\<close>

theorem tick_deadlines_exact:
  assumes "FixedTickScheduler rate maximum = Inr s" and "unat n div unat rate < 9223372036"
  shows "\<exists>offset. OffsetFor s n = Inr offset \<and> offset = (int (unat n) * 1000000000) div uint rate
    \<and> 0 \<le> offset \<and> offset < 2 ^ 63"
proof -
  have "fs_tickRate s = rate" "0 < rate"
    using assms(1) by (auto simp: FixedTickScheduler_def word_gt_0 split: if_splits)
  then show ?thesis
    using OffsetFor_total [of s n] tick_offset_fits [of rate "unat n"] assms(2)
    by (simp add: tick_offset_def)
qed

theorem tick_deadlines_exact_witness:
  "\<exists>s. FixedTickScheduler 30 5 = Inr s \<and> OffsetFor s 100 = Inr 3333333333"
proof -
  obtain s where s: "FixedTickScheduler 30 5 = Inr s" by (simp add: FixedTickScheduler_def)
  with tick_deadlines_exact [OF s, of 100] show ?thesis by simp
qed

text \<open>C31: for every rate and catch-up limit that the constructor accepts, advancing a started
  scheduler returns: it counts exactly the deadlines that have passed, up to the limit, and starts
  over at the present exactly if it has reached the limit and is still behind. Afterwards its next
  deadline lies in the future if it did not start over, and one period after the present if it did:
  that is in the future too for rates of at most one tick in a nanosecond, and the present itself
  for higher ones. This holds as long as the epoch is not negative, the ordinals and the deadlines
  up to the limit, and one period after the present, fit their 64-bit numbers; the next deadline
  fits as well.\<close>

theorem scheduler_catches_up:
  assumes "0 < fs_tickRate s" and "0 < fs_maximumCatchUpTicks s" and "fs_epoch s = Some epoch"
    and "0 \<le> epoch"
    and "epoch + tick_offset (fs_tickRate s)
      (unat (fs_nextOrdinal s) + unat (fs_maximumCatchUpTicks s)) < 2 ^ 63"
    and "unat (fs_nextOrdinal s) + unat (fs_maximumCatchUpTicks s) < 2 ^ 64 - 1"
    and "now + tick_offset (fs_tickRate s) 1 < 2 ^ 63"
  shows "\<exists>result s' deadline. scheduler_Advance now s = Inr (result, s')
    \<and> ta_ticksDue result \<le> fs_maximumCatchUpTicks s
    \<and> (\<forall>i < unat (ta_ticksDue result).
         epoch + tick_offset (fs_tickRate s) (unat (fs_nextOrdinal s) + i) \<le> now)
    \<and> (ta_ticksDue result < fs_maximumCatchUpTicks s \<longrightarrow>
         now < epoch + tick_offset (fs_tickRate s) (unat (fs_nextOrdinal s) + unat (ta_ticksDue result)))
    \<and> (ta_rebased result \<longleftrightarrow> ta_ticksDue result = fs_maximumCatchUpTicks s
         \<and> epoch + tick_offset (fs_tickRate s)
             (unat (fs_nextOrdinal s) + unat (fs_maximumCatchUpTicks s)) \<le> now)
    \<and> NextDeadline s' = Inr deadline \<and> deadline < 2 ^ 63
    \<and> (if ta_rebased result then deadline = now + tick_offset (fs_tickRate s) 1 else now < deadline)
    \<and> now \<le> deadline \<and> (fs_tickRate s \<le> 1000000000 \<longrightarrow> now < deadline)"
proof -
  let ?rate = "fs_tickRate s" and ?max = "fs_maximumCatchUpTicks s" and ?n = "unat (fs_nextOrdinal s)"
  have ok: "scheduler_ok s" using assms(1,2) by (simp add: scheduler_ok_def)
  note room = deadlines_exist_fits [OF assms(1,5,4,6)]
  obtain result s' where adv: "scheduler_Advance now s = Inr (result, s')"
    and c: "counts_due s epoch now (unat ?max) (unat (ta_ticksDue result))"
    and rebased: "ta_rebased result \<longleftrightarrow> unat (ta_ticksDue result) = unat ?max
        \<and> epoch + tick_offset ?rate (?n + unat (ta_ticksDue result)) \<le> now"
    using Advance_spec [OF ok assms(3) room, of now] by (auto split: if_splits)
  note next_deadline = Advance_next_deadline [OF ok assms(3) room adv]
  have "tick_offset ?rate (?n + unat (ta_ticksDue result)) \<le> tick_offset ?rate (?n + unat ?max)"
    using c by (intro tick_offset_mono) (simp add: counts_due_def)
  with assms(5) have "epoch + tick_offset ?rate (?n + unat (ta_ticksDue result)) < 2 ^ 63" by linarith
  with adv c rebased next_deadline assms(7) tick_offset_one [OF assms(1)] show ?thesis
    by (intro exI [of _ result] exI [of _ s'])
       (auto simp: counts_due_def word_less_nat_alt word_le_nat_alt word_unat_eq_iff)
qed

theorem scheduler_catches_up_witness:
  "\<exists>result s' deadline. scheduler_Advance 1000000000
      \<lparr>fs_tickRate = 30, fs_maximumCatchUpTicks = 5, fs_epoch = Some 0, fs_nextOrdinal = 1\<rparr>
      = Inr (result, s') \<and> NextDeadline s' = Inr deadline \<and> 1000000000 < deadline"
  using scheduler_catches_up [of "\<lparr>fs_tickRate = 30, fs_maximumCatchUpTicks = 5, fs_epoch = Some 0,
    fs_nextOrdinal = 1\<rparr>" 0 1000000000] by (auto simp: tick_offset_def)

section \<open>Datagrams and snapshots\<close>

text \<open>C32: the datagram decoders accept exactly what the encoders write: a datagram from the
  server is accepted if and only if it is the encoding of the message it is read as, and one from
  a client if and only if it is the encoding of a message whose absent fields have their default
  values.\<close>

theorem datagrams_strict:
  "(DecodeServerDatagram bytes = Inr d \<longleftrightarrow>
      (\<exists>e. EncodeServerDatagram d = Inr e \<and> ed_bytes e = bytes))
   \<and> (DecodeClientDatagram bytes = Inr c \<longleftrightarrow>
      client_datagram_wf c \<and> canon_client_datagram c = c
      \<and> (\<exists>e. EncodeClientDatagram c = Inr e \<and> ed_bytes e = bytes))"
proof (rule conjI)
  have server: "(\<exists>e. EncodeServerDatagram d = Inr e \<and> ed_bytes e = bytes)
      \<longleftrightarrow> server_datagram_bytes d = Inr bytes"
    by (cases "EncodeServerDatagram d") (simp_all add: server_datagram_bytes_def)
  show "DecodeServerDatagram bytes = Inr d \<longleftrightarrow>
      (\<exists>e. EncodeServerDatagram d = Inr e \<and> ed_bytes e = bytes)"
    unfolding server using DecodeServerDatagram_Encode EncodeServerDatagram_Decode by blast
  have client: "(\<exists>e. EncodeClientDatagram c = Inr e \<and> ed_bytes e = bytes)
      \<longleftrightarrow> client_datagram_bytes c = Inr bytes"
    by (cases "EncodeClientDatagram c") (simp_all add: client_datagram_bytes_def)
  show "DecodeClientDatagram bytes = Inr c \<longleftrightarrow> client_datagram_wf c \<and> canon_client_datagram c = c
      \<and> (\<exists>e. EncodeClientDatagram c = Inr e \<and> ed_bytes e = bytes)"
    unfolding client using DecodeClientDatagram_Encode [of c bytes] EncodeClientDatagram_Decode [of bytes c]
    by auto
qed

text \<open>C33: cutting a snapshot throws exactly on an empty payload, a zero identifier or more than
  37056 bytes; otherwise it gives at most 32 fragments whose bytes make up the payload, and each
  of them encodes to a datagram of at most 1200 bytes that decodes to the fragment.\<close>

theorem fragments_fit:
  "case FragmentSnapshot m snapshot tick ack p of
     Inl e \<Rightarrow> snapshot = 0 \<or> p = [] \<or> MaxSnapshotPayloadBytes < length p
   | Inr fs \<Rightarrow> snapshot \<noteq> 0 \<and> p \<noteq> [] \<and> length p \<le> MaxSnapshotPayloadBytes
       \<and> length fs \<le> MaxSnapshotFragments \<and> concat (map sf_bytes fs) = p
       \<and> list_all (\<lambda>f. \<exists>e. EncodeServerDatagram (SnapshotFragment f) = Inr e
            \<and> length (ed_bytes e) \<le> MaxUdpDatagramBytes
            \<and> DecodeServerDatagram (ed_bytes e) = Inr (SnapshotFragment f)) fs"
proof (cases "FragmentSnapshot m snapshot tick ack p")
  case (Inl e)
  then show ?thesis by (auto simp: FragmentSnapshot_def split: if_splits)
next
  case (Inr fs)
  then have p: "snapshot \<noteq> 0" "p \<noteq> []" "length p \<le> 37056"
    and fs: "fs = map (fragment_at m snapshot tick ack p) [0..<ExpectedFragmentCount (length p)]"
    by (simp_all add: FragmentSnapshot_Inr)
  have "length fs \<le> MaxSnapshotFragments"
    using ExpectedFragmentCount_bound [OF p(3)] by (simp add: fs MaxSnapshotFragments_def)
  moreover have "concat (map sf_bytes fs) = p"
    using fragments_concat [of m snapshot tick ack p] by (simp add: fs comp_def)
  moreover have "\<forall>f \<in> set fs. IsValidFragment f"
    using fragment_at_valid [OF p(1,3)] by (auto simp: fs)
  then have "list_all (\<lambda>f. \<exists>e. EncodeServerDatagram (SnapshotFragment f) = Inr e
      \<and> length (ed_bytes e) \<le> MaxUdpDatagramBytes
      \<and> DecodeServerDatagram (ed_bytes e) = Inr (SnapshotFragment f)) fs"
    using fragment_datagram by (simp add: list_all_iff)
  ultimately show ?thesis using Inr p by (simp add: MaxSnapshotPayloadBytes_def)
qed

text \<open>C34: whatever order the fragments of a snapshot arrive in, with whatever repetitions, a
  reassembler that has seen only older snapshots delivers the snapshot exactly once if all
  fragments arrive, with its bytes, and delivers nothing otherwise.\<close>

theorem snapshot_any_order:
  assumes "FragmentSnapshot m snapshot tick ack p = Inr fs" and "set gs \<subseteq> set fs"
    and "case re_highestSnapshotId s of None \<Rightarrow> True | Some highest \<Rightarrow> highest < snapshot"
  shows "fst (push_all gs s) =
    (if set fs \<subseteq> set gs
     then [\<lparr>rd_snapshotId = snapshot, rd_serverTick = tick, rd_ackInputSequence = ack, rd_bytes = p\<rparr>]
     else [])"
  by (rule push_all_fragments [OF assms])

theorem snapshot_any_order_witness:
  "\<exists>fs. FragmentSnapshot (MatchId 1) 7 30 2 [1, 2, 3] = Inr fs
    \<and> fst (push_all (fs @ fs) SnapshotReassembler) =
        [\<lparr>rd_snapshotId = 7, rd_serverTick = 30, rd_ackInputSequence = 2, rd_bytes = [1, 2, 3]\<rparr>]"
proof -
  obtain fs where fs: "FragmentSnapshot (MatchId 1) 7 30 2 [1, 2, 3] = Inr fs"
    by (simp add: FragmentSnapshot_Inr)
  from snapshot_any_order [OF this, of "fs @ fs" SnapshotReassembler] show ?thesis
    by (simp add: fs SnapshotReassembler_def)
qed

text \<open>C35: whatever fragments a client receives, valid or not, its reassembler delivers snapshots
  with strictly increasing identifiers, each with the tick and the acknowledgement of a received
  fragment and with bytes of the length and checksum that fragment announces.\<close>

theorem snapshots_only_forward:
  assumes "push_all fs SnapshotReassembler = (ds, s')"
  shows "sorted_wrt (<) (map rd_snapshotId ds)
    \<and> (\<forall>d \<in> set ds. \<exists>f \<in> set fs. sf_snapshotId f = rd_snapshotId d \<and> sf_serverTick f = rd_serverTick d
        \<and> sf_ackInputSequence f = rd_ackInputSequence d
        \<and> unat (sf_fullPayloadBytes f) = length (rd_bytes d) \<and> sf_fullPayloadCrc32 f = Crc32 (rd_bytes d))"
proof -
  have "reassembler_inv SnapshotReassembler" by (simp add: reassembler_inv_def SnapshotReassembler_def)
  from push_all_forward [OF this assms] show ?thesis by blast
qed

theorem snapshots_only_forward_witness:
  "fst (push_all (fragments_of 7 [1, 2, 3]) SnapshotReassembler) =
     [\<lparr>rd_snapshotId = 7, rd_serverTick = 30, rd_ackInputSequence = 2, rd_bytes = [1, 2, 3]\<rparr>]
   \<and> (\<exists>f \<in> set (fragments_of 7 [1, 2, 3]). sf_snapshotId f = 7 \<and> unat (sf_fullPayloadBytes f) = 3)"
proof -
  have n: "ExpectedFragmentCount (length ([1, 2, 3] :: byte list)) = 1"
    by (simp add: ExpectedFragmentCount_def MaxSnapshotFragmentPayloadBytes_def)
  then have fs: "fragments_of 7 [1, 2, 3] = map (fragment_at (MatchId 1) 7 30 2 [1, 2, 3]) [0]"
    by (simp add: fragments_of_def FragmentSnapshot_def MaxSnapshotPayloadBytes_def)
  have out: "fst (push_all (fragments_of 7 [1, 2, 3]) SnapshotReassembler) =
      [\<lparr>rd_snapshotId = 7, rd_serverTick = 30, rd_ackInputSequence = 2, rd_bytes = [1, 2, 3]\<rparr>]"
    unfolding fs using n push_all_order [of 7 "[1, 2, 3]" "[0]" SnapshotReassembler "MatchId 1" 30 2]
    by (simp add: newer_def SnapshotReassembler_def delivery_def)
  then obtain s' where "push_all (fragments_of 7 [1, 2, 3]) SnapshotReassembler =
      ([\<lparr>rd_snapshotId = 7, rd_serverTick = 30, rd_ackInputSequence = 2, rd_bytes = [1, 2, 3]\<rparr>], s')"
    by (metis prod.collapse)
  from snapshots_only_forward [OF this] out show ?thesis by (auto simp: numeral_3_eq_3)
qed

section \<open>Game sessions\<close>

text \<open>A session message is accepted exactly when it is what the other side's encoder writes:
  the server reads a client's hello if and only if it is one, and the client reads a server's
  message if and only if it is the encoding of a message in canonical form (a result without a
  winner names none).\<close>

theorem game_session_codec:
  "(DecodeGameClientMessage t payload = Inr h \<longleftrightarrow>
      hello_wf h \<and> EncodeGameClientMessage h = \<lparr>em_type = t, em_payload = payload\<rparr>)
   \<and> (DecodeGameServerMessage t payload = Inr m \<longleftrightarrow>
      game_wf m \<and> canon_game m = m \<and> EncodeGameServerMessage m = Inr \<lparr>em_type = t, em_payload = payload\<rparr>)"
proof (rule conjI)
  show "DecodeGameClientMessage t payload = Inr h \<longleftrightarrow>
      hello_wf h \<and> EncodeGameClientMessage h = \<lparr>em_type = t, em_payload = payload\<rparr>"
    using DecodeGameClientMessage_Encode [of h] EncodeGameClientMessage_Decode [of t payload h] by auto
  have "game_wf m \<Longrightarrow> EncodeGameServerMessage m = Inr \<lparr>em_type = t, em_payload = payload\<rparr>
      \<Longrightarrow> DecodeGameServerMessage t payload = Inr (canon_game m)"
    using DecodeGameServerMessage_Encode [of m "\<lparr>em_type = t, em_payload = payload\<rparr>"] by simp
  then show "DecodeGameServerMessage t payload = Inr m \<longleftrightarrow>
      game_wf m \<and> canon_game m = m \<and> EncodeGameServerMessage m = Inr \<lparr>em_type = t, em_payload = payload\<rparr>"
    using EncodeGameServerMessage_Decode [of t payload m] by auto
qed

section \<open>Delayed datagrams\<close>

text \<open>C36: seen from outside, the queue of a peer is a multiset of waiting datagrams: a datagram
  is added with a delivery time within the configured jitter, or sent at once, or refused, with
  nothing else changed; and the current timer of a peer takes out exactly the datagrams that are
  due and delivers them in the order of their times, while an outdated timer changes nothing. A
  delivery that stops the queue, and nothing else here, stops it: then the rest of what is due is
  not delivered.\<close>

theorem queue_refines_multiset:
  assumes "queue_inv s" and "\<not> dq_stopped s" and "b \<noteq> []"
  shows "(\<exists>result out s'. queue_Enqueue stops now k (Some b) (Some d) s = Inr (result, out, s') \<and> queue_inv s'
      \<and> out = (if result = SentImmediately then [(d, b)] else [])
      \<and> (dq_stopped s' \<longleftrightarrow> result = SentImmediately \<and> stops d)
      \<and> (\<not> dq_stopped s' \<longrightarrow> (\<forall>j. j \<noteq> k \<longrightarrow> waiting s' j = waiting s j)
         \<and> (if result = Queued
            then \<exists>item. qi_bytes item = b \<and> qi_delivery item = d
                \<and> due_within (dq_shaper s) now (qi_deliveryTime item) \<and> now < qi_deliveryTime item
                \<and> waiting s' k = add_mset item (waiting s k)
            else waiting s' k = waiting s k)))
    \<and> (\<exists>out s'. timer_fired stops now k generation False s = (out, s') \<and> queue_inv s'
      \<and> (if (\<exists>peer. map_of (dq_peers s) k = Some peer \<and> pq_timerGeneration peer = generation)
         then \<exists>sent lost. mset (sent @ lost) = filter_mset (\<lambda>item. qi_deliveryTime item \<le> now) (waiting s k)
           \<and> sorted_wrt item_less (sent @ lost) \<and> out = map (\<lambda>item. (qi_delivery item, qi_bytes item)) sent
           \<and> (\<forall>item \<in> set (butlast sent). \<not> stops (qi_delivery item))
           \<and> (dq_stopped s' \<longleftrightarrow> sent \<noteq> [] \<and> stops (qi_delivery (last sent))) \<and> (lost \<noteq> [] \<longrightarrow> dq_stopped s')
           \<and> (\<not> dq_stopped s' \<longrightarrow> (\<forall>j. j \<noteq> k \<longrightarrow> waiting s' j = waiting s j)
                \<and> waiting s' k = filter_mset (\<lambda>item. now < qi_deliveryTime item) (waiting s k))
         else s' = s \<and> out = []))"
proof (rule conjI [OF queue_Enqueue_refines [OF assms]])
  obtain out s' where fired: "timer_fired stops now k generation False s = (out, s')"
    by (cases "timer_fired stops now k generation False s")
  from timer_fired_refines [OF assms(1) fired] show "\<exists>out s'. timer_fired stops now k generation False s = (out, s') \<and> queue_inv s'
      \<and> (if (\<exists>peer. map_of (dq_peers s) k = Some peer \<and> pq_timerGeneration peer = generation)
         then \<exists>sent lost. mset (sent @ lost) = filter_mset (\<lambda>item. qi_deliveryTime item \<le> now) (waiting s k)
           \<and> sorted_wrt item_less (sent @ lost) \<and> out = map (\<lambda>item. (qi_delivery item, qi_bytes item)) sent
           \<and> (\<forall>item \<in> set (butlast sent). \<not> stops (qi_delivery item))
           \<and> (dq_stopped s' \<longleftrightarrow> sent \<noteq> [] \<and> stops (qi_delivery (last sent))) \<and> (lost \<noteq> [] \<longrightarrow> dq_stopped s')
           \<and> (\<not> dq_stopped s' \<longrightarrow> (\<forall>j. j \<noteq> k \<longrightarrow> waiting s' j = waiting s j)
                \<and> waiting s' k = filter_mset (\<lambda>item. now < qi_deliveryTime item) (waiting s k))
         else s' = s \<and> out = [])"
    by (intro exI [of _ out] exI [of _ s']) (rule conjI [OF fired])
qed

theorem queue_refines_multiset_witness:
  "\<exists>s result out s'. UdpDatagramQueue sample_shaping ServerToClient 8 = Inr s
    \<and> queue_Enqueue (\<lambda>d. d = 1) 0 3 (Some [9]) (Some (0::nat)) s = Inr (result, out, s') \<and> queue_inv s'
    \<and> \<not> dq_stopped s'"
proof -
  obtain s :: "nat datagram_queue" where s: "UdpDatagramQueue sample_shaping ServerToClient 8 = Inr s" "\<not> dq_stopped s"
    by (auto simp: UdpDatagramQueue_def DatagramShaper_def sample_shaping_def)
  have "[9] \<noteq> ([] :: byte list)" by simp
  from conjunct1 [OF queue_refines_multiset [OF queue_inv_new [OF s(1)] s(2) this, of "\<lambda>d. d = 1" 0 3 0]]
  obtain result out s' where e: "queue_Enqueue (\<lambda>d. d = 1) 0 3 (Some [9]) (Some (0::nat)) s = Inr (result, out, s')"
    "queue_inv s'" "dq_stopped s' \<longleftrightarrow> result = SentImmediately \<and> (0::nat) = 1"
    by blast
  then have "\<not> dq_stopped s'" by simp
  with s(1) e(1,2) show ?thesis by blast
qed

text \<open>C37: over any run of enqueues, timers and \<^verbatim>\<open>Stop\<close> on a new queue, with deliveries that may
  themselves stop it: while the queue is not stopped, the datagrams that it accepted for a peer are
  those that it delivered and those still waiting, with their multiplicities, so that none is lost,
  none is delivered twice and none reaches another peer. A stopped queue has delivered only what it
  accepted, holds nothing, and never accepts or delivers anything again: only what was waiting when
  it stopped is discarded. And it is stopped exactly if \<^verbatim>\<open>Stop\<close> was called or a delivery that
  stops it was made.\<close>

theorem queue_loses_nothing:
  assumes "UdpDatagramQueue config direction maximum = Inr s"
    and "\<forall>now k d. Enqueuing now k [] d \<notin> set events"
  shows "\<exists>l. run_steps (ledger_step stops) (ledger_of s) events = Inr l
    \<and> (\<not> dq_stopped (lg_queue l) \<longrightarrow> (\<forall>k. lg_accepted l k = lg_delivered l k
          + image_mset (\<lambda>item. (qi_delivery item, qi_bytes item)) (waiting (lg_queue l) k)))
    \<and> (dq_stopped (lg_queue l) \<longrightarrow> (\<forall>k. lg_delivered l k \<subseteq># lg_accepted l k \<and> waiting (lg_queue l) k = {#})
        \<and> (\<forall>e. \<exists>l'. ledger_step stops l e = Inr l' \<and> lg_queue l' = lg_queue l
              \<and> lg_accepted l' = lg_accepted l \<and> lg_delivered l' = lg_delivered l))
    \<and> (dq_stopped (lg_queue l) \<longleftrightarrow>
        Stopping \<in> set events \<or> (\<exists>k. \<exists>x \<in># lg_delivered l k. stops (fst x)))"
proof -
  have run: "\<not> dq_stopped s" using assms(1) by (auto simp: UdpDatagramQueue_def split: if_splits)
  note start = ledger_inv_start [OF queue_inv_new [OF assms(1)] run, of stops]
  have allowed: "not_empty l e" if "e \<in> set events" for l e
  proof (cases e)
    case (Enqueuing now k b d)
    with that assms(2) show ?thesis by (metis not_empty.simps(1))
  qed simp_all
  from queue_machine.run_total_when [of events, OF this start] obtain l where
    l: "run_steps (ledger_step stops) (ledger_of s) events = Inr l" "ledger_inv stops l" by blast
  have q: "queue_inv (lg_queue l)" using l(2) by (simp add: ledger_inv_def)
  have "dq_stopped (lg_queue l) \<longleftrightarrow> Stopping \<in> set events \<or> stop_delivered stops l"
    using run_stopped_iff [OF l(1) start allowed] run by (simp add: ledger_of_def)
  then show ?thesis
    using l(1) l(2) [unfolded ledger_inv_def] waiting_stopped [OF q] ledger_step_stopped [OF q]
    by (intro exI [of _ l]) (simp add: stop_delivered_def datagram_of_def [abs_def])
qed

theorem queue_loses_nothing_witness:
  "\<exists>s l. UdpDatagramQueue sample_shaping ServerToClient 8 = Inr s
    \<and> run_steps (ledger_step (\<lambda>d. d = 1)) (ledger_of s)
        [Enqueuing 0 3 [9] (0::nat), Enqueuing 5 3 [8] 0, Firing 70 3 1, Stopping, Enqueuing 90 3 [7] 0] = Inr l
    \<and> dq_stopped (lg_queue l) \<and> lg_delivered l 3 \<subseteq># lg_accepted l 3"
proof -
  obtain s :: "nat datagram_queue" where s: "UdpDatagramQueue sample_shaping ServerToClient 8 = Inr s"
    by (auto simp: UdpDatagramQueue_def DatagramShaper_def sample_shaping_def)
  let ?events = "[Enqueuing 0 3 [9] (0::nat), Enqueuing 5 3 [8] 0, Firing 70 3 1, Stopping, Enqueuing 90 3 [7] 0]"
  have "\<forall>now k d. Enqueuing now k [] d \<notin> set ?events" by simp
  from queue_loses_nothing [OF s this, of "\<lambda>d. d = 1"] obtain l where
      l: "run_steps (ledger_step (\<lambda>d. d = 1)) (ledger_of s) ?events = Inr l"
      "dq_stopped (lg_queue l) \<longrightarrow> (\<forall>k. lg_delivered l k \<subseteq># lg_accepted l k)"
    and "dq_stopped (lg_queue l) \<longleftrightarrow> Stopping \<in> set ?events \<or> (\<exists>k. \<exists>x \<in># lg_delivered l k. fst x = 1)"
    by blast
  then have "dq_stopped (lg_queue l)" by simp
  with l s show ?thesis by blast
qed

section \<open>Snapshots and connections, end to end\<close>

text \<open>C38: a snapshot that satisfies the rules of the game's state, and no other, is encoded; it is
  cut into at most four fragments, and whatever order they arrive in, with whatever repetitions, a
  client that has seen only older snapshots delivers exactly one payload, which decodes to the
  snapshot with its lists in the order of their identifiers.\<close>

theorem snapshot_end_to_end:
  assumes "snapshot \<noteq> 0"
    and "case re_highestSnapshotId r of None \<Rightarrow> True | Some highest \<Rightarrow> highest < snapshot"
  shows "case EncodeGameSnapshot s of
      Inl e \<Rightarrow> \<not> snapshot_ok s \<and> e = Invalid_argument
    | Inr p \<Rightarrow> snapshot_ok s \<and> (\<exists>fs. FragmentSnapshot m snapshot tick ack p = Inr fs \<and> length fs \<le> 4
        \<and> (\<forall>gs. set gs = set fs \<longrightarrow>
             map (\<lambda>d. (rd_snapshotId d, DecodeGameSnapshot (rd_bytes d))) (fst (push_all gs r))
               = [(snapshot, Inr (canon_snapshot s))]))"
proof (cases "snapshot_ok s")
  case True
  let ?p = "snapshot_bytes (sorted_snapshot s)"
  have len: "length ?p \<le> 4352"
    using True by (intro length_snapshot_bytes) (simp_all add: snapshot_ok_def sorted_snapshot_def)
  have "?p \<noteq> []" by (simp add: snapshot_bytes_def)
  then have fs: "FragmentSnapshot m snapshot tick ack ?p
      = Inr (map (fragment_at m snapshot tick ack ?p) [0..<ExpectedFragmentCount (length ?p)])"
    using assms(1) len by (simp add: FragmentSnapshot_Inr)
  moreover have "ExpectedFragmentCount (length ?p) \<le> 4"
    using div_le_mono [of "1157 + length ?p" 5509 1158] len
    by (simp add: ExpectedFragmentCount_def MaxSnapshotFragmentPayloadBytes_def)
  moreover have "DecodeGameSnapshot ?p = Inr (canon_snapshot s)" by (rule DecodeGameSnapshot_bytes [OF True])
  ultimately show ?thesis
    using True push_all_fragments [OF fs _ assms(2)] by (simp add: EncodeGameSnapshot_eq)
next
  case False
  then show ?thesis by (simp add: EncodeGameSnapshot_eq)
qed

theorem snapshot_end_to_end_witness:
  "\<exists>p fs. EncodeGameSnapshot sample_snapshot = Inr p \<and> FragmentSnapshot (MatchId 1) 7 30 2 p = Inr fs
    \<and> map (\<lambda>d. (rd_snapshotId d, DecodeGameSnapshot (rd_bytes d))) (fst (push_all (rev fs @ fs) SnapshotReassembler))
        = [(7, Inr (sample_snapshot\<lparr>gs_actors := [sample_contender, sample_neutral]\<rparr>))]"
proof -
  have ok: "fst (Canonicalize sample_snapshot)" by code_simp
  have canon: "canon_snapshot sample_snapshot = sample_snapshot\<lparr>gs_actors := [sample_contender, sample_neutral]\<rparr>"
    by code_simp
  have new: "case re_highestSnapshotId SnapshotReassembler of None \<Rightarrow> True | Some highest \<Rightarrow> highest < 7"
    by (simp add: SnapshotReassembler_def)
  have id: "(7 :: u32) \<noteq> 0" by simp
  show ?thesis
    using snapshot_end_to_end [OF id new, of sample_snapshot "MatchId 1" 30 2] ok canon
      Canonicalize_iff [of sample_snapshot]
    by (fastforce split: sum.splits)
qed

text \<open>C39: when TCP delivers a prefix of the bytes that one end gave to its socket, the frames
  delivered at the other end are a prefix of the messages that \<^verbatim>\<open>Send\<close>
  accepted, in order; and when the sender has written all and the receiver has taken all and waits
  for the next frame, they are the same. This holds whatever the two ends call and whatever
  completions fail.\<close>

theorem connection_delivers_in_order:
  assumes "link_machine.allowed_run link es" and "run_steps link_step link es = Inr sender"
    and "link_machine.allowed_run link fs" and "run_steps link_step link fs = Inr receiver"
    and "prefix (lk_consumed receiver) (lk_written sender)"
  shows "prefix (lk_delivered receiver) (lk_accepted sender)
    \<and> (nothing_queued sender \<and> awaits_frame receiver \<and> lk_consumed receiver = lk_written sender
        \<longrightarrow> lk_delivered receiver = lk_accepted sender)"
  using delivered_in_order delivered_all assms(5)
    link_inv_run [OF assms(1,2)] link_inv_run [OF assms(3,4)] by blast

theorem connection_delivers_in_order_witness:
  "\<exists>sender receiver. run_steps link_step link sample_sending = Inr sender
    \<and> run_steps link_step link sample_receiving = Inr receiver
    \<and> lk_delivered receiver = [sample_message]
    \<and> lk_accepted sender = [sample_message, sample_message]
    \<and> prefix (lk_delivered receiver) (lk_accepted sender)"
proof -
  obtain sender where sender: "run_steps link_step link sample_sending = Inr sender"
      "lk_accepted sender = [sample_message, sample_message]" "lk_written sender = frame_of sample_message"
    and sending: "link_machine.allowed_run link sample_sending"
    using sample_sending_run by blast
  obtain receiver where receiver: "run_steps link_step link sample_receiving = Inr receiver"
      "lk_delivered receiver = [sample_message]" "lk_consumed receiver = frame_of sample_message"
    and receiving: "link_machine.allowed_run link sample_receiving"
    using sample_receiving_run by blast
  have "prefix (lk_consumed receiver) (lk_written sender)" by (simp add: sender receiver)
  from connection_delivers_in_order [OF sending sender(1) receiving receiver(1) this]
  show ?thesis using sender receiver by blast
qed

text \<open>C40: the close handler of a connection is called at most once. An open connection counts its
  pending bytes exactly and keeps them within 262144; and when it is told to close after a flush
  and its writes succeed, it closes with every accepted frame written.\<close>

theorem connection_flushes_before_close:
  assumes "link_machine.allowed_run link es" and "run_steps link_step link es = Inr l"
  shows "length (lk_closes l) \<le> 1
    \<and> (\<not> cn_closed (lk_connection l) \<longrightarrow>
        cn_pendingWriteBytes (lk_connection l) = length (concat (cn_writeQueue (lk_connection l)))
        \<and> cn_pendingWriteBytes (lk_connection l) \<le> MaxPendingWriteBytes
        \<and> (\<exists>l'. run_steps link_step l (Calling CallCloseAfterFlush
                # replicate (length (cn_writeQueue (lk_connection l))) (WriteCompleted None)) = Inr l'
            \<and> cn_closed (lk_connection l') \<and> lk_written l' = frames (lk_accepted l)
            \<and> lk_accepted l' = lk_accepted l \<and> lk_closes l' = [OperationAborted]))"
proof -
  have inv: "link_inv l" by (rule link_inv_run [OF assms])
  then have "length (lk_closes l) \<le> 1" by (simp add: link_inv_def)
  moreover have "cn_pendingWriteBytes (lk_connection l) = length (concat (cn_writeQueue (lk_connection l)))
      \<and> cn_pendingWriteBytes (lk_connection l) \<le> MaxPendingWriteBytes" if "\<not> cn_closed (lk_connection l)"
    using inv that by (simp add: link_inv_def sending_ok_def Let_def)
  ultimately show ?thesis using CloseAfterFlush_flushes [OF inv] by blast
qed

theorem connection_flushes_before_close_witness:
  "\<exists>l l'. run_steps link_step link sample_sending = Inr l
    \<and> run_steps link_step l [Calling CallCloseAfterFlush, WriteCompleted None, WriteCompleted None] = Inr l'
    \<and> lk_written l' = frames [sample_message, sample_message] \<and> cn_closed (lk_connection l')"
proof -
  obtain l where l: "run_steps link_step link sample_sending = Inr l"
      "lk_accepted l = [sample_message, sample_message]" "length (cn_writeQueue (lk_connection l)) = 2"
      "\<not> cn_closed (lk_connection l)"
    and sending: "link_machine.allowed_run link sample_sending"
    using sample_sending_run by blast
  have two: "replicate 2 (WriteCompleted None) = [WriteCompleted None, WriteCompleted None]"
    by (simp add: numeral_2_eq_2)
  from connection_flushes_before_close [OF sending l(1)] l(4)
  have "\<exists>l'. run_steps link_step l (Calling CallCloseAfterFlush
        # replicate (length (cn_writeQueue (lk_connection l))) (WriteCompleted None)) = Inr l'
      \<and> cn_closed (lk_connection l') \<and> lk_written l' = frames (lk_accepted l)" by blast
  then show ?thesis unfolding l(2,3) two using l(1) by blast
qed

end
